(* ===== verification/Prelude.thy ===== *)
theory Prelude
  imports Main "HOL-Library.Word" "HOL-Library.Code_Target_Numeral"
begin

text \<open>
  Shared vocabulary of the development.

  \<^item> The data of the JavaScript language that the components exchange: UTF-16 strings
    (\<open>ustring\<close>), binary64 numbers (\<open>jsnum\<close>), and values of type \<open>unknown\<close> (\<open>js\<close>).
  \<^item> Results of code that may throw (\<open>'e + 'a\<close>, \<open>Inl\<close> the thrown error) and their sequencing.
  \<^item> Insertion-ordered maps (\<open>Map\<close> and the string keys of an object literal) as association lists.
  \<^item> The rule collections and generic lemmas the component theories use.
\<close>

named_theorems res_simps \<open>unfolding of result sequencing\<close>
named_theorems amap_simps \<open>insertion-ordered maps\<close>
named_theorems frame_simps \<open>fields an operation does not touch\<close>

section \<open>Bytes, strings and numbers\<close>

type_synonym byte = "8 word"
type_synonym code_unit = "16 word"
type_synonym ustring = "code_unit list"

text \<open>An ASCII literal of the source as a JavaScript string.\<close>

definition js_lit :: "string \<Rightarrow> ustring" where
  "js_lit s = map (\<lambda>c. of_nat (of_char c)) s"

lemma js_lit_inject [simp]: "js_lit a = js_lit b \<longleftrightarrow> a = b"
proof -
  have "inj (\<lambda>c. of_nat (of_char c) :: code_unit)"
  proof
    fix c d :: char
    assume "(of_nat (of_char c) :: code_unit) = of_nat (of_char d)"
    then have "unat (of_nat (of_char c) :: code_unit) = unat (of_nat (of_char d) :: code_unit)" by simp
    moreover have "of_char e < (65536 :: nat)" for e :: char
    proof -
      have "of_char e mod 256 < (256 :: nat)" by (rule mod_less_divisor) simp
      then show ?thesis unfolding of_char_mod_256 by (rule less_trans) simp
    qed
    ultimately show "c = d" by (simp add: unat_of_nat)
  qed
  then show ?thesis unfolding js_lit_def by (rule inj_map_eq_map)
qed

text \<open>
  A JavaScript number is a binary64 value. Integral values other than \<open>-0\<close> are kept as the
  integer they denote; a finite non-integral value is kept as its bit pattern, so no arithmetic
  on it is approximated.
\<close>

datatype jsnum =
    NInt int
  | NNegZero
  | NFrac "64 word"
  | NNaN
  | NPosInf
  | NNegInf

definition max_safe :: int where
  "max_safe = 9007199254740991"

fun is_finite :: "jsnum \<Rightarrow> bool" where
  "is_finite NNaN = False"
| "is_finite NPosInf = False"
| "is_finite NNegInf = False"
| "is_finite _ = True"

fun is_integer :: "jsnum \<Rightarrow> bool" where
  "is_integer (NInt _) = True"
| "is_integer NNegZero = True"
| "is_integer _ = False"

fun is_safe_integer :: "jsnum \<Rightarrow> bool" where
  "is_safe_integer (NInt i) = (\<bar>i\<bar> \<le> max_safe)"
| "is_safe_integer NNegZero = True"
| "is_safe_integer _ = False"

text \<open>
  The number a binary64 bit pattern denotes (\<open>DataView.getFloat64\<close>): sign, eleven exponent bits
  and fifty-two fraction bits.
\<close>

definition num_of_bits :: "64 word \<Rightarrow> jsnum" where
  "num_of_bits w =
     (let n = unat w;
          neg = n \<ge> 2 ^ 63;
          e = (n div 2 ^ 52) mod 2048;
          m = n mod 2 ^ 52;
          sg = (\<lambda>k::nat. NInt (if neg then - int k else int k))
      in if e = 2047 then (if m = 0 then (if neg then NNegInf else NPosInf) else NNaN)
         else if e = 0 then (if m = 0 then (if neg then NNegZero else NInt 0) else NFrac w)
         else if e \<ge> 1075 then sg ((2 ^ 52 + m) * 2 ^ (e - 1075))
         else if (2 ^ 52 + m) mod 2 ^ (1075 - e) = 0 then sg ((2 ^ 52 + m) div 2 ^ (1075 - e))
         else NFrac w)"

fun top_bit :: "nat \<Rightarrow> nat" where
  "top_bit n = (if n < 2 then 0 else Suc (top_bit (n div 2)))"

declare top_bit.simps [simp del]

text \<open>The bit pattern of a number (\<open>DataView.setFloat64\<close>).\<close>

fun bits_of_num :: "jsnum \<Rightarrow> 64 word" where
  "bits_of_num (NInt i) =
     (if i = 0 then 0
      else let a = nat \<bar>i\<bar>; e = top_bit a;
               m = (if e \<le> 52 then (a - 2 ^ e) * 2 ^ (52 - e) else a div 2 ^ (e - 52) - 2 ^ 52)
           in of_nat ((if i < 0 then 2 ^ 63 else 0) + (e + 1023) * 2 ^ 52 + m))"
| "bits_of_num NNegZero = 0x8000000000000000"
| "bits_of_num (NFrac w) = w"
| "bits_of_num NNaN = 0x7ff8000000000000"
| "bits_of_num NPosInf = 0x7ff0000000000000"
| "bits_of_num NNegInf = 0xfff0000000000000"

text \<open>A number in the representation above: an \<open>NFrac\<close> pattern is one of a non-integral value.\<close>

fun num_ok :: "jsnum \<Rightarrow> bool" where
  "num_ok (NFrac w) = (num_of_bits w = NFrac w)"
| "num_ok _ = True"

section \<open>Values of type unknown\<close>

datatype proto = ObjectProto | NullProto | OtherProto

text \<open>
  A value: \<open>JObj p s kvs\<close> is an object with prototype \<open>p\<close>, with an enumerable symbol-keyed
  property if \<open>s\<close>, and with the own enumerable string-keyed properties \<open>kvs\<close> in the order
  \<open>Object.keys\<close> enumerates them. \<open>JUndef\<close> stands for \<open>undefined\<close> and for a hole of an array.
  \<open>JOther t\<close> is a value whose \<open>typeof\<close> is \<open>t\<close> and which none of the codecs accepts (functions,
  symbols, bigints). Values are finite trees.
\<close>

datatype js =
    JUndef
  | JNull
  | JBool bool
  | JNum jsnum
  | JStr ustring
  | JBytes "byte list"
  | JArr "js list"
  | JObj proto bool "(ustring \<times> js) list"
  | JOther ustring

text \<open>
  Property order of an object: array-index keys come first in ascending order, the other string
  keys follow in insertion order. \<open>array_index\<close> reads a canonical array index.
\<close>

fun digits_value :: "ustring \<Rightarrow> nat \<Rightarrow> nat option" where
  "digits_value [] acc = Some acc"
| "digits_value (c # cs) acc =
     (if 48 \<le> c \<and> c \<le> 57 then digits_value cs (acc * 10 + (unat c - 48)) else None)"

definition array_index :: "ustring \<Rightarrow> nat option" where
  "array_index s =
     (case s of [] \<Rightarrow> None
      | c # cs \<Rightarrow>
         if c = 48 \<and> cs \<noteq> [] then None
         else (case digits_value s 0 of None \<Rightarrow> None
               | Some n \<Rightarrow> if n < 4294967295 then Some n else None))"

text \<open>Whether the property \<open>k\<close> stands before the property \<open>k'\<close> when \<open>k'\<close> is defined last.\<close>

definition key_before :: "ustring \<Rightarrow> ustring \<Rightarrow> bool" where
  "key_before k k' =
     (case array_index k' of
        None \<Rightarrow> True
      | Some n' \<Rightarrow> (case array_index k of None \<Rightarrow> False | Some n \<Rightarrow> n < n'))"

text \<open>\<open>Object.defineProperty\<close> of a key the object does not have yet.\<close>

fun define_property :: "(ustring \<times> js) list \<Rightarrow> ustring \<Rightarrow> js \<Rightarrow> (ustring \<times> js) list" where
  "define_property [] k v = [(k, v)]"
| "define_property ((k0, v0) # kvs) k v =
     (if key_before k0 k then (k0, v0) # define_property kvs k v
      else (k, v) # (k0, v0) # kvs)"

text \<open>The property lists objects can have.\<close>

fun keys_ordered :: "ustring list \<Rightarrow> bool" where
  "keys_ordered [] = True"
| "keys_ordered (k # ks) = (k \<notin> set ks \<and> (\<forall>k' \<in> set ks. key_before k k') \<and> keys_ordered ks)"

lemma define_property_last:
  "\<forall>k0 \<in> fst ` set kvs. key_before k0 k \<Longrightarrow> define_property kvs k v = kvs @ [(k, v)]"
  by (induction kvs) auto

lemma keys_ordered_append:
  "keys_ordered (ks @ ks') \<longleftrightarrow>
     keys_ordered ks \<and> keys_ordered ks' \<and> set ks \<inter> set ks' = {} \<and>
     (\<forall>k \<in> set ks. \<forall>k' \<in> set ks'. key_before k k')"
  by (induction ks) auto

section \<open>Results of code that may throw\<close>

definition rbind :: "'e + 'a \<Rightarrow> ('a \<Rightarrow> 'e + 'b) \<Rightarrow> 'e + 'b" where
  "rbind r f = (case r of Inl e \<Rightarrow> Inl e | Inr a \<Rightarrow> f a)"

lemma rbind_simps [simp, res_simps]:
  "rbind (Inl e) f = Inl e"
  "rbind (Inr a) f = f a"
  by (simp_all add: rbind_def)

lemma rbind_cong [fundef_cong]:
  "r = r' \<Longrightarrow> (\<And>a. r' = Inr a \<Longrightarrow> f a = g a) \<Longrightarrow> rbind r f = rbind r' g"
  by (cases r') auto

lemma rbind_Inr_iff [res_simps]: "rbind r f = Inr b \<longleftrightarrow> (\<exists>a. r = Inr a \<and> f a = Inr b)"
  by (cases r) auto

lemma rbind_Inl_iff [res_simps]:
  "rbind r f = Inl e \<longleftrightarrow> r = Inl e \<or> (\<exists>a. r = Inr a \<and> f a = Inl e)"
  by (cases r) auto

lemma rbind_InrE [elim!]:
  assumes "rbind r f = Inr b"
  obtains a where "r = Inr a" and "f a = Inr b"
  using assms by (auto simp: rbind_Inr_iff)

lemma rbind_assoc: "rbind (rbind r f) g = rbind r (\<lambda>a. rbind (f a) g)"
  by (cases r) auto

text \<open>\<open>if (c) throw e\<close>: the statement throws \<open>e\<close> or falls through.\<close>

definition throw_if :: "bool \<Rightarrow> 'e \<Rightarrow> 'e + unit" where
  "throw_if c e = (if c then Inl e else Inr ())"

lemma throw_if_simps [simp]:
  "throw_if c e = Inr u \<longleftrightarrow> \<not> c"
  "throw_if c e = Inl e' \<longleftrightarrow> c \<and> e' = e"
  by (auto simp: throw_if_def)

lemma rbind_throw_if [simp]: "rbind (throw_if c e) f = (if c then Inl e else f ())"
  by (simp add: throw_if_def)

section \<open>Insertion-ordered maps\<close>

text \<open>
  A \<open>Map\<close>: an association list in insertion order. Setting a present key keeps its position.
\<close>

fun amap_set :: "('k \<times> 'v) list \<Rightarrow> 'k \<Rightarrow> 'v \<Rightarrow> ('k \<times> 'v) list" where
  "amap_set [] k v = [(k, v)]"
| "amap_set ((k0, v0) # m) k v =
     (if k0 = k then (k, v) # m else (k0, v0) # amap_set m k v)"

definition amap_delete :: "('k \<times> 'v) list \<Rightarrow> 'k \<Rightarrow> ('k \<times> 'v) list" where
  "amap_delete m k = filter (\<lambda>(k', _). k' \<noteq> k) m"

abbreviation amap_get :: "('k \<times> 'v) list \<Rightarrow> 'k \<Rightarrow> 'v option" where
  "amap_get m k \<equiv> map_of m k"

abbreviation amap_has :: "('k \<times> 'v) list \<Rightarrow> 'k \<Rightarrow> bool" where
  "amap_has m k \<equiv> map_of m k \<noteq> None"

text \<open>The interface of a \<open>Map\<close>, as its users rely on it.\<close>

locale js_map =
  fixes get :: "'m \<Rightarrow> 'k \<Rightarrow> 'v option"
    and put :: "'m \<Rightarrow> 'k \<Rightarrow> 'v \<Rightarrow> 'm"
    and del :: "'m \<Rightarrow> 'k \<Rightarrow> 'm"
  assumes get_put: "get (put m k v) k' = (if k' = k then Some v else get m k')"
    and get_del: "get (del m k) k' = (if k' = k then None else get m k')"
begin

lemma get_put_same: "get (put m k v) k = Some v"
  by (simp add: get_put)

lemma get_put_fun: "get (put m k v) = (get m)(k \<mapsto> v)"
  by (auto simp: get_put)

lemma get_del_fun: "get (del m k) = (get m)(k := None)"
  by (auto simp: get_del)

lemma put_overwrites: "get (put (put m k v) k w) = get (put m k w)"
  by (auto simp: get_put)

lemma del_undoes_put: "get m k = None \<Longrightarrow> get (del (put m k v) k) = get m"
  by (auto simp: get_put get_del)

end

lemma map_of_amap_set: "map_of (amap_set m k v) k' = (if k' = k then Some v else map_of m k')"
  by (induction m k v rule: amap_set.induct) auto

lemma map_of_amap_delete: "map_of (amap_delete m k) k' = (if k' = k then None else map_of m k')"
  unfolding amap_delete_def by (induction m) auto

interpretation amap: js_map map_of amap_set amap_delete
  by unfold_locales (simp_all add: map_of_amap_set map_of_amap_delete)

lemmas amap_lookup [simp, amap_simps] = amap.get_put_fun amap.get_del_fun

lemma keys_amap_set [amap_simps]:
  "map fst (amap_set m k v) = (if k \<in> set (map fst m) then map fst m else map fst m @ [k])"
  by (induction m k v rule: amap_set.induct) auto

lemma set_keys_amap_set [amap_simps]: "fst ` set (amap_set m k v) = insert k (fst ` set m)"
  by (induction m k v rule: amap_set.induct) auto

lemma distinct_amap_set [amap_simps]: "distinct (map fst m) \<Longrightarrow> distinct (map fst (amap_set m k v))"
  by (auto simp: keys_amap_set)

lemma amap_set_fresh [amap_simps]: "k \<notin> fst ` set m \<Longrightarrow> amap_set m k v = m @ [(k, v)]"
  by (induction m k v rule: amap_set.induct) auto

lemma set_amap_set_subset: "set (amap_set m k v) \<subseteq> insert (k, v) (set m)"
  by (induction m k v rule: amap_set.induct) auto

lemma distinct_amap_delete [amap_simps]:
  "distinct (map fst m) \<Longrightarrow> distinct (map fst (amap_delete m k))"
  unfolding amap_delete_def by (induction m) auto

lemma set_amap_delete [amap_simps]: "set (amap_delete m k) = {kv \<in> set m. fst kv \<noteq> k}"
  by (auto simp: amap_delete_def)

section \<open>Lists\<close>

lemma take_append_same [simp]: "take (length xs) (xs @ ys) = xs"
  by simp

lemma last_filter_index:
  assumes "xs \<noteq> []"
  shows "last xs = xs ! (length xs - 1)"
  using assms by (simp add: last_conv_nth)

text \<open>Writing a block of bytes into a buffer at an offset (\<open>Uint8Array.set\<close>).\<close>

definition buf_set :: "'a list \<Rightarrow> nat \<Rightarrow> 'a list \<Rightarrow> 'a list" where
  "buf_set buf off bs = take off buf @ bs @ drop (off + length bs) buf"

lemma length_buf_set [simp]:
  "off + length bs \<le> length buf \<Longrightarrow> length (buf_set buf off bs) = length buf"
  by (simp add: buf_set_def)

lemma take_buf_set:
  "off + length bs \<le> length buf \<Longrightarrow>
     take (off + length bs) (buf_set buf off bs) = take off buf @ bs"
  by (simp add: buf_set_def)

lemma buf_set_Cons: "off < length buf \<Longrightarrow> buf_set buf off [b] = buf[off := b]"
  by (simp add: buf_set_def upd_conv_take_nth_drop)

section \<open>Feeding a stream in chunks\<close>

text \<open>A consumer of chunks run over several of them: it stops at the first error.\<close>

fun feed_all :: "('d \<Rightarrow> 'c \<Rightarrow> ('e + 'f list) \<times> 'd) \<Rightarrow> 'd \<Rightarrow> 'c list \<Rightarrow> ('e + 'f list) \<times> 'd" where
  "feed_all feed d [] = (Inr [], d)"
| "feed_all feed d (c # cs) =
     (case feed d c of
        (Inl e, d') \<Rightarrow> (Inl e, d')
      | (Inr fs, d') \<Rightarrow>
          (case feed_all feed d' cs of
             (Inl e, d'') \<Rightarrow> (Inl e, d'')
           | (Inr gs, d'') \<Rightarrow> (Inr (fs @ gs), d'')))"

text \<open>What delivering \<open>fs\<close> before the items of the remaining input amounts to.\<close>

definition deliver :: "'f list \<Rightarrow> 'e + ('f list \<times> 'b list) \<Rightarrow> 'e + ('f list \<times> 'b list)" where
  "deliver fs r = rbind r (\<lambda>(gs, q). Inr (fs @ gs, q))"

lemma deliver_simps [simp]:
  "deliver [] r = r"
  "deliver fs (Inl n) = Inl n"
  "deliver fs (Inr (gs, q)) = Inr (fs @ gs, q)"
  "deliver fs (deliver gs r) = deliver (fs @ gs) r"
  by (cases r; auto simp: deliver_def)+

text \<open>
  The contract of an incremental decoder: \<open>cut\<close> says what a whole input amounts to, and \<open>feed\<close>
  delivers at each chunk what the bytes held back and the chunk amount to. Then the way the input is
  cut into chunks does not matter.
\<close>

locale stream_cutter =
  fixes cut :: "'b list \<Rightarrow> 'x + ('f list \<times> 'b list)"
    and feed :: "'d \<Rightarrow> 'b list \<Rightarrow> ('e + 'f list) \<times> 'd"
    and ok :: "'d \<Rightarrow> bool" and dead :: "'d \<Rightarrow> bool" and held :: "'d \<Rightarrow> 'b list" and err :: "'x \<Rightarrow> 'e"
  assumes cut_append:
      "cut (xs @ ys) = (case cut xs of Inl e \<Rightarrow> Inl e | Inr (fs, q) \<Rightarrow> deliver fs (cut (q @ ys)))"
    and cut_held: "ok d \<Longrightarrow> cut (held d) = Inr ([], held d)"
    and feed_Inr: "ok d \<Longrightarrow> cut (held d @ c) = Inr (fs, q) \<Longrightarrow>
      \<exists>d'. feed d c = (Inr fs, d') \<and> ok d' \<and> held d' = q"
    and feed_Inl: "ok d \<Longrightarrow> cut (held d @ c) = Inl e \<Longrightarrow> \<exists>d'. feed d c = (Inl (err e), d') \<and> dead d'"
begin

lemma feed_all_cut:
  "ok d \<Longrightarrow> case cut (held d @ concat cs) of
      Inl e \<Rightarrow> \<exists>d'. feed_all feed d cs = (Inl (err e), d') \<and> dead d'
    | Inr (fs, q) \<Rightarrow> \<exists>d'. feed_all feed d cs = (Inr fs, d') \<and> ok d' \<and> held d' = q"
proof (induction cs arbitrary: d)
  case Nil
  then show ?case by (simp add: cut_held)
next
  case (Cons c cs)
  show ?case
  proof (cases "cut (held d @ c)")
    case (Inl e)
    with feed_Inl [OF Cons.prems Inl] show ?thesis
      using cut_append [of "held d @ c" "concat cs"] by auto
  next
    case (Inr r)
    obtain fs q where r: "r = (fs, q)" by (cases r)
    obtain d1 where d1: "feed d c = (Inr fs, d1)" "ok d1" "held d1 = q"
      using feed_Inr [OF Cons.prems] Inr r by blast
    have "cut (held d @ concat (c # cs)) = deliver fs (cut (held d1 @ concat cs))"
      using cut_append [of "held d @ c" "concat cs"] Inr r d1(3) by simp
    with Cons.IH [OF d1(2)] d1(1) show ?thesis by (auto split: sum.splits prod.splits)
  qed
qed

lemma chunking_irrelevant:
  assumes "ok d" and "concat cs = concat cs'"
  shows "fst (feed_all feed d cs) = fst (feed_all feed d cs')"
  using feed_all_cut [OF assms(1), of cs] feed_all_cut [OF assms(1), of cs'] assms(2)
  by (auto split: sum.splits prod.splits)

end

end
