(* ===== verification/Js_Number.thy ===== *)
theory Js_Number
  imports Prelude
begin

text \<open>
  The arithmetic of numbers that the components use: binary64 addition with rounding to nearest, ties
  to even, and the decimal text of an integer.
\<close>

section \<open>Addition\<close>

text \<open>A finite number as \<open>m * 2 ^ e\<close>.\<close>

fun scaled :: "jsnum \<Rightarrow> int \<times> int" where
  "scaled (NInt i) = (i, 0)"
| "scaled (NFrac w) =
     (let n = unat w; e = (n div 2 ^ 52) mod 2048; m = n mod 2 ^ 52;
          sg = (if n \<ge> 2 ^ 63 then -1 else 1)
      in if e = 0 then (sg * int m, - 1074) else (sg * int (2 ^ 52 + m), int e - 1075))"
| "scaled _ = (0, 0)"

text \<open>
  The binary64 number nearest to \<open>m * 2 ^ e\<close>. \<open>last_place\<close> is the exponent of the last place of the
  result and \<open>significand\<close> its digits in that place.
\<close>

definition round_half_even :: "nat \<Rightarrow> nat \<Rightarrow> nat" where
  "round_half_even a s =
     (if s = 0 then a
      else if a mod 2 ^ s > 2 ^ (s - 1) \<or> a mod 2 ^ s = 2 ^ (s - 1) \<and> odd (a div 2 ^ s)
      then a div 2 ^ s + 1 else a div 2 ^ s)"

definition last_place :: "nat \<Rightarrow> int \<Rightarrow> int" where
  "last_place a e = max (int (top_bit a) + e - 52) (- 1074)"

definition significand :: "nat \<Rightarrow> int \<Rightarrow> int \<Rightarrow> nat" where
  "significand a e q = (if q \<le> e then a * 2 ^ nat (e - q) else round_half_even a (nat (q - e)))"

definition sign_int :: "bool \<Rightarrow> nat \<Rightarrow> jsnum" where
  "sign_int neg k = NInt (if neg then - int k else int k)"

definition assemble :: "bool \<Rightarrow> int \<Rightarrow> nat \<Rightarrow> jsnum" where
  "assemble neg q d =
     (if q \<ge> 0 then
        (if d * 2 ^ nat q \<ge> 2 ^ 1024 then (if neg then NNegInf else NPosInf)
         else sign_int neg (d * 2 ^ nat q))
      else if d = 0 then (if neg then NNegZero else NInt 0)
      else if d mod 2 ^ nat (- q) = 0 then sign_int neg (d div 2 ^ nat (- q))
      else NFrac (of_nat ((if neg then 2 ^ 63 else 0)
             + (if d < 2 ^ 52 then d
                else if d = 2 ^ 53 then nat (q + 1076) * 2 ^ 52
                else nat (q + 1075) * 2 ^ 52 + (d - 2 ^ 52)))))"

definition round_at :: "bool \<Rightarrow> nat \<Rightarrow> int \<Rightarrow> int \<Rightarrow> jsnum" where
  "round_at neg a e q = assemble neg q (significand a e q)"

definition round_num :: "int \<Rightarrow> int \<Rightarrow> jsnum" where
  "round_num m e =
     (if m = 0 then NInt 0 else round_at (m < 0) (nat \<bar>m\<bar>) e (last_place (nat \<bar>m\<bar>) e))"

definition add_at :: "int \<Rightarrow> int \<times> int \<Rightarrow> int \<times> int \<Rightarrow> jsnum" where
  "add_at e x y = round_num (fst x * 2 ^ nat (snd x - e) + fst y * 2 ^ nat (snd y - e)) e"

definition add_scaled :: "int \<times> int \<Rightarrow> int \<times> int \<Rightarrow> jsnum" where
  "add_scaled x y = add_at (min (snd x) (snd y)) x y"

fun num_add :: "jsnum \<Rightarrow> jsnum \<Rightarrow> jsnum" where
  "num_add NNaN _ = NNaN"
| "num_add _ NNaN = NNaN"
| "num_add NPosInf NNegInf = NNaN"
| "num_add NNegInf NPosInf = NNaN"
| "num_add NPosInf _ = NPosInf"
| "num_add _ NPosInf = NPosInf"
| "num_add NNegInf _ = NNegInf"
| "num_add _ NNegInf = NNegInf"
| "num_add NNegZero NNegZero = NNegZero"
| "num_add x y = add_scaled (scaled x) (scaled y)"

lemmas num_add_defs = add_scaled_def add_at_def round_num_def round_at_def last_place_def
  significand_def round_half_even_def assemble_def sign_int_def top_bit.simps

text \<open>0.1 + 0.2, 0.5 + 0.5, 2 ^ 53 + 1 (a tie) and -0.3 + 0.1.\<close>

lemma num_add_examples:
  "num_add (NFrac 0x3fb999999999999a) (NFrac 0x3fc999999999999a) = NFrac 0x3fd3333333333334"
  "num_add (NFrac 0x3fe0000000000000) (NFrac 0x3fe0000000000000) = NInt 1"
  "num_add (NInt 9007199254740992) (NInt 1) = NInt 9007199254740992"
  "num_add (NFrac 0xbfd3333333333333) (NFrac 0x3fb999999999999a) = NFrac 0xbfc9999999999999"
  by (simp_all add: num_add_defs Let_def)

section \<open>Decimal text\<close>

fun nat_text :: "nat \<Rightarrow> ustring" where
  "nat_text n = (if n < 10 then [of_nat (48 + n)] else nat_text (n div 10) @ [of_nat (48 + n mod 10)])"

declare nat_text.simps [simp del]

definition int_text :: "int \<Rightarrow> ustring" where
  "int_text i = (if i < 0 then js_lit ''-'' @ nat_text (nat (- i)) else nat_text (nat i))"

lemma digits_value_snoc:
  "digits_value (xs @ [c]) acc =
     (case digits_value xs acc of None \<Rightarrow> None
      | Some v \<Rightarrow> if 48 \<le> c \<and> c \<le> 57 then Some (v * 10 + (unat c - 48)) else None)"
  by (induction xs arbitrary: acc) auto

lemma unat_digit: "d < 10 \<Longrightarrow> unat (of_nat (48 + d) :: code_unit) = 48 + d"
  by (simp add: unat_of_nat del: of_nat_add)

lemma digit_range: "d < 10 \<Longrightarrow> 48 \<le> (of_nat (48 + d) :: code_unit) \<and> (of_nat (48 + d) :: code_unit) \<le> 57"
  using unat_digit [of d] by (simp add: word_le_nat_alt del: of_nat_add)

text \<open>The text of a natural number reads back as that number, so distinct numbers have distinct texts.\<close>

lemma digits_value_nat_text: "digits_value (nat_text n) 0 = Some n"
proof (induction n rule: nat_text.induct)
  case (1 n)
  show ?case
  proof (cases "n < 10")
    case True
    then show ?thesis
      using digit_range [of n] unat_digit [of n] by (simp add: nat_text.simps del: of_nat_add)
  next
    case False
    then show ?thesis
      using 1 [OF False] digit_range [of "n mod 10"] unat_digit [of "n mod 10"]
      by (subst nat_text.simps) (simp add: digits_value_snoc del: of_nat_add)
  qed
qed

lemma nat_text_inj: "nat_text n = nat_text m \<longleftrightarrow> n = m"
  using digits_value_nat_text by (metis option.inject)

end
