(* ===== verification/Messages.thy ===== *)
theory Messages
  imports Js_Number
begin

text \<open>
  The messages of a conversation: the content blocks, usage and message types of
  \<^verbatim>\<open>pi/packages/ai/src/types.ts\<close>, the harness messages of \<^verbatim>\<open>pi/packages/agent/src/harness/messages.ts\<close>,
  their union \<open>AgentMessage\<close> of \<^verbatim>\<open>pi/packages/agent/src/types.ts\<close>, and the projection of a transcript to
  what a model is sent (\<open>convertToLlm\<close>). A field that the source marks optional is an \<open>option\<close>; token
  counts and timestamps are integers, costs are binary64 numbers.
\<close>

section \<open>Content and usage\<close>

record TextContent =
  tc_text :: ustring
  tc_textSignature :: "ustring option"

record ThinkingContent =
  th_thinking :: ustring
  th_thinkingSignature :: "ustring option"
  th_redacted :: "bool option"

record ImageContent =
  ic_data :: ustring
  ic_mimeType :: ustring

record ToolCall =
  call_id :: ustring
  call_name :: ustring
  call_arguments :: js
  call_thoughtSignature :: "ustring option"
  call_namespace :: "ustring option"

datatype user_block = UText TextContent | UImage ImageContent
datatype assistant_block = AText TextContent | AThinking ThinkingContent | AToolCall ToolCall
datatype user_content = CString ustring | CBlocks "user_block list"

record UsageCost =
  uc_input :: jsnum
  uc_output :: jsnum
  uc_cacheRead :: jsnum
  uc_cacheWrite :: jsnum
  uc_total :: jsnum

record Usage =
  us_input :: int
  us_output :: int
  us_cacheRead :: int
  us_cacheWrite :: int
  us_cacheWrite1h :: "int option"
  us_reasoning :: "int option"
  us_totalTokens :: int
  us_cost :: UsageCost

datatype StopReason = SPending | SStop | SLength | SToolUse | SError | SAborted | SDeferred

record DeferredHandle =
  dh_provider :: ustring
  dh_modelId :: ustring
  dh_api :: ustring
  dh_id :: ustring
  dh_expiresAt :: "int option"
  dh_pollAfterMs :: "int option"
  dh_data :: "js option"

section \<open>Messages\<close>

record UserMessage =
  um_content :: user_content
  um_timestamp :: int

record AssistantMessage =
  am_content :: "assistant_block list"
  am_api :: ustring
  am_provider :: ustring
  am_model :: ustring
  am_responseModel :: "ustring option"
  am_responseId :: "ustring option"
  am_diagnostics :: "js list option"
  am_usage :: Usage
  am_stopReason :: StopReason
  am_deferred :: "DeferredHandle option"
  am_errorMessage :: "ustring option"
  am_rawStopReason :: "ustring option"
  am_endTurn :: "bool option"
  am_timestamp :: int

record ToolResultMessage =
  tr_toolCallId :: ustring
  tr_toolName :: ustring
  tr_content :: "user_block list"
  tr_details :: "js option"
  tr_usage :: "Usage option"
  tr_addedToolNames :: "ustring list option"
  tr_isError :: bool
  tr_timestamp :: int

record BashExecutionMessage =
  be_command :: ustring
  be_output :: ustring
  be_exitCode :: "int option"
  be_cancelled :: bool
  be_truncated :: bool
  be_fullOutputPath :: "ustring option"
  be_timestamp :: int
  be_excludeFromContext :: "bool option"

record CustomMessage =
  cm_customType :: ustring
  cm_content :: user_content
  cm_display :: bool
  cm_details :: "js option"
  cm_timestamp :: int

record BranchSummaryMessage =
  bs_summary :: ustring
  bs_fromId :: ustring
  bs_timestamp :: int

record CompactionSummaryMessage =
  cs_summary :: ustring
  cs_tokensBefore :: int
  cs_timestamp :: int

datatype AgentMessage =
    MUser UserMessage
  | MAssistant AssistantMessage
  | MToolResult ToolResultMessage
  | MBash BashExecutionMessage
  | MCustom CustomMessage
  | MBranchSummary BranchSummaryMessage
  | MCompactionSummary CompactionSummaryMessage

text \<open>The messages a model is sent.\<close>

datatype Message =
    LUser UserMessage
  | LAssistant AssistantMessage
  | LToolResult ToolResultMessage

fun as_agent_message :: "Message \<Rightarrow> AgentMessage" where
  "as_agent_message (LUser m) = MUser m"
| "as_agent_message (LAssistant m) = MAssistant m"
| "as_agent_message (LToolResult m) = MToolResult m"

text \<open>The tool calls of an assistant message, in content order.\<close>

fun block_tool_call :: "assistant_block \<Rightarrow> ToolCall option" where
  "block_tool_call (AToolCall c) = Some c"
| "block_tool_call _ = None"

definition tool_calls :: "AssistantMessage \<Rightarrow> ToolCall list" where
  "tool_calls m = List.map_filter block_tool_call (am_content m)"

section \<open>Harness messages\<close>

definition newline :: ustring where "newline = [10]"

definition COMPACTION_SUMMARY_PREFIX :: ustring where
  "COMPACTION_SUMMARY_PREFIX =
     js_lit ''The conversation history before this point was compacted into the following summary:''
     @ newline @ newline @ js_lit ''<summary>'' @ newline"

definition COMPACTION_SUMMARY_SUFFIX :: ustring where
  "COMPACTION_SUMMARY_SUFFIX = newline @ js_lit ''</summary>''"

definition BRANCH_SUMMARY_PREFIX :: ustring where
  "BRANCH_SUMMARY_PREFIX =
     js_lit ''The following is a summary of a branch that this conversation came back from:''
     @ newline @ newline @ js_lit ''<summary>'' @ newline"

definition BRANCH_SUMMARY_SUFFIX :: ustring where
  "BRANCH_SUMMARY_SUFFIX = js_lit ''</summary>''"

definition fence :: ustring where "fence = js_lit ''```''"

definition bashExecutionToText :: "BashExecutionMessage \<Rightarrow> ustring" where
  "bashExecutionToText msg =
     js_lit ''Ran `'' @ be_command msg @ js_lit ''`'' @ newline
     @ (if be_output msg \<noteq> [] then fence @ newline @ be_output msg @ newline @ fence
        else js_lit ''(no output)'')
     @ (if be_cancelled msg then newline @ newline @ js_lit ''(command cancelled)''
        else case be_exitCode msg of
            None \<Rightarrow> []
          | Some c \<Rightarrow> if c \<noteq> 0 then newline @ newline @ js_lit ''Command exited with code '' @ int_text c else [])
     @ (case be_fullOutputPath msg of
          None \<Rightarrow> []
        | Some p \<Rightarrow> if be_truncated msg \<and> p \<noteq> []
            then newline @ newline @ js_lit ''[Output truncated. Full output: '' @ p @ js_lit '']'' else [])"

text \<open>The timestamps the sessions pass are numbers, so the conversion of a date text is not reached.\<close>

definition createBranchSummaryMessage :: "ustring \<Rightarrow> ustring \<Rightarrow> int \<Rightarrow> BranchSummaryMessage" where
  "createBranchSummaryMessage summary fromId timestamp =
     \<lparr>bs_summary = summary, bs_fromId = fromId, bs_timestamp = timestamp\<rparr>"

definition createCompactionSummaryMessage :: "ustring \<Rightarrow> int \<Rightarrow> int \<Rightarrow> CompactionSummaryMessage" where
  "createCompactionSummaryMessage summary tokensBefore timestamp =
     \<lparr>cs_summary = summary, cs_tokensBefore = tokensBefore, cs_timestamp = timestamp\<rparr>"

definition createCustomMessage ::
  "ustring \<Rightarrow> user_content \<Rightarrow> bool \<Rightarrow> js option \<Rightarrow> int \<Rightarrow> CustomMessage" where
  "createCustomMessage customType content display details timestamp =
     \<lparr>cm_customType = customType, cm_content = content, cm_display = display, cm_details = details,
      cm_timestamp = timestamp\<rparr>"

definition text_user :: "ustring \<Rightarrow> int \<Rightarrow> Message" where
  "text_user t ts =
     LUser \<lparr>um_content = CBlocks [UText \<lparr>tc_text = t, tc_textSignature = None\<rparr>], um_timestamp = ts\<rparr>"

text \<open>The callback of \<open>convertToLlm\<close>.\<close>

fun message_to_llm :: "AgentMessage \<Rightarrow> Message option" where
  "message_to_llm (MBash m) =
     (if be_excludeFromContext m = Some True then None
      else Some (text_user (bashExecutionToText m) (be_timestamp m)))"
| "message_to_llm (MCustom m) =
     (case cm_content m of
        CString s \<Rightarrow> Some (text_user s (cm_timestamp m))
      | CBlocks bs \<Rightarrow> Some (LUser \<lparr>um_content = CBlocks bs, um_timestamp = cm_timestamp m\<rparr>))"
| "message_to_llm (MBranchSummary m) =
     Some (text_user (BRANCH_SUMMARY_PREFIX @ bs_summary m @ BRANCH_SUMMARY_SUFFIX) (bs_timestamp m))"
| "message_to_llm (MCompactionSummary m) =
     Some (text_user (COMPACTION_SUMMARY_PREFIX @ cs_summary m @ COMPACTION_SUMMARY_SUFFIX) (cs_timestamp m))"
| "message_to_llm (MUser m) = Some (LUser m)"
| "message_to_llm (MAssistant m) = Some (LAssistant m)"
| "message_to_llm (MToolResult m) = Some (LToolResult m)"

definition convertToLlm :: "AgentMessage list \<Rightarrow> Message list" where
  "convertToLlm messages = List.map_filter message_to_llm messages"

text \<open>Models see every tool call and tool result of the transcript, in order.\<close>

fun agent_protocol_message :: "AgentMessage \<Rightarrow> bool" where
  "agent_protocol_message (MAssistant _) = True"
| "agent_protocol_message (MToolResult _) = True"
| "agent_protocol_message _ = False"

fun llm_protocol_message :: "Message \<Rightarrow> bool" where
  "llm_protocol_message (LUser _) = False"
| "llm_protocol_message _ = True"

lemma message_to_llm_protocol:
  "message_to_llm m = Some l \<Longrightarrow> llm_protocol_message l = agent_protocol_message m \<and>
     (agent_protocol_message m \<longrightarrow> as_agent_message l = m)"
  by (cases m rule: message_to_llm.cases) (auto simp: text_user_def split: if_splits user_content.splits)

lemma message_to_llm_keeps: "agent_protocol_message m \<Longrightarrow> message_to_llm m \<noteq> None"
  by (cases m) auto

lemma map_filter_Cons:
  "List.map_filter f (x # xs) = (case f x of None \<Rightarrow> List.map_filter f xs | Some y \<Rightarrow> y # List.map_filter f xs)"
  by (simp add: List.map_filter_def split: option.splits)

text \<open>
  \<open>convertToLlm\<close> loses no assistant message and no tool result, reorders none and makes none
  up: restricted to these, its output is its input. (All other messages become user messages or, for
  excluded shell executions, are left out.)
\<close>
theorem convertToLlm_keeps_protocol_messages:
  "map as_agent_message (filter llm_protocol_message (convertToLlm ms)) = filter agent_protocol_message ms"
proof (induction ms)
  case (Cons m ms)
  show ?case
  proof (cases "message_to_llm m")
    case None
    then have "\<not> agent_protocol_message m" using message_to_llm_keeps by blast
    with Cons None show ?thesis by (simp add: convertToLlm_def map_filter_Cons)
  next
    case (Some l)
    with Cons message_to_llm_protocol [OF Some] show ?thesis
      by (simp add: convertToLlm_def map_filter_Cons)
  qed
qed (simp add: convertToLlm_def List.map_filter_def)

end
