(* ===== verification/Session_Types.thy ===== *)
theory Session_Types
  imports Messages
begin

text \<open>
  The durable data of a session, \<^verbatim>\<open>pi/packages/agent/src/harness/session/types.ts\<close>: tree entries, lane
  records, queries, log items and errors. The fields common to every entry (\<open>EntryBase\<close>) and to
  every record (\<open>RecordBase\<close>) are a record with the discriminated part as its body.
\<close>

section \<open>Entries\<close>

datatype entry_body =
    MessageEntry AgentMessage bool  \<comment> \<open>\<open>message\<close>, \<open>terminate\<close>\<close>
  | ModelChangeEntry ustring ustring  \<comment> \<open>\<open>provider\<close>, \<open>modelId\<close>\<close>
  | ThinkingLevelEntry ustring
  | ActiveToolsEntry "ustring list"
  | CompactionEntry ustring "AgentMessage list" int "js option" "Usage option"
      \<comment> \<open>\<open>summary\<close>, \<open>retainedTail\<close>, \<open>tokensBefore\<close>, \<open>details\<close>, \<open>usage\<close>\<close>
  | BranchSummaryEntry ustring ustring "js option" "Usage option"
      \<comment> \<open>\<open>fromId\<close>, \<open>summary\<close>, \<open>details\<close>, \<open>usage\<close>\<close>
  | CustomEntry ustring "js option"  \<comment> \<open>\<open>customType\<close>, \<open>data\<close>\<close>

record ProvisionedEntry =
  pe_id :: ustring
  pe_body :: entry_body

record Entry =
  en_id :: ustring
  en_seq :: nat
  en_parentId :: "ustring option"
  en_timestamp :: int
  en_body :: entry_body

datatype entry_type =
  TMessage | TModelChange | TThinkingLevel | TActiveTools | TCompaction | TBranchSummary | TCustom

fun body_type :: "entry_body \<Rightarrow> entry_type" where
  "body_type (MessageEntry _ _) = TMessage"
| "body_type (ModelChangeEntry _ _) = TModelChange"
| "body_type (ThinkingLevelEntry _) = TThinkingLevel"
| "body_type (ActiveToolsEntry _) = TActiveTools"
| "body_type (CompactionEntry _ _ _ _ _) = TCompaction"
| "body_type (BranchSummaryEntry _ _ _ _) = TBranchSummary"
| "body_type (CustomEntry _ _) = TCustom"

abbreviation en_type :: "Entry \<Rightarrow> entry_type" where
  "en_type e \<equiv> body_type (en_body e)"

definition entry_payload :: "Entry \<Rightarrow> ProvisionedEntry" where
  "entry_payload e = \<lparr>pe_id = en_id e, pe_body = en_body e\<rparr>"

section \<open>Records\<close>

datatype intent =
    RunIntent "AgentMessage list" "ProvisionedEntry list" "ustring option" "(ustring \<times> js) list option"
      \<comment> \<open>\<open>originalPrompt\<close>, \<open>initialMessages\<close>, \<open>systemPromptOverride\<close>, \<open>resumeData\<close>\<close>
  | CompactionIntent "ustring option" ustring  \<comment> \<open>\<open>customInstructions\<close>, \<open>resultEntryId\<close>\<close>
  | NavigationIntent "ustring option" bool "ustring option" "ustring option" "ustring option"
      \<comment> \<open>\<open>targetId\<close>, \<open>summarize\<close>, \<open>customInstructions\<close>, \<open>label\<close>, \<open>summaryEntryId\<close>\<close>

datatype operation_kind = KRun | KCompaction | KNavigation

fun intent_kind :: "intent \<Rightarrow> operation_kind" where
  "intent_kind (RunIntent _ _ _ _) = KRun"
| "intent_kind (CompactionIntent _ _) = KCompaction"
| "intent_kind (NavigationIntent _ _ _ _ _) = KNavigation"

datatype outcome = OCompleted | OAborted | OFailed | ODeclined
datatype CompactionReason = RManual | RThreshold | ROverflow
datatype step_kind = StAssistant | StBranchSummary | StCompaction
datatype replay = ReplayNever | ReplaySafe
datatype queue_kind = QSteer | QFollowUp | QNextRun
datatype attempt_cause = CAssistant | CCompaction | CBranchSummary | CDeferredFetch

datatype usage_cause =
    UAttempt attempt_cause ustring ustring nat StopReason
      \<comment> \<open>\<open>cause\<close>, \<open>runId\<close>, \<open>entryId\<close>, \<open>attempt\<close>, \<open>stopReason\<close>\<close>
  | UTool ustring ustring ustring  \<comment> \<open>\<open>runId\<close>, \<open>entryId\<close>, \<open>toolCallId\<close>\<close>
  | UHook ustring ustring
  | UAdjustment "ustring option" "ustring option" "js option"

record OperationStarted =
  os_sourceLeafId :: "ustring option"
  os_intent :: intent

text \<open>
  A step attempt carries its \<open>compactionReason\<close> as the log has it, and a queue record its \<open>runId\<close>: the
  reducer checks both.
\<close>

record StepAttempt =
  sa_runId :: ustring
  sa_step :: step_kind
  sa_attempt :: nat
  sa_resultEntryId :: ustring
  sa_compactionReason :: "CompactionReason option"

record ToolStarted =
  ts_runId :: ustring
  ts_assistantEntryId :: ustring
  ts_toolIndex :: nat
  ts_toolCallId :: ustring
  ts_toolName :: ustring
  ts_effectiveArgs :: "(ustring \<times> js) list"
  ts_resultEntryId :: ustring
  ts_replay :: replay

record QueueEnqueued =
  qe_queue :: queue_kind
  qe_runId :: "ustring option"
  qe_target :: ProvisionedEntry

datatype record_body =
    OperationStartedRecord OperationStarted
  | AbortRequestedRecord ustring
  | OperationFinishedRecord ustring outcome "(ustring \<times> ustring) option"
  | StepAttemptRecord StepAttempt
  | ToolStartedRecord ToolStarted
  | QueueEnqueuedRecord QueueEnqueued
  | QueueCancelledRecord "ustring option" ustring  \<comment> \<open>\<open>runId\<close>, \<open>entryId\<close>\<close>
  | WriteDeferredRecord ustring ProvisionedEntry
  | UsageRecord Usage usage_cause

record NewRecord =
  nr_id :: ustring
  nr_lane :: ustring
  nr_body :: record_body

record LaneRecord =
  lr_id :: ustring
  lr_seq :: nat
  lr_lane :: ustring
  lr_timestamp :: int
  lr_body :: record_body

datatype record_type =
    ROperationStarted | RAbortRequested | ROperationFinished | RStepAttempt | RToolStarted
  | RQueueEnqueued | RQueueCancelled | RWriteDeferred | RUsage

fun record_type_of :: "record_body \<Rightarrow> record_type" where
  "record_type_of (OperationStartedRecord _) = ROperationStarted"
| "record_type_of (AbortRequestedRecord _) = RAbortRequested"
| "record_type_of (OperationFinishedRecord _ _ _) = ROperationFinished"
| "record_type_of (StepAttemptRecord _) = RStepAttempt"
| "record_type_of (ToolStartedRecord _) = RToolStarted"
| "record_type_of (QueueEnqueuedRecord _) = RQueueEnqueued"
| "record_type_of (QueueCancelledRecord _ _) = RQueueCancelled"
| "record_type_of (WriteDeferredRecord _ _) = RWriteDeferred"
| "record_type_of (UsageRecord _ _) = RUsage"

fun usage_runId :: "usage_cause \<Rightarrow> ustring option" where
  "usage_runId (UAttempt _ r _ _ _) = Some r"
| "usage_runId (UTool r _ _) = Some r"
| "usage_runId (UHook r _) = Some r"
| "usage_runId (UAdjustment r _ _) = r"

text \<open>The \<open>runId\<close> property of a record, where it has one.\<close>

fun body_runId :: "record_body \<Rightarrow> ustring option" where
  "body_runId (OperationStartedRecord _) = None"
| "body_runId (AbortRequestedRecord r) = Some r"
| "body_runId (OperationFinishedRecord r _ _) = Some r"
| "body_runId (StepAttemptRecord a) = Some (sa_runId a)"
| "body_runId (ToolStartedRecord t) = Some (ts_runId t)"
| "body_runId (QueueEnqueuedRecord q) = qe_runId q"
| "body_runId (QueueCancelledRecord r _) = r"
| "body_runId (WriteDeferredRecord r _) = Some r"
| "body_runId (UsageRecord _ c) = usage_runId c"

section \<open>Queries, log and errors\<close>

datatype EntryOrder = NewestFirst | OldestFirst

text \<open>Limits and cursors are numbers of any kind until they are checked.\<close>

record EntryQuery =
  q_type :: "entry_type option"
  q_customType :: "ustring option"
  q_order :: "EntryOrder option"
  q_limit :: "jsnum option"
  q_cursor :: "jsnum option"

record BranchBounds =
  bb_start :: "ustring option"
  bb_stopAtType :: "entry_type option"
  bb_stopAtId :: "ustring option"

record RecordQuery =
  rq_lane :: "ustring option"
  rq_type :: "record_type option"
  rq_runId :: "ustring option"
  rq_operationKind :: "operation_kind option"
  rq_afterSeq :: "jsnum option"
  rq_order :: "EntryOrder option"
  rq_limit :: "jsnum option"

record SessionMetadata =
  md_id :: ustring
  md_createdAt :: int
  md_parentSessionId :: "ustring option"

record SessionStats =
  st_messageCount :: nat
  st_cachedTokens :: int
  st_uncachedTokens :: int
  st_totalTokens :: int
  st_costTotal :: jsnum

type_synonym LanePointer = "ustring \<times> ustring option"

datatype LogItem =
    LogEntry nat Entry
  | LogRecord nat LaneRecord
  | LogLane nat ustring "ustring option"
  | LogName nat "ustring option"
  | LogLabel nat ustring "ustring option"

fun log_seq :: "LogItem \<Rightarrow> nat" where
  "log_seq (LogEntry s _) = s"
| "log_seq (LogRecord s _) = s"
| "log_seq (LogLane s _ _) = s"
| "log_seq (LogName s _) = s"
| "log_seq (LogLabel s _ _) = s"

record LogOptions =
  lo_afterSeq :: "jsnum option"
  lo_limit :: "jsnum option"

datatype fork_position = PosBefore | PosAt
datatype ForkOptions = ForkBranch "ustring option" "fork_position option" | ForkTree

datatype SessionErrorCode =
    NotFound | AlreadyExists | InvalidEntry | InvalidPayload | InvalidLane | InvalidQuery
  | InvalidForkTarget | StorageError

datatype SessionError = SessionError SessionErrorCode ustring

end
