(* ===== verification/Session_Json.thy ===== *)
theory Session_Json
  imports Session_Types
begin

text \<open>
  The JavaScript values that entries, records and messages are: the property names of the source, an
  absent optional field having no property. The reading of a typed value as a value of type
  \<open>unknown\<close> is what \<open>assertJsonSerializable\<close>, the deep comparison of the reducer and the codecs see.
\<close>

definition obj :: "(ustring \<times> js) list \<Rightarrow> js" where
  "obj kvs = JObj ObjectProto False kvs"

definition fld :: "string \<Rightarrow> js \<Rightarrow> (ustring \<times> js) list" where
  "fld k v = [(js_lit k, v)]"

definition opt_fld :: "string \<Rightarrow> ('a \<Rightarrow> js) \<Rightarrow> 'a option \<Rightarrow> (ustring \<times> js) list" where
  "opt_fld k f v = (case v of None \<Rightarrow> [] | Some x \<Rightarrow> [(js_lit k, f x)])"

definition lit :: "string \<Rightarrow> js" where "lit s = JStr (js_lit s)"
definition int_js :: "int \<Rightarrow> js" where "int_js i = JNum (NInt i)"
definition nat_js :: "nat \<Rightarrow> js" where "nat_js n = JNum (NInt (int n))"
definition nullable :: "('a \<Rightarrow> js) \<Rightarrow> 'a option \<Rightarrow> js" where
  "nullable f v = (case v of None \<Rightarrow> JNull | Some x \<Rightarrow> f x)"
definition strings_js :: "ustring list \<Rightarrow> js" where "strings_js ss = JArr (map JStr ss)"

definition text_js :: "TextContent \<Rightarrow> js" where
  "text_js t = obj (fld ''type'' (lit ''text'') @ fld ''text'' (JStr (tc_text t))
     @ opt_fld ''textSignature'' JStr (tc_textSignature t))"

definition image_js :: "ImageContent \<Rightarrow> js" where
  "image_js i = obj (fld ''type'' (lit ''image'') @ fld ''data'' (JStr (ic_data i))
     @ fld ''mimeType'' (JStr (ic_mimeType i)))"

definition thinking_js :: "ThinkingContent \<Rightarrow> js" where
  "thinking_js t = obj (fld ''type'' (lit ''thinking'') @ fld ''thinking'' (JStr (th_thinking t))
     @ opt_fld ''thinkingSignature'' JStr (th_thinkingSignature t) @ opt_fld ''redacted'' JBool (th_redacted t))"

definition tool_call_js :: "ToolCall \<Rightarrow> js" where
  "tool_call_js c = obj (fld ''type'' (lit ''toolCall'') @ fld ''id'' (JStr (call_id c))
     @ fld ''name'' (JStr (call_name c)) @ fld ''arguments'' (call_arguments c)
     @ opt_fld ''thoughtSignature'' JStr (call_thoughtSignature c) @ opt_fld ''namespace'' JStr (call_namespace c))"

fun user_block_js :: "user_block \<Rightarrow> js" where
  "user_block_js (UText t) = text_js t"
| "user_block_js (UImage i) = image_js i"

fun assistant_block_js :: "assistant_block \<Rightarrow> js" where
  "assistant_block_js (AText t) = text_js t"
| "assistant_block_js (AThinking t) = thinking_js t"
| "assistant_block_js (AToolCall c) = tool_call_js c"

fun user_content_js :: "user_content \<Rightarrow> js" where
  "user_content_js (CString s) = JStr s"
| "user_content_js (CBlocks bs) = JArr (map user_block_js bs)"

definition cost_js :: "UsageCost \<Rightarrow> js" where
  "cost_js c = obj (fld ''input'' (JNum (uc_input c)) @ fld ''output'' (JNum (uc_output c))
     @ fld ''cacheRead'' (JNum (uc_cacheRead c)) @ fld ''cacheWrite'' (JNum (uc_cacheWrite c))
     @ fld ''total'' (JNum (uc_total c)))"

definition usage_js :: "Usage \<Rightarrow> js" where
  "usage_js u = obj (fld ''input'' (int_js (us_input u)) @ fld ''output'' (int_js (us_output u))
     @ fld ''cacheRead'' (int_js (us_cacheRead u)) @ fld ''cacheWrite'' (int_js (us_cacheWrite u))
     @ opt_fld ''cacheWrite1h'' int_js (us_cacheWrite1h u) @ opt_fld ''reasoning'' int_js (us_reasoning u)
     @ fld ''totalTokens'' (int_js (us_totalTokens u)) @ fld ''cost'' (cost_js (us_cost u)))"

fun stop_reason_js :: "StopReason \<Rightarrow> js" where
  "stop_reason_js SPending = lit ''pending''"
| "stop_reason_js SStop = lit ''stop''"
| "stop_reason_js SLength = lit ''length''"
| "stop_reason_js SToolUse = lit ''toolUse''"
| "stop_reason_js SError = lit ''error''"
| "stop_reason_js SAborted = lit ''aborted''"
| "stop_reason_js SDeferred = lit ''deferred''"

definition deferred_js :: "DeferredHandle \<Rightarrow> js" where
  "deferred_js d = obj (fld ''provider'' (JStr (dh_provider d)) @ fld ''modelId'' (JStr (dh_modelId d))
     @ fld ''api'' (JStr (dh_api d)) @ fld ''id'' (JStr (dh_id d))
     @ opt_fld ''expiresAt'' int_js (dh_expiresAt d) @ opt_fld ''pollAfterMs'' int_js (dh_pollAfterMs d)
     @ opt_fld ''data'' id (dh_data d))"

fun message_js :: "AgentMessage \<Rightarrow> js" where
  "message_js (MUser m) = obj (fld ''role'' (lit ''user'') @ fld ''content'' (user_content_js (um_content m))
     @ fld ''timestamp'' (int_js (um_timestamp m)))"
| "message_js (MAssistant m) = obj (fld ''role'' (lit ''assistant'')
     @ fld ''content'' (JArr (map assistant_block_js (am_content m))) @ fld ''api'' (JStr (am_api m))
     @ fld ''provider'' (JStr (am_provider m)) @ fld ''model'' (JStr (am_model m))
     @ opt_fld ''responseModel'' JStr (am_responseModel m) @ opt_fld ''responseId'' JStr (am_responseId m)
     @ opt_fld ''diagnostics'' JArr (am_diagnostics m) @ fld ''usage'' (usage_js (am_usage m))
     @ fld ''stopReason'' (stop_reason_js (am_stopReason m)) @ opt_fld ''deferred'' deferred_js (am_deferred m)
     @ opt_fld ''errorMessage'' JStr (am_errorMessage m) @ opt_fld ''rawStopReason'' JStr (am_rawStopReason m)
     @ opt_fld ''endTurn'' JBool (am_endTurn m) @ fld ''timestamp'' (int_js (am_timestamp m)))"
| "message_js (MToolResult m) = obj (fld ''role'' (lit ''toolResult'') @ fld ''toolCallId'' (JStr (tr_toolCallId m))
     @ fld ''toolName'' (JStr (tr_toolName m)) @ fld ''content'' (JArr (map user_block_js (tr_content m)))
     @ opt_fld ''details'' id (tr_details m) @ opt_fld ''usage'' usage_js (tr_usage m)
     @ opt_fld ''addedToolNames'' strings_js (tr_addedToolNames m) @ fld ''isError'' (JBool (tr_isError m))
     @ fld ''timestamp'' (int_js (tr_timestamp m)))"
| "message_js (MBash m) = obj (fld ''role'' (lit ''bashExecution'') @ fld ''command'' (JStr (be_command m))
     @ fld ''output'' (JStr (be_output m)) @ opt_fld ''exitCode'' int_js (be_exitCode m)
     @ fld ''cancelled'' (JBool (be_cancelled m)) @ fld ''truncated'' (JBool (be_truncated m))
     @ opt_fld ''fullOutputPath'' JStr (be_fullOutputPath m) @ fld ''timestamp'' (int_js (be_timestamp m))
     @ opt_fld ''excludeFromContext'' JBool (be_excludeFromContext m))"
| "message_js (MCustom m) = obj (fld ''role'' (lit ''custom'') @ fld ''customType'' (JStr (cm_customType m))
     @ fld ''content'' (user_content_js (cm_content m)) @ fld ''display'' (JBool (cm_display m))
     @ opt_fld ''details'' id (cm_details m) @ fld ''timestamp'' (int_js (cm_timestamp m)))"
| "message_js (MBranchSummary m) = obj (fld ''role'' (lit ''branchSummary'') @ fld ''summary'' (JStr (bs_summary m))
     @ fld ''fromId'' (JStr (bs_fromId m)) @ fld ''timestamp'' (int_js (bs_timestamp m)))"
| "message_js (MCompactionSummary m) = obj (fld ''role'' (lit ''compactionSummary'')
     @ fld ''summary'' (JStr (cs_summary m)) @ fld ''tokensBefore'' (int_js (cs_tokensBefore m))
     @ fld ''timestamp'' (int_js (cs_timestamp m)))"

fun body_props :: "entry_body \<Rightarrow> (ustring \<times> js) list" where
  "body_props (MessageEntry m terminate) = fld ''message'' (message_js m)
     @ (if terminate then fld ''terminate'' (JBool True) else [])"
| "body_props (ModelChangeEntry provider modelId) = fld ''provider'' (JStr provider) @ fld ''modelId'' (JStr modelId)"
| "body_props (ThinkingLevelEntry level) = fld ''thinkingLevel'' (JStr level)"
| "body_props (ActiveToolsEntry names) = fld ''activeToolNames'' (strings_js names)"
| "body_props (CompactionEntry summary tail tokens details usage) = fld ''summary'' (JStr summary)
     @ fld ''retainedTail'' (JArr (map message_js tail)) @ fld ''tokensBefore'' (int_js tokens)
     @ opt_fld ''details'' id details @ opt_fld ''usage'' usage_js usage"
| "body_props (BranchSummaryEntry fromId summary details usage) = fld ''fromId'' (JStr fromId)
     @ fld ''summary'' (JStr summary) @ opt_fld ''details'' id details @ opt_fld ''usage'' usage_js usage"
| "body_props (CustomEntry customType data) = fld ''customType'' (JStr customType) @ opt_fld ''data'' id data"

fun type_js :: "entry_type \<Rightarrow> js" where
  "type_js TMessage = lit ''message''"
| "type_js TModelChange = lit ''model_change''"
| "type_js TThinkingLevel = lit ''thinking_level_change''"
| "type_js TActiveTools = lit ''active_tools_change''"
| "type_js TCompaction = lit ''compaction''"
| "type_js TBranchSummary = lit ''branch_summary''"
| "type_js TCustom = lit ''custom''"

definition provisioned_js :: "ProvisionedEntry \<Rightarrow> js" where
  "provisioned_js e = obj (fld ''type'' (type_js (body_type (pe_body e))) @ fld ''id'' (JStr (pe_id e))
     @ body_props (pe_body e))"

fun intent_js :: "intent \<Rightarrow> js" where
  "intent_js (RunIntent prompt initial override resume) = obj (fld ''kind'' (lit ''run'')
     @ fld ''originalPrompt'' (JArr (map message_js prompt))
     @ fld ''initialMessages'' (JArr (map provisioned_js initial))
     @ opt_fld ''systemPromptOverride'' JStr override @ opt_fld ''resumeData'' obj resume)"
| "intent_js (CompactionIntent instructions resultEntryId) = obj (fld ''kind'' (lit ''compaction'')
     @ opt_fld ''customInstructions'' JStr instructions @ fld ''resultEntryId'' (JStr resultEntryId))"
| "intent_js (NavigationIntent targetId summarize instructions label summaryEntryId) =
     obj (fld ''kind'' (lit ''navigation'') @ fld ''targetId'' (nullable JStr targetId)
     @ fld ''summarize'' (JBool summarize) @ opt_fld ''customInstructions'' JStr instructions
     @ opt_fld ''label'' JStr label @ opt_fld ''summaryEntryId'' JStr summaryEntryId)"

fun outcome_js :: "outcome \<Rightarrow> js" where
  "outcome_js OCompleted = lit ''completed''"
| "outcome_js OAborted = lit ''aborted''"
| "outcome_js OFailed = lit ''failed''"
| "outcome_js ODeclined = lit ''declined''"

fun reason_js :: "CompactionReason \<Rightarrow> js" where
  "reason_js RManual = lit ''manual''"
| "reason_js RThreshold = lit ''threshold''"
| "reason_js ROverflow = lit ''overflow''"

fun step_js :: "step_kind \<Rightarrow> js" where
  "step_js StAssistant = lit ''assistant''"
| "step_js StBranchSummary = lit ''branch_summary''"
| "step_js StCompaction = lit ''compaction''"

fun queue_js :: "queue_kind \<Rightarrow> js" where
  "queue_js QSteer = lit ''steer''"
| "queue_js QFollowUp = lit ''followUp''"
| "queue_js QNextRun = lit ''nextRun''"

fun attempt_cause_js :: "attempt_cause \<Rightarrow> js" where
  "attempt_cause_js CAssistant = lit ''assistant''"
| "attempt_cause_js CCompaction = lit ''compaction''"
| "attempt_cause_js CBranchSummary = lit ''branch_summary''"
| "attempt_cause_js CDeferredFetch = lit ''deferred_fetch''"

fun cause_props :: "usage_cause \<Rightarrow> (ustring \<times> js) list" where
  "cause_props (UAttempt cause runId entryId attempt stopReason) = fld ''cause'' (attempt_cause_js cause)
     @ fld ''runId'' (JStr runId) @ fld ''entryId'' (JStr entryId) @ fld ''attempt'' (nat_js attempt)
     @ fld ''stopReason'' (stop_reason_js stopReason)"
| "cause_props (UTool runId entryId toolCallId) = fld ''cause'' (lit ''tool'') @ fld ''runId'' (JStr runId)
     @ fld ''entryId'' (JStr entryId) @ fld ''toolCallId'' (JStr toolCallId)"
| "cause_props (UHook runId entryId) = fld ''cause'' (lit ''hook'') @ fld ''runId'' (JStr runId)
     @ fld ''entryId'' (JStr entryId)"
| "cause_props (UAdjustment runId entryId details) = fld ''cause'' (lit ''adjustment'')
     @ opt_fld ''runId'' JStr runId @ opt_fld ''entryId'' JStr entryId @ opt_fld ''details'' id details"

fun record_props :: "record_body \<Rightarrow> (ustring \<times> js) list" where
  "record_props (OperationStartedRecord s) = fld ''type'' (lit ''operation_started'')
     @ fld ''sourceLeafId'' (nullable JStr (os_sourceLeafId s)) @ fld ''intent'' (intent_js (os_intent s))"
| "record_props (AbortRequestedRecord runId) = fld ''type'' (lit ''abort_requested'') @ fld ''runId'' (JStr runId)"
| "record_props (OperationFinishedRecord runId outcome error) = fld ''type'' (lit ''operation_finished'')
     @ fld ''runId'' (JStr runId) @ fld ''outcome'' (outcome_js outcome)
     @ opt_fld ''error'' (\<lambda>(code, message). obj (fld ''code'' (JStr code) @ fld ''message'' (JStr message))) error"
| "record_props (StepAttemptRecord a) = fld ''type'' (lit ''step_attempt'') @ fld ''runId'' (JStr (sa_runId a))
     @ fld ''step'' (step_js (sa_step a)) @ fld ''attempt'' (nat_js (sa_attempt a))
     @ fld ''resultEntryId'' (JStr (sa_resultEntryId a))
     @ opt_fld ''compactionReason'' reason_js (sa_compactionReason a)"
| "record_props (ToolStartedRecord t) = fld ''type'' (lit ''tool_started'') @ fld ''runId'' (JStr (ts_runId t))
     @ fld ''assistantEntryId'' (JStr (ts_assistantEntryId t)) @ fld ''toolIndex'' (nat_js (ts_toolIndex t))
     @ fld ''toolCallId'' (JStr (ts_toolCallId t)) @ fld ''toolName'' (JStr (ts_toolName t))
     @ fld ''effectiveArgs'' (obj (ts_effectiveArgs t)) @ fld ''resultEntryId'' (JStr (ts_resultEntryId t))
     @ fld ''replay'' (case ts_replay t of ReplayNever \<Rightarrow> lit ''never'' | ReplaySafe \<Rightarrow> lit ''safe'')"
| "record_props (QueueEnqueuedRecord q) = fld ''type'' (lit ''queue_enqueued'') @ fld ''queue'' (queue_js (qe_queue q))
     @ opt_fld ''runId'' JStr (qe_runId q) @ fld ''target'' (provisioned_js (qe_target q))"
| "record_props (QueueCancelledRecord runId entryId) = fld ''type'' (lit ''queue_cancelled'')
     @ opt_fld ''runId'' JStr runId @ fld ''entryId'' (JStr entryId)"
| "record_props (WriteDeferredRecord runId target) = fld ''type'' (lit ''write_deferred'')
     @ fld ''runId'' (JStr runId) @ fld ''target'' (provisioned_js target)"
| "record_props (UsageRecord usage cause) = fld ''type'' (lit ''usage'') @ fld ''usage'' (usage_js usage)
     @ cause_props cause"

definition new_record_js :: "NewRecord \<Rightarrow> js" where
  "new_record_js r = obj (fld ''id'' (JStr (nr_id r)) @ fld ''lane'' (JStr (nr_lane r)) @ record_props (nr_body r))"

section \<open>Reading a property\<close>

definition prop_of :: "(ustring \<times> js) list \<Rightarrow> string \<Rightarrow> js" where
  "prop_of kvs k = (case map_of kvs (js_lit k) of None \<Rightarrow> JUndef | Some v \<Rightarrow> v)"

lemma lit_inject [simp]: "lit a = lit b \<longleftrightarrow> a = b"
  by (simp add: lit_def)

lemma prop_of_fields [simp]:
  "prop_of [] k = JUndef"
  "prop_of (fld k' v) k = (if k = k' then v else JUndef)"
  "prop_of (fld k' v @ r) k = (if k = k' then v else prop_of r k)"
  by (auto simp: prop_of_def fld_def)

end
