(* ===== verification/Session_State.thy ===== *)
theory Session_State
  imports Session_Types
begin

text \<open>
  \<^verbatim>\<open>pi/packages/agent/src/harness/session/state.ts\<close>: the in-memory index of a session, changed only by
  \<open>applyMutation\<close>. Every storage backend keeps one. The fields are those of the class; the sets and
  maps are insertion-ordered lists. \<open>applyMutation\<close> throws before it assigns anything, so an error
  comes without a state.
\<close>

datatype SessionMutation =
    MutEntry "ustring option" Entry  \<comment> \<open>\<open>lane\<close>, \<open>entry\<close>\<close>
  | MutRecord LaneRecord
  | MutLane nat ustring "ustring option"
  | MutName nat "ustring option"
  | MutLabel nat ustring "ustring option"

definition invalidMutation :: "ustring \<Rightarrow> SessionError" where
  "invalidMutation message = SessionError InvalidEntry (js_lit ''Invalid session mutation: '' @ message)"

text \<open>The two checks return the checked number.\<close>

fun assertValidLimit :: "jsnum option \<Rightarrow> SessionError + nat option" where
  "assertValidLimit None = Inr None"
| "assertValidLimit (Some (NInt i)) =
     (if i \<le> 0 then Inl (SessionError InvalidQuery (js_lit ''limit must be a positive integer''))
      else Inr (Some (nat i)))"
| "assertValidLimit (Some _) = Inl (SessionError InvalidQuery (js_lit ''limit must be a positive integer''))"

fun assertValidCursor :: "jsnum option \<Rightarrow> SessionError + nat option" where
  "assertValidCursor None = Inr None"
| "assertValidCursor (Some (NInt i)) =
     (if i < 0 then Inl (SessionError InvalidQuery (js_lit ''cursor sequence must be a non-negative integer''))
      else Inr (Some (nat i)))"
| "assertValidCursor (Some NNegZero) = Inr (Some 0)"
| "assertValidCursor (Some _) =
     Inl (SessionError InvalidQuery (js_lit ''cursor sequence must be a non-negative integer''))"

definition ordered :: "'a list \<Rightarrow> EntryOrder option \<Rightarrow> 'a list" where
  "ordered items order = (if order = Some OldestFirst then items else rev items)"

record SessionState =
  ss_sequence :: nat
  ss_usedIds :: "ustring list"
  ss_entries :: "Entry list"
  ss_entriesById :: "(ustring \<times> Entry) list"
  ss_records :: "LaneRecord list"
  ss_openOperationsByLane :: "(ustring \<times> (ustring \<times> LaneRecord) list) list"
  ss_lanes :: "(ustring \<times> ustring option) list"
  ss_log :: "LogItem list"
  ss_stats :: SessionStats
  ss_name :: "ustring option"
  ss_labels :: "(ustring \<times> ustring) list"

definition main_lane :: ustring where "main_lane = js_lit ''main''"

definition new_SessionState :: SessionState where
  "new_SessionState =
     \<lparr>ss_sequence = 0, ss_usedIds = [], ss_entries = [], ss_entriesById = [], ss_records = [],
      ss_openOperationsByLane = [], ss_lanes = [(main_lane, None)], ss_log = [],
      ss_stats = \<lparr>st_messageCount = 0, st_cachedTokens = 0, st_uncachedTokens = 0, st_totalTokens = 0,
                  st_costTotal = NInt 0\<rparr>,
      ss_name = None, ss_labels = []\<rparr>"

definition set_add :: "'a list \<Rightarrow> 'a \<Rightarrow> 'a list" where
  "set_add s x = (if x \<in> set s then s else s @ [x])"

definition nextSequence :: "SessionState \<Rightarrow> nat" where
  "nextSequence st = ss_sequence st + 1"

definition getLanes :: "SessionState \<Rightarrow> LanePointer list" where
  "getLanes st = ss_lanes st"

definition requireLane :: "SessionState \<Rightarrow> ustring \<Rightarrow> SessionError + ustring option" where
  "requireLane st lane =
     (case amap_get (ss_lanes st) lane of
        None \<Rightarrow> Inl (SessionError InvalidLane (js_lit ''Lane not found: '' @ lane))
      | Some leafId \<Rightarrow> Inr leafId)"

definition validateNewLane :: "SessionState \<Rightarrow> ustring \<Rightarrow> SessionError + unit" where
  "validateNewLane st lane =
     throw_if (amap_has (ss_lanes st) lane) (SessionError AlreadyExists (js_lit ''Lane already exists: '' @ lane))"

definition validateTarget :: "SessionState \<Rightarrow> ustring option \<Rightarrow> SessionError + unit" where
  "validateTarget st targetId =
     (case targetId of None \<Rightarrow> Inr ()
      | Some t \<Rightarrow> throw_if (\<not> amap_has (ss_entriesById st) t)
          (SessionError NotFound (js_lit ''Entry not found: '' @ t)))"

definition validateUnusedId :: "SessionState \<Rightarrow> ustring \<Rightarrow> SessionError + unit" where
  "validateUnusedId st i =
     throw_if (i \<in> set (ss_usedIds st)) (SessionError AlreadyExists (js_lit ''Session id already exists: '' @ i))"

section \<open>Mutations\<close>

fun mutation_seq :: "SessionMutation \<Rightarrow> nat" where
  "mutation_seq (MutEntry _ e) = en_seq e"
| "mutation_seq (MutRecord r) = lr_seq r"
| "mutation_seq (MutLane s _ _) = s"
| "mutation_seq (MutName s _) = s"
| "mutation_seq (MutLabel s _ _) = s"

definition check_chain :: "SessionState \<Rightarrow> ustring option \<Rightarrow> Entry \<Rightarrow> ustring + unit" where
  "check_chain st lane e =
     (case lane of None \<Rightarrow> Inr ()
      | Some l \<Rightarrow>
         (case amap_get (ss_lanes st) l of
            None \<Rightarrow> Inl (js_lit ''references missing lane '' @ l)
          | Some leafId \<Rightarrow> throw_if (en_parentId e \<noteq> leafId) (js_lit ''does not chain to the lane leaf'')))"

definition check_parent :: "SessionState \<Rightarrow> Entry \<Rightarrow> ustring + unit" where
  "check_parent st e =
     (case en_parentId e of None \<Rightarrow> Inr ()
      | Some p \<Rightarrow> throw_if (\<not> amap_has (ss_entriesById st) p) (js_lit ''references missing parent '' @ p))"

definition apply_entry :: "SessionState \<Rightarrow> ustring option \<Rightarrow> Entry \<Rightarrow> SessionState" where
  "apply_entry st lane e = st\<lparr>
     ss_sequence := en_seq e,
     ss_usedIds := set_add (ss_usedIds st) (en_id e),
     ss_entries := ss_entries st @ [e],
     ss_entriesById := amap_set (ss_entriesById st) (en_id e) e,
     ss_lanes := (case lane of None \<Rightarrow> ss_lanes st | Some l \<Rightarrow> amap_set (ss_lanes st) l (Some (en_id e))),
     ss_log := ss_log st @ [LogEntry (en_seq e) e],
     ss_stats := (ss_stats st)\<lparr>st_messageCount :=
        st_messageCount (ss_stats st) + (if en_type e = TMessage then 1 else 0)\<rparr>\<rparr>"

definition open_operations_after ::
  "(ustring \<times> (ustring \<times> LaneRecord) list) list \<Rightarrow> LaneRecord \<Rightarrow> (ustring \<times> (ustring \<times> LaneRecord) list) list" where
  "open_operations_after m r =
     (case lr_body r of
        OperationStartedRecord _ \<Rightarrow>
          let ops = (case amap_get m (lr_lane r) of None \<Rightarrow> [] | Some ops \<Rightarrow> ops)
          in amap_set m (lr_lane r) (amap_set ops (lr_id r) r)
      | OperationFinishedRecord runId _ _ \<Rightarrow>
          (case amap_get m (lr_lane r) of None \<Rightarrow> m
           | Some ops \<Rightarrow> amap_set m (lr_lane r) (amap_delete ops runId))
      | _ \<Rightarrow> m)"

definition add_usage :: "SessionStats \<Rightarrow> Usage \<Rightarrow> SessionStats" where
  "add_usage s u = s\<lparr>
     st_cachedTokens := st_cachedTokens s + us_cacheRead u,
     st_uncachedTokens := st_uncachedTokens s + (us_input u + us_cacheWrite u),
     st_totalTokens := st_totalTokens s + us_totalTokens u,
     st_costTotal := num_add (st_costTotal s) (uc_total (us_cost u))\<rparr>"

definition apply_record :: "SessionState \<Rightarrow> LaneRecord \<Rightarrow> SessionState" where
  "apply_record st r = st\<lparr>
     ss_sequence := lr_seq r,
     ss_usedIds := set_add (ss_usedIds st) (lr_id r),
     ss_records := ss_records st @ [r],
     ss_openOperationsByLane := open_operations_after (ss_openOperationsByLane st) r,
     ss_log := ss_log st @ [LogRecord (lr_seq r) r],
     ss_stats := (case lr_body r of UsageRecord u _ \<Rightarrow> add_usage (ss_stats st) u | _ \<Rightarrow> ss_stats st)\<rparr>"

text \<open>The cases of the \<open>switch\<close>: the guards, then the assignments.\<close>

fun apply_kind :: "SessionMutation \<Rightarrow> SessionState \<Rightarrow> ustring + SessionState" where
  "apply_kind (MutEntry lane e) st =
     rbind (throw_if (en_id e \<in> set (ss_usedIds st)) (js_lit ''contains duplicate id '' @ en_id e)) (\<lambda>_.
     rbind (check_chain st lane e) (\<lambda>_.
     rbind (check_parent st e) (\<lambda>_. Inr (apply_entry st lane e))))"
| "apply_kind (MutRecord r) st =
     rbind (throw_if (\<not> amap_has (ss_lanes st) (lr_lane r)) (js_lit ''references missing lane '' @ lr_lane r)) (\<lambda>_.
     rbind (throw_if (lr_id r \<in> set (ss_usedIds st)) (js_lit ''contains duplicate id '' @ lr_id r)) (\<lambda>_.
     Inr (apply_record st r)))"
| "apply_kind (MutLane seq lane leafId) st =
     rbind (case leafId of None \<Rightarrow> Inr ()
            | Some l \<Rightarrow> throw_if (\<not> amap_has (ss_entriesById st) l)
                (js_lit ''references missing lane target '' @ l)) (\<lambda>_.
     Inr (st\<lparr>ss_sequence := seq, ss_lanes := amap_set (ss_lanes st) lane leafId,
             ss_log := ss_log st @ [LogLane seq lane leafId]\<rparr>))"
| "apply_kind (MutName seq name) st =
     Inr (st\<lparr>ss_sequence := seq, ss_name := name, ss_log := ss_log st @ [LogName seq name]\<rparr>)"
| "apply_kind (MutLabel seq targetId label) st =
     rbind (throw_if (\<not> amap_has (ss_entriesById st) targetId)
        (js_lit ''references missing label target '' @ targetId)) (\<lambda>_.
     Inr (st\<lparr>ss_sequence := seq,
             ss_labels := (case label of None \<Rightarrow> amap_delete (ss_labels st) targetId
                           | Some l \<Rightarrow> amap_set (ss_labels st) targetId l),
             ss_log := ss_log st @ [LogLabel seq targetId label]\<rparr>))"

definition applyMutation ::
  "(ustring \<Rightarrow> SessionError) \<Rightarrow> SessionMutation \<Rightarrow> SessionState \<Rightarrow> SessionError + SessionState" where
  "applyMutation invalid m st =
     (if mutation_seq m \<noteq> ss_sequence st + 1
      then Inl (invalid (js_lit ''has non-consecutive seq '' @ nat_text (mutation_seq m)))
      else case apply_kind m st of Inl message \<Rightarrow> Inl (invalid message) | Inr st' \<Rightarrow> Inr st')"

text \<open>Applying mutations one after the other, up to the first that throws.\<close>

fun applyMutations ::
  "(ustring \<Rightarrow> SessionError) \<Rightarrow> SessionMutation list \<Rightarrow> SessionState \<Rightarrow> SessionError + SessionState" where
  "applyMutations invalid [] st = Inr st"
| "applyMutations invalid (m # ms) st = rbind (applyMutation invalid m st) (applyMutations invalid ms)"

section \<open>Queries\<close>

text \<open>The query loop: push what matches, stop at the limit.\<close>

fun collect :: "('a \<Rightarrow> bool) \<Rightarrow> nat option \<Rightarrow> 'a list \<Rightarrow> 'a list \<Rightarrow> 'a list" where
  "collect p lim [] results = results"
| "collect p lim (x # xs) results =
     (if \<not> p x then collect p lim xs results
      else if Some (length results + 1) = lim then results @ [x]
      else collect p lim xs (results @ [x]))"

definition matchesEntryQuery :: "Entry \<Rightarrow> EntryQuery \<Rightarrow> nat option \<Rightarrow> bool" where
  "matchesEntryQuery e q cursor \<longleftrightarrow>
     (case q_type q of None \<Rightarrow> True | Some t \<Rightarrow> en_type e = t) \<and>
     (case q_customType q of None \<Rightarrow> True
      | Some c \<Rightarrow> (case en_body e of CustomEntry c' _ \<Rightarrow> c' = c | _ \<Rightarrow> False)) \<and>
     (case cursor of None \<Rightarrow> True
      | Some n \<Rightarrow> if q_order q = Some OldestFirst then en_seq e > n else en_seq e < n)"

definition matchesRecordQuery :: "LaneRecord \<Rightarrow> RecordQuery \<Rightarrow> nat option \<Rightarrow> bool" where
  "matchesRecordQuery r q afterSeq \<longleftrightarrow>
     (case rq_lane q of None \<Rightarrow> True | Some l \<Rightarrow> lr_lane r = l) \<and>
     (case rq_type q of None \<Rightarrow> True | Some t \<Rightarrow> record_type_of (lr_body r) = t) \<and>
     (case rq_runId q of None \<Rightarrow> True
      | Some i \<Rightarrow> (case lr_body r of OperationStartedRecord _ \<Rightarrow> lr_id r = i
                   | _ \<Rightarrow> body_runId (lr_body r) = Some i)) \<and>
     (case rq_operationKind q of None \<Rightarrow> True
      | Some k \<Rightarrow> (case lr_body r of OperationStartedRecord s \<Rightarrow> intent_kind (os_intent s) = k | _ \<Rightarrow> False)) \<and>
     (case afterSeq of None \<Rightarrow> True | Some n \<Rightarrow> lr_seq r > n)"

definition getEntry :: "SessionState \<Rightarrow> ustring \<Rightarrow> Entry option" where
  "getEntry st i = amap_get (ss_entriesById st) i"

definition findEntries :: "SessionState \<Rightarrow> EntryQuery \<Rightarrow> SessionError + Entry list" where
  "findEntries st q =
     rbind (assertValidLimit (q_limit q)) (\<lambda>lim.
     rbind (assertValidCursor (q_cursor q)) (\<lambda>cursor.
     Inr (collect (\<lambda>e. matchesEntryQuery e q cursor) lim (ordered (ss_entries st) (q_order q)) [])))"

text \<open>
  The generator \<open>walkToRoot\<close>: what it yields, and the error it throws when it is asked for more.
\<close>

definition walk_stops :: "BranchBounds option \<Rightarrow> Entry \<Rightarrow> bool" where
  "walk_stops bounds e \<longleftrightarrow>
     (case bounds of None \<Rightarrow> False | Some b \<Rightarrow> bb_stopAtId b = Some (en_id e) \<or> bb_stopAtType b = Some (en_type e))"

lemma walk_decreases:
  fixes byId :: "(ustring \<times> Entry) list" and current parent :: Entry
  assumes "en_id current \<notin> set visited" and "map_of byId parentId = Some parent"
  shows "card (insert (en_id parent) (en_id ` snd ` set byId) - insert (en_id current) (set visited))
      < card (insert (en_id current) (en_id ` snd ` set byId) - set visited)"
proof (rule psubset_card_mono)
  have "en_id parent \<in> en_id ` snd ` set byId"
    using map_of_SomeD [OF assms(2)] by force
  then show "insert (en_id parent) (en_id ` snd ` set byId) - insert (en_id current) (set visited)
      \<subset> insert (en_id current) (en_id ` snd ` set byId) - set visited"
    using assms(1) by auto
qed simp

function walk_from :: "(ustring \<times> Entry) list \<Rightarrow> BranchBounds option \<Rightarrow> ustring list \<Rightarrow> Entry
    \<Rightarrow> Entry list \<times> SessionError option" where
  "walk_from byId bounds visited current =
     (if en_id current \<in> set visited
      then ([], Some (SessionError InvalidEntry (js_lit ''Session branch contains a cycle at '' @ en_id current)))
      else if walk_stops bounds current then ([current], None)
      else case en_parentId current of
          None \<Rightarrow> ([current], None)
        | Some parentId \<Rightarrow>
            (case amap_get byId parentId of
               None \<Rightarrow> ([current], Some (SessionError InvalidEntry (js_lit ''Entry not found: '' @ parentId)))
             | Some parent \<Rightarrow>
                 (let (es, err) = walk_from byId bounds (en_id current # visited) parent
                  in (current # es, err))))"
  by pat_completeness auto
termination
  by (relation "measure (\<lambda>(byId, bounds, visited, current).
      card (insert (en_id current) (en_id ` snd ` set byId) - set visited))")
    (auto intro: walk_decreases)

declare walk_from.simps [simp del]

definition walkToRoot :: "SessionState \<Rightarrow> ustring option \<Rightarrow> BranchBounds option
    \<Rightarrow> Entry list \<times> SessionError option" where
  "walkToRoot st start bounds =
     (case start of None \<Rightarrow> ([], None)
      | Some s \<Rightarrow>
         (case amap_get (ss_entriesById st) s of
            None \<Rightarrow> ([], Some (SessionError NotFound (js_lit ''Entry not found: '' @ s)))
          | Some current \<Rightarrow> walk_from (ss_entriesById st) bounds [] current))"

text \<open>The two loops over a branch; the flag says whether the loop was left by \<open>break\<close>.\<close>

fun scan_branch :: "(Entry \<Rightarrow> bool) \<Rightarrow> (Entry \<Rightarrow> bool) \<Rightarrow> nat option \<Rightarrow> Entry list \<Rightarrow> Entry list \<Rightarrow> Entry list \<times> bool" where
  "scan_branch p stop lim [] results = (results, False)"
| "scan_branch p stop lim (e # es) results =
     (let results' = (if p e then results @ [e] else results)
      in if stop e \<or> Some (length results') = lim then (results', True)
         else scan_branch p stop lim es results')"

definition findEntriesOnBranch ::
  "SessionState \<Rightarrow> EntryQuery \<Rightarrow> BranchBounds \<Rightarrow> ustring \<Rightarrow> SessionError + Entry list" where
  "findEntriesOnBranch st q bounds start =
     rbind (assertValidLimit (q_limit q)) (\<lambda>lim.
     rbind (assertValidCursor (q_cursor q)) (\<lambda>cursor.
     let p = (\<lambda>e. matchesEntryQuery e q cursor) in
     if q_order q = Some OldestFirst then
       (case walkToRoot st (Some start) None of
          (es, Some err) \<Rightarrow> Inl err
        | (es, None) \<Rightarrow> Inr (fst (scan_branch p (walk_stops (Some bounds)) lim (rev es) [])))
     else
       (case walkToRoot st (Some start) (Some bounds) of (es, err) \<Rightarrow>
          (case scan_branch p (\<lambda>_. False) lim es [] of (results, broke) \<Rightarrow>
             (case err of
                None \<Rightarrow> Inr results
              | Some e \<Rightarrow> if broke then Inr results else Inl e)))))"

definition findRecords :: "SessionState \<Rightarrow> RecordQuery \<Rightarrow> SessionError + LaneRecord list" where
  "findRecords st q =
     rbind (assertValidLimit (rq_limit q)) (\<lambda>lim.
     rbind (assertValidCursor (rq_afterSeq q)) (\<lambda>afterSeq.
     Inr (collect (\<lambda>r. matchesRecordQuery r q afterSeq) lim (ordered (ss_records st) (rq_order q)) [])))"

definition findOpenOperations ::
  "SessionState \<Rightarrow> ustring \<Rightarrow> jsnum option \<Rightarrow> SessionError + LaneRecord list" where
  "findOpenOperations st lane limit =
     rbind (assertValidLimit limit) (\<lambda>lim.
     let openOperations = (case amap_get (ss_openOperationsByLane st) lane of
           None \<Rightarrow> [] | Some ops \<Rightarrow> rev (map snd ops))
     in Inr (case lim of None \<Rightarrow> openOperations | Some n \<Rightarrow> take n openOperations))"

definition getLog :: "SessionState \<Rightarrow> LogOptions \<Rightarrow> SessionError + LogItem list" where
  "getLog st options =
     rbind (assertValidLimit (lo_limit options)) (\<lambda>lim.
     rbind (assertValidCursor (lo_afterSeq options)) (\<lambda>afterSeq.
     Inr (collect (\<lambda>item. case afterSeq of None \<Rightarrow> True | Some n \<Rightarrow> \<not> log_seq item \<le> n) lim (ss_log st) [])))"

definition getName :: "SessionState \<Rightarrow> ustring option" where "getName st = ss_name st"
definition getLabel :: "SessionState \<Rightarrow> ustring \<Rightarrow> ustring option" where
  "getLabel st i = amap_get (ss_labels st) i"
definition getStats :: "SessionState \<Rightarrow> SessionStats" where "getStats st = ss_stats st"

section \<open>Forks\<close>

definition oldest_first :: EntryQuery where
  "oldest_first = \<lparr>q_type = None, q_customType = None, q_order = Some OldestFirst, q_limit = None, q_cursor = None\<rparr>"

definition no_bounds :: BranchBounds where
  "no_bounds = \<lparr>bb_start = None, bb_stopAtType = None, bb_stopAtId = None\<rparr>"

definition fork_target :: "SessionState \<Rightarrow> ustring option \<Rightarrow> fork_position option \<Rightarrow> SessionError + ustring option" where
  "fork_target st entryId position =
     rbind (case entryId of Some i \<Rightarrow> Inr (Some i) | None \<Rightarrow> requireLane st main_lane) (\<lambda>selectedEntryId.
     case selectedEntryId of
       None \<Rightarrow> Inr None
     | Some i \<Rightarrow>
         (case getEntry st i of
            Some e \<Rightarrow>
              if en_type e \<noteq> TMessage
              then Inl (SessionError InvalidForkTarget (js_lit ''Fork target is not a message entry: '' @ i))
              else let pos = (case position of Some p \<Rightarrow> p | None \<Rightarrow> if entryId = None then PosAt else PosBefore)
                   in Inr (if pos = PosAt then Some (en_id e) else en_parentId e)
          | None \<Rightarrow> Inl (SessionError InvalidForkTarget (js_lit ''Fork target is not a message entry: '' @ i))))"

text \<open>What is copied: the entries in order, and the lanes.\<close>

definition fork_selection :: "SessionState \<Rightarrow> ForkOptions \<Rightarrow> SessionError + (Entry list \<times> LanePointer list)" where
  "fork_selection st options =
     (case options of
        ForkTree \<Rightarrow> rbind (findEntries st oldest_first) (\<lambda>copied. Inr (copied, getLanes st))
      | ForkBranch entryId position \<Rightarrow>
          rbind (fork_target st entryId position) (\<lambda>targetId.
          rbind (case targetId of None \<Rightarrow> Inr []
                 | Some t \<Rightarrow> findEntriesOnBranch st oldest_first no_bounds t) (\<lambda>copied.
          Inr (copied, [(main_lane, targetId)]))))"

text \<open>Mutations numbered from \<open>n\<close>: \<open>sequence++\<close> at each push.\<close>

fun number_from :: "nat \<Rightarrow> (nat \<Rightarrow> 'm) list \<Rightarrow> 'm list" where
  "number_from n [] = []"
| "number_from n (f # fs) = f n # number_from (n + 1) fs"

definition label_mutation :: "SessionState \<Rightarrow> Entry \<Rightarrow> (nat \<Rightarrow> SessionMutation) option" where
  "label_mutation st e =
     (case amap_get (ss_labels st) (en_id e) of None \<Rightarrow> None
      | Some l \<Rightarrow> Some (\<lambda>n. MutLabel n (en_id e) (Some l)))"

definition fork_mutations :: "SessionState \<Rightarrow> Entry list \<Rightarrow> LanePointer list \<Rightarrow> SessionMutation list" where
  "fork_mutations st copied forkLanes =
     number_from 1
       (map (\<lambda>e n. MutEntry None (e\<lparr>en_seq := n\<rparr>)) copied
        @ map (\<lambda>(lane, leafId) n. MutLane n lane leafId) forkLanes
        @ (case ss_name st of None \<Rightarrow> [] | Some nm \<Rightarrow> [\<lambda>n. MutName n (Some nm)])
        @ List.map_filter (label_mutation st) copied)"

definition createForkMutations :: "SessionState \<Rightarrow> ForkOptions \<Rightarrow> SessionError + SessionMutation list" where
  "createForkMutations st options =
     rbind (fork_selection st options) (\<lambda>(copied, forkLanes). Inr (fork_mutations st copied forkLanes))"

end
