(* ===== verification/Session_State_Props.thy ===== *)
theory Session_State_Props
  imports Session_State
begin

text \<open>
  What \<open>applyMutation\<close> keeps true of a \<open>SessionState\<close>, whatever the mutations: the indexes agree with the
  entry and record lists, the parent links form a forest in sequence order, the log is the numbered
  history of everything that was accepted, and the operations, statistics, lanes and labels are
  functions of it. The queries, forks and branch walks are then characterised on such states.
\<close>

section \<open>The invariant\<close>

text \<open>Every parent stands before its child.\<close>

fun parents_ok :: "ustring list \<Rightarrow> Entry list \<Rightarrow> bool" where
  "parents_ok known [] = True"
| "parents_ok known (e # es) =
     ((case en_parentId e of None \<Rightarrow> True | Some p \<Rightarrow> p \<in> set known) \<and> parents_ok (en_id e # known) es)"

definition index_ok :: "SessionState \<Rightarrow> bool" where
  "index_ok st \<longleftrightarrow>
     ss_entriesById st = map (\<lambda>e. (en_id e, e)) (ss_entries st) \<and>
     set (ss_usedIds st) = en_id ` set (ss_entries st) \<union> lr_id ` set (ss_records st) \<and>
     distinct (map en_id (ss_entries st) @ map lr_id (ss_records st))"

fun log_entry :: "LogItem \<Rightarrow> Entry option" where
  "log_entry (LogEntry _ e) = Some e"
| "log_entry _ = None"

fun log_record :: "LogItem \<Rightarrow> LaneRecord option" where
  "log_record (LogRecord _ r) = Some r"
| "log_record _ = None"

fun log_item_ok :: "LogItem \<Rightarrow> bool" where
  "log_item_ok (LogEntry s e) = (s = en_seq e)"
| "log_item_ok (LogRecord s r) = (s = lr_seq r)"
| "log_item_ok _ = True"

definition log_ok :: "SessionState \<Rightarrow> bool" where
  "log_ok st \<longleftrightarrow>
     map log_seq (ss_log st) = [1..<ss_sequence st + 1] \<and>
     list_all log_item_ok (ss_log st) \<and>
     ss_entries st = List.map_filter log_entry (ss_log st) \<and>
     ss_records st = List.map_filter log_record (ss_log st)"

definition targets_in :: "ustring set \<Rightarrow> LanePointer list \<Rightarrow> bool" where
  "targets_in ids lanes \<longleftrightarrow> list_all (\<lambda>(lane, leaf). case leaf of None \<Rightarrow> True | Some i \<Rightarrow> i \<in> ids) lanes"

definition refs_ok :: "SessionState \<Rightarrow> bool" where
  "refs_ok st \<longleftrightarrow>
     distinct (map fst (ss_lanes st)) \<and> main_lane \<in> fst ` set (ss_lanes st) \<and>
     targets_in (en_id ` set (ss_entries st)) (ss_lanes st) \<and>
     distinct (map fst (ss_labels st)) \<and> fst ` set (ss_labels st) \<subseteq> en_id ` set (ss_entries st)"

text \<open>The operations of a lane that are started and not finished afterwards, oldest first.\<close>

fun starts_in :: "ustring \<Rightarrow> LaneRecord \<Rightarrow> bool" where
  "starts_in lane r = (lr_lane r = lane \<and> (case lr_body r of OperationStartedRecord _ \<Rightarrow> True | _ \<Rightarrow> False))"

fun finishes_in :: "ustring \<Rightarrow> ustring \<Rightarrow> LaneRecord \<Rightarrow> bool" where
  "finishes_in lane i r =
     (lr_lane r = lane \<and> (case lr_body r of OperationFinishedRecord runId _ _ \<Rightarrow> i = runId | _ \<Rightarrow> False))"

fun open_spec :: "ustring \<Rightarrow> LaneRecord list \<Rightarrow> LaneRecord list" where
  "open_spec lane [] = []"
| "open_spec lane (r # rs) =
     (if starts_in lane r \<and> \<not> list_ex (finishes_in lane (lr_id r)) rs then [r] else []) @ open_spec lane rs"

definition ops_of :: "SessionState \<Rightarrow> ustring \<Rightarrow> (ustring \<times> LaneRecord) list" where
  "ops_of st lane = (case map_of (ss_openOperationsByLane st) lane of None \<Rightarrow> [] | Some ops \<Rightarrow> ops)"

definition ops_ok :: "SessionState \<Rightarrow> bool" where
  "ops_ok st \<longleftrightarrow> (\<forall>lane. ops_of st lane = map (\<lambda>r. (lr_id r, r)) (open_spec lane (ss_records st)))"

fun record_usage :: "LaneRecord \<Rightarrow> Usage option" where
  "record_usage r = (case lr_body r of UsageRecord u _ \<Rightarrow> Some u | _ \<Rightarrow> None)"

definition stats_ok :: "SessionState \<Rightarrow> bool" where
  "stats_ok st \<longleftrightarrow>
     (let us = List.map_filter record_usage (ss_records st)
      in ss_stats st = \<lparr>
           st_messageCount = length (filter (\<lambda>e. en_type e = TMessage) (ss_entries st)),
           st_cachedTokens = sum_list (map us_cacheRead us),
           st_uncachedTokens = sum_list (map (\<lambda>u. us_input u + us_cacheWrite u) us),
           st_totalTokens = sum_list (map us_totalTokens us),
           st_costTotal = foldl num_add (NInt 0) (map (\<lambda>u. uc_total (us_cost u)) us)\<rparr>)"

definition state_ok :: "SessionState \<Rightarrow> bool" where
  "state_ok st \<longleftrightarrow>
     parents_ok [] (ss_entries st) \<and> index_ok st \<and> log_ok st \<and> refs_ok st \<and> ops_ok st \<and> stats_ok st"

section \<open>Lookups\<close>

lemma map_of_index: "distinct (map f xs) \<Longrightarrow> map_of (map (\<lambda>x. (f x, x)) xs) k = Some x \<longleftrightarrow> x \<in> set xs \<and> f x = k"
  by (induction xs) (auto simp: image_iff)

lemma map_of_index_None: "map_of (map (\<lambda>x. (f x, x)) xs) k = None \<longleftrightarrow> k \<notin> f ` set xs"
  by (induction xs) auto

lemma index_has: "index_ok st \<Longrightarrow> amap_has (ss_entriesById st) i \<longleftrightarrow> i \<in> en_id ` set (ss_entries st)"
  by (simp add: index_ok_def map_of_index_None)

lemma index_get:
  "index_ok st \<Longrightarrow> map_of (ss_entriesById st) i = Some e \<longleftrightarrow> e \<in> set (ss_entries st) \<and> en_id e = i"
  by (simp add: index_ok_def map_of_index)

lemma targets_in_mono: "targets_in ids m \<Longrightarrow> ids \<subseteq> ids' \<Longrightarrow> targets_in ids' m"
  by (induction m) (auto simp: targets_in_def split: option.splits)

lemma targets_in_set:
  "targets_in ids m \<Longrightarrow> ids \<subseteq> ids' \<Longrightarrow> \<forall>i. v = Some i \<longrightarrow> i \<in> ids' \<Longrightarrow> targets_in ids' (amap_set m k v)"
  by (induction m k v rule: amap_set.induct) (auto simp: targets_in_def split: option.splits
      dest: targets_in_mono [unfolded targets_in_def])

lemma targets_in_get: "targets_in ids m \<Longrightarrow> map_of m lane = Some (Some i) \<Longrightarrow> i \<in> ids"
  by (induction m) (auto simp: targets_in_def split: if_splits)

lemma parents_ok_append:
  "parents_ok known (xs @ ys) \<longleftrightarrow> parents_ok known xs \<and> parents_ok (rev (map en_id xs) @ known) ys"
  by (induction xs arbitrary: known) auto

lemma parents_ok_mono: "parents_ok known es \<Longrightarrow> set known \<subseteq> set known' \<Longrightarrow> parents_ok known' es"
proof (induction es arbitrary: known known')
  case (Cons e es)
  have "parents_ok (en_id e # known') es"
    by (rule Cons.IH [of "en_id e # known"]) (use Cons.prems in auto)
  with Cons.prems show ?case by (auto split: option.splits)
qed simp

lemma map_filter_append [simp]: "List.map_filter f (xs @ ys) = List.map_filter f xs @ List.map_filter f ys"
  by (simp add: List.map_filter_def)

declare List.map_filter_simps [simp]

lemma open_spec_snoc:
  "open_spec lane (rs @ [f]) =
     filter (\<lambda>r. \<not> finishes_in lane (lr_id r) f) (open_spec lane rs) @ (if starts_in lane f then [f] else [])"
  by (induction rs) auto

lemma open_spec_subset: "set (open_spec lane rs) \<subseteq> set rs"
  by (induction rs) auto

lemma distinct_open_spec: "distinct (map lr_id rs) \<Longrightarrow> distinct (map lr_id (open_spec lane rs))"
  using open_spec_subset by (induction rs) fastforce+

section \<open>Preservation\<close>

lemma new_state_ok: "state_ok new_SessionState"
  by (simp add: state_ok_def new_SessionState_def index_ok_def log_ok_def refs_ok_def ops_ok_def ops_of_def
      stats_ok_def targets_in_def)

lemma set_add_fresh: "x \<notin> set s \<Longrightarrow> set_add s x = s @ [x]"
  by (simp add: set_add_def)

lemma apply_entry_ok:
  assumes ok: "state_ok st" and fresh: "en_id e \<notin> set (ss_usedIds st)"
    and par: "check_parent st e = Inr ()" and seq: "en_seq e = ss_sequence st + 1"
    and lane: "\<forall>l. lane = Some l \<longrightarrow> map_of (ss_lanes st) l \<noteq> None"
  shows "state_ok (apply_entry st lane e)"
proof -
  have idx: "index_ok st" and log: "log_ok st" and refs: "refs_ok st" and ops: "ops_ok st"
    and stats: "stats_ok st" and pok: "parents_ok [] (ss_entries st)"
    using ok by (auto simp: state_ok_def)
  have fr: "en_id e \<notin> en_id ` set (ss_entries st)" "en_id e \<notin> lr_id ` set (ss_records st)"
    using fresh idx by (auto simp: index_ok_def)
  let ?s = "apply_entry st lane e"
  have "parents_ok [] (ss_entries ?s)"
    using pok par index_has [OF idx]
    by (auto simp: apply_entry_def parents_ok_append check_parent_def simp del: not_None_eq split: option.splits)
  moreover have "index_ok ?s"
    using idx fresh fr by (auto simp: index_ok_def apply_entry_def set_add_fresh amap_set_fresh image_image)
  moreover have "log_ok ?s" using log seq by (simp add: log_ok_def apply_entry_def)
  moreover have "targets_in (en_id ` set (ss_entries ?s)) (ss_lanes ?s)"
    using refs by (cases lane) (auto simp: refs_ok_def apply_entry_def intro!: targets_in_set elim: targets_in_mono)
  then have "refs_ok ?s"
    using refs by (cases lane) (auto simp: refs_ok_def apply_entry_def distinct_amap_set set_keys_amap_set)
  moreover have "ops_ok ?s" using ops by (simp add: ops_ok_def ops_of_def apply_entry_def)
  moreover have "stats_ok ?s" using stats by (simp add: stats_ok_def apply_entry_def Let_def)
  ultimately show ?thesis by (simp add: state_ok_def)
qed

lemma ops_of_after:
  "ops_of (st\<lparr>ss_openOperationsByLane := open_operations_after (ss_openOperationsByLane st) r\<rparr>) lane =
     (if lr_lane r \<noteq> lane then ops_of st lane
      else case lr_body r of
          OperationStartedRecord _ \<Rightarrow> amap_set (ops_of st lane) (lr_id r) r
        | OperationFinishedRecord runId _ _ \<Rightarrow> amap_delete (ops_of st lane) runId
        | _ \<Rightarrow> ops_of st lane)"
  by (auto simp: ops_of_def open_operations_after_def Let_def amap_delete_def
      split: record_body.splits option.splits)

lemma filter_index: "filter (\<lambda>(k, _). k \<noteq> i) (map (\<lambda>r. (lr_id r, r)) rs) = map (\<lambda>r. (lr_id r, r)) (filter (\<lambda>r. lr_id r \<noteq> i) rs)"
  by (induction rs) auto

lemma apply_record_ok:
  assumes ok: "state_ok st" and fresh: "lr_id r \<notin> set (ss_usedIds st)" and seq: "lr_seq r = ss_sequence st + 1"
  shows "state_ok (apply_record st r)"
proof -
  have idx: "index_ok st" and log: "log_ok st" and refs: "refs_ok st" and ops: "ops_ok st"
    and stats: "stats_ok st" and pok: "parents_ok [] (ss_entries st)"
    using ok by (auto simp: state_ok_def)
  have fr: "lr_id r \<notin> en_id ` set (ss_entries st)" "lr_id r \<notin> lr_id ` set (ss_records st)"
    using fresh idx by (auto simp: index_ok_def)
  let ?s = "apply_record st r"
  have "index_ok ?s"
    using idx fresh fr by (auto simp: index_ok_def apply_record_def set_add_fresh image_image)
  moreover have "log_ok ?s" using log seq by (simp add: log_ok_def apply_record_def)
  moreover have "refs_ok ?s" using refs by (simp add: refs_ok_def apply_record_def)
  moreover have "ops_ok ?s"
    unfolding ops_ok_def
  proof
    fix lane
    have "ops_of ?s lane
        = ops_of (st\<lparr>ss_openOperationsByLane := open_operations_after (ss_openOperationsByLane st) r\<rparr>) lane"
      by (simp add: ops_of_def apply_record_def)
    moreover have "ops_of st lane = map (\<lambda>r. (lr_id r, r)) (open_spec lane (ss_records st))"
      using ops by (simp add: ops_ok_def)
    moreover have "lr_id r \<notin> lr_id ` set (open_spec lane (ss_records st))"
      using fr(2) open_spec_subset by fastforce
    ultimately show "ops_of ?s lane = map (\<lambda>r. (lr_id r, r)) (open_spec lane (ss_records ?s))"
      unfolding ops_of_after
      by (auto simp: apply_record_def open_spec_snoc amap_set_fresh amap_delete_def filter_index image_image
          split: record_body.splits)
  qed
  moreover have "stats_ok ?s"
    using stats by (cases "lr_body r") (simp_all add: stats_ok_def apply_record_def Let_def add_usage_def)
  moreover have "parents_ok [] (ss_entries ?s)" using pok by (simp add: apply_record_def)
  ultimately show ?thesis by (simp add: state_ok_def)
qed

lemma state_frames [frame_simps]:
  "index_ok (st\<lparr>ss_sequence := q\<rparr>) = index_ok st" "index_ok (st\<lparr>ss_log := l\<rparr>) = index_ok st"
  "index_ok (st\<lparr>ss_lanes := ls\<rparr>) = index_ok st" "index_ok (st\<lparr>ss_name := nm\<rparr>) = index_ok st"
  "index_ok (st\<lparr>ss_labels := lb\<rparr>) = index_ok st"
  "ops_ok (st\<lparr>ss_sequence := q\<rparr>) = ops_ok st" "ops_ok (st\<lparr>ss_log := l\<rparr>) = ops_ok st"
  "ops_ok (st\<lparr>ss_lanes := ls\<rparr>) = ops_ok st" "ops_ok (st\<lparr>ss_name := nm\<rparr>) = ops_ok st"
  "ops_ok (st\<lparr>ss_labels := lb\<rparr>) = ops_ok st"
  "stats_ok (st\<lparr>ss_sequence := q\<rparr>) = stats_ok st" "stats_ok (st\<lparr>ss_log := l\<rparr>) = stats_ok st"
  "stats_ok (st\<lparr>ss_lanes := ls\<rparr>) = stats_ok st" "stats_ok (st\<lparr>ss_name := nm\<rparr>) = stats_ok st"
  "stats_ok (st\<lparr>ss_labels := lb\<rparr>) = stats_ok st"
  "refs_ok (st\<lparr>ss_sequence := q\<rparr>) = refs_ok st" "refs_ok (st\<lparr>ss_log := l\<rparr>) = refs_ok st"
  "refs_ok (st\<lparr>ss_name := nm\<rparr>) = refs_ok st"
  by (simp_all add: index_ok_def ops_ok_def ops_of_def stats_ok_def refs_ok_def)

lemma log_ok_snoc:
  assumes "log_ok st" and "log_seq item = ss_sequence st + 1" and "log_item_ok item"
    and "log_entry item = None" and "log_record item = None"
    and "ss_log st' = ss_log st @ [item]" and "ss_sequence st' = ss_sequence st + 1"
    and "ss_entries st' = ss_entries st" and "ss_records st' = ss_records st"
  shows "log_ok st'"
  using assms by (simp add: log_ok_def)

lemma apply_lane_ok:
  assumes "state_ok st" and "seq = ss_sequence st + 1"
    and "\<forall>i. leaf = Some i \<longrightarrow> i \<in> en_id ` set (ss_entries st)"
  shows "state_ok (st\<lparr>ss_sequence := seq, ss_lanes := amap_set (ss_lanes st) lane leaf,
             ss_log := ss_log st @ [LogLane seq lane leaf]\<rparr>)" (is "state_ok ?s")
proof -
  have "log_ok ?s"
    using assms by - (rule log_ok_snoc [of st "LogLane seq lane leaf"], simp_all add: state_ok_def)
  moreover have "refs_ok ?s"
    using assms by (auto simp: state_ok_def refs_ok_def distinct_amap_set set_keys_amap_set intro!: targets_in_set)
  ultimately show ?thesis using assms(1) by (simp add: state_ok_def frame_simps)
qed

lemma apply_name_ok:
  assumes "state_ok st" and "seq = ss_sequence st + 1"
  shows "state_ok (st\<lparr>ss_sequence := seq, ss_name := name, ss_log := ss_log st @ [LogName seq name]\<rparr>)"
    (is "state_ok ?s")
proof -
  have "log_ok ?s"
    using assms by - (rule log_ok_snoc [of st "LogName seq name"], simp_all add: state_ok_def)
  then show ?thesis using assms(1) by (simp add: state_ok_def frame_simps)
qed

lemma apply_label_ok:
  assumes "state_ok st" and "seq = ss_sequence st + 1" and "target \<in> en_id ` set (ss_entries st)"
  shows "state_ok (st\<lparr>ss_sequence := seq,
             ss_labels := (case label of None \<Rightarrow> amap_delete (ss_labels st) target
                           | Some l \<Rightarrow> amap_set (ss_labels st) target l),
             ss_log := ss_log st @ [LogLabel seq target label]\<rparr>)" (is "state_ok ?s")
proof -
  have "log_ok ?s"
    using assms by - (rule log_ok_snoc [of st "LogLabel seq target label"], simp_all add: state_ok_def)
  moreover have "refs_ok ?s"
    using assms
    by (cases label) (auto simp: state_ok_def refs_ok_def distinct_amap_set set_keys_amap_set
        distinct_amap_delete set_amap_delete)
  ultimately show ?thesis using assms(1) by (simp add: state_ok_def frame_simps)
qed

lemma applyMutation_ok:
  assumes "state_ok st" and "applyMutation invalid m st = Inr st'"
  shows "state_ok st'"
proof -
  have seq: "mutation_seq m = ss_sequence st + 1" and k: "apply_kind m st = Inr st'"
    using assms(2) by (auto simp: applyMutation_def split: if_splits sum.splits)
  have idx: "index_ok st" using assms(1) by (simp add: state_ok_def)
  show ?thesis
  proof (cases m)
    case (MutEntry lane e)
    with k seq show ?thesis
      by (auto intro!: apply_entry_ok [OF assms(1)] simp: check_chain_def split: if_splits option.splits)
  next
    case (MutRecord r)
    with k seq show ?thesis by (auto intro!: apply_record_ok [OF assms(1)] split: if_splits)
  next
    case (MutLane s lane leaf)
    with k seq show ?thesis
      by (cases leaf) (auto intro!: apply_lane_ok [OF assms(1)] dest!: index_get [OF idx, THEN iffD1] split: if_splits)
  next
    case (MutName s name)
    with k seq show ?thesis by (auto intro!: apply_name_ok [OF assms(1)])
  next
    case (MutLabel s target label)
    with k seq show ?thesis
      by (auto intro!: apply_label_ok [OF assms(1)] dest!: index_get [OF idx, THEN iffD1] split: if_splits)
  qed
qed

lemma applyMutations_ok:
  "state_ok st \<Longrightarrow> applyMutations invalid ms st = Inr st' \<Longrightarrow> state_ok st'"
  by (induction ms arbitrary: st) (auto dest: applyMutation_ok)

section \<open>Query loops\<close>

definition limited :: "nat option \<Rightarrow> 'a list \<Rightarrow> 'a list" where
  "limited lim xs = (case lim of None \<Rightarrow> xs | Some n \<Rightarrow> take n xs)"

lemma collect_limited:
  "(\<forall>n. lim = Some n \<longrightarrow> length results < n) \<Longrightarrow>
     collect p lim xs results = limited lim (results @ filter p xs)"
proof (induction xs arbitrary: results)
  case (Cons x xs)
  show ?case
  proof (cases "p x \<and> Some (length results + 1) \<noteq> lim")
    case True
    then have "\<forall>n. lim = Some n \<longrightarrow> length (results @ [x]) < n" using Cons.prems by auto
    with True Cons.IH [of "results @ [x]"] show ?thesis by simp
  next
    case False
    with Cons show ?thesis by (auto simp: limited_def)
  qed
qed (auto simp: limited_def split: option.splits)

fun take_until :: "('a \<Rightarrow> bool) \<Rightarrow> 'a list \<Rightarrow> 'a list" where
  "take_until p [] = []"
| "take_until p (x # xs) = x # (if p x then [] else take_until p xs)"

lemma take_until_False [simp]: "take_until (\<lambda>_. False) xs = xs"
  by (induction xs) auto

lemma scan_branch_limited:
  "(\<forall>n. lim = Some n \<longrightarrow> length results < n) \<Longrightarrow>
     fst (scan_branch p stop lim es results) = limited lim (results @ filter p (take_until stop es))"
proof (induction es arbitrary: results)
  case (Cons e es)
  define r where "r = (if p e then results @ [e] else results)"
  show ?case
  proof (cases "stop e \<or> Some (length r) = lim")
    case True
    with Cons.prems show ?thesis by (auto simp: r_def limited_def split: option.splits)
  next
    case False
    then have "\<forall>n. lim = Some n \<longrightarrow> length r < n" using Cons.prems by (auto simp: r_def)
    from Cons.IH [OF this] False show ?thesis by (simp add: r_def)
  qed
qed (auto simp: limited_def split: option.splits)

lemma assertValidLimit_pos: "assertValidLimit l = Inr lim \<Longrightarrow> lim = Some n \<Longrightarrow> 0 < n"
  by (cases l rule: assertValidLimit.cases) (auto split: if_splits)

lemma findEntries_limited:
  assumes "assertValidLimit (q_limit q) = Inr lim" and "assertValidCursor (q_cursor q) = Inr cursor"
  shows "findEntries st q =
     Inr (limited lim (filter (\<lambda>e. matchesEntryQuery e q cursor) (ordered (ss_entries st) (q_order q))))"
  using assms assertValidLimit_pos [OF assms(1)] by (simp add: findEntries_def collect_limited)

section \<open>Branches\<close>

text \<open>A root path, oldest first.\<close>

fun chain :: "ustring option \<Rightarrow> Entry list \<Rightarrow> bool" where
  "chain prev [] = True"
| "chain prev (e # es) = (en_parentId e = prev \<and> chain (Some (en_id e)) es)"

lemma chain_snoc:
  "chain prev (es @ [e]) \<longleftrightarrow> chain prev es \<and> en_parentId e = (if es = [] then prev else Some (en_id (last es)))"
  by (induction es arbitrary: prev) auto

definition root_path :: "SessionState \<Rightarrow> Entry list \<Rightarrow> Entry \<Rightarrow> bool" where
  "root_path st path e \<longleftrightarrow>
     chain None path \<and> path \<noteq> [] \<and> last path = e \<and> distinct (map en_id path)
       \<and> set path \<subseteq> set (ss_entries st)"

lemma walk_whole:
  assumes idx: "index_ok st" and "parents_ok [] (ss_entries st)"
    and "ss_entries st = xs @ e # ys" and "set visited \<inter> en_id ` set (xs @ [e]) = {}"
  shows "\<exists>path. walk_from (ss_entriesById st) None visited e = (rev path, None) \<and> chain None path
      \<and> path \<noteq> [] \<and> last path = e \<and> distinct (map en_id path) \<and> set path \<subseteq> set (xs @ [e])"
  using assms(3,4)
proof (induction "length xs" arbitrary: xs e ys visited rule: less_induct)
  case less
  have nv: "en_id e \<notin> set visited" using less.prems(2) by auto
  have p: "case en_parentId e of None \<Rightarrow> True | Some p \<Rightarrow> p \<in> en_id ` set xs"
    using assms(2) less.prems(1) by (auto simp: parents_ok_append split: option.splits)
  show ?case
  proof (cases "en_parentId e")
    case None
    with nv show ?thesis
      by (intro exI [of _ "[e]"]) (simp add: walk_from.simps walk_stops_def)
  next
    case (Some q)
    with p obtain e' where e': "e' \<in> set xs" "en_id e' = q" by auto
    then obtain xs1 xs2 where xs: "xs = xs1 @ e' # xs2" by (meson split_list)
    have get: "map_of (ss_entriesById st) q = Some e'"
      using index_get [OF idx] e' less.prems(1) by simp
    have ne: "en_id e \<notin> en_id ` set xs"
      using idx less.prems(1) by (auto simp: index_ok_def)
    then have dis: "set (en_id e # visited) \<inter> en_id ` set (xs1 @ [e']) = {}"
      using less.prems(2) xs by auto
    obtain path where path: "walk_from (ss_entriesById st) None (en_id e # visited) e' = (rev path, None)"
      "chain None path" "path \<noteq> []" "last path = e'" "set path \<subseteq> set (xs1 @ [e'])" "distinct (map en_id path)"
      using less.hyps [of xs1 e' "xs2 @ e # ys" "en_id e # visited"] less.prems(1) xs dis by auto
    have "walk_from (ss_entriesById st) None visited e = (rev (path @ [e]), None)"
      using nv Some get path(1) by (subst walk_from.simps) (simp add: walk_stops_def)
    moreover have "chain None (path @ [e])" using path Some e'(2) by (simp add: chain_snoc)
    moreover have "set (path @ [e]) \<subseteq> set (xs @ [e])" using path(5) xs by auto
    moreover have "distinct (map en_id (path @ [e]))" using path(5,6) ne xs by auto
    ultimately show ?thesis by (intro exI [of _ "path @ [e]"]) simp
  qed
qed

lemma walk_bounded:
  "snd (walk_from byId None visited e) = None \<Longrightarrow>
     walk_from byId (Some b) visited e
       = (take_until (walk_stops (Some b)) (fst (walk_from byId None visited e)), None)"
proof (induction byId "None :: BranchBounds option" visited e rule: walk_from.induct)
  case (1 byId visited current)
  show ?case
  proof (cases "en_id current \<in> set visited")
    case True
    then show ?thesis using "1.prems" by (simp add: walk_from.simps)
  next
    case v: False
    show ?thesis
    proof (cases "\<exists>q parent. en_parentId current = Some q \<and> map_of byId q = Some parent")
      case True
      then obtain q parent where q: "en_parentId current = Some q" "map_of byId q = Some parent" by blast
      have u: "walk_from byId None visited current
          = (current # fst (walk_from byId None (en_id current # visited) parent),
             snd (walk_from byId None (en_id current # visited) parent))"
        using v q by (subst walk_from.simps) (simp add: walk_stops_def split_beta)
      have ih: "walk_from byId (Some b) (en_id current # visited) parent =
          (take_until (walk_stops (Some b)) (fst (walk_from byId None (en_id current # visited) parent)), None)"
        using 1(1) [OF v _ q(1) q(2)] "1.prems" u by (simp add: walk_stops_def)
      show ?thesis
        unfolding u using v q ih by (subst walk_from.simps) (simp add: split_beta)
    next
      case False
      then show ?thesis
        using "1.prems" v
        by (cases "en_parentId current"; cases "map_of byId (the (en_parentId current))")
          (auto simp: walk_from.simps walk_stops_def split: if_splits)
    qed
  qed
qed

lemma walkToRoot_path:
  assumes "state_ok st" and "map_of (ss_entriesById st) start = Some e"
  shows "\<exists>path. root_path st path e \<and> walkToRoot st (Some start) None = (rev path, None) \<and>
     (\<forall>b. walkToRoot st (Some start) (Some b) = (take_until (walk_stops (Some b)) (rev path), None))"
proof -
  have idx: "index_ok st" and par: "parents_ok [] (ss_entries st)" using assms(1) by (auto simp: state_ok_def)
  have "e \<in> set (ss_entries st)" using assms(2) index_get [OF idx] by blast
  then obtain xs ys where e: "ss_entries st = xs @ e # ys" by (meson split_list)
  obtain path where path: "walk_from (ss_entriesById st) None [] e = (rev path, None)" "chain None path"
    "path \<noteq> []" "last path = e" "distinct (map en_id path)" "set path \<subseteq> set (xs @ [e])"
    using walk_whole [OF idx par e, of "[]"] by auto
  have "root_path st path e" using path e by (auto simp: root_path_def)
  moreover have "walkToRoot st (Some start) None = (rev path, None)"
    using assms(2) path(1) by (simp add: walkToRoot_def)
  moreover have "walkToRoot st (Some start) (Some b) = (take_until (walk_stops (Some b)) (rev path), None)" for b
    using assms(2) path(1) walk_bounded [of "ss_entriesById st" "[]" e b] by (simp add: walkToRoot_def)
  ultimately show ?thesis by blast
qed

lemma findEntriesOnBranch_path:
  assumes "state_ok st" and "map_of (ss_entriesById st) start = Some e"
    and "assertValidLimit (q_limit q) = Inr lim" and "assertValidCursor (q_cursor q) = Inr cursor"
  shows "\<exists>path. root_path st path e \<and>
     findEntriesOnBranch st q b start =
       Inr (limited lim (filter (\<lambda>e. matchesEntryQuery e q cursor)
         (take_until (walk_stops (Some b)) (ordered path (q_order q)))))"
proof -
  obtain path where p: "root_path st path e" "walkToRoot st (Some start) None = (rev path, None)"
    "\<forall>b. walkToRoot st (Some start) (Some b) = (take_until (walk_stops (Some b)) (rev path), None)"
    using walkToRoot_path [OF assms(1,2)] by blast
  have pos: "\<forall>n. lim = Some n \<longrightarrow> length [] < n" using assertValidLimit_pos [OF assms(3)] by auto
  have "findEntriesOnBranch st q b start = Inr (limited lim (filter (\<lambda>e. matchesEntryQuery e q cursor)
         (take_until (walk_stops (Some b)) (ordered path (q_order q)))))"
    using assms(3,4) p(2,3) scan_branch_limited [OF pos, of "\<lambda>e. matchesEntryQuery e q cursor"]
    by (simp add: findEntriesOnBranch_def ordered_def split_beta)
  with p(1) show ?thesis by blast
qed

section \<open>Forks\<close>

lemma applyMutations_append:
  "applyMutations invalid (ms @ ms') st = rbind (applyMutations invalid ms st) (applyMutations invalid ms')"
proof (induction ms arbitrary: st)
  case (Cons m ms)
  then show ?case by (cases "applyMutation invalid m st") simp_all
qed simp

lemma number_from_append:
  "number_from n (fs @ gs) = number_from n fs @ number_from (n + length fs) gs"
  by (induction fs arbitrary: n) simp_all

fun renumber :: "nat \<Rightarrow> Entry list \<Rightarrow> Entry list" where
  "renumber n [] = []"
| "renumber n (e # es) = e\<lparr>en_seq := n\<rparr> # renumber (n + 1) es"

lemma ids_renumber [simp]: "map en_id (renumber n es) = map en_id es"
  by (induction es arbitrary: n) simp_all

lemma set_ids_renumber [simp]: "en_id ` set (renumber n es) = en_id ` set es"
  using ids_renumber by (metis list.set_map)

definition same_refs :: "SessionState \<Rightarrow> SessionState \<Rightarrow> bool" where
  "same_refs st st' \<longleftrightarrow> ss_lanes st' = ss_lanes st \<and> ss_labels st' = ss_labels st \<and> ss_name st' = ss_name st"

lemma fork_entries:
  assumes "state_ok st" and "\<forall>e \<in> set copied. en_id e \<notin> set (ss_usedIds st)"
    and "distinct (map en_id copied)" and "parents_ok (map en_id (ss_entries st)) copied"
  shows "\<exists>st'. applyMutations invalid (number_from (ss_sequence st + 1)
         (map (\<lambda>e n. MutEntry None (e\<lparr>en_seq := n\<rparr>)) copied)) st = Inr st'
      \<and> ss_entries st' = ss_entries st @ renumber (ss_sequence st + 1) copied
      \<and> same_refs st st' \<and> ss_sequence st' = ss_sequence st + length copied"
  using assms
proof (induction copied arbitrary: st)
  case Nil
  then show ?case by (simp add: same_refs_def)
next
  case (Cons e es)
  define e' where "e' = e\<lparr>en_seq := ss_sequence st + 1\<rparr>"
  define s1 where "s1 = apply_entry st None e'"
  have idx: "index_ok st" using Cons.prems(1) by (simp add: state_ok_def)
  have par: "check_parent st e' = Inr ()"
    using Cons.prems(4) index_has [OF idx]
    by (auto simp: check_parent_def e'_def simp del: not_None_eq split: option.splits)
  have ap: "applyMutation invalid (MutEntry None e') st = Inr s1"
    using Cons.prems(2) par by (simp add: applyMutation_def check_chain_def e'_def s1_def)
  have ids: "set (ss_usedIds s1) = insert (en_id e) (set (ss_usedIds st))"
    by (auto simp: s1_def apply_entry_def set_add_def e'_def)
  have "state_ok s1" using applyMutation_ok [OF Cons.prems(1) ap] .
  moreover have "\<forall>x \<in> set es. en_id x \<notin> set (ss_usedIds s1)" using Cons.prems(2,3) ids by (auto simp: image_iff)
  moreover have "parents_ok (map en_id (ss_entries s1)) es"
    using Cons.prems(4) by (auto simp: s1_def apply_entry_def e'_def elim!: parents_ok_mono)
  ultimately obtain st' where st': "applyMutations invalid (number_from (ss_sequence s1 + 1)
         (map (\<lambda>e n. MutEntry None (e\<lparr>en_seq := n\<rparr>)) es)) s1 = Inr st'"
    "ss_entries st' = ss_entries s1 @ renumber (ss_sequence s1 + 1) es"
    "same_refs s1 st'" "ss_sequence st' = ss_sequence s1 + length es"
    using Cons.IH [of s1] Cons.prems(3) by auto
  have "ss_sequence s1 = ss_sequence st + 1" "same_refs st s1" "ss_entries s1 = ss_entries st @ [e']"
    by (simp_all add: s1_def apply_entry_def e'_def same_refs_def)
  with st' ap show ?case by (auto simp: e'_def same_refs_def)
qed

lemma fork_lanes:
  assumes "state_ok st" and "targets_in (en_id ` set (ss_entries st)) lanes"
  shows "\<exists>st'. applyMutations invalid (number_from (ss_sequence st + 1)
         (map (\<lambda>(lane, leafId) n. MutLane n lane leafId) lanes)) st = Inr st'
      \<and> ss_lanes st' = foldl (\<lambda>m (l, v). amap_set m l v) (ss_lanes st) lanes
      \<and> ss_entries st' = ss_entries st \<and> ss_labels st' = ss_labels st \<and> ss_name st' = ss_name st
      \<and> ss_sequence st' = ss_sequence st + length lanes"
  using assms
proof (induction lanes arbitrary: st)
  case (Cons p lanes)
  obtain lane leaf where p: "p = (lane, leaf)" by (cases p)
  define s1 where "s1 = st\<lparr>ss_sequence := ss_sequence st + 1, ss_lanes := amap_set (ss_lanes st) lane leaf,
             ss_log := ss_log st @ [LogLane (ss_sequence st + 1) lane leaf]\<rparr>"
  have idx: "index_ok st" using Cons.prems(1) by (simp add: state_ok_def)
  have ap: "applyMutation invalid (MutLane (ss_sequence st + 1) lane leaf) st = Inr s1"
    using Cons.prems(2) index_has [OF idx]
    by (cases leaf) (auto simp: applyMutation_def s1_def p targets_in_def simp del: not_None_eq)
  have f: "ss_sequence s1 = ss_sequence st + 1" "ss_entries s1 = ss_entries st" "ss_labels s1 = ss_labels st"
    "ss_name s1 = ss_name st" "ss_lanes s1 = amap_set (ss_lanes st) lane leaf"
    by (simp_all add: s1_def)
  have "targets_in (en_id ` set (ss_entries s1)) lanes"
    using Cons.prems(2) f(2) by (simp add: targets_in_def)
  from Cons.IH [OF applyMutation_ok [OF Cons.prems(1) ap] this] ap f show ?case by (auto simp: p)
qed simp

lemma fork_labels:
  assumes "state_ok st" and "fst ` set labels \<subseteq> en_id ` set (ss_entries st)"
  shows "\<exists>st'. applyMutations invalid (number_from (ss_sequence st + 1)
         (map (\<lambda>(i, l) n. MutLabel n i (Some l)) labels)) st = Inr st'
      \<and> ss_labels st' = foldl (\<lambda>m (i, l). amap_set m i l) (ss_labels st) labels
      \<and> ss_entries st' = ss_entries st \<and> ss_lanes st' = ss_lanes st \<and> ss_name st' = ss_name st"
  using assms
proof (induction labels arbitrary: st)
  case (Cons p labels)
  obtain i l where p: "p = (i, l)" by (cases p)
  define s1 where "s1 = st\<lparr>ss_sequence := ss_sequence st + 1, ss_labels := amap_set (ss_labels st) i l,
             ss_log := ss_log st @ [LogLabel (ss_sequence st + 1) i (Some l)]\<rparr>"
  have idx: "index_ok st" using Cons.prems(1) by (simp add: state_ok_def)
  have ap: "applyMutation invalid (MutLabel (ss_sequence st + 1) i (Some l)) st = Inr s1"
    using Cons.prems(2) index_has [OF idx, of i]
    by (auto simp: applyMutation_def s1_def p simp del: not_None_eq)
  have f: "ss_sequence s1 = ss_sequence st + 1" "ss_entries s1 = ss_entries st" "ss_lanes s1 = ss_lanes st"
    "ss_name s1 = ss_name st" "ss_labels s1 = amap_set (ss_labels st) i l"
    by (simp_all add: s1_def)
  have "fst ` set labels \<subseteq> en_id ` set (ss_entries s1)" using Cons.prems(2) f(2) by auto
  from Cons.IH [OF applyMutation_ok [OF Cons.prems(1) ap] this] ap f show ?case by (auto simp: p)
qed simp

lemma map_of_foldl_amap_set:
  "distinct (map fst kvs) \<Longrightarrow>
     map_of (foldl (\<lambda>m (k, v). amap_set m k v) m kvs) k
       = (case map_of kvs k of Some v \<Rightarrow> Some v | None \<Rightarrow> map_of m k)"
proof (induction kvs arbitrary: m)
  case (Cons p kvs)
  obtain k' v' where p: "p = (k', v')" by (cases p)
  have "k = k' \<Longrightarrow> map_of kvs k = None" using Cons.prems p by (auto simp: map_of_eq_None_iff image_iff)
  with Cons show ?case by (auto simp: p split: option.splits)
qed simp

lemma chain_parents_ok: "chain prev es \<Longrightarrow> (\<forall>p. prev = Some p \<longrightarrow> p \<in> set known) \<Longrightarrow> parents_ok known es"
  by (induction es arbitrary: prev known) (auto split: option.splits)

lemma oldest_first_all [simp]: "matchesEntryQuery e oldest_first None"
  by (simp add: matchesEntryQuery_def oldest_first_def)

lemma no_bounds_stop [simp]: "walk_stops (Some no_bounds) = (\<lambda>_. False)"
  by (auto simp: walk_stops_def no_bounds_def)

lemma oldest_first_valid:
  "assertValidLimit (q_limit oldest_first) = Inr None" "assertValidCursor (q_cursor oldest_first) = Inr None"
  by (simp_all add: oldest_first_def)

lemma ordered_oldest_first [simp]: "ordered xs (q_order oldest_first) = xs"
  by (simp add: ordered_def oldest_first_def)

lemma findEntries_oldest_first: "findEntries st oldest_first = Inr (ss_entries st)"
  using findEntries_limited [OF oldest_first_valid, of st] by (simp add: limited_def)

lemma findEntriesOnBranch_whole:
  assumes "state_ok st" and "map_of (ss_entriesById st) t = Some e"
  shows "\<exists>path. findEntriesOnBranch st oldest_first no_bounds t = Inr path \<and> root_path st path e"
  using findEntriesOnBranch_path [OF assms oldest_first_valid, of no_bounds] by (auto simp: limited_def)

lemma fork_target_exists:
  assumes ok: "state_ok st" and "fork_target st entryId position = Inr (Some t)"
  shows "\<exists>e. map_of (ss_entriesById st) t = Some e"
proof -
  have idx: "index_ok st" and par: "parents_ok [] (ss_entries st)" using ok by (auto simp: state_ok_def)
  obtain i e where e: "map_of (ss_entriesById st) i = Some e" "t = en_id e \<or> en_parentId e = Some t"
    using assms(2) by (auto simp: fork_target_def getEntry_def Let_def split: option.splits if_splits)
  show ?thesis
  proof (cases "t = en_id e")
    case True
    with e index_get [OF idx] show ?thesis by blast
  next
    case False
    obtain xs ys where xs: "ss_entries st = xs @ e # ys" using e(1) index_get [OF idx] by (metis split_list)
    have "t \<in> en_id ` set xs" using par e(2) False by (simp add: xs parents_ok_append)
    with xs index_has [OF idx, of t] show ?thesis by auto
  qed
qed

lemma fork_selection_ok:
  assumes ok: "state_ok st" and sel: "fork_selection st options = Inr (copied, lanes)"
  shows "distinct (map en_id copied)" and "set copied \<subseteq> set (ss_entries st)" and "parents_ok [] copied"
    and "targets_in (en_id ` set copied) lanes" and "distinct (map fst lanes)" and "main_lane \<in> fst ` set lanes"
proof -
  have idx: "index_ok st" and par: "parents_ok [] (ss_entries st)" and refs: "refs_ok st"
    using ok by (auto simp: state_ok_def)
  have "distinct (map en_id copied) \<and> set copied \<subseteq> set (ss_entries st) \<and> parents_ok [] copied
      \<and> targets_in (en_id ` set copied) lanes \<and> distinct (map fst lanes) \<and> main_lane \<in> fst ` set lanes"
  proof (cases options)
    case ForkTree
    then have "copied = ss_entries st" "lanes = ss_lanes st"
      using sel by (auto simp: fork_selection_def findEntries_oldest_first getLanes_def)
    then show ?thesis using idx par refs by (auto simp: index_ok_def refs_ok_def)
  next
    case (ForkBranch entryId position)
    then obtain t where t: "fork_target st entryId position = Inr t" "lanes = [(main_lane, t)]"
      using sel by (auto simp: fork_selection_def)
    show ?thesis
    proof (cases t)
      case None
      then show ?thesis using sel t ForkBranch by (simp add: fork_selection_def targets_in_def)
    next
      case (Some i)
      obtain e where e: "map_of (ss_entriesById st) i = Some e"
        using fork_target_exists [OF ok] t(1) Some by blast
      then have "root_path st copied e"
        using findEntriesOnBranch_whole [OF ok e] sel t ForkBranch Some by (auto simp: fork_selection_def)
      moreover have "en_id e = i" using e index_get [OF idx] by blast
      ultimately show ?thesis
        using t(2) Some by (auto simp: root_path_def targets_in_def intro!: chain_parents_ok [of None])
    qed
  qed
  then show "distinct (map en_id copied)" "set copied \<subseteq> set (ss_entries st)" "parents_ok [] copied"
    "targets_in (en_id ` set copied) lanes" "distinct (map fst lanes)" "main_lane \<in> fst ` set lanes"
    by blast+
qed

text \<open>The labels a fork copies.\<close>

definition copied_labels :: "SessionState \<Rightarrow> Entry list \<Rightarrow> (ustring \<times> ustring) list" where
  "copied_labels st copied = List.map_filter (\<lambda>e. map_option (Pair (en_id e)) (map_of (ss_labels st) (en_id e))) copied"

lemma label_mutations_eq:
  "List.map_filter (label_mutation st) copied = map (\<lambda>(i, l) n. MutLabel n i (Some l)) (copied_labels st copied)"
  by (induction copied) (auto simp: copied_labels_def label_mutation_def split: option.splits)

lemma map_of_copied_labels:
  "map_of (copied_labels st copied) i = (if i \<in> en_id ` set copied then map_of (ss_labels st) i else None)"
  by (induction copied) (auto simp: copied_labels_def split: option.splits)

lemma keys_copied_labels: "fst ` set (copied_labels st copied) \<subseteq> en_id ` set copied"
  by (induction copied) (auto simp: copied_labels_def split: option.splits)

lemma distinct_copied_labels: "distinct (map en_id copied) \<Longrightarrow> distinct (map fst (copied_labels st copied))"
proof (induction copied)
  case (Cons e es)
  with keys_copied_labels [of st es] show ?case
    by (auto simp: copied_labels_def split: option.splits)
qed (simp add: copied_labels_def)

lemma fork_replays:
  assumes ok: "state_ok st" and sel: "fork_selection st options = Inr (copied, lanes)"
  shows "\<exists>st'. applyMutations invalid (fork_mutations st copied lanes) new_SessionState = Inr st'
     \<and> ss_entries st' = renumber 1 copied
     \<and> map_of (ss_lanes st') = map_of lanes \<and> ss_name st' = ss_name st
     \<and> (\<forall>i. map_of (ss_labels st') i = (if i \<in> en_id ` set copied then map_of (ss_labels st) i else None))"
proof -
  note s = fork_selection_ok [OF ok sel]
  let ?E = "map (\<lambda>e n. MutEntry None (e\<lparr>en_seq := n\<rparr>)) copied"
  let ?L = "map (\<lambda>(lane, leafId) n. MutLane n lane leafId) lanes"
  let ?N = "case ss_name st of None \<Rightarrow> [] | Some nm \<Rightarrow> [\<lambda>n. MutName n (Some nm)]"
  let ?B = "map (\<lambda>(i, l) n. MutLabel n i (Some l)) (copied_labels st copied)"
  have n: "ss_sequence new_SessionState = 0" "ss_usedIds new_SessionState = []" "ss_entries new_SessionState = []"
    "ss_lanes new_SessionState = [(main_lane, None)]" "ss_labels new_SessionState = []"
    "ss_name new_SessionState = None" by (simp_all add: new_SessionState_def)
  obtain s1 where s1: "applyMutations invalid (number_from 1 ?E) new_SessionState = Inr s1"
    "ss_entries s1 = renumber 1 copied" "same_refs new_SessionState s1" "ss_sequence s1 = length copied"
    using fork_entries [OF new_state_ok, of copied invalid] s(1,3) by (auto simp: n)
  have ok1: "state_ok s1" using applyMutations_ok [OF new_state_ok s1(1)] .
  have "targets_in (en_id ` set (ss_entries s1)) lanes" using s(4) s1(2) by simp
  from fork_lanes [OF ok1 this, of invalid] obtain s2 where s2:
    "applyMutations invalid (number_from (ss_sequence s1 + 1) ?L) s1 = Inr s2"
    "ss_lanes s2 = foldl (\<lambda>m (l, v). amap_set m l v) (ss_lanes s1) lanes"
    "ss_entries s2 = ss_entries s1" "ss_labels s2 = ss_labels s1" "ss_name s2 = ss_name s1"
    "ss_sequence s2 = ss_sequence s1 + length lanes" by blast
  have ok2: "state_ok s2" using applyMutations_ok [OF ok1 s2(1)] .
  obtain s3 where s3: "applyMutations invalid (number_from (ss_sequence s2 + 1) ?N) s2 = Inr s3"
    "ss_entries s3 = ss_entries s2" "ss_labels s3 = ss_labels s2" "ss_lanes s3 = ss_lanes s2"
    "ss_name s3 = ss_name st" "ss_sequence s3 = ss_sequence s2 + length ?N"
    using s2(5) s1(3) n(6) by (cases "ss_name st") (auto simp: applyMutation_def same_refs_def)
  have ok3: "state_ok s3" using applyMutations_ok [OF ok2 s3(1)] .
  have "fst ` set (copied_labels st copied) \<subseteq> en_id ` set (ss_entries s3)"
    using keys_copied_labels [of st copied] s3(2) s2(3) s1(2) by simp
  from fork_labels [OF ok3 this, of invalid] obtain s4 where s4:
    "applyMutations invalid (number_from (ss_sequence s3 + 1) ?B) s3 = Inr s4"
    "ss_labels s4 = foldl (\<lambda>m (i, l). amap_set m i l) (ss_labels s3) (copied_labels st copied)"
    "ss_entries s4 = ss_entries s3" "ss_lanes s4 = ss_lanes s3" "ss_name s4 = ss_name s3" by blast
  have "applyMutations invalid (fork_mutations st copied lanes) new_SessionState = Inr s4"
    using s1(1,4) s2(1,6) s3(1,6) s4(1)
    by (simp add: fork_mutations_def label_mutations_eq number_from_append applyMutations_append add.assoc)
  moreover have "map_of (ss_lanes s4) lane = map_of lanes lane" for lane
  proof -
    have "map_of lanes main_lane \<noteq> None" using s(6) by (simp add: map_of_eq_None_iff)
    then show ?thesis
      using s4(4) s3(4) s2(2) s1(3) map_of_foldl_amap_set [OF s(5), of "[(main_lane, None)]" lane]
      by (auto simp: same_refs_def n split: option.splits)
  qed
  moreover have "map_of (ss_labels s4) i = (if i \<in> en_id ` set copied then map_of (ss_labels st) i else None)" for i
    using s4(2) s3(3) s2(4) s1(3)
      map_of_foldl_amap_set [OF distinct_copied_labels [OF s(1), of st], of "[]" i]
    by (auto simp: same_refs_def n map_of_copied_labels split: option.splits)
  ultimately show ?thesis using s4(3,5) s3(2,5) s2(3) s1(2) by (intro exI [of _ s4]) auto
qed

section \<open>Properties\<close>

lemma reachable_ok: "applyMutations invalid ms new_SessionState = Inr st \<Longrightarrow> state_ok st"
  using applyMutations_ok [OF new_state_ok] .

text \<open>A short history used by the witnesses: two messages on the main lane, an operation and a label.\<close>

definition ex_user :: "string \<Rightarrow> AgentMessage" where
  "ex_user t = MUser \<lparr>um_content = CString (js_lit t), um_timestamp = 0\<rparr>"

definition ex_entry :: "string \<Rightarrow> nat \<Rightarrow> ustring option \<Rightarrow> Entry" where
  "ex_entry i n p = \<lparr>en_id = js_lit i, en_seq = n, en_parentId = p, en_timestamp = 5,
     en_body = MessageEntry (ex_user i) False\<rparr>"

definition ex_start :: LaneRecord where
  "ex_start = \<lparr>lr_id = js_lit ''op'', lr_seq = 3, lr_lane = main_lane, lr_timestamp = 6,
     lr_body = OperationStartedRecord
       \<lparr>os_sourceLeafId = Some (js_lit ''b''), os_intent = CompactionIntent None (js_lit ''r'')\<rparr>\<rparr>"

definition ex_history :: "SessionMutation list" where
  "ex_history = [MutEntry (Some main_lane) (ex_entry ''a'' 1 None),
     MutEntry (Some main_lane) (ex_entry ''b'' 2 (Some (js_lit ''a''))),
     MutRecord ex_start, MutLabel 4 (js_lit ''b'') (Some (js_lit ''here''))]"

lemma js_lit_simps [simp]:
  "js_lit [] = []" "js_lit (c # cs) = of_nat (of_char c) # js_lit cs"
  by (simp_all add: js_lit_def)

lemma ex_history_accepted:
  "\<exists>st. applyMutations invalidMutation ex_history new_SessionState = Inr st
     \<and> ss_entries st = [ex_entry ''a'' 1 None, ex_entry ''b'' 2 (Some (js_lit ''a''))]
     \<and> ss_records st = [ex_start] \<and> map_of (ss_labels st) (js_lit ''b'') = Some (js_lit ''here'')
     \<and> map_of (ss_lanes st) main_lane = Some (Some (js_lit ''b''))
     \<and> map_of (ss_entriesById st) (js_lit ''b'') = Some (ex_entry ''b'' 2 (Some (js_lit ''a'')))"
  by (simp add: ex_history_def applyMutation_def new_SessionState_def ex_entry_def ex_start_def check_chain_def
      check_parent_def apply_entry_def apply_record_def set_add_def main_lane_def)

text \<open>
  C5. Whatever mutations a \<open>SessionState\<close> accepts, in whatever order, the state stays well formed: the
  id index and the used ids agree with the entry and record lists and no id is used twice; every
  parent is an earlier entry; the log has consecutive sequence numbers from 1 and lists exactly the entries and
  records; lanes and labels refer to existing entries; the open operations and the statistics are
  those of the records.
\<close>
theorem session_state_invariant:
  assumes "applyMutations invalid ms new_SessionState = Inr st"
  shows "state_ok st"
  using reachable_ok [OF assms] .

theorem session_state_invariant_witness:
  "\<exists>st. applyMutations invalidMutation ex_history new_SessionState = Inr st \<and> state_ok st
     \<and> length (ss_entries st) = 2"
proof -
  obtain st where st: "applyMutations invalidMutation ex_history new_SessionState = Inr st"
    "length (ss_entries st) = 2" using ex_history_accepted by fastforce
  with session_state_invariant [OF st(1)] show ?thesis by blast
qed

text \<open>
  C6. A branch query from an existing entry never fails on a reachable state: the parent links
  from the entry lead over distinct entries to a root, and the result is this root path, read in the
  requested order up to and including the first entry that matches a bound, filtered by the query and
  cut off at the limit.
\<close>
theorem branch_query_is_path:
  assumes "applyMutations invalid ms new_SessionState = Inr st" and "getEntry st start = Some e"
    and "assertValidLimit (q_limit q) = Inr lim" and "assertValidCursor (q_cursor q) = Inr cursor"
  shows "\<exists>path. root_path st path e \<and>
     findEntriesOnBranch st q b start =
       Inr (limited lim (filter (\<lambda>e. matchesEntryQuery e q cursor)
         (take_until (walk_stops (Some b)) (ordered path (q_order q)))))"
  using findEntriesOnBranch_path [OF reachable_ok [OF assms(1)] _ assms(3,4)] assms(2)
  by (simp add: getEntry_def)

theorem branch_query_is_path_witness:
  "\<exists>st path. applyMutations invalidMutation ex_history new_SessionState = Inr st
     \<and> root_path st path (ex_entry ''b'' 2 (Some (js_lit ''a'')))
     \<and> findEntriesOnBranch st oldest_first no_bounds (js_lit ''b'') = Inr path"
proof -
  obtain st where st: "applyMutations invalidMutation ex_history new_SessionState = Inr st"
    "getEntry st (js_lit ''b'') = Some (ex_entry ''b'' 2 (Some (js_lit ''a'')))"
    using ex_history_accepted by (auto simp: getEntry_def simp del: js_lit_simps)
  from branch_query_is_path [OF st oldest_first_valid, of no_bounds] st(1) show ?thesis
    by (auto simp: limited_def)
qed

text \<open>
  \<open>findOpenOperations\<close> returns, newest first, exactly the operation starts of the lane that no later
  record of the lane finishes, cut off at the limit.
\<close>
theorem open_operations_spec:
  assumes "applyMutations invalid ms new_SessionState = Inr st" and "assertValidLimit limit = Inr lim"
  shows "findOpenOperations st lane limit = Inr (limited lim (rev (open_spec lane (ss_records st))))"
proof -
  have "ops_of st lane = map (\<lambda>r. (lr_id r, r)) (open_spec lane (ss_records st))"
    using reachable_ok [OF assms(1)] by (simp add: state_ok_def ops_ok_def)
  with assms(2) show ?thesis
    by (auto simp: findOpenOperations_def ops_of_def limited_def Let_def comp_def split: option.splits)
qed

theorem open_operations_spec_witness:
  "\<exists>st. applyMutations invalidMutation ex_history new_SessionState = Inr st
     \<and> findOpenOperations st main_lane (Some (NInt 1)) = Inr [ex_start]"
proof -
  obtain st where st: "applyMutations invalidMutation ex_history new_SessionState = Inr st"
    "ss_records st = [ex_start]" using ex_history_accepted by auto
  have "assertValidLimit (Some (NInt 1)) = Inr (Some 1)" by simp
  from open_operations_spec [OF st(1) this, of main_lane] st show ?thesis
    by (auto simp: limited_def ex_start_def)
qed

text \<open>
  C7. Forking is lossless and never produces an unreadable session: the mutations
  \<open>createForkMutations\<close> makes of a reachable state replay on an empty state without error; the result
  has the selected entries renumbered from 1 and otherwise unchanged, the selected lanes, the name, and
  the labels of the selected entries.
\<close>
theorem fork_replays_selection:
  assumes "applyMutations invalid ms new_SessionState = Inr st" and "createForkMutations st options = Inr fork"
  shows "\<exists>copied lanes st'. fork_selection st options = Inr (copied, lanes)
     \<and> applyMutations invalid fork new_SessionState = Inr st'
     \<and> ss_entries st' = renumber 1 copied \<and> set copied \<subseteq> set (ss_entries st)
     \<and> map_of (ss_lanes st') = map_of lanes \<and> ss_name st' = ss_name st
     \<and> (\<forall>i. map_of (ss_labels st') i = (if i \<in> en_id ` set copied then map_of (ss_labels st) i else None))"
proof -
  from assms(2) obtain copied lanes where sel: "fork_selection st options = Inr (copied, lanes)"
    and f: "fork = fork_mutations st copied lanes" by (auto simp: createForkMutations_def)
  show ?thesis
    using fork_replays [OF reachable_ok [OF assms(1)] sel, of invalid] sel f
      fork_selection_ok(2) [OF reachable_ok [OF assms(1)] sel] by auto
qed

theorem fork_replays_selection_witness:
  "\<exists>st fork st'. applyMutations invalidMutation ex_history new_SessionState = Inr st
     \<and> createForkMutations st ForkTree = Inr fork
     \<and> applyMutations invalidMutation fork new_SessionState = Inr st'
     \<and> map_of (ss_labels st') (js_lit ''b'') = Some (js_lit ''here'')"
proof -
  obtain st where st: "applyMutations invalidMutation ex_history new_SessionState = Inr st"
    "ss_entries st = [ex_entry ''a'' 1 None, ex_entry ''b'' 2 (Some (js_lit ''a''))]"
    "map_of (ss_labels st) (js_lit ''b'') = Some (js_lit ''here'')"
    using ex_history_accepted by blast
  have sel: "fork_selection st ForkTree = Inr (ss_entries st, getLanes st)"
    by (simp add: fork_selection_def findEntries_oldest_first)
  then obtain fork where fork: "createForkMutations st ForkTree = Inr fork"
    by (simp add: createForkMutations_def)
  from fork_replays_selection [OF st(1) fork] obtain copied lanes st' where
    "fork_selection st ForkTree = Inr (copied, lanes)" "applyMutations invalidMutation fork new_SessionState = Inr st'"
    "\<forall>i. map_of (ss_labels st') i = (if i \<in> en_id ` set copied then map_of (ss_labels st) i else None)"
    by blast
  moreover have "js_lit ''b'' \<in> en_id ` set (ss_entries st)" unfolding st(2) by (simp add: ex_entry_def)
  ultimately show ?thesis using st fork sel by auto
qed

end
