(* ===== verification/Session_Memory.thy ===== *)
theory Session_Memory
  imports Session_State_Props
begin

text \<open>
  The storage interface of \<^verbatim>\<open>session/types.ts\<close> as a record of operations, its in-memory
  implementation \<^verbatim>\<open>session/memory.ts\<close>, and the repository of in-memory sessions. \<open>Date.now()\<close> and the
  generated session id are arguments. An operation that rejects leaves the storage as it was.
  \<open>structuredClone\<close> of the values here is the value.
\<close>

section \<open>The storage interface\<close>

record 's SessionStorage =
  so_getMetadata :: "'s \<Rightarrow> SessionMetadata"
  so_getLanes :: "'s \<Rightarrow> LanePointer list"
  so_createLane :: "'s \<Rightarrow> ustring \<Rightarrow> ustring option \<Rightarrow> SessionError + 's"
  so_moveLane :: "'s \<Rightarrow> ustring \<Rightarrow> ustring option \<Rightarrow> SessionError + 's"
  so_appendEntry :: "'s \<Rightarrow> int \<Rightarrow> ProvisionedEntry \<Rightarrow> ustring \<Rightarrow> SessionError + (Entry \<times> 's)"
  so_appendRecord :: "'s \<Rightarrow> int \<Rightarrow> NewRecord \<Rightarrow> SessionError + (LaneRecord \<times> 's)"
  so_getEntry :: "'s \<Rightarrow> ustring \<Rightarrow> Entry option"
  so_findEntries :: "'s \<Rightarrow> EntryQuery \<Rightarrow> SessionError + Entry list"
  so_findEntriesOnBranch :: "'s \<Rightarrow> EntryQuery \<Rightarrow> BranchBounds \<Rightarrow> ustring \<Rightarrow> SessionError + Entry list"
  so_findRecords :: "'s \<Rightarrow> RecordQuery \<Rightarrow> SessionError + LaneRecord list"
  so_findOpenOperations :: "'s \<Rightarrow> ustring \<Rightarrow> jsnum option \<Rightarrow> SessionError + LaneRecord list"
  so_getLog :: "'s \<Rightarrow> LogOptions \<Rightarrow> SessionError + LogItem list"
  so_getName :: "'s \<Rightarrow> ustring option"
  so_setName :: "'s \<Rightarrow> ustring option \<Rightarrow> SessionError + 's"
  so_getLabel :: "'s \<Rightarrow> ustring \<Rightarrow> ustring option"
  so_setLabel :: "'s \<Rightarrow> ustring \<Rightarrow> ustring option \<Rightarrow> SessionError + 's"
  so_getStats :: "'s \<Rightarrow> SessionStats"

section \<open>In-memory storage\<close>

record InMemorySessionStorage =
  im_metadata :: SessionMetadata
  im_state :: SessionState

definition new_InMemorySessionStorage :: "SessionMetadata \<Rightarrow> InMemorySessionStorage" where
  "new_InMemorySessionStorage metadata = \<lparr>im_metadata = metadata, im_state = new_SessionState\<rparr>"

definition im_apply :: "InMemorySessionStorage \<Rightarrow> SessionMutation \<Rightarrow> SessionError + InMemorySessionStorage" where
  "im_apply s m = rbind (applyMutation invalidMutation m (im_state s)) (\<lambda>st. Inr (s\<lparr>im_state := st\<rparr>))"

definition im_fork :: "InMemorySessionStorage \<Rightarrow> SessionMetadata \<Rightarrow> ForkOptions \<Rightarrow> SessionError + InMemorySessionStorage" where
  "im_fork s metadata options =
     rbind (createForkMutations (im_state s) options) (\<lambda>mutations.
     rbind (applyMutations invalidMutation mutations new_SessionState) (\<lambda>st.
     Inr \<lparr>im_metadata = metadata, im_state = st\<rparr>))"

definition im_createLane :: "InMemorySessionStorage \<Rightarrow> ustring \<Rightarrow> ustring option \<Rightarrow> SessionError + InMemorySessionStorage" where
  "im_createLane s lane at =
     rbind (validateNewLane (im_state s) lane) (\<lambda>_.
     rbind (validateTarget (im_state s) at) (\<lambda>_.
     im_apply s (MutLane (nextSequence (im_state s)) lane at)))"

definition im_moveLane :: "InMemorySessionStorage \<Rightarrow> ustring \<Rightarrow> ustring option \<Rightarrow> SessionError + InMemorySessionStorage" where
  "im_moveLane s lane to =
     rbind (requireLane (im_state s) lane) (\<lambda>_.
     rbind (validateTarget (im_state s) to) (\<lambda>_.
     im_apply s (MutLane (nextSequence (im_state s)) lane to)))"

definition im_appendEntry ::
  "InMemorySessionStorage \<Rightarrow> int \<Rightarrow> ProvisionedEntry \<Rightarrow> ustring \<Rightarrow> SessionError + (Entry \<times> InMemorySessionStorage)" where
  "im_appendEntry s now newEntry lane =
     rbind (requireLane (im_state s) lane) (\<lambda>parentId.
     rbind (validateUnusedId (im_state s) (pe_id newEntry)) (\<lambda>_.
     let entry = \<lparr>en_id = pe_id newEntry, en_seq = nextSequence (im_state s), en_parentId = parentId,
                  en_timestamp = now, en_body = pe_body newEntry\<rparr>
     in rbind (im_apply s (MutEntry (Some lane) entry)) (\<lambda>s'. Inr (entry, s'))))"

definition im_appendRecord ::
  "InMemorySessionStorage \<Rightarrow> int \<Rightarrow> NewRecord \<Rightarrow> SessionError + (LaneRecord \<times> InMemorySessionStorage)" where
  "im_appendRecord s now newRecord =
     rbind (requireLane (im_state s) (nr_lane newRecord)) (\<lambda>_.
     rbind (validateUnusedId (im_state s) (nr_id newRecord)) (\<lambda>_.
     rbind (findOpenOperations (im_state s) (nr_lane newRecord) (Some (NInt 1))) (\<lambda>openOperations.
     rbind (case (nr_body newRecord, openOperations) of
              (OperationStartedRecord _, op # _) \<Rightarrow>
                Inl (SessionError StorageError (js_lit ''Lane '' @ nr_lane newRecord
                  @ js_lit '' already has an open operation '' @ lr_id op))
            | _ \<Rightarrow> Inr ()) (\<lambda>_.
     let record = \<lparr>lr_id = nr_id newRecord, lr_seq = nextSequence (im_state s), lr_lane = nr_lane newRecord,
                   lr_timestamp = now, lr_body = nr_body newRecord\<rparr>
     in rbind (im_apply s (MutRecord record)) (\<lambda>s'. Inr (record, s'))))))"

definition im_setName :: "InMemorySessionStorage \<Rightarrow> ustring option \<Rightarrow> SessionError + InMemorySessionStorage" where
  "im_setName s name = im_apply s (MutName (nextSequence (im_state s)) name)"

definition im_setLabel :: "InMemorySessionStorage \<Rightarrow> ustring \<Rightarrow> ustring option \<Rightarrow> SessionError + InMemorySessionStorage" where
  "im_setLabel s i label =
     rbind (validateTarget (im_state s) (Some i)) (\<lambda>_.
     im_apply s (MutLabel (nextSequence (im_state s)) i label))"

definition memory_storage :: "InMemorySessionStorage SessionStorage" where
  "memory_storage = \<lparr>
     so_getMetadata = im_metadata,
     so_getLanes = (\<lambda>s. getLanes (im_state s)),
     so_createLane = im_createLane,
     so_moveLane = im_moveLane,
     so_appendEntry = im_appendEntry,
     so_appendRecord = im_appendRecord,
     so_getEntry = (\<lambda>s. getEntry (im_state s)),
     so_findEntries = (\<lambda>s. findEntries (im_state s)),
     so_findEntriesOnBranch = (\<lambda>s. findEntriesOnBranch (im_state s)),
     so_findRecords = (\<lambda>s. findRecords (im_state s)),
     so_findOpenOperations = (\<lambda>s. findOpenOperations (im_state s)),
     so_getLog = (\<lambda>s. getLog (im_state s)),
     so_getName = (\<lambda>s. getName (im_state s)),
     so_setName = im_setName,
     so_getLabel = (\<lambda>s. getLabel (im_state s)),
     so_setLabel = im_setLabel,
     so_getStats = (\<lambda>s. getStats (im_state s))\<rparr>"

section \<open>The repository\<close>

text \<open>A \<open>Session\<close> on a stored storage is its id.\<close>

type_synonym InMemorySessionRepo = "(ustring \<times> InMemorySessionStorage) list"

definition session_exists :: "ustring \<Rightarrow> SessionError" where
  "session_exists i = SessionError AlreadyExists (js_lit ''Session already exists: '' @ i)"

definition requireStorage :: "InMemorySessionRepo \<Rightarrow> ustring \<Rightarrow> SessionError + InMemorySessionStorage" where
  "requireStorage repo i =
     (case amap_get repo i of
        None \<Rightarrow> Inl (SessionError NotFound (js_lit ''Session not found: '' @ i))
      | Some storage \<Rightarrow> Inr storage)"

definition repo_create :: "InMemorySessionRepo \<Rightarrow> ustring \<Rightarrow> int \<Rightarrow> ustring option \<Rightarrow> ustring option
    \<Rightarrow> SessionError + (ustring \<times> InMemorySessionRepo)" where
  "repo_create repo fresh now optId parentSessionId =
     (let i = (case optId of Some i \<Rightarrow> i | None \<Rightarrow> fresh) in
      if amap_has repo i then Inl (session_exists i)
      else Inr (i, amap_set repo i (new_InMemorySessionStorage
             \<lparr>md_id = i, md_createdAt = now, md_parentSessionId = parentSessionId\<rparr>)))"

definition repo_open :: "InMemorySessionRepo \<Rightarrow> SessionMetadata \<Rightarrow> SessionError + ustring" where
  "repo_open repo metadata = rbind (requireStorage repo (md_id metadata)) (\<lambda>_. Inr (md_id metadata))"

definition repo_list :: "InMemorySessionRepo \<Rightarrow> SessionMetadata list" where
  "repo_list repo = map (\<lambda>(_, s). im_metadata s) repo"

definition repo_delete :: "InMemorySessionRepo \<Rightarrow> SessionMetadata \<Rightarrow> InMemorySessionRepo" where
  "repo_delete repo metadata = amap_delete repo (md_id metadata)"

definition repo_fork :: "InMemorySessionRepo \<Rightarrow> ustring \<Rightarrow> int \<Rightarrow> SessionMetadata \<Rightarrow> ForkOptions
    \<Rightarrow> ustring option \<Rightarrow> ustring option \<Rightarrow> SessionError + (ustring \<times> InMemorySessionRepo)" where
  "repo_fork repo fresh now source options optId parentSessionId =
     rbind (requireStorage repo (md_id source)) (\<lambda>sourceStorage.
     let i = (case optId of Some i \<Rightarrow> i | None \<Rightarrow> fresh) in
     if amap_has repo i then Inl (session_exists i)
     else rbind (im_fork sourceStorage
            \<lparr>md_id = i, md_createdAt = now,
             md_parentSessionId = Some (case parentSessionId of Some p \<Rightarrow> p | None \<Rightarrow> md_id source)\<rparr> options) (\<lambda>storage.
          Inr (i, amap_set repo i storage)))"

section \<open>Reachable storages\<close>

text \<open>What the clients of a storage can do to it.\<close>

inductive mem_step :: "InMemorySessionStorage \<Rightarrow> InMemorySessionStorage \<Rightarrow> bool" where
  createLane: "im_createLane s lane at = Inr s' \<Longrightarrow> mem_step s s'"
| moveLane: "im_moveLane s lane to = Inr s' \<Longrightarrow> mem_step s s'"
| appendEntry: "im_appendEntry s now e lane = Inr (entry, s') \<Longrightarrow> mem_step s s'"
| appendRecord: "im_appendRecord s now r = Inr (rec, s') \<Longrightarrow> mem_step s s'"
| setName: "im_setName s name = Inr s' \<Longrightarrow> mem_step s s'"
| setLabel: "im_setLabel s i label = Inr s' \<Longrightarrow> mem_step s s'"

inductive mem_reachable :: "InMemorySessionStorage \<Rightarrow> bool" where
  created: "mem_reachable (new_InMemorySessionStorage metadata)"
| stepped: "mem_reachable s \<Longrightarrow> mem_step s s' \<Longrightarrow> mem_reachable s'"
| forked: "mem_reachable s \<Longrightarrow> im_fork s metadata options = Inr s' \<Longrightarrow> mem_reachable s'"

definition single_writer :: "SessionState \<Rightarrow> bool" where
  "single_writer st \<longleftrightarrow> (\<forall>lane. length (open_spec lane (ss_records st)) \<le> 1)"

definition storage_ok :: "InMemorySessionStorage \<Rightarrow> bool" where
  "storage_ok s \<longleftrightarrow> state_ok (im_state s) \<and> single_writer (im_state s)"

text \<open>What an accepted mutation does to the record list.\<close>

lemma apply_kind_records:
  "apply_kind m st = Inr st' \<Longrightarrow>
     ss_records st' = ss_records st @ (case m of MutRecord r \<Rightarrow> [r] | _ \<Rightarrow> [])"
  by (cases m) (auto simp: apply_entry_def apply_record_def split: if_splits option.splits)

lemma im_apply_records:
  assumes "im_apply s m = Inr s'"
  shows "ss_records (im_state s') = ss_records (im_state s) @ (case m of MutRecord r \<Rightarrow> [r] | _ \<Rightarrow> [])"
  using assms apply_kind_records by (fastforce simp: im_apply_def applyMutation_def split: if_splits sum.splits)

lemma im_apply_ok:
  assumes "storage_ok s" and "im_apply s m = Inr s'"
    and "\<And>r. m = MutRecord r \<Longrightarrow> starts_in (lr_lane r) r \<Longrightarrow> open_spec (lr_lane r) (ss_records (im_state s)) = []"
  shows "storage_ok s'"
proof -
  have "state_ok (im_state s')"
    using assms(1,2) applyMutation_ok by (auto simp: im_apply_def storage_ok_def)
  moreover have "length (open_spec lane (ss_records (im_state s'))) \<le> 1" for lane
  proof (cases m)
    case (MutRecord r)
    have sp: "open_spec lane (ss_records (im_state s')) =
        filter (\<lambda>x. \<not> finishes_in lane (lr_id x) r) (open_spec lane (ss_records (im_state s)))
        @ (if starts_in lane r then [r] else [])"
      using im_apply_records [OF assms(2)] MutRecord by (simp add: open_spec_snoc)
    show ?thesis
    proof (cases "starts_in lane r")
      case True
      then have "lr_lane r = lane" by simp
      with assms(3) [OF MutRecord] True sp show ?thesis by simp
    next
      case False
      have "length (open_spec lane (ss_records (im_state s))) \<le> 1"
        using assms(1) by (simp add: storage_ok_def single_writer_def)
      with sp False show ?thesis
        by (simp add: le_trans [OF length_filter_le] del: starts_in.simps finishes_in.simps)
    qed
  qed (use assms(1) im_apply_records [OF assms(2)] in \<open>simp_all add: storage_ok_def single_writer_def\<close>)
  ultimately show ?thesis by (simp add: storage_ok_def single_writer_def)
qed

lemma findOpenOperations_one:
  assumes "state_ok st"
  shows "findOpenOperations st lane (Some (NInt 1)) = Inr (take 1 (rev (open_spec lane (ss_records st))))"
proof -
  have "ops_of st lane = map (\<lambda>r. (lr_id r, r)) (open_spec lane (ss_records st))"
    using assms by (simp add: state_ok_def ops_ok_def)
  then show ?thesis by (auto simp: findOpenOperations_def ops_of_def Let_def comp_def split: option.splits)
qed

lemma im_appendRecord_ok:
  assumes "storage_ok s" and "im_appendRecord s now r = Inr (rec, s')"
  shows "storage_ok s'"
proof -
  have st: "state_ok (im_state s)" using assms(1) by (simp add: storage_ok_def)
  let ?rec = "\<lparr>lr_id = nr_id r, lr_seq = nextSequence (im_state s), lr_lane = nr_lane r,
                   lr_timestamp = now, lr_body = nr_body r\<rparr>"
  let ?open = "open_spec (nr_lane r) (ss_records (im_state s))"
  have ap: "im_apply s (MutRecord ?rec) = Inr s'"
    and g: "\<And>x. nr_body r = OperationStartedRecord x \<Longrightarrow> take 1 (rev ?open) = []"
    using assms(2) unfolding im_appendRecord_def findOpenOperations_one [OF st] Let_def
    by (auto split: prod.splits record_body.splits list.splits)
  show ?thesis
  proof (rule im_apply_ok [OF assms(1) ap])
    fix r' assume "MutRecord ?rec = MutRecord r'" "starts_in (lr_lane r') r'"
    then obtain x where "nr_body r = OperationStartedRecord x" and l: "lr_lane r' = nr_lane r"
      by (auto split: record_body.splits)
    with g show "open_spec (lr_lane r') (ss_records (im_state s)) = []" by simp
  qed
qed

lemma mem_step_ok: "mem_step s s' \<Longrightarrow> storage_ok s \<Longrightarrow> storage_ok s'"
proof (induction rule: mem_step.induct)
  case (appendRecord s now r rec s')
  then show ?case using im_appendRecord_ok by blast
next
  case (createLane s lane at s')
  then show ?case by (auto simp: im_createLane_def elim: im_apply_ok)
next
  case (moveLane s lane to s')
  then show ?case by (auto simp: im_moveLane_def elim: im_apply_ok)
next
  case (appendEntry s now e lane entry s')
  then show ?case by (auto simp: im_appendEntry_def Let_def elim: im_apply_ok)
next
  case (setName s name s')
  then show ?case by (auto simp: im_setName_def elim: im_apply_ok)
next
  case (setLabel s i label s')
  then show ?case by (auto simp: im_setLabel_def elim: im_apply_ok)
qed

lemma applyMutations_no_records:
  "applyMutations invalid ms st = Inr st' \<Longrightarrow> list_all (\<lambda>m. case m of MutRecord _ \<Rightarrow> False | _ \<Rightarrow> True) ms
     \<Longrightarrow> ss_records st' = ss_records st"
proof (induction ms arbitrary: st)
  case (Cons m ms)
  then obtain s1 where s1: "applyMutation invalid m st = Inr s1" "applyMutations invalid ms s1 = Inr st'" by auto
  then have "apply_kind m st = Inr s1" by (auto simp: applyMutation_def split: if_splits sum.splits)
  from apply_kind_records [OF this] Cons.IH [OF s1(2)] Cons.prems(2) show ?case
    by (cases m) auto
qed simp

lemma number_from_all: "list_all (\<lambda>f. \<forall>n. P (f n)) fs \<Longrightarrow> list_all P (number_from n fs)"
  by (induction fs arbitrary: n) auto

lemma fork_mutations_no_records:
  "list_all (\<lambda>m. case m of MutRecord _ \<Rightarrow> False | _ \<Rightarrow> True) (fork_mutations st copied lanes)"
  unfolding fork_mutations_def label_mutations_eq
  by (rule number_from_all) (auto simp: list_all_iff split: option.splits)

lemma im_fork_ok:
  assumes "im_fork s metadata options = Inr s'"
  shows "storage_ok s'"
proof -
  from assms obtain copied lanes st where
    st: "applyMutations invalidMutation (fork_mutations (im_state s) copied lanes) new_SessionState = Inr st"
    and s': "im_state s' = st"
    by (auto simp: im_fork_def createForkMutations_def)
  have "ss_records st = []"
    using applyMutations_no_records [OF st fork_mutations_no_records] by (simp add: new_SessionState_def)
  then show ?thesis using reachable_ok [OF st] s' by (simp add: storage_ok_def single_writer_def)
qed

lemma mem_reachable_ok: "mem_reachable s \<Longrightarrow> storage_ok s"
proof (induction rule: mem_reachable.induct)
  case (created metadata)
  then show ?case
    using new_state_ok by (simp add: storage_ok_def single_writer_def new_InMemorySessionStorage_def new_SessionState_def)
next
  case (stepped s s')
  then show ?case using mem_step_ok by blast
next
  case (forked s metadata options s')
  then show ?case using im_fork_ok by blast
qed

section \<open>The contract of a storage\<close>

text \<open>A root path is determined by its last entry.\<close>

lemma path_unique:
  assumes "chain None xs" "xs \<noteq> []" "last xs = e" "\<forall>x \<in> set xs. look (en_id x) = Some x"
    and "chain None ys" "ys \<noteq> []" "last ys = e" "\<forall>x \<in> set ys. look (en_id x) = Some x"
  shows "xs = ys"
  using assms
proof (induction xs arbitrary: ys e rule: rev_induct)
  case (snoc x xs)
  obtain y zs where ys: "ys = zs @ [y]" using snoc.prems(6) by (cases ys rule: rev_cases) auto
  have xy: "x = e" "y = e" using snoc.prems(3,7) ys by simp_all
  show ?case
  proof (cases "xs = []")
    case True
    then show ?thesis using snoc.prems(1,5) ys xy by (auto simp: chain_snoc split: if_splits)
  next
    case False
    then have p: "en_parentId e = Some (en_id (last xs))" using snoc.prems(1) xy by (simp add: chain_snoc)
    then have z: "zs \<noteq> []" "en_id (last zs) = en_id (last xs)"
      using snoc.prems(5) ys xy by (auto simp: chain_snoc split: if_splits)
    have "look (en_id (last xs)) = Some (last xs)" "look (en_id (last zs)) = Some (last zs)"
      using snoc.prems(4,8) False z(1) ys by simp_all
    with z(2) have l: "last zs = last xs" by simp
    have "chain None xs" "chain None zs" "\<forall>x \<in> set xs. look (en_id x) = Some x"
      "\<forall>x \<in> set zs. look (en_id x) = Some x"
      using snoc.prems(1,4,5,8) ys by (simp_all add: chain_snoc)
    with snoc.IH False z(1) l have "xs = zs" by blast
    then show ?thesis using ys xy by simp
  qed
qed simp

text \<open>
  What a session relies on. Entries are immutable and an append adds exactly one, on top of the leaf of
  its lane; the leaf of every lane is an entry; a branch scan from an entry is a path of
  stored entries to a root.
\<close>

locale session_storage =
  fixes S :: "'s SessionStorage" and ok :: "'s \<Rightarrow> bool"
  assumes append_entry: "ok s \<Longrightarrow> so_appendEntry S s now pe lane = Inr (e, s') \<Longrightarrow>
      ok s' \<and> so_getEntry S s (pe_id pe) = None \<and> so_getEntry S s' = (so_getEntry S s)(pe_id pe \<mapsto> e)
      \<and> entry_payload e = pe \<and> map_of (so_getLanes S s) lane = Some (en_parentId e)
      \<and> map_of (so_getLanes S s') = (map_of (so_getLanes S s))(lane \<mapsto> Some (pe_id pe))"
    and append_record: "ok s \<Longrightarrow> so_appendRecord S s now nr = Inr (r, s') \<Longrightarrow>
      ok s' \<and> so_getEntry S s' = so_getEntry S s \<and> map_of (so_getLanes S s') = map_of (so_getLanes S s)"
    and stored_id: "ok s \<Longrightarrow> so_getEntry S s i = Some e \<Longrightarrow> en_id e = i"
    and lane_leaf: "ok s \<Longrightarrow> map_of (so_getLanes S s) lane = Some (Some i) \<Longrightarrow> so_getEntry S s i \<noteq> None"
    and branch: "ok s \<Longrightarrow> so_getEntry S s i = Some e \<Longrightarrow>
      \<exists>path. so_findEntriesOnBranch S s oldest_first no_bounds i = Inr path \<and> chain None path
        \<and> path \<noteq> [] \<and> last path = e \<and> (\<forall>x \<in> set path. so_getEntry S s (en_id x) = Some x)"
begin

lemma branch_determined:
  assumes "ok s" and "so_findEntriesOnBranch S s oldest_first no_bounds i = Inr path" and "so_getEntry S s i = Some e"
  shows "chain None path" and "path \<noteq> []" and "last path = e" and "\<forall>x \<in> set path. so_getEntry S s (en_id x) = Some x"
  using branch [OF assms(1,3)] assms(2) by auto

lemma append_keeps_branches:
  assumes "ok s" and "so_appendEntry S s now pe lane = Inr (e, s')"
    and "so_findEntriesOnBranch S s oldest_first no_bounds i = Inr path" and "so_getEntry S s i = Some x"
  shows "so_findEntriesOnBranch S s' oldest_first no_bounds i = Inr path"
proof -
  note ap = append_entry [OF assms(1,2)]
  note old = branch_determined [OF assms(1,3,4)]
  have keep: "so_getEntry S s' j = Some y" if "so_getEntry S s j = Some y" for j y
    using that ap by auto
  obtain path' where new: "so_findEntriesOnBranch S s' oldest_first no_bounds i = Inr path'"
    "chain None path'" "path' \<noteq> []" "last path' = x" "\<forall>y \<in> set path'. so_getEntry S s' (en_id y) = Some y"
    using branch [of s' i x] ap keep [OF assms(4)] by blast
  have "path = path'"
    using path_unique [OF old(1-3) _ new(2-5)] old(4) keep by blast
  with new(1) show ?thesis by simp
qed

lemma append_extends_branch:
  assumes "ok s" and "so_appendEntry S s now pe lane = Inr (e, s')"
    and "map_of (so_getLanes S s) lane = Some (Some i)"
    and "so_findEntriesOnBranch S s oldest_first no_bounds i = Inr path"
  shows "so_findEntriesOnBranch S s' oldest_first no_bounds (pe_id pe) = Inr (path @ [e])"
proof -
  note ap = append_entry [OF assms(1,2)]
  obtain x where x: "so_getEntry S s i = Some x" using lane_leaf [OF assms(1,3)] by blast
  note old = branch_determined [OF assms(1,4) x]
  have keep: "so_getEntry S s' j = Some y" if "so_getEntry S s j = Some y" for j y
    using that ap by auto
  have e: "so_getEntry S s' (pe_id pe) = Some e" "en_id e = pe_id pe" "en_parentId e = Some i"
    using ap assms(3) by (auto simp: entry_payload_def)
  have "en_id x = i" using stored_id [OF assms(1) x] .
  then have c: "chain None (path @ [e])" using old e(3) by (simp add: chain_snoc)
  obtain path' where new: "so_findEntriesOnBranch S s' oldest_first no_bounds (pe_id pe) = Inr path'"
    "chain None path'" "path' \<noteq> []" "last path' = e" "\<forall>y \<in> set path'. so_getEntry S s' (en_id y) = Some y"
    using branch [of s' "pe_id pe" e] ap e(1) by blast
  have "path @ [e] = path'"
    using path_unique [OF c _ _ _ new(2-5)] old(4) keep e by auto
  with new(1) show ?thesis by simp
qed

end

section \<open>The in-memory storage meets the contract\<close>

lemma im_apply_state:
  "im_apply s m = Inr s' \<Longrightarrow> applyMutation invalidMutation m (im_state s) = Inr (im_state s')"
  by (auto simp: im_apply_def)

lemma im_appendEntry_effect:
  assumes "storage_ok s" and "im_appendEntry s now pe lane = Inr (e, s')"
  shows "storage_ok s'" and "getEntry (im_state s) (pe_id pe) = None"
    and "getEntry (im_state s') = (getEntry (im_state s))(pe_id pe \<mapsto> e)" and "entry_payload e = pe"
    and "map_of (ss_lanes (im_state s)) lane = Some (en_parentId e)"
    and "map_of (ss_lanes (im_state s')) = (map_of (ss_lanes (im_state s)))(lane \<mapsto> Some (pe_id pe))"
proof -
  have idx: "index_ok (im_state s)" using assms(1) by (simp add: storage_ok_def state_ok_def)
  show "storage_ok s'" using mem_step_ok [OF mem_step.appendEntry [OF assms(2)] assms(1)] .
  obtain parent where p: "map_of (ss_lanes (im_state s)) lane = Some parent" "pe_id pe \<notin> set (ss_usedIds (im_state s))"
    and e: "e = \<lparr>en_id = pe_id pe, en_seq = nextSequence (im_state s), en_parentId = parent,
                  en_timestamp = now, en_body = pe_body pe\<rparr>"
    and ap: "im_apply s (MutEntry (Some lane) e) = Inr s'"
    using assms(2) by (auto simp: im_appendEntry_def requireLane_def validateUnusedId_def Let_def
        split: option.splits if_splits)
  have s': "im_state s' = apply_entry (im_state s) (Some lane) e"
    using im_apply_state [OF ap] by (auto simp: applyMutation_def split: if_splits sum.splits)
  have "pe_id pe \<notin> en_id ` set (ss_entries (im_state s))" using p(2) idx by (auto simp: index_ok_def)
  then show "getEntry (im_state s) (pe_id pe) = None"
    using index_has [OF idx, of "pe_id pe"] by (simp add: getEntry_def)
  show "getEntry (im_state s') = (getEntry (im_state s))(pe_id pe \<mapsto> e)"
    by (rule ext) (simp add: getEntry_def s' apply_entry_def e)
  show "entry_payload e = pe" by (simp add: e entry_payload_def)
  show "map_of (ss_lanes (im_state s)) lane = Some (en_parentId e)" by (simp add: e p(1))
  show "map_of (ss_lanes (im_state s')) = (map_of (ss_lanes (im_state s)))(lane \<mapsto> Some (pe_id pe))"
    by (simp add: s' apply_entry_def e)
qed

lemma im_appendRecord_effect:
  assumes "storage_ok s" and "im_appendRecord s now nr = Inr (r, s')"
  shows "getEntry (im_state s') = getEntry (im_state s)" and "ss_lanes (im_state s') = ss_lanes (im_state s)"
proof -
  obtain r' where "im_apply s (MutRecord r') = Inr s'"
    using assms(2) by (auto simp: im_appendRecord_def Let_def)
  from im_apply_state [OF this] have s': "im_state s' = apply_record (im_state s) r'"
    by (auto simp: applyMutation_def split: if_splits)
  show "getEntry (im_state s') = getEntry (im_state s)"
    by (rule ext) (simp add: getEntry_def s' apply_record_def)
  show "ss_lanes (im_state s') = ss_lanes (im_state s)" by (simp add: s' apply_record_def)
qed

lemma im_branch:
  assumes "storage_ok s" and "getEntry (im_state s) i = Some e"
  shows "\<exists>path. findEntriesOnBranch (im_state s) oldest_first no_bounds i = Inr path \<and> chain None path
      \<and> path \<noteq> [] \<and> last path = e \<and> (\<forall>x \<in> set path. getEntry (im_state s) (en_id x) = Some x)"
proof -
  have st: "state_ok (im_state s)" and idx: "index_ok (im_state s)"
    using assms(1) by (auto simp: storage_ok_def state_ok_def)
  obtain path where "findEntriesOnBranch (im_state s) oldest_first no_bounds i = Inr path"
    "root_path (im_state s) path e"
    using findEntriesOnBranch_whole [OF st, of i e] assms(2) by (auto simp: getEntry_def)
  then show ?thesis using index_get [OF idx] by (auto simp: root_path_def getEntry_def)
qed

interpretation memory: session_storage memory_storage storage_ok
proof unfold_locales
  fix s now pe lane e s'
  assume "storage_ok s" "so_appendEntry memory_storage s now pe lane = Inr (e, s')"
  then show "storage_ok s' \<and> so_getEntry memory_storage s (pe_id pe) = None
      \<and> so_getEntry memory_storage s' = (so_getEntry memory_storage s)(pe_id pe \<mapsto> e)
      \<and> entry_payload e = pe \<and> map_of (so_getLanes memory_storage s) lane = Some (en_parentId e)
      \<and> map_of (so_getLanes memory_storage s') = (map_of (so_getLanes memory_storage s))(lane \<mapsto> Some (pe_id pe))"
    using im_appendEntry_effect by (simp add: memory_storage_def getLanes_def)
next
  fix s now nr r s'
  assume a: "storage_ok s" "so_appendRecord memory_storage s now nr = Inr (r, s')"
  then have b: "im_appendRecord s now nr = Inr (r, s')" by (simp add: memory_storage_def)
  show "storage_ok s' \<and> so_getEntry memory_storage s' = so_getEntry memory_storage s
      \<and> map_of (so_getLanes memory_storage s') = map_of (so_getLanes memory_storage s)"
    using im_appendRecord_effect [OF a(1) b] im_appendRecord_ok [OF a(1) b]
    by (simp add: memory_storage_def getLanes_def)
next
  fix s i e
  assume "storage_ok s" "so_getEntry memory_storage s i = Some e"
  then show "en_id e = i"
    using index_get [of "im_state s" i e] by (simp add: memory_storage_def getEntry_def storage_ok_def state_ok_def)
next
  fix s lane i
  assume "storage_ok s" "map_of (so_getLanes memory_storage s) lane = Some (Some i)"
  then show "so_getEntry memory_storage s i \<noteq> None"
    using targets_in_get [of "en_id ` set (ss_entries (im_state s))" "ss_lanes (im_state s)" lane i]
      index_has [of "im_state s" i]
    by (simp add: memory_storage_def getEntry_def getLanes_def storage_ok_def state_ok_def refs_ok_def)
next
  fix s i e
  assume "storage_ok s" "so_getEntry memory_storage s i = Some e"
  then show "\<exists>path. so_findEntriesOnBranch memory_storage s oldest_first no_bounds i = Inr path \<and> chain None path
        \<and> path \<noteq> [] \<and> last path = e \<and> (\<forall>x \<in> set path. so_getEntry memory_storage s (en_id x) = Some x)"
    using im_branch by (simp add: memory_storage_def)
qed

section \<open>Properties\<close>

definition ex_metadata :: SessionMetadata where
  "ex_metadata = \<lparr>md_id = js_lit ''s'', md_createdAt = 0, md_parentSessionId = None\<rparr>"

definition ex_provisioned :: "string \<Rightarrow> ProvisionedEntry" where
  "ex_provisioned i = \<lparr>pe_id = js_lit i, pe_body = MessageEntry (ex_user i) False\<rparr>"

definition ex_new_start :: NewRecord where
  "ex_new_start = \<lparr>nr_id = js_lit ''op'', nr_lane = main_lane, nr_body = lr_body ex_start\<rparr>"

lemmas im_eval = im_appendEntry_def im_appendRecord_def im_apply_def applyMutation_def requireLane_def
  validateUnusedId_def nextSequence_def check_chain_def check_parent_def apply_entry_def apply_record_def
  open_operations_after_def findOpenOperations_def set_add_def new_InMemorySessionStorage_def new_SessionState_def

lemma ex_append_a:
  "\<exists>s1. im_appendEntry (new_InMemorySessionStorage ex_metadata) 5 (ex_provisioned ''a'') main_lane
      = Inr (ex_entry ''a'' 1 None, s1)
     \<and> map_of (ss_lanes (im_state s1)) main_lane = Some (Some (js_lit ''a''))
     \<and> (\<exists>s2. im_appendEntry s1 6 (ex_provisioned ''b'') main_lane
           = Inr ((ex_entry ''b'' 2 (Some (js_lit ''a'')))\<lparr>en_timestamp := 6\<rparr>, s2))
     \<and> findEntriesOnBranch (im_state s1) oldest_first no_bounds (js_lit ''a'') = Inr [ex_entry ''a'' 1 None]"
  by (simp add: im_eval ex_provisioned_def ex_entry_def Let_def findEntriesOnBranch_def oldest_first_def
      walkToRoot_def walk_from.simps walk_stops_def no_bounds_def matchesEntryQuery_def)

text \<open>
  C8. Single writer: on every in-memory storage that clients can produce, by any sequence of
  operations and forks, no lane ever has more than one open operation.
\<close>
theorem at_most_one_open_operation:
  assumes "mem_reachable s" and "findOpenOperations (im_state s) lane None = Inr ops"
  shows "length ops \<le> 1"
proof -
  have ok: "storage_ok s" using mem_reachable_ok [OF assms(1)] .
  then have "ops_of (im_state s) lane = map (\<lambda>r. (lr_id r, r)) (open_spec lane (ss_records (im_state s)))"
    by (simp add: storage_ok_def state_ok_def ops_ok_def)
  then have "ops = rev (open_spec lane (ss_records (im_state s)))"
    using assms(2) by (auto simp: findOpenOperations_def ops_of_def Let_def comp_def split: option.splits)
  with ok show ?thesis by (simp add: storage_ok_def single_writer_def)
qed

theorem at_most_one_open_operation_witness:
  "\<exists>r s ops. im_appendRecord (new_InMemorySessionStorage ex_metadata) 7 ex_new_start = Inr (r, s)
     \<and> findOpenOperations (im_state s) main_lane None = Inr ops \<and> ops \<noteq> [] \<and> length ops \<le> 1"
proof -
  obtain r s ops where a: "im_appendRecord (new_InMemorySessionStorage ex_metadata) 7 ex_new_start = Inr (r, s)"
    "findOpenOperations (im_state s) main_lane None = Inr ops" "ops \<noteq> []"
    by (simp add: im_eval ex_new_start_def ex_start_def Let_def)
  have "mem_reachable s"
    by (rule mem_reachable.stepped [OF mem_reachable.created mem_step.appendRecord [OF a(1)]])
  from at_most_one_open_operation [OF this a(2)] a show ?thesis by blast
qed

text \<open>
  Appending to a lane extends the branch of that lane by exactly the new entry, which carries the
  given id and payload, and leaves the branch of every other entry as it was.
\<close>
theorem append_extends_only_its_branch:
  assumes "mem_reachable s" and "im_appendEntry s now pe lane = Inr (e, s')"
    and "map_of (getLanes (im_state s)) lane = Some (Some leaf)"
    and "findEntriesOnBranch (im_state s) oldest_first no_bounds leaf = Inr path"
  shows "findEntriesOnBranch (im_state s') oldest_first no_bounds (pe_id pe) = Inr (path @ [e])
    \<and> entry_payload e = pe
    \<and> (\<forall>i. getEntry (im_state s) i \<noteq> None \<longrightarrow>
        findEntriesOnBranch (im_state s') oldest_first no_bounds i
          = findEntriesOnBranch (im_state s) oldest_first no_bounds i)"
proof (intro conjI allI impI)
  have ok: "storage_ok s" using mem_reachable_ok [OF assms(1)] .
  have m: "so_appendEntry memory_storage s now pe lane = Inr (e, s')"
    "map_of (so_getLanes memory_storage s) lane = Some (Some leaf)"
    "so_findEntriesOnBranch memory_storage s oldest_first no_bounds leaf = Inr path"
    using assms(2-4) by (simp_all add: memory_storage_def)
  show "findEntriesOnBranch (im_state s') oldest_first no_bounds (pe_id pe) = Inr (path @ [e])"
    using memory.append_extends_branch [OF ok m] by (simp add: memory_storage_def)
  show "entry_payload e = pe" using memory.append_entry [OF ok m(1)] by blast
  fix i assume "getEntry (im_state s) i \<noteq> None"
  then obtain x where x: "getEntry (im_state s) i = Some x" by blast
  obtain p where p: "findEntriesOnBranch (im_state s) oldest_first no_bounds i = Inr p"
    using im_branch [OF ok x] by blast
  with memory.append_keeps_branches [OF ok m(1), of i p x] x
  show "findEntriesOnBranch (im_state s') oldest_first no_bounds i = findEntriesOnBranch (im_state s) oldest_first no_bounds i"
    by (simp add: memory_storage_def)
qed

theorem append_extends_only_its_branch_witness:
  "\<exists>s1 s2 b. im_appendEntry (new_InMemorySessionStorage ex_metadata) 5 (ex_provisioned ''a'') main_lane
      = Inr (ex_entry ''a'' 1 None, s1)
     \<and> im_appendEntry s1 6 (ex_provisioned ''b'') main_lane = Inr (b, s2)
     \<and> findEntriesOnBranch (im_state s2) oldest_first no_bounds (js_lit ''b'') = Inr [ex_entry ''a'' 1 None, b]"
proof -
  obtain s1 b s2 where a: "im_appendEntry (new_InMemorySessionStorage ex_metadata) 5 (ex_provisioned ''a'') main_lane
      = Inr (ex_entry ''a'' 1 None, s1)" "map_of (getLanes (im_state s1)) main_lane = Some (Some (js_lit ''a''))"
    "im_appendEntry s1 6 (ex_provisioned ''b'') main_lane = Inr (b, s2)"
    "findEntriesOnBranch (im_state s1) oldest_first no_bounds (js_lit ''a'') = Inr [ex_entry ''a'' 1 None]"
    using ex_append_a unfolding getLanes_def by blast
  have "mem_reachable s1"
    by (rule mem_reachable.stepped [OF mem_reachable.created mem_step.appendEntry [OF a(1)]])
  from append_extends_only_its_branch [OF this a(3,2,4)] a(1,3) show ?thesis
    by (auto simp: ex_provisioned_def)
qed

end
