(* ===== verification/Session.thy ===== *)
theory Session
  imports Session_Memory Session_Json
begin

text \<open>
  \<^verbatim>\<open>pi/packages/agent/src/harness/session/session.ts\<close>: the session over any storage. Every operation takes
  the storage's operations \<open>S\<close> and its current state; \<open>Date.now()\<close> and the ids of the id generator are
  arguments. Payloads are checked before they reach the storage.
\<close>

section \<open>Durable payloads\<close>

definition MAX_JSON_DEPTH :: nat where "MAX_JSON_DEPTH = 512"

definition invalidPayload :: "ustring \<Rightarrow> SessionError" where
  "invalidPayload reason = SessionError InvalidPayload (js_lit ''Durable payload '' @ reason)"

fun assertJsonSerializableDepth :: "js \<Rightarrow> nat \<Rightarrow> SessionError + unit"
  and assert_items :: "js list \<Rightarrow> nat \<Rightarrow> SessionError + unit"
  and assert_entries :: "(ustring \<times> js) list \<Rightarrow> nat \<Rightarrow> SessionError + unit" where
  "assertJsonSerializableDepth v depth =
     (if depth > MAX_JSON_DEPTH then Inl (invalidPayload (js_lit ''exceeds maximum depth''))
      else case v of
          JNull \<Rightarrow> Inr ()
        | JStr _ \<Rightarrow> Inr ()
        | JBool _ \<Rightarrow> Inr ()
        | JNum n \<Rightarrow> throw_if (\<not> is_finite n) (invalidPayload (js_lit ''contains a non-finite number''))
        | JUndef \<Rightarrow> Inl (invalidPayload (js_lit ''contains undefined''))
        | JOther t \<Rightarrow> Inl (invalidPayload (js_lit ''contains '' @ t))
        | JArr items \<Rightarrow> assert_items items (depth + 1)
        | JObj _ _ kvs \<Rightarrow> assert_entries kvs (depth + 1)
        | JBytes bytes \<Rightarrow> throw_if (bytes \<noteq> [] \<and> depth + 1 > MAX_JSON_DEPTH)
            (invalidPayload (js_lit ''exceeds maximum depth'')))"
| "assert_items [] depth = Inr ()"
| "assert_items (v # vs) depth = rbind (assertJsonSerializableDepth v depth) (\<lambda>_. assert_items vs depth)"
| "assert_entries [] depth = Inr ()"
| "assert_entries ((k, v) # kvs) depth = rbind (assertJsonSerializableDepth v depth) (\<lambda>_. assert_entries kvs depth)"

declare assertJsonSerializableDepth.simps [simp del]

definition assertJsonSerializable :: "js \<Rightarrow> SessionError + unit" where
  "assertJsonSerializable v = assertJsonSerializableDepth v 0"

section \<open>Operations\<close>

definition getLeafIdForLane :: "'s SessionStorage \<Rightarrow> 's \<Rightarrow> ustring \<Rightarrow> SessionError + ustring option" where
  "getLeafIdForLane S s lane =
     (case map_of (so_getLanes S s) lane of
        None \<Rightarrow> Inl (SessionError InvalidLane (js_lit ''Lane not found: '' @ lane))
      | Some leafId \<Rightarrow> Inr leafId)"

text \<open>\<open>resultLimit\<close> is the third parameter after its default \<open>query.limit\<close>.\<close>

definition queryEntries :: "'s SessionStorage \<Rightarrow> 's \<Rightarrow> EntryQuery \<Rightarrow> jsnum option \<Rightarrow> SessionError + Entry list" where
  "queryEntries S s q resultLimit =
     rbind (assertValidLimit (q_limit q)) (\<lambda>_.
     rbind (assertValidCursor (q_cursor q)) (\<lambda>_.
     so_findEntries S s (q\<lparr>q_limit := resultLimit\<rparr>)))"

definition queryBranchEntries :: "'s SessionStorage \<Rightarrow> 's \<Rightarrow> ustring \<Rightarrow> EntryQuery \<Rightarrow> BranchBounds \<Rightarrow> jsnum option
    \<Rightarrow> SessionError + Entry list" where
  "queryBranchEntries S s defaultLane q b resultLimit =
     rbind (assertValidLimit (q_limit q)) (\<lambda>_.
     rbind (assertValidCursor (q_cursor q)) (\<lambda>_.
     rbind (case bb_start b of Some i \<Rightarrow> Inr (Some i) | None \<Rightarrow> getLeafIdForLane S s defaultLane) (\<lambda>start.
     case start of
       None \<Rightarrow> Inr []
     | Some i \<Rightarrow> so_findEntriesOnBranch S s (q\<lparr>q_limit := resultLimit\<rparr>) b i)))"

definition first_of :: "SessionError + Entry list \<Rightarrow> SessionError + Entry option" where
  "first_of r = rbind r (\<lambda>es. Inr (case es of [] \<Rightarrow> None | e # _ \<Rightarrow> Some e))"

definition queryRecords :: "'s SessionStorage \<Rightarrow> 's \<Rightarrow> RecordQuery \<Rightarrow> SessionError + LaneRecord list" where
  "queryRecords S s q =
     rbind (assertValidLimit (rq_limit q)) (\<lambda>_.
     rbind (assertValidCursor (rq_afterSeq q)) (\<lambda>_.
     rbind (throw_if (rq_operationKind q \<noteq> None \<and> rq_type q \<noteq> Some ROperationStarted)
        (SessionError InvalidQuery (js_lit ''operationKind requires type \"operation_started\"''))) (\<lambda>_.
     so_findRecords S s q)))"

definition queryLog :: "'s SessionStorage \<Rightarrow> 's \<Rightarrow> LogOptions \<Rightarrow> SessionError + LogItem list" where
  "queryLog S s options =
     rbind (assertValidLimit (lo_limit options)) (\<lambda>_.
     rbind (assertValidCursor (lo_afterSeq options)) (\<lambda>_.
     so_getLog S s options))"

definition session_findOpenOperations ::
  "'s SessionStorage \<Rightarrow> 's \<Rightarrow> ustring \<Rightarrow> jsnum option \<Rightarrow> SessionError + LaneRecord list" where
  "session_findOpenOperations S s lane limit =
     rbind (assertValidLimit limit) (\<lambda>_. so_findOpenOperations S s lane limit)"

definition commitEntry :: "'s SessionStorage \<Rightarrow> 's \<Rightarrow> int \<Rightarrow> ProvisionedEntry \<Rightarrow> ustring \<Rightarrow> SessionError + (Entry \<times> 's)" where
  "commitEntry S s now entry lane =
     rbind (assertJsonSerializable (provisioned_js entry)) (\<lambda>_. so_appendEntry S s now entry lane)"

definition commitRecord :: "'s SessionStorage \<Rightarrow> 's \<Rightarrow> int \<Rightarrow> NewRecord \<Rightarrow> SessionError + (LaneRecord \<times> 's)" where
  "commitRecord S s now record =
     rbind (assertJsonSerializable (new_record_js record)) (\<lambda>_. so_appendRecord S s now record)"

definition session_createLane :: "'s SessionStorage \<Rightarrow> 's \<Rightarrow> ustring \<Rightarrow> ustring option \<Rightarrow> SessionError + 's" where
  "session_createLane S s lane at = so_createLane S s lane at"

definition session_moveLane :: "'s SessionStorage \<Rightarrow> 's \<Rightarrow> ustring \<Rightarrow> ustring option \<Rightarrow> SessionError + 's" where
  "session_moveLane S s lane to = so_moveLane S s lane to"

definition appendMessageToLane ::
  "'s SessionStorage \<Rightarrow> 's \<Rightarrow> int \<Rightarrow> ustring \<Rightarrow> ustring \<Rightarrow> AgentMessage \<Rightarrow> SessionError + (ustring \<times> 's)" where
  "appendMessageToLane S s now newId lane message =
     rbind (commitEntry S s now \<lparr>pe_id = newId, pe_body = MessageEntry message False\<rparr> lane) (\<lambda>(entry, s').
     Inr (en_id entry, s'))"

definition appendCustomEntryToLane ::
  "'s SessionStorage \<Rightarrow> 's \<Rightarrow> int \<Rightarrow> ustring \<Rightarrow> ustring \<Rightarrow> ustring \<Rightarrow> js option \<Rightarrow> SessionError + (ustring \<times> 's)" where
  "appendCustomEntryToLane S s now newId lane customType data =
     rbind (commitEntry S s now \<lparr>pe_id = newId, pe_body = CustomEntry customType data\<rparr> lane) (\<lambda>(entry, s').
     Inr (en_id entry, s'))"

text \<open>The lane view, \<open>SessionTree\<close>; the session itself is the view of the main lane.\<close>

record 's SessionTree =
  tree_getLeafId :: "'s \<Rightarrow> SessionError + ustring option"
  tree_getEntry :: "'s \<Rightarrow> ustring \<Rightarrow> Entry option"
  tree_getStats :: "'s \<Rightarrow> SessionStats"
  tree_getName :: "'s \<Rightarrow> ustring option"
  tree_setName :: "'s \<Rightarrow> ustring option \<Rightarrow> SessionError + 's"
  tree_getLabel :: "'s \<Rightarrow> ustring \<Rightarrow> ustring option"
  tree_setLabel :: "'s \<Rightarrow> ustring \<Rightarrow> ustring option \<Rightarrow> SessionError + 's"
  tree_findEntries :: "'s \<Rightarrow> EntryQuery \<Rightarrow> SessionError + Entry list"
  tree_findEntry :: "'s \<Rightarrow> EntryQuery \<Rightarrow> SessionError + Entry option"
  tree_findEntriesOnBranch :: "'s \<Rightarrow> EntryQuery \<Rightarrow> BranchBounds \<Rightarrow> SessionError + Entry list"
  tree_findEntryOnBranch :: "'s \<Rightarrow> EntryQuery \<Rightarrow> BranchBounds \<Rightarrow> SessionError + Entry option"
  tree_appendMessage :: "'s \<Rightarrow> int \<Rightarrow> ustring \<Rightarrow> AgentMessage \<Rightarrow> SessionError + (ustring \<times> 's)"
  tree_appendCustomEntry :: "'s \<Rightarrow> int \<Rightarrow> ustring \<Rightarrow> ustring \<Rightarrow> js option \<Rightarrow> SessionError + (ustring \<times> 's)"

definition view :: "'s SessionStorage \<Rightarrow> ustring \<Rightarrow> 's SessionTree" where
  "view S lane = \<lparr>
     tree_getLeafId = (\<lambda>s. getLeafIdForLane S s lane),
     tree_getEntry = so_getEntry S,
     tree_getStats = so_getStats S,
     tree_getName = so_getName S,
     tree_setName = so_setName S,
     tree_getLabel = so_getLabel S,
     tree_setLabel = so_setLabel S,
     tree_findEntries = (\<lambda>s q. queryEntries S s q (q_limit q)),
     tree_findEntry = (\<lambda>s q. first_of (queryEntries S s q (Some (NInt 1)))),
     tree_findEntriesOnBranch = (\<lambda>s q b. queryBranchEntries S s lane q b (q_limit q)),
     tree_findEntryOnBranch = (\<lambda>s q b. first_of (queryBranchEntries S s lane q b (Some (NInt 1)))),
     tree_appendMessage = (\<lambda>s now i m. appendMessageToLane S s now i lane m),
     tree_appendCustomEntry = (\<lambda>s now i t d. appendCustomEntryToLane S s now i lane t d)\<rparr>"

definition session_tree :: "'s SessionStorage \<Rightarrow> 's SessionTree" where
  "session_tree S = view S main_lane"

section \<open>What a payload may be\<close>

text \<open>Nesting depth, and freedom from what JSON cannot say.\<close>

fun js_depth :: "js \<Rightarrow> nat"
  and items_depth :: "js list \<Rightarrow> nat"
  and entries_depth :: "(ustring \<times> js) list \<Rightarrow> nat" where
  "js_depth (JArr xs) = items_depth xs"
| "js_depth (JObj p s kvs) = entries_depth kvs"
| "js_depth (JBytes bs) = (if bs = [] then 0 else 1)"
| "js_depth _ = 0"
| "items_depth [] = 0"
| "items_depth (x # xs) = max (js_depth x + 1) (items_depth xs)"
| "entries_depth [] = 0"
| "entries_depth ((k, v) # kvs) = max (js_depth v + 1) (entries_depth kvs)"

fun json_clean :: "js \<Rightarrow> bool"
  and items_clean :: "js list \<Rightarrow> bool"
  and entries_clean :: "(ustring \<times> js) list \<Rightarrow> bool" where
  "json_clean JUndef = False"
| "json_clean (JOther t) = False"
| "json_clean (JNum n) = is_finite n"
| "json_clean (JArr xs) = items_clean xs"
| "json_clean (JObj p s kvs) = entries_clean kvs"
| "json_clean _ = True"
| "items_clean [] = True"
| "items_clean (x # xs) = (json_clean x \<and> items_clean xs)"
| "entries_clean [] = True"
| "entries_clean ((k, v) # kvs) = (json_clean v \<and> entries_clean kvs)"

lemma assertJson_iff:
  shows "assertJsonSerializableDepth v d = Inr () \<longleftrightarrow> json_clean v \<and> d + js_depth v \<le> MAX_JSON_DEPTH"
    and "assert_items xs d = Inr () \<longleftrightarrow> items_clean xs \<and> (xs \<noteq> [] \<longrightarrow> d + items_depth xs \<le> MAX_JSON_DEPTH + 1)"
    and "assert_entries kvs d = Inr () \<longleftrightarrow>
      entries_clean kvs \<and> (kvs \<noteq> [] \<longrightarrow> d + entries_depth kvs \<le> MAX_JSON_DEPTH + 1)"
proof (induction v d and xs d and kvs d rule: assertJsonSerializableDepth_assert_items_assert_entries.induct)
  case (1 v depth)
  show ?case
  proof (cases v)
    case (JArr xs)
    with 1 show ?thesis by (cases xs) (auto simp: assertJsonSerializableDepth.simps)
  next
    case (JObj p s kvs)
    with 1 show ?thesis by (cases kvs) (auto simp: assertJsonSerializableDepth.simps)
  qed (auto simp: assertJsonSerializableDepth.simps throw_if_def)
next
  case (3 v vs depth)
  then show ?case by (cases vs) (auto simp: rbind_Inr_iff)
next
  case (5 k v kvs depth)
  then show ?case by (cases kvs) (auto simp: rbind_Inr_iff)
qed auto

lemma assertJson_code:
  shows "assertJsonSerializableDepth v d = Inl e \<Longrightarrow> \<exists>m. e = SessionError InvalidPayload m"
    and "assert_items xs d = Inl e \<Longrightarrow> \<exists>m. e = SessionError InvalidPayload m"
    and "assert_entries kvs d = Inl e \<Longrightarrow> \<exists>m. e = SessionError InvalidPayload m"
  by (induction v d and xs d and kvs d rule: assertJsonSerializableDepth_assert_items_assert_entries.induct)
    (auto simp: assertJsonSerializableDepth.simps invalidPayload_def throw_if_def rbind_Inl_iff
      split: js.splits if_splits)

section \<open>Sessions over a storage that meets its contract\<close>

context session_storage
begin

lemma commitEntry_appends:
  "commitEntry S s now pe lane = Inr (e, s') \<Longrightarrow> so_appendEntry S s now pe lane = Inr (e, s')"
  by (auto simp: commitEntry_def)

lemma append_message_moves_leaf:
  assumes "ok s" and "appendMessageToLane S s now i lane m = Inr (j, s')"
  shows "j = i" and "getLeafIdForLane S s' lane = Inr (Some i)"
    and "\<And>other. other \<noteq> lane \<Longrightarrow> getLeafIdForLane S s' other = getLeafIdForLane S s other"
    and "\<exists>e. so_getEntry S s' i = Some e \<and> en_body e = MessageEntry m False"
proof -
  obtain e where e: "so_appendEntry S s now \<lparr>pe_id = i, pe_body = MessageEntry m False\<rparr> lane = Inr (e, s')"
    and j: "j = en_id e"
    using assms(2) by (auto simp: appendMessageToLane_def dest: commitEntry_appends)
  note ap = append_entry [OF assms(1) e]
  show "j = i" using ap j by (auto simp: entry_payload_def)
  show "getLeafIdForLane S s' lane = Inr (Some i)" using ap by (simp add: getLeafIdForLane_def)
  show "getLeafIdForLane S s' other = getLeafIdForLane S s other" if "other \<noteq> lane" for other
    using ap that by (simp add: getLeafIdForLane_def)
  show "\<exists>e. so_getEntry S s' i = Some e \<and> en_body e = MessageEntry m False"
    using ap by (auto simp: entry_payload_def)
qed

lemma branch_query_start:
  assumes "getLeafIdForLane S s lane = Inr (Some i)"
  shows "queryBranchEntries S s lane oldest_first no_bounds None
      = so_findEntriesOnBranch S s oldest_first no_bounds i"
  using assms by (simp add: queryBranchEntries_def oldest_first_valid) (simp add: no_bounds_def oldest_first_def)

lemma append_message_extends_branch:
  assumes "ok s" and "appendMessageToLane S s now i lane m = Inr (j, s')"
    and "queryBranchEntries S s lane oldest_first no_bounds None = Inr path"
  shows "\<exists>e. queryBranchEntries S s' lane oldest_first no_bounds None = Inr (path @ [e])
     \<and> en_id e = i \<and> en_body e = MessageEntry m False"
proof -
  let ?pe = "\<lparr>pe_id = i, pe_body = MessageEntry m False\<rparr>"
  obtain e where e: "so_appendEntry S s now ?pe lane = Inr (e, s')"
    using assms(2) by (auto simp: appendMessageToLane_def dest: commitEntry_appends)
  note ap = append_entry [OF assms(1) e]
  have leaf': "getLeafIdForLane S s' lane = Inr (Some i)" using append_message_moves_leaf(2) [OF assms(1,2)] .
  have pl: "en_id e = i" "en_body e = MessageEntry m False" using ap by (auto simp: entry_payload_def)
  show ?thesis
  proof (cases "en_parentId e")
    case (Some p)
    then have leaf: "map_of (so_getLanes S s) lane = Some (Some p)" using ap by simp
    then have "so_findEntriesOnBranch S s oldest_first no_bounds p = Inr path"
      using assms(3) branch_query_start [of s lane p] by (simp add: getLeafIdForLane_def)
    from append_extends_branch [OF assms(1) e leaf this] branch_query_start [OF leaf'] pl show ?thesis by auto
  next
    case None
    then have "getLeafIdForLane S s lane = Inr None" using ap by (simp add: getLeafIdForLane_def)
    then have path: "path = []"
      using assms(3) by (simp add: queryBranchEntries_def oldest_first_valid) (simp add: no_bounds_def)
    obtain q where q: "so_findEntriesOnBranch S s' oldest_first no_bounds i = Inr q" "chain None q" "q \<noteq> []"
      "last q = e" "\<forall>x \<in> set q. so_getEntry S s' (en_id x) = Some x"
      using branch [of s' i e] ap by (auto simp: entry_payload_def)
    have "q = [e]"
      using path_unique [of q e "so_getEntry S s'" "[e]"] q None ap pl by auto
    with q(1) branch_query_start [OF leaf'] path pl show ?thesis by auto
  qed
qed

end

section \<open>Properties\<close>

text \<open>
  A message appended through a lane view is, when the append succeeds, the last entry of the
  lane's branch, under the generated id, with the rest of the branch as it was, and the leaves of all
  other lanes are unchanged.
\<close>
theorem append_message_read_back:
  assumes "mem_reachable s" and "tree_appendMessage (view memory_storage lane) s now i m = Inr (j, s')"
    and "tree_findEntriesOnBranch (view memory_storage lane) s oldest_first no_bounds = Inr path"
  shows "j = i \<and> tree_getLeafId (view memory_storage lane) s' = Inr (Some i)
    \<and> (\<exists>e. tree_findEntriesOnBranch (view memory_storage lane) s' oldest_first no_bounds = Inr (path @ [e])
         \<and> en_id e = i \<and> en_body e = MessageEntry m False)
    \<and> (\<forall>other. other \<noteq> lane \<longrightarrow>
         tree_getLeafId (view memory_storage other) s' = tree_getLeafId (view memory_storage other) s)"
proof -
  have lim: "q_limit oldest_first = None" by (simp add: oldest_first_def)
  have a: "appendMessageToLane memory_storage s now i lane m = Inr (j, s')"
    and q: "queryBranchEntries memory_storage s lane oldest_first no_bounds None = Inr path"
    using assms(2,3) lim by (simp_all add: view_def)
  note ok = mem_reachable_ok [OF assms(1)]
  show ?thesis
    using memory.append_message_moves_leaf [OF ok a] memory.append_message_extends_branch [OF ok a q] lim
    by (simp add: view_def)
qed

theorem append_message_read_back_witness:
  "\<exists>s' e. tree_appendMessage (view memory_storage main_lane) (new_InMemorySessionStorage ex_metadata) 5
       (js_lit ''a'') (ex_user ''a'') = Inr (js_lit ''a'', s')
     \<and> tree_findEntriesOnBranch (view memory_storage main_lane) s' oldest_first no_bounds = Inr [e]
     \<and> en_body e = MessageEntry (ex_user ''a'') False"
proof -
  let ?s = "new_InMemorySessionStorage ex_metadata"
  have "assertJsonSerializable (provisioned_js \<lparr>pe_id = js_lit ''a'', pe_body = MessageEntry (ex_user ''a'') False\<rparr>) = Inr ()"
    by (simp add: assertJsonSerializable_def assertJson_iff provisioned_js_def obj_def fld_def lit_def ex_user_def
        int_js_def MAX_JSON_DEPTH_def)
  then obtain j s' where a: "tree_appendMessage (view memory_storage main_lane) ?s 5 (js_lit ''a'') (ex_user ''a'') = Inr (j, s')"
    using ex_append_a
    by (auto simp: view_def appendMessageToLane_def commitEntry_def memory_storage_def ex_provisioned_def
        simp del: js_lit_simps)
  have "tree_findEntriesOnBranch (view memory_storage main_lane) ?s oldest_first no_bounds = Inr []"
    by (simp add: view_def queryBranchEntries_def oldest_first_valid no_bounds_def getLeafIdForLane_def
        memory_storage_def getLanes_def new_InMemorySessionStorage_def new_SessionState_def)
  from append_message_read_back [OF mem_reachable.created a this] a show ?thesis by auto
qed

text \<open>
  C15. A session hands an entry to its storage exactly when the entry is durable JSON: no undefined
  value, function, symbol or bigint, no non-finite number, and no nesting beyond 512. Everything else is rejected
  as an invalid payload before the storage is called.
\<close>
theorem commitEntry_guards_payload:
  "if json_clean (provisioned_js pe) \<and> js_depth (provisioned_js pe) \<le> 512
   then commitEntry S s now pe lane = so_appendEntry S s now pe lane
   else \<exists>m. commitEntry S s now pe lane = Inl (SessionError InvalidPayload m)"
proof (cases "assertJsonSerializable (provisioned_js pe)")
  case (Inl e)
  then have "\<not> (json_clean (provisioned_js pe) \<and> js_depth (provisioned_js pe) \<le> 512)"
    using assertJson_iff(1) [of "provisioned_js pe" 0] by (simp add: assertJsonSerializable_def MAX_JSON_DEPTH_def)
  moreover obtain m where "e = SessionError InvalidPayload m"
    using assertJson_code(1) [of "provisioned_js pe" 0 e] Inl by (auto simp: assertJsonSerializable_def)
  ultimately show ?thesis using Inl by (auto simp: commitEntry_def)
next
  case (Inr u)
  then show ?thesis
    using assertJson_iff(1) [of "provisioned_js pe" 0]
    by (simp add: assertJsonSerializable_def commitEntry_def MAX_JSON_DEPTH_def)
qed

end
