(* ===== verification/Deep_Equal.thy ===== *)
theory Deep_Equal
  imports Session_Json Session
begin

text \<open>
  The deep comparison of \<^verbatim>\<open>pi/packages/ai/src/schema.ts\<close>. Values are trees, so two objects are compared by
  structure also where they would be the same reference. A byte array is an object with one property
  per index. A key that only the left object has is unequal: inherited properties are functions and equal
  no data.
\<close>

definition bytes_props :: "byte list \<Rightarrow> (ustring \<times> js) list" where
  "bytes_props bs = map (\<lambda>(i, b). (nat_text i, JNum (NInt (uint b)))) (enumerate 0 bs)"

fun as_plain :: "js \<Rightarrow> js"
  and as_plain_items :: "js list \<Rightarrow> js list"
  and as_plain_entries :: "(ustring \<times> js) list \<Rightarrow> (ustring \<times> js) list" where
  "as_plain (JBytes bs) = JObj OtherProto False (bytes_props bs)"
| "as_plain (JArr xs) = JArr (as_plain_items xs)"
| "as_plain (JObj p s kvs) = JObj p s (as_plain_entries kvs)"
| "as_plain v = v"
| "as_plain_items [] = []"
| "as_plain_items (x # xs) = as_plain x # as_plain_items xs"
| "as_plain_entries [] = []"
| "as_plain_entries ((k, v) # kvs) = (k, as_plain v) # as_plain_entries kvs"

text \<open>\<open>===\<close> on numbers: zeros are equal, NaN is not.\<close>

fun num_eq :: "jsnum \<Rightarrow> jsnum \<Rightarrow> bool" where
  "num_eq NNaN _ = False"
| "num_eq _ NNaN = False"
| "num_eq NNegZero y = (y = NNegZero \<or> y = NInt 0)"
| "num_eq x NNegZero = (x = NInt 0)"
| "num_eq x y = (x = y)"

fun deep_eq :: "js \<Rightarrow> js \<Rightarrow> bool"
  and deep_eq_items :: "js list \<Rightarrow> js list \<Rightarrow> bool"
  and deep_eq_entries :: "(ustring \<times> js) list \<Rightarrow> (ustring \<times> js) list \<Rightarrow> bool" where
  "deep_eq (JArr xs) r = (case r of JArr ys \<Rightarrow> length xs = length ys \<and> deep_eq_items xs ys | _ \<Rightarrow> False)"
| "deep_eq (JObj p s kvs) r =
     (case r of JObj p' s' kvs' \<Rightarrow> length kvs = length kvs' \<and> deep_eq_entries kvs kvs' | _ \<Rightarrow> False)"
| "deep_eq (JNum n) r = (case r of JNum k \<Rightarrow> num_eq n k | _ \<Rightarrow> False)"
| "deep_eq (JOther t) r = False"
| "deep_eq l r = (l = r)"
| "deep_eq_items [] ys = True"
| "deep_eq_items (x # xs) ys = (case ys of [] \<Rightarrow> True | y # ys' \<Rightarrow> deep_eq x y \<and> deep_eq_items xs ys')"
| "deep_eq_entries [] kvs' = True"
| "deep_eq_entries ((k, v) # kvs) kvs' =
     ((case map_of kvs' k of None \<Rightarrow> False | Some v' \<Rightarrow> deep_eq v v') \<and> deep_eq_entries kvs kvs')"

definition deepEqual :: "js \<Rightarrow> js \<Rightarrow> bool" where
  "deepEqual left right = deep_eq (as_plain left) (as_plain right)"

section \<open>Reflexivity\<close>

fun keys_distinct :: "js \<Rightarrow> bool"
  and keys_distinct_items :: "js list \<Rightarrow> bool"
  and keys_distinct_entries :: "(ustring \<times> js) list \<Rightarrow> bool" where
  "keys_distinct (JArr xs) = keys_distinct_items xs"
| "keys_distinct (JObj p s kvs) = (distinct (map fst kvs) \<and> keys_distinct_entries kvs)"
| "keys_distinct _ = True"
| "keys_distinct_items [] = True"
| "keys_distinct_items (x # xs) = (keys_distinct x \<and> keys_distinct_items xs)"
| "keys_distinct_entries [] = True"
| "keys_distinct_entries ((k, v) # kvs) = (keys_distinct v \<and> keys_distinct_entries kvs)"

lemma deep_eq_entries_all:
  "deep_eq_entries kvs kvs' \<longleftrightarrow> (\<forall>(k, v) \<in> set kvs. \<exists>v'. map_of kvs' k = Some v' \<and> deep_eq v v')"
  by (induction kvs) (auto split: option.splits)

lemma deep_eq_items_all:
  "length xs = length ys \<Longrightarrow> deep_eq_items xs ys \<longleftrightarrow> list_all2 deep_eq xs ys"
  by (induction xs ys rule: list_induct2) auto

lemma items_all:
  "items_clean xs \<longleftrightarrow> (\<forall>x \<in> set xs. json_clean x)" "keys_distinct_items xs \<longleftrightarrow> (\<forall>x \<in> set xs. keys_distinct x)"
  by (induction xs) auto

lemma entries_all:
  "entries_clean kvs \<longleftrightarrow> (\<forall>(k, v) \<in> set kvs. json_clean v)"
  "keys_distinct_entries kvs \<longleftrightarrow> (\<forall>(k, v) \<in> set kvs. keys_distinct v)"
  by (induction kvs) auto

lemma deep_eq_refl: "json_clean v \<Longrightarrow> keys_distinct v \<Longrightarrow> deep_eq v v"
proof (induction v)
  case (JNum n)
  then show ?case by (cases n) auto
next
  case (JObj p s kvs)
  have "deep_eq v v" if "(k, v) \<in> set kvs" for k v
    using JObj that by (fastforce simp: entries_all)
  moreover have "map_of kvs k = Some v" if "(k, v) \<in> set kvs" for k v
    using JObj.prems(2) that by simp
  ultimately show ?case by (auto simp: deep_eq_entries_all)
qed (auto simp: deep_eq_items_all items_all list_all2_same)

lemma fst_entries [simp]: "map fst (as_plain_entries kvs) = map fst kvs"
  by (induction kvs) auto

lemma bytes_props_distinct: "distinct (map fst (bytes_props bs))"
proof -
  have "map fst (bytes_props bs) = map nat_text [0..<length bs]"
    by (rule nth_equalityI) (simp_all add: bytes_props_def nth_enumerate_eq split_beta)
  then show ?thesis by (simp add: distinct_map inj_on_def nat_text_inj)
qed

lemma bytes_props_data: "entries_clean (bytes_props bs)" "keys_distinct_entries (bytes_props bs)"
  by (auto simp: bytes_props_def entries_all)

lemma as_plain_clean:
  shows "json_clean v \<Longrightarrow> keys_distinct v \<Longrightarrow> json_clean (as_plain v) \<and> keys_distinct (as_plain v)"
    and "items_clean xs \<Longrightarrow> keys_distinct_items xs \<Longrightarrow> items_clean (as_plain_items xs) \<and> keys_distinct_items (as_plain_items xs)"
    and "entries_clean kvs \<Longrightarrow> keys_distinct_entries kvs
      \<Longrightarrow> entries_clean (as_plain_entries kvs) \<and> keys_distinct_entries (as_plain_entries kvs)"
  by (induction v and xs and kvs rule: as_plain_as_plain_items_as_plain_entries.induct)
    (simp_all add: bytes_props_distinct bytes_props_data)

lemma deepEqual_refl: "json_clean v \<Longrightarrow> keys_distinct v \<Longrightarrow> deepEqual v v"
  unfolding deepEqual_def using as_plain_clean(1) deep_eq_refl by blast

end
