(* ===== verification/Utf8.thy ===== *)
theory Utf8
  imports Prelude
begin

text \<open>
  The two text converters the protocol uses: \<open>TextEncoder\<close> (\<open>utf8_encode\<close>, which replaces a lone
  surrogate by U+FFFD) and \<open>TextDecoder("utf-8", {fatal: true, ignoreBOM: true})\<close>
  (\<open>utf8_decode\<close>, \<open>None\<close> where the decoder throws). The encoder's output is always accepted by the
  decoder, and the round trip is the identity exactly on strings without lone surrogates.
\<close>

definition is_high :: "code_unit \<Rightarrow> bool" where
  "is_high c \<longleftrightarrow> 0xD800 \<le> c \<and> c \<le> 0xDBFF"

definition is_low :: "code_unit \<Rightarrow> bool" where
  "is_low c \<longleftrightarrow> 0xDC00 \<le> c \<and> c \<le> 0xDFFF"

definition pair_value :: "code_unit \<Rightarrow> code_unit \<Rightarrow> nat" where
  "pair_value h l = 0x10000 + (unat h - 0xD800) * 0x400 + (unat l - 0xDC00)"

text \<open>The scalar values of a string, lone surrogates replaced.\<close>

fun scalars :: "ustring \<Rightarrow> nat list" where
  "scalars [] = []"
| "scalars [c] = [if is_high c \<or> is_low c then 0xFFFD else unat c]"
| "scalars (c # d # s) =
     (if is_high c \<and> is_low d then pair_value c d # scalars s
      else (if is_high c \<or> is_low c then 0xFFFD else unat c) # scalars (d # s))"

definition encode_scalar :: "nat \<Rightarrow> byte list" where
  "encode_scalar n =
     (if n < 0x80 then [of_nat n]
      else if n < 0x800 then [of_nat (0xC0 + n div 64), of_nat (0x80 + n mod 64)]
      else if n < 0x10000 then
        [of_nat (0xE0 + n div 4096), of_nat (0x80 + n div 64 mod 64), of_nat (0x80 + n mod 64)]
      else
        [of_nat (0xF0 + n div 262144), of_nat (0x80 + n div 4096 mod 64),
         of_nat (0x80 + n div 64 mod 64), of_nat (0x80 + n mod 64)])"

definition utf8_encode :: "ustring \<Rightarrow> byte list" where
  "utf8_encode s = concat (map encode_scalar (scalars s))"

definition is_cont :: "byte \<Rightarrow> bool" where
  "is_cont b \<longleftrightarrow> 0x80 \<le> unat b \<and> unat b < 0xC0"

text \<open>One scalar value from the front of the input: overlong forms, surrogates and values past
  U+10FFFF are refused.\<close>

fun decode_scalar :: "byte list \<Rightarrow> (nat \<times> byte list) option" where
  "decode_scalar [] = None"
| "decode_scalar (a # bs) =
     (let x = unat a in
      if x < 0x80 then Some (x, bs)
      else if x < 0xC2 then None
      else if x < 0xE0 then
        (case bs of b # bs' \<Rightarrow>
           if is_cont b then Some ((x - 0xC0) * 64 + (unat b - 0x80), bs') else None
         | [] \<Rightarrow> None)
      else if x < 0xF0 then
        (case bs of b # c # bs' \<Rightarrow>
           let n = (x - 0xE0) * 4096 + (unat b - 0x80) * 64 + (unat c - 0x80) in
           if is_cont b \<and> is_cont c \<and> 0x800 \<le> n \<and> \<not> (0xD800 \<le> n \<and> n < 0xE000)
           then Some (n, bs') else None
         | _ \<Rightarrow> None)
      else if x < 0xF5 then
        (case bs of b # c # d # bs' \<Rightarrow>
           let n = (x - 0xF0) * 262144 + (unat b - 0x80) * 4096 + (unat c - 0x80) * 64
                   + (unat d - 0x80) in
           if is_cont b \<and> is_cont c \<and> is_cont d \<and> 0x10000 \<le> n \<and> n < 0x110000
           then Some (n, bs') else None
         | _ \<Rightarrow> None)
      else None)"

lemma decode_scalar_shorter: "decode_scalar bs = Some (n, bs') \<Longrightarrow> length bs' < length bs"
  by (cases bs) (auto simp: Let_def split: if_splits list.splits)

definition units_of_scalar :: "nat \<Rightarrow> ustring" where
  "units_of_scalar n =
     (if n < 0x10000 then [of_nat n]
      else [of_nat (0xD800 + (n - 0x10000) div 0x400), of_nat (0xDC00 + (n - 0x10000) mod 0x400)])"

function utf8_decode :: "byte list \<Rightarrow> ustring option" where
  "utf8_decode bs =
     (if bs = [] then Some []
      else case decode_scalar bs of None \<Rightarrow> None
           | Some (n, bs') \<Rightarrow> map_option (\<lambda>s. units_of_scalar n @ s) (utf8_decode bs'))"
  by pat_completeness auto
termination
  by (relation "measure length") (auto dest: decode_scalar_shorter)

declare utf8_decode.simps [simp del]

text \<open>A string without lone surrogates.\<close>

fun well_formed :: "ustring \<Rightarrow> bool" where
  "well_formed [] = True"
| "well_formed [c] = (\<not> is_high c \<and> \<not> is_low c)"
| "well_formed (c # d # s) =
     (if is_high c \<and> is_low d then well_formed s
      else \<not> is_high c \<and> \<not> is_low c \<and> well_formed (d # s))"

definition scalar :: "nat \<Rightarrow> bool" where
  "scalar n \<longleftrightarrow> n < 0x110000 \<and> \<not> (0xD800 \<le> n \<and> n < 0xE000)"

lemma unat_of_nat8: "n < 256 \<Longrightarrow> unat (of_nat n :: byte) = n"
  by (simp add: unat_of_nat take_bit_eq_mod)

lemma unat_of_nat16: "n < 65536 \<Longrightarrow> unat (of_nat n :: code_unit) = n"
  by (simp add: unat_of_nat take_bit_eq_mod)

lemma is_high_unat: "is_high c \<longleftrightarrow> 0xD800 \<le> unat c \<and> unat c \<le> 0xDBFF"
  by (simp add: is_high_def word_le_nat_alt)

lemma is_low_unat: "is_low c \<longleftrightarrow> 0xDC00 \<le> unat c \<and> unat c \<le> 0xDFFF"
  by (simp add: is_low_def word_le_nat_alt)

lemma unat16_bound: "unat (c :: code_unit) < 65536"
  using unsigned_less [of c] by simp

lemma decode_two:
  assumes "2 \<le> a" "a < 32" "b < 64"
  shows "decode_scalar (of_nat (0xC0 + a) # of_nat (0x80 + b) # bs) = Some (a * 64 + b, bs)"
proof -
  have "unat (of_nat (0xC0 + a) :: byte) = 0xC0 + a" "unat (of_nat (0x80 + b) :: byte) = 0x80 + b"
    using assms by (intro unat_of_nat8; simp)+
  then show ?thesis using assms by (simp add: is_cont_def Let_def del: of_nat_add)
qed

lemma decode_three:
  assumes "a < 16" "b < 64" "c < 64" and n: "n = a * 4096 + b * 64 + c"
    and "0x800 \<le> n" "\<not> (0xD800 \<le> n \<and> n < 0xE000)"
  shows "decode_scalar (of_nat (0xE0 + a) # of_nat (0x80 + b) # of_nat (0x80 + c) # bs) = Some (n, bs)"
proof -
  have "unat (of_nat (0xE0 + a) :: byte) = 0xE0 + a" "unat (of_nat (0x80 + b) :: byte) = 0x80 + b"
    "unat (of_nat (0x80 + c) :: byte) = 0x80 + c"
    using assms(1,2,3) by (intro unat_of_nat8; simp)+
  then show ?thesis
    using assms by (simp add: is_cont_def Let_def del: of_nat_add)
qed

lemma decode_four:
  assumes "a < 5" "b < 64" "c < 64" "d < 64" and n: "n = a * 262144 + b * 4096 + c * 64 + d"
    and "0x10000 \<le> n" "n < 0x110000"
  shows "decode_scalar (of_nat (0xF0 + a) # of_nat (0x80 + b) # of_nat (0x80 + c)
           # of_nat (0x80 + d) # bs) = Some (n, bs)"
proof -
  have "unat (of_nat (0xF0 + a) :: byte) = 0xF0 + a" "unat (of_nat (0x80 + b) :: byte) = 0x80 + b"
    "unat (of_nat (0x80 + c) :: byte) = 0x80 + c" "unat (of_nat (0x80 + d) :: byte) = 0x80 + d"
    using assms(1,2,3,4) by (intro unat_of_nat8; simp)+
  then show ?thesis
    using assms by (simp add: is_cont_def Let_def del: of_nat_add)
qed

lemma base64_digits:
  fixes n :: nat
  shows "n = n div 64 * 64 + n mod 64"
    and "n = n div 4096 * 4096 + n div 64 mod 64 * 64 + n mod 64"
    and "n = n div 262144 * 262144 + n div 4096 mod 64 * 4096 + n div 64 mod 64 * 64 + n mod 64"
proof -
  have d: "n div 4096 = n div 64 div 64" "n div 262144 = n div 64 div 64 div 64"
    by (simp_all flip: div_mult2_eq)
  define a b c where "a = n div 64" and "b = a div 64" and "c = b div 64"
  have n: "n = a * 64 + n mod 64" "a = b * 64 + a mod 64" "b = c * 64 + b mod 64"
    unfolding a_def b_def c_def by (simp_all only: div_mult_mod_eq)
  show "n = n div 64 * 64 + n mod 64" by simp
  show "n = n div 4096 * 4096 + n div 64 mod 64 * 64 + n mod 64"
    using n unfolding d a_def [symmetric] b_def [symmetric] by linarith
  show "n = n div 262144 * 262144 + n div 4096 mod 64 * 4096 + n div 64 mod 64 * 64 + n mod 64"
    using n unfolding d a_def [symmetric] b_def [symmetric] c_def [symmetric] by linarith
qed

lemma decode_encode_scalar:
  assumes "scalar n"
  shows "decode_scalar (encode_scalar n @ bs) = Some (n, bs)"
proof -
  have n: "n < 0x110000" and ns: "\<not> (0xD800 \<le> n \<and> n < 0xE000)"
    using assms by (auto simp: scalar_def)
  consider "n < 0x80" | "0x80 \<le> n" "n < 0x800" | "0x800 \<le> n" "n < 0x10000" | "0x10000 \<le> n"
    by linarith
  then show ?thesis
  proof cases
    case 1
    then show ?thesis by (simp add: encode_scalar_def unat_of_nat8)
  next
    case 2
    then have "2 \<le> n div 64" "n div 64 < 32"
      by (simp_all add: div_less_iff_less_mult less_eq_div_iff_mult_less_eq)
    then show ?thesis
      using 2 decode_two [of "n div 64" "n mod 64" bs]
      by (simp add: encode_scalar_def del: of_nat_add decode_scalar.simps)
  next
    case 3
    then have "n div 4096 < 16" by (simp add: div_less_iff_less_mult)
    then show ?thesis
      using 3 ns decode_three [OF _ _ _ base64_digits(2), of n bs]
      by (simp add: encode_scalar_def del: of_nat_add decode_scalar.simps)
  next
    case 4
    have "n div 262144 < 5" using n by (simp add: div_less_iff_less_mult)
    then show ?thesis
      using 4 n decode_four [OF _ _ _ _ base64_digits(3), of n bs]
      by (simp add: encode_scalar_def del: of_nat_add decode_scalar.simps)
  qed
qed

lemma encode_scalar_nonempty [simp]: "encode_scalar n \<noteq> []"
  by (simp add: encode_scalar_def)

lemma scalars_scalar: "n \<in> set (scalars s) \<Longrightarrow> scalar n"
proof (induction s rule: scalars.induct)
  case (2 c)
  then show ?case
    using unat16_bound [of c] by (auto simp: scalar_def is_high_unat is_low_unat split: if_splits)
next
  case (3 c d s)
  have "scalar (pair_value c d)" if "is_high c" "is_low d"
    using that by (auto simp: scalar_def pair_value_def is_high_unat is_low_unat)
  moreover have "scalar (unat c)" if "\<not> is_high c" "\<not> is_low c"
    using that unat16_bound [of c] by (auto simp: scalar_def is_high_unat is_low_unat)
  moreover have "scalar 0xFFFD" by (simp add: scalar_def)
  ultimately show ?case
    using 3 by (auto split: if_splits)
qed simp

lemma utf8_decode_concat:
  "\<forall>n \<in> set ns. scalar n \<Longrightarrow>
     utf8_decode (concat (map encode_scalar ns)) = Some (concat (map units_of_scalar ns))"
proof (induction ns)
  case Nil
  then show ?case by (simp add: utf8_decode.simps)
next
  case (Cons n ns)
  then have "decode_scalar (encode_scalar n @ concat (map encode_scalar ns))
      = Some (n, concat (map encode_scalar ns))"
    by (simp add: decode_encode_scalar)
  with Cons show ?case by (subst utf8_decode.simps) simp
qed

text \<open>The decoder accepts everything the encoder produces.\<close>

lemma utf8_decode_encode:
  "utf8_decode (utf8_encode s) = Some (concat (map units_of_scalar (scalars s)))"
  unfolding utf8_encode_def by (rule utf8_decode_concat) (auto dest: scalars_scalar)

lemma units_of_pair:
  assumes "is_high c" and "is_low d"
  shows "units_of_scalar (pair_value c d) = [c, d]"
proof -
  have c: "0xD800 \<le> unat c" "unat c \<le> 0xDBFF" and d: "0xDC00 \<le> unat d" "unat d \<le> 0xDFFF"
    using assms by (auto simp: is_high_unat is_low_unat)
  define x y where "x = unat c - 0xD800" and "y = unat d - 0xDC00"
  have xy: "y < 1024" "unat c = 0xD800 + x" "unat d = 0xDC00 + y"
    using c d by (auto simp: x_def y_def)
  have pv: "pair_value c d = 0x10000 + (x * 1024 + y)"
    by (simp add: pair_value_def x_def y_def)
  have "(x * 1024 + y) div 1024 = x" "(x * 1024 + y) mod 1024 = y" using xy by auto
  then have "units_of_scalar (pair_value c d) = [of_nat (unat c), of_nat (unat d)]"
    by (simp add: units_of_scalar_def pv xy(2,3) del: of_nat_add of_nat_unat)
  then show ?thesis by simp
qed

lemma units_of_unit [simp]: "units_of_scalar (unat c) = [c]"
  using unat16_bound [of c] by (simp add: units_of_scalar_def)

lemma units_of_replacement [simp]: "units_of_scalar 0xFFFD = [0xFFFD]"
  by (simp add: units_of_scalar_def)

lemma well_formed_units: "well_formed s \<Longrightarrow> concat (map units_of_scalar (scalars s)) = s"
  by (induction s rule: well_formed.induct) (auto simp: units_of_pair split: if_splits)

lemma units_well_formed: "concat (map units_of_scalar (scalars s)) = s \<Longrightarrow> well_formed s"
proof (induction s rule: well_formed.induct)
  case (2 c)
  have "\<not> is_high 0xFFFD" "\<not> is_low 0xFFFD" by (simp_all add: is_high_unat is_low_unat)
  then show ?case using 2 by (auto split: if_splits)
next
  case (3 c d s)
  have "\<not> is_high 0xFFFD" "\<not> is_low 0xFFFD" by (simp_all add: is_high_unat is_low_unat)
  then show ?case using 3 by (auto simp: units_of_pair split: if_splits)
qed simp

text \<open>The check of \<open>encodeText\<close>: decoding the encoded string gives it back exactly when it has no
  lone surrogate.\<close>

lemma utf8_round_trip: "utf8_decode (utf8_encode s) = Some s \<longleftrightarrow> well_formed s"
  by (auto simp: utf8_decode_encode dest: well_formed_units units_well_formed)

end
