(* ===== verification/Json_Text.thy ===== *)
theory Json_Text
  imports Utf8 Messages
begin

text \<open>
  The text of values: the decimal text of a number and \<open>JSON.stringify\<close>, as the language specification gives them, and the
  string helpers the summaries use, among them \<open>contentText\<close> of \<^verbatim>\<open>pi/packages/ai/src/utils/text.ts\<close>.
\<close>

section \<open>Numbers\<close>

text \<open>
  A positive number \<open>m * 2 ^ e\<close> with its binary64 significand \<open>m\<close> is written in quarters of a last place: the numbers that
  round to it lie between \<open>lo\<close> and \<open>hi\<close>, inclusive if \<open>m\<close> is even. All four are multiples of \<open>1 / den\<close>.
\<close>

record neighbourhood =
  nb_lo :: nat
  nb_mid :: nat
  nb_hi :: nat
  nb_den :: nat
  nb_closed :: bool

definition neighbourhood_of :: "nat \<Rightarrow> int \<Rightarrow> neighbourhood" where
  "neighbourhood_of m e =
     (let f = (if e \<ge> 2 then 2 ^ nat (e - 2) else 1)
      in \<lparr>nb_lo = (4 * m - (if m = 2 ^ 52 \<and> e > - 1074 then 1 else 2)) * f, nb_mid = 4 * m * f, nb_hi = (4 * m + 2) * f,
          nb_den = (if e \<ge> 2 then 1 else 2 ^ nat (2 - e)), nb_closed = even m\<rparr>)"

text \<open>\<open>s * 10 ^ q\<close> rounds to the number.\<close>

definition denotes :: "neighbourhood \<Rightarrow> nat \<Rightarrow> int \<Rightarrow> bool" where
  "denotes b s q =
     (let v = s * nb_den b * 10 ^ nat q; p = 10 ^ nat (- q)
      in if nb_closed b then nb_lo b * p \<le> v \<and> v \<le> nb_hi b * p else nb_lo b * p < v \<and> v < nb_hi b * p)"

text \<open>The \<open>n\<close> with \<open>10 ^ (n - 1) \<le> num / den < 10 ^ n\<close>.\<close>

definition decimal_exponent :: "nat \<Rightarrow> nat \<Rightarrow> int" where
  "decimal_exponent num den =
     (if den \<le> num then int (length (nat_text (num div den)))
      else case find (\<lambda>j. den \<le> num * 10 ^ (j + 1)) [0..<330] of Some j \<Rightarrow> - int j | None \<Rightarrow> - 330)"

text \<open>
  The candidates with \<open>k\<close> digits are the multiples of \<open>10 ^ (n - k)\<close> on either side; of two that denote the number
  the nearer is taken, of two equally near the even one.
\<close>

definition candidate :: "neighbourhood \<Rightarrow> int \<Rightarrow> (nat \<times> int) option" where
  "candidate b q =
     (let num = nb_mid b * 10 ^ nat (- q); den = nb_den b * 10 ^ nat q;
          s = num div den; r = 2 * (num mod den);
          up = r > den \<or> r = den \<and> odd s;
          best = (if up then s + 1 else s); other = (if up then s else s + 1)
      in if best > 0 \<and> denotes b best q then Some (best, q)
         else if other > 0 \<and> denotes b other q then Some (other, q) else None)"

fun shortest_from :: "neighbourhood \<Rightarrow> int \<Rightarrow> nat list \<Rightarrow> (nat \<times> int) option" where
  "shortest_from b n [] = None"
| "shortest_from b n (k # ks) = (case candidate b (n - int k) of Some c \<Rightarrow> Some c | None \<Rightarrow> shortest_from b n ks)"

text \<open>Seventeen digits always suffice; the exact value stands for the case that they did not.\<close>

definition exact_decimal :: "nat \<Rightarrow> int \<Rightarrow> nat \<times> int" where
  "exact_decimal m e = (if e \<ge> 0 then (m * 2 ^ nat e, 0) else (m * 5 ^ nat (- e), e))"

definition shortest :: "nat \<Rightarrow> int \<Rightarrow> nat \<times> int" where
  "shortest m e =
     (let b = neighbourhood_of m e
      in case shortest_from b (decimal_exponent (nb_mid b) (nb_den b)) [1..<18] of
           Some c \<Rightarrow> c
         | None \<Rightarrow> exact_decimal m e)"

definition zeros :: "nat \<Rightarrow> ustring" where
  "zeros n = replicate n 48"

definition layout_digits :: "ustring \<Rightarrow> int \<Rightarrow> ustring" where
  "layout_digits ds q =
     (let k = int (length ds); n = k + q; e = n - 1;
          etext = js_lit ''e'' @ (if e < 0 then js_lit ''-'' else js_lit ''+'') @ nat_text (nat \<bar>e\<bar>)
      in if k \<le> n \<and> n \<le> 21 then ds @ zeros (nat (n - k))
         else if 0 < n \<and> n \<le> 21 then take (nat n) ds @ js_lit ''.'' @ drop (nat n) ds
         else if - 6 < n \<and> n \<le> 0 then js_lit ''0.'' @ zeros (nat (- n)) @ ds
         else if k = 1 then ds @ etext
         else take 1 ds @ js_lit ''.'' @ drop 1 ds @ etext)"

definition layout :: "nat \<times> int \<Rightarrow> ustring" where
  "layout sq = (case sq of (s, q) \<Rightarrow> if s = 10 then layout_digits (nat_text 1) (q + 1) else layout_digits (nat_text s) q)"

definition signed_text :: "int \<Rightarrow> int \<Rightarrow> ustring" where
  "signed_text m e = (if m < 0 then js_lit ''-'' else []) @ layout (shortest (nat \<bar>m\<bar>) e)"

fun number_text :: "jsnum \<Rightarrow> ustring" where
  "number_text (NInt i) =
     (if \<bar>i\<bar> \<le> 2 ^ 53 then int_text i
      else let t = top_bit (nat \<bar>i\<bar>) - 52 in signed_text (sgn i * (\<bar>i\<bar> div 2 ^ t)) (int t))"
| "number_text NNegZero = js_lit ''0''"
| "number_text (NFrac w) = (case scaled (NFrac w) of (m, e) \<Rightarrow> signed_text m e)"
| "number_text NNaN = js_lit ''NaN''"
| "number_text NPosInf = js_lit ''Infinity''"
| "number_text NNegInf = js_lit ''-Infinity''"

section \<open>JSON.stringify\<close>

definition hex_digit :: "nat \<Rightarrow> code_unit" where
  "hex_digit d = of_nat (if d < 10 then 48 + d else 87 + d)"

definition unicode_escape :: "code_unit \<Rightarrow> ustring" where
  "unicode_escape c =
     (let n = unat c in js_lit [CHR 0x5c, CHR ''u''] @
       [hex_digit (n div 4096), hex_digit (n div 256 mod 16), hex_digit (n div 16 mod 16), hex_digit (n mod 16)])"

definition backslash :: "char \<Rightarrow> ustring" where
  "backslash c = js_lit [CHR 0x5c, c]"

definition quote_unit :: "code_unit \<Rightarrow> ustring" where
  "quote_unit c =
     (if c = 8 then backslash CHR ''b''
      else if c = 9 then backslash CHR ''t''
      else if c = 10 then backslash CHR ''n''
      else if c = 12 then backslash CHR ''f''
      else if c = 13 then backslash CHR ''r''
      else if c = 34 then backslash CHR 0x22
      else if c = 92 then backslash CHR 0x5c
      else if c < 32 \<or> is_high c \<or> is_low c then unicode_escape c
      else [c])"

text \<open>A surrogate pair stays as it is; a lone surrogate is escaped.\<close>

fun quote_units :: "ustring \<Rightarrow> ustring" where
  "quote_units [] = []"
| "quote_units [c] = quote_unit c"
| "quote_units (c # d # cs) =
     (if is_high c \<and> is_low d then c # d # quote_units cs else quote_unit c @ quote_units (d # cs))"

definition quote :: "ustring \<Rightarrow> ustring" where
  "quote s = [34] @ quote_units s @ [34]"

fun join :: "ustring \<Rightarrow> ustring list \<Rightarrow> ustring" where
  "join sep [] = []"
| "join sep [s] = s"
| "join sep (s # t # ts) = s @ sep @ join sep (t # ts)"

text \<open>
  \<open>Inl ()\<close> is the thrown error of a \<open>bigint\<close>; \<open>Inr None\<close> is the result \<open>undefined\<close>, as for functions and
  symbols. Values have no \<open>toJSON\<close> method.
\<close>

fun stringify :: "js \<Rightarrow> unit + ustring option"
  and stringify_items :: "js list \<Rightarrow> unit + ustring list"
  and stringify_props :: "(ustring \<times> js) list \<Rightarrow> unit + ustring list" where
  "stringify JUndef = Inr None"
| "stringify JNull = Inr (Some (js_lit ''null''))"
| "stringify (JBool b) = Inr (Some (if b then js_lit ''true'' else js_lit ''false''))"
| "stringify (JNum x) = Inr (Some (if is_finite x then number_text x else js_lit ''null''))"
| "stringify (JStr s) = Inr (Some (quote s))"
| "stringify (JBytes bs) =
     Inr (Some (js_lit ''{'' @ join (js_lit '','') (map (\<lambda>(i, b). quote (nat_text i) @ js_lit '':'' @ nat_text (unat b))
       (enumerate 0 bs)) @ js_lit ''}''))"
| "stringify (JArr vs) =
     rbind (stringify_items vs) (\<lambda>ts. Inr (Some (js_lit ''['' @ join (js_lit '','') ts @ js_lit '']'')))"
| "stringify (JObj p s kvs) =
     rbind (stringify_props kvs) (\<lambda>ts. Inr (Some (js_lit ''{'' @ join (js_lit '','') ts @ js_lit ''}'')))"
| "stringify (JOther t) = (if t = js_lit ''bigint'' then Inl () else Inr None)"
| "stringify_items [] = Inr []"
| "stringify_items (v # vs) =
     rbind (stringify v) (\<lambda>t. rbind (stringify_items vs) (\<lambda>ts.
       Inr ((case t of Some t \<Rightarrow> t | None \<Rightarrow> js_lit ''null'') # ts)))"
| "stringify_props [] = Inr []"
| "stringify_props ((k, v) # kvs) =
     rbind (stringify v) (\<lambda>t. rbind (stringify_props kvs) (\<lambda>ts.
       Inr (case t of Some t \<Rightarrow> (quote k @ js_lit '':'' @ t) # ts | None \<Rightarrow> ts)))"

section \<open>Text of message content\<close>

fun user_block_text :: "user_block \<Rightarrow> ustring option" where
  "user_block_text (UText t) = Some (tc_text t)"
| "user_block_text (UImage _) = None"

fun assistant_block_text :: "assistant_block \<Rightarrow> ustring option" where
  "assistant_block_text (AText t) = Some (tc_text t)"
| "assistant_block_text _ = None"

text \<open>\<open>contentText\<close> on the content of a user message and on the blocks of tool results and assistant messages.\<close>

definition block_texts :: "('b \<Rightarrow> ustring option) \<Rightarrow> 'b list \<Rightarrow> ustring \<Rightarrow> ustring" where
  "block_texts text_of blocks separator = join separator (List.map_filter text_of blocks)"

fun contentText :: "user_content \<Rightarrow> ustring \<Rightarrow> ustring" where
  "contentText (CString s) separator = s"
| "contentText (CBlocks bs) separator = block_texts user_block_text bs separator"

definition assistantText :: "AssistantMessage \<Rightarrow> ustring" where
  "assistantText m = block_texts assistant_block_text (am_content m) newline"

end
