(* ===== verification/Json_Parse.thy ===== *)
theory Json_Parse
  imports Json_Text "HOL-Library.Sublist"
begin

text \<open>
  \<open>JSON.parse\<close> as the language specification gives it, on code units. Numbers are read as the nearest binary64
  number; of two members with the same key the later one gives the value. The depth of the recursion is bounded by fuel,
  which the length of the text always provides.
\<close>

section \<open>Numbers\<close>

text \<open>The exponent \<open>t\<close> with \<open>2 ^ t \<le> num / den < 2 ^ (t + 1)\<close>.\<close>

definition binary_exponent :: "nat \<Rightarrow> nat \<Rightarrow> int" where
  "binary_exponent num den =
     (if den \<le> num then int (top_bit (num div den))
      else let j = top_bit (den div num) in if den \<le> num * 2 ^ j then - int j else - int j - 1)"

definition div_half_even :: "nat \<Rightarrow> nat \<Rightarrow> nat" where
  "div_half_even num den =
     (let k = num div den; r = 2 * (num mod den) in if r > den \<or> r = den \<and> odd k then k + 1 else k)"

definition nearest :: "bool \<Rightarrow> nat \<Rightarrow> nat \<Rightarrow> jsnum" where
  "nearest neg num den =
     (let place = max (binary_exponent num den - 52) (- 1074)
      in assemble neg place (div_half_even (num * 2 ^ nat (- place)) (den * 2 ^ nat place)))"

text \<open>The number \<open>digits * 10 ^ e\<close>.\<close>

definition decimal_num :: "bool \<Rightarrow> nat \<Rightarrow> int \<Rightarrow> jsnum" where
  "decimal_num neg digits e =
     (if digits = 0 then (if neg then NNegZero else NInt 0)
      else nearest neg (digits * 10 ^ nat e) (10 ^ nat (- e)))"

definition is_digit :: "code_unit \<Rightarrow> bool" where
  "is_digit c \<longleftrightarrow> 48 \<le> c \<and> c \<le> 57"

definition digits_nat :: "ustring \<Rightarrow> nat" where
  "digits_nat s = foldl (\<lambda>acc c. acc * 10 + (unat c - 48)) 0 s"

definition fraction_part :: "ustring \<Rightarrow> (ustring \<times> ustring) option" where
  "fraction_part s =
     (case s of
        c # cs \<Rightarrow> if c = 46 then (if takeWhile is_digit cs = [] then None else Some (takeWhile is_digit cs, dropWhile is_digit cs))
          else Some ([], s)
      | [] \<Rightarrow> Some ([], s))"

definition exponent_part :: "ustring \<Rightarrow> (int \<times> ustring) option" where
  "exponent_part s =
     (case s of
        c # cs \<Rightarrow>
          if c = 101 \<or> c = 69 then
            (let (neg, ds) = (case cs of d # ds \<Rightarrow> if d = 45 then (True, ds) else if d = 43 then (False, ds) else (False, cs) | [] \<Rightarrow> (False, []));
                 n = int (digits_nat (takeWhile is_digit ds))
             in if takeWhile is_digit ds = [] then None else Some (if neg then - n else n, dropWhile is_digit ds))
          else Some (0, s)
      | [] \<Rightarrow> Some (0, s))"

definition parse_number :: "ustring \<Rightarrow> (jsnum \<times> ustring) option" where
  "parse_number s =
     (let (neg, s1) = (case s of c # cs \<Rightarrow> if c = 45 then (True, cs) else (False, s) | [] \<Rightarrow> (False, s));
          ip = takeWhile is_digit s1; s2 = dropWhile is_digit s1
      in if ip = [] \<or> hd ip = 48 \<and> 1 < length ip then None
         else (case fraction_part s2 of
             None \<Rightarrow> None
           | Some (fp, s3) \<Rightarrow>
               (case exponent_part s3 of
                  None \<Rightarrow> None
                | Some (e, s4) \<Rightarrow> Some (decimal_num neg (digits_nat (ip @ fp)) (e - int (length fp)), s4))))"

section \<open>Strings\<close>

definition hex_value :: "code_unit \<Rightarrow> nat option" where
  "hex_value c =
     (if 48 \<le> c \<and> c \<le> 57 then Some (unat c - 48)
      else if 97 \<le> c \<and> c \<le> 102 then Some (unat c - 87)
      else if 65 \<le> c \<and> c \<le> 70 then Some (unat c - 55)
      else None)"

definition hex4 :: "code_unit \<Rightarrow> code_unit \<Rightarrow> code_unit \<Rightarrow> code_unit \<Rightarrow> code_unit option" where
  "hex4 a b c d =
     (case (hex_value a, hex_value b, hex_value c, hex_value d) of
        (Some w, Some x, Some y, Some z) \<Rightarrow> Some (of_nat (w * 4096 + x * 256 + y * 16 + z))
      | _ \<Rightarrow> None)"

definition escaped :: "code_unit \<Rightarrow> code_unit option" where
  "escaped c =
     (if c = 34 \<or> c = 92 \<or> c = 47 then Some c
      else if c = 98 then Some 8
      else if c = 102 then Some 12
      else if c = 110 then Some 10
      else if c = 114 then Some 13
      else if c = 116 then Some 9
      else None)"

definition push_unit :: "code_unit \<Rightarrow> (ustring \<times> ustring) option \<Rightarrow> (ustring \<times> ustring) option" where
  "push_unit c r = map_option (\<lambda>(s, rest). (c # s, rest)) r"

text \<open>The rest of a string after its opening quote.\<close>

fun unquote :: "ustring \<Rightarrow> (ustring \<times> ustring) option" where
  "unquote [] = None"
| "unquote (c # cs) =
     (if c = 34 then Some ([], cs)
      else if c < 32 then None
      else if c = 92 then
        (case cs of
           [] \<Rightarrow> None
         | x # ds \<Rightarrow>
             if x = 117 then
               (case ds of
                  h1 # h2 # h3 # h4 # es \<Rightarrow>
                    (case hex4 h1 h2 h3 h4 of None \<Rightarrow> None | Some u \<Rightarrow> push_unit u (unquote es))
                | _ \<Rightarrow> None)
             else (case escaped x of None \<Rightarrow> None | Some u \<Rightarrow> push_unit u (unquote ds)))
      else push_unit c (unquote cs))"

section \<open>Values\<close>

definition skip_ws :: "ustring \<Rightarrow> ustring" where
  "skip_ws s = dropWhile (\<lambda>c. c = 9 \<or> c = 10 \<or> c = 13 \<or> c = 32) s"

text \<open>A member of an object: a new key or a new value of an old one.\<close>

definition put_member :: "(ustring \<times> js) list \<Rightarrow> ustring \<Rightarrow> js \<Rightarrow> (ustring \<times> js) list" where
  "put_member kvs k v = (if k \<in> fst ` set kvs then map (\<lambda>(k', v'). (k', if k' = k then v else v')) kvs else define_property kvs k v)"

fun parse_literal :: "(string \<times> js) list \<Rightarrow> ustring \<Rightarrow> (js \<times> ustring) option" where
  "parse_literal [] s = None"
| "parse_literal ((l, v) # ls) s =
     (if take (length l) s = js_lit l then Some (v, drop (length l) s) else parse_literal ls s)"

definition literals :: "(string \<times> js) list" where
  "literals = [(''null'', JNull), (''true'', JBool True), (''false'', JBool False)]"

definition parse_scalar :: "ustring \<Rightarrow> (js \<times> ustring) option" where
  "parse_scalar s =
     (case s of
        [] \<Rightarrow> None
      | c # cs \<Rightarrow>
          if c = 34 then map_option (\<lambda>(t, r). (JStr t, r)) (unquote cs)
          else if c = 45 \<or> is_digit c then map_option (\<lambda>(x, r). (JNum x, r)) (parse_number s)
          else parse_literal literals s)"

fun parse_value :: "nat \<Rightarrow> ustring \<Rightarrow> (js \<times> ustring) option"
  and parse_items :: "nat \<Rightarrow> ustring \<Rightarrow> (js list \<times> ustring) option"
  and parse_members :: "nat \<Rightarrow> (ustring \<times> js) list \<Rightarrow> ustring \<Rightarrow> ((ustring \<times> js) list \<times> ustring) option" where
  "parse_value 0 s = None"
| "parse_value (Suc n) s =
     (case skip_ws s of
        [] \<Rightarrow> None
      | c # cs \<Rightarrow>
          if c = 123 then
            (case skip_ws cs of
               [] \<Rightarrow> None
             | d # ds \<Rightarrow> if d = 125 then Some (JObj ObjectProto False [], ds)
                 else map_option (\<lambda>(kvs, r). (JObj ObjectProto False kvs, r)) (parse_members n [] cs))
          else if c = 91 then
            (case skip_ws cs of
               [] \<Rightarrow> None
             | d # ds \<Rightarrow> if d = 93 then Some (JArr [], ds) else map_option (\<lambda>(vs, r). (JArr vs, r)) (parse_items n cs))
          else parse_scalar (c # cs))"
| "parse_items 0 s = None"
| "parse_items (Suc n) s =
     (case parse_value n s of
        None \<Rightarrow> None
      | Some (v, r) \<Rightarrow>
          (case skip_ws r of
             [] \<Rightarrow> None
           | c # cs \<Rightarrow> if c = 44 then map_option (\<lambda>(vs, r'). (v # vs, r')) (parse_items n cs)
               else if c = 93 then Some ([v], cs) else None))"
| "parse_members 0 kvs s = None"
| "parse_members (Suc n) kvs s =
     (case skip_ws s of
        [] \<Rightarrow> None
      | c # cs \<Rightarrow>
          if c \<noteq> 34 then None
          else (case unquote cs of
              None \<Rightarrow> None
            | Some (k, r) \<Rightarrow>
                (case skip_ws r of
                   [] \<Rightarrow> None
                 | d # ds \<Rightarrow>
                     if d \<noteq> 58 then None
                     else (case parse_value n ds of
                         None \<Rightarrow> None
                       | Some (v, r') \<Rightarrow>
                           (case skip_ws r' of
                              [] \<Rightarrow> None
                            | e # es \<Rightarrow> if e = 44 then parse_members n (put_member kvs k v) es
                                else if e = 125 then Some (put_member kvs k v, es) else None)))))"

declare parse_value.simps(2) [simp del] parse_items.simps(2) [simp del] parse_members.simps(2) [simp del]

definition parse_json :: "ustring \<Rightarrow> js option" where
  "parse_json s =
     (case parse_value (Suc (length s)) s of
        None \<Rightarrow> None
      | Some (v, r) \<Rightarrow> if skip_ws r = [] then Some v else None)"

end
