(* ===== verification/Schema.thy ===== *)
theory Schema
  imports Deep_Equal Json_Parse "HOL-Library.List_Lexorder"
begin

text \<open>
  The validator of \<^verbatim>\<open>pi/packages/ai/src/schema.ts\<close>. A schema node is the list of the properties of a plain object; a node
  nested in a schema is one where the code finds an object. A call gets the depth of the stack it may still use: a
  recursion that goes deeper throws, as it does for a reference that leads back to itself on the same value. Patterns
  other than that of \<open>Type.Record\<close> go to the regular expression engine \<open>re\<close>, which gives nothing for a text
  that is no pattern. \<open>Compile\<close> caches validators by the identity of the schema; the cache does not change what they answer
  and is left out. Names of definitions are not names of \<open>Object.prototype\<close>.
\<close>

type_synonym schema_object = "(ustring \<times> js) list"
type_synonym regex_engine = "ustring \<Rightarrow> (ustring \<Rightarrow> bool) option"

record PiValidationError =
  ve_keyword :: ustring
  ve_schemaPath :: ustring
  ve_instancePath :: ustring
  ve_params :: js
  ve_message :: ustring

datatype schema_throw = InvalidPattern ustring | StackExhausted

type_synonym validation = "schema_throw + PiValidationError list"

section \<open>Numbers\<close>

definition scaled_less :: "int \<times> int \<Rightarrow> int \<times> int \<Rightarrow> bool" where
  "scaled_less x y =
     (let e = min (snd x) (snd y) in fst x * 2 ^ nat (snd x - e) < fst y * 2 ^ nat (snd y - e))"

fun num_less :: "jsnum \<Rightarrow> jsnum \<Rightarrow> bool" where
  "num_less NNaN _ = False"
| "num_less _ NNaN = False"
| "num_less NPosInf _ = False"
| "num_less _ NNegInf = False"
| "num_less NNegInf _ = True"
| "num_less _ NPosInf = True"
| "num_less x y = scaled_less (scaled x) (scaled y)"

fun is_negative :: "jsnum \<Rightarrow> bool" where
  "is_negative (NInt i) = (i < 0)"
| "is_negative (NFrac w) = (2 ^ 63 \<le> unat w)"
| "is_negative NNegZero = True"
| "is_negative NNegInf = True"
| "is_negative _ = False"

definition is_infinite :: "jsnum \<Rightarrow> bool" where
  "is_infinite x \<longleftrightarrow> x = NPosInf \<or> x = NNegInf"

definition num_div :: "jsnum \<Rightarrow> jsnum \<Rightarrow> jsnum" where
  "num_div x y =
     (if x = NNaN \<or> y = NNaN \<or> is_infinite x \<and> is_infinite y then NNaN
      else
        let neg = (is_negative x \<noteq> is_negative y);
            zero = (if neg then NNegZero else NInt 0);
            infinite = (if neg then NNegInf else NPosInf);
            (m, e) = scaled x; (m', e') = scaled y
        in if is_infinite x then infinite
           else if is_infinite y then zero
           else if m = 0 then (if m' = 0 then NNaN else zero)
           else if m' = 0 then infinite
           else nearest neg (nat \<bar>m\<bar> * 2 ^ nat (e - e')) (nat \<bar>m'\<bar> * 2 ^ nat (e' - e)))"

section \<open>Properties of objects\<close>

text \<open>
  What \<open>in\<close> and property access find beside the own properties: the members of \<open>Object.prototype\<close>. Of another
  prototype only what it inherits from there is looked up.
\<close>

definition object_prototype_names :: "ustring list" where
  "object_prototype_names =
     map js_lit [''constructor'', ''__defineGetter__'', ''__defineSetter__'', ''hasOwnProperty'', ''__lookupGetter__'',
       ''__lookupSetter__'', ''isPrototypeOf'', ''propertyIsEnumerable'', ''toString'', ''valueOf'', ''__proto__'', ''toLocaleString'']"

fun inherited :: "proto \<Rightarrow> ustring \<Rightarrow> js option" where
  "inherited NullProto k = None"
| "inherited _ k =
     (if k \<notin> set object_prototype_names then None
      else if k = js_lit ''__proto__'' then Some (JObj OtherProto False [])
      else Some (JOther (js_lit ''function'')))"

fun object_parts :: "js \<Rightarrow> (proto \<times> (ustring \<times> js) list) option" where
  "object_parts (JObj p _ kvs) = Some (p, kvs)"
| "object_parts (JBytes bs) = Some (OtherProto, bytes_props bs)"
| "object_parts _ = None"

definition lookup :: "proto \<Rightarrow> (ustring \<times> js) list \<Rightarrow> ustring \<Rightarrow> js option" where
  "lookup p kvs k = (case map_of kvs k of Some v \<Rightarrow> Some v | None \<Rightarrow> inherited p k)"

fun sub_schema :: "js \<Rightarrow> schema_object option" where
  "sub_schema (JObj _ _ kvs) = Some kvs"
| "sub_schema _ = None"

fun items_of :: "js \<Rightarrow> js list" where
  "items_of (JArr xs) = xs"
| "items_of _ = []"

fun string_of :: "js \<Rightarrow> ustring option" where
  "string_of (JStr s) = Some s"
| "string_of _ = None"

definition member_nodes :: "js \<Rightarrow> (ustring \<times> schema_object) list" where
  "member_nodes v =
     (case sub_schema v of
        None \<Rightarrow> []
      | Some kvs \<Rightarrow> List.map_filter (\<lambda>(k, s). map_option (Pair k) (sub_schema s)) kvs)"

definition item_nodes :: "js \<Rightarrow> schema_object list" where
  "item_nodes v = List.map_filter sub_schema (items_of v)"

section \<open>Definitions and references\<close>

text \<open>The nodes \<open>collectDefs\<close> visits from a node, in order, each with the name it is recorded under, if any.\<close>

definition sub_nodes :: "schema_object \<Rightarrow> (ustring option \<times> schema_object) list" where
  "sub_nodes node =
     map (\<lambda>(key, def). (Some (case prop_of def ''$id'' of JStr s \<Rightarrow> s | _ \<Rightarrow> key), def)) (member_nodes (prop_of node ''$defs'')) @
     map (Pair None)
       (concat (map (\<lambda>keyword. item_nodes (prop_of node keyword)) [''anyOf'', ''oneOf'', ''allOf'']) @
        map snd (member_nodes (prop_of node ''properties'')) @
        (case sub_schema (prop_of node ''items'') of Some s \<Rightarrow> [s] | None \<Rightarrow> item_nodes (prop_of node ''items'')) @
        (case sub_schema (prop_of node ''additionalProperties'') of Some s \<Rightarrow> [s] | None \<Rightarrow> []) @
        map snd (member_nodes (prop_of node ''patternProperties'')))"

abbreviation weight :: "schema_object \<Rightarrow> nat" where
  "weight node \<equiv> size_list (size_prod (\<lambda>_. 0) size) node"

lemma prop_of_size: "size (prop_of node k) \<le> weight node"
proof -
  have "size v < weight node" if "map_of node key = Some v" for key v
    using that by (induction node) (auto split: if_splits)
  then show ?thesis by (auto simp: prop_of_def less_imp_le split: option.splits)
qed

lemma sub_schema_weight: "sub_schema v = Some s \<Longrightarrow> weight s < size v"
  by (cases v) auto

lemma map_filter_member: "y \<in> set (List.map_filter f xs) \<longleftrightarrow> (\<exists>x \<in> set xs. f x = Some y)"
  by (induction xs) (auto simp: List.map_filter_simps split: option.splits)

lemma member_nodes_weight:
  assumes "(k, s) \<in> set (member_nodes v)"
  shows "weight s < size v"
proof -
  from assms obtain p sy kvs w where kvs: "v = JObj p sy kvs" "(k, w) \<in> set kvs" "sub_schema w = Some s"
    by (cases v) (auto simp: member_nodes_def map_filter_member)
  have "size w < size v" using kvs(2) unfolding kvs(1) by (induction kvs) auto
  with sub_schema_weight [OF kvs(3)] show ?thesis by simp
qed

lemma item_nodes_weight:
  assumes "s \<in> set (item_nodes v)"
  shows "weight s < size v"
proof -
  from assms obtain xs w where xs: "v = JArr xs" "w \<in> set xs" "sub_schema w = Some s"
    by (cases v) (auto simp: item_nodes_def map_filter_member)
  have "size w < size v" using xs(2) unfolding xs(1) by (induction xs) auto
  with sub_schema_weight [OF xs(3)] show ?thesis by simp
qed

lemmas node_weights = member_nodes_weight [THEN less_le_trans, OF _ prop_of_size]
  item_nodes_weight [THEN less_le_trans, OF _ prop_of_size] sub_schema_weight [THEN less_le_trans, OF _ prop_of_size]

lemma sub_nodes_weight: "(name, s) \<in> set (sub_nodes node) \<Longrightarrow> weight s < weight node"
  unfolding sub_nodes_def by (auto intro: node_weights split: option.splits)

function collectDefs :: "schema_object \<Rightarrow> (ustring \<times> schema_object) list \<Rightarrow> (ustring \<times> schema_object) list" where
  "collectDefs node out =
     foldl (\<lambda>acc (name, s). collectDefs s (case name of Some n \<Rightarrow> amap_set acc n s | None \<Rightarrow> acc)) out (sub_nodes node)"
  by pat_completeness auto
termination
  by (relation "measure (\<lambda>(node, out). weight node)") (auto dest: sub_nodes_weight)

declare collectDefs.simps [simp del]

text \<open>
  A reference that names a member of \<open>Object.prototype\<close> finds that member, which has no keyword of a schema. No definition is
  named \<open>__proto__\<close>.
\<close>

fun follow :: "nat \<Rightarrow> schema_object \<Rightarrow> (ustring \<times> schema_object) list \<Rightarrow> schema_object" where
  "follow 0 current defs = current"
| "follow (Suc hops) current defs =
     (case prop_of current ''$ref'' of
        JStr ref \<Rightarrow>
          (case map_of defs ref of
             None \<Rightarrow> if ref \<in> set object_prototype_names then [] else current
           | Some def \<Rightarrow> follow hops def defs)
      | _ \<Rightarrow> current)"

definition resolveRef :: "schema_object \<Rightarrow> (ustring \<times> schema_object) list \<Rightarrow> schema_object" where
  "resolveRef node defs = follow 64 node defs"

section \<open>Types and paths\<close>

definition typeList :: "schema_object \<Rightarrow> ustring list" where
  "typeList node =
     (case prop_of node ''type'' of
        JStr declared \<Rightarrow> [declared]
      | JArr declared \<Rightarrow> List.map_filter string_of declared
      | _ \<Rightarrow> [])"

definition matchesType :: "js \<Rightarrow> ustring \<Rightarrow> bool" where
  "matchesType v t =
     (if t = js_lit ''string'' then (case v of JStr _ \<Rightarrow> True | _ \<Rightarrow> False)
      else if t = js_lit ''number'' then (case v of JNum _ \<Rightarrow> True | _ \<Rightarrow> False)
      else if t = js_lit ''integer'' then (case v of JNum n \<Rightarrow> is_integer n | _ \<Rightarrow> False)
      else if t = js_lit ''boolean'' then (case v of JBool _ \<Rightarrow> True | _ \<Rightarrow> False)
      else if t = js_lit ''null'' then v = JNull
      else if t = js_lit ''array'' then (case v of JArr _ \<Rightarrow> True | _ \<Rightarrow> False)
      else if t = js_lit ''object'' then object_parts v \<noteq> None
      else True)"

definition pointerSegment :: "ustring \<Rightarrow> ustring" where
  "pointerSegment segment =
     concat (map (\<lambda>c. if c = 126 then js_lit ''~0'' else if c = 47 then js_lit ''~1'' else [c]) segment)"

definition childPath :: "ustring \<Rightarrow> ustring \<Rightarrow> ustring" where
  "childPath path segment = path @ js_lit ''/'' @ pointerSegment segment"

text \<open>
  \<open>new RegExp(pattern)\<close>. The pattern of \<open>Type.Record\<close> matches the texts without a line terminator, which a dot does
  not match.
\<close>

definition line_terminator :: "code_unit \<Rightarrow> bool" where
  "line_terminator c \<longleftrightarrow> c = 10 \<or> c = 13 \<or> c = 0x2028 \<or> c = 0x2029"

definition new_RegExp :: "regex_engine \<Rightarrow> ustring \<Rightarrow> schema_throw + (ustring \<Rightarrow> bool)" where
  "new_RegExp re pattern =
     (if pattern = js_lit ''^.*$'' then Inr (\<lambda>s. \<not> list_ex line_terminator s)
      else case re pattern of Some test \<Rightarrow> Inr test | None \<Rightarrow> Inl (InvalidPattern pattern))"

section \<open>Validation\<close>

definition violation :: "string \<Rightarrow> ustring \<Rightarrow> (ustring \<times> js) list \<Rightarrow> ustring \<Rightarrow> PiValidationError" where
  "violation keyword path params message =
     \<lparr>ve_keyword = js_lit keyword, ve_schemaPath = js_lit ''#'', ve_instancePath = path, ve_params = obj params,
      ve_message = message\<rparr>"

text \<open>Errors are pushed in the order of the parts; the first part that throws ends the call.\<close>

fun in_turn :: "validation list \<Rightarrow> validation" where
  "in_turn [] = Inr []"
| "in_turn (r # rs) = rbind r (\<lambda>es. rbind (in_turn rs) (\<lambda>es'. Inr (es @ es')))"

fun each_branch :: "('a \<Rightarrow> validation) \<Rightarrow> 'a list \<Rightarrow> schema_throw + PiValidationError list list" where
  "each_branch f [] = Inr []"
| "each_branch f (x # xs) = rbind (f x) (\<lambda>es. rbind (each_branch f xs) (\<lambda>ess. Inr (es # ess)))"

fun best_errors :: "PiValidationError list list \<Rightarrow> PiValidationError list option \<Rightarrow> PiValidationError list option" where
  "best_errors [] best = best"
| "best_errors (es # ess) best =
     best_errors ess
       (if es = [] then best
        else case best of None \<Rightarrow> Some es | Some b \<Rightarrow> if length es < length b then Some es else best)"

datatype union_keyword = AnyOf | OneOf

definition validateUnionBranches ::
  "(schema_object \<Rightarrow> js \<Rightarrow> ustring \<Rightarrow> validation) \<Rightarrow> union_keyword \<Rightarrow> js \<Rightarrow> js \<Rightarrow> ustring \<Rightarrow> validation" where
  "validateUnionBranches validate keyword branchesValue v path =
     (let branches = item_nodes branchesValue in
      if branches = [] then Inr []
      else rbind (each_branch (\<lambda>branch. validate branch v path) branches) (\<lambda>results.
        let passingIndexes = filter (\<lambda>i. results ! i = []) [0..<length results];
            params = fld ''passingSchemas'' (JArr (map nat_js passingIndexes))
        in Inr (case keyword of
             AnyOf \<Rightarrow>
               if passingIndexes \<noteq> [] then []
               else violation ''anyOf'' path params (js_lit ''must satisfy at least one schema in anyOf'')
                 # (case best_errors results None of Some best \<Rightarrow> best | None \<Rightarrow> [])
           | OneOf \<Rightarrow>
               if length passingIndexes = 1 then []
               else [violation ''oneOf'' path params
                       (js_lit ''must satisfy exactly one schema in oneOf, '' @ nat_text (length passingIndexes) @ js_lit '' matched'')])))"

definition const_errors :: "schema_object \<Rightarrow> js \<Rightarrow> ustring \<Rightarrow> PiValidationError list" where
  "const_errors target v path =
     (if prop_of target ''const'' \<noteq> JUndef \<and> \<not> deepEqual v (prop_of target ''const'')
      then [violation ''const'' path (fld ''allowedValue'' (prop_of target ''const'')) (js_lit ''must be equal to constant'')]
      else [])"

definition enum_errors :: "schema_object \<Rightarrow> js \<Rightarrow> ustring \<Rightarrow> PiValidationError list" where
  "enum_errors target v path =
     (case prop_of target ''enum'' of
        JArr allowed \<Rightarrow>
          if list_ex (\<lambda>item. deepEqual item v) allowed then []
          else [violation ''enum'' path (fld ''allowedValues'' (JArr allowed)) (js_lit ''must be equal to one of the allowed values'')]
      | _ \<Rightarrow> [])"

definition type_errors :: "schema_object \<Rightarrow> js \<Rightarrow> ustring \<Rightarrow> PiValidationError list" where
  "type_errors target v path =
     (let declaredTypes = typeList target in
      if declaredTypes \<noteq> [] \<and> \<not> list_ex (matchesType v) declaredTypes
      then [violation ''type'' path (fld ''type'' (strings_js declaredTypes)) (js_lit ''must be '' @ join (js_lit '' | '') declaredTypes)]
      else [])"

text \<open>A numeric limit of the node: \<open>bad\<close> says which limits the value breaks.\<close>

definition limit_errors ::
  "schema_object \<Rightarrow> string \<Rightarrow> (jsnum \<Rightarrow> bool) \<Rightarrow> (jsnum \<Rightarrow> (ustring \<times> js) list) \<Rightarrow> string \<Rightarrow> string \<Rightarrow> ustring \<Rightarrow> PiValidationError list" where
  "limit_errors target keyword bad params before after path =
     (case prop_of target keyword of
        JNum limit \<Rightarrow>
          if bad limit then [violation keyword path (params limit) (js_lit before @ number_text limit @ js_lit after)] else []
      | _ \<Rightarrow> [])"

definition count_limit :: "jsnum \<Rightarrow> (ustring \<times> js) list" where
  "count_limit limit = fld ''limit'' (JNum limit)"

definition comparison_limit :: "string \<Rightarrow> jsnum \<Rightarrow> (ustring \<times> js) list" where
  "comparison_limit sign limit = fld ''comparison'' (lit sign) @ fld ''limit'' (JNum limit)"

definition length_num :: "'a list \<Rightarrow> jsnum" where
  "length_num xs = NInt (int (length xs))"

definition string_errors :: "regex_engine \<Rightarrow> schema_object \<Rightarrow> ustring \<Rightarrow> ustring \<Rightarrow> validation" where
  "string_errors re target s path =
     in_turn
       [Inr (limit_errors target ''minLength'' (num_less (length_num s)) count_limit ''must not have fewer than '' '' characters'' path),
        Inr (limit_errors target ''maxLength'' (\<lambda>m. num_less m (length_num s)) count_limit ''must not have more than '' '' characters'' path),
        (case prop_of target ''pattern'' of
           JStr pattern \<Rightarrow>
             rbind (new_RegExp re pattern) (\<lambda>test.
             Inr (if test s then []
                  else [violation ''pattern'' path (fld ''pattern'' (JStr pattern))
                          (js_lit ''must match pattern '' @ [34] @ pattern @ [34])]))
         | _ \<Rightarrow> Inr [])]"

definition number_errors :: "schema_object \<Rightarrow> jsnum \<Rightarrow> ustring \<Rightarrow> PiValidationError list" where
  "number_errors target n path =
     limit_errors target ''minimum'' (num_less n) (comparison_limit ''>='') ''must be >= '' [] path @
     limit_errors target ''maximum'' (\<lambda>m. num_less m n) (comparison_limit ''<='') ''must be <= '' [] path @
     limit_errors target ''multipleOf'' (\<lambda>m. \<not> num_eq m (NInt 0) \<and> \<not> is_integer (num_div n m))
       (\<lambda>m. fld ''multipleOf'' (JNum m)) ''must be a multiple of '' [] path"

definition array_errors ::
  "(schema_object \<Rightarrow> js \<Rightarrow> ustring \<Rightarrow> validation) \<Rightarrow> schema_object \<Rightarrow> js list \<Rightarrow> ustring \<Rightarrow> validation" where
  "array_errors validate target xs path =
     in_turn
       [Inr (limit_errors target ''minItems'' (num_less (length_num xs)) count_limit ''must not have fewer than '' '' items'' path),
        Inr (limit_errors target ''maxItems'' (\<lambda>m. num_less m (length_num xs)) count_limit ''must not have more than '' '' items'' path),
        (case sub_schema (prop_of target ''items'') of
           Some item \<Rightarrow> in_turn (map (\<lambda>(i, x). validate item x (childPath path (nat_text i))) (enumerate 0 xs))
         | None \<Rightarrow>
             in_turn (map (\<lambda>(i, x, sub). case sub_schema sub of
                 None \<Rightarrow> Inr []
               | Some item \<Rightarrow> validate item x (childPath path (nat_text i)))
               (enumerate 0 (zip xs (items_of (prop_of target ''items''))))))]"

definition required_errors :: "schema_object \<Rightarrow> proto \<Rightarrow> (ustring \<times> js) list \<Rightarrow> ustring \<Rightarrow> PiValidationError list" where
  "required_errors target p kvs path =
     (let missing = filter (\<lambda>name. lookup p kvs name = None) (List.map_filter string_of (items_of (prop_of target ''required''))) in
      if missing = [] then []
      else [violation ''required'' path (fld ''requiredProperties'' (strings_js missing))
              (js_lit ''must have required properties '' @ join (js_lit '' '') missing)])"

definition property_errors ::
  "(schema_object \<Rightarrow> js \<Rightarrow> ustring \<Rightarrow> validation) \<Rightarrow> schema_object \<Rightarrow> proto \<Rightarrow> (ustring \<times> js) list \<Rightarrow> ustring \<Rightarrow> validation" where
  "property_errors validate target p kvs path =
     in_turn (map (\<lambda>(name, sub). case lookup p kvs name of
         None \<Rightarrow> Inr []
       | Some x \<Rightarrow> validate sub x (childPath path name)) (member_nodes (prop_of target ''properties'')))"

fun compile_patterns ::
  "regex_engine \<Rightarrow> (ustring \<times> schema_object) list \<Rightarrow> schema_throw + ((ustring \<Rightarrow> bool) \<times> schema_object) list" where
  "compile_patterns re [] = Inr []"
| "compile_patterns re ((pattern, sub) # rest) =
     rbind (new_RegExp re pattern) (\<lambda>regex. rbind (compile_patterns re rest) (\<lambda>entries. Inr ((regex, sub) # entries)))"

definition property_names :: "schema_object \<Rightarrow> ustring list" where
  "property_names target = (case sub_schema (prop_of target ''properties'') of Some ps \<Rightarrow> map fst ps | None \<Rightarrow> [])"

definition matching :: "((ustring \<Rightarrow> bool) \<times> schema_object) list \<Rightarrow> ustring \<Rightarrow> schema_object list" where
  "matching patterns key = map snd (filter (\<lambda>(regex, _). regex key) patterns)"

definition extra_errors ::
  "(schema_object \<Rightarrow> js \<Rightarrow> ustring \<Rightarrow> validation) \<Rightarrow> schema_object \<Rightarrow> (ustring \<times> js) list \<Rightarrow> ustring \<Rightarrow> validation" where
  "extra_errors validate target extra path =
     (if extra = [] then Inr []
      else if prop_of target ''additionalProperties'' = JBool False
      then Inr [violation ''additionalProperties'' path (fld ''additionalProperties'' (strings_js (sort (map fst extra))))
                  (js_lit ''must not have additional properties'')]
      else case sub_schema (prop_of target ''additionalProperties'') of
          Some sub \<Rightarrow> in_turn (map (\<lambda>(key, x). validate sub x (childPath path key)) extra)
        | None \<Rightarrow> Inr [])"

definition object_errors ::
  "regex_engine \<Rightarrow> (schema_object \<Rightarrow> js \<Rightarrow> ustring \<Rightarrow> validation) \<Rightarrow> schema_object \<Rightarrow> proto \<Rightarrow> (ustring \<times> js) list \<Rightarrow> ustring
    \<Rightarrow> validation" where
  "object_errors re validate target p kvs path =
     in_turn
       [Inr (required_errors target p kvs path),
        property_errors validate target p kvs path,
        rbind (compile_patterns re (member_nodes (prop_of target ''patternProperties''))) (\<lambda>patterns.
          let others = filter (\<lambda>(key, _). key \<notin> set (property_names target)) kvs
          in in_turn
               [in_turn (map (\<lambda>(key, x). in_turn (map (\<lambda>sub. validate sub x (childPath path key)) (matching patterns key))) others),
                extra_errors validate target (filter (\<lambda>(key, _). matching patterns key = []) others) path])]"

definition value_errors ::
  "regex_engine \<Rightarrow> (schema_object \<Rightarrow> js \<Rightarrow> ustring \<Rightarrow> validation) \<Rightarrow> schema_object \<Rightarrow> js \<Rightarrow> ustring \<Rightarrow> validation" where
  "value_errors re validate target v path =
     in_turn
       [in_turn (map (\<lambda>item. validate item v path) (item_nodes (prop_of target ''allOf''))),
        Inr (const_errors target v path),
        Inr (enum_errors target v path),
        Inr (type_errors target v path),
        (case v of
           JStr s \<Rightarrow> string_errors re target s path
         | JNum n \<Rightarrow> Inr (number_errors target n path)
         | JArr xs \<Rightarrow> array_errors validate target xs path
         | _ \<Rightarrow> (case object_parts v of Some (p, kvs) \<Rightarrow> object_errors re validate target p kvs path | None \<Rightarrow> Inr []))]"

fun is_array :: "js \<Rightarrow> bool" where
  "is_array (JArr _) = True"
| "is_array _ = False"

fun validateNode ::
  "regex_engine \<Rightarrow> (ustring \<times> schema_object) list \<Rightarrow> nat \<Rightarrow> schema_object \<Rightarrow> js \<Rightarrow> ustring \<Rightarrow> validation" where
  "validateNode re defs 0 node v path = Inl StackExhausted"
| "validateNode re defs (Suc stack) node v path =
     (let target = resolveRef node defs; validate = validateNode re defs stack in
      if is_array (prop_of target ''anyOf'') then validateUnionBranches validate AnyOf (prop_of target ''anyOf'') v path
      else if is_array (prop_of target ''oneOf'') then validateUnionBranches validate OneOf (prop_of target ''oneOf'') v path
      else value_errors re validate target v path)"

section \<open>Compiled schemas\<close>

definition Errors :: "regex_engine \<Rightarrow> nat \<Rightarrow> schema_object \<Rightarrow> js \<Rightarrow> validation" where
  "Errors re stack schema v = validateNode re (collectDefs schema []) stack schema v []"

definition Check :: "regex_engine \<Rightarrow> nat \<Rightarrow> schema_object \<Rightarrow> js \<Rightarrow> schema_throw + bool" where
  "Check re stack schema v = rbind (Errors re stack schema v) (\<lambda>errors. Inr (errors = []))"

end
