(* ===== verification/Schema_Types.thy ===== *)
theory Schema_Types
  imports Schema
begin

text \<open>
  The schema builders of \<^verbatim>\<open>pi/packages/ai/src/schema.ts\<close> and the type a built schema stands for. A constructor of
  \<open>pi_schema\<close> is a call of the builder of that name, with the options it was given; \<open>build\<close> gives the object the call returns.
  \<open>Type.Unsafe\<close> returns its argument. \<open>conforms\<close> is the type \<open>Static\<close> derives from the schema together with the
  limits of the options; the validator decides it.
\<close>

section \<open>Builders\<close>

datatype literal = LString ustring | LNumber jsnum | LBoolean bool

datatype pi_schema =
    PiString (ps_description: "ustring option") (ps_minLength: "jsnum option") (ps_maxLength: "jsnum option") (ps_pattern: "ustring option")
  | PiNumber "ustring option" "jsnum option" "jsnum option" "jsnum option"  \<comment> \<open>\<open>description\<close>, \<open>minimum\<close>, \<open>maximum\<close>, \<open>multipleOf\<close>\<close>
  | PiInteger "ustring option" "jsnum option" "jsnum option" "jsnum option"
  | PiBoolean "ustring option"
  | PiNull "ustring option"
  | PiUnknown "ustring option"
  | PiLiteral literal "ustring option"
  | PiObject "(ustring \<times> pi_schema) list" "ustring option" "(bool + pi_schema) option"
      \<comment> \<open>\<open>properties\<close>, \<open>description\<close>, \<open>additionalProperties\<close>\<close>
  | PiArray pi_schema "ustring option" "jsnum option" "jsnum option"  \<comment> \<open>\<open>items\<close>, \<open>description\<close>, \<open>minItems\<close>, \<open>maxItems\<close>\<close>
  | PiUnion "pi_schema list" "ustring option"
  | PiOptional pi_schema
  | PiRecord pi_schema "ustring option" "(bool + pi_schema) option"
  | PiRef ustring "ustring option"
  | PiCyclic "(ustring \<times> pi_schema) list" ustring "ustring option"

fun undef_or :: "('a \<Rightarrow> js) \<Rightarrow> 'a option \<Rightarrow> js" where
  "undef_or f None = JUndef"
| "undef_or f (Some x) = f x"

definition describe :: "ustring option \<Rightarrow> (ustring \<times> js) list" where
  "describe description = fld ''description'' (undef_or JStr description)"

definition OPTIONAL_KEY :: ustring where
  "OPTIONAL_KEY = js_lit ''~optional''"

definition clean_property :: "js \<Rightarrow> js" where
  "clean_property prop =
     (case sub_schema prop of
        Some kvs \<Rightarrow> (case map_of kvs OPTIONAL_KEY of Some sub \<Rightarrow> sub | None \<Rightarrow> prop)
      | None \<Rightarrow> prop)"

definition is_required :: "js \<Rightarrow> bool" where
  "is_required prop \<longleftrightarrow> (case sub_schema prop of Some kvs \<Rightarrow> map_of kvs OPTIONAL_KEY = None | None \<Rightarrow> True)"

definition Type_Object :: "(ustring \<times> js) list \<Rightarrow> ustring option \<Rightarrow> js \<Rightarrow> js" where
  "Type_Object props description additional =
     (let required = map fst (filter (\<lambda>(_, prop). is_required prop) props) in
      obj (fld ''type'' (lit ''object'') @
           fld ''required'' (if required = [] then JUndef else strings_js required) @
           fld ''properties'' (obj (map (\<lambda>(key, prop). (key, clean_property prop)) props)) @
           describe description @ fld ''additionalProperties'' additional))"

fun Type_Literal :: "literal \<Rightarrow> ustring option \<Rightarrow> js" where
  "Type_Literal (LString s) description = obj (fld ''type'' (lit ''string'') @ fld ''const'' (JStr s) @ describe description)"
| "Type_Literal (LNumber n) description = obj (fld ''type'' (lit ''number'') @ fld ''const'' (JNum n) @ describe description)"
| "Type_Literal (LBoolean b) description = obj (fld ''type'' (lit ''boolean'') @ fld ''const'' (JBool b) @ describe description)"

definition number_options :: "jsnum option \<Rightarrow> jsnum option \<Rightarrow> jsnum option \<Rightarrow> (ustring \<times> js) list" where
  "number_options minimum maximum multipleOf =
     fld ''minimum'' (undef_or JNum minimum) @ fld ''maximum'' (undef_or JNum maximum) @ fld ''multipleOf'' (undef_or JNum multipleOf)"

text \<open>\<open>{ ...schema, $id: key }\<close>\<close>

definition with_id :: "ustring \<Rightarrow> schema_object \<Rightarrow> schema_object" where
  "with_id key node = amap_set node (js_lit ''$id'') (JStr key)"

fun build :: "pi_schema \<Rightarrow> js" where
  "build (PiString description minLength maxLength pattern) =
     obj (fld ''type'' (lit ''string'') @ describe description @ fld ''minLength'' (undef_or JNum minLength) @
          fld ''maxLength'' (undef_or JNum maxLength) @ fld ''pattern'' (undef_or JStr pattern))"
| "build (PiNumber description minimum maximum multipleOf) =
     obj (fld ''type'' (lit ''number'') @ describe description @ number_options minimum maximum multipleOf)"
| "build (PiInteger description minimum maximum multipleOf) =
     obj (fld ''type'' (lit ''integer'') @ describe description @ number_options minimum maximum multipleOf)"
| "build (PiBoolean description) = obj (fld ''type'' (lit ''boolean'') @ describe description)"
| "build (PiNull description) = obj (fld ''type'' (lit ''null'') @ describe description)"
| "build (PiUnknown description) = obj (describe description)"
| "build (PiLiteral literal description) = Type_Literal literal description"
| "build (PiObject properties description additional) =
     Type_Object (map (\<lambda>(key, prop). (key, build prop)) properties) description
       (case additional of None \<Rightarrow> JUndef | Some (Inl b) \<Rightarrow> JBool b | Some (Inr s) \<Rightarrow> build s)"
| "build (PiArray items description minItems maxItems) =
     obj (fld ''type'' (lit ''array'') @ fld ''items'' (build items) @ describe description @
          fld ''minItems'' (undef_or JNum minItems) @ fld ''maxItems'' (undef_or JNum maxItems))"
| "build (PiUnion anyOf description) = obj (fld ''anyOf'' (JArr (map build anyOf)) @ describe description)"
| "build (PiOptional sub) = obj [(OPTIONAL_KEY, build sub)]"
| "build (PiRecord s description additional) =
     obj (fld ''type'' (lit ''object'') @ fld ''patternProperties'' (obj (fld ''^.*$'' (build s))) @ describe description @
          fld ''additionalProperties'' (case additional of None \<Rightarrow> JUndef | Some (Inl b) \<Rightarrow> JBool b | Some (Inr s) \<Rightarrow> build s))"
| "build (PiRef ref description) = obj (fld ''$ref'' (JStr ref) @ describe description)"
| "build (PiCyclic defs ref description) =
     obj (fld ''$defs'' (obj (map (\<lambda>(key, s). (key, obj (with_id key (case sub_schema (build s) of Some kvs \<Rightarrow> kvs | None \<Rightarrow> [])))) defs)) @
          fld ''$ref'' (JStr ref) @ describe description)"

definition node_of :: "pi_schema \<Rightarrow> schema_object" where
  "node_of s = (case sub_schema (build s) of Some kvs \<Rightarrow> kvs | None \<Rightarrow> [])"

lemma build_node: "build s = obj (node_of s)"
proof (cases s)
  case (PiLiteral l d)
  then show ?thesis by (cases l) (simp_all add: node_of_def obj_def)
qed (simp_all add: node_of_def obj_def Type_Object_def Let_def)

fun additional_js :: "(bool + pi_schema) option \<Rightarrow> js" where
  "additional_js None = JUndef"
| "additional_js (Some (Inl b)) = JBool b"
| "additional_js (Some (Inr s)) = build s"

lemma additional_case [simp]:
  "(case additional of None \<Rightarrow> JUndef | Some (Inl b) \<Rightarrow> JBool b | Some (Inr s) \<Rightarrow> build s) = additional_js additional"
  by (auto split: option.splits sum.splits)

fun literal_type :: "literal \<Rightarrow> string" where
  "literal_type (LString _) = ''string''"
| "literal_type (LNumber _) = ''number''"
| "literal_type (LBoolean _) = ''boolean''"

fun literal_js :: "literal \<Rightarrow> js" where
  "literal_js (LString s) = JStr s"
| "literal_js (LNumber n) = JNum n"
| "literal_js (LBoolean b) = JBool b"

lemma Type_Literal_fields: "Type_Literal l d = obj (fld ''type'' (lit (literal_type l)) @ fld ''const'' (literal_js l) @ describe d)"
  by (cases l) simp_all

definition required_names :: "(ustring \<times> pi_schema) list \<Rightarrow> ustring list" where
  "required_names props = map fst (filter (\<lambda>prop. is_required (build (snd prop))) props)"

lemma node_of_simps [simp]:
  "node_of (PiString d least most pattern) = fld ''type'' (lit ''string'') @ describe d @ fld ''minLength'' (undef_or JNum least) @
     fld ''maxLength'' (undef_or JNum most) @ fld ''pattern'' (undef_or JStr pattern)"
  "node_of (PiNumber d least most step) = fld ''type'' (lit ''number'') @ describe d @ number_options least most step"
  "node_of (PiInteger d least most step) = fld ''type'' (lit ''integer'') @ describe d @ number_options least most step"
  "node_of (PiBoolean d) = fld ''type'' (lit ''boolean'') @ describe d"
  "node_of (PiNull d) = fld ''type'' (lit ''null'') @ describe d"
  "node_of (PiUnknown d) = describe d"
  "node_of (PiLiteral l d) = fld ''type'' (lit (literal_type l)) @ fld ''const'' (literal_js l) @ describe d"
  "node_of (PiObject props d additional) = fld ''type'' (lit ''object'') @
     fld ''required'' (if required_names props = [] then JUndef else strings_js (required_names props)) @
     fld ''properties'' (obj (map (\<lambda>(k, s). (k, clean_property (build s))) props)) @ describe d @
     fld ''additionalProperties'' (additional_js additional)"
  "node_of (PiArray s d least most) = fld ''type'' (lit ''array'') @ fld ''items'' (build s) @ describe d @
     fld ''minItems'' (undef_or JNum least) @ fld ''maxItems'' (undef_or JNum most)"
  "node_of (PiUnion ss d) = fld ''anyOf'' (JArr (map build ss)) @ describe d"
  "node_of (PiOptional s) = fld ''~optional'' (build s)"
  "node_of (PiRecord s d additional) = fld ''type'' (lit ''object'') @ fld ''patternProperties'' (obj (fld ''^.*$'' (build s))) @
     describe d @ fld ''additionalProperties'' (additional_js additional)"
  "node_of (PiRef r d) = fld ''$ref'' (JStr r) @ describe d"
  "node_of (PiCyclic ds r d) = fld ''$defs'' (obj (map (\<lambda>(k, s). (k, obj (with_id k (node_of s)))) ds)) @ fld ''$ref'' (JStr r) @ describe d"
  by (simp_all add: node_of_def [abs_def] obj_def Type_Object_def Type_Literal_fields required_names_def filter_map comp_def split_beta
      Let_def OPTIONAL_KEY_def fld_def)

lemma prop_of_describe [simp]:
  "prop_of (describe d) k = (if k = ''description'' then undef_or JStr d else JUndef)"
  "prop_of (describe d @ r) k = (if k = ''description'' then undef_or JStr d else prop_of r k)"
  by (simp_all add: describe_def)

lemma prop_of_number_options [simp]:
  "prop_of (number_options least most step) k =
     (if k = ''minimum'' then undef_or JNum least else if k = ''maximum'' then undef_or JNum most
      else if k = ''multipleOf'' then undef_or JNum step else JUndef)"
  by (simp add: number_options_def)

section \<open>The type of a schema\<close>

fun strip :: "pi_schema \<Rightarrow> pi_schema" where
  "strip (PiOptional s) = s"
| "strip s = s"

fun is_optional :: "pi_schema \<Rightarrow> bool" where
  "is_optional (PiOptional s) = True"
| "is_optional s = False"

text \<open>A bound that is not given holds.\<close>

definition bound :: "(jsnum \<Rightarrow> bool) \<Rightarrow> jsnum option \<Rightarrow> bool" where
  "bound bad limit \<longleftrightarrow> (\<forall>m. limit = Some m \<longrightarrow> \<not> bad m)"

definition number_within :: "jsnum option \<Rightarrow> jsnum option \<Rightarrow> jsnum option \<Rightarrow> jsnum \<Rightarrow> bool" where
  "number_within minimum maximum multipleOf n \<longleftrightarrow>
     bound (num_less n) minimum \<and> bound (\<lambda>m. num_less m n) maximum \<and>
     bound (\<lambda>m. \<not> num_eq m (NInt 0) \<and> \<not> is_integer (num_div n m)) multipleOf"

definition size_within :: "jsnum option \<Rightarrow> jsnum option \<Rightarrow> 'a list \<Rightarrow> bool" where
  "size_within least most xs \<longleftrightarrow> bound (num_less (length_num xs)) least \<and> bound (\<lambda>m. num_less m (length_num xs)) most"

definition matches :: "regex_engine \<Rightarrow> ustring option \<Rightarrow> ustring \<Rightarrow> bool" where
  "matches re pattern s \<longleftrightarrow> (\<forall>pt test. pattern = Some pt \<longrightarrow> new_RegExp re pt = Inr test \<longrightarrow> test s)"

fun literal_value :: "literal \<Rightarrow> js \<Rightarrow> bool" where
  "literal_value (LString s) v = (v = JStr s)"
| "literal_value (LBoolean b) v = (v = JBool b)"
| "literal_value (LNumber n) v = (\<exists>k. v = JNum k \<and> num_eq k n)"

inductive conforms :: "regex_engine \<Rightarrow> (ustring \<Rightarrow> pi_schema option) \<Rightarrow> pi_schema \<Rightarrow> js \<Rightarrow> bool"
  for re :: regex_engine and defs :: "ustring \<Rightarrow> pi_schema option" where
  conforms_string: "size_within least most s \<Longrightarrow> matches re pattern s \<Longrightarrow> conforms re defs (PiString d least most pattern) (JStr s)"
| conforms_number: "number_within least most step n \<Longrightarrow> conforms re defs (PiNumber d least most step) (JNum n)"
| conforms_integer: "is_integer n \<Longrightarrow> number_within least most step n \<Longrightarrow> conforms re defs (PiInteger d least most step) (JNum n)"
| conforms_boolean: "conforms re defs (PiBoolean d) (JBool b)"
| conforms_null: "conforms re defs (PiNull d) JNull"
| conforms_unknown: "conforms re defs (PiUnknown d) v"
| conforms_literal: "literal_value l v \<Longrightarrow> conforms re defs (PiLiteral l d) v"
| conforms_object:
    "object_parts v = Some (p, kvs) \<Longrightarrow>
     \<forall>(k, s) \<in> set props. (map_of kvs k = None \<longrightarrow> is_optional s) \<and> (\<forall>x. map_of kvs k = Some x \<longrightarrow> conforms re defs (strip s) x) \<Longrightarrow>
     additional = Some (Inl False) \<longrightarrow> fst ` set kvs \<subseteq> fst ` set props \<Longrightarrow>
     \<forall>t. additional = Some (Inr t) \<longrightarrow> (\<forall>(k, x) \<in> set kvs. k \<notin> fst ` set props \<longrightarrow> conforms re defs t x) \<Longrightarrow>
     conforms re defs (PiObject props d additional) v"
| conforms_array: "size_within least most xs \<Longrightarrow> \<forall>x \<in> set xs. conforms re defs s x \<Longrightarrow> conforms re defs (PiArray s d least most) (JArr xs)"
| conforms_union: "ss = [] \<or> (\<exists>s \<in> set ss. conforms re defs s v) \<Longrightarrow> conforms re defs (PiUnion ss d) v"
| conforms_optional: "conforms re defs (PiOptional s) v"
| conforms_record:
    "object_parts v = Some (p, kvs) \<Longrightarrow>
     \<forall>(k, x) \<in> set kvs. \<not> list_ex line_terminator k \<longrightarrow> conforms re defs s x \<Longrightarrow>
     additional = Some (Inl False) \<longrightarrow> (\<forall>k \<in> fst ` set kvs. \<not> list_ex line_terminator k) \<Longrightarrow>
     \<forall>t. additional = Some (Inr t) \<longrightarrow> (\<forall>(k, x) \<in> set kvs. list_ex line_terminator k \<longrightarrow> conforms re defs t x) \<Longrightarrow>
     conforms re defs (PiRecord s d additional) v"
| conforms_ref: "\<forall>s. defs r = Some s \<longrightarrow> conforms re defs s v \<Longrightarrow> conforms re defs (PiRef r d) v"
| conforms_cyclic: "\<forall>s. defs r = Some s \<longrightarrow> conforms re defs s v \<Longrightarrow> conforms re defs (PiCyclic ds r d) v"

inductive_simps conforms_simps [simp]:
  "conforms re defs (PiString d least most pattern) v"
  "conforms re defs (PiNumber d least most step) v"
  "conforms re defs (PiInteger d least most step) v"
  "conforms re defs (PiBoolean d) v"
  "conforms re defs (PiNull d) v"
  "conforms re defs (PiUnknown d) v"
  "conforms re defs (PiLiteral l d) v"
  "conforms re defs (PiArray s d least most) v"
  "conforms re defs (PiUnion ss d) v"
  "conforms re defs (PiOptional s) v"
  "conforms re defs (PiRef r d) v"
  "conforms re defs (PiCyclic ds r d) v"

inductive_simps conforms_object_iff: "conforms re defs (PiObject props d additional) v"
inductive_simps conforms_record_iff: "conforms re defs (PiRecord s d additional) v"

text \<open>
  The schemas the statement is about: patterns are patterns, properties are not named like a member of \<open>Object.prototype\<close>
  (which \<open>in\<close> finds on every object). A definition does not refer to another at its top, also not from a union.
\<close>

fun wf_schema :: "regex_engine \<Rightarrow> pi_schema \<Rightarrow> bool" where
  "wf_schema re (PiString d least most pattern) = (\<forall>pt. pattern = Some pt \<longrightarrow> (\<exists>test. new_RegExp re pt = Inr test))"
| "wf_schema re (PiObject props d additional) =
     (list_all (\<lambda>(k, s). k \<notin> set object_prototype_names \<and> wf_schema re s) props \<and>
      (case additional of Some (Inr t) \<Rightarrow> wf_schema re t | _ \<Rightarrow> True))"
| "wf_schema re (PiArray s d least most) = wf_schema re s"
| "wf_schema re (PiUnion ss d) = list_all (wf_schema re) ss"
| "wf_schema re (PiOptional s) = wf_schema re s"
| "wf_schema re (PiRecord s d additional) =
     (wf_schema re s \<and> (case additional of Some (Inr t) \<Rightarrow> wf_schema re t | _ \<Rightarrow> True))"
| "wf_schema re (PiCyclic ds r d) = list_all (\<lambda>(k, s). wf_schema re s) ds"
| "wf_schema re s = True"

fun flat :: "pi_schema \<Rightarrow> bool" where
  "flat (PiUnion ss d) = list_all flat ss"
| "flat (PiRef r d) = False"
| "flat (PiCyclic ds r d) = False"
| "flat s = True"

lemma wf_strip: "wf_schema re s \<Longrightarrow> wf_schema re (strip s)"
  by (cases s) simp_all

section \<open>Deciding\<close>

text \<open>A validation that does not throw and reports no error exactly if \<open>b\<close>.\<close>

definition decides :: "validation \<Rightarrow> bool \<Rightarrow> bool" where
  "decides r b \<longleftrightarrow> (\<exists>es. r = Inr es \<and> (es = [] \<longleftrightarrow> b))"

named_theorems deciding

lemma decides_Inr [deciding]: "decides (Inr es) (es = [])"
  by (simp add: decides_def)

lemma decides_none [deciding]: "decides (in_turn []) True"
  by (simp add: decides_def)

lemma decides_in_turn [deciding]: "decides r b \<Longrightarrow> decides (in_turn rs) c \<Longrightarrow> decides (in_turn (r # rs)) (b \<and> c)"
  by (auto simp: decides_def)

lemma decides_map: "(\<And>x. x \<in> set xs \<Longrightarrow> decides (f x) (P x)) \<Longrightarrow> decides (in_turn (map f xs)) (\<forall>x \<in> set xs. P x)"
proof (induction xs)
  case (Cons x xs)
  then have "decides (in_turn (f x # map f xs)) (P x \<and> (\<forall>x \<in> set xs. P x))" by (intro decides_in_turn) auto
  then show ?case by simp
qed (simp add: decides_def)

lemma decides_cong: "decides r b \<Longrightarrow> b = c \<Longrightarrow> decides r c"
  by simp

lemma each_branch_decides:
  assumes "\<And>x. x \<in> set xs \<Longrightarrow> decides (f x) (P x)"
  shows "\<exists>ess. each_branch f xs = Inr ess \<and> length ess = length xs \<and> (\<forall>i < length xs. ess ! i = [] \<longleftrightarrow> P (xs ! i))"
  using assms
proof (induction xs)
  case (Cons x xs)
  then obtain ess where ess: "each_branch f xs = Inr ess" "length ess = length xs" "\<forall>i < length xs. ess ! i = [] \<longleftrightarrow> P (xs ! i)"
    by auto
  from Cons.prems [of x] obtain es where "f x = Inr es" "es = [] \<longleftrightarrow> P x" by (auto simp: decides_def)
  with ess show ?case by (auto intro!: exI [of _ "es # ess"] simp: nth_Cons split: nat.splits)
qed simp

lemma each_branch_map: "each_branch f (map g xs) = each_branch (\<lambda>x. f (g x)) xs"
  by (induction xs) simp_all

lemma decides_any:
  assumes nodes: "item_nodes branches = map f xs" and "\<And>x. x \<in> set xs \<Longrightarrow> decides (validate (f x) v path) (P x)"
  shows "decides (validateUnionBranches validate AnyOf branches v path) (xs = [] \<or> (\<exists>x \<in> set xs. P x))"
proof -
  from each_branch_decides [of xs "\<lambda>x. validate (f x) v path" P] assms(2)
  obtain ess where "each_branch (\<lambda>x. validate (f x) v path) xs = Inr ess"
    "length ess = length xs" "\<forall>i < length xs. ess ! i = [] \<longleftrightarrow> P (xs ! i)"
    by auto
  then show ?thesis
    by (auto simp: decides_def validateUnionBranches_def nodes each_branch_map Let_def filter_empty_conv Bex_def in_set_conv_nth)
qed

section \<open>Nodes of built schemas\<close>

lemma sub_schema_build [simp]: "sub_schema (build s) = Some (node_of s)"
  by (subst build_node) (simp add: obj_def)

lemma sub_schema_obj [simp]: "sub_schema (obj kvs) = Some kvs"
  by (simp add: obj_def)

lemma map_filter_map: "List.map_filter f (map g xs) = List.map_filter (\<lambda>x. f (g x)) xs"
  by (induction xs) (simp_all add: List.map_filter_simps split: option.splits)

lemma map_filter_Some: "List.map_filter (\<lambda>x. Some (f x)) xs = map f xs"
  by (induction xs) (simp_all add: List.map_filter_simps)

lemma item_nodes_build [simp]: "item_nodes (JArr (map build ss)) = map node_of ss"
  by (simp add: item_nodes_def map_filter_map map_filter_Some)

lemma member_nodes_build [simp]: "member_nodes (obj (map (\<lambda>(k, s). (k, build (f s))) kvs)) = map (\<lambda>(k, s). (k, node_of (f s))) kvs"
  by (simp add: member_nodes_def map_filter_map split_beta map_filter_Some)

lemma item_nodes_other [simp]: "item_nodes JUndef = []" "member_nodes JUndef = []"
  by (simp_all add: item_nodes_def member_nodes_def)

lemma optional_key_node: "map_of (node_of s) OPTIONAL_KEY = (case s of PiOptional t \<Rightarrow> Some (build t) | _ \<Rightarrow> None)"
  by (cases s) (simp_all add: fld_def describe_def OPTIONAL_KEY_def number_options_def del: build.simps)

lemma clean_build [simp]: "clean_property (build s) = build (strip s)"
  by (cases s) (simp_all add: clean_property_def optional_key_node del: build.simps node_of_simps)

lemma is_required_build [simp]: "is_required (build s) \<longleftrightarrow> \<not> is_optional s"
  by (cases s) (simp_all add: is_required_def optional_key_node del: build.simps node_of_simps)


lemma required_names_set: "set (required_names props) = {k. \<exists>s. (k, s) \<in> set props \<and> \<not> is_optional s}"
  by (force simp: required_names_def)

lemma required_items [simp]:
  "List.map_filter string_of (items_of (if ks = [] then JUndef else strings_js ks)) = ks"
  by (simp add: strings_js_def map_filter_map map_filter_Some List.map_filter_simps)

lemma property_nodes [simp]:
  "member_nodes (obj (map (\<lambda>(k, s). (k, build (strip s))) props)) = map (\<lambda>(k, s). (k, node_of (strip s))) props"
  using member_nodes_build [of strip props] by simp

section \<open>The parts of a node\<close>

lemma limit_decides:
  "prop_of target keyword = undef_or JNum limit \<Longrightarrow> limit_errors target keyword bad params before after path = [] \<longleftrightarrow> bound bad limit"
  by (cases limit) (auto simp: limit_errors_def bound_def)

lemma string_decides:
  assumes "prop_of target ''minLength'' = undef_or JNum least" "prop_of target ''maxLength'' = undef_or JNum most"
    and "prop_of target ''pattern'' = undef_or JStr pattern" "\<forall>pt. pattern = Some pt \<longrightarrow> (\<exists>test. new_RegExp re pt = Inr test)"
  shows "decides (string_errors re target s path) (size_within least most s \<and> matches re pattern s)"
  using assms
  by (cases pattern) (auto simp: string_errors_def decides_def size_within_def matches_def limit_decides)

lemma number_decides:
  assumes "prop_of target ''minimum'' = undef_or JNum least" "prop_of target ''maximum'' = undef_or JNum most"
    and "prop_of target ''multipleOf'' = undef_or JNum step"
  shows "number_errors target n path = [] \<longleftrightarrow> number_within least most step n"
  using assms by (simp add: number_errors_def number_within_def limit_decides)

lemma array_decides:
  assumes "prop_of target ''minItems'' = undef_or JNum least" "prop_of target ''maxItems'' = undef_or JNum most"
    and "sub_schema (prop_of target ''items'') = Some item" "\<And>x path. x \<in> set xs \<Longrightarrow> decides (validate item x path) (P x)"
  shows "decides (array_errors validate target xs path) (size_within least most xs \<and> (\<forall>x \<in> set xs. P x))"
proof -
  have "decides (in_turn (map (\<lambda>(i, x). validate item x (childPath path (nat_text i))) (enumerate 0 xs)))
      (\<forall>(i, x) \<in> set (enumerate 0 xs). P x)"
    by (rule decides_cong [OF decides_map [where P = "\<lambda>(i, x). P x"]]) (auto simp: assms(4) in_set_enumerate_eq)
  moreover have "snd ` set (enumerate 0 xs) = set xs" by (metis list.set_map map_snd_enumerate)
  then have "(\<forall>(i, x) \<in> set (enumerate 0 xs). P x) \<longleftrightarrow> (\<forall>x \<in> set xs. P x)" by force
  ultimately show ?thesis
    using assms(1-3) by (auto simp: array_errors_def decides_def size_within_def limit_decides)
qed


lemma lookup_own: "k \<notin> set object_prototype_names \<Longrightarrow> lookup p kvs k = map_of kvs k"
  by (cases p) (auto simp: lookup_def split: option.splits)

lemma extra_decides:
  assumes "prop_of target ''additionalProperties'' = additional_js additional"
    and "\<And>t k x path. additional = Some (Inr t) \<Longrightarrow> (k, x) \<in> set extra \<Longrightarrow> decides (validate (node_of t) x path) (P t x)"
  shows "decides (extra_errors validate target extra path)
    ((additional = Some (Inl False) \<longrightarrow> extra = []) \<and> (\<forall>t. additional = Some (Inr t) \<longrightarrow> (\<forall>(k, x) \<in> set extra. P t x)))"
proof (cases "extra = [] \<or> (\<forall>t. additional \<noteq> Some (Inr t))")
  case True
  then show ?thesis
    using assms(1) by (cases additional rule: additional_js.cases) (auto simp: decides_def extra_errors_def)
next
  case False
  then obtain t where t: "additional = Some (Inr t)" "extra \<noteq> []" by auto
  have "decides (in_turn (map (\<lambda>(key, x). validate (node_of t) x (childPath path key)) extra)) (\<forall>(k, x) \<in> set extra. P t x)"
    by (rule decides_cong [OF decides_map [where P = "\<lambda>(k, x). P t x"]]) (auto intro: assms(2) [OF t(1)])
  then show ?thesis using t assms(1) by (simp add: extra_errors_def build_node obj_def)
qed

lemma object_decides:
  assumes names: "\<forall>(k, s) \<in> set props. k \<notin> set object_prototype_names"
    and props: "\<And>k s x path. (k, s) \<in> set props \<Longrightarrow> x \<in> snd ` set kvs \<Longrightarrow> decides (validate (node_of (strip s)) x path) (P (strip s) x)"
    and extra: "\<And>t x path. additional = Some (Inr t) \<Longrightarrow> x \<in> snd ` set kvs \<Longrightarrow> decides (validate (node_of t) x path) (P t x)"
  shows "decides (object_errors re validate (node_of (PiObject props d additional)) p kvs path)
    ((\<forall>(k, s) \<in> set props. (map_of kvs k = None \<longrightarrow> is_optional s) \<and> (\<forall>x. map_of kvs k = Some x \<longrightarrow> P (strip s) x)) \<and>
     (additional = Some (Inl False) \<longrightarrow> fst ` set kvs \<subseteq> fst ` set props) \<and>
     (\<forall>t. additional = Some (Inr t) \<longrightarrow> (\<forall>(k, x) \<in> set kvs. k \<notin> fst ` set props \<longrightarrow> P t x)))"
proof -
  let ?target = "node_of (PiObject props d additional)"
  have look: "lookup p kvs k = map_of kvs k" if "(k, s) \<in> set props" for k s
    using names that by (auto intro: lookup_own)
  have "filter (\<lambda>name. lookup p kvs name = None) (required_names props) = [] \<longleftrightarrow>
      (\<forall>(k, s) \<in> set props. map_of kvs k = None \<longrightarrow> is_optional s)"
    using look by (auto simp: filter_empty_conv required_names_set)
  then have required: "required_errors ?target p kvs path = [] \<longleftrightarrow> (\<forall>(k, s) \<in> set props. map_of kvs k = None \<longrightarrow> is_optional s)"
    by (simp add: required_errors_def Let_def)
  have "property_errors validate ?target p kvs path =
      in_turn (map (\<lambda>(k, s). case lookup p kvs k of None \<Rightarrow> Inr [] | Some x \<Rightarrow> validate (node_of (strip s)) x (childPath path k)) props)"
    by (auto simp: property_errors_def intro!: arg_cong [of _ _ in_turn])
  moreover have "decides (in_turn (map (\<lambda>(k, s). case lookup p kvs k of None \<Rightarrow> Inr []
        | Some x \<Rightarrow> validate (node_of (strip s)) x (childPath path k)) props))
      (\<forall>z \<in> set props. case z of (k, s) \<Rightarrow> \<forall>x. map_of kvs k = Some x \<longrightarrow> P (strip s) x)"
  proof (rule decides_map)
    fix z assume z: "z \<in> set props"
    obtain k s where "z = (k, s)" by (cases z)
    with z look [of k s] props [of k s] show "decides (case z of (k, s) \<Rightarrow> case lookup p kvs k of None \<Rightarrow> Inr []
        | Some x \<Rightarrow> validate (node_of (strip s)) x (childPath path k)) (case z of (k, s) \<Rightarrow> \<forall>x. map_of kvs k = Some x \<longrightarrow> P (strip s) x)"
      by (cases "map_of kvs k") (auto simp: decides_def image_iff dest!: map_of_SomeD, force)
  qed
  ultimately have properties: "decides (property_errors validate ?target p kvs path)
      (\<forall>(k, s) \<in> set props. \<forall>x. map_of kvs k = Some x \<longrightarrow> P (strip s) x)"
    by simp
  define others where "others = filter (\<lambda>(key, _). key \<notin> set (property_names ?target)) kvs"
  have names_set: "set (property_names ?target) = fst ` set props"
    by (simp add: property_names_def image_image split_beta)
  have others: "others = [] \<longleftrightarrow> fst ` set kvs \<subseteq> fst ` set props" "set others = {z \<in> set kvs. fst z \<notin> fst ` set props}"
    unfolding others_def names_set by (force simp: filter_empty_conv)+
  have rest: "decides (extra_errors validate ?target others path)
      ((additional = Some (Inl False) \<longrightarrow> others = []) \<and> (\<forall>t. additional = Some (Inr t) \<longrightarrow> (\<forall>(k, x) \<in> set others. P t x)))"
    by (rule extra_decides) (auto simp: others_def intro!: extra image_eqI)
  have empty: "decides (in_turn (map (\<lambda>(key, x). in_turn []) others)) True"
    by (rule decides_cong [OF decides_map [where P = "\<lambda>_. True"]]) (auto simp: decides_def)
  have "object_errors re validate ?target p kvs path =
      in_turn [Inr (required_errors ?target p kvs path), property_errors validate ?target p kvs path,
        in_turn [in_turn (map (\<lambda>(key, x). in_turn []) others), extra_errors validate ?target others path]]"
    by (simp add: object_errors_def matching_def others_def Let_def)
  moreover have "decides \<dots> (required_errors ?target p kvs path = [] \<and>
      (\<forall>(k, s) \<in> set props. \<forall>x. map_of kvs k = Some x \<longrightarrow> P (strip s) x) \<and>
      (True \<and> ((additional = Some (Inl False) \<longrightarrow> others = []) \<and> (\<forall>t. additional = Some (Inr t) \<longrightarrow> (\<forall>(k, x) \<in> set others. P t x))) \<and> True) \<and> True)"
    by (intro deciding properties rest empty)
  ultimately have "decides (object_errors re validate ?target p kvs path) (required_errors ?target p kvs path = [] \<and>
      (\<forall>(k, s) \<in> set props. \<forall>x. map_of kvs k = Some x \<longrightarrow> P (strip s) x) \<and>
      (True \<and> ((additional = Some (Inl False) \<longrightarrow> others = []) \<and> (\<forall>t. additional = Some (Inr t) \<longrightarrow> (\<forall>(k, x) \<in> set others. P t x))) \<and> True) \<and> True)"
    by (simp only:)
  then show ?thesis
    by (rule decides_cong) (unfold required others(1), auto simp: others(2))
qed

lemma member_nodes_record: "member_nodes (obj (fld k (build s))) = [(js_lit k, node_of s)]"
  by (simp add: member_nodes_def fld_def List.map_filter_simps)

lemma record_decides:
  assumes rec: "\<And>x path. x \<in> snd ` set kvs \<Longrightarrow> decides (validate (node_of s) x path) (P s x)"
    and extra: "\<And>t x path. additional = Some (Inr t) \<Longrightarrow> x \<in> snd ` set kvs \<Longrightarrow> decides (validate (node_of t) x path) (P t x)"
  shows "decides (object_errors re validate (node_of (PiRecord s d additional)) p kvs path)
    ((\<forall>(k, x) \<in> set kvs. \<not> list_ex line_terminator k \<longrightarrow> P s x) \<and>
     (additional = Some (Inl False) \<longrightarrow> (\<forall>k \<in> fst ` set kvs. \<not> list_ex line_terminator k)) \<and>
     (\<forall>t. additional = Some (Inr t) \<longrightarrow> (\<forall>(k, x) \<in> set kvs. list_ex line_terminator k \<longrightarrow> P t x)))"
proof -
  let ?target = "node_of (PiRecord s d additional)"
  define unmatched where "unmatched = filter (\<lambda>(key, _). list_ex line_terminator key) kvs"
  define subs where "subs = (\<lambda>key. if list_ex line_terminator key then [] else [node_of s])"
  have patterns: "member_nodes (prop_of ?target ''patternProperties'') = [(js_lit ''^.*$'', node_of s)]"
    by (simp add: member_nodes_record)
  have one: "in_turn (map (\<lambda>sub. validate sub x path') (subs k)) = (if list_ex line_terminator k then Inr [] else in_turn [validate (node_of s) x path'])"
    for k x path' by (simp add: subs_def)
  have matched: "decides (in_turn (map (\<lambda>(key, x). in_turn (map (\<lambda>sub. validate sub x (childPath path key)) (subs key))) kvs))
      (\<forall>z \<in> set kvs. case z of (k, x) \<Rightarrow> \<not> list_ex line_terminator k \<longrightarrow> P s x)"
  proof (rule decides_map)
    fix z assume z: "z \<in> set kvs"
    obtain k x where kx: "z = (k, x)" by (cases z)
    have "decides (validate (node_of s) x (childPath path k)) (P s x)" using z kx by (intro rec) force
    then show "decides (case z of (key, x) \<Rightarrow> in_turn (map (\<lambda>sub. validate sub x (childPath path key)) (subs key)))
        (case z of (k, x) \<Rightarrow> \<not> list_ex line_terminator k \<longrightarrow> P s x)"
      by (auto simp: kx one decides_def)
  qed
  have rest: "decides (extra_errors validate ?target unmatched path)
      ((additional = Some (Inl False) \<longrightarrow> unmatched = []) \<and> (\<forall>t. additional = Some (Inr t) \<longrightarrow> (\<forall>(k, x) \<in> set unmatched. P t x)))"
    by (rule extra_decides) (auto simp: unmatched_def intro!: extra image_eqI)
  have un: "filter (\<lambda>(key, _). subs key = []) kvs = unmatched"
    unfolding unmatched_def by (rule filter_cong) (auto simp: subs_def split: if_splits)
  have match: "matching [(\<lambda>s. \<not> list_ex line_terminator s, node_of s)] = subs"
    by (auto simp: matching_def subs_def)
  have "object_errors re validate ?target p kvs path =
      in_turn [Inr [], Inr [], in_turn [in_turn (map (\<lambda>(key, x). in_turn (map (\<lambda>sub. validate sub x (childPath path key)) (subs key))) kvs),
        extra_errors validate ?target unmatched path]]"
    unfolding object_errors_def patterns
    by (simp add: required_errors_def property_errors_def property_names_def new_RegExp_def match un List.map_filter_simps Let_def)
  moreover have "decides \<dots> (True \<and> True \<and> ((\<forall>(k, x) \<in> set kvs. \<not> list_ex line_terminator k \<longrightarrow> P s x) \<and>
      ((additional = Some (Inl False) \<longrightarrow> unmatched = []) \<and> (\<forall>t. additional = Some (Inr t) \<longrightarrow> (\<forall>(k, x) \<in> set unmatched. P t x))) \<and> True) \<and> True)"
    by (intro deciding matched rest) (simp_all add: decides_def)
  ultimately have "decides (object_errors re validate ?target p kvs path) (True \<and> True \<and>
      ((\<forall>(k, x) \<in> set kvs. \<not> list_ex line_terminator k \<longrightarrow> P s x) \<and>
      ((additional = Some (Inl False) \<longrightarrow> unmatched = []) \<and> (\<forall>t. additional = Some (Inr t) \<longrightarrow> (\<forall>(k, x) \<in> set unmatched. P t x))) \<and> True) \<and> True)"
    by (simp only:)
  then show ?thesis
    by (rule decides_cong) (auto simp: unmatched_def filter_empty_conv)
qed


section \<open>The validator decides the type\<close>

text \<open>The parts of a value are nested less deeply.\<close>

lemma depth_item: "x \<in> set xs \<Longrightarrow> js_depth x < js_depth (JArr xs)"
  by (induction xs) auto

lemma depth_part: "object_parts v = Some (p, kvs) \<Longrightarrow> x \<in> snd ` set kvs \<Longrightarrow> js_depth x < js_depth v"
proof (cases v)
  case (JObj p' sy kvs')
  have "x \<in> snd ` set kvs \<Longrightarrow> js_depth x < entries_depth kvs" for kvs
    by (induction kvs) (fastforce simp: less_max_iff_disj)+
  with JObj show "object_parts v = Some (p, kvs) \<Longrightarrow> x \<in> snd ` set kvs \<Longrightarrow> ?thesis" by auto
qed (auto simp: bytes_props_def enumerate_eq_zip dest: set_zip_rightD split: if_splits)

text \<open>A definition carries its name beside the fields of the schema; no field the validator reads changes.\<close>

lemma prop_of_with_id [simp]: "prop_of (with_id k node) key = (if key = ''$id'' then JStr k else prop_of node key)"
  unfolding prop_of_def with_id_def map_of_amap_set js_lit_inject by (rule trans [OF if_distrib [where f = "case_option JUndef (\<lambda>v. v)"]]) (simp only: option.case)

definition validate_target ::
  "regex_engine \<Rightarrow> (schema_object \<Rightarrow> js \<Rightarrow> ustring \<Rightarrow> validation) \<Rightarrow> schema_object \<Rightarrow> js \<Rightarrow> ustring \<Rightarrow> validation" where
  "validate_target re validate target v path =
     (if is_array (prop_of target ''anyOf'') then validateUnionBranches validate AnyOf (prop_of target ''anyOf'') v path
      else if is_array (prop_of target ''oneOf'') then validateUnionBranches validate OneOf (prop_of target ''oneOf'') v path
      else value_errors re validate target v path)"

lemma validateNode_target:
  "validateNode re defs (Suc stack) node v path = validate_target re (validateNode re defs stack) (resolveRef node defs) v path"
  by (simp add: validate_target_def Let_def)

lemma with_id_fields [simp]:
  "limit_errors (with_id k node) ''minLength'' = limit_errors node ''minLength''"
  "limit_errors (with_id k node) ''maxLength'' = limit_errors node ''maxLength''"
  "limit_errors (with_id k node) ''minimum'' = limit_errors node ''minimum''"
  "limit_errors (with_id k node) ''maximum'' = limit_errors node ''maximum''"
  "limit_errors (with_id k node) ''multipleOf'' = limit_errors node ''multipleOf''"
  "limit_errors (with_id k node) ''minItems'' = limit_errors node ''minItems''"
  "limit_errors (with_id k node) ''maxItems'' = limit_errors node ''maxItems''"
  "required_errors (with_id k node) = required_errors node"
  "property_errors validate (with_id k node) = property_errors validate node"
  "property_names (with_id k node) = property_names node"
  "extra_errors validate (with_id k node) = extra_errors validate node"
  by ((intro ext)?, simp add: limit_errors_def required_errors_def property_errors_def property_names_def extra_errors_def)+

lemma with_id_parts [simp]:
  "const_errors (with_id k node) = const_errors node"
  "enum_errors (with_id k node) = enum_errors node"
  "type_errors (with_id k node) = type_errors node"
  "string_errors re (with_id k node) = string_errors re node"
  "number_errors (with_id k node) = number_errors node"
  "array_errors validate (with_id k node) = array_errors validate node"
  "object_errors re validate (with_id k node) = object_errors re validate node"
  by (intro ext, simp add: const_errors_def enum_errors_def type_errors_def typeList_def string_errors_def number_errors_def
      array_errors_def object_errors_def cong: option.case_cong)+

lemma validate_with_id [simp]: "validate_target re validate (with_id k node) v path = validate_target re validate node v path"
  by (cases v) (simp_all add: validate_target_def value_errors_def)

lemma value_decides:
  assumes "item_nodes (prop_of target ''allOf'') = []" "prop_of target ''enum'' = JUndef"
    and "decides (case v of JStr s \<Rightarrow> string_errors re target s path | JNum n \<Rightarrow> Inr (number_errors target n path)
      | JArr xs \<Rightarrow> array_errors validate target xs path
      | _ \<Rightarrow> (case object_parts v of Some (p, kvs) \<Rightarrow> object_errors re validate target p kvs path | None \<Rightarrow> Inr [])) b"
  shows "decides (value_errors re validate target v path) (const_errors target v path = [] \<and> type_errors target v path = [] \<and> b)"
proof -
  have "decides (value_errors re validate target v path)
      (True \<and> const_errors target v path = [] \<and> enum_errors target v path = [] \<and> type_errors target v path = [] \<and> b \<and> True)"
    unfolding value_errors_def assms(1) by (intro deciding assms(3)) (simp add: decides_def)
  then show ?thesis by (rule decides_cong) (simp add: enum_errors_def assms(2))
qed

lemma type_decides: "prop_of target ''type'' = lit t \<Longrightarrow> type_errors target v path = [] \<longleftrightarrow> matchesType v (js_lit t)"
  by (simp add: type_errors_def typeList_def lit_def Let_def)

lemma no_const: "prop_of target ''const'' = JUndef \<Longrightarrow> const_errors target v path = []"
  by (simp add: const_errors_def)

lemma literal_decides:
  "deepEqual v (literal_js l) \<and> matchesType v (js_lit (literal_type l)) \<longleftrightarrow> literal_value l v"
proof (cases l)
  case (LNumber n)
  then show ?thesis by (cases v) (auto simp: deepEqual_def matchesType_def)
qed (cases v; auto simp: deepEqual_def matchesType_def)+


fun parts :: "js \<Rightarrow> js set" where
  "parts (JArr xs) = set xs"
| "parts v = (case object_parts v of Some (p, kvs) \<Rightarrow> snd ` set kvs | None \<Rightarrow> {})"

fun subs :: "pi_schema \<Rightarrow> pi_schema set" where
  "subs (PiObject props d additional) = (\<lambda>(k, s). strip s) ` set props \<union> (case additional of Some (Inr t) \<Rightarrow> {t} | _ \<Rightarrow> {})"
| "subs (PiArray s d least most) = {s}"
| "subs (PiRecord s d additional) = insert s (case additional of Some (Inr t) \<Rightarrow> {t} | _ \<Rightarrow> {})"
| "subs s = {}"

lemma finite_parts [simp]: "finite (parts v)" "finite (subs s)"
  by (cases v rule: parts.cases; auto split: option.splits)
    (cases s rule: subs.cases; auto split: option.splits sum.splits)

lemma depth_parts: "x \<in> parts v \<Longrightarrow> js_depth x < js_depth v"
proof (cases v)
  case (JArr xs)
  then show "x \<in> parts v \<Longrightarrow> ?thesis" by (simp add: depth_item del: js_depth.simps)
next
  case (JObj p sy kvs)
  then show "x \<in> parts v \<Longrightarrow> ?thesis" using depth_part [of v p kvs x] by simp
next
  case (JBytes bs)
  then show "x \<in> parts v \<Longrightarrow> ?thesis" using depth_part [of v OtherProto "bytes_props bs" x] by simp
qed simp_all

lemma parts_object: "object_parts v = Some (p, kvs) \<Longrightarrow> parts v = snd ` set kvs"
  by (cases v) auto

lemma subs_wf: "t \<in> subs s \<Longrightarrow> wf_schema re s \<Longrightarrow> wf_schema re t"
  by (cases s rule: subs.cases) (auto simp: list_all_iff intro: wf_strip split: option.splits sum.splits)

text \<open>A node has no say on values of another kind.\<close>

lemma absent_parts:
  "prop_of target ''minLength'' = JUndef \<Longrightarrow> prop_of target ''maxLength'' = JUndef \<Longrightarrow> prop_of target ''pattern'' = JUndef \<Longrightarrow>
     string_errors re target s path = Inr []"
  "prop_of target ''minimum'' = JUndef \<Longrightarrow> prop_of target ''maximum'' = JUndef \<Longrightarrow> prop_of target ''multipleOf'' = JUndef \<Longrightarrow>
     number_errors target n path = []"
  "prop_of target ''minItems'' = JUndef \<Longrightarrow> prop_of target ''maxItems'' = JUndef \<Longrightarrow> prop_of target ''items'' = JUndef \<Longrightarrow>
     array_errors validate target xs path = Inr []"
  by (simp_all add: string_errors_def number_errors_def array_errors_def limit_errors_def)

lemma absent_object:
  assumes "prop_of target ''required'' = JUndef" "prop_of target ''properties'' = JUndef"
    and "prop_of target ''patternProperties'' = JUndef" "prop_of target ''additionalProperties'' = JUndef"
  shows "object_errors re validate target p kvs path = Inr []"
proof -
  have "in_turn (map (\<lambda>(key, x). Inr []) xs) = Inr []" for xs :: "(ustring \<times> js) list"
    by (induction xs) auto
  then show ?thesis
    using assms by (simp add: object_errors_def required_errors_def property_errors_def property_names_def extra_errors_def
        matching_def List.map_filter_simps Let_def)
qed

lemmas absent = absent_parts absent_object

lemma literal_defined [simp]: "literal_js l \<noteq> JUndef"
  by (cases l) simp_all

text \<open>A node is decided when its branches and the parts of the value are.\<close>

lemma scalar_decides:
  assumes "case s of PiString _ _ _ _ \<Rightarrow> True | PiNumber _ _ _ _ \<Rightarrow> True | PiInteger _ _ _ _ \<Rightarrow> True | PiBoolean _ \<Rightarrow> True
      | PiNull _ \<Rightarrow> True | PiUnknown _ \<Rightarrow> True | PiLiteral _ _ \<Rightarrow> True | PiOptional _ \<Rightarrow> True | _ \<Rightarrow> False"
    and "wf_schema re s"
  shows "decides (validate_target re validate (node_of s) v path) (conforms re defs s v)"
proof (cases s)
  case (PiString d least most pattern)
  show ?thesis
  proof (cases v)
    case (JStr t)
    have "decides (string_errors re (node_of s) t path) (size_within least most t \<and> matches re pattern t)"
      using assms(2) by (intro string_decides) (auto simp: PiString)
    then obtain es where "string_errors re (node_of s) t path = Inr es" "es = [] \<longleftrightarrow> size_within least most t \<and> matches re pattern t"
      by (auto simp: decides_def)
    then show ?thesis
      by (auto simp: PiString JStr validate_target_def value_errors_def decides_def enum_errors_def no_const type_decides matchesType_def)
  qed (auto simp: PiString validate_target_def value_errors_def decides_def enum_errors_def no_const type_decides absent matchesType_def)
next
  case (PiNumber d least most step)
  then show ?thesis
    by (cases v) (auto simp: validate_target_def value_errors_def decides_def enum_errors_def no_const type_decides absent
        number_decides matchesType_def)
next
  case (PiInteger d least most step)
  then show ?thesis
    by (cases v) (auto simp: validate_target_def value_errors_def decides_def enum_errors_def no_const type_decides absent
        number_decides matchesType_def)
next
  case (PiLiteral l d)
  then show ?thesis
    by (cases v) (auto simp: validate_target_def value_errors_def decides_def enum_errors_def const_errors_def type_decides absent
        literal_decides [symmetric])
next
  case (PiBoolean d)
  then show ?thesis
    by (cases v) (simp_all add: validate_target_def value_errors_def decides_def enum_errors_def no_const type_errors_def typeList_def
        lit_def Let_def absent matchesType_def)
next
  case (PiNull d)
  then show ?thesis
    by (cases v) (simp_all add: validate_target_def value_errors_def decides_def enum_errors_def no_const type_errors_def typeList_def
        lit_def Let_def absent matchesType_def)
next
  case (PiUnknown d)
  then show ?thesis
    by (cases v) (simp_all add: validate_target_def value_errors_def decides_def enum_errors_def no_const type_errors_def typeList_def
        lit_def Let_def absent matchesType_def)
next
  case (PiOptional t)
  then show ?thesis
    by (cases v) (simp_all add: validate_target_def value_errors_def decides_def enum_errors_def no_const type_errors_def typeList_def
        lit_def Let_def absent matchesType_def)
qed (use assms(1) in simp_all)

lemma array_target_decides:
  assumes "s = PiArray item d least most"
    and sub: "\<And>x path. x \<in> parts v \<Longrightarrow> decides (validate (node_of item) x path) (conforms re defs item x)"
  shows "decides (validate_target re validate (node_of s) v path) (conforms re defs s v)"
proof (cases v)
  case (JArr xs)
  have "decides (array_errors validate (node_of s) xs path) (size_within least most xs \<and> (\<forall>x \<in> set xs. conforms re defs item x))"
    by (rule array_decides) (use sub in \<open>auto simp: assms(1) JArr\<close>)
  then obtain es where "array_errors validate (node_of s) xs path = Inr es"
    "es = [] \<longleftrightarrow> size_within least most xs \<and> (\<forall>x \<in> set xs. conforms re defs item x)" by (auto simp: decides_def)
  then show ?thesis
    by (auto simp: assms(1) JArr validate_target_def value_errors_def decides_def enum_errors_def no_const type_decides matchesType_def)
qed (auto simp: assms(1) validate_target_def value_errors_def decides_def enum_errors_def no_const type_decides absent matchesType_def)

text \<open>The object keywords on a value that is an object, for a node without the keywords of other kinds.\<close>

lemma object_target:
  assumes "prop_of target ''anyOf'' = JUndef" "prop_of target ''oneOf'' = JUndef" "prop_of target ''allOf'' = JUndef"
    and "prop_of target ''const'' = JUndef" "prop_of target ''enum'' = JUndef" "prop_of target ''type'' = lit ''object''"
    and "prop_of target ''minLength'' = JUndef" "prop_of target ''maxLength'' = JUndef" "prop_of target ''pattern'' = JUndef"
    and "prop_of target ''minimum'' = JUndef" "prop_of target ''maximum'' = JUndef" "prop_of target ''multipleOf'' = JUndef"
    and "prop_of target ''minItems'' = JUndef" "prop_of target ''maxItems'' = JUndef" "prop_of target ''items'' = JUndef"
    and obj: "\<And>p kvs. object_parts v = Some (p, kvs) \<Longrightarrow> decides (object_errors re validate target p kvs path) b"
  shows "decides (validate_target re validate target v path) (object_parts v \<noteq> None \<and> b)"
proof (cases "object_parts v")
  case None
  then show ?thesis
    by (cases v) (auto simp: assms(1-15) validate_target_def value_errors_def decides_def enum_errors_def no_const type_decides absent matchesType_def)
next
  case (Some z)
  obtain p kvs where z: "z = (p, kvs)" by (cases z)
  then obtain es where "object_errors re validate target p kvs path = Inr es" "es = [] \<longleftrightarrow> b"
    using obj [of p kvs] Some by (auto simp: decides_def)
  with Some z show ?thesis
    by (cases v) (auto simp: assms(1-15) validate_target_def value_errors_def decides_def enum_errors_def no_const type_decides matchesType_def)
qed

lemma object_target_decides:
  assumes s: "s = PiObject props d additional" and "wf_schema re s"
    and sub: "\<And>x t path. x \<in> parts v \<Longrightarrow> t \<in> subs s \<Longrightarrow> decides (validate (node_of t) x path) (conforms re defs t x)"
  shows "decides (validate_target re validate (node_of s) v path) (conforms re defs s v)"
proof -
  have "decides (object_errors re validate (node_of s) p kvs path) (conforms re defs s v)" if "object_parts v = Some (p, kvs)" for p kvs
  proof -
    have "decides (object_errors re validate (node_of s) p kvs path)
      ((\<forall>(k, s) \<in> set props. (map_of kvs k = None \<longrightarrow> is_optional s) \<and> (\<forall>x. map_of kvs k = Some x \<longrightarrow> conforms re defs (strip s) x)) \<and>
       (additional = Some (Inl False) \<longrightarrow> fst ` set kvs \<subseteq> fst ` set props) \<and>
       (\<forall>t. additional = Some (Inr t) \<longrightarrow> (\<forall>(k, x) \<in> set kvs. k \<notin> fst ` set props \<longrightarrow> conforms re defs t x)))"
      unfolding s
    proof (rule object_decides)
      show "\<forall>(k, s) \<in> set props. k \<notin> set object_prototype_names" using assms(2) by (auto simp: s list_all_iff)
    qed (rule sub; force simp: s parts_object [OF that])+
    then show ?thesis using that unfolding s conforms_object_iff by simp
  qed
  then have "decides (validate_target re validate (node_of s) v path) (object_parts v \<noteq> None \<and> conforms re defs s v)"
    by (intro object_target) (simp_all add: s)
  then show ?thesis by (rule decides_cong) (auto simp: s conforms_object_iff)
qed

lemma record_target_decides:
  assumes s: "s = PiRecord item d additional"
    and sub: "\<And>x t path. x \<in> parts v \<Longrightarrow> t \<in> subs s \<Longrightarrow> decides (validate (node_of t) x path) (conforms re defs t x)"
  shows "decides (validate_target re validate (node_of s) v path) (conforms re defs s v)"
proof -
  have "decides (object_errors re validate (node_of s) p kvs path) (conforms re defs s v)" if "object_parts v = Some (p, kvs)" for p kvs
  proof -
    have "decides (object_errors re validate (node_of s) p kvs path)
      ((\<forall>(k, x) \<in> set kvs. \<not> list_ex line_terminator k \<longrightarrow> conforms re defs item x) \<and>
       (additional = Some (Inl False) \<longrightarrow> (\<forall>k \<in> fst ` set kvs. \<not> list_ex line_terminator k)) \<and>
       (\<forall>t. additional = Some (Inr t) \<longrightarrow> (\<forall>(k, x) \<in> set kvs. list_ex line_terminator k \<longrightarrow> conforms re defs t x)))"
      unfolding s by (rule record_decides) (rule sub; force simp: s parts_object [OF that])+
    then show ?thesis using that unfolding s conforms_record_iff by simp
  qed
  then have "decides (validate_target re validate (node_of s) v path) (object_parts v \<noteq> None \<and> conforms re defs s v)"
    by (intro object_target) (simp_all add: s)
  then show ?thesis by (rule decides_cong) (auto simp: s conforms_record_iff)
qed

lemma union_target_decides:
  assumes "s = PiUnion ss d" and sub: "\<And>t. t \<in> set ss \<Longrightarrow> decides (validate (node_of t) v path) (conforms re defs t v)"
  shows "decides (validate_target re validate (node_of s) v path) (conforms re defs s v)"
proof -
  have "decides (validateUnionBranches validate AnyOf (JArr (map build ss)) v path) (ss = [] \<or> (\<exists>t \<in> set ss. conforms re defs t v))"
    by (rule decides_any [where f = node_of]) (simp_all add: sub)
  then show ?thesis by (simp add: assms(1) validate_target_def)
qed

section \<open>References\<close>

definition names_types :: "(ustring \<times> schema_object) list \<Rightarrow> (ustring \<Rightarrow> pi_schema option) \<Rightarrow> bool" where
  "names_types defs types \<longleftrightarrow> (\<forall>name. map_of defs name = map_option (\<lambda>s. with_id name (node_of s)) (types name))"

definition wf_types :: "regex_engine \<Rightarrow> (ustring \<Rightarrow> pi_schema option) \<Rightarrow> bool" where
  "wf_types re types \<longleftrightarrow> (\<forall>name s. types name = Some s \<longrightarrow> wf_schema re s \<and> flat s)"

fun reference :: "pi_schema \<Rightarrow> ustring option" where
  "reference (PiRef r d) = Some r"
| "reference (PiCyclic ds r d) = Some r"
| "reference s = None"

lemma reference_node: "prop_of (node_of s) ''$ref'' = undef_or JStr (reference s)"
  by (cases s) simp_all

lemma follow_stop: "prop_of current ''$ref'' = JUndef \<Longrightarrow> follow hops current defs = current"
  by (cases hops) simp_all

lemma resolve_node:
  assumes "names_types defs types" "wf_types re types"
  shows "resolveRef (node_of s) defs =
    (case reference s of None \<Rightarrow> node_of s
     | Some r \<Rightarrow> (case types r of
         None \<Rightarrow> if r \<in> set object_prototype_names then [] else node_of s
       | Some t \<Rightarrow> with_id r (node_of t)))"
proof (cases "reference s")
  case None
  then show ?thesis by (simp add: resolveRef_def follow_stop reference_node)
next
  case (Some r)
  have step: "resolveRef (node_of s) defs =
      (case map_of defs r of None \<Rightarrow> if r \<in> set object_prototype_names then [] else node_of s | Some def \<Rightarrow> follow 63 def defs)"
  proof -
    have "(64 :: nat) = Suc 63" by simp
    then show ?thesis unfolding resolveRef_def by (simp only: follow.simps reference_node Some undef_or.simps js.case)
  qed
  show ?thesis
  proof (cases "types r")
    case (Some t)
    with assms have "flat t" "map_of defs r = Some (with_id r (node_of t))" by (auto simp: wf_types_def names_types_def)
    moreover from \<open>flat t\<close> have "reference t = None" by (cases t) auto
    ultimately show ?thesis using \<open>reference s = Some r\<close> Some by (simp add: step follow_stop reference_node)
  qed (use assms(1) \<open>reference s = Some r\<close> in \<open>simp add: step names_types_def\<close>)
qed

section \<open>With enough stack\<close>

abbreviation decided where
  "decided re defs types s v \<equiv>
     eventually (\<lambda>stack. \<forall>path. decides (validateNode re defs stack (node_of s) v path) (conforms re types s v)) sequentially"

abbreviation target_decided where
  "target_decided re defs types s v \<equiv>
     eventually (\<lambda>stack. \<forall>path. decides (validate_target re (validateNode re defs stack) (node_of s) v path) (conforms re types s v)) sequentially"

lemma target_eventually:
  assumes wf: "wf_schema re s" "reference s = None"
    and inner: "\<And>x t. js_depth x < js_depth v \<Longrightarrow> wf_schema re t \<Longrightarrow> decided re defs types t x"
    and branches: "\<And>ss d t. s = PiUnion ss d \<Longrightarrow> t \<in> set ss \<Longrightarrow> decided re defs types t v"
  shows "target_decided re defs types s v"
proof -
  have "eventually (\<lambda>stack. \<forall>x \<in> parts v. \<forall>t \<in> subs s. \<forall>path.
      decides (validateNode re defs stack (node_of t) x path) (conforms re types t x)) sequentially"
    using inner subs_wf [OF _ wf(1)] depth_parts by (auto intro!: eventually_ball_finite)
  then have parts: ?thesis
    if "\<And>stack path. (\<And>x t path. x \<in> parts v \<Longrightarrow> t \<in> subs s \<Longrightarrow> decides (validateNode re defs stack (node_of t) x path) (conforms re types t x))
      \<Longrightarrow> decides (validate_target re (validateNode re defs stack) (node_of s) v path) (conforms re types s v)"
    by (rule eventually_mono) (use that in blast)
  show ?thesis
  proof (cases s)
    case (PiUnion ss d)
    then have "eventually (\<lambda>stack. \<forall>t \<in> set ss. \<forall>path. decides (validateNode re defs stack (node_of t) v path) (conforms re types t v)) sequentially"
      using branches by (intro eventually_ball_finite) auto
    then show ?thesis by (rule eventually_mono) (use union_target_decides [OF PiUnion] in blast)
  next
    case (PiObject props d additional)
    show ?thesis by (rule parts) (use object_target_decides [OF PiObject wf(1)] in blast)
  next
    case (PiRecord item d additional)
    show ?thesis by (rule parts) (use record_target_decides [OF PiRecord] in blast)
  next
    case (PiArray item d least most)
    show ?thesis by (rule parts) (use array_target_decides [OF PiArray] in \<open>simp add: PiArray\<close>)
  qed (use wf scalar_decides [of s re] in \<open>auto simp del: node_of_simps conforms_simps\<close>)
qed

lemma conforms_reference:
  "reference s = Some r \<Longrightarrow> conforms re types s v \<longleftrightarrow> (\<forall>t. types r = Some t \<longrightarrow> conforms re types t v)"
  by (cases s) auto

lemma unresolved_decides: "reference s = Some r \<Longrightarrow> decides (validate_target re validate (node_of s) v path) True"
  by (cases s; cases v) (simp_all add: validate_target_def value_errors_def decides_def enum_errors_def no_const type_errors_def
      typeList_def absent)

lemma no_keywords_decides: "decides (validate_target re validate [] v path) True"
  by (cases v) (simp_all add: validate_target_def value_errors_def decides_def enum_errors_def no_const type_errors_def
      typeList_def absent)

lemma decided_from_target:
  assumes "names_types defs types" "wf_types re types"
    and "case reference s of None \<Rightarrow> target_decided re defs types s v
      | Some r \<Rightarrow> (case types r of None \<Rightarrow> True | Some t \<Rightarrow> target_decided re defs types t v)"
  shows "decided re defs types s v"
proof -
  have "eventually (\<lambda>stack. \<forall>path. decides (validateNode re defs (Suc stack) (node_of s) v path) (conforms re types s v)) sequentially"
  proof (cases "reference s")
    case None
    then show ?thesis using assms(3) by (simp add: validateNode_target resolve_node [OF assms(1,2)] del: validateNode.simps)
  next
    case (Some r)
    then have ref: "conforms re types s v \<longleftrightarrow> (\<forall>t. types r = Some t \<longrightarrow> conforms re types t v)" by (rule conforms_reference)
    show ?thesis
      using assms(3) unresolved_decides [OF Some, of re _ v] no_keywords_decides [of re _ v] Some
      by (cases "types r") (simp_all add: validateNode_target resolve_node [OF assms(1,2)] ref del: validateNode.simps)
  qed
  then show ?thesis by (rule eventually_sequentially_Suc [THEN iffD1])
qed

theorem validator_decides:
  assumes types: "names_types defs types" "wf_types re types" and "wf_schema re s"
  shows "decided re defs types s v"
  using assms(3)
proof (induction "js_depth v" arbitrary: s v rule: less_induct)
  case (less v)
  note inner = less.hyps [OF _ , rule_format]
  have flat: "decided re defs types s v \<and> target_decided re defs types s v" if "wf_schema re s" "flat s" for s
    using that
  proof (induction "size s" arbitrary: s rule: less_induct)
    case less': less
    have none: "reference s = None" using less'.prems(2) by (cases s) auto
    have "decided re defs types t v" if "s = PiUnion ss d" "t \<in> set ss" for ss d t
      using less'.hyps [of t] less'.prems that by (auto simp: list_all_iff less_Suc_eq_le size_list_estimation')
    then have "target_decided re defs types s v"
      using less'.prems(1) none inner by (intro target_eventually) auto
    then show ?case using decided_from_target [OF types, of s v] none by simp
  qed
  show ?case using less.prems
  proof (induction "size s" arbitrary: s rule: less_induct)
    case less': less
    show ?case
    proof (cases "reference s")
      case None
      have "decided re defs types t v" if "s = PiUnion ss d" "t \<in> set ss" for ss d t
        using less'.hyps [of t] less'.prems that by (auto simp: list_all_iff less_Suc_eq_le size_list_estimation')
      then have "target_decided re defs types s v"
        using less'.prems(1) None inner by (intro target_eventually) auto
      then show ?thesis using decided_from_target [OF types, of s v] None by simp
    next
      case (Some r)
      then show ?thesis
        using decided_from_target [OF types, of s v] flat types(2) by (auto simp: wf_types_def split: option.splits)
    qed
  qed
qed


section \<open>The definitions of a schema\<close>

text \<open>The definitions of the cyclic schemas within a schema, in the order \<open>collectDefs\<close> comes upon them.\<close>

function cyclic_defs :: "pi_schema \<Rightarrow> (ustring \<times> pi_schema) list" where
  "cyclic_defs (PiCyclic ds r d) = concat (map (\<lambda>(k, s). (k, s) # cyclic_defs s) ds)"
| "cyclic_defs (PiUnion ss d) = concat (map cyclic_defs ss)"
| "cyclic_defs (PiObject props d additional) =
     concat (map (\<lambda>(k, s). cyclic_defs (strip s)) props) @ (case additional of Some (Inr t) \<Rightarrow> cyclic_defs t | _ \<Rightarrow> [])"
| "cyclic_defs (PiArray s d least most) = cyclic_defs s"
| "cyclic_defs (PiRecord s d additional) = (case additional of Some (Inr t) \<Rightarrow> cyclic_defs t | _ \<Rightarrow> []) @ cyclic_defs s"
| "cyclic_defs (PiString d least most pattern) = []"
| "cyclic_defs (PiNumber d least most step) = []"
| "cyclic_defs (PiInteger d least most step) = []"
| "cyclic_defs (PiBoolean d) = []"
| "cyclic_defs (PiNull d) = []"
| "cyclic_defs (PiUnknown d) = []"
| "cyclic_defs (PiLiteral l d) = []"
| "cyclic_defs (PiOptional s) = []"
| "cyclic_defs (PiRef r d) = []"
  by pat_completeness auto
termination
proof (relation "measure size")
  have strip: "size (strip s) \<le> size s" for s by (cases s) simp_all
  fix props :: "(ustring \<times> pi_schema) list" and d additional x k s
  assume "x \<in> set props" "(k, s) = x"
  then show "(strip s, PiObject props d additional) \<in> measure size"
    using strip [of s] by (induction props) auto
qed (auto simp: less_Suc_eq_le size_list_estimation')

definition record_def :: "(ustring \<times> schema_object) list \<Rightarrow> ustring \<times> pi_schema \<Rightarrow> (ustring \<times> schema_object) list" where
  "record_def acc kt = amap_set acc (fst kt) (with_id (fst kt) (node_of (snd kt)))"

lemma record_def_pair: "record_def acc (k, t) = amap_set acc k (with_id k (node_of t))"
  by (simp add: record_def_def)

lemma sub_nodes_with_id [simp]: "sub_nodes (with_id k node) = sub_nodes node"
  by (simp add: sub_nodes_def cong: option.case_cong)

lemma collectDefs_with_id [simp]: "collectDefs (with_id k node) out = collectDefs node out"
  by (simp only: collectDefs.simps [of "with_id k node"] collectDefs.simps [of node] sub_nodes_with_id)

lemma no_nodes [simp]:
  "item_nodes (JNum n) = []" "item_nodes (JStr s) = []" "item_nodes (JBool b) = []" "item_nodes (lit t) = []"
  "sub_schema (undef_or JNum l) = None" "sub_schema (undef_or JStr p) = None"
  by (simp_all add: item_nodes_def lit_def List.map_filter_simps) (cases l, simp_all, cases p, simp_all)

lemma item_nodes_build_none [simp]: "item_nodes (build s) = []"
  by (simp add: build_node item_nodes_def obj_def List.map_filter_simps)

lemma sub_schema_additional [simp]:
  "sub_schema (additional_js additional) = (case additional of Some (Inr t) \<Rightarrow> Some (node_of t) | _ \<Rightarrow> None)"
  by (cases additional rule: additional_js.cases) simp_all

lemma member_nodes_defs [simp]:
  "member_nodes (obj (map (\<lambda>(k, s). (k, obj (with_id k (node_of s)))) ds)) = map (\<lambda>(k, s). (k, with_id k (node_of s))) ds"
  by (simp add: member_nodes_def map_filter_map split_beta map_filter_Some)

lemma foldl_collect:
  assumes "\<And>t out. t \<in> set ts \<Longrightarrow> collectDefs (node_of t) out = foldl record_def out (cyclic_defs t)"
  shows "foldl (\<lambda>acc (name, s). collectDefs s (case name of Some n \<Rightarrow> amap_set acc n s | None \<Rightarrow> acc)) out (map (\<lambda>t. (None, node_of t)) ts) =
    foldl record_def out (concat (map cyclic_defs ts))"
  using assms by (induction ts arbitrary: out) simp_all

lemma foldl_collect_defs:
  assumes "\<And>k t out. (k, t) \<in> set ds \<Longrightarrow> collectDefs (node_of t) out = foldl record_def out (cyclic_defs t)"
  shows "foldl (\<lambda>acc (name, s). collectDefs s (case name of Some n \<Rightarrow> amap_set acc n s | None \<Rightarrow> acc)) out
      (map (\<lambda>(k, t). (Some k, with_id k (node_of t))) ds) =
    foldl record_def out (concat (map (\<lambda>(k, s). (k, s) # cyclic_defs s) ds))"
  using assms
proof (induction ds arbitrary: out)
  case (Cons kt ds)
  obtain k t where kt: "kt = (k, t)" by (cases kt)
  have "collectDefs (node_of t) o' = foldl record_def o' (cyclic_defs t)" for o' using Cons.prems [of k t] kt by simp
  moreover have "foldl (\<lambda>acc (name, s). collectDefs s (case name of Some n \<Rightarrow> amap_set acc n s | None \<Rightarrow> acc)) o'
      (map (\<lambda>(k, t). (Some k, with_id k (node_of t))) ds) =
    foldl record_def o' (concat (map (\<lambda>(k, s). (k, s) # cyclic_defs s) ds))" for o'
    by (rule Cons.IH) (use Cons.prems in auto)
  ultimately show ?case by (simp add: kt record_def_pair)
qed simp

lemma sub_nodes_cyclic: "sub_nodes (node_of (PiCyclic ds r d)) = map (\<lambda>(k, t). (Some k, with_id k (node_of t))) ds"
  by (simp add: sub_nodes_def split_beta)

lemma sub_nodes_union: "sub_nodes (node_of (PiUnion ss d)) = map (\<lambda>t. (None, node_of t)) ss"
  by (simp add: sub_nodes_def)

lemma sub_nodes_array: "sub_nodes (node_of (PiArray s d least most)) = map (\<lambda>t. (None, node_of t)) [s]"
  by (simp add: sub_nodes_def)

definition additional_list :: "(bool + pi_schema) option \<Rightarrow> pi_schema list" where
  "additional_list additional = (case additional of Some (Inr t) \<Rightarrow> [t] | _ \<Rightarrow> [])"

lemma additional_nodes:
  "(case sub_schema (additional_js additional) of Some s \<Rightarrow> [s] | None \<Rightarrow> []) = map node_of (additional_list additional)"
  by (cases additional rule: additional_js.cases) (simp_all add: additional_list_def)

lemma sub_nodes_object:
  "sub_nodes (node_of (PiObject props d additional)) =
     map (\<lambda>t. (None, node_of t)) (map (\<lambda>(k, s). strip s) props @ additional_list additional)"
  by (simp add: sub_nodes_def additional_nodes split_beta del: sub_schema_additional)

lemma sub_nodes_record:
  "sub_nodes (node_of (PiRecord s d additional)) = map (\<lambda>t. (None, node_of t)) (additional_list additional @ [s])"
  by (simp add: sub_nodes_def additional_nodes member_nodes_record del: sub_schema_additional)

lemma collectDefs_cyclic: "collectDefs (node_of s) out = foldl record_def out (cyclic_defs s)"
proof (induction "size s" arbitrary: s out rule: less_induct)
  case less
  let ?step = "\<lambda>acc (name, s). collectDefs s (case name of Some n \<Rightarrow> amap_set acc n s | None \<Rightarrow> acc)"
  have subs: "foldl ?step out (map (\<lambda>t. (None, node_of t)) ts) = foldl record_def out (concat (map cyclic_defs ts))"
    if "\<And>t. t \<in> set ts \<Longrightarrow> size t < size s" for ts
    by (rule foldl_collect) (use less that in blast)
  have unfold: "collectDefs (node_of s) out = foldl ?step out (sub_nodes (node_of s))"
    by (rule collectDefs.simps)
  have strip: "size (strip t) \<le> size t" for t by (cases t) simp_all
  have extra: "size t \<le> size_option (size_sum (\<lambda>_. 0) size) additional" if "t \<in> set (additional_list additional)"
    for t and additional :: "(bool + pi_schema) option"
    using that by (auto simp: additional_list_def split: option.splits sum.splits)
  have additional: "concat (map cyclic_defs (additional_list additional)) = (case additional of Some (Inr t) \<Rightarrow> cyclic_defs t | _ \<Rightarrow> [])" for additional
    by (auto simp: additional_list_def split: option.splits sum.splits)
  show ?case
  proof (cases s)
    case (PiCyclic ds r d)
    have "size t < size s" if "(k, t) \<in> set ds" for k t
      using that unfolding PiCyclic by (induction ds) auto
    then show ?thesis
      unfolding unfold unfolding PiCyclic sub_nodes_cyclic cyclic_defs.simps
      by (intro foldl_collect_defs) (use less PiCyclic in blast)
  next
    case (PiUnion ss d)
    have "size t < size s" if "t \<in> set ss" for t using that unfolding PiUnion by (simp add: less_Suc_eq_le size_list_estimation')
    from subs [of ss, OF this] show ?thesis unfolding unfold by (simp only: PiUnion sub_nodes_union cyclic_defs.simps)
  next
    case (PiArray t d least most)
    from subs [of "[t]"] show ?thesis unfolding unfold unfolding PiArray sub_nodes_array by (simp add: PiArray)
  next
    case (PiObject props d additional)
    have "size (strip t) < size s" if "(k, t) \<in> set props" for k t
      using that strip [of t] unfolding PiObject by (induction props) auto
    then have smaller: "size t < size s" if "t \<in> set (map (\<lambda>(k, s). strip s) props @ additional_list additional)" for t
      using that extra [of t additional] by (auto simp: PiObject)
    have eq: "concat (map cyclic_defs (map (\<lambda>(k, s). strip s) props @ additional_list additional)) = cyclic_defs s"
      by (auto simp: PiObject additional intro!: arg_cong [of _ _ concat])
    have nodes: "sub_nodes (node_of s) = map (\<lambda>t. (None, node_of t)) (map (\<lambda>(k, s). strip s) props @ additional_list additional)"
      unfolding PiObject by (rule sub_nodes_object)
    have "foldl ?step out (sub_nodes (node_of s)) =
        foldl record_def out (concat (map cyclic_defs (map (\<lambda>(k, s). strip s) props @ additional_list additional)))"
      unfolding nodes by (rule subs) (rule smaller)
    then show ?thesis unfolding unfold eq .
  next
    case (PiRecord item d additional)
    have "size t < size s" if "t \<in> set (additional_list additional @ [item])" for t
      using that extra [of t additional] by (auto simp: PiRecord)
    from subs [of "additional_list additional @ [item]", OF this] show ?thesis unfolding unfold unfolding PiRecord sub_nodes_record by (simp add: additional)
  qed (unfold unfold, simp_all add: sub_nodes_def)
qed

definition types_of :: "pi_schema \<Rightarrow> ustring \<Rightarrow> pi_schema option" where
  "types_of s = map_of (rev (cyclic_defs s))"

lemma names_types_of: "names_types (collectDefs (node_of s) []) (types_of s)"
proof -
  have "map_of (foldl record_def out ds) name =
      (case map_of (rev ds) name of Some t \<Rightarrow> Some (with_id name (node_of t)) | None \<Rightarrow> map_of out name)" for out ds name
    by (induction ds rule: rev_induct) (auto simp: record_def_def)
  then show ?thesis by (auto simp: names_types_def types_of_def collectDefs_cyclic split: option.splits)
qed

lemma check_eventually:
  assumes "wf_schema re s" "wf_types re (types_of s)"
  shows "eventually (\<lambda>stack. Check re stack (node_of s) v = Inr (conforms re (types_of s) s v)) sequentially"
  using validator_decides [OF names_types_of assms(2,1), of v]
proof (rule eventually_mono)
  have "decides r b \<Longrightarrow> rbind r (\<lambda>errors. Inr (errors = [])) = Inr b" for r b
    by (auto simp: decides_def)
  then show "Check re stack (node_of s) v = Inr (conforms re (types_of s) s v)"
    if "\<forall>path. decides (validateNode re (collectDefs (node_of s) []) stack (node_of s) v path) (conforms re (types_of s) s v)" for stack
    using that unfolding Check_def Errors_def by blast
qed


text \<open>An object with an optional text and a list of at least one integer.\<close>

definition example_schema :: pi_schema where
  "example_schema =
     PiObject [(js_lit ''name'', PiOptional (PiString None None None None)),
       (js_lit ''sizes'', PiArray (PiInteger None None None None) None (Some (NInt 1)) None)] None (Some (Inl False))"


text \<open>
  The values under keys with a line break are not checked by a record: the pattern \<open>^.*$\<close> does not match such a key.
\<close>

lemma record_skips_line_breaks: "conforms re types (PiRecord s None None) (obj [(js_lit ''a'' @ [10], v)])"
  by (simp add: conforms_record_iff obj_def line_terminator_def)

text \<open>A required property named like a member of \<open>Object.prototype\<close> counts as present on every object.\<close>

lemma inherited_counts_as_required: "required_errors (node_of (PiObject [(js_lit ''constructor'', PiUnknown None)] None None)) ObjectProto [] path = []"
  by (simp add: required_errors_def Let_def lookup_def object_prototype_names_def required_names_def strings_js_def List.map_filter_simps)

end
