(* ===== verification/Protocol_Schemas.thy ===== *)
theory Protocol_Schemas
  imports Schema_Types
begin

text \<open>
  The message schemas of \<^verbatim>\<open>pi/packages/protocol/src/schemas.ts\<close>, as calls of the schema builders. The lemmas say that all
  of them are schemas the validator decides: their only definition is that of \<open>JsonValue\<close>.
\<close>

section \<open>Shorthands for builder calls\<close>

abbreviation plainString :: pi_schema where "plainString \<equiv> PiString None None None None"
abbreviation nonEmptyString :: pi_schema where "nonEmptyString \<equiv> PiString None (Some (NInt 1)) None None"
abbreviation integerFrom :: "int \<Rightarrow> pi_schema" where "integerFrom n \<equiv> PiInteger None (Some (NInt n)) None None"
abbreviation numberFrom :: "int \<Rightarrow> pi_schema" where "numberFrom n \<equiv> PiNumber None (Some (NInt n)) None None"
abbreviation literal :: "string \<Rightarrow> pi_schema" where "literal s \<equiv> PiLiteral (LString (js_lit s)) None"
abbreviation arrayOf :: "pi_schema \<Rightarrow> pi_schema" where "arrayOf s \<equiv> PiArray s None None None"
abbreviation unionOf :: "pi_schema list \<Rightarrow> pi_schema" where "unionOf ss \<equiv> PiUnion ss None"
abbreviation boolean :: pi_schema where "boolean \<equiv> PiBoolean None"

definition StrictObject :: "(string \<times> pi_schema) list \<Rightarrow> pi_schema" where
  "StrictObject properties = PiObject (map (\<lambda>(k, s). (js_lit k, s)) properties) None (Some (Inl False))"

section \<open>Values, models and content\<close>

definition PROTOCOL_VERSION :: int where "PROTOCOL_VERSION = 1"

definition IdSchema :: pi_schema where "IdSchema = nonEmptyString"
definition TimestampSchema :: pi_schema where "TimestampSchema = integerFrom 0"

definition JsonValueDefinition :: pi_schema where
  "JsonValueDefinition =
     unionOf [PiNull None, boolean, PiNumber None None None None, plainString,
       arrayOf (PiRef (js_lit ''JsonValue'') None), PiRecord (PiRef (js_lit ''JsonValue'') None) None None]"

definition JsonValueRecursiveSchema :: pi_schema where
  "JsonValueRecursiveSchema = PiCyclic [(js_lit ''JsonValue'', JsonValueDefinition)] (js_lit ''JsonValue'') None"

definition JsonValueSchema :: pi_schema where "JsonValueSchema = JsonValueRecursiveSchema"

definition ThinkingLevelSchema :: pi_schema where
  "ThinkingLevelSchema =
     unionOf [literal ''off'', literal ''minimal'', literal ''low'', literal ''medium'', literal ''high'', literal ''xhigh'', literal ''max'']"

definition SessionPhaseSchema :: pi_schema where
  "SessionPhaseSchema = unionOf [literal ''idle'', literal ''turn'', literal ''compaction'', literal ''branch_summary'', literal ''retry'']"

definition ModelRefSchema :: pi_schema where
  "ModelRefSchema = StrictObject [(''provider'', IdSchema), (''id'', IdSchema)]"

definition ModelCostSchema :: pi_schema where
  "ModelCostSchema =
     StrictObject [(''input'', numberFrom 0), (''output'', numberFrom 0), (''cacheRead'', numberFrom 0), (''cacheWrite'', numberFrom 0)]"

definition ModelMetadataSchema :: pi_schema where
  "ModelMetadataSchema =
     StrictObject [(''provider'', IdSchema), (''id'', IdSchema), (''name'', nonEmptyString), (''api'', IdSchema),
       (''reasoning'', boolean), (''input'', arrayOf (unionOf [literal ''text'', literal ''image''])),
       (''contextWindow'', integerFrom 1), (''maxTokens'', integerFrom 1), (''cost'', ModelCostSchema),
       (''supportedThinkingLevels'', PiArray ThinkingLevelSchema None (Some (NInt 1)) None), (''authenticated'', boolean)]"

definition TextContentSchema :: pi_schema where
  "TextContentSchema = StrictObject [(''type'', literal ''text''), (''text'', plainString)]"

definition ThinkingContentSchema :: pi_schema where
  "ThinkingContentSchema =
     StrictObject [(''type'', literal ''thinking''), (''thinking'', plainString), (''redacted'', PiOptional boolean)]"

definition ImageContentSchema :: pi_schema where
  "ImageContentSchema = StrictObject [(''type'', literal ''image''), (''data'', plainString), (''mimeType'', nonEmptyString)]"

definition ToolCallContentSchema :: pi_schema where
  "ToolCallContentSchema =
     StrictObject [(''type'', literal ''toolCall''), (''toolCallId'', IdSchema), (''toolName'', IdSchema), (''input'', JsonValueSchema)]"

definition UserContentSchema :: pi_schema where "UserContentSchema = unionOf [TextContentSchema, ImageContentSchema]"
definition AssistantContentSchema :: pi_schema where
  "AssistantContentSchema = unionOf [TextContentSchema, ThinkingContentSchema, ToolCallContentSchema]"
definition ToolContentSchema :: pi_schema where "ToolContentSchema = unionOf [TextContentSchema, ImageContentSchema]"

definition UsageSchema :: pi_schema where
  "UsageSchema =
     StrictObject [(''input'', integerFrom 0), (''output'', integerFrom 0), (''cacheRead'', integerFrom 0), (''cacheWrite'', integerFrom 0),
       (''reasoning'', PiOptional (integerFrom 0)), (''totalTokens'', integerFrom 0),
       (''cost'', StrictObject [(''input'', numberFrom 0), (''output'', numberFrom 0), (''cacheRead'', numberFrom 0),
          (''cacheWrite'', numberFrom 0), (''total'', numberFrom 0)])]"

section \<open>Transcript items\<close>

definition UserTranscriptItemSchema :: pi_schema where
  "UserTranscriptItemSchema =
     StrictObject [(''id'', IdSchema), (''role'', literal ''user''), (''content'', arrayOf UserContentSchema), (''timestamp'', TimestampSchema)]"

definition AssistantTranscriptItemProperties :: "(string \<times> pi_schema) list" where
  "AssistantTranscriptItemProperties =
     [(''id'', IdSchema), (''role'', literal ''assistant''), (''content'', arrayOf AssistantContentSchema), (''model'', ModelRefSchema),
      (''responseModel'', PiOptional nonEmptyString), (''usage'', PiOptional UsageSchema), (''timestamp'', TimestampSchema)]"

definition StreamingAssistantTranscriptItemSchema :: pi_schema where
  "StreamingAssistantTranscriptItemSchema = StrictObject (AssistantTranscriptItemProperties @ [(''status'', literal ''streaming'')])"

definition CompleteAssistantTranscriptItemSchema :: pi_schema where
  "CompleteAssistantTranscriptItemSchema =
     StrictObject (AssistantTranscriptItemProperties @
       [(''status'', literal ''complete''), (''stopReason'', unionOf [literal ''stop'', literal ''length'', literal ''toolUse''])])"

definition ErrorAssistantTranscriptItemSchema :: pi_schema where
  "ErrorAssistantTranscriptItemSchema =
     StrictObject (AssistantTranscriptItemProperties @
       [(''status'', literal ''error''), (''stopReason'', literal ''error''), (''errorMessage'', PiOptional nonEmptyString)])"

definition AbortedAssistantTranscriptItemSchema :: pi_schema where
  "AbortedAssistantTranscriptItemSchema =
     StrictObject (AssistantTranscriptItemProperties @
       [(''status'', literal ''aborted''), (''stopReason'', literal ''aborted''), (''errorMessage'', PiOptional plainString)])"

definition AssistantTranscriptItemSchema :: pi_schema where
  "AssistantTranscriptItemSchema =
     unionOf [StreamingAssistantTranscriptItemSchema, CompleteAssistantTranscriptItemSchema, ErrorAssistantTranscriptItemSchema,
       AbortedAssistantTranscriptItemSchema]"

definition ToolTranscriptItemProperties :: "(string \<times> pi_schema) list" where
  "ToolTranscriptItemProperties =
     [(''id'', IdSchema), (''role'', literal ''tool''), (''toolCallId'', IdSchema), (''toolName'', IdSchema), (''input'', JsonValueSchema),
      (''content'', arrayOf ToolContentSchema), (''details'', PiOptional JsonValueSchema), (''usage'', PiOptional UsageSchema),
      (''timestamp'', TimestampSchema)]"

definition RunningToolTranscriptItemSchema :: pi_schema where
  "RunningToolTranscriptItemSchema =
     StrictObject (ToolTranscriptItemProperties @ [(''status'', literal ''running''), (''isError'', PiLiteral (LBoolean False) None)])"

definition CompleteToolTranscriptItemSchema :: pi_schema where
  "CompleteToolTranscriptItemSchema =
     StrictObject (ToolTranscriptItemProperties @ [(''status'', literal ''complete''), (''isError'', PiLiteral (LBoolean False) None)])"

definition ErrorToolTranscriptItemSchema :: pi_schema where
  "ErrorToolTranscriptItemSchema =
     StrictObject (ToolTranscriptItemProperties @ [(''status'', literal ''error''), (''isError'', PiLiteral (LBoolean True) None)])"

definition ToolTranscriptItemSchema :: pi_schema where
  "ToolTranscriptItemSchema =
     unionOf [RunningToolTranscriptItemSchema, CompleteToolTranscriptItemSchema, ErrorToolTranscriptItemSchema]"

definition TranscriptItemSchema :: pi_schema where
  "TranscriptItemSchema = unionOf [UserTranscriptItemSchema, AssistantTranscriptItemSchema, ToolTranscriptItemSchema]"

definition TranscriptProgressSchema :: pi_schema where
  "TranscriptProgressSchema =
     unionOf
       [StrictObject [(''type'', literal ''item_started''), (''item'', TranscriptItemSchema)],
        StrictObject [(''type'', literal ''assistant_delta''), (''messageId'', IdSchema), (''contentIndex'', integerFrom 0),
          (''kind'', unionOf [literal ''text'', literal ''thinking'', literal ''toolCall'']), (''delta'', plainString)],
        StrictObject [(''type'', literal ''item_updated''), (''item'', unionOf [AssistantTranscriptItemSchema, ToolTranscriptItemSchema])],
        StrictObject [(''type'', literal ''item_finished''),
          (''item'', unionOf [CompleteAssistantTranscriptItemSchema, ErrorAssistantTranscriptItemSchema,
             AbortedAssistantTranscriptItemSchema, CompleteToolTranscriptItemSchema, ErrorToolTranscriptItemSchema])]]"

section \<open>Snapshots and errors\<close>

definition SessionMetadataSchema :: pi_schema where
  "SessionMetadataSchema =
     StrictObject [(''id'', IdSchema), (''createdAt'', TimestampSchema), (''updatedAt'', PiOptional TimestampSchema),
       (''parentSessionId'', PiOptional IdSchema), (''sessionName'', PiOptional plainString), (''cwd'', PiOptional nonEmptyString)]"

definition SessionSnapshotSchema :: pi_schema where
  "SessionSnapshotSchema =
     StrictObject [(''id'', IdSchema), (''name'', PiOptional plainString), (''cwd'', nonEmptyString), (''createdAt'', TimestampSchema),
       (''updatedAt'', TimestampSchema), (''phase'', SessionPhaseSchema), (''model'', ModelRefSchema), (''thinkingLevel'', ThinkingLevelSchema),
       (''attached'', boolean), (''locked'', boolean), (''revision'', integerFrom 0), (''transcript'', arrayOf TranscriptItemSchema),
       (''queuedSteer'', arrayOf UserTranscriptItemSchema), (''queuedSteerCount'', integerFrom 0)]"

definition ServerSnapshotSchema :: pi_schema where
  "ServerSnapshotSchema =
     StrictObject [(''serverId'', IdSchema), (''protocolVersion'', PiLiteral (LNumber (NInt PROTOCOL_VERSION)) None),
       (''revision'', integerFrom 0), (''sessions'', arrayOf SessionMetadataSchema), (''models'', arrayOf ModelMetadataSchema)]"

definition ProtocolErrorCodeSchema :: pi_schema where
  "ProtocolErrorCodeSchema =
     unionOf [literal ''version'', literal ''busy'', literal ''session_locked'', literal ''not_found'', literal ''invalid_request'',
       literal ''not_implemented'', literal ''internal_error'']"

definition ProtocolErrorSchema :: pi_schema where
  "ProtocolErrorSchema =
     StrictObject [(''code'', ProtocolErrorCodeSchema), (''message'', plainString), (''details'', PiOptional JsonValueSchema)]"

section \<open>Commands and results\<close>

definition PromptPayloadProperties :: "(string \<times> pi_schema) list" where
  "PromptPayloadProperties = [(''sessionId'', IdSchema), (''text'', plainString)]"

definition ListCommandSchema :: pi_schema where "ListCommandSchema = StrictObject [(''command'', literal ''list'')]"

definition CreateCommandSchema :: pi_schema where
  "CreateCommandSchema =
     StrictObject [(''command'', literal ''create''), (''cwd'', PiOptional nonEmptyString), (''name'', PiOptional plainString),
       (''model'', PiOptional ModelRefSchema), (''thinkingLevel'', PiOptional ThinkingLevelSchema)]"

definition AttachCommandSchema :: pi_schema where
  "AttachCommandSchema = StrictObject [(''command'', literal ''attach''), (''sessionId'', IdSchema)]"

definition DetachCommandSchema :: pi_schema where
  "DetachCommandSchema = StrictObject [(''command'', literal ''detach''), (''sessionId'', IdSchema)]"

definition PromptCommandSchema :: pi_schema where
  "PromptCommandSchema = StrictObject ([(''command'', literal ''prompt'')] @ PromptPayloadProperties)"

definition SteerCommandSchema :: pi_schema where
  "SteerCommandSchema = StrictObject ([(''command'', literal ''steer'')] @ PromptPayloadProperties)"

definition AbortCommandSchema :: pi_schema where
  "AbortCommandSchema = StrictObject [(''command'', literal ''abort''), (''sessionId'', IdSchema)]"

definition SetModelCommandSchema :: pi_schema where
  "SetModelCommandSchema = StrictObject [(''command'', literal ''set_model''), (''sessionId'', IdSchema), (''model'', ModelRefSchema)]"

definition SetThinkingCommandSchema :: pi_schema where
  "SetThinkingCommandSchema =
     StrictObject [(''command'', literal ''set_thinking''), (''sessionId'', IdSchema), (''thinkingLevel'', ThinkingLevelSchema)]"

definition CommandSchema :: pi_schema where
  "CommandSchema =
     unionOf [ListCommandSchema, CreateCommandSchema, AttachCommandSchema, DetachCommandSchema, PromptCommandSchema, SteerCommandSchema,
       AbortCommandSchema, SetModelCommandSchema, SetThinkingCommandSchema]"

text \<open>The results that carry a session snapshot.\<close>

definition snapshot_result :: "string \<Rightarrow> pi_schema" where
  "snapshot_result command = StrictObject [(''command'', literal command), (''session'', SessionSnapshotSchema)]"

definition CreateResultSchema :: pi_schema where "CreateResultSchema = snapshot_result ''create''"
definition AttachResultSchema :: pi_schema where "AttachResultSchema = snapshot_result ''attach''"
definition PromptResultSchema :: pi_schema where "PromptResultSchema = snapshot_result ''prompt''"
definition SteerResultSchema :: pi_schema where "SteerResultSchema = snapshot_result ''steer''"
definition AbortResultSchema :: pi_schema where "AbortResultSchema = snapshot_result ''abort''"
definition SetModelResultSchema :: pi_schema where "SetModelResultSchema = snapshot_result ''set_model''"
definition SetThinkingResultSchema :: pi_schema where "SetThinkingResultSchema = snapshot_result ''set_thinking''"

definition ListResultSchema :: pi_schema where
  "ListResultSchema = StrictObject [(''command'', literal ''list''), (''sessions'', arrayOf SessionMetadataSchema)]"

definition DetachResultSchema :: pi_schema where
  "DetachResultSchema = StrictObject [(''command'', literal ''detach''), (''sessionId'', IdSchema)]"

definition CommandResultSchema :: pi_schema where
  "CommandResultSchema =
     unionOf [ListResultSchema, CreateResultSchema, AttachResultSchema, DetachResultSchema, PromptResultSchema, SteerResultSchema,
       AbortResultSchema, SetModelResultSchema, SetThinkingResultSchema]"

section \<open>Messages\<close>

definition ClientHelloSchema :: pi_schema where
  "ClientHelloSchema = StrictObject [(''type'', literal ''hello''), (''version'', integerFrom 0)]"

definition RequestEnvelopeSchema :: pi_schema where
  "RequestEnvelopeSchema = StrictObject [(''type'', literal ''request''), (''id'', IdSchema), (''request'', CommandSchema)]"

definition ClientMessageSchema :: pi_schema where
  "ClientMessageSchema = unionOf [ClientHelloSchema, RequestEnvelopeSchema]"

definition ServerEventSchema :: pi_schema where
  "ServerEventSchema =
     unionOf
       [StrictObject [(''type'', literal ''server_snapshot''), (''snapshot'', ServerSnapshotSchema)],
        StrictObject [(''type'', literal ''session_snapshot''), (''snapshot'', SessionSnapshotSchema)],
        StrictObject [(''type'', literal ''session_progress''), (''sessionId'', IdSchema), (''progress'', TranscriptProgressSchema)],
        StrictObject [(''type'', literal ''session_removed''), (''sessionId'', IdSchema)]]"

definition ServerHelloSchema :: pi_schema where
  "ServerHelloSchema =
     StrictObject [(''type'', literal ''hello''), (''version'', PiLiteral (LNumber (NInt PROTOCOL_VERSION)) None),
       (''connectionId'', IdSchema), (''snapshot'', ServerSnapshotSchema)]"

definition ServerHelloErrorSchema :: pi_schema where
  "ServerHelloErrorSchema = StrictObject [(''type'', literal ''hello_error''), (''error'', ProtocolErrorSchema)]"

definition ResponseEnvelopeSchema :: pi_schema where
  "ResponseEnvelopeSchema =
     unionOf
       [StrictObject [(''type'', literal ''response''), (''id'', IdSchema), (''ok'', PiLiteral (LBoolean True) None),
          (''result'', CommandResultSchema)],
        StrictObject [(''type'', literal ''response''), (''id'', IdSchema), (''ok'', PiLiteral (LBoolean False) None),
          (''error'', ProtocolErrorSchema)]]"

definition EventEnvelopeSchema :: pi_schema where
  "EventEnvelopeSchema = StrictObject [(''type'', literal ''event''), (''event'', ServerEventSchema)]"

definition ServerMessageSchema :: pi_schema where
  "ServerMessageSchema = unionOf [ServerHelloSchema, ServerHelloErrorSchema, ResponseEnvelopeSchema, EventEnvelopeSchema]"

end
