(* ===== verification/Cbor_Writer.thy ===== *)
theory Cbor_Writer
  imports Prelude
begin

unbundle bit_operations_syntax

text \<open>
  \<^verbatim>\<open>pi/packages/protocol/src/cbor/options.ts\<close> and the class \<open>CborWriter\<close> of \<^verbatim>\<open>encoder.ts\<close>: the
  configured limits, the errors of the codec, and the growing output buffer. The buffer is modelled
  with its capacity; the locale \<open>byte_sink\<close> is the contract the encoder relies on (each operation
  appends its bytes or fails exactly when the limit would be passed), and the writer is
  an instance of it.
\<close>

section \<open>Options and errors\<close>

datatype cbor_error =
    RangeError string nat
  | InputNotBytes
  \<comment> \<open>encoder\<close>
  | ByteLengthExceeds nat
  | TextLengthExceeds nat
  | BytesLengthExceeds nat
  | InvalidUnicode
  | TextDecoderThrows
  | DepthExceeds nat
  | NumberNotFinite
  | IntegerNotSafe
  | ArrayLengthExceeds nat
  | ArrayHole
  | SymbolKey
  | MapLengthExceeds nat
  | UnsupportedType ustring
  \<comment> \<open>decoder\<close>
  | TrailingData
  | DecodedUnsafe
  | InvalidUtf8
  | KeyNotString
  | DuplicateKey
  | TagUnsupported
  | MalformedMajor
  | DecodedNotFinite
  | BreakMarker
  | UnsupportedSimple
  | IndefiniteLength string
  | LengthExceeds string nat
  | IndefiniteItem
  | MalformedAdditional
  | Truncated

definition UINT32_BASE :: nat where "UINT32_BASE = 0x100000000"
definition MAX_UINT32 :: nat where "MAX_UINT32 = 0xffffffff"
definition MAX_CONFIGURED_DEPTH :: nat where "MAX_CONFIGURED_DEPTH = 512"
definition DEFAULT_MAX_CBOR_BYTE_LENGTH :: nat where
  "DEFAULT_MAX_CBOR_BYTE_LENGTH = 16 * 1024 * 1024"
definition DEFAULT_MAX_CBOR_CONTAINER_LENGTH :: nat where
  "DEFAULT_MAX_CBOR_CONTAINER_LENGTH = 1000000"
definition DEFAULT_MAX_CBOR_DEPTH :: nat where "DEFAULT_MAX_CBOR_DEPTH = 64"

record CborOptions =
  opt_maxByteLength :: "jsnum option"
  opt_maxContainerLength :: "jsnum option"
  opt_maxDepth :: "jsnum option"

record ResolvedCborOptions =
  maxByteLength :: nat
  maxContainerLength :: nat
  maxDepth :: nat

fun resolveLimit :: "string \<Rightarrow> jsnum \<Rightarrow> nat \<Rightarrow> cbor_error + nat" where
  "resolveLimit name (NInt i) maximum =
     (if \<not> is_safe_integer (NInt i) \<or> i < 0 \<or> i > int maximum
      then Inl (RangeError name maximum) else Inr (nat i))"
| "resolveLimit name NNegZero maximum = Inr 0"
| "resolveLimit name _ maximum = Inl (RangeError name maximum)"

definition opt_default :: "jsnum option \<Rightarrow> nat \<Rightarrow> jsnum" where
  "opt_default v d = (case v of Some n \<Rightarrow> n | None \<Rightarrow> NInt (int d))"

definition resolveOptions :: "CborOptions option \<Rightarrow> cbor_error + ResolvedCborOptions" where
  "resolveOptions options =
     rbind (resolveLimit ''maxByteLength''
        (opt_default (Option.bind options opt_maxByteLength) DEFAULT_MAX_CBOR_BYTE_LENGTH)
        MAX_UINT32) (\<lambda>b.
     rbind (resolveLimit ''maxContainerLength''
        (opt_default (Option.bind options opt_maxContainerLength) DEFAULT_MAX_CBOR_CONTAINER_LENGTH)
        MAX_UINT32) (\<lambda>c.
     rbind (resolveLimit ''maxDepth''
        (opt_default (Option.bind options opt_maxDepth) DEFAULT_MAX_CBOR_DEPTH)
        MAX_CONFIGURED_DEPTH) (\<lambda>d.
     Inr \<lparr>maxByteLength = b, maxContainerLength = c, maxDepth = d\<rparr>)))"

lemma resolveLimit_le: "resolveLimit name v m = Inr n \<Longrightarrow> n \<le> m"
  by (cases v) (auto split: if_splits)

lemma resolveOptions_bounds:
  "resolveOptions o' = Inr r \<Longrightarrow>
     maxByteLength r \<le> MAX_UINT32 \<and> maxContainerLength r \<le> MAX_UINT32 \<and> maxDepth r \<le> 512"
  by (auto simp: resolveOptions_def MAX_CONFIGURED_DEPTH_def dest!: resolveLimit_le)

section \<open>The writer\<close>

record CborWriter =
  w_buffer :: "byte list"
  w_offset :: nat
  w_maxByteLength :: nat

definition new_CborWriter :: "nat \<Rightarrow> CborWriter" where
  "new_CborWriter m = \<lparr>w_buffer = replicate (min 256 m) 0, w_offset = 0, w_maxByteLength = m\<rparr>"

text \<open>
  The growth loop of \<open>ensureCapacity\<close>. It is entered with \<open>required \<le> maxByteLength\<close>, which the
  guard carries; without it the source loop would not end.
\<close>

function grow_capacity :: "nat \<Rightarrow> nat \<Rightarrow> nat \<Rightarrow> nat" where
  "grow_capacity m required capacity =
     (if capacity < required \<and> required \<le> m
      then grow_capacity m required (min m (max required (capacity * 2)))
      else capacity)"
  by pat_completeness auto
termination
  by (relation "measure (\<lambda>(m, required, capacity). required - capacity)") auto

declare grow_capacity.simps [simp del]

definition ensureCapacity :: "CborWriter \<Rightarrow> nat \<Rightarrow> cbor_error + CborWriter" where
  "ensureCapacity w additionalBytes =
     (let required = w_offset w + additionalBytes in
      if required > w_maxByteLength w then Inl (ByteLengthExceeds (w_maxByteLength w))
      else if required \<le> length (w_buffer w) then Inr w
      else let capacity = grow_capacity (w_maxByteLength w) required (max 1 (length (w_buffer w)));
               expanded = buf_set (replicate capacity 0) 0 (w_buffer w)
           in Inr (w\<lparr>w_buffer := expanded\<rparr>))"

text \<open>\<open>v >>> k\<close>: the operand is taken modulo \<open>2 ^ 32\<close>. A store into a \<open>Uint8Array\<close> keeps the low
  eight bits.\<close>

definition ushr :: "nat \<Rightarrow> nat \<Rightarrow> nat" where
  "ushr v k = drop_bit k (v mod 2 ^ 32)"

definition store :: "CborWriter \<Rightarrow> byte list \<Rightarrow> CborWriter" where
  "store w bs = w\<lparr>w_buffer := buf_set (w_buffer w) (w_offset w) bs,
                  w_offset := w_offset w + length bs\<rparr>"

definition writeByte :: "nat \<Rightarrow> CborWriter \<Rightarrow> cbor_error + CborWriter" where
  "writeByte v w = rbind (ensureCapacity w 1) (\<lambda>w. Inr (store w [of_nat v]))"

definition writeBytes :: "byte list \<Rightarrow> CborWriter \<Rightarrow> cbor_error + CborWriter" where
  "writeBytes bs w = rbind (ensureCapacity w (length bs)) (\<lambda>w. Inr (store w bs))"

definition writeUint16 :: "nat \<Rightarrow> CborWriter \<Rightarrow> cbor_error + CborWriter" where
  "writeUint16 v w =
     rbind (ensureCapacity w 2) (\<lambda>w. Inr (store w [of_nat (ushr v 8), of_nat v]))"

definition writeUint32 :: "nat \<Rightarrow> CborWriter \<Rightarrow> cbor_error + CborWriter" where
  "writeUint32 v w =
     rbind (ensureCapacity w 4) (\<lambda>w.
       Inr (store w [of_nat (ushr v 24), of_nat (ushr v 16), of_nat (ushr v 8), of_nat v]))"

definition writeUint64 :: "nat \<Rightarrow> CborWriter \<Rightarrow> cbor_error + CborWriter" where
  "writeUint64 v w =
     (let high = v div UINT32_BASE; low = v - high * UINT32_BASE
      in rbind (writeUint32 high w) (writeUint32 low))"

text \<open>The eight bytes of a bit pattern, most significant first.\<close>

definition be64 :: "64 word \<Rightarrow> byte list" where
  "be64 x = map (\<lambda>i. of_nat (unat x div 256 ^ (7 - i))) [0..<8]"

definition writeFloat64 :: "jsnum \<Rightarrow> CborWriter \<Rightarrow> cbor_error + CborWriter" where
  "writeFloat64 v w =
     rbind (ensureCapacity w 9) (\<lambda>w. Inr (store w (0xfb # be64 (bits_of_num v))))"

definition finish :: "CborWriter \<Rightarrow> byte list" where
  "finish w = take (w_offset w) (w_buffer w)"

definition writer_ok :: "CborWriter \<Rightarrow> bool" where
  "writer_ok w \<longleftrightarrow>
     w_offset w \<le> length (w_buffer w) \<and> length (w_buffer w) \<le> w_maxByteLength w"

section \<open>The contract of a byte sink\<close>

locale byte_sink =
  fixes out :: "'w \<Rightarrow> byte list"
    and ok :: "'w \<Rightarrow> bool"
    and limit :: "'w \<Rightarrow> nat"
    and overflow :: "nat \<Rightarrow> 'e"
    and put :: "byte list \<Rightarrow> 'w \<Rightarrow> 'e + 'w"
  assumes out_within: "ok w \<Longrightarrow> length (out w) \<le> limit w"
    and put_full: "ok w \<Longrightarrow> length (out w) + length bs > limit w \<Longrightarrow>
           put bs w = Inl (overflow (limit w))"
    and put_fits: "ok w \<Longrightarrow> length (out w) + length bs \<le> limit w \<Longrightarrow>
           \<exists>w'. put bs w = Inr w' \<and> ok w' \<and> limit w' = limit w \<and> out w' = out w @ bs"
begin

text \<open>\<open>appends op bs\<close>: from a good state \<open>op\<close> writes exactly \<open>bs\<close>, or fails because they do not
  fit.\<close>

definition appends :: "('w \<Rightarrow> 'e + 'w) \<Rightarrow> byte list \<Rightarrow> bool" where
  "appends op bs \<longleftrightarrow>
     (\<forall>w. ok w \<longrightarrow>
        (if length (out w) + length bs > limit w then op w = Inl (overflow (limit w))
         else \<exists>w'. op w = Inr w' \<and> ok w' \<and> limit w' = limit w \<and> out w' = out w @ bs))"

lemma appends_put: "appends (put bs) bs"
  using put_full put_fits by (auto simp: appends_def)

lemma appendsD:
  assumes "appends op bs" and "ok w" and "op w = Inr w'"
  shows "ok w'" and "limit w' = limit w" and "out w' = out w @ bs"
  using assms by (auto simp: appends_def split: if_splits)

lemma appends_fits:
  assumes "appends op bs" and "ok w" and "length (out w) + length bs \<le> limit w"
  shows "\<exists>w'. op w = Inr w' \<and> ok w' \<and> limit w' = limit w \<and> out w' = out w @ bs"
  using assms by (auto simp: appends_def)

lemma appends_seq:
  assumes f: "appends f bs" and g: "appends g cs"
  shows "appends (\<lambda>w. rbind (f w) g) (bs @ cs)"
  unfolding appends_def
proof (intro allI impI)
  fix w assume w: "ok w"
  show "if length (out w) + length (bs @ cs) > limit w
        then rbind (f w) g = Inl (overflow (limit w))
        else \<exists>w'. rbind (f w) g = Inr w' \<and> ok w' \<and> limit w' = limit w \<and> out w' = out w @ bs @ cs"
  proof (cases "length (out w) + length bs > limit w")
    case True
    then show ?thesis using f w by (auto simp: appends_def)
  next
    case False
    then obtain w1 where w1: "f w = Inr w1" "ok w1" "limit w1 = limit w" "out w1 = out w @ bs"
      using appends_fits [OF f w] by auto
    then show ?thesis using g by (auto simp: appends_def add.assoc)
  qed
qed

end

lemma grow_capacity_enough:
  assumes "required \<le> m" and "capacity \<le> m"
  shows "required \<le> grow_capacity m required capacity \<and> grow_capacity m required capacity \<le> m
     \<and> capacity \<le> grow_capacity m required capacity"
proof -
  define c where "c = min m (max required (capacity * 2))"
  have c: "required \<le> c" "c \<le> m" using assms by (auto simp: c_def)
  have "grow_capacity m required c = c"
    using c by (subst grow_capacity.simps) simp
  then show ?thesis
    using assms c by (subst (1 2 3) grow_capacity.simps) (auto simp: c_def [symmetric])
qed

lemma ensureCapacity_full:
  "w_offset w + n > w_maxByteLength w \<Longrightarrow>
     ensureCapacity w n = Inl (ByteLengthExceeds (w_maxByteLength w))"
  by (simp add: ensureCapacity_def Let_def)

lemma ensureCapacity_fits:
  assumes ok: "writer_ok w" and fits: "w_offset w + n \<le> w_maxByteLength w"
  shows "\<exists>w'. ensureCapacity w n = Inr w' \<and> writer_ok w' \<and> w_offset w' = w_offset w
     \<and> w_maxByteLength w' = w_maxByteLength w \<and> w_offset w + n \<le> length (w_buffer w')
     \<and> finish w' = finish w"
proof (cases "w_offset w + n \<le> length (w_buffer w)")
  case True
  then show ?thesis using ok fits by (simp add: ensureCapacity_def Let_def)
next
  case False
  let ?c = "grow_capacity (w_maxByteLength w) (w_offset w + n) (max 1 (length (w_buffer w)))"
  have "max 1 (length (w_buffer w)) \<le> w_maxByteLength w"
    using False fits ok by (auto simp: writer_ok_def)
  from grow_capacity_enough [OF fits this]
  have c: "w_offset w + n \<le> ?c" "?c \<le> w_maxByteLength w" "length (w_buffer w) \<le> ?c" by auto
  then show ?thesis
    using False fits ok
    by (auto simp: ensureCapacity_def Let_def writer_ok_def finish_def buf_set_def)
qed

lemma store_appends:
  assumes "writer_ok w" and "w_offset w + length bs \<le> length (w_buffer w)"
  shows "writer_ok (store w bs)" and "w_maxByteLength (store w bs) = w_maxByteLength w"
    and "finish (store w bs) = finish w @ bs"
  using assms by (auto simp: writer_ok_def store_def finish_def take_buf_set)

lemma length_finish: "writer_ok w \<Longrightarrow> length (finish w) = w_offset w"
  by (simp add: writer_ok_def finish_def)

interpretation cw: byte_sink finish writer_ok w_maxByteLength ByteLengthExceeds writeBytes
proof unfold_locales
  fix w bs
  assume ok: "writer_ok w"
  show "length (finish w) \<le> w_maxByteLength w"
    using ok by (simp add: length_finish) (simp add: writer_ok_def)
  show "writeBytes bs w = Inl (ByteLengthExceeds (w_maxByteLength w))"
    if "length (finish w) + length bs > w_maxByteLength w"
    using ok that by (simp add: writeBytes_def length_finish ensureCapacity_full)
  show "\<exists>w'. writeBytes bs w = Inr w' \<and> writer_ok w' \<and> w_maxByteLength w' = w_maxByteLength w
      \<and> finish w' = finish w @ bs"
    if "length (finish w) + length bs \<le> w_maxByteLength w"
    using ok that ensureCapacity_fits [of w "length bs"] store_appends
    by (auto simp: writeBytes_def length_finish)
qed

lemma write_as_bytes:
  "writeByte v = writeBytes [of_nat v]"
  "writeUint16 v = writeBytes [of_nat (ushr v 8), of_nat v]"
  "writeUint32 v = writeBytes [of_nat (ushr v 24), of_nat (ushr v 16), of_nat (ushr v 8), of_nat v]"
  "writeFloat64 x = writeBytes (0xfb # be64 (bits_of_num x))"
proof -
  have n: "length [a] = 1" "length [a, b] = 2" "length [a, b, c, d] = 4" for a b c d :: byte
    by simp_all
  have l: "length (0xfb # be64 b) = 9" for b by (simp add: be64_def)
  show "writeByte v = writeBytes [of_nat v]"
    "writeUint16 v = writeBytes [of_nat (ushr v 8), of_nat v]"
    "writeUint32 v = writeBytes [of_nat (ushr v 24), of_nat (ushr v 16), of_nat (ushr v 8), of_nat v]"
    unfolding fun_eq_iff writeByte_def writeUint16_def writeUint32_def writeBytes_def n by simp_all
  show "writeFloat64 x = writeBytes (0xfb # be64 (bits_of_num x))"
    unfolding fun_eq_iff writeFloat64_def writeBytes_def l by simp
qed

definition be32 :: "nat \<Rightarrow> byte list" where
  "be32 v = [of_nat (ushr v 24), of_nat (ushr v 16), of_nat (ushr v 8), of_nat v]"

lemma writeUint32_appends: "cw.appends (writeUint32 v) (be32 v)"
  by (simp add: write_as_bytes be32_def cw.appends_put)

lemma writeUint64_appends:
  "cw.appends (writeUint64 v) (be32 (v div UINT32_BASE) @ be32 (v mod UINT32_BASE))"
  unfolding writeUint64_def Let_def minus_div_mult_eq_mod
  by (rule cw.appends_seq) (rule writeUint32_appends)+

lemma new_CborWriter_ok [simp]:
  "writer_ok (new_CborWriter m)" "finish (new_CborWriter m) = []"
  "w_maxByteLength (new_CborWriter m) = m"
  by (auto simp: writer_ok_def new_CborWriter_def finish_def)

end
