(* ===== verification/Cbor.thy ===== *)
theory Cbor
  imports Cbor_Writer Utf8
begin

unbundle bit_operations_syntax

text \<open>
  The CBOR codec of \<^verbatim>\<open>pi/packages/protocol/src/cbor\<close>: \<open>encodeValue\<close>/\<open>encodeCbor\<close> (\<^verbatim>\<open>encoder.ts\<close>) and
  the reader (\<^verbatim>\<open>decoder.ts\<close>). The reader's state \<open>(bytes, offset)\<close> is the unread rest
  \<open>bytes[offset..]\<close>. Values are finite trees, so the encoder's cycle check (\<open>ancestors\<close>) never
  fires and is not carried. The main results are the round trip through the decoder and
  the shape of every decoded value.
\<close>

section \<open>Encoder\<close>

definition writeArgument :: "nat \<Rightarrow> nat \<Rightarrow> CborWriter \<Rightarrow> cbor_error + CborWriter" where
  "writeArgument majorType value w =
     (let prefix = push_bit 5 majorType in
      if value < 24 then writeByte (prefix OR value) w
      else if value \<le> 0xff then rbind (writeByte (prefix OR 24) w) (writeByte value)
      else if value \<le> 0xffff then rbind (writeByte (prefix OR 25) w) (writeUint16 value)
      else if value \<le> MAX_UINT32 then rbind (writeByte (prefix OR 26) w) (writeUint32 value)
      else rbind (writeByte (prefix OR 27) w) (writeUint64 value))"

fun isPlainObject :: "js \<Rightarrow> bool" where
  "isPlainObject (JObj p _ _) = (p = ObjectProto \<or> p = NullProto)"
| "isPlainObject _ = False"

definition encodeText ::
  "ResolvedCborOptions \<Rightarrow> ustring \<Rightarrow> CborWriter \<Rightarrow> cbor_error + CborWriter" where
  "encodeText options value w =
     (let bytes = utf8_encode value in
      if length bytes > maxByteLength options then Inl (TextLengthExceeds (maxByteLength options))
      else case utf8_decode bytes of
          None \<Rightarrow> Inl TextDecoderThrows
        | Some decoded \<Rightarrow>
            if decoded \<noteq> value then Inl InvalidUnicode
            else rbind (writeArgument 3 (length bytes) w) (writeBytes bytes))"

fun encodeNumber :: "jsnum \<Rightarrow> CborWriter \<Rightarrow> cbor_error + CborWriter" where
  "encodeNumber (NInt i) w =
     (if \<not> is_safe_integer (NInt i) then Inl IntegerNotSafe
      else if i \<ge> 0 then writeArgument 0 (nat i) w
      else writeArgument 1 (nat (- 1 - i)) w)"
| "encodeNumber v w = (if \<not> is_finite v then Inl NumberNotFinite else writeFloat64 v w)"

definition defined_entries :: "(ustring \<times> js) list \<Rightarrow> (ustring \<times> js) list" where
  "defined_entries kvs = filter (\<lambda>(k, v). v \<noteq> JUndef) kvs"

text \<open>
  \<open>encodeValue\<close>, with its loops over array elements and over map entries. The entry loop runs over
  the properties whose value is defined, as the list \<open>entries\<close> of the source does.
\<close>

fun encodeValue :: "ResolvedCborOptions \<Rightarrow> js \<Rightarrow> nat \<Rightarrow> CborWriter \<Rightarrow> cbor_error + CborWriter"
  and encodeItems :: "ResolvedCborOptions \<Rightarrow> js list \<Rightarrow> nat \<Rightarrow> CborWriter \<Rightarrow> cbor_error + CborWriter"
  and encodeEntries ::
    "ResolvedCborOptions \<Rightarrow> (ustring \<times> js) list \<Rightarrow> nat \<Rightarrow> CborWriter \<Rightarrow> cbor_error + CborWriter"
where
  "encodeValue options value depth w =
     (if depth > maxDepth options then Inl (DepthExceeds (maxDepth options))
      else case value of
        JNull \<Rightarrow> writeByte 0xf6 w
      | JBool b \<Rightarrow> writeByte (if b then 0xf5 else 0xf4) w
      | JNum n \<Rightarrow> encodeNumber n w
      | JStr s \<Rightarrow> encodeText options s w
      | JBytes bs \<Rightarrow>
          if length bs > maxByteLength options
          then Inl (BytesLengthExceeds (maxByteLength options))
          else rbind (writeArgument 2 (length bs) w) (writeBytes bs)
      | JArr xs \<Rightarrow>
          if length xs > maxContainerLength options
          then Inl (ArrayLengthExceeds (maxContainerLength options))
          else rbind (writeArgument 4 (length xs) w) (encodeItems options xs (depth + 1))
      | JObj p symbolKey kvs \<Rightarrow>
          if \<not> isPlainObject value then Inl (UnsupportedType (js_lit ''object''))
          else if symbolKey then Inl SymbolKey
          else if length (defined_entries kvs) > maxContainerLength options
          then Inl (MapLengthExceeds (maxContainerLength options))
          else rbind (writeArgument 5 (length (defined_entries kvs)) w)
                 (encodeEntries options kvs (depth + 1))
      | JUndef \<Rightarrow> Inl (UnsupportedType (js_lit ''undefined''))
      | JOther t \<Rightarrow> Inl (UnsupportedType t))"
| "encodeItems options [] depth w = Inr w"
| "encodeItems options (x # xs) depth w =
     (if x = JUndef then Inl ArrayHole
      else rbind (encodeValue options x depth w) (encodeItems options xs depth))"
| "encodeEntries options [] depth w = Inr w"
| "encodeEntries options ((k, v) # kvs) depth w =
     (if v = JUndef then encodeEntries options kvs depth w
      else rbind (encodeText options k w) (\<lambda>w.
           rbind (encodeValue options v depth w) (encodeEntries options kvs depth)))"

declare encodeValue.simps [simp del]

definition encodeCbor :: "js \<Rightarrow> CborOptions option \<Rightarrow> cbor_error + byte list" where
  "encodeCbor value options =
     rbind (resolveOptions options) (\<lambda>resolved.
     rbind (encodeValue resolved value 0 (new_CborWriter (maxByteLength resolved))) (\<lambda>w.
     Inr (finish w)))"

section \<open>Decoder\<close>

type_synonym reader = "byte list"

definition readByte :: "reader \<Rightarrow> cbor_error + nat \<times> reader" where
  "readByte r = (case r of [] \<Rightarrow> Inl Truncated | b # bs \<Rightarrow> Inr (unat b, bs))"

definition readBytes :: "nat \<Rightarrow> reader \<Rightarrow> cbor_error + byte list \<times> reader" where
  "readBytes n r = (if n > length r then Inl Truncated else Inr (take n r, drop n r))"

definition be_value :: "byte list \<Rightarrow> nat" where
  "be_value bs = foldl (\<lambda>acc b. acc * 256 + unat b) 0 bs"

definition readUint32 :: "reader \<Rightarrow> cbor_error + nat \<times> reader" where
  "readUint32 r = rbind (readBytes 4 r) (\<lambda>(bs, r).
     Inr (unat (bs ! 0) * 0x1000000 + unat (bs ! 1) * 0x10000 + unat (bs ! 2) * 0x100
          + unat (bs ! 3), r))"

definition readArgument :: "nat \<Rightarrow> reader \<Rightarrow> cbor_error + nat \<times> reader" where
  "readArgument additionalInformation r =
     (if additionalInformation < 24 then Inr (additionalInformation, r)
      else if additionalInformation = 24 then readByte r
      else if additionalInformation = 25 then
        rbind (readBytes 2 r) (\<lambda>(bs, r). Inr (unat (bs ! 0) * 0x100 + unat (bs ! 1), r))
      else if additionalInformation = 26 then readUint32 r
      else if additionalInformation = 27 then
        rbind (readUint32 r) (\<lambda>(high, r).
        rbind (readUint32 r) (\<lambda>(low, r).
        if high > 0x1fffff then Inl DecodedUnsafe else Inr (high * UINT32_BASE + low, r)))
      else if additionalInformation = 31 then Inl IndefiniteItem
      else Inl MalformedAdditional)"

definition readLength :: "nat \<Rightarrow> string \<Rightarrow> nat \<Rightarrow> reader \<Rightarrow> cbor_error + nat \<times> reader" where
  "readLength additionalInformation kind limit r =
     (if additionalInformation = 31 then Inl (IndefiniteLength kind)
      else rbind (readArgument additionalInformation r) (\<lambda>(n, r).
           if n > limit then Inl (LengthExceeds kind limit) else Inr (n, r)))"

definition readFloat64 :: "reader \<Rightarrow> cbor_error + js \<times> reader" where
  "readFloat64 r = rbind (readBytes 8 r) (\<lambda>(bs, r).
     let value = num_of_bits (of_nat (be_value bs)) in
     if \<not> is_finite value then Inl DecodedNotFinite
     else if is_integer value \<and> \<not> is_safe_integer value then Inl DecodedUnsafe
     else Inr (JNum value, r))"

definition readSimple :: "nat \<Rightarrow> reader \<Rightarrow> cbor_error + js \<times> reader" where
  "readSimple additionalInformation r =
     (if additionalInformation = 20 then Inr (JBool False, r)
      else if additionalInformation = 21 then Inr (JBool True, r)
      else if additionalInformation = 22 then Inr (JNull, r)
      else if additionalInformation = 27 then readFloat64 r
      else if additionalInformation = 31 then Inl BreakMarker
      else Inl UnsupportedSimple)"

text \<open>
  \<open>readItem\<close> with its loops over \<open>n\<close> array elements and over \<open>n\<close> map entries (\<open>kvs\<close> the object built
  so far, whose keys are the set \<open>keys\<close> of the source).
\<close>

function (sequential) readItem :: "ResolvedCborOptions \<Rightarrow> nat \<Rightarrow> reader \<Rightarrow> cbor_error + js \<times> reader"
  and readItems :: "ResolvedCborOptions \<Rightarrow> nat \<Rightarrow> nat \<Rightarrow> reader \<Rightarrow> cbor_error + js list \<times> reader"
  and readEntries :: "ResolvedCborOptions \<Rightarrow> nat \<Rightarrow> nat \<Rightarrow> (ustring \<times> js) list \<Rightarrow> reader
    \<Rightarrow> cbor_error + (ustring \<times> js) list \<times> reader"
where
  "readItem options depth r =
     (if depth > maxDepth options then Inl (DepthExceeds (maxDepth options))
      else rbind (readByte r) (\<lambda>(initial, r).
        let majorType = drop_bit 5 initial; additionalInformation = initial AND 0x1f in
        if majorType = 0 then
          rbind (readArgument additionalInformation r) (\<lambda>(n, r). Inr (JNum (NInt (int n)), r))
        else if majorType = 1 then
          rbind (readArgument additionalInformation r) (\<lambda>(n, r).
            if \<not> is_safe_integer (NInt (- 1 - int n)) then Inl DecodedUnsafe
            else Inr (JNum (NInt (- 1 - int n)), r))
        else if majorType = 2 then
          rbind (readLength additionalInformation ''byte string'' (maxByteLength options) r) (\<lambda>(n, r).
          rbind (readBytes n r) (\<lambda>(bs, r). Inr (JBytes bs, r)))
        else if majorType = 3 then
          rbind (readLength additionalInformation ''text string'' (maxByteLength options) r) (\<lambda>(n, r).
          rbind (readBytes n r) (\<lambda>(bs, r).
          case utf8_decode bs of None \<Rightarrow> Inl InvalidUtf8 | Some s \<Rightarrow> Inr (JStr s, r)))
        else if majorType = 4 then
          rbind (readLength additionalInformation ''array'' (maxContainerLength options) r) (\<lambda>(n, r).
          rbind (readItems options (depth + 1) n r) (\<lambda>(xs, r). Inr (JArr xs, r)))
        else if majorType = 5 then
          rbind (readLength additionalInformation ''map'' (maxContainerLength options) r) (\<lambda>(n, r).
          rbind (readEntries options (depth + 1) n [] r) (\<lambda>(kvs, r).
          Inr (JObj ObjectProto False kvs, r)))
        else if majorType = 6 then Inl TagUnsupported
        else if majorType = 7 then readSimple additionalInformation r
        else Inl MalformedMajor))"
| "readItems options depth 0 r = Inr ([], r)"
| "readItems options depth (Suc n) r =
     rbind (readItem options depth r) (\<lambda>(x, r).
     rbind (readItems options depth n r) (\<lambda>(xs, r). Inr (x # xs, r)))"
| "readEntries options depth 0 kvs r = Inr (kvs, r)"
| "readEntries options depth (Suc n) kvs r =
     rbind (readItem options depth r) (\<lambda>(key, r).
       case key of
         JStr k \<Rightarrow>
           if k \<in> fst ` set kvs then Inl DuplicateKey
           else rbind (readItem options depth r) (\<lambda>(v, r).
                readEntries options depth n (define_property kvs k v) r)
       | _ \<Rightarrow> Inl KeyNotString)"
  by pat_completeness auto
termination
  by (relation "measures
      [\<lambda>a. case a of Inl (opts, d, r) \<Rightarrow> maxDepth opts + 1 - d
           | Inr (Inl (opts, d, n, r)) \<Rightarrow> maxDepth opts + 1 - d
           | Inr (Inr (opts, d, n, kvs, r)) \<Rightarrow> maxDepth opts + 1 - d,
       \<lambda>a. case a of Inl _ \<Rightarrow> 0
           | Inr (Inl (opts, d, n, r)) \<Rightarrow> Suc n
           | Inr (Inr (opts, d, n, kvs, r)) \<Rightarrow> Suc n]") auto

declare readItem.simps [simp del]

definition decode :: "ResolvedCborOptions \<Rightarrow> byte list \<Rightarrow> cbor_error + js" where
  "decode options bytes =
     rbind (readItem options 0 bytes) (\<lambda>(value, r).
     if r \<noteq> [] then Inl TrailingData else Inr value)"

fun decodeCbor :: "js \<Rightarrow> CborOptions option \<Rightarrow> cbor_error + js" where
  "decodeCbor (JBytes bytes) options =
     rbind (resolveOptions options) (\<lambda>resolved.
     if length bytes > maxByteLength resolved then Inl (ByteLengthExceeds (maxByteLength resolved))
     else decode resolved bytes)"
| "decodeCbor _ options = Inl InputNotBytes"

end
