(* ===== verification/Cbor_Props.thy ===== *)
theory Cbor_Props
  imports Cbor
begin

unbundle bit_operations_syntax

text \<open>
  Correctness of the CBOR codec: an encoded value decodes to itself (properties whose
  value is \<open>undefined\<close> dropped, the null prototype replaced by the ordinary one), encoding is
  within the configured limits, and every decoded value is one the encoder accepts.
\<close>

section \<open>What the round trip preserves\<close>

fun norm :: "js \<Rightarrow> js"
  and norm_items :: "js list \<Rightarrow> js list"
  and norm_entries :: "(ustring \<times> js) list \<Rightarrow> (ustring \<times> js) list" where
  "norm (JArr xs) = JArr (norm_items xs)"
| "norm (JObj p s kvs) = JObj ObjectProto False (norm_entries kvs)"
| "norm v = v"
| "norm_items [] = []"
| "norm_items (x # xs) = norm x # norm_items xs"
| "norm_entries [] = []"
| "norm_entries ((k, v) # kvs) =
     (if v = JUndef then norm_entries kvs else (k, norm v) # norm_entries kvs)"

text \<open>The values of the language: numbers in normal form, property lists in property order.\<close>

fun js_ok :: "js \<Rightarrow> bool"
  and js_ok_items :: "js list \<Rightarrow> bool"
  and js_ok_entries :: "(ustring \<times> js) list \<Rightarrow> bool" where
  "js_ok (JNum n) = num_ok n"
| "js_ok (JArr xs) = js_ok_items xs"
| "js_ok (JObj p s kvs) = (keys_ordered (map fst kvs) \<and> js_ok_entries kvs)"
| "js_ok _ = True"
| "js_ok_items [] = True"
| "js_ok_items (x # xs) = (js_ok x \<and> js_ok_items xs)"
| "js_ok_entries [] = True"
| "js_ok_entries ((k, v) # kvs) = (js_ok v \<and> js_ok_entries kvs)"

section \<open>Heads\<close>

lemma or_prefix: "v < 32 \<Longrightarrow> push_bit 5 m OR v = 32 * m + (v :: nat)"
proof -
  assume "v < 32"
  then have v: "take_bit 5 v = v" by (simp add: take_bit_eq_mod)
  have "push_bit 5 m + v = push_bit 5 m OR v"
    by (rule disjunctive_add)
       (metis bit_push_bit_iff bit_take_bit_iff leD v)
  then show ?thesis by (simp add: push_bit_eq_mult)
qed

text \<open>The head of an item: major type and argument.\<close>

definition head_bytes :: "nat \<Rightarrow> nat \<Rightarrow> byte list" where
  "head_bytes m v =
     (if v < 24 then [of_nat (32 * m + v)]
      else if v \<le> 0xff then [of_nat (32 * m + 24), of_nat v]
      else if v \<le> 0xffff then [of_nat (32 * m + 25), of_nat (ushr v 8), of_nat v]
      else if v \<le> MAX_UINT32 then of_nat (32 * m + 26) # be32 v
      else of_nat (32 * m + 27) # be32 (v div UINT32_BASE) @ be32 (v mod UINT32_BASE))"

lemma writeByte_appends: "cw.appends (writeByte v) [of_nat v]"
  by (simp add: write_as_bytes cw.appends_put)

lemma writeUint16_appends: "cw.appends (writeUint16 v) [of_nat (ushr v 8), of_nat v]"
  by (simp add: write_as_bytes cw.appends_put)

lemma writeArgument_appends: "cw.appends (writeArgument m v) (head_bytes m v)"
proof -
  have s: "cw.appends (\<lambda>w. rbind (writeByte x w) f) (of_nat x # bs)" if "cw.appends f bs" for x f bs
    using cw.appends_seq [OF writeByte_appends [of x] that] by simp
  show ?thesis
    unfolding writeArgument_def Let_def head_bytes_def
    using writeByte_appends [of "32 * m + v"] s [OF writeByte_appends [of v]]
      s [OF writeUint16_appends [of v]] s [OF writeUint32_appends [of v]]
      s [OF writeUint64_appends [of v]]
    by (auto simp: or_prefix simp del: of_nat_add of_nat_mult)
qed

lemma unat_byte: "unat (of_nat n :: byte) = n mod 256"
  by (simp add: unat_of_nat take_bit_eq_mod)

lemma ushr_small: "v < 2 ^ 32 \<Longrightarrow> ushr v k = v div 2 ^ k"
  by (simp add: ushr_def drop_bit_eq_div)

lemma readUint32_be32:
  assumes "v < 2 ^ 32"
  shows "readUint32 (be32 v @ r) = Inr (v, r)"
proof -
  have d: "v div 65536 = v div 256 div 256" "v div 16777216 = v div 256 div 256 div 256"
    by (simp_all flip: div_mult2_eq)
  define a b c where "a = v div 256" and "b = a div 256" and "c = b div 256"
  have n: "v = a * 256 + v mod 256" "a = b * 256 + a mod 256" "b = c * 256 + b mod 256"
    unfolding a_def b_def c_def by (simp_all only: div_mult_mod_eq)
  have "c < 256"
    using assms unfolding c_def b_def a_def d [symmetric] by (simp add: div_less_iff_less_mult)
  then have "c mod 256 * 0x1000000 + b mod 256 * 0x10000 + a mod 256 * 0x100 + v mod 256 = v"
    using n by (simp only: mod_less)
  then show ?thesis
    using assms
    by (simp add: readUint32_def readBytes_def be32_def unat_byte ushr_small
        d a_def [symmetric] b_def [symmetric] c_def [symmetric])
qed

lemma and_0x1f: "n AND 0x1f = n mod (32 :: nat)"
  using take_bit_eq_mask [of 5 n] by (simp add: take_bit_eq_mod mask_eq_exp_minus_1)

lemma head_split:
  assumes "m < 8" and "a < 32"
  shows "drop_bit 5 (unat (of_nat (32 * m + a) :: byte)) = m"
    and "unat (of_nat (32 * m + a) :: byte) AND 0x1f = a"
proof -
  have "(32 * m + a) mod 256 = 32 * m + a" using assms by simp
  then show "drop_bit 5 (unat (of_nat (32 * m + a) :: byte)) = m"
    and "unat (of_nat (32 * m + a) :: byte) AND 0x1f = a"
    using assms by (simp_all only: unat_byte and_0x1f) (simp_all add: drop_bit_eq_div)
qed

text \<open>The reader takes a head apart again.\<close>

lemma head_read:
  assumes m: "m < 8" and v: "v \<le> nat max_safe"
  obtains b bs where "head_bytes m v = b # bs" and "drop_bit 5 (unat b) = m"
    and "unat b AND 0x1f \<noteq> 31" and "\<And>r. readArgument (unat b AND 0x1f) (bs @ r) = Inr (v, r)"
proof -
  note hs = head_split [OF m]
  consider "v < 24" | "\<not> v < 24" "v \<le> 0xff" | "\<not> v < 24" "\<not> v \<le> 0xff" "v \<le> 0xffff"
    | "\<not> v < 24" "\<not> v \<le> 0xff" "\<not> v \<le> 0xffff" "v \<le> MAX_UINT32"
    | "\<not> v < 24" "\<not> v \<le> 0xff" "\<not> v \<le> 0xffff" "\<not> v \<le> MAX_UINT32" by blast
  then show thesis
  proof cases
    case 1
    then show thesis
      using hs [of v] by (intro that [of "of_nat (32 * m + v)" "[]"])
        (simp_all add: head_bytes_def readArgument_def del: of_nat_add of_nat_mult)
  next
    case 2
    then show thesis
      using hs [of 24] by (intro that [of "of_nat (32 * m + 24)" "[of_nat v]"])
        (simp_all add: head_bytes_def readArgument_def readByte_def unat_byte
          del: of_nat_add of_nat_mult)
  next
    case 3
    then have "v div 256 < 256" by (simp add: div_less_iff_less_mult)
    with 3 show thesis
      using hs [of 25] by (intro that [of "of_nat (32 * m + 25)" "[of_nat (ushr v 8), of_nat v]"])
        (simp_all add: head_bytes_def readArgument_def readBytes_def unat_byte ushr_small
          del: of_nat_add of_nat_mult)
  next
    case 4
    then show thesis
      using hs [of 26] by (intro that [of "of_nat (32 * m + 26)" "be32 v"])
        (simp_all add: head_bytes_def readArgument_def readUint32_be32 MAX_UINT32_def
          del: of_nat_add of_nat_mult)
  next
    case 5
    have h: "v div UINT32_BASE < 2 ^ 32" "v mod UINT32_BASE < 2 ^ 32" "v div UINT32_BASE \<le> 0x1fffff"
      using v by (auto simp: UINT32_BASE_def max_safe_def div_less_iff_less_mult
          less_Suc_eq_le [symmetric])
    have "readArgument 27 ((be32 (v div UINT32_BASE) @ be32 (v mod UINT32_BASE)) @ r) = Inr (v, r)"
      for r
      using h(3) by (simp add: readArgument_def readUint32_be32 [OF h(1)] readUint32_be32 [OF h(2)])
    with 5 show thesis
      using hs [of 27]
      by (intro that [of "of_nat (32 * m + 27)"
            "be32 (v div UINT32_BASE) @ be32 (v mod UINT32_BASE)"])
        (simp_all add: head_bytes_def del: of_nat_add of_nat_mult)
  qed
qed

section \<open>Round trip of one item\<close>

lemma be_value_snoc: "be_value (bs @ [b]) = be_value bs * 256 + unat b"
  by (simp add: be_value_def)

lemma be_value_digits:
  "be_value (map (\<lambda>i. of_nat (n div 256 ^ (k - Suc i))) [0..<k]) = n mod 256 ^ k"
proof (induction k arbitrary: n)
  case 0
  then show ?case by (simp add: be_value_def)
next
  case (Suc k)
  have "map (\<lambda>i. of_nat (n div 256 ^ (Suc k - Suc i)) :: byte) [0..<Suc k]
      = map (\<lambda>i. of_nat (n div 256 div 256 ^ (k - Suc i))) [0..<k] @ [of_nat n]"
    by (auto simp: Suc_diff_le div_mult2_eq [symmetric] Suc_diff_Suc simp flip: power_Suc)
  then have "be_value (map (\<lambda>i. of_nat (n div 256 ^ (Suc k - Suc i))) [0..<Suc k])
      = (n div 256 mod 256 ^ k) * 256 + n mod 256"
    by (simp only: be_value_snoc Suc unat_byte)
  also have "\<dots> = n mod 256 ^ Suc k"
    by (simp add: mod_mult2_eq [of n 256 "256 ^ k"])
  finally show ?case .
qed

lemma unat_mod_idem: "unat (x :: 64 word) mod 256 ^ 8 = unat x"
proof -
  have "unat x < 2 ^ 64" using unsigned_less [of x] by simp
  then show ?thesis by simp
qed

lemma be_value_be64: "of_nat (be_value (be64 x)) = x"
proof -
  have "be_value (be64 x) = unat x mod 256 ^ 8"
    using be_value_digits [of "unat x" 8] by (simp add: be64_def del: upt_rec_numeral)
  also have "\<dots> = unat x" by (rule unat_mod_idem)
  finally show ?thesis by simp
qed

lemma length_be64 [simp]: "length (be64 x) = 8"
  by (simp add: be64_def)

lemma num_of_bits_negzero: "num_of_bits 0x8000000000000000 = NNegZero"
  by (simp add: num_of_bits_def)

lemma readFloat64_be64:
  "num_of_bits x = n \<Longrightarrow> is_finite n \<Longrightarrow> is_integer n \<longrightarrow> is_safe_integer n \<Longrightarrow>
     readFloat64 (be64 x @ r) = Inr (JNum n, r)"
  by (simp add: readFloat64_def readBytes_def be_value_be64 Let_def)

definition decodes :: "ResolvedCborOptions \<Rightarrow> nat \<Rightarrow> byte list \<Rightarrow> js \<Rightarrow> bool" where
  "decodes options depth bs v \<longleftrightarrow> (\<forall>r. readItem options depth (bs @ r) = Inr (v, r))"

text \<open>What \<open>readItem\<close> does once it has read a head.\<close>

definition after_head ::
  "ResolvedCborOptions \<Rightarrow> nat \<Rightarrow> nat \<Rightarrow> nat \<Rightarrow> reader \<Rightarrow> cbor_error + js \<times> reader" where
  "after_head options depth m v r =
     (if m = 0 then Inr (JNum (NInt (int v)), r)
      else if m = 1 then
        (if \<not> is_safe_integer (NInt (- 1 - int v)) then Inl DecodedUnsafe
         else Inr (JNum (NInt (- 1 - int v)), r))
      else if m = 2 then
        (if v > maxByteLength options then Inl (LengthExceeds ''byte string'' (maxByteLength options))
         else rbind (readBytes v r) (\<lambda>(bs, r). Inr (JBytes bs, r)))
      else if m = 3 then
        (if v > maxByteLength options then Inl (LengthExceeds ''text string'' (maxByteLength options))
         else rbind (readBytes v r) (\<lambda>(bs, r).
           case utf8_decode bs of None \<Rightarrow> Inl InvalidUtf8 | Some s \<Rightarrow> Inr (JStr s, r)))
      else if m = 4 then
        (if v > maxContainerLength options then Inl (LengthExceeds ''array'' (maxContainerLength options))
         else rbind (readItems options (depth + 1) v r) (\<lambda>(xs, r). Inr (JArr xs, r)))
      else
        (if v > maxContainerLength options then Inl (LengthExceeds ''map'' (maxContainerLength options))
         else rbind (readEntries options (depth + 1) v [] r) (\<lambda>(kvs, r).
           Inr (JObj ObjectProto False kvs, r))))"

lemma readItem_head:
  assumes "m < 6" and "v \<le> nat max_safe" and "depth \<le> maxDepth options"
  shows "readItem options depth (head_bytes m v @ r) = after_head options depth m v r"
proof -
  have "m < 8" using assms(1) by simp
  from head_read [OF this assms(2)] obtain b bs where h: "head_bytes m v = b # bs"
    "drop_bit 5 (unat b) = m" "unat b AND 0x1f \<noteq> 31"
    "\<And>r. readArgument (unat b AND 0x1f) (bs @ r) = Inr (v, r)" by metis
  have "readLength (unat b AND 0x1f) kind lim (bs @ r) =
      (if v > lim then Inl (LengthExceeds kind lim) else Inr (v, r))" for kind lim
    using h(3,4) by (simp add: readLength_def)
  then show ?thesis
    using assms(1,3) h(1,2,4)
    by (subst readItem.simps) (auto simp: readByte_def Let_def after_head_def)
qed

lemma readBytes_append [simp]: "readBytes (length bs) (bs @ r) = Inr (bs, r)"
  by (simp add: readBytes_def)

text \<open>The limits \<open>resolveOptions\<close> can return.\<close>

definition limits_ok :: "ResolvedCborOptions \<Rightarrow> bool" where
  "limits_ok options \<longleftrightarrow>
     maxByteLength options \<le> MAX_UINT32 \<and> maxContainerLength options \<le> MAX_UINT32"

lemma small_safe: "n \<le> MAX_UINT32 \<Longrightarrow> n \<le> nat max_safe"
  by (simp add: MAX_UINT32_def max_safe_def)

text \<open>\<open>wrote w w' bs\<close>: the step from \<open>w\<close> to \<open>w'\<close> appended \<open>bs\<close>.\<close>

definition wrote :: "CborWriter \<Rightarrow> CborWriter \<Rightarrow> byte list \<Rightarrow> bool" where
  "wrote w w' bs \<longleftrightarrow>
     writer_ok w' \<and> w_maxByteLength w' = w_maxByteLength w \<and> finish w' = finish w @ bs"

lemma wrote_trans: "wrote w w1 bs \<Longrightarrow> wrote w1 w2 cs \<Longrightarrow> wrote w w2 (bs @ cs)"
  by (simp add: wrote_def)

lemma wrote_refl: "writer_ok w \<Longrightarrow> wrote w w []"
  by (simp add: wrote_def)

lemma appends_wrote: "cw.appends f bs \<Longrightarrow> writer_ok w \<Longrightarrow> f w = Inr w' \<Longrightarrow> wrote w w' bs"
  by (auto simp: wrote_def dest: cw.appendsD)

lemma wrote_ok: "wrote w w' bs \<Longrightarrow> writer_ok w'"
  by (simp add: wrote_def)

lemmas writeArgument_wrote = appends_wrote [OF writeArgument_appends]
lemmas writeByte_wrote = appends_wrote [OF writeByte_appends]
lemmas writeBytes_wrote = appends_wrote [OF cw.appends_put]

lemma encodeText_decodes:
  assumes "encodeText options s w = Inr w'" and "writer_ok w" and "limits_ok options"
  obtains bs where "wrote w w' bs"
    and "\<And>depth. depth \<le> maxDepth options \<Longrightarrow> decodes options depth bs (JStr s)"
proof -
  let ?b = "utf8_encode s"
  from assms(1) obtain w1 where l: "length ?b \<le> maxByteLength options"
    and d: "utf8_decode ?b = Some s"
    and w1: "writeArgument 3 (length ?b) w = Inr w1" and w2: "writeBytes ?b w1 = Inr w'"
    by (auto simp: encodeText_def Let_def split: if_splits option.splits)
  have wr1: "wrote w w1 (head_bytes 3 (length ?b))"
    using writeArgument_wrote [OF assms(2) w1] .
  have "wrote w w' (head_bytes 3 (length ?b) @ ?b)"
    using wrote_trans [OF wr1 writeBytes_wrote [OF wrote_ok [OF wr1] w2]] .
  moreover have "length ?b \<le> nat max_safe"
    using l assms(3) small_safe by (fastforce simp: limits_ok_def)
  then have "decodes options depth (head_bytes 3 (length ?b) @ ?b) (JStr s)"
    if "depth \<le> maxDepth options" for depth
    using that l d by (simp add: decodes_def readItem_head after_head_def)
  ultimately show thesis by (rule that)
qed

lemma float_decodes:
  assumes "num_of_bits x = n" and "is_finite n" and "is_integer n \<longrightarrow> is_safe_integer n"
    and "depth \<le> maxDepth options"
  shows "decodes options depth (0xfb # be64 x) (JNum n)"
  unfolding decodes_def
  using assms by (subst readItem.simps)
    (simp add: readByte_def Let_def drop_bit_eq_div and_0x1f readSimple_def readFloat64_be64)

lemma writeFloat64_wrote:
  "writer_ok w \<Longrightarrow> writeFloat64 n w = Inr w' \<Longrightarrow> wrote w w' (0xfb # be64 (bits_of_num n))"
  using writeBytes_wrote by (simp add: write_as_bytes)

lemma encodeNumber_decodes:
  assumes "encodeNumber n w = Inr w'" and "writer_ok w" and "num_ok n"
    and "depth \<le> maxDepth options"
  obtains bs where "wrote w w' bs" and "decodes options depth bs (JNum n)"
proof (cases n)
  case (NInt i)
  then have safe: "\<bar>i\<bar> \<le> max_safe" using assms(1) by (auto split: if_splits)
  show thesis
  proof (cases "i \<ge> 0")
    case True
    then have "writeArgument 0 (nat i) w = Inr w'" using NInt assms(1) by (auto split: if_splits)
    with True show thesis
      using safe NInt assms(2,4) by (intro that [OF writeArgument_wrote])
        (auto simp: decodes_def readItem_head after_head_def)
  next
    case False
    then have "writeArgument 1 (nat (- 1 - i)) w = Inr w'"
      using NInt assms(1) by (auto split: if_splits)
    with False show thesis
      using safe NInt assms(2,4) by (intro that [OF writeArgument_wrote])
        (auto simp: decodes_def readItem_head after_head_def)
  qed
next
  case NNegZero
  then have "writeFloat64 n w = Inr w'" using assms(1) by simp
  from that [OF writeFloat64_wrote [OF assms(2) this] float_decodes]
  show thesis using assms(4) NNegZero by (simp add: num_of_bits_negzero)
next
  case (NFrac x)
  then have "writeFloat64 n w = Inr w'" using assms(1) by simp
  from that [OF writeFloat64_wrote [OF assms(2) this] float_decodes]
  show thesis using assms(3,4) NFrac by simp
qed (use assms(1) in auto)

section \<open>Round trip of a value\<close>

lemma length_norm_entries: "length (norm_entries kvs) = length (defined_entries kvs)"
  by (induction kvs) (auto simp: defined_entries_def)

lemma length_norm_items [simp]: "length (norm_items xs) = length xs"
  by (induction xs) auto

text \<open>The bytes of a list of items or entries, as the container loops of the reader consume them.\<close>

definition decodes_items :: "ResolvedCborOptions \<Rightarrow> nat \<Rightarrow> byte list \<Rightarrow> js list \<Rightarrow> bool" where
  "decodes_items options depth bs xs \<longleftrightarrow>
     (\<forall>r. readItems options depth (length xs) (bs @ r) = Inr (xs, r))"

definition decodes_entries ::
  "ResolvedCborOptions \<Rightarrow> nat \<Rightarrow> byte list \<Rightarrow> (ustring \<times> js) list \<Rightarrow> (ustring \<times> js) list \<Rightarrow> bool"
where
  "decodes_entries options depth bs kvs nkvs \<longleftrightarrow>
     (\<forall>r acc. keys_ordered (map fst acc @ map fst kvs) \<longrightarrow>
        readEntries options depth (length nkvs) acc (bs @ r) = Inr (acc @ nkvs, r))"

lemma decodes_items_Cons:
  "decodes options depth bs x \<Longrightarrow> decodes_items options depth cs xs \<Longrightarrow>
     decodes_items options depth (bs @ cs) (x # xs)"
  by (simp add: decodes_def decodes_items_def)

lemma decodes_entries_Cons:
  assumes "decodes options depth bs (JStr k)" and "decodes options depth cs v"
    and "decodes_entries options depth ds kvs nkvs"
  shows "decodes_entries options depth (bs @ cs @ ds) ((k, u) # kvs) ((k, v) # nkvs)"
proof -
  have "readEntries options depth (Suc (length nkvs)) acc (bs @ cs @ ds @ r)
      = Inr (acc @ (k, v) # nkvs, r)"
    if ord: "keys_ordered (map fst acc @ k # map fst kvs)" for acc r
  proof -
    have new: "k \<notin> fst ` set acc" and bef: "\<forall>k0 \<in> fst ` set acc. key_before k0 k"
      using ord by (auto simp: keys_ordered_append)
    then have "define_property acc k v = acc @ [(k, v)]" by (simp add: define_property_last)
    moreover have "keys_ordered (map fst (acc @ [(k, v)]) @ map fst kvs)" using ord by simp
    ultimately show ?thesis
      using assms new by (auto simp: decodes_def decodes_entries_def simp del: map_append)
  qed
  then show ?thesis by (simp add: decodes_entries_def)
qed

lemma decodes_entries_skip:
  assumes "decodes_entries options depth ds kvs nkvs"
  shows "decodes_entries options depth ds ((k, u) # kvs) nkvs"
  using assms by (auto simp: decodes_entries_def keys_ordered_append)

lemma simple_decodes:
  assumes "depth \<le> maxDepth options"
  shows "decodes options depth [0xf6] JNull" "decodes options depth [0xf5] (JBool True)"
    "decodes options depth [0xf4] (JBool False)"
  using assms
  by (simp_all add: decodes_def readItem.simps readByte_def Let_def drop_bit_eq_div and_0x1f
      readSimple_def)

lemma encode_decodes:
  shows "encodeValue options v depth w = Inr w' \<Longrightarrow> js_ok v \<Longrightarrow> writer_ok w \<Longrightarrow>
      limits_ok options \<Longrightarrow>
      \<exists>bs. wrote w w' bs \<and> depth \<le> maxDepth options \<and> decodes options depth bs (norm v)"
    and "encodeItems options xs depth w = Inr w' \<Longrightarrow> js_ok_items xs \<Longrightarrow> writer_ok w \<Longrightarrow>
      limits_ok options \<Longrightarrow> \<exists>bs. wrote w w' bs \<and> decodes_items options depth bs (norm_items xs)"
    and "encodeEntries options kvs depth w = Inr w' \<Longrightarrow> js_ok_entries kvs \<Longrightarrow> writer_ok w \<Longrightarrow>
      limits_ok options \<Longrightarrow>
      \<exists>bs. wrote w w' bs \<and> decodes_entries options depth bs kvs (norm_entries kvs)"
proof (induction options v depth w and options xs depth w and options kvs depth w
    arbitrary: w' and w' and w'
    rule: encodeValue_encodeItems_encodeEntries.induct)
  case (1 options v depth w)
  note enc = "1.prems"(1) and vok = "1.prems"(2) and wok = "1.prems"(3) and lim = "1.prems"(4)
  have d: "\<not> depth > maxDepth options"
    using enc by (simp add: encodeValue.simps split: if_splits)
  then have d': "depth \<le> maxDepth options" by simp
  show ?case
  proof (cases v)
    case JNull
    with enc d have "writeByte 0xf6 w = Inr w'" by (simp add: encodeValue.simps)
    from writeByte_wrote [OF wok this] show ?thesis
      using simple_decodes [OF d'] JNull d' by auto
  next
    case (JBool b)
    with enc d have "writeByte (if b then 0xf5 else 0xf4) w = Inr w'" by (simp add: encodeValue.simps)
    from writeByte_wrote [OF wok this] show ?thesis
      using simple_decodes [OF d'] JBool d' by (cases b) auto
  next
    case (JNum n)
    with enc d have "encodeNumber n w = Inr w'" by (simp add: encodeValue.simps)
    from encodeNumber_decodes [OF this wok _ d'] show ?thesis
      using JNum vok d' by (metis js_ok.simps(1) norm.simps(6))
  next
    case (JStr t)
    with enc d have "encodeText options t w = Inr w'" by (simp add: encodeValue.simps)
    from encodeText_decodes [OF this wok lim] show ?thesis
      using JStr d' by (metis norm.simps(7))
  next
    case (JBytes bs)
    with enc d obtain w1 where l: "length bs \<le> maxByteLength options"
      and w1: "writeArgument 2 (length bs) w = Inr w1" and w2: "writeBytes bs w1 = Inr w'"
      by (auto simp: encodeValue.simps split: if_splits)
    have wr: "wrote w w1 (head_bytes 2 (length bs))" by (rule writeArgument_wrote [OF wok w1])
    have "length bs \<le> nat max_safe" using l lim small_safe by (fastforce simp: limits_ok_def)
    then have "decodes options depth (head_bytes 2 (length bs) @ bs) v"
      using d' l JBytes by (simp add: decodes_def readItem_head after_head_def)
    then show ?thesis
      using wrote_trans [OF wr writeBytes_wrote [OF wrote_ok [OF wr] w2]] JBytes d' by auto
  next
    case (JArr xs)
    with enc d obtain w1 where l: "\<not> length xs > maxContainerLength options"
      and w1: "writeArgument 4 (length xs) w = Inr w1"
      and w2: "encodeItems options xs (depth + 1) w1 = Inr w'"
      by (auto simp: encodeValue.simps split: if_splits)
    have wr: "wrote w w1 (head_bytes 4 (length xs))" by (rule writeArgument_wrote [OF wok w1])
    from "1.IH"(1) [OF d JArr l w1 w2 _ wrote_ok [OF wr] lim] JArr vok obtain bs where
      b: "wrote w1 w' bs" "decodes_items options (depth + 1) bs (norm_items xs)" by auto
    have "length xs \<le> nat max_safe" using l lim small_safe by (fastforce simp: limits_ok_def)
    then have "decodes options depth (head_bytes 4 (length xs) @ bs) (norm v)"
      using d' l b(2) JArr by (simp add: decodes_def decodes_items_def readItem_head after_head_def)
    then show ?thesis using wrote_trans [OF wr b(1)] d' by auto
  next
    case (JObj p sy kvs)
    let ?n = "length (defined_entries kvs)"
    from JObj enc d obtain w1 where pl: "\<not> \<not> isPlainObject v" and sy: "\<not> sy"
      and l: "\<not> ?n > maxContainerLength options"
      and w1: "writeArgument 5 ?n w = Inr w1"
      and w2: "encodeEntries options kvs (depth + 1) w1 = Inr w'"
      by (auto simp: encodeValue.simps split: if_splits)
    have wr: "wrote w w1 (head_bytes 5 ?n)" by (rule writeArgument_wrote [OF wok w1])
    from "1.IH"(2) [OF d JObj pl sy l w1 w2 _ wrote_ok [OF wr] lim] JObj vok obtain bs where
      b: "wrote w1 w' bs" "decodes_entries options (depth + 1) bs kvs (norm_entries kvs)" by auto
    have "?n \<le> nat max_safe" using l lim small_safe by (fastforce simp: limits_ok_def)
    then have "decodes options depth (head_bytes 5 ?n @ bs) (norm v)"
      using d' l b(2) JObj vok
      by (simp add: decodes_def decodes_entries_def readItem_head after_head_def length_norm_entries)
    then show ?thesis using wrote_trans [OF wr b(1)] d' by auto
  qed (use enc d in \<open>simp_all add: encodeValue.simps\<close>)
next
  case (2 options depth w)
  then show ?case
    by (auto intro!: exI [of _ "[]"] simp: wrote_refl decodes_items_def)
next
  case (3 options x xs depth w)
  then obtain w1 where x: "x \<noteq> JUndef" and w1: "encodeValue options x depth w = Inr w1"
    and w2: "encodeItems options xs depth w1 = Inr w'"
    by (auto split: if_splits)
  from 3(1) [OF x w1] 3(4,5,6) obtain bs where b: "wrote w w1 bs" "decodes options depth bs (norm x)"
    by auto
  from 3(2) [OF x w1 w2] 3(4,6) b(1) obtain cs where
    c: "wrote w1 w' cs" "decodes_items options depth cs (norm_items xs)" by (auto dest: wrote_ok)
  show ?case
    using wrote_trans [OF b(1) c(1)] decodes_items_Cons [OF b(2) c(2)] by auto
next
  case (4 options depth w)
  then show ?case
    by (auto intro!: exI [of _ "[]"] simp: wrote_refl decodes_entries_def)
next
  case (5 options k v kvs depth w)
  show ?case
  proof (cases "v = JUndef")
    case True
    with 5 show ?thesis by (auto intro: decodes_entries_skip)
  next
    case v: False
    then obtain w0 w1 where w0: "encodeText options k w = Inr w0"
      and w1: "encodeValue options v depth w0 = Inr w1"
      and w2: "encodeEntries options kvs depth w1 = Inr w'"
      using 5(4) by auto
    obtain as where a: "wrote w w0 as"
      "\<And>depth. depth \<le> maxDepth options \<Longrightarrow> decodes options depth as (JStr k)"
      using encodeText_decodes [OF w0 5(6,7)] by metis
    from 5(2) [OF v w0 w1] 5(5,7) a(1) obtain bs where
      b: "wrote w0 w1 bs" "depth \<le> maxDepth options" "decodes options depth bs (norm v)"
      by (auto dest: wrote_ok)
    from 5(3) [OF v w0 w1 w2] 5(5,7) b(1) obtain cs where
      c: "wrote w1 w' cs" "decodes_entries options depth cs kvs (norm_entries kvs)"
      by (auto dest: wrote_ok)
    show ?thesis
      using v wrote_trans [OF a(1) wrote_trans [OF b(1) c(1)]]
        decodes_entries_Cons [OF a(2) [OF b(2)] b(3) c(2)] by auto
  qed
qed

section \<open>Shape of decoded values\<close>

text \<open>
  \<open>protocol_value d v\<close>: no \<open>undefined\<close>, foreign or symbol-keyed object anywhere, numbers finite and
  integers safe, strings without lone surrogates, keys of an object distinct, nesting at most \<open>d\<close>.
\<close>

fun protocol_value :: "nat \<Rightarrow> js \<Rightarrow> bool" where
  "protocol_value d JNull = True"
| "protocol_value d (JBool b) = True"
| "protocol_value d (JNum n) = (num_ok n \<and> is_finite n \<and> (is_integer n \<longrightarrow> is_safe_integer n))"
| "protocol_value d (JStr s) = well_formed s"
| "protocol_value d (JBytes bs) = True"
| "protocol_value d (JArr xs) = (xs = [] \<or> d > 0 \<and> (\<forall>x \<in> set xs. protocol_value (d - 1) x))"
| "protocol_value d (JObj p s kvs) =
     (p = ObjectProto \<and> \<not> s \<and> distinct (map fst kvs) \<and>
      (kvs = [] \<or> d > 0 \<and> (\<forall>(k, v) \<in> set kvs. well_formed k \<and> protocol_value (d - 1) v)))"
| "protocol_value d JUndef = False"
| "protocol_value d (JOther t) = False"

lemma decode_scalar_scalar: "decode_scalar bs = Some (n, bs') \<Longrightarrow> scalar n"
  by (cases bs)
    (auto simp: Let_def scalar_def is_cont_def split: if_splits list.splits)

lemma well_formed_units_append:
  assumes "scalar n" and "well_formed s"
  shows "well_formed (units_of_scalar n @ s)"
proof (cases "n < 0x10000")
  case True
  then have "unat (of_nat n :: code_unit) = n" by (simp add: unat_of_nat16)
  then have c: "\<not> is_high (of_nat n)" "\<not> is_low (of_nat n)"
    using assms(1) by (auto simp: is_high_unat is_low_unat scalar_def)
  with True assms(2) show ?thesis by (cases s) (auto simp: units_of_scalar_def)
next
  case False
  let ?m = "n - 0x10000"
  have "?m < 0x400 * 0x400" using assms(1) False by (simp add: scalar_def)
  then have m: "?m div 0x400 < 0x400" by (simp add: div_less_iff_less_mult)
  then have "unat (of_nat (0xD800 + ?m div 0x400) :: code_unit) = 0xD800 + ?m div 0x400"
    "unat (of_nat (0xDC00 + ?m mod 0x400) :: code_unit) = 0xDC00 + ?m mod 0x400"
    by (intro unat_of_nat16; simp)+
  then have "is_high (of_nat (0xD800 + ?m div 0x400))" "is_low (of_nat (0xDC00 + ?m mod 0x400))"
    using m mod_less_divisor [where m = ?m and n = "0x400 :: nat"]
    by (auto simp: is_high_unat is_low_unat less_Suc_eq_le [symmetric] simp del: of_nat_add)
  with False assms(2) show ?thesis by (simp add: units_of_scalar_def del: of_nat_add)
qed

lemma utf8_decode_well_formed: "utf8_decode bs = Some s \<Longrightarrow> well_formed s"
proof (induction bs arbitrary: s rule: utf8_decode.induct)
  case (1 bs)
  show ?case
  proof (cases "bs = []")
    case True
    with 1(2) show ?thesis by (simp add: utf8_decode.simps)
  next
    case False
    with 1(2) obtain n bs' t where "decode_scalar bs = Some (n, bs')" "utf8_decode bs' = Some t"
      "s = units_of_scalar n @ t"
      by (subst (asm) utf8_decode.simps) (auto split: option.splits)
    with 1(1) [OF False] show ?thesis
      by (auto intro!: well_formed_units_append dest: decode_scalar_scalar)
  qed
qed

lemma num_ok_num_of_bits [simp]: "num_ok (num_of_bits w)"
proof (cases "num_of_bits w")
  case (NFrac x)
  then have "x = w" by (auto simp: num_of_bits_def Let_def split: if_splits)
  with NFrac show ?thesis by simp
qed auto

lemma readArgument_safe: "readArgument a r = Inr (n, r') \<Longrightarrow> int n \<le> max_safe"
proof -
  have b: "unat (x :: byte) < 256" for x using unsigned_less [of x] by simp
  have u: "x < 2 ^ 32" if "readUint32 q = Inr (x, q')" for x q q'
  proof -
    from that obtain bs where "x = unat (bs ! 0) * 0x1000000 + unat (bs ! 1) * 0x10000
        + unat (bs ! 2) * 0x100 + unat (bs ! 3 :: byte)"
      by (auto simp: readUint32_def)
    then show ?thesis using b [of "bs ! 0"] b [of "bs ! 1"] b [of "bs ! 2"] b [of "bs ! 3"] by simp
  qed
  assume r: "readArgument a r = Inr (n, r')"
  consider "a < 24" "n = a" | "a = 24" "readByte r = Inr (n, r')"
    | bs where "a = 25" "n = unat (bs ! 0 :: byte) * 0x100 + unat (bs ! 1)"
    | "a = 26" "readUint32 r = Inr (n, r')"
    | h l q q' where "a = 27" "n = h * UINT32_BASE + l" "h \<le> 0x1fffff" "readUint32 q = Inr (l, q')"
    using r by (auto simp: readArgument_def split: if_splits)
  then show "int n \<le> max_safe"
  proof cases
    case 2
    then obtain x :: byte where "n = unat x" by (auto simp: readByte_def split: list.splits)
    then have "n < 256" using b [of x] by simp
    then show ?thesis by (simp add: max_safe_def)
  next
    case 3
    then have "n < 256 * 256" using b [of "bs ! 0"] b [of "bs ! 1"] by simp
    then show ?thesis by (simp add: max_safe_def)
  next
    case 4
    then show ?thesis using u [OF 4(2)] by (simp add: max_safe_def)
  next
    case 5
    then show ?thesis using u [OF 5(4)] by (simp add: max_safe_def UINT32_BASE_def)
  qed (use u in \<open>auto simp: max_safe_def\<close>)
qed

lemma define_property_set: "set (define_property kvs k v) = insert (k, v) (set kvs)"
  by (induction kvs k v rule: define_property.induct) auto

lemma define_property_keys:
  "set (map fst (define_property kvs k v)) = insert k (set (map fst kvs))"
  by (simp add: define_property_set)

lemma define_property_distinct:
  "distinct (map fst kvs) \<Longrightarrow> k \<notin> fst ` set kvs \<Longrightarrow> distinct (map fst (define_property kvs k v))"
  by (induction kvs k v rule: define_property.induct)
    (auto simp: define_property_keys simp del: set_map simp flip: set_map)

lemma read_sound:
  shows "readItem options depth r = Inr (v, r') \<Longrightarrow>
      depth \<le> maxDepth options \<and> protocol_value (maxDepth options - depth) v"
    and "readItems options depth n r = Inr (xs, r') \<Longrightarrow>
      xs = [] \<or> depth \<le> maxDepth options \<and> (\<forall>x \<in> set xs. protocol_value (maxDepth options - depth) x)"
    and "readEntries options depth n kvs r = Inr (kvs', r') \<Longrightarrow> distinct (map fst kvs) \<Longrightarrow>
      kvs = [] \<or> depth \<le> maxDepth options \<and>
        (\<forall>(k, v) \<in> set kvs. well_formed k \<and> protocol_value (maxDepth options - depth) v) \<Longrightarrow>
      distinct (map fst kvs') \<and> (kvs' = [] \<or> depth \<le> maxDepth options \<and>
        (\<forall>(k, v) \<in> set kvs'. well_formed k \<and> protocol_value (maxDepth options - depth) v))"
proof (induction options depth r and options depth n r and options depth n kvs r
    arbitrary: v r' and xs r' and kvs' r' rule: readItem_readItems_readEntries.induct)
  case (1 options depth r)
  let ?P = "protocol_value (maxDepth options - depth)"
  have d: "depth \<le> maxDepth options"
    using 1(3) by (simp add: readItem.simps split: if_splits)
  from 1(3) obtain i r1 where rb: "readByte r = Inr (i, r1)"
    by (auto simp: readItem.simps split: if_splits)
  let ?m = "drop_bit 5 i" and ?a = "i AND 0x1f"
  note eq = 1(3) [unfolded readItem.simps [of options depth r] rb Let_def rbind_simps prod.case]
  consider n where "readArgument ?a r1 = Inr (n, r')" "v = JNum (NInt (int n))"
    | n where "v = JNum (NInt n)" "is_safe_integer (NInt n)"
    | bs where "v = JBytes bs"
    | bs t where "utf8_decode bs = Some t" "v = JStr t"
    | n r2 xs where "?m = 4" "readLength ?a ''array'' (maxContainerLength options) r1 = Inr (n, r2)"
        "readItems options (depth + 1) n r2 = Inr (xs, r')" "v = JArr xs"
    | n r2 kvs where "?m = 5" "readLength ?a ''map'' (maxContainerLength options) r1 = Inr (n, r2)"
        "readEntries options (depth + 1) n [] r2 = Inr (kvs, r')" "v = JObj ObjectProto False kvs"
    | "readSimple ?a r1 = Inr (v, r')"
    using eq by (auto split: if_splits option.splits)
  then have "?P v"
  proof cases
    case (1 n)
    then show ?thesis using readArgument_safe by (simp add: max_safe_def)
  next
    case (4 bs t)
    then show ?thesis by (auto dest: utf8_decode_well_formed)
  next
    case (5 n r2 xs)
    have "xs = [] \<or> depth + 1 \<le> maxDepth options \<and>
        (\<forall>x \<in> set xs. protocol_value (maxDepth options - (depth + 1)) x)"
      using d 5(1) by (intro "1.IH"(1) [OF _ rb refl refl refl _ _ _ _ _ 5(2) refl 5(3)]) simp_all
    then show ?thesis using 5(4) by auto
  next
    case (6 n r2 kvs)
    have "distinct (map fst kvs) \<and> (kvs = [] \<or> depth + 1 \<le> maxDepth options \<and>
        (\<forall>(k, v) \<in> set kvs. well_formed k \<and> protocol_value (maxDepth options - (depth + 1)) v))"
      using d 6(1) by (intro "1.IH"(2) [OF _ rb refl refl refl _ _ _ _ _ _ 6(2) refl 6(3)]) simp_all
    then show ?thesis using 6(4) by auto
  next
    case 7
    then show ?thesis by (auto simp: readSimple_def readFloat64_def Let_def split: if_splits)
  qed auto
  with d show ?case by simp
next
  case (3 options depth n r)
  then show ?case by fastforce
next
  case (5 options depth n kvs r)
  from 5(4) obtain k r1 v r2 where k: "readItem options depth r = Inr (JStr k, r1)"
    "k \<notin> fst ` set kvs" and v: "readItem options depth r1 = Inr (v, r2)"
    and rest: "readEntries options depth n (define_property kvs k v) r2 = Inr (kvs', r')"
    by (auto split: js.splits if_splits)
  have kw: "depth \<le> maxDepth options" "well_formed k"
    using 5(1) [OF k(1)] by auto
  have vw: "protocol_value (maxDepth options - depth) v"
    using 5(2) [OF k(1) _ _ k(2) v] by simp
  have "distinct (map fst (define_property kvs k v))"
    using 5(5) k(2) by (rule define_property_distinct)
  moreover have "\<forall>(k', v') \<in> set (define_property kvs k v).
      well_formed k' \<and> protocol_value (maxDepth options - depth) v'"
    using 5(6) kw vw by (auto simp: define_property_set)
  ultimately show ?case
    using 5(3) [OF k(1) _ _ k(2) v _ rest] kw by simp
qed auto

lemma encodeCbor_decodes:
  assumes "encodeCbor v options = Inr bs" and "js_ok v"
  shows "decodeCbor (JBytes bs) options = Inr (norm v)"
    and "\<exists>res. resolveOptions options = Inr res \<and> length bs \<le> maxByteLength res"
proof -
  from assms(1) obtain res w where res: "resolveOptions options = Inr res"
    and enc: "encodeValue res v 0 (new_CborWriter (maxByteLength res)) = Inr w"
    and bs: "bs = finish w"
    by (auto simp: encodeCbor_def)
  have lim: "limits_ok res"
    using resolveOptions_bounds [OF res] by (simp add: limits_ok_def)
  from encode_decodes(1) [OF enc assms(2) _ lim] bs have
    w: "writer_ok w" "w_maxByteLength w = maxByteLength res" and dec: "decodes res 0 bs (norm v)"
    by (auto simp: wrote_def)
  have l: "length bs \<le> maxByteLength res" using cw.out_within [OF w(1)] w(2) bs by simp
  moreover have "readItem res 0 (bs @ []) = Inr (norm v, [])"
    using dec unfolding decodes_def by blast
  ultimately show "decodeCbor (JBytes bs) options = Inr (norm v)" using res by (simp add: decode_def)
  show "\<exists>res. resolveOptions options = Inr res \<and> length bs \<le> maxByteLength res" using res l by blast
qed

text \<open>
  C1. Whatever \<open>encodeCbor\<close> produces, \<open>decodeCbor\<close> under the same options returns the value that was
  encoded, up to properties with the value \<open>undefined\<close> (dropped) and the null prototype (replaced
  by the ordinary one).
\<close>

theorem cbor_round_trip:
  assumes "encodeCbor v options = Inr bs" and "js_ok v"
  shows "decodeCbor (JBytes bs) options = Inr (norm v)"
  using encodeCbor_decodes(1) [OF assms] .

theorem cbor_round_trip_witness:
  "decodeCbor (JBytes [0xa1, 0x61, 0x61, 0x82, 0x18, 0xff, 0x20]) None
     = Inr (norm (JObj NullProto False
         [([97], JArr [JNum (NInt 255), JNum (NInt (- 1))]), ([98], JUndef)]))"
  by (rule cbor_round_trip) code_simp+

text \<open>
  Every value \<open>decodeCbor\<close> returns is a protocol value: only finite numbers and safe integers,
  well-formed strings, distinct keys, no \<open>undefined\<close>, and nesting within the configured depth.
\<close>

theorem decodeCbor_sound:
  assumes "decodeCbor input options = Inr v"
  shows "\<exists>resolved. resolveOptions options = Inr resolved \<and> protocol_value (maxDepth resolved) v"
proof -
  from assms obtain bytes res r where "input = JBytes bytes" "resolveOptions options = Inr res"
    "readItem res 0 bytes = Inr (v, r)"
    by (cases input) (auto simp: decode_def split: if_splits)
  then show ?thesis using read_sound(1) [of res 0 bytes v r] by auto
qed

theorem decodeCbor_sound_witness:
  "decodeCbor (JBytes [0xa1, 0x61, 0x61, 0x82, 0x18, 0xff, 0x20]) None
     = Inr (JObj ObjectProto False [([97], JArr [JNum (NInt 255), JNum (NInt (- 1))])])
   \<and> (\<exists>resolved. resolveOptions None = Inr resolved \<and>
        protocol_value (maxDepth resolved)
          (JObj ObjectProto False [([97], JArr [JNum (NInt 255), JNum (NInt (- 1))])]))"
proof -
  have d: "decodeCbor (JBytes [0xa1, 0x61, 0x61, 0x82, 0x18, 0xff, 0x20]) None
     = Inr (JObj ObjectProto False [([97], JArr [JNum (NInt 255), JNum (NInt (- 1))])])"
    by code_simp
  from decodeCbor_sound [OF d] d show ?thesis by blast
qed

end
