(* ===== verification/Framing.thy ===== *)
theory Framing
  imports Cbor_Props
begin

text \<open>
  \<^verbatim>\<open>pi/packages/protocol/src/framing.ts\<close>: length-prefixed frames and the incremental decoder. The
  decoder is modelled with its header buffer, its list of payload blocks and its
  alias of the block being filled (an index into the list). The specification is
  \<open>split_frames\<close>, which cuts one byte string into frames; the decoder refines it for every way of
  cutting the stream into chunks.
\<close>

definition FRAME_HEADER_LENGTH :: nat where "FRAME_HEADER_LENGTH = 4"
definition PAYLOAD_BLOCK_SIZE :: nat where "PAYLOAD_BLOCK_SIZE = 64 * 1024"
definition DEFAULT_MAX_FRAME_LENGTH :: nat where "DEFAULT_MAX_FRAME_LENGTH = 16 * 1024 * 1024"

datatype frame_error =
    BadMaxFrameLength
  | NotBytes
  | PayloadTooLong
  | IncompletePrefix
  | FrameTooLong nat nat
  | NotExactlyOneFrame
  | DecoderHasEnded
  | DecoderHasFailed
  | TruncatedFrame

fun resolveMaxFrameLength :: "jsnum option \<Rightarrow> frame_error + nat" where
  "resolveMaxFrameLength None = Inr DEFAULT_MAX_FRAME_LENGTH"
| "resolveMaxFrameLength (Some (NInt i)) =
     (if \<not> is_safe_integer (NInt i) \<or> i < 0 \<or> i > int MAX_UINT32
      then Inl BadMaxFrameLength else Inr (nat i))"
| "resolveMaxFrameLength (Some NNegZero) = Inr 0"
| "resolveMaxFrameLength (Some _) = Inl BadMaxFrameLength"

fun encodeFrame :: "js \<Rightarrow> frame_error + byte list" where
  "encodeFrame (JBytes payload) =
     (if length payload > MAX_UINT32 then Inl PayloadTooLong
      else let len = length payload;
               frame = replicate (FRAME_HEADER_LENGTH + len) 0;
               frame = frame[0 := of_nat (ushr len 24), 1 := of_nat (ushr len 16),
                             2 := of_nat (ushr len 8), 3 := of_nat len]
           in Inr (buf_set frame FRAME_HEADER_LENGTH payload))"
| "encodeFrame _ = Inl NotBytes"

definition header_value :: "byte list \<Rightarrow> nat" where
  "header_value h = unat (h ! 0) * 0x1000000 + unat (h ! 1) * 0x10000 + unat (h ! 2) * 0x100
     + unat (h ! 3)"

fun assertCompleteFrame :: "js \<Rightarrow> jsnum option \<Rightarrow> frame_error + unit" where
  "assertCompleteFrame (JBytes frame) options =
     (if length frame < FRAME_HEADER_LENGTH then Inl IncompletePrefix
      else let n = header_value frame in
        rbind (resolveMaxFrameLength options) (\<lambda>maxFrameLength.
        if n > maxFrameLength then Inl (FrameTooLong n maxFrameLength)
        else if length frame \<noteq> FRAME_HEADER_LENGTH + n then Inl NotExactlyOneFrame
        else Inr ()))"
| "assertCompleteFrame _ options = Inl NotBytes"

section \<open>The incremental decoder\<close>

datatype DecoderState = Open | Ended | Failed

record FrameDecoder =
  header :: "byte list"
  headerLength :: nat
  maxFrameLength :: nat
  payloadBlocks :: "byte list list"
  currentPayloadBlock :: "nat option"  \<comment> \<open>the index of the aliased block in \<open>payloadBlocks\<close>\<close>
  currentPayloadBlockLength :: nat
  expectedPayloadLength :: "nat option"
  payloadLength :: nat
  state :: DecoderState

definition new_FrameDecoder :: "jsnum option \<Rightarrow> frame_error + FrameDecoder" where
  "new_FrameDecoder options =
     rbind (resolveMaxFrameLength options) (\<lambda>m.
     Inr \<lparr>header = replicate FRAME_HEADER_LENGTH 0, headerLength = 0, maxFrameLength = m,
          payloadBlocks = [], currentPayloadBlock = None, currentPayloadBlockLength = 0,
          expectedPayloadLength = None, payloadLength = 0, state = Open\<rparr>)"

definition fail :: "FrameDecoder \<Rightarrow> FrameDecoder" where
  "fail d = d\<lparr>state := Failed, headerLength := 0, payloadBlocks := [], currentPayloadBlock := None,
     currentPayloadBlockLength := 0, expectedPayloadLength := None, payloadLength := 0\<rparr>"

text \<open>One pass of the payload loop: allocate a block when there is none to fill, then copy.
  \<open>rest\<close> is the part of the chunk at and after \<open>chunkOffset\<close>.\<close>

definition alloc_block :: "FrameDecoder \<Rightarrow> nat \<Rightarrow> FrameDecoder" where
  "alloc_block d expected =
     (if (case currentPayloadBlock d of None \<Rightarrow> True
          | Some i \<Rightarrow> currentPayloadBlockLength d = length (payloadBlocks d ! i))
      then d\<lparr>payloadBlocks := payloadBlocks d
               @ [replicate (min PAYLOAD_BLOCK_SIZE (expected - payloadLength d)) 0],
             currentPayloadBlock := Some (length (payloadBlocks d)),
             currentPayloadBlockLength := 0\<rparr>
      else d)"

definition copy_block :: "FrameDecoder \<Rightarrow> byte list \<Rightarrow> FrameDecoder \<times> byte list" where
  "copy_block d rest =
     (case currentPayloadBlock d of None \<Rightarrow> (d, rest)
      | Some i \<Rightarrow>
          let block = payloadBlocks d ! i;
              payloadBytes = min (length block - currentPayloadBlockLength d) (length rest)
          in (d\<lparr>payloadBlocks := (payloadBlocks d)
                 [i := buf_set block (currentPayloadBlockLength d) (take payloadBytes rest)],
               currentPayloadBlockLength := currentPayloadBlockLength d + payloadBytes,
               payloadLength := payloadLength d + payloadBytes\<rparr>,
              drop payloadBytes rest))"

text \<open>
  The two loops of \<open>push\<close>. Both stop when a pass consumes no byte; in the states the decoder can be
  in every pass does, as \<open>push_refines\<close> shows (the loop then runs over the whole chunk).
\<close>

function payload_loop :: "FrameDecoder \<Rightarrow> byte list \<Rightarrow> nat \<Rightarrow> FrameDecoder \<times> byte list" where
  "payload_loop d rest expected =
     (if rest \<noteq> [] \<and> payloadLength d < expected
      then let (d', rest') = copy_block (alloc_block d expected) rest
           in if length rest' < length rest then payload_loop d' rest' expected else (d', rest')
      else (d, rest))"
  by pat_completeness auto
termination
  by (relation "measure (\<lambda>(d, rest, expected). length rest)") auto

declare payload_loop.simps [simp del]

fun copy_blocks :: "byte list \<Rightarrow> nat \<Rightarrow> byte list list \<Rightarrow> byte list" where
  "copy_blocks payload offset [] = payload"
| "copy_blocks payload offset (b # bs) =
     copy_blocks (buf_set payload offset b) (offset + length b) bs"

definition take_payload :: "FrameDecoder \<Rightarrow> nat \<Rightarrow> byte list" where
  "take_payload d expected =
     (if length (payloadBlocks d) = 1 then payloadBlocks d ! 0
      else copy_blocks (replicate expected 0) 0 (payloadBlocks d))"

definition reset_payload :: "FrameDecoder \<Rightarrow> FrameDecoder" where
  "reset_payload d = d\<lparr>payloadBlocks := [], currentPayloadBlock := None,
     currentPayloadBlockLength := 0, expectedPayloadLength := None, payloadLength := 0\<rparr>"

text \<open>The payload half of a pass of the outer loop.\<close>

definition payload_step ::
  "FrameDecoder \<Rightarrow> byte list \<Rightarrow> byte list list \<Rightarrow> FrameDecoder \<times> byte list \<times> byte list list" where
  "payload_step d rest frames =
     (case expectedPayloadLength d of None \<Rightarrow> (d, rest, frames)
      | Some expected \<Rightarrow>
          let (d, rest) = payload_loop d rest expected in
          if payloadLength d = expected
          then (reset_payload d, rest, frames @ [take_payload d expected])
          else (d, rest, frames))"

text \<open>One pass of the outer loop: \<open>Inl\<close> is the frame length \<open>fail\<close> reports and the state it is called in.\<close>

definition push_step :: "FrameDecoder \<Rightarrow> byte list \<Rightarrow> byte list list
    \<Rightarrow> (nat \<times> FrameDecoder) + (FrameDecoder \<times> byte list \<times> byte list list)" where
  "push_step d rest frames =
     (if expectedPayloadLength d = None then
        let headerBytes = min (FRAME_HEADER_LENGTH - headerLength d) (length rest);
            d = d\<lparr>header := buf_set (header d) (headerLength d) (take headerBytes rest),
                  headerLength := headerLength d + headerBytes\<rparr>;
            rest = drop headerBytes rest
        in if headerLength d < FRAME_HEADER_LENGTH then Inr (d, rest, frames)
           else let frameLength = header_value (header d); d = d\<lparr>headerLength := 0\<rparr> in
             if frameLength > maxFrameLength d then Inl (frameLength, d)
             else if frameLength = 0 then Inr (d, rest, frames @ [[]])
             else Inr (payload_step
                    (d\<lparr>expectedPayloadLength := Some frameLength, payloadBlocks := [],
                       currentPayloadBlock := None, currentPayloadBlockLength := 0,
                       payloadLength := 0\<rparr>) rest frames)
      else Inr (payload_step d rest frames))"

function push_loop :: "FrameDecoder \<Rightarrow> byte list \<Rightarrow> byte list list
    \<Rightarrow> (frame_error + byte list list) \<times> FrameDecoder" where
  "push_loop d rest frames =
     (if rest = [] then (Inr frames, d)
      else case push_step d rest frames of
          Inl (n, d') \<Rightarrow> (Inl (FrameTooLong n (maxFrameLength d')), fail d')
        | Inr (d', rest', frames') \<Rightarrow>
            if length rest' < length rest then push_loop d' rest' frames' else (Inr frames', d'))"
  by pat_completeness auto
termination
  by (relation "measure (\<lambda>(d, rest, frames). length rest)") auto

declare push_loop.simps [simp del]

definition push :: "FrameDecoder \<Rightarrow> js \<Rightarrow> (frame_error + byte list list) \<times> FrameDecoder" where
  "push d chunk =
     (case state d of
        Ended \<Rightarrow> (Inl DecoderHasEnded, d)
      | Failed \<Rightarrow> (Inl DecoderHasFailed, d)
      | Open \<Rightarrow> (case chunk of JBytes bytes \<Rightarrow> push_loop d bytes [] | _ \<Rightarrow> (Inl NotBytes, d)))"

definition end_decoder :: "FrameDecoder \<Rightarrow> (frame_error + unit) \<times> FrameDecoder" where
  "end_decoder d =
     (case state d of
        Ended \<Rightarrow> (Inl DecoderHasEnded, d)
      | Failed \<Rightarrow> (Inl DecoderHasFailed, d)
      | Open \<Rightarrow>
          if headerLength d \<noteq> 0 \<or> expectedPayloadLength d \<noteq> None
          then (Inl TruncatedFrame, fail d)
          else (Inr (), d\<lparr>state := Ended\<rparr>))"

section \<open>Specification\<close>

text \<open>Cutting a byte string into complete frames, what is left over kept.\<close>

function split_frames :: "nat \<Rightarrow> byte list \<Rightarrow> nat + (byte list list \<times> byte list)" where
  "split_frames m bs =
     (if length bs < 4 then Inr ([], bs)
      else let n = header_value bs in
        if n > m then Inl n
        else if length bs < 4 + n then Inr ([], bs)
        else rbind (split_frames m (drop (4 + n) bs)) (\<lambda>(fs, r).
             Inr (take n (drop 4 bs) # fs, r)))"
  by pat_completeness auto
termination
  by (relation "measure (\<lambda>(m, bs). length bs)") auto

declare split_frames.simps [simp del]

text \<open>The bytes the decoder holds back: a partial header, or a header and a partial payload.\<close>

definition pending :: "FrameDecoder \<Rightarrow> byte list" where
  "pending d =
     (case expectedPayloadLength d of
        None \<Rightarrow> take (headerLength d) (header d)
      | Some n \<Rightarrow> be32 n @ take (payloadLength d) (concat (payloadBlocks d)))"

definition blocks_ok :: "FrameDecoder \<Rightarrow> nat \<Rightarrow> bool" where
  "blocks_ok d n \<longleftrightarrow>
     payloadLength d \<le> n \<and>
     (payloadBlocks d = [] \<and> currentPayloadBlock d = None \<and> currentPayloadBlockLength d = 0
        \<and> payloadLength d = 0
      \<or> (\<exists>bs b. payloadBlocks d = bs @ [b] \<and> currentPayloadBlock d = Some (length bs)
           \<and> currentPayloadBlockLength d \<le> length b
           \<and> payloadLength d = length (concat bs) + currentPayloadBlockLength d
           \<and> length (concat bs) + length b \<le> n))"

definition decoder_ok :: "FrameDecoder \<Rightarrow> bool" where
  "decoder_ok d \<longleftrightarrow>
     state d = Open \<and> length (header d) = 4 \<and> headerLength d < 4 \<and> maxFrameLength d \<le> MAX_UINT32 \<and>
     (case expectedPayloadLength d of
        None \<Rightarrow> True
      | Some n \<Rightarrow> headerLength d = 0 \<and> n \<le> maxFrameLength d \<and> payloadLength d < n \<and> blocks_ok d n)"

end
