(* ===== verification/Framing_Props.thy ===== *)
theory Framing_Props
  imports Framing
begin

text \<open>
  The frame decoder refines \<open>split_frames\<close>: after any sequence of pushes it has
  delivered exactly the complete frames of the bytes pushed so far and holds back the rest.
\<close>

section \<open>Headers\<close>

lemma header_value_be32: "v < 2 ^ 32 \<Longrightarrow> header_value (be32 v @ r) = v"
  using readUint32_be32 [of v r]
  by (simp add: header_value_def readUint32_def readBytes_def be32_def nth_append)

lemma header_value_take: "4 \<le> n \<Longrightarrow> n \<le> length h \<Longrightarrow> header_value (take n h @ r) = header_value h"
  by (simp add: header_value_def nth_append)

lemma unat_byte_lt: "unat (x :: byte) < 256"
  using unsigned_less [of x] by simp

lemma header_value_bound: "header_value h < 2 ^ 32"
  using unat_byte_lt [of "h ! 0"] unat_byte_lt [of "h ! 1"] unat_byte_lt [of "h ! 2"]
    unat_byte_lt [of "h ! 3"] by (simp add: header_value_def)

lemma be32_header_value:
  assumes "length h = 4"
  shows "be32 (header_value h) = h"
proof -
  from assms obtain a b c d where h: "h = [a, b, c, d]"
    by (auto simp: length_Suc_conv numeral_eq_Suc)
  let ?v = "header_value h"
  have v: "?v = ((unat a * 256 + unat b) * 256 + unat c) * 256 + unat d"
    by (simp add: header_value_def h)
  note lt = unat_byte_lt [of a] unat_byte_lt [of b] unat_byte_lt [of c] unat_byte_lt [of d]
  have q: "?v div 256 = (unat a * 256 + unat b) * 256 + unat c"
    "?v div 256 div 256 = unat a * 256 + unat b" "?v div 256 div 256 div 256 = unat a"
    using lt by (simp_all add: v)
  have e: "?v div 2 ^ 8 = ?v div 256" "?v div 2 ^ 16 = ?v div 256 div 256"
    "?v div 2 ^ 24 = ?v div 256 div 256 div 256"
    by (simp_all flip: div_mult2_eq)
  have w: "(of_nat (x * 256 + unat y) :: byte) = y" for x y
    using unat_byte_lt [of y] by (simp only: word_unat_eq_iff unat_byte) simp
  have u: "ushr ?v 24 = unat a" "ushr ?v 16 = unat a * 256 + unat b"
    "ushr ?v 8 = (unat a * 256 + unat b) * 256 + unat c"
    using header_value_bound [of h] lt by (simp_all only: ushr_small e q) simp_all
  have "of_nat (ushr ?v 24) = a" by (simp add: u)
  moreover have "of_nat (ushr ?v 16) = b" "of_nat (ushr ?v 8) = c" by (simp_all only: u w)
  moreover have "(of_nat ?v :: byte) = d" by (simp only: v w)
  ultimately show ?thesis by (simp add: be32_def h)
qed

lemma length_be32 [simp]: "length (be32 v) = 4"
  by (simp add: be32_def)

section \<open>The payload loop\<close>

lemma blocks_ok_alloc:
  assumes "blocks_ok d n" and "payloadLength d < n"
  defines "d' \<equiv> alloc_block d n"
  shows "\<exists>bs b. payloadBlocks d' = bs @ [b] \<and> currentPayloadBlock d' = Some (length bs)
      \<and> currentPayloadBlockLength d' < length b
      \<and> payloadLength d' = length (concat bs) + currentPayloadBlockLength d'
      \<and> length (concat bs) + length b \<le> n
      \<and> take (payloadLength d) (concat (payloadBlocks d')) = take (payloadLength d) (concat (payloadBlocks d))"
    and "payloadLength d' = payloadLength d" and "expectedPayloadLength d' = expectedPayloadLength d"
    and "header d' = header d" and "headerLength d' = headerLength d"
    and "maxFrameLength d' = maxFrameLength d" and "state d' = state d"
proof -
  show "payloadLength d' = payloadLength d" "expectedPayloadLength d' = expectedPayloadLength d"
    "header d' = header d" "headerLength d' = headerLength d"
    "maxFrameLength d' = maxFrameLength d" "state d' = state d"
    by (auto simp: d'_def alloc_block_def)
  have "0 < PAYLOAD_BLOCK_SIZE" by (simp add: PAYLOAD_BLOCK_SIZE_def)
  with assms(1,2) show "\<exists>bs b. payloadBlocks d' = bs @ [b] \<and> currentPayloadBlock d' = Some (length bs)
      \<and> currentPayloadBlockLength d' < length b
      \<and> payloadLength d' = length (concat bs) + currentPayloadBlockLength d'
      \<and> length (concat bs) + length b \<le> n
      \<and> take (payloadLength d) (concat (payloadBlocks d')) = take (payloadLength d) (concat (payloadBlocks d))"
    by (auto simp: d'_def alloc_block_def blocks_ok_def nth_append)
qed

lemma copy_block_step:
  assumes d: "payloadBlocks d = bs @ [b]" "currentPayloadBlock d = Some (length bs)"
    "currentPayloadBlockLength d < length b"
    "payloadLength d = length (concat bs) + currentPayloadBlockLength d"
    "length (concat bs) + length b \<le> n" and r: "rest \<noteq> []"
  defines "k \<equiv> min (length b - currentPayloadBlockLength d) (length rest)"
  shows "\<exists>d'. copy_block d rest = (d', drop k rest) \<and> 0 < k \<and> payloadLength d' = payloadLength d + k
      \<and> blocks_ok d' n \<and> expectedPayloadLength d' = expectedPayloadLength d
      \<and> header d' = header d \<and> headerLength d' = headerLength d
      \<and> maxFrameLength d' = maxFrameLength d \<and> state d' = state d
      \<and> take (payloadLength d') (concat (payloadBlocks d'))
        = take (payloadLength d) (concat (payloadBlocks d)) @ take k rest"
proof -
  have k: "0 < k" "currentPayloadBlockLength d + k \<le> length b" "length (take k rest) = k"
    using d(3) r by (auto simp: k_def)
  let ?b = "buf_set b (currentPayloadBlockLength d) (take k rest)"
  have lb: "length ?b = length b"
    using k by (intro length_buf_set) simp
  have tb: "take (currentPayloadBlockLength d + k) ?b = take (currentPayloadBlockLength d) b @ take k rest"
    using take_buf_set [of "currentPayloadBlockLength d" "take k rest" b] k by simp
  let ?d = "d\<lparr>payloadBlocks := bs @ [?b],
      currentPayloadBlockLength := currentPayloadBlockLength d + k,
      payloadLength := payloadLength d + k\<rparr>"
  have "copy_block d rest = (?d, drop k rest)"
    using d(1,2) by (simp add: copy_block_def Let_def k_def nth_append list_update_append)
  moreover have "blocks_ok ?d n" using d k lb by (auto simp: blocks_ok_def)
  moreover have "take (payloadLength d + k) (concat (bs @ [?b]))
      = take (payloadLength d) (concat (bs @ [b])) @ take k rest"
    using d(4) tb by (simp add: add.assoc)
  ultimately show ?thesis using d(1) k(1) by auto
qed

lemma payload_loop_spec:
  assumes "blocks_ok d n" and "k = min (n - payloadLength d) (length rest)"
  shows "\<exists>d'. payload_loop d rest n = (d', drop k rest) \<and> payloadLength d' = payloadLength d + k
      \<and> blocks_ok d' n \<and> expectedPayloadLength d' = expectedPayloadLength d
      \<and> header d' = header d \<and> headerLength d' = headerLength d
      \<and> maxFrameLength d' = maxFrameLength d \<and> state d' = state d
      \<and> take (payloadLength d') (concat (payloadBlocks d'))
        = take (payloadLength d) (concat (payloadBlocks d)) @ take k rest"
  using assms
proof (induction d rest n arbitrary: k rule: payload_loop.induct)
  case (1 d rest n)
  show ?case
  proof (cases "rest \<noteq> [] \<and> payloadLength d < n")
    case False
    then have "k = 0" using 1(3) by auto
    with False 1(2) show ?thesis by (subst payload_loop.simps) auto
  next
    case True
    let ?a = "alloc_block d n"
    obtain bs b where a: "payloadBlocks ?a = bs @ [b]" "currentPayloadBlock ?a = Some (length bs)"
      "currentPayloadBlockLength ?a < length b"
      "payloadLength ?a = length (concat bs) + currentPayloadBlockLength ?a"
      "length (concat bs) + length b \<le> n"
      "take (payloadLength d) (concat (payloadBlocks ?a)) = take (payloadLength d) (concat (payloadBlocks d))"
      using blocks_ok_alloc(1) [OF 1(2)] True by blast
    note fr = blocks_ok_alloc(2-7) [OF 1(2) conjunct2 [OF True]]
    define j where "j = min (length b - currentPayloadBlockLength ?a) (length rest)"
    obtain d1 where c: "copy_block ?a rest = (d1, drop j rest)" "0 < j"
      "payloadLength d1 = payloadLength d + j" "blocks_ok d1 n"
      "expectedPayloadLength d1 = expectedPayloadLength d" "header d1 = header d"
      "headerLength d1 = headerLength d" "maxFrameLength d1 = maxFrameLength d" "state d1 = state d"
      "take (payloadLength d1) (concat (payloadBlocks d1))
        = take (payloadLength d) (concat (payloadBlocks d)) @ take j rest"
      using copy_block_step [OF a(1-5) conjunct1 [OF True]] fr a(6) unfolding j_def by auto
    have jr: "j \<le> length rest" by (simp add: j_def)
    have lt: "length (drop j rest) < length rest" using c(2) jr by auto
    define i where "i = min (n - payloadLength d1) (length (drop j rest))"
    have jn: "j \<le> n - payloadLength d" using c(3,4) by (auto simp: blocks_ok_def)
    have ki: "k = j + i" unfolding 1(3) i_def c(3) using jn jr by auto
    have "payload_loop d rest n = payload_loop d1 (drop j rest) n"
      using True c(1) lt by (subst payload_loop.simps) auto
    moreover obtain d2 where "payload_loop d1 (drop j rest) n = (d2, drop i (drop j rest))"
      "payloadLength d2 = payloadLength d1 + i" "blocks_ok d2 n"
      "expectedPayloadLength d2 = expectedPayloadLength d1" "header d2 = header d1"
      "headerLength d2 = headerLength d1" "maxFrameLength d2 = maxFrameLength d1" "state d2 = state d1"
      "take (payloadLength d2) (concat (payloadBlocks d2))
        = take (payloadLength d1) (concat (payloadBlocks d1)) @ take i (drop j rest)"
      using 1(1) [OF True c(1) [symmetric] refl lt c(4) i_def] by auto
    moreover have "take (j + i) rest = take j rest @ take i (drop j rest)"
      by (rule take_add)
    ultimately show ?thesis
      using c(3-10) by (intro exI [of _ d2]) (simp add: ki add.commute)
  qed
qed

lemma copy_blocks_concat:
  "length (concat bs) + off \<le> length p \<Longrightarrow>
     copy_blocks p off bs = take off p @ concat bs @ drop (off + length (concat bs)) p"
proof (induction bs arbitrary: p off)
  case (Cons b bs)
  have "copy_blocks p off (b # bs) = copy_blocks (buf_set p off b) (off + length b) bs" by simp
  also have "\<dots> = take (off + length b) (buf_set p off b) @ concat bs
      @ drop (off + length b + length (concat bs)) (buf_set p off b)"
    using Cons.prems by (intro Cons.IH) simp
  also have "\<dots> = take off p @ (b @ concat bs) @ drop (off + length (concat (b # bs))) p"
    using Cons.prems by (simp add: take_buf_set) (simp add: buf_set_def ac_simps)
  finally show ?case by simp
qed simp

lemma take_payload_full:
  assumes "blocks_ok d n" and "payloadLength d = n" and "0 < n"
  shows "take_payload d n = take n (concat (payloadBlocks d))"
proof -
  from assms obtain bs b where b: "payloadBlocks d = bs @ [b]" "length (concat (bs @ [b])) = n"
    by (auto simp: blocks_ok_def)
  show ?thesis
  proof (cases bs)
    case Nil
    with b show ?thesis by (simp add: take_payload_def)
  next
    case (Cons c cs)
    with b have "length (payloadBlocks d) \<noteq> 1" by simp
    moreover have "copy_blocks (replicate n 0) 0 (payloadBlocks d) = concat (payloadBlocks d)"
      using b by (subst copy_blocks_concat) (simp_all del: concat_append)
    ultimately show ?thesis using b by (simp add: take_payload_def del: concat_append)
  qed
qed

section \<open>One pass of the loop\<close>

lemma split_frames_short: "length bs < 4 \<Longrightarrow> split_frames m bs = Inr ([], bs)"
  by (subst split_frames.simps) simp

lemma split_frames_header:
  assumes "n < 2 ^ 32"
  shows "split_frames m (be32 n @ bs) =
     (if n > m then Inl n else if length bs < n then Inr ([], be32 n @ bs)
      else deliver [take n bs] (split_frames m (drop n bs)))"
  using header_value_be32 [OF assms, of bs]
  by (subst split_frames.simps) (simp add: Let_def deliver_def)

lemma payload_step_spec:
  assumes ok: "decoder_ok d" and e: "expectedPayloadLength d = Some n"
    and s: "payload_step d rest frames = (d', rest', frames')"
  shows "decoder_ok d' \<and> maxFrameLength d' = maxFrameLength d
      \<and> length rest' \<le> length rest \<and> (rest \<noteq> [] \<longrightarrow> length rest' < length rest)
      \<and> (\<exists>fs. frames' = frames @ fs \<and> split_frames (maxFrameLength d) (pending d @ rest)
            = deliver fs (split_frames (maxFrameLength d) (pending d' @ rest')))"
proof -
  let ?m = "maxFrameLength d"
  define k where "k = min (n - payloadLength d) (length rest)"
  have o: "state d = Open" "length (header d) = 4" "headerLength d = 0" "?m \<le> MAX_UINT32" "n \<le> ?m"
    "payloadLength d < n" "blocks_ok d n"
    using ok e by (auto simp: decoder_ok_def)
  have n: "n < 2 ^ 32" using o(4,5) by (simp add: MAX_UINT32_def)
  let ?P = "take (payloadLength d) (concat (payloadBlocks d))"
  have P: "length ?P = payloadLength d" using o(7) by (auto simp: blocks_ok_def)
  have pd: "pending d @ rest = be32 n @ ?P @ rest" by (simp add: pending_def e)
  obtain d1 where l: "payload_loop d rest n = (d1, drop k rest)" "payloadLength d1 = payloadLength d + k"
    "blocks_ok d1 n" "expectedPayloadLength d1 = Some n" "header d1 = header d"
    "headerLength d1 = 0" "maxFrameLength d1 = ?m" "state d1 = Open"
    "take (payloadLength d1) (concat (payloadBlocks d1)) = ?P @ take k rest"
    using payload_loop_spec [OF o(7) k_def] o(1,3) e by auto
  have k: "k \<le> length rest" "rest \<noteq> [] \<longrightarrow> 0 < k" using o(6) by (auto simp: k_def)
  show ?thesis
  proof (cases "payloadLength d + k = n")
    case True
    have tp: "take_payload d1 n = ?P @ take k rest"
      using take_payload_full [OF l(3)] l(2,9) True o(6) by simp
    have r: "d' = reset_payload d1" "rest' = drop k rest" "frames' = frames @ [?P @ take k rest]"
      using s True by (simp_all add: payload_step_def e l(1,2) tp)
    have "split_frames ?m (pending d @ rest) = deliver [?P @ take k rest] (split_frames ?m (drop k rest))"
      unfolding pd split_frames_header [OF n] using o(5) True k P by auto
    then show ?thesis
      using o l(5-8) k r by (auto simp: decoder_ok_def reset_payload_def pending_def)
  next
    case False
    then have kr: "k = length rest" "payloadLength d + length rest < n"
      using o(6) by (auto simp: k_def)
    have r: "d' = d1" "rest' = []" "frames' = frames"
      using s False by (simp_all add: payload_step_def e l(1,2) kr)
    have "pending d1 = pending d @ rest" using l(9) kr by (simp add: pending_def e l(4))
    then show ?thesis using o l kr r by (auto simp: decoder_ok_def)
  qed
qed

lemma push_step_spec:
  assumes ok: "decoder_ok d" and ne: "rest \<noteq> []"
  shows "case push_step d rest frames of
      Inl (n, d') \<Rightarrow> maxFrameLength d' = maxFrameLength d
        \<and> split_frames (maxFrameLength d) (pending d @ rest) = Inl n
    | Inr (d', rest', frames') \<Rightarrow> decoder_ok d' \<and> maxFrameLength d' = maxFrameLength d
        \<and> length rest' < length rest
        \<and> (\<exists>fs. frames' = frames @ fs \<and> split_frames (maxFrameLength d) (pending d @ rest)
            = deliver fs (split_frames (maxFrameLength d) (pending d' @ rest')))"
proof (cases "expectedPayloadLength d")
  case (Some n)
  obtain d' rest' frames' where "payload_step d rest frames = (d', rest', frames')"
    by (cases "payload_step d rest frames")
  with payload_step_spec [OF ok Some this] ne Some show ?thesis by (simp add: push_step_def)
next
  case None
  let ?m = "maxFrameLength d"
  define k where "k = min (4 - headerLength d) (length rest)"
  define h where "h = buf_set (header d) (headerLength d) (take k rest)"
  have o: "state d = Open" "length (header d) = 4" "headerLength d < 4" "?m \<le> MAX_UINT32"
    using ok by (auto simp: decoder_ok_def)
  have k: "0 < k" "k \<le> length rest" "headerLength d + k \<le> 4" using o ne by (auto simp: k_def)
  have lt: "length (drop k rest) < length rest" using k by simp
  have h: "length h = 4" "take (headerLength d + k) h = take (headerLength d) (header d) @ take k rest"
    using take_buf_set [of "headerLength d" "take k rest" "header d"] k o(2)
    by (simp_all add: h_def)
  have pd: "pending d @ rest = take (headerLength d + k) h @ drop k rest"
    using h by (simp add: pending_def None)
  show ?thesis
  proof (cases "headerLength d + k < 4")
    case True
    then show ?thesis
      using lt o h(1) pd
      by (simp add: push_step_def None Let_def FRAME_HEADER_LENGTH_def flip: k_def h_def)
        (simp add: decoder_ok_def pending_def None)
  next
    case False
    then have k4: "headerLength d + k = 4" using k by simp
    let ?n = "header_value h"
    have n: "?n < 2 ^ 32" by (rule header_value_bound)
    have pd4: "pending d @ rest = be32 ?n @ drop k rest"
      using pd k4 h be32_header_value [OF h(1)] by simp
    let ?d = "d\<lparr>header := h, headerLength := 0, expectedPayloadLength := Some ?n,
        payloadBlocks := [], currentPayloadBlock := None, currentPayloadBlockLength := 0,
        payloadLength := 0\<rparr>"
    obtain d' rest' frames' where p: "payload_step ?d (drop k rest) frames = (d', rest', frames')"
      by (cases "payload_step ?d (drop k rest) frames")
    have st: "push_step d rest frames =
       (if ?n > ?m then Inl (?n, d\<lparr>header := h, headerLength := 0\<rparr>)
        else if ?n = 0 then Inr (d\<lparr>header := h, headerLength := 0\<rparr>, drop k rest, frames @ [[]])
        else Inr (d', rest', frames'))"
      using k4 p by (simp add: push_step_def None Let_def FRAME_HEADER_LENGTH_def flip: k_def h_def)
    consider "?n > ?m" | "?n \<le> ?m" "?n = 0" | "?n \<le> ?m" "0 < ?n" by linarith
    then show ?thesis
    proof cases
      case 1
      then show ?thesis by (simp add: st pd4 split_frames_header [OF n])
    next
      case 2
      then have "split_frames ?m (pending d @ rest) = deliver [[]] (split_frames ?m (drop k rest))"
        using split_frames_header [OF n, of ?m] by (simp add: pd4)
      with 2 o h(1) lt show ?thesis by (simp add: st) (simp add: decoder_ok_def pending_def None)
    next
      case 3
      have "decoder_ok ?d" using o h(1) 3 by (simp add: decoder_ok_def blocks_ok_def)
      from payload_step_spec [OF this _ p] 3 lt show ?thesis
        by (simp add: st pd4) (simp add: pending_def)
    qed
  qed
qed

section \<open>Pushing a chunk\<close>

lemma pending_incomplete: "decoder_ok d \<Longrightarrow> split_frames (maxFrameLength d) (pending d) = Inr ([], pending d)"
  by (cases "expectedPayloadLength d")
    (auto simp: decoder_ok_def pending_def split_frames_short split_frames_header MAX_UINT32_def
      blocks_ok_def)

lemma push_loop_spec:
  assumes "decoder_ok d"
  shows "case split_frames (maxFrameLength d) (pending d @ rest) of
      Inl n \<Rightarrow> \<exists>d'. push_loop d rest frames = (Inl (FrameTooLong n (maxFrameLength d)), fail d')
    | Inr (fs, q) \<Rightarrow> \<exists>d'. push_loop d rest frames = (Inr (frames @ fs), d') \<and> decoder_ok d'
        \<and> maxFrameLength d' = maxFrameLength d \<and> pending d' = q"
  using assms
proof (induction d rest frames rule: push_loop.induct)
  case (1 d rest frames)
  show ?case
  proof (cases "rest = []")
    case True
    with 1(2) show ?thesis by (simp add: pending_incomplete) (simp add: push_loop.simps)
  next
    case False
    note sp = push_step_spec [OF 1(2) False, of frames]
    show ?thesis
    proof (cases "push_step d rest frames")
      case (Inl e)
      with sp False show ?thesis by (subst push_loop.simps) (auto split: prod.splits)
    next
      case (Inr r)
      obtain d1 rest1 frames1 where r: "r = (d1, rest1, frames1)" by (cases r)
      from sp Inr r obtain fs where s: "decoder_ok d1" "maxFrameLength d1 = maxFrameLength d"
        "length rest1 < length rest" "frames1 = frames @ fs"
        "split_frames (maxFrameLength d) (pending d @ rest)
          = deliver fs (split_frames (maxFrameLength d) (pending d1 @ rest1))" by auto
      have "push_loop d rest frames = push_loop d1 rest1 frames1"
        using False Inr r s(3) by (subst push_loop.simps) simp
      with 1(1) [OF False Inr r [symmetric] refl s(3,1)] s(2,4,5) show ?thesis
        by (auto split: sum.splits prod.splits)
    qed
  qed
qed

lemma split_frames_append:
  "split_frames m (xs @ ys) =
     (case split_frames m xs of Inl e \<Rightarrow> Inl e | Inr (fs, q) \<Rightarrow> deliver fs (split_frames m (q @ ys)))"
proof (induction m xs rule: split_frames.induct)
  case (1 m bs)
  show ?case
  proof (cases "length bs < 4")
    case True
    then show ?thesis by (simp add: split_frames_short)
  next
    case False
    define n where "n = header_value bs"
    define xs where "xs = drop 4 bs"
    have "length (take 4 bs) = 4" using False by simp
    then have bs: "bs = be32 n @ xs"
      using be32_header_value [of "take 4 bs"] header_value_take [of 4 bs "[]"] False
      by (simp add: n_def xs_def)
    have n: "n < 2 ^ 32" by (simp add: n_def header_value_bound del: power_numeral)
    note IH = 1 [OF False refl, folded n_def]
    have "split_frames m (drop n xs @ ys) =
        (case split_frames m (drop n xs) of Inl e \<Rightarrow> Inl e
         | Inr (fs, q) \<Rightarrow> deliver fs (split_frames m (q @ ys)))" if "n \<le> m" "n \<le> length xs"
      using IH that by (simp add: bs)
    then show ?thesis
      by (simp add: bs split_frames_header [OF n] append_assoc not_less split: sum.splits prod.splits)
  qed
qed

lemma push_JBytes: "decoder_ok d \<Longrightarrow> push d (JBytes bs) = push_loop d bs []"
  by (simp add: push_def decoder_ok_def)

interpretation frames: stream_cutter "split_frames m" "\<lambda>d bs. push d (JBytes bs)"
    "\<lambda>d. decoder_ok d \<and> maxFrameLength d = m" "\<lambda>d. state d = Failed" pending "\<lambda>n. FrameTooLong n m"
  for m
proof unfold_locales
  show "split_frames m (xs @ ys) = (case split_frames m xs of Inl e \<Rightarrow> Inl e
      | Inr (fs, q) \<Rightarrow> deliver fs (split_frames m (q @ ys)))" for xs ys
    by (rule split_frames_append)
next
  fix d assume "decoder_ok d \<and> maxFrameLength d = m"
  then show "split_frames m (pending d) = Inr ([], pending d)" using pending_incomplete by blast
next
  fix d c fs q assume a: "decoder_ok d \<and> maxFrameLength d = m" "split_frames m (pending d @ c) = Inr (fs, q)"
  with push_loop_spec [of d c "[]"]
  show "\<exists>d'. push d (JBytes c) = (Inr fs, d') \<and> (decoder_ok d' \<and> maxFrameLength d' = m) \<and> pending d' = q"
    by (auto simp: push_JBytes)
next
  fix d c e assume a: "decoder_ok d \<and> maxFrameLength d = m" "split_frames m (pending d @ c) = Inl e"
  with push_loop_spec [of d c "[]"]
  show "\<exists>d'. push d (JBytes c) = (Inl (FrameTooLong e m), d') \<and> state d' = Failed"
    by (auto simp: push_JBytes fail_def)
qed

lemma feed_all_map: "feed_all (\<lambda>d b. f d (g b)) d cs = feed_all f d (map g cs)"
  by (induction cs arbitrary: d) (auto split: prod.splits sum.splits)

section \<open>Properties\<close>

lemma resolveMaxFrameLength_bound: "resolveMaxFrameLength options = Inr m \<Longrightarrow> m \<le> MAX_UINT32"
  by (cases options rule: resolveMaxFrameLength.cases)
    (auto simp: DEFAULT_MAX_FRAME_LENGTH_def MAX_UINT32_def split: if_splits)

lemma new_decoder_ok:
  assumes "new_FrameDecoder options = Inr d"
  shows "resolveMaxFrameLength options = Inr (maxFrameLength d)" and "decoder_ok d" and "pending d = []"
  using assms resolveMaxFrameLength_bound
  by (auto simp: new_FrameDecoder_def decoder_ok_def pending_def FRAME_HEADER_LENGTH_def)

lemma pending_Nil_iff:
  "decoder_ok d \<Longrightarrow> pending d = [] \<longleftrightarrow> headerLength d = 0 \<and> expectedPayloadLength d = None"
  by (auto simp: decoder_ok_def pending_def be32_def split: option.splits)

lemma end_decoder_pending:
  "decoder_ok d \<Longrightarrow>
     end_decoder d = (if pending d = [] then (Inr (), d\<lparr>state := Ended\<rparr>) else (Inl TruncatedFrame, fail d))"
  by (simp add: pending_Nil_iff) (simp add: end_decoder_def decoder_ok_def)

lemma encodeFrame_be32:
  "length p \<le> MAX_UINT32 \<Longrightarrow> encodeFrame (JBytes p) = Inr (be32 (length p) @ p)"
  by (simp add: FRAME_HEADER_LENGTH_def Let_def buf_set_def be32_def numeral_eq_Suc)

lemma split_frames_encoded:
  "\<forall>p \<in> set ps. length p \<le> m \<Longrightarrow> m \<le> MAX_UINT32 \<Longrightarrow>
     split_frames m (concat (map (\<lambda>p. be32 (length p) @ p) ps)) = Inr (ps, [])"
  by (induction ps) (auto simp: split_frames_short split_frames_header MAX_UINT32_def)

text \<open>
  C2. A fresh \<open>FrameDecoder\<close> fed a stream in chunks of any sizes delivers exactly the complete frames
  of the concatenated stream, in order, whatever the chunk boundaries. When the stream has a
  header above the configured limit the decoder reports that length and is failed; otherwise \<open>end\<close>
  succeeds if and only if no partial frame is left over.
\<close>
theorem push_refines_split_frames:
  assumes "new_FrameDecoder options = Inr d"
  shows "case split_frames (maxFrameLength d) (concat chunks) of
      Inl n \<Rightarrow> \<exists>d'. feed_all push d (map JBytes chunks) = (Inl (FrameTooLong n (maxFrameLength d)), d')
        \<and> state d' = Failed
    | Inr (fs, q) \<Rightarrow> \<exists>d'. feed_all push d (map JBytes chunks) = (Inr fs, d') \<and> pending d' = q
        \<and> fst (end_decoder d') = (if q = [] then Inr () else Inl TruncatedFrame)"
  using frames.feed_all_cut [of d "maxFrameLength d" chunks] new_decoder_ok [OF assms]
  by (auto simp: feed_all_map end_decoder_pending split: sum.splits prod.splits)

theorem push_refines_split_frames_witness:
  "\<exists>d. new_FrameDecoder (Some (NInt 9)) = Inr d \<and>
     fst (feed_all push d [JBytes [0, 0], JBytes [0, 2, 7], JBytes [8, 0, 0]]) = Inr [[7, 8]]"
proof -
  obtain d where d: "new_FrameDecoder (Some (NInt 9)) = Inr d" and m: "maxFrameLength d = 9"
    by (simp add: new_FrameDecoder_def max_safe_def MAX_UINT32_def)
  have "split_frames 9 (concat [[0, 0], [0, 2, 7], [8, 0, 0]]) = Inr ([[7, 8]], [0, 0])"
    by code_simp
  with push_refines_split_frames [OF d, of "[[0, 0], [0, 2, 7], [8, 0, 0]]"] d show ?thesis
    by (auto simp: m)
qed

text \<open>
  Framing round trip: payloads framed by \<open>encodeFrame\<close>, concatenated and cut
  into chunks anywhere, come out of a fresh decoder unchanged and in order, and \<open>end\<close> then succeeds.
\<close>
theorem encodeFrame_push_round_trip:
  assumes "new_FrameDecoder options = Inr d"
    and "\<forall>p \<in> set payloads. length p \<le> maxFrameLength d"
    and "map Inr wire = map (\<lambda>p. encodeFrame (JBytes p)) payloads"
    and "concat chunks = concat wire"
  shows "\<exists>d'. feed_all push d (map JBytes chunks) = (Inr payloads, d') \<and> fst (end_decoder d') = Inr ()"
proof -
  have m: "maxFrameLength d \<le> MAX_UINT32"
    using new_decoder_ok(2) [OF assms(1)] by (simp add: decoder_ok_def)
  have "map (\<lambda>p. encodeFrame (JBytes p)) payloads = map (\<lambda>p. Inr (be32 (length p) @ p)) payloads"
    using assms(2) m by (intro map_cong refl encodeFrame_be32) auto
  with assms(3) have "map Inr wire = (map Inr (map (\<lambda>p. be32 (length p) @ p) payloads) :: (frame_error + byte list) list)"
    by (simp add: comp_def)
  then have "wire = map (\<lambda>p. be32 (length p) @ p) payloads"
    by (subst (asm) inj_map_eq_map) (auto intro: injI)
  then have "split_frames (maxFrameLength d) (concat chunks) = Inr (payloads, [])"
    using assms(2,4) m by (simp add: split_frames_encoded)
  with frames.feed_all_cut [of d "maxFrameLength d" chunks] new_decoder_ok [OF assms(1)] show ?thesis
    by (auto simp: feed_all_map end_decoder_pending)
qed

theorem encodeFrame_push_round_trip_witness:
  "\<exists>d d'. new_FrameDecoder None = Inr d \<and>
     feed_all push d (map JBytes [[0, 0, 0], [1, 5, 0], [0, 0, 0]]) = (Inr [[5], []], d') \<and>
     fst (end_decoder d') = Inr ()"
proof -
  obtain d where d: "new_FrameDecoder None = Inr d" and m: "maxFrameLength d = DEFAULT_MAX_FRAME_LENGTH"
    by (simp add: new_FrameDecoder_def)
  have e: "encodeFrame (JBytes [5]) = Inr [0, 0, 0, 1, 5]" "encodeFrame (JBytes []) = Inr [0, 0, 0, 0]"
    by code_simp+
  show ?thesis
    using encodeFrame_push_round_trip [OF d, of "[[5], []]" "[[0, 0, 0, 1, 5], [0, 0, 0, 0]]"
        "[[0, 0, 0], [1, 5, 0], [0, 0, 0]]"] d e
    by (simp add: m DEFAULT_MAX_FRAME_LENGTH_def)
qed

text \<open>
  \<open>assertCompleteFrame\<close> accepts a byte string exactly when it is the frame \<open>encodeFrame\<close> makes of
  some payload within the configured limit.
\<close>
theorem assertCompleteFrame_iff:
  "assertCompleteFrame (JBytes f) options = Inr () \<longleftrightarrow>
     (\<exists>p m. encodeFrame (JBytes p) = Inr f \<and> resolveMaxFrameLength options = Inr m \<and> length p \<le> m)"
proof
  assume a: "assertCompleteFrame (JBytes f) options = Inr ()"
  then obtain m where m: "resolveMaxFrameLength options = Inr m" "header_value f \<le> m"
    "length f = 4 + header_value f"
    by (auto simp: FRAME_HEADER_LENGTH_def Let_def split: if_splits)
  let ?p = "drop 4 f"
  have "be32 (header_value f) @ ?p = f"
    using be32_header_value [of "take 4 f"] header_value_take [of 4 f "[]"] m(3) by simp
  moreover have "length ?p = header_value f" using m(3) by simp
  ultimately have "encodeFrame (JBytes ?p) = Inr f"
    using encodeFrame_be32 [of ?p] m resolveMaxFrameLength_bound [OF m(1)] by simp
  with m show "\<exists>p m. encodeFrame (JBytes p) = Inr f \<and> resolveMaxFrameLength options = Inr m \<and> length p \<le> m"
    by (intro exI [of _ ?p] exI [of _ m]) simp
next
  assume "\<exists>p m. encodeFrame (JBytes p) = Inr f \<and> resolveMaxFrameLength options = Inr m \<and> length p \<le> m"
  then obtain p m where p: "encodeFrame (JBytes p) = Inr f" "resolveMaxFrameLength options = Inr m"
    "length p \<le> m" by blast
  have lp: "length p \<le> MAX_UINT32" using p(3) resolveMaxFrameLength_bound [OF p(2)] by simp
  then have "f = be32 (length p) @ p" using p(1) encodeFrame_be32 [OF lp] by simp
  moreover have "header_value (be32 (length p) @ p) = length p"
    using lp by (intro header_value_be32) (simp add: MAX_UINT32_def)
  ultimately show "assertCompleteFrame (JBytes f) options = Inr ()"
    using p(2,3) by (simp add: FRAME_HEADER_LENGTH_def Let_def)
qed

end
