(* ===== verification/Codec.thy ===== *)
theory Codec
  imports Framing_Props
begin

text \<open>
  \<^verbatim>\<open>pi/packages/protocol/src/codec.ts\<close>: validated messages over CBOR over frames. \<open>parse\<close> is an
  argument of the encoder and of the decoder, as in the source. The texts of the errors
  are replaced by the errors they are made from.
\<close>

datatype inner_error = CborError cbor_error | FramingError frame_error

datatype codec_error =
    InvalidMessage
  | ValidatorThrew  \<comment> \<open>an error of the validator itself, such as an exhausted stack\<close>
  | UnableToEncode inner_error
  | MessageDecoderHasFailed
  | InvalidProtocolFrame inner_error
  | InvalidProtocolFraming frame_error

type_synonym parser = "js \<Rightarrow> codec_error + js"

definition map_error :: "('e \<Rightarrow> 'f) \<Rightarrow> 'e + 'a \<Rightarrow> 'f + 'a" where
  "map_error f r = (case r of Inl e \<Rightarrow> Inl (f e) | Inr a \<Rightarrow> Inr a)"

lemma map_error_simps [simp]:
  "map_error f (Inl e) = Inl (f e)" "map_error f (Inr a) = Inr a"
  by (simp_all add: map_error_def)

lemma map_error_Inr_iff [simp]: "map_error f r = Inr a \<longleftrightarrow> r = Inr a"
  by (cases r) auto

text \<open>\<open>options?.maxFrameLength ?? DEFAULT_MAX_FRAME_LENGTH\<close> and the CBOR options made of it.\<close>

definition frame_limit :: "jsnum option \<Rightarrow> jsnum" where
  "frame_limit options = opt_default options DEFAULT_MAX_FRAME_LENGTH"

definition cbor_options :: "jsnum \<Rightarrow> CborOptions option" where
  "cbor_options m = Some \<lparr>opt_maxByteLength = Some m, opt_maxContainerLength = None, opt_maxDepth = None\<rparr>"

definition encodeProtocolMessage :: "js \<Rightarrow> parser \<Rightarrow> jsnum option \<Rightarrow> codec_error + byte list" where
  "encodeProtocolMessage v parse options =
     rbind (parse v) (\<lambda>validated.
     let maxFrameLength = frame_limit options in
     map_error UnableToEncode
       (rbind (map_error CborError (encodeCbor validated (cbor_options maxFrameLength))) (\<lambda>bytes.
        rbind (map_error FramingError (encodeFrame (JBytes bytes))) (\<lambda>frame.
        rbind (map_error FramingError (assertCompleteFrame (JBytes frame) (Some maxFrameLength))) (\<lambda>_.
        Inr frame)))))"

record ValidatedMessageDecoder =
  vd_failed :: bool
  vd_frames :: FrameDecoder
  vd_maxFrameLength :: jsnum
  vd_parse :: parser

definition new_ValidatedMessageDecoder ::
  "parser \<Rightarrow> jsnum option \<Rightarrow> frame_error + ValidatedMessageDecoder" where
  "new_ValidatedMessageDecoder parse options =
     rbind (new_FrameDecoder options) (\<lambda>frames.
     Inr \<lparr>vd_failed = False, vd_frames = frames, vd_maxFrameLength = frame_limit options,
          vd_parse = parse\<rparr>)"

text \<open>The body of the \<open>for\<close> loop of \<open>push\<close>, over the frames of the chunk.\<close>

fun decode_frames :: "parser \<Rightarrow> jsnum \<Rightarrow> byte list list \<Rightarrow> codec_error + js list" where
  "decode_frames parse m [] = Inr []"
| "decode_frames parse m (frame # frames) =
     rbind (map_error (InvalidProtocolFrame \<circ> CborError) (decodeCbor (JBytes frame) (cbor_options m))) (\<lambda>v.
     rbind (parse v) (\<lambda>msg.
     rbind (decode_frames parse m frames) (\<lambda>msgs. Inr (msg # msgs))))"

definition push_message ::
  "ValidatedMessageDecoder \<Rightarrow> js \<Rightarrow> (codec_error + js list) \<times> ValidatedMessageDecoder" where
  "push_message d chunk =
     (if vd_failed d then (Inl MessageDecoderHasFailed, d)
      else case push (vd_frames d) chunk of
          (Inl e, frames) \<Rightarrow>
            (Inl (InvalidProtocolFrame (FramingError e)), d\<lparr>vd_frames := frames, vd_failed := True\<rparr>)
        | (Inr fs, frames) \<Rightarrow>
            (case decode_frames (vd_parse d) (vd_maxFrameLength d) fs of
               Inl e \<Rightarrow> (Inl e, d\<lparr>vd_frames := frames, vd_failed := True\<rparr>)
             | Inr messages \<Rightarrow> (Inr messages, d\<lparr>vd_frames := frames\<rparr>)))"

definition end_message ::
  "ValidatedMessageDecoder \<Rightarrow> (codec_error + unit) \<times> ValidatedMessageDecoder" where
  "end_message d =
     (if vd_failed d then (Inl MessageDecoderHasFailed, d)
      else case end_decoder (vd_frames d) of
          (Inl e, frames) \<Rightarrow> (Inl (InvalidProtocolFraming e), d\<lparr>vd_frames := frames, vd_failed := True\<rparr>)
        | (Inr u, frames) \<Rightarrow> (Inr u, d\<lparr>vd_frames := frames\<rparr>))"

section \<open>What a byte stream amounts to\<close>

text \<open>
  The messages of a byte string: its frames, each decoded and validated. Which of several errors is
  reported depends on the chunk boundaries (a chunk's framing error takes precedence over the
  validation errors of its earlier frames), so the specification does not say which.
\<close>

definition cut_messages :: "parser \<Rightarrow> jsnum \<Rightarrow> nat \<Rightarrow> byte list \<Rightarrow> unit + (js list \<times> byte list)" where
  "cut_messages parse lim m bs =
     rbind (map_error (\<lambda>_. ()) (split_frames m bs)) (\<lambda>(fs, q).
     rbind (map_error (\<lambda>_. ()) (decode_frames parse lim fs)) (\<lambda>ms. Inr (ms, q)))"

definition feed_message ::
  "ValidatedMessageDecoder \<Rightarrow> byte list \<Rightarrow> (unit + js list) \<times> ValidatedMessageDecoder" where
  "feed_message d bs = apfst (map_error (\<lambda>_. ())) (push_message d (JBytes bs))"

definition message_decoder_ok :: "parser \<Rightarrow> jsnum \<Rightarrow> nat \<Rightarrow> ValidatedMessageDecoder \<Rightarrow> bool" where
  "message_decoder_ok parse lim m d \<longleftrightarrow> \<not> vd_failed d \<and> vd_parse d = parse \<and> vd_maxFrameLength d = lim
     \<and> decoder_ok (vd_frames d) \<and> maxFrameLength (vd_frames d) = m"

lemma decode_frames_append:
  "decode_frames parse m (fs @ gs) =
     rbind (decode_frames parse m fs) (\<lambda>xs. rbind (decode_frames parse m gs) (\<lambda>ys. Inr (xs @ ys)))"
proof (induction fs)
  case Nil
  then show ?case by (cases "decode_frames parse m gs") auto
next
  case (Cons f fs)
  then show ?case by (simp add: rbind_assoc)
qed

interpretation messages: stream_cutter "cut_messages parse lim m" feed_message
    "message_decoder_ok parse lim m" vd_failed "\<lambda>d. pending (vd_frames d)" "\<lambda>_. ()"
  for parse lim m
proof unfold_locales
  fix xs ys
  show "cut_messages parse lim m (xs @ ys) = (case cut_messages parse lim m xs of Inl e \<Rightarrow> Inl e
      | Inr (fs, q) \<Rightarrow> deliver fs (cut_messages parse lim m (q @ ys)))"
  proof (cases "split_frames m xs")
    case (Inr r)
    obtain fs q where r: "r = (fs, q)" by (cases r)
    show ?thesis
    proof (cases "split_frames m (q @ ys)")
      case (Inr r')
      then show ?thesis
        by (cases r'; cases "decode_frames parse lim fs"; cases "decode_frames parse lim (fst r')")
          (simp_all add: cut_messages_def split_frames_append \<open>split_frames m xs = Inr r\<close> r
            decode_frames_append)
    qed (cases "decode_frames parse lim fs";
        simp add: cut_messages_def split_frames_append \<open>split_frames m xs = Inr r\<close> r)
  qed (simp add: cut_messages_def split_frames_append)
next
  fix d assume "message_decoder_ok parse lim m d"
  then show "cut_messages parse lim m (pending (vd_frames d)) = Inr ([], pending (vd_frames d))"
    using pending_incomplete [of "vd_frames d"] by (auto simp: cut_messages_def message_decoder_ok_def)
next
  fix d c ms q
  assume ok: "message_decoder_ok parse lim m d"
    and c: "cut_messages parse lim m (pending (vd_frames d) @ c) = Inr (ms, q)"
  then obtain fs where fs: "split_frames m (pending (vd_frames d) @ c) = Inr (fs, q)"
    "decode_frames parse lim fs = Inr ms" by (auto simp: cut_messages_def)
  have "decoder_ok (vd_frames d) \<and> maxFrameLength (vd_frames d) = m"
    using ok by (simp add: message_decoder_ok_def)
  from frames.feed_Inr [OF this fs(1)] obtain fd where
    "push (vd_frames d) (JBytes c) = (Inr fs, fd)" "decoder_ok fd" "maxFrameLength fd = m" "pending fd = q"
    by blast
  with ok fs(2) show "\<exists>d'. feed_message d c = (Inr ms, d') \<and> message_decoder_ok parse lim m d'
      \<and> pending (vd_frames d') = q"
    by (auto simp: feed_message_def push_message_def message_decoder_ok_def)
next
  fix d c e
  assume ok: "message_decoder_ok parse lim m d"
    and c: "cut_messages parse lim m (pending (vd_frames d) @ c) = Inl e"
  have d: "decoder_ok (vd_frames d) \<and> maxFrameLength (vd_frames d) = m"
    using ok by (simp add: message_decoder_ok_def)
  show "\<exists>d'. feed_message d c = (Inl (), d') \<and> vd_failed d'"
  proof (cases "split_frames m (pending (vd_frames d) @ c)")
    case (Inl n)
    from frames.feed_Inl [OF d Inl] ok show ?thesis
      by (auto simp: feed_message_def push_message_def message_decoder_ok_def)
  next
    case (Inr r)
    obtain fs q where r: "r = (fs, q)" by (cases r)
    obtain e' where e': "decode_frames parse lim fs = Inl e'"
      using c by (cases "decode_frames parse lim fs") (auto simp: cut_messages_def Inr r)
    from frames.feed_Inr [OF d] Inr r ok e' show ?thesis
      by (fastforce simp: feed_message_def push_message_def message_decoder_ok_def)
  qed
qed

section \<open>Properties\<close>

lemma push_message_feed:
  "feed_all feed_message d cs = apfst (map_error (\<lambda>_. ())) (feed_all push_message d (map JBytes cs))"
proof (induction cs arbitrary: d)
  case (Cons c cs)
  obtain r d1 where p: "push_message d (JBytes c) = (r, d1)" by fastforce
  obtain r' d2 where q: "feed_all push_message d1 (map JBytes cs) = (r', d2)" by fastforce
  show ?case
    using Cons.IH [of d1] by (cases r; cases r') (simp_all add: feed_message_def p q)
qed simp

lemma new_message_decoder:
  assumes "new_ValidatedMessageDecoder parse options = Inr d"
  shows "message_decoder_ok parse (frame_limit options) (maxFrameLength (vd_frames d)) d"
    and "pending (vd_frames d) = []"
    and "resolveMaxFrameLength options = Inr (maxFrameLength (vd_frames d))"
  using assms new_decoder_ok
  by (auto simp: new_ValidatedMessageDecoder_def message_decoder_ok_def)

lemma end_message_pending:
  "message_decoder_ok parse lim m d \<Longrightarrow>
     fst (end_message d) = (if pending (vd_frames d) = [] then Inr () else Inl (InvalidProtocolFraming TruncatedFrame))"
  by (simp add: end_message_def message_decoder_ok_def end_decoder_pending)

lemma resolveMaxFrameLength_limit:
  "resolveMaxFrameLength (Some (frame_limit options)) = resolveMaxFrameLength options"
  by (cases options) (simp_all add: frame_limit_def opt_default_def DEFAULT_MAX_FRAME_LENGTH_def
      max_safe_def MAX_UINT32_def)

text \<open>What a successful encoding is: the frame of CBOR bytes that fit the limit and decode back.\<close>

lemma encodeProtocolMessage_frame:
  assumes "encodeProtocolMessage v parse options = Inr frame" and "parse v = Inr u" and "js_ok u"
    and "resolveMaxFrameLength options = Inr m"
  obtains bytes where "encodeFrame (JBytes bytes) = Inr frame" "length bytes \<le> m"
    "decodeCbor (JBytes bytes) (cbor_options (frame_limit options)) = Inr (norm u)"
proof -
  from assms(1,2) obtain bytes where b: "encodeCbor u (cbor_options (frame_limit options)) = Inr bytes"
    "encodeFrame (JBytes bytes) = Inr frame"
    "assertCompleteFrame (JBytes frame) (Some (frame_limit options)) = Inr ()"
    by (auto simp: encodeProtocolMessage_def Let_def simp del: encodeFrame.simps assertCompleteFrame.simps)
  have l: "length bytes \<le> MAX_UINT32" using b(2) by (auto split: if_splits)
  then have f: "frame = be32 (length bytes) @ bytes" using b(2) encodeFrame_be32 by simp
  have "header_value frame = length bytes"
    unfolding f using l by (intro header_value_be32) (simp add: MAX_UINT32_def)
  with b(3) assms(4) have "length bytes \<le> m"
    by (auto simp: Let_def resolveMaxFrameLength_limit split: if_splits)
  with b that encodeCbor_decodes(1) [OF b(1) assms(3)] show ?thesis by blast
qed

lemma decode_encoded_frames:
  assumes "\<forall>v \<in> set vs. js_ok v \<and> parse v = Inr v \<and> parse (norm v) = Inr (norm v)"
    and "resolveMaxFrameLength options = Inr m"
    and "map Inr wire = map (\<lambda>v. encodeProtocolMessage v parse options) vs"
  shows "cut_messages parse (frame_limit options) m (concat wire) = Inr (map norm vs, [])"
proof -
  have m: "m \<le> MAX_UINT32" using resolveMaxFrameLength_bound [OF assms(2)] .
  have "\<exists>ps. wire = map (\<lambda>p. be32 (length p) @ p) ps \<and> (\<forall>p \<in> set ps. length p \<le> m)
      \<and> decode_frames parse (frame_limit options) ps = Inr (map norm vs)"
    using assms(1,3)
  proof (induction vs arbitrary: wire)
    case (Cons v vs)
    then obtain w ws where w: "wire = w # ws" "encodeProtocolMessage v parse options = Inr w"
      "map Inr ws = map (\<lambda>v. encodeProtocolMessage v parse options) vs"
      by (cases wire) auto
    obtain p where p: "encodeFrame (JBytes p) = Inr w" "length p \<le> m"
      "decodeCbor (JBytes p) (cbor_options (frame_limit options)) = Inr (norm v)"
      using encodeProtocolMessage_frame [OF w(2) _ _ assms(2)] Cons.prems(1) by auto
    have "w = be32 (length p) @ p" using p(1,2) m encodeFrame_be32 [of p] by simp
    moreover obtain ps where "ws = map (\<lambda>p. be32 (length p) @ p) ps" "\<forall>p \<in> set ps. length p \<le> m"
      "decode_frames parse (frame_limit options) ps = Inr (map norm vs)"
      using Cons.IH [OF _ w(3)] Cons.prems(1) by auto
    ultimately show ?case
      using w(1) p(2,3) Cons.prems(1) by (intro exI [of _ "p # ps"]) simp
  qed simp
  then show ?thesis using split_frames_encoded [OF _ m] by (auto simp: cut_messages_def)
qed

text \<open>
  End-to-end round trip of the protocol codec: messages encoded by \<open>encodeProtocolMessage\<close>,
  concatenated and cut into chunks anywhere, come out of a fresh \<open>ValidatedMessageDecoder\<close> with the
  same options in order and complete (each normalised as by the CBOR round trip), and \<open>end\<close>
  then succeeds. The validator is any \<open>parse\<close> that returns the messages it is given.
\<close>
theorem message_round_trip:
  assumes "new_ValidatedMessageDecoder parse options = Inr d"
    and "\<forall>v \<in> set msgs. js_ok v \<and> parse v = Inr v \<and> parse (norm v) = Inr (norm v)"
    and "map Inr wire = map (\<lambda>v. encodeProtocolMessage v parse options) msgs"
    and "concat chunks = concat wire"
  shows "\<exists>d'. feed_all push_message d (map JBytes chunks) = (Inr (map norm msgs), d')
     \<and> fst (end_message d') = Inr ()"
proof -
  note d = new_message_decoder [OF assms(1)]
  from messages.feed_all_cut [OF d(1), of chunks] decode_encoded_frames [OF assms(2) d(3) assms(3)]
  obtain d' where d': "feed_all feed_message d chunks = (Inr (map norm msgs), d')"
    "message_decoder_ok parse (frame_limit options) (maxFrameLength (vd_frames d)) d'"
    "pending (vd_frames d') = []"
    by (auto simp: d(2) assms(4))
  then have "feed_all push_message d (map JBytes chunks) = (Inr (map norm msgs), d')"
    using push_message_feed [of d chunks] by (cases "feed_all push_message d (map JBytes chunks)") auto
  with end_message_pending [OF d'(2)] d'(3) show ?thesis by auto
qed

theorem message_round_trip_witness:
  "\<exists>d d'. new_ValidatedMessageDecoder Inr None = Inr d \<and>
     feed_all push_message d [JBytes [0, 0, 0, 1], JBytes [0xf5, 0, 0, 0], JBytes [1, 0x07]]
       = (Inr [JBool True, JNum (NInt 7)], d') \<and> fst (end_message d') = Inr ()"
proof -
  obtain d where d: "new_ValidatedMessageDecoder Inr None = Inr d"
    by (simp add: new_ValidatedMessageDecoder_def new_FrameDecoder_def)
  have e: "encodeProtocolMessage (JBool True) Inr None = Inr [0, 0, 0, 1, 0xf5]"
    "encodeProtocolMessage (JNum (NInt 7)) Inr None = Inr [0, 0, 0, 1, 0x07]"
    by code_simp+
  show ?thesis
    using message_round_trip [OF d, of "[JBool True, JNum (NInt 7)]" "[[0, 0, 0, 1, 0xf5], [0, 0, 0, 1, 0x07]]"
        "[[0, 0, 0, 1], [0xf5, 0, 0, 0], [1, 0x07]]"] d e by simp
qed

text \<open>
  For a fresh \<open>ValidatedMessageDecoder\<close> the chunk boundaries decide neither whether a byte
  stream is accepted nor which messages come out of it.
\<close>
theorem message_chunking_irrelevant:
  assumes "new_ValidatedMessageDecoder parse options = Inr d" and "concat chunks = concat chunks'"
  shows "fst (feed_all push_message d (map JBytes chunks)) = Inr ms \<longleftrightarrow>
     fst (feed_all push_message d (map JBytes chunks')) = Inr ms"
proof -
  have "map_error (\<lambda>_. ()) (fst (feed_all push_message d (map JBytes chunks)))
      = map_error (\<lambda>_. ()) (fst (feed_all push_message d (map JBytes chunks')))"
    using messages.chunking_irrelevant [OF new_message_decoder(1) [OF assms(1)] assms(2)]
    by (simp add: push_message_feed)
  then show ?thesis
    by (cases "fst (feed_all push_message d (map JBytes chunks))";
        cases "fst (feed_all push_message d (map JBytes chunks'))") simp_all
qed

theorem message_chunking_irrelevant_witness:
  "\<exists>d. new_ValidatedMessageDecoder Inr None = Inr d \<and>
     fst (feed_all push_message d [JBytes [0, 0, 0, 1, 0xf6]]) = Inr [JNull] \<and>
     fst (feed_all push_message d [JBytes [0, 0], JBytes [0, 1], JBytes [0xf6]]) = Inr [JNull]"
proof -
  obtain d where d: "new_ValidatedMessageDecoder Inr None = Inr d"
    by (simp add: new_ValidatedMessageDecoder_def new_FrameDecoder_def)
  have "fst (feed_all push_message (projr (new_ValidatedMessageDecoder Inr None))
      [JBytes [0, 0, 0, 1, 0xf6]]) = Inr [JNull]" by code_simp
  then have "fst (feed_all push_message d (map JBytes [[0, 0, 0, 1, 0xf6]])) = Inr [JNull]"
    by (simp add: d)
  with message_chunking_irrelevant [OF d, of "[[0, 0, 0, 1, 0xf6]]" "[[0, 0], [0, 1], [0xf6]]" "[JNull]"] d
  show ?thesis by simp
qed

end
