(* ===== verification/Protocol.thy ===== *)
theory Protocol
  imports Protocol_Schemas Codec
begin

text \<open>
  The typed entry points of \<^verbatim>\<open>pi/packages/protocol/src/codec.ts\<close>: the parsers of client and server messages, the encoders and
  the decoders built from them. Values are trees, so the check for a value that contains itself never fires. A
  parser gets the depth of the stack the validator may use.
\<close>

section \<open>Parsing\<close>

fun isProtocolValue :: "js \<Rightarrow> bool \<Rightarrow> bool"
  and protocol_items :: "js list \<Rightarrow> bool"
  and protocol_entries :: "(ustring \<times> js) list \<Rightarrow> bool" where
  "isProtocolValue JUndef optionalProperty = optionalProperty"
| "isProtocolValue (JOther t) optionalProperty = False"
| "isProtocolValue (JBytes bs) optionalProperty = False"
| "isProtocolValue (JArr xs) optionalProperty = protocol_items xs"
| "isProtocolValue (JObj p s kvs) optionalProperty = (p = ObjectProto \<and> protocol_entries kvs)"
| "isProtocolValue v optionalProperty = True"
| "protocol_items [] = True"
| "protocol_items (x # xs) = (isProtocolValue x False \<and> protocol_items xs)"
| "protocol_entries [] = True"
| "protocol_entries ((k, v) # kvs) = (isProtocolValue v True \<and> protocol_entries kvs)"

definition parse_message :: "regex_engine \<Rightarrow> nat \<Rightarrow> pi_schema \<Rightarrow> parser" where
  "parse_message re stack schema v =
     (if \<not> isProtocolValue v False then Inl InvalidMessage
      else case Check re stack (node_of schema) v of
          Inl _ \<Rightarrow> Inl ValidatorThrew
        | Inr ok \<Rightarrow> if ok then Inr v else Inl InvalidMessage)"

definition parseClientMessage :: "regex_engine \<Rightarrow> nat \<Rightarrow> parser" where
  "parseClientMessage re stack = parse_message re stack ClientMessageSchema"

definition parseServerMessage :: "regex_engine \<Rightarrow> nat \<Rightarrow> parser" where
  "parseServerMessage re stack = parse_message re stack ServerMessageSchema"

section \<open>Encoding and decoding\<close>

definition encodeClientMessage :: "regex_engine \<Rightarrow> nat \<Rightarrow> js \<Rightarrow> jsnum option \<Rightarrow> codec_error + byte list" where
  "encodeClientMessage re stack message options = encodeProtocolMessage message (parseClientMessage re stack) options"

definition encodeServerMessage :: "regex_engine \<Rightarrow> nat \<Rightarrow> js \<Rightarrow> jsnum option \<Rightarrow> codec_error + byte list" where
  "encodeServerMessage re stack message options = encodeProtocolMessage message (parseServerMessage re stack) options"

definition createClientMessageDecoder :: "regex_engine \<Rightarrow> nat \<Rightarrow> jsnum option \<Rightarrow> frame_error + ValidatedMessageDecoder" where
  "createClientMessageDecoder re stack options = new_ValidatedMessageDecoder (parseClientMessage re stack) options"

definition createServerMessageDecoder :: "regex_engine \<Rightarrow> nat \<Rightarrow> jsnum option \<Rightarrow> frame_error + ValidatedMessageDecoder" where
  "createServerMessageDecoder re stack options = new_ValidatedMessageDecoder (parseServerMessage re stack) options"

definition isSupportedProtocolVersion :: "jsnum \<Rightarrow> bool" where
  "isSupportedProtocolVersion version \<longleftrightarrow> is_integer version \<and> num_eq version (NInt PROTOCOL_VERSION)"

section \<open>Message schemas\<close>

text \<open>
  The form all schemas of the protocol have: strict objects without names of \<open>Object.prototype\<close>, unions that are not empty,
  no patterns, and references to \<open>JsonValue\<close> only (\<open>refs\<close>), of which there is one definition.
\<close>

fun message_schema :: "bool \<Rightarrow> pi_schema \<Rightarrow> bool" where
  "message_schema refs (PiString d least most pattern) = (pattern = None)"
| "message_schema refs (PiUnknown d) = False"
| "message_schema refs (PiObject props d additional) =
     (additional = Some (Inl False) \<and>
      list_all (\<lambda>(k, s). k \<notin> set object_prototype_names \<and> message_schema refs s \<and> \<not> is_optional (strip s)) props)"
| "message_schema refs (PiArray s d least most) = (message_schema refs s \<and> \<not> is_optional s)"
| "message_schema refs (PiUnion ss d) = (ss \<noteq> [] \<and> list_all (\<lambda>s. message_schema refs s \<and> \<not> is_optional s) ss)"
| "message_schema refs (PiOptional s) = message_schema refs s"
| "message_schema refs (PiRecord s d additional) = (additional = None \<and> message_schema refs s \<and> \<not> is_optional s)"
| "message_schema refs (PiRef r d) = (refs \<and> r = js_lit ''JsonValue'')"
| "message_schema refs (PiCyclic ds r d) = (refs \<and> r = js_lit ''JsonValue'' \<and> ds = [(js_lit ''JsonValue'', JsonValueDefinition)])"
| "message_schema refs s = True"

named_theorems message_schemas

lemma strict_object [message_schemas]:
  "message_schema refs (StrictObject props) \<longleftrightarrow>
     (\<forall>(k, s) \<in> set props. js_lit k \<notin> set object_prototype_names \<and> message_schema refs s \<and> \<not> is_optional (strip s))"
  by (auto simp: StrictObject_def list_all_iff)

lemma strict_object_required [simp]: "\<not> is_optional (StrictObject props)" "strip (StrictObject props) = StrictObject props"
  by (simp_all add: StrictObject_def)

lemma prototype_names: "js_lit k \<in> set object_prototype_names \<longleftrightarrow>
    k \<in> {''constructor'', ''__defineGetter__'', ''__defineSetter__'', ''hasOwnProperty'', ''__lookupGetter__'',
       ''__lookupSetter__'', ''isPrototypeOf'', ''propertyIsEnumerable'', ''toString'', ''valueOf'', ''__proto__'', ''toLocaleString''}"
  by (simp only: object_prototype_names_def list.map list.set js_lit_inject insert_iff empty_iff)

lemma not_optional_strip [simp]: "\<not> is_optional s \<Longrightarrow> strip s = s"
  by (cases s) simp_all

text \<open>The schemas by layer, each from those of the layers before it.\<close>

lemma content_schemas [simp]:
  "message_schema True JsonValueDefinition" "\<not> is_optional JsonValueDefinition"
  "message_schema True JsonValueSchema" "\<not> is_optional JsonValueSchema"
  "message_schema refs ThinkingLevelSchema" "\<not> is_optional ThinkingLevelSchema"
  "message_schema True SessionPhaseSchema" "\<not> is_optional SessionPhaseSchema"
  "message_schema refs ModelRefSchema" "\<not> is_optional ModelRefSchema"
  "message_schema True ModelMetadataSchema" "\<not> is_optional ModelMetadataSchema"
  "message_schema True UserContentSchema" "\<not> is_optional UserContentSchema"
  "message_schema True AssistantContentSchema" "\<not> is_optional AssistantContentSchema"
  "message_schema True ToolContentSchema" "\<not> is_optional ToolContentSchema"
  "message_schema True UsageSchema" "\<not> is_optional UsageSchema"
  by (simp_all add: JsonValueDefinition_def JsonValueRecursiveSchema_def JsonValueSchema_def ThinkingLevelSchema_def
      SessionPhaseSchema_def ModelRefSchema_def ModelCostSchema_def ModelMetadataSchema_def TextContentSchema_def
      ThinkingContentSchema_def ImageContentSchema_def ToolCallContentSchema_def UserContentSchema_def
      AssistantContentSchema_def ToolContentSchema_def UsageSchema_def IdSchema_def TimestampSchema_def strict_object
      prototype_names)

lemma item_schemas [simp]:
  "message_schema True UserTranscriptItemSchema" "\<not> is_optional UserTranscriptItemSchema"
  "message_schema True CompleteAssistantTranscriptItemSchema" "\<not> is_optional CompleteAssistantTranscriptItemSchema"
  "message_schema True ErrorAssistantTranscriptItemSchema" "\<not> is_optional ErrorAssistantTranscriptItemSchema"
  "message_schema True AbortedAssistantTranscriptItemSchema" "\<not> is_optional AbortedAssistantTranscriptItemSchema"
  "message_schema True AssistantTranscriptItemSchema" "\<not> is_optional AssistantTranscriptItemSchema"
  "message_schema True CompleteToolTranscriptItemSchema" "\<not> is_optional CompleteToolTranscriptItemSchema"
  "message_schema True ErrorToolTranscriptItemSchema" "\<not> is_optional ErrorToolTranscriptItemSchema"
  "message_schema True ToolTranscriptItemSchema" "\<not> is_optional ToolTranscriptItemSchema"
  "message_schema True TranscriptItemSchema" "\<not> is_optional TranscriptItemSchema"
  by (simp_all add: UserTranscriptItemSchema_def AssistantTranscriptItemProperties_def StreamingAssistantTranscriptItemSchema_def
      CompleteAssistantTranscriptItemSchema_def ErrorAssistantTranscriptItemSchema_def
      AbortedAssistantTranscriptItemSchema_def AssistantTranscriptItemSchema_def ToolTranscriptItemProperties_def
      RunningToolTranscriptItemSchema_def CompleteToolTranscriptItemSchema_def ErrorToolTranscriptItemSchema_def
      ToolTranscriptItemSchema_def TranscriptItemSchema_def IdSchema_def TimestampSchema_def strict_object
      prototype_names)

lemma snapshot_schemas [simp]:
  "message_schema True TranscriptProgressSchema" "\<not> is_optional TranscriptProgressSchema"
  "message_schema True SessionMetadataSchema" "\<not> is_optional SessionMetadataSchema"
  "message_schema True SessionSnapshotSchema" "\<not> is_optional SessionSnapshotSchema"
  "message_schema True ServerSnapshotSchema" "\<not> is_optional ServerSnapshotSchema"
  "message_schema True ProtocolErrorSchema" "\<not> is_optional ProtocolErrorSchema"
  by (simp_all add: TranscriptProgressSchema_def SessionMetadataSchema_def SessionSnapshotSchema_def ServerSnapshotSchema_def
      ProtocolErrorCodeSchema_def ProtocolErrorSchema_def IdSchema_def TimestampSchema_def strict_object
      prototype_names)

lemma command_schemas [simp]:
  "message_schema refs CommandSchema" "\<not> is_optional CommandSchema"
  by (simp_all add: PromptPayloadProperties_def ListCommandSchema_def CreateCommandSchema_def AttachCommandSchema_def
      DetachCommandSchema_def PromptCommandSchema_def SteerCommandSchema_def AbortCommandSchema_def
      SetModelCommandSchema_def SetThinkingCommandSchema_def CommandSchema_def IdSchema_def TimestampSchema_def
      strict_object prototype_names)

lemma result_schemas [simp]:
  "message_schema True CommandResultSchema" "\<not> is_optional CommandResultSchema"
  by (simp_all add: snapshot_result_def CreateResultSchema_def AttachResultSchema_def PromptResultSchema_def SteerResultSchema_def
      AbortResultSchema_def SetModelResultSchema_def SetThinkingResultSchema_def ListResultSchema_def
      DetachResultSchema_def CommandResultSchema_def IdSchema_def TimestampSchema_def strict_object prototype_names)

lemma client_schemas [simp]:
  "message_schema refs ClientMessageSchema" "\<not> is_optional ClientMessageSchema"
  by (simp_all add: ClientHelloSchema_def RequestEnvelopeSchema_def ClientMessageSchema_def IdSchema_def TimestampSchema_def
      strict_object prototype_names)

lemma server_schemas [simp]:
  "message_schema True ServerMessageSchema" "\<not> is_optional ServerMessageSchema"
  by (simp_all add: ServerEventSchema_def ServerHelloSchema_def ServerHelloErrorSchema_def ResponseEnvelopeSchema_def
      EventEnvelopeSchema_def ServerMessageSchema_def IdSchema_def TimestampSchema_def strict_object prototype_names)

lemma definition_flat: "flat JsonValueDefinition"
  by (simp add: JsonValueDefinition_def)


section \<open>What the parsers accept\<close>

lemma message_wf: "message_schema refs s \<Longrightarrow> wf_schema re s"
  by (induction refs s rule: message_schema.induct) (auto simp: list_all_iff JsonValueDefinition_def)

text \<open>The only definition is that of \<open>JsonValue\<close>.\<close>

definition only_json :: "bool \<Rightarrow> (ustring \<times> pi_schema) list \<Rightarrow> bool" where
  "only_json refs ds \<longleftrightarrow> set ds \<subseteq> {(js_lit ''JsonValue'', JsonValueDefinition)} \<and> (refs \<or> ds = [])"

lemma only_json_simps [simp]: "only_json refs []" "only_json refs (ds @ es) \<longleftrightarrow> only_json refs ds \<and> only_json refs es"
  by (auto simp: only_json_def)

lemma only_json_concat: "(\<And>ds. ds \<in> set dss \<Longrightarrow> only_json refs ds) \<Longrightarrow> only_json refs (concat dss)"
  by (induction dss) auto

lemma message_defs: "message_schema refs s \<Longrightarrow> only_json refs (cyclic_defs s) \<and> only_json refs (cyclic_defs (strip s))"
proof (induction refs s rule: message_schema.induct)
  case (3 refs props d additional)
  then show ?case by (force simp: list_all_iff intro!: only_json_concat)
next
  case (5 refs ss d)
  then show ?case by (auto simp: list_all_iff intro!: only_json_concat)
next
  case (9 refs ds r d)
  then show ?case by (auto simp: only_json_def JsonValueDefinition_def)
qed auto

definition json_types :: "bool \<Rightarrow> ustring \<Rightarrow> pi_schema option" where
  "json_types refs = (if refs then [js_lit ''JsonValue'' \<mapsto> JsonValueDefinition] else Map.empty)"

lemma types_of_message:
  assumes "only_json refs (cyclic_defs s)" "refs \<Longrightarrow> cyclic_defs s \<noteq> []"
  shows "types_of s = json_types refs"
proof -
  have "map_of ds = (if ds = [] then Map.empty else [js_lit ''JsonValue'' \<mapsto> JsonValueDefinition])"
    if "set ds \<subseteq> {(js_lit ''JsonValue'', JsonValueDefinition)}" for ds
    using that by (induction ds) auto
  from this [of "rev (cyclic_defs s)"] assms show ?thesis by (auto simp: types_of_def json_types_def only_json_def)
qed

lemma wf_json_types: "wf_types re (json_types refs)"
  using message_wf [OF content_schemas(1)] by (auto simp: wf_types_def json_types_def definition_flat split: if_splits)

lemma client_types: "types_of ClientMessageSchema = json_types False"
  using message_defs [of False ClientMessageSchema] by (intro types_of_message) auto

lemma JsonValue_defs: "cyclic_defs JsonValueSchema = [(js_lit ''JsonValue'', JsonValueDefinition)]"
  by (simp add: JsonValueSchema_def JsonValueRecursiveSchema_def JsonValueDefinition_def)

lemma cyclic_strict: "cyclic_defs (StrictObject props) = concat (map (\<lambda>(k, s). cyclic_defs (strip s)) props)"
  by (auto simp: StrictObject_def intro!: arg_cong [of _ _ concat])

lemma server_types: "types_of ServerMessageSchema = json_types True"
proof (intro types_of_message)
  have "cyclic_defs ServerHelloErrorSchema \<noteq> []"
    by (simp add: ServerHelloErrorSchema_def ProtocolErrorSchema_def ProtocolErrorCodeSchema_def cyclic_strict JsonValue_defs)
  then show "cyclic_defs ServerMessageSchema \<noteq> []" by (simp add: ServerMessageSchema_def)
qed (use message_defs [of True ServerMessageSchema] in simp)

lemma parse_message_decides:
  assumes "message_schema refs s" "types_of s = json_types refs"
  shows "eventually (\<lambda>stack. parse_message re stack s v =
    (if isProtocolValue v False \<and> conforms re (json_types refs) s v then Inr v else Inl InvalidMessage)) sequentially"
proof -
  have "eventually (\<lambda>stack. Check re stack (node_of s) v = Inr (conforms re (json_types refs) s v)) sequentially"
    using check_eventually [OF message_wf [OF assms(1)], of re v] assms(2) wf_json_types by simp
  then show ?thesis by (rule eventually_mono) (simp add: parse_message_def)
qed


section \<open>Undefined properties\<close>

text \<open>No message schema accepts \<open>undefined\<close>, so leaving undefined properties out keeps a message of its type.\<close>

lemma definition_not_undefined: "\<not> conforms re types JsonValueDefinition JUndef"
  by (simp add: JsonValueDefinition_def conforms_record_iff)

lemma literal_not_undefined: "\<not> literal_value l JUndef"
  by (cases l) simp_all

lemma message_not_undefined: "message_schema refs s \<Longrightarrow> \<not> is_optional s \<Longrightarrow> \<not> conforms re (json_types refs) s JUndef"
proof (induction refs s rule: message_schema.induct)
  case (3 refs props d additional)
  show ?case by (simp add: conforms_object_iff)
next
  case (7 refs s d additional)
  show ?case by (simp add: conforms_record_iff)
next
  case (8 refs r d)
  then show ?case using definition_not_undefined by (auto simp: json_types_def)
next
  case (9 refs ds r d)
  then show ?case using definition_not_undefined by (auto simp: json_types_def)
qed (auto simp: list_all_iff literal_not_undefined)

lemma norm_items_map: "norm_items xs = map norm xs"
  by (induction xs) simp_all

lemma fst_norm_entries: "(k, y) \<in> set (norm_entries kvs) \<longleftrightarrow> (\<exists>x. (k, x) \<in> set kvs \<and> x \<noteq> JUndef \<and> y = norm x)"
  by (induction kvs) (auto split: if_splits)

lemma map_of_norm_entries:
  "distinct (map fst kvs) \<Longrightarrow>
     map_of (norm_entries kvs) k = (case map_of kvs k of None \<Rightarrow> None | Some x \<Rightarrow> if x = JUndef then None else Some (norm x))"
proof (induction kvs)
  case (Cons kv kvs)
  obtain k' x where kv: "kv = (k', x)" by (cases kv)
  have "map_of kvs k' = None" using Cons.prems by (simp add: kv map_of_eq_None_iff)
  with Cons show ?case by (auto simp: kv split: option.splits)
qed simp

lemma keys_ordered_distinct: "keys_ordered ks \<Longrightarrow> distinct ks"
  by (induction ks) auto

lemma protocol_items_all: "protocol_items xs \<longleftrightarrow> (\<forall>x \<in> set xs. isProtocolValue x False)"
  by (induction xs) auto

lemma protocol_entries_all: "protocol_entries kvs \<longleftrightarrow> (\<forall>(k, x) \<in> set kvs. isProtocolValue x True)"
  by (induction kvs) auto

lemma js_ok_all: "js_ok_items xs \<longleftrightarrow> (\<forall>x \<in> set xs. js_ok x)" "js_ok_entries kvs \<longleftrightarrow> (\<forall>(k, x) \<in> set kvs. js_ok x)"
proof -
  show "js_ok_items xs \<longleftrightarrow> (\<forall>x \<in> set xs. js_ok x)" by (induction xs) auto
  show "js_ok_entries kvs \<longleftrightarrow> (\<forall>(k, x) \<in> set kvs. js_ok x)" by (induction kvs) auto
qed

lemma norm_protocol: "isProtocolValue v b \<Longrightarrow> isProtocolValue (norm v) b"
proof (induction v arbitrary: b)
  case (JArr xs)
  then show ?case by (auto simp: protocol_items_all norm_items_map)
next
  case (JObj p sy kvs)
  then show ?case by (fastforce simp: protocol_entries_all fst_norm_entries)
qed simp_all

lemma message_strip: "message_schema refs s \<Longrightarrow> message_schema refs (strip s)"
  by (cases s) simp_all

lemma json_types_at: "json_types refs r = Some s \<longleftrightarrow> refs \<and> r = js_lit ''JsonValue'' \<and> s = JsonValueDefinition"
  by (auto simp: json_types_def split: if_splits)

lemma norm_conforms:
  assumes "conforms re (json_types refs) s v" "message_schema refs s" "\<not> is_optional s" "js_ok v" "isProtocolValue v b"
  shows "conforms re (json_types refs) s (norm v)"
  using assms
proof (induction arbitrary: b rule: conforms.induct)
  case (conforms_literal l v d)
  then show ?case by (cases l) auto
next
  case (conforms_object v p kvs props additional d)
  from conforms_object(1) conforms_object.prems(4) obtain sy where v: "v = JObj p sy kvs" by (cases v) auto
  have ok: "distinct (map fst kvs)" "\<And>k x. (k, x) \<in> set kvs \<Longrightarrow> js_ok x \<and> isProtocolValue x True"
    using conforms_object.prems(3,4) by (auto simp: v js_ok_all protocol_entries_all keys_ordered_distinct)
  have strip: "message_schema refs (strip s) \<and> \<not> is_optional (strip s)" if "(k, s) \<in> set props" for k s
    using that conforms_object.prems(1) by (auto simp: list_all_iff intro: message_strip)
  have "(map_of (norm_entries kvs) k = None \<longrightarrow> is_optional s) \<and>
      (\<forall>y. map_of (norm_entries kvs) k = Some y \<longrightarrow> conforms re (json_types refs) (strip s) y)" if ks: "(k, s) \<in> set props" for k s
  proof (cases "map_of kvs k")
    case None
    have "is_optional s" using bspec [OF conforms_object.IH(1) ks] None by simp
    with None show ?thesis by (simp add: map_of_norm_entries [OF ok(1)])
  next
    case (Some x)
    from conforms_object.IH(1) ks Some have x: "conforms re (json_types refs) (strip s) x"
      "\<And>b. message_schema refs (strip s) \<Longrightarrow> \<not> is_optional (strip s) \<Longrightarrow> js_ok x \<Longrightarrow> isProtocolValue x b \<Longrightarrow> conforms re (json_types refs) (strip s) (norm x)"
      by fastforce+
    with message_not_undefined strip [OF ks] have "x \<noteq> JUndef" by blast
    with x(2) strip [OF ks] ok(2) [OF map_of_SomeD [OF Some]] Some show ?thesis
      by (auto simp: map_of_norm_entries [OF ok(1)])
  qed
  moreover have "fst ` set (norm_entries kvs) \<subseteq> fst ` set kvs" by (auto simp: fst_norm_entries image_iff Bex_def)
  then have "fst ` set (norm_entries kvs) \<subseteq> fst ` set props" using conforms_object.hyps(2) conforms_object.prems(1) by simp
  ultimately show ?case using conforms_object.prems(1) by (auto simp: v conforms_object_iff)
next
  case (conforms_array least most xs s d)
  then show ?case by (auto simp: norm_items_map size_within_def length_num_def js_ok_all protocol_items_all)
next
  case (conforms_union ss v d)
  then show ?case by (auto simp: list_all_iff)
next
  case (conforms_record v p kvs s additional d)
  from conforms_record(1) conforms_record.prems(4) obtain sy where v: "v = JObj p sy kvs" by (cases v) auto
  have ok: "\<And>k x. (k, x) \<in> set kvs \<Longrightarrow> js_ok x \<and> isProtocolValue x True"
    using conforms_record.prems(3,4) by (auto simp: v js_ok_all protocol_entries_all)
  then show ?case using conforms_record.IH conforms_record.prems(1) by (force simp: v conforms_record_iff fst_norm_entries)
next
  case (conforms_ref r v d)
  then show ?case using content_schemas(1,2) by (auto simp: json_types_at)
next
  case (conforms_cyclic r v ds d)
  then show ?case using content_schemas(1,2) by (auto simp: json_types_at)
qed auto

lemma parse_norm_eventually:
  assumes "message_schema refs s" "\<not> is_optional s" "types_of s = json_types refs" "js_ok v"
  shows "eventually (\<lambda>stack. \<forall>u. parse_message re stack s v = Inr u \<longrightarrow>
    u = v \<and> parse_message re stack s (norm v) = Inr (norm v)) sequentially"
proof -
  have "eventually (\<lambda>stack. parse_message re stack s v =
      (if isProtocolValue v False \<and> conforms re (json_types refs) s v then Inr v else Inl InvalidMessage) \<and>
    parse_message re stack s (norm v) =
      (if isProtocolValue (norm v) False \<and> conforms re (json_types refs) s (norm v) then Inr (norm v) else Inl InvalidMessage)) sequentially"
    using parse_message_decides [OF assms(1,3)] by (intro eventually_conj) auto
  then show ?thesis
    by (rule eventually_mono) (use assms norm_conforms [of re refs s v False] norm_protocol in \<open>auto split: if_splits\<close>)
qed

lemma map_Inr_eq: "map Inr ws = map f vs \<Longrightarrow> v \<in> set vs \<Longrightarrow> \<exists>w. f v = Inr w"
  by (induction vs arbitrary: ws) (auto simp: Cons_eq_map_conv map_eq_Cons_conv dest: sym)

lemma round_trip_eventually:
  assumes schema: "message_schema refs s" "\<not> is_optional s" "types_of s = json_types refs" and msgs: "\<forall>v \<in> set msgs. js_ok v"
  shows "eventually (\<lambda>stack. \<forall>options d wire chunks.
     new_ValidatedMessageDecoder (parse_message re stack s) options = Inr d \<longrightarrow>
     map Inr wire = map (\<lambda>v. encodeProtocolMessage v (parse_message re stack s) options) msgs \<longrightarrow> concat chunks = concat wire \<longrightarrow>
     (\<exists>d'. feed_all push_message d (map JBytes chunks) = (Inr (map norm msgs), d') \<and> fst (end_message d') = Inr ())) sequentially"
proof -
  have "eventually (\<lambda>stack. \<forall>v \<in> set msgs. \<forall>u. parse_message re stack s v = Inr u \<longrightarrow>
      u = v \<and> parse_message re stack s (norm v) = Inr (norm v)) sequentially"
    using parse_norm_eventually [OF schema] msgs by (intro eventually_ball_finite) auto
  then show ?thesis
  proof (rule eventually_mono, intro allI impI)
    fix stack options d wire chunks
    assume norm: "\<forall>v \<in> set msgs. \<forall>u. parse_message re stack s v = Inr u \<longrightarrow> u = v \<and> parse_message re stack s (norm v) = Inr (norm v)"
      and d: "new_ValidatedMessageDecoder (parse_message re stack s) options = Inr d"
      and wire: "map Inr wire = map (\<lambda>v. encodeProtocolMessage v (parse_message re stack s) options) msgs"
      and chunks: "concat chunks = concat wire"
    have "parse_message re stack s v = Inr v" if v: "v \<in> set msgs" for v
    proof -
      obtain w where "encodeProtocolMessage v (parse_message re stack s) options = Inr w"
        using map_Inr_eq [OF wire v] by blast
      then show ?thesis using norm v by (auto simp: encodeProtocolMessage_def)
    qed
    with norm msgs have "\<forall>v \<in> set msgs. js_ok v \<and> parse_message re stack s v = Inr v \<and> parse_message re stack s (norm v) = Inr (norm v)"
      by blast
    from message_round_trip [OF d this wire chunks]
    show "\<exists>d'. feed_all push_message d (map JBytes chunks) = (Inr (map norm msgs), d') \<and> fst (end_message d') = Inr ()" .
  qed
qed

text \<open>
  C3. Client messages that \<open>encodeClientMessage\<close> accepts, concatenated and cut into chunks anywhere, come out of a fresh client
  message decoder in order and complete, undefined properties left out, and \<open>end\<close> then succeeds: what the encoder
  validates the decoder accepts.
\<close>

theorem client_messages_round_trip:
  assumes "\<forall>v \<in> set msgs. js_ok v"
  shows "\<exists>depth. \<forall>stack \<ge> depth. \<forall>options d wire chunks.
     createClientMessageDecoder re stack options = Inr d \<longrightarrow>
     map Inr wire = map (\<lambda>v. encodeClientMessage re stack v options) msgs \<longrightarrow> concat chunks = concat wire \<longrightarrow>
     (\<exists>d'. feed_all push_message d (map JBytes chunks) = (Inr (map norm msgs), d') \<and> fst (end_message d') = Inr ())"
  using round_trip_eventually [OF client_schemas(1) [of False] client_schemas(2) client_types assms, of re]
  unfolding eventually_sequentially createClientMessageDecoder_def encodeClientMessage_def parseClientMessage_def .

lemma server_messages_round_trip:
  assumes "\<forall>v \<in> set msgs. js_ok v"
  shows "\<exists>depth. \<forall>stack \<ge> depth. \<forall>options d wire chunks.
     createServerMessageDecoder re stack options = Inr d \<longrightarrow>
     map Inr wire = map (\<lambda>v. encodeServerMessage re stack v options) msgs \<longrightarrow> concat chunks = concat wire \<longrightarrow>
     (\<exists>d'. feed_all push_message d (map JBytes chunks) = (Inr (map norm msgs), d') \<and> fst (end_message d') = Inr ())"
  using round_trip_eventually [OF server_schemas(1,2) server_types assms, of re]
  unfolding eventually_sequentially createServerMessageDecoder_def encodeServerMessage_def parseServerMessage_def .

text \<open>
  A server message is accepted exactly if it is a plain data value of the type of the server messages.
\<close>

theorem server_messages_typed:
  "\<exists>depth. \<forall>stack \<ge> depth. parseServerMessage re stack v =
     (if isProtocolValue v False \<and> conforms re (json_types True) ServerMessageSchema v then Inr v else Inl InvalidMessage)"
  using parse_message_decides [OF server_schemas(1) server_types, of re v]
  unfolding eventually_sequentially parseServerMessage_def .


definition hello_message :: js where
  "hello_message = obj [(js_lit ''type'', JStr (js_lit ''hello'')), (js_lit ''version'', JNum (NInt 1))]"

definition hello_frame :: "byte list" where
  "hello_frame = [0, 0, 0, 0x15, 0xa2, 0x64, 0x74, 0x79, 0x70, 0x65, 0x65, 0x68, 0x65, 0x6c, 0x6c, 0x6f, 0x67, 0x76, 0x65, 0x72,
     0x73, 0x69, 0x6f, 0x6e, 1]"

lemma hello_encoded: "parse hello_message = Inr hello_message \<Longrightarrow> encodeProtocolMessage hello_message parse None = Inr hello_frame"
proof -
  assume "parse hello_message = Inr hello_message"
  moreover have "encodeProtocolMessage hello_message Inr None = Inr hello_frame" by code_simp
  ultimately show ?thesis by (simp add: encodeProtocolMessage_def)
qed

lemma hello_parsed: "eventually (\<lambda>stack. parseClientMessage re stack hello_message = Inr hello_message) sequentially"
proof -
  have "conforms re (json_types False) ClientHelloSchema hello_message"
    by (simp add: ClientHelloSchema_def StrictObject_def hello_message_def obj_def conforms_object_iff
        number_within_def bound_def scaled_less_def)
  then have "conforms re (json_types False) ClientMessageSchema hello_message" by (auto simp: ClientMessageSchema_def)
  moreover have "isProtocolValue hello_message False" by (simp add: hello_message_def obj_def)
  ultimately show ?thesis
    using parse_message_decides [OF client_schemas(1) client_types, of re hello_message] by (simp add: parseClientMessage_def)
qed

theorem client_messages_round_trip_witness:
  "\<exists>stack d d'. createClientMessageDecoder (\<lambda>_. None) stack None = Inr d \<and>
     feed_all push_message d [JBytes (take 2 hello_frame), JBytes (drop 2 hello_frame)] = (Inr [hello_message], d') \<and>
     fst (end_message d') = Inr ()"
proof -
  have "\<forall>v \<in> set [hello_message]. js_ok v" by code_simp
  from client_messages_round_trip [OF this, of "\<lambda>_. None"] obtain depth where
    depth: "\<And>stack options d wire chunks. stack \<ge> depth \<Longrightarrow>
      createClientMessageDecoder (\<lambda>_. None) stack options = Inr d \<Longrightarrow>
      map Inr wire = map (\<lambda>v. encodeClientMessage (\<lambda>_. None) stack v options) [hello_message] \<Longrightarrow> concat chunks = concat wire \<Longrightarrow>
      \<exists>d'. feed_all push_message d (map JBytes chunks) = (Inr (map norm [hello_message]), d') \<and> fst (end_message d') = Inr ()"
    by blast
  from hello_parsed [of "\<lambda>_. None"] obtain n where n: "\<And>stack. stack \<ge> n \<Longrightarrow> parseClientMessage (\<lambda>_. None) stack hello_message = Inr hello_message"
    by (auto simp: eventually_sequentially)
  let ?stack = "max depth n"
  obtain d where d: "createClientMessageDecoder (\<lambda>_. None) ?stack None = Inr d"
    by (simp add: createClientMessageDecoder_def new_ValidatedMessageDecoder_def new_FrameDecoder_def)
  have "norm hello_message = hello_message" by (simp add: hello_message_def obj_def)
  moreover have "encodeClientMessage (\<lambda>_. None) ?stack hello_message None = Inr hello_frame"
    unfolding encodeClientMessage_def by (rule hello_encoded) (simp add: n)
  ultimately show ?thesis
    using depth [OF _ d, of "[hello_frame]" "[take 2 hello_frame, drop 2 hello_frame]"] d by auto
qed

theorem server_messages_typed_witness:
  "\<exists>stack. parseServerMessage (\<lambda>_. None) stack (JStr (js_lit ''hello'')) = Inl InvalidMessage"
proof -
  have "\<not> conforms re (json_types True) ServerMessageSchema (JStr s)" for re s
    by (simp add: ServerMessageSchema_def ServerHelloSchema_def ServerHelloErrorSchema_def ResponseEnvelopeSchema_def
        EventEnvelopeSchema_def StrictObject_def conforms_object_iff)
  with server_messages_typed [of "\<lambda>_. None" "JStr (js_lit ''hello'')"] show ?thesis by auto
qed

end
