(* ===== verification/Session_Context.thy ===== *)
theory Session_Context
  imports Session
begin

text \<open>
  \<^verbatim>\<open>pi/packages/agent/src/harness/session/context.ts\<close>: the context of a branch, made of the entries after the
  last compaction. The entry transforms and the projectors of custom entries are the caller's functions
  and are arguments here as there.
\<close>

record SessionContext =
  sc_messages :: "AgentMessage list"
  sc_thinkingLevel :: ustring
  sc_model :: "(ustring \<times> ustring) option"
  sc_activeToolNames :: "ustring list option"

record SessionContextBuildOptions =
  bo_entryTransforms :: "(Entry list \<Rightarrow> Entry list) list"
  bo_entryProjectors :: "ustring \<Rightarrow> (Entry \<Rightarrow> nat \<Rightarrow> Entry list \<Rightarrow> AgentMessage list option) option"

definition no_build_options :: SessionContextBuildOptions where
  "no_build_options = \<lparr>bo_entryTransforms = [], bo_entryProjectors = (\<lambda>_. None)\<rparr>"

text \<open>One pass of the loop of \<open>deriveSessionContextState\<close>, over thinking level, model and tools.\<close>

type_synonym context_state = "ustring \<times> (ustring \<times> ustring) option \<times> ustring list option"

definition context_step :: "context_state \<Rightarrow> Entry \<Rightarrow> context_state" where
  "context_step st e =
     (case st of (thinkingLevel, model, activeToolNames) \<Rightarrow>
       (case en_body e of
          ThinkingLevelEntry level \<Rightarrow> (level, model, activeToolNames)
        | ModelChangeEntry provider modelId \<Rightarrow> (thinkingLevel, Some (provider, modelId), activeToolNames)
        | MessageEntry (MAssistant m) _ \<Rightarrow> (thinkingLevel, Some (am_provider m, am_model m), activeToolNames)
        | ActiveToolsEntry names \<Rightarrow> (thinkingLevel, model, Some names)
        | _ \<Rightarrow> (thinkingLevel, model, activeToolNames)))"

definition deriveSessionContextState :: "Entry list \<Rightarrow> context_state" where
  "deriveSessionContextState pathEntries = foldl context_step (js_lit ''off'', None, None) pathEntries"

text \<open>The search for the last compaction, from the end.\<close>

fun last_compaction :: "Entry list \<Rightarrow> nat \<Rightarrow> nat option" where
  "last_compaction pathEntries 0 = None"
| "last_compaction pathEntries (Suc i) =
     (if en_type (pathEntries ! i) = TCompaction then Some i else last_compaction pathEntries i)"

definition defaultContextEntryTransform :: "Entry list \<Rightarrow> Entry list" where
  "defaultContextEntryTransform pathEntries =
     (case last_compaction pathEntries (length pathEntries) of
        None \<Rightarrow> pathEntries
      | Some i \<Rightarrow> pathEntries ! i # drop (i + 1) pathEntries)"

definition buildContextEntries :: "Entry list \<Rightarrow> SessionContextBuildOptions \<Rightarrow> Entry list" where
  "buildContextEntries pathEntries options =
     foldl (\<lambda>entries transform. transform entries) (defaultContextEntryTransform pathEntries)
       (bo_entryTransforms options)"

definition sessionEntryToContextMessages ::
  "SessionContextBuildOptions \<Rightarrow> Entry \<Rightarrow> nat \<Rightarrow> Entry list \<Rightarrow> AgentMessage list" where
  "sessionEntryToContextMessages options e index entries =
     (case en_body e of
        MessageEntry m _ \<Rightarrow>
          (case m of
             MAssistant a \<Rightarrow> if am_stopReason a = SDeferred then [] else [m]
           | _ \<Rightarrow> [m])
      | CompactionEntry summary retainedTail tokensBefore _ _ \<Rightarrow>
          MCompactionSummary (createCompactionSummaryMessage summary tokensBefore (en_timestamp e)) # retainedTail
      | BranchSummaryEntry fromId summary _ _ \<Rightarrow>
          if summary \<noteq> [] then [MBranchSummary (createBranchSummaryMessage summary fromId (en_timestamp e))] else []
      | CustomEntry customType _ \<Rightarrow>
          (case bo_entryProjectors options customType of
             None \<Rightarrow> []
           | Some project \<Rightarrow> (case project e index entries of None \<Rightarrow> [] | Some ms \<Rightarrow> ms))
      | _ \<Rightarrow> [])"

definition context_messages :: "SessionContextBuildOptions \<Rightarrow> Entry list \<Rightarrow> AgentMessage list" where
  "context_messages options entries =
     concat (map (\<lambda>(index, e). sessionEntryToContextMessages options e index entries) (enumerate 0 entries))"

definition buildSessionContext :: "Entry list \<Rightarrow> SessionContextBuildOptions \<Rightarrow> SessionContext" where
  "buildSessionContext pathEntries options =
     (case deriveSessionContextState pathEntries of (thinkingLevel, model, activeToolNames) \<Rightarrow>
        \<lparr>sc_messages = context_messages options (buildContextEntries pathEntries options),
         sc_thinkingLevel = thinkingLevel, sc_model = model, sc_activeToolNames = activeToolNames\<rparr>)"

section \<open>Properties\<close>

lemma last_compaction_none:
  "last_compaction es n = None \<longleftrightarrow> (\<forall>i < n. en_type (es ! i) \<noteq> TCompaction)"
  by (induction n) (auto simp: less_Suc_eq)

lemma last_compaction_some:
  "last_compaction es n = Some i \<Longrightarrow> i < n \<and> en_type (es ! i) = TCompaction \<and> (\<forall>j. i < j \<and> j < n \<longrightarrow> en_type (es ! j) \<noteq> TCompaction)"
  by (induction n) (auto simp: less_Suc_eq split: if_splits)

lemma transform_append:
  assumes "\<forall>e \<in> set new. en_type e \<noteq> TCompaction"
  shows "defaultContextEntryTransform (es @ new) = defaultContextEntryTransform es @ new"
proof -
  have "last_compaction (es @ new) (length es + n) = last_compaction (es @ new) (length es)" if "n \<le> length new" for n
    using that assms by (induction n) (simp_all add: nth_append)
  then have *: "last_compaction (es @ new) (length (es @ new)) = last_compaction (es @ new) (length es)" by simp
  have "n \<le> length es \<Longrightarrow> last_compaction (es @ new) n = last_compaction es n" for n
    by (induction n) (simp_all add: nth_append)
  then have "last_compaction (es @ new) (length (es @ new)) = last_compaction es (length es)" using * by simp
  then show ?thesis
    using last_compaction_some [of es "length es"]
    by (auto simp: defaultContextEntryTransform_def nth_append split: option.splits)
qed

lemma transform_compaction:
  assumes "en_type c = TCompaction" and "\<forall>e \<in> set new. en_type e \<noteq> TCompaction"
  shows "defaultContextEntryTransform (es @ c # new) = c # new"
proof -
  have "defaultContextEntryTransform (es @ [c]) = [c]"
    using assms(1) by (simp add: defaultContextEntryTransform_def nth_append)
  then show ?thesis using transform_append [OF assms(2), of "es @ [c]"] by simp
qed

lemma context_messages_no_projectors:
  "context_messages no_build_options entries =
     concat (map (\<lambda>e. sessionEntryToContextMessages no_build_options e 0 []) entries)"
proof -
  have "sessionEntryToContextMessages no_build_options e i es = sessionEntryToContextMessages no_build_options e 0 []"
    for e i es
    by (simp add: sessionEntryToContextMessages_def no_build_options_def split: entry_body.splits)
  then have "(\<lambda>(index, e). sessionEntryToContextMessages no_build_options e index entries)
      = (\<lambda>p. sessionEntryToContextMessages no_build_options (snd p) 0 [])"
    by (simp add: fun_eq_iff)
  moreover have "map (\<lambda>p. sessionEntryToContextMessages no_build_options (snd p) 0 []) (enumerate n xs)
      = map (\<lambda>e. sessionEntryToContextMessages no_build_options e 0 []) xs" for n xs
    by (induction xs arbitrary: n) simp_all
  ultimately show ?thesis by (simp add: context_messages_def)
qed

lemma default_context_messages:
  "sc_messages (buildSessionContext path no_build_options) =
     concat (map (\<lambda>e. sessionEntryToContextMessages no_build_options e 0 []) (defaultContextEntryTransform path))"
  by (simp add: buildSessionContext_def buildContextEntries_def context_messages_no_projectors split: prod.splits)
    (simp add: no_build_options_def)

text \<open>
  A compaction replaces exactly what precedes it: on a branch whose last compaction is \<open>c\<close>, the
  default context is the summary of \<open>c\<close>, the messages it retained, and the context of the entries after it,
  whatever stands before \<open>c\<close>; model, thinking level and active tools are still those of the whole branch.
\<close>
theorem compaction_replaces_prefix:
  assumes "en_body c = CompactionEntry summary retainedTail tokensBefore details usage"
    and "\<forall>e \<in> set later. en_type e \<noteq> TCompaction"
  shows "sc_messages (buildSessionContext (earlier @ c # later) no_build_options) =
      MCompactionSummary (createCompactionSummaryMessage summary tokensBefore (en_timestamp c)) # retainedTail
      @ sc_messages (buildSessionContext later no_build_options)
    \<and> (sc_thinkingLevel (buildSessionContext (earlier @ c # later) no_build_options),
       sc_model (buildSessionContext (earlier @ c # later) no_build_options),
       sc_activeToolNames (buildSessionContext (earlier @ c # later) no_build_options))
      = foldl context_step (deriveSessionContextState earlier) later"
proof
  have t: "defaultContextEntryTransform (earlier @ c # later) = c # later"
    using assms by (intro transform_compaction) simp_all
  have l: "defaultContextEntryTransform later = later"
    using transform_append [OF assms(2), of "[]"] by (simp add: defaultContextEntryTransform_def)
  show "sc_messages (buildSessionContext (earlier @ c # later) no_build_options) =
      MCompactionSummary (createCompactionSummaryMessage summary tokensBefore (en_timestamp c)) # retainedTail
      @ sc_messages (buildSessionContext later no_build_options)"
    by (simp add: default_context_messages t l sessionEntryToContextMessages_def assms(1))
  have "context_step st c = st" for st
    by (simp add: context_step_def assms(1) split: prod.splits)
  then show "(sc_thinkingLevel (buildSessionContext (earlier @ c # later) no_build_options),
       sc_model (buildSessionContext (earlier @ c # later) no_build_options),
       sc_activeToolNames (buildSessionContext (earlier @ c # later) no_build_options))
      = foldl context_step (deriveSessionContextState earlier) later"
    by (simp add: buildSessionContext_def deriveSessionContextState_def split: prod.splits)
qed

theorem compaction_replaces_prefix_witness:
  "sc_messages (buildSessionContext [ex_entry ''a'' 1 None,
      (ex_entry ''c'' 2 (Some (js_lit ''a'')))\<lparr>en_body := CompactionEntry (js_lit ''sum'') [] 7 None None\<rparr>,
      ex_entry ''b'' 3 (Some (js_lit ''c''))] no_build_options)
   = [MCompactionSummary (createCompactionSummaryMessage (js_lit ''sum'') 7 5), ex_user ''b'']"
  using compaction_replaces_prefix [of "(ex_entry ''c'' 2 (Some (js_lit ''a'')))
      \<lparr>en_body := CompactionEntry (js_lit ''sum'') [] 7 None None\<rparr>" "js_lit ''sum''" "[]" 7 None None
      "[ex_entry ''b'' 3 (Some (js_lit ''c''))]" "[ex_entry ''a'' 1 None]"]
  by (simp add: ex_entry_def default_context_messages defaultContextEntryTransform_def
      sessionEntryToContextMessages_def ex_user_def)

text \<open>
  The default context grows with the branch: appending entries other than compactions only
  appends messages, each message entry adding its own message (a deferred assistant message none).
\<close>
theorem context_grows_by_suffix:
  assumes "\<forall>e \<in> set new. en_type e \<noteq> TCompaction"
  shows "sc_messages (buildSessionContext (path @ new) no_build_options) =
     sc_messages (buildSessionContext path no_build_options)
     @ concat (map (\<lambda>e. sessionEntryToContextMessages no_build_options e 0 []) new)"
  by (simp add: default_context_messages transform_append [OF assms])

theorem context_grows_by_suffix_witness:
  "sc_messages (buildSessionContext ([ex_entry ''a'' 1 None] @ [ex_entry ''b'' 2 (Some (js_lit ''a''))]) no_build_options)
   = [ex_user ''a'', ex_user ''b'']"
  using context_grows_by_suffix [of "[ex_entry ''b'' 2 (Some (js_lit ''a''))]" "[ex_entry ''a'' 1 None]"]
  by (simp add: ex_entry_def default_context_messages defaultContextEntryTransform_def
      sessionEntryToContextMessages_def ex_user_def)

end
