(* ===== verification/Reducer.thy ===== *)
theory Reducer
  imports Deep_Equal
begin

text \<open>
  \<^verbatim>\<open>pi/packages/agent/src/harness/reducer.ts\<close>: the validation of a lane's durable recovery slice and the
  reconstruction of the lane's orchestration state from it. A contradiction is the corruption reason the
  source throws; its message text is left out.
\<close>

datatype RecordLogCorruptionReason =
    MultipleOpenOperations | UnknownOperation | RecordAfterFinish | NonConsecutiveAttempt
  | InvalidCompactionReason | QueueAfterAbort | InvalidQueueCancellation | InconsistentStep
  | ToolCallMismatch | DuplicateToolInvocation | ProvisionedEntryMismatch | InvalidDeferredHandle

text \<open>An \<open>OperationStartedRecord\<close>, as the storage hands it out.\<close>

record OpenOperation =
  oo_id :: ustring
  oo_seq :: nat
  oo_lane :: ustring
  oo_timestamp :: int
  oo_started :: OperationStarted

record RecordLogSlice =
  sl_lane :: ustring
  sl_openOperations :: "OpenOperation list"
  sl_records :: "LaneRecord list"
  sl_entries :: "Entry list"

section \<open>Validation of one record\<close>

type_synonym entry_map = "(ustring \<times> Entry) list"

definition index_entries :: "Entry list \<Rightarrow> entry_map" where
  "index_entries es = foldl (\<lambda>m e. amap_set m (en_id e) e) [] es"

definition matchesProvisionedEntry :: "Entry \<Rightarrow> ProvisionedEntry \<Rightarrow> bool" where
  "matchesProvisionedEntry e target = deepEqual (provisioned_js (entry_payload e)) (provisioned_js target)"

definition validateExactProvisionedEntry :: "entry_map \<Rightarrow> ProvisionedEntry \<Rightarrow> RecordLogCorruptionReason + unit" where
  "validateExactProvisionedEntry entriesById target =
     (case amap_get entriesById (pe_id target) of
        None \<Rightarrow> Inr ()
      | Some e \<Rightarrow> throw_if (\<not> matchesProvisionedEntry e target) ProvisionedEntryMismatch)"

definition validateResultEntry :: "entry_map \<Rightarrow> ustring \<Rightarrow> (Entry \<Rightarrow> bool) \<Rightarrow> RecordLogCorruptionReason + unit" where
  "validateResultEntry entriesById resultEntryId matches =
     (case amap_get entriesById resultEntryId of
        None \<Rightarrow> Inr ()
      | Some e \<Rightarrow> throw_if (\<not> matches e) ProvisionedEntryMismatch)"

definition validateAttemptReason :: "StepAttempt \<Rightarrow> RecordLogCorruptionReason + unit" where
  "validateAttemptReason a =
     (if sa_step a = StCompaction then throw_if (sa_compactionReason a = None) InvalidCompactionReason
      else throw_if (sa_compactionReason a \<noteq> None) InvalidCompactionReason)"

definition continues_series :: "nat \<Rightarrow> StepAttempt \<Rightarrow> StepAttempt option \<Rightarrow> entry_map \<Rightarrow> bool" where
  "continues_series seq a previous entriesById =
     (case previous of
        None \<Rightarrow> False
      | Some p \<Rightarrow> sa_step p = sa_step a \<and>
          (case amap_get entriesById (sa_resultEntryId p) of None \<Rightarrow> True | Some e \<Rightarrow> en_seq e \<ge> seq))"

definition validateAttemptSequence ::
  "nat \<Rightarrow> StepAttempt \<Rightarrow> StepAttempt option \<Rightarrow> entry_map \<Rightarrow> RecordLogCorruptionReason + unit" where
  "validateAttemptSequence seq a previous entriesById =
     (let continuesSeries = continues_series seq a previous entriesById;
          expectedAttempt = (case previous of Some p \<Rightarrow> if continuesSeries then sa_attempt p + 1 else 1 | None \<Rightarrow> 1)
      in rbind (throw_if (sa_attempt a \<noteq> expectedAttempt) NonConsecutiveAttempt) (\<lambda>_.
         case previous of
           None \<Rightarrow> Inr ()
         | Some p \<Rightarrow>
             if \<not> continuesSeries \<or> sa_step a = StAssistant then Inr ()
             else rbind (throw_if (sa_resultEntryId a \<noteq> sa_resultEntryId p) InconsistentStep) (\<lambda>_.
                  throw_if (sa_compactionReason a \<noteq> sa_compactionReason p) InconsistentStep)))"

definition is_assistant_entry :: "Entry \<Rightarrow> bool" where
  "is_assistant_entry e = (case en_body e of MessageEntry (MAssistant _) _ \<Rightarrow> True | _ \<Rightarrow> False)"

definition validateAttemptResult :: "entry_map \<Rightarrow> StepAttempt \<Rightarrow> RecordLogCorruptionReason + unit" where
  "validateAttemptResult entriesById a =
     validateResultEntry entriesById (sa_resultEntryId a)
       (case sa_step a of
          StAssistant \<Rightarrow> is_assistant_entry
        | StCompaction \<Rightarrow> (\<lambda>e. en_type e = TCompaction)
        | StBranchSummary \<Rightarrow> (\<lambda>e. en_type e = TBranchSummary))"

definition entry_tool_calls :: "Entry \<Rightarrow> ToolCall list option" where
  "entry_tool_calls e = (case en_body e of MessageEntry (MAssistant m) _ \<Rightarrow> Some (tool_calls m) | _ \<Rightarrow> None)"

definition is_tool_result_for :: "ToolStarted \<Rightarrow> Entry \<Rightarrow> bool" where
  "is_tool_result_for t e =
     (case en_body e of
        MessageEntry (MToolResult r) _ \<Rightarrow> tr_toolCallId r = ts_toolCallId t \<and> tr_toolName r = ts_toolName t
      | _ \<Rightarrow> False)"

text \<open>The invocation key; the result is the set of invocations seen, with this one.\<close>

definition invocation_key :: "ToolStarted \<Rightarrow> ustring" where
  "invocation_key t = ts_assistantEntryId t @ [0] @ nat_text (ts_toolIndex t)"

definition validateToolStart ::
  "ToolStarted \<Rightarrow> entry_map \<Rightarrow> ustring list \<Rightarrow> RecordLogCorruptionReason + ustring list" where
  "validateToolStart t entriesById invocations =
     rbind (throw_if (invocation_key t \<in> set invocations) DuplicateToolInvocation) (\<lambda>_.
     rbind (case amap_get entriesById (ts_assistantEntryId t) of
              None \<Rightarrow> Inl ToolCallMismatch
            | Some e \<Rightarrow>
                (case entry_tool_calls e of
                   None \<Rightarrow> Inl ToolCallMismatch
                 | Some calls \<Rightarrow>
                     throw_if (\<not> (ts_toolIndex t < length calls
                         \<and> call_id (calls ! ts_toolIndex t) = ts_toolCallId t
                         \<and> call_name (calls ! ts_toolIndex t) = ts_toolName t)) ToolCallMismatch)) (\<lambda>_.
     rbind (validateResultEntry entriesById (ts_resultEntryId t) (is_tool_result_for t)) (\<lambda>_.
     Inr (set_add invocations (invocation_key t)))))"

fun validateDeferredHandles :: "Entry list \<Rightarrow> RecordLogCorruptionReason + unit" where
  "validateDeferredHandles [] = Inr ()"
| "validateDeferredHandles (e # es) =
     (case en_body e of
        MessageEntry (MAssistant m) _ \<Rightarrow>
          if am_stopReason m = SDeferred \<and> am_deferred m = None then Inl InvalidDeferredHandle
          else validateDeferredHandles es
      | _ \<Rightarrow> validateDeferredHandles es)"

fun validate_all :: "('a \<Rightarrow> 'e + unit) \<Rightarrow> 'a list \<Rightarrow> 'e + unit" where
  "validate_all f [] = Inr ()"
| "validate_all f (x # xs) = rbind (f x) (\<lambda>_. validate_all f xs)"

definition validateOperationResult :: "entry_map \<Rightarrow> OperationStarted \<Rightarrow> RecordLogCorruptionReason + unit" where
  "validateOperationResult entriesById s =
     (case os_intent s of
        RunIntent _ initialMessages _ _ \<Rightarrow> validate_all (validateExactProvisionedEntry entriesById) initialMessages
      | CompactionIntent _ resultEntryId \<Rightarrow>
          validateResultEntry entriesById resultEntryId (\<lambda>e. en_type e = TCompaction)
      | NavigationIntent _ _ _ _ summaryEntryId \<Rightarrow>
          (case summaryEntryId of
             None \<Rightarrow> Inr ()
           | Some i \<Rightarrow> if i = [] then Inr ()
               else validateResultEntry entriesById i (\<lambda>e. en_type e = TBranchSummary)))"

section \<open>Validation of a slice\<close>

text \<open>The local variables of the loop of \<open>validateRecordLog\<close>.\<close>

record Validation =
  va_starts :: "(ustring \<times> OperationStarted) list"
  va_finishedAt :: "(ustring \<times> nat) list"
  va_abortedAt :: "(ustring \<times> nat) list"
  va_queueEnqueues :: "(ustring \<times> (nat \<times> QueueEnqueued)) list"
  va_latestAttempt :: "(ustring \<times> StepAttempt) list"
  va_toolInvocations :: "ustring list"

definition new_Validation :: Validation where
  "new_Validation = \<lparr>va_starts = [], va_finishedAt = [], va_abortedAt = [], va_queueEnqueues = [],
     va_latestAttempt = [], va_toolInvocations = []\<rparr>"

definition check_owner :: "Validation \<Rightarrow> LaneRecord \<Rightarrow> RecordLogCorruptionReason + unit" where
  "check_owner v r =
     (case body_runId (lr_body r) of
        None \<Rightarrow> Inr ()
      | Some runId \<Rightarrow>
          rbind (throw_if (\<not> amap_has (va_starts v) runId) UnknownOperation) (\<lambda>_.
          case amap_get (va_finishedAt v) runId of
            None \<Rightarrow> Inr ()
          | Some finishSeq \<Rightarrow> throw_if (lr_seq r > finishSeq) RecordAfterFinish))"

definition queued_after_abort :: "Validation \<Rightarrow> LaneRecord \<Rightarrow> QueueEnqueued \<Rightarrow> bool" where
  "queued_after_abort v r q \<longleftrightarrow> qe_queue q \<noteq> QNextRun \<and>
     (case qe_runId q of
        None \<Rightarrow> False
      | Some runId \<Rightarrow> (case amap_get (va_abortedAt v) runId of None \<Rightarrow> False | Some s \<Rightarrow> lr_seq r > s))"

definition check_cancellation :: "entry_map \<Rightarrow> Validation \<Rightarrow> nat \<Rightarrow> ustring option \<Rightarrow> ustring \<Rightarrow> bool" where
  "check_cancellation entriesById v seq runId entryId \<longleftrightarrow>
     (case amap_get (va_queueEnqueues v) entryId of
        None \<Rightarrow> False
      | Some (s, q) \<Rightarrow> s < seq \<and> qe_runId q = runId \<and> \<not> amap_has entriesById entryId)"

text \<open>One pass of the loop.\<close>

definition validate_record :: "entry_map \<Rightarrow> Validation \<Rightarrow> LaneRecord \<Rightarrow> RecordLogCorruptionReason + Validation" where
  "validate_record entriesById v r =
     (case lr_body r of
        OperationStartedRecord s \<Rightarrow>
          rbind (validateOperationResult entriesById s) (\<lambda>_.
          Inr (v\<lparr>va_starts := amap_set (va_starts v) (lr_id r) s\<rparr>))
      | body \<Rightarrow>
          rbind (check_owner v r) (\<lambda>_.
          case body of
            OperationFinishedRecord runId _ _ \<Rightarrow>
              Inr (v\<lparr>va_finishedAt := amap_set (va_finishedAt v) runId (lr_seq r)\<rparr>)
          | AbortRequestedRecord runId \<Rightarrow>
              Inr (v\<lparr>va_abortedAt := amap_set (va_abortedAt v) runId (lr_seq r)\<rparr>)
          | StepAttemptRecord a \<Rightarrow>
              rbind (validateAttemptReason a) (\<lambda>_.
              rbind (validateAttemptSequence (lr_seq r) a (amap_get (va_latestAttempt v) (sa_runId a)) entriesById) (\<lambda>_.
              rbind (validateAttemptResult entriesById a) (\<lambda>_.
              Inr (v\<lparr>va_latestAttempt := amap_set (va_latestAttempt v) (sa_runId a) a\<rparr>))))
          | ToolStartedRecord t \<Rightarrow>
              rbind (validateToolStart t entriesById (va_toolInvocations v)) (\<lambda>invocations.
              Inr (v\<lparr>va_toolInvocations := invocations\<rparr>))
          | QueueEnqueuedRecord q \<Rightarrow>
              rbind (throw_if (queued_after_abort v r q) QueueAfterAbort) (\<lambda>_.
              rbind (validateExactProvisionedEntry entriesById (qe_target q)) (\<lambda>_.
              Inr (v\<lparr>va_queueEnqueues := amap_set (va_queueEnqueues v) (pe_id (qe_target q)) (lr_seq r, q)\<rparr>)))
          | QueueCancelledRecord runId entryId \<Rightarrow>
              rbind (throw_if (\<not> check_cancellation entriesById v (lr_seq r) runId entryId) InvalidQueueCancellation)
                (\<lambda>_. Inr v)
          | WriteDeferredRecord _ target \<Rightarrow>
              rbind (validateExactProvisionedEntry entriesById target) (\<lambda>_. Inr v)
          | _ \<Rightarrow> Inr v))"

fun validate_records ::
  "entry_map \<Rightarrow> Validation \<Rightarrow> LaneRecord list \<Rightarrow> RecordLogCorruptionReason + Validation" where
  "validate_records entriesById v [] = Inr v"
| "validate_records entriesById v (r # rs) =
     rbind (validate_record entriesById v r) (\<lambda>v'. validate_records entriesById v' rs)"

definition validateRecordLog :: "RecordLogSlice \<Rightarrow> RecordLogCorruptionReason + unit" where
  "validateRecordLog input =
     rbind (throw_if (length (sl_openOperations input) > 1) MultipleOpenOperations) (\<lambda>_.
     let entriesById = index_entries (sl_entries input) in
     rbind (validateDeferredHandles (map snd entriesById)) (\<lambda>_.
     rbind (validate_records entriesById new_Validation (sort_key lr_seq (sl_records input))) (\<lambda>_. Inr ())))"

section \<open>The lane state\<close>

record EffectiveLaneConfiguration =
  lc_model :: "ustring \<times> ustring"
  lc_thinkingLevel :: ustring
  lc_activeToolNames :: "ustring list"

datatype failure_source = FromStep | FromDeferredFetch

record TerminalFailureState =
  tf_entryId :: ustring
  tf_source :: failure_source
  tf_message :: AssistantMessage

record ToolCallState =
  tb_toolIndex :: nat
  tb_toolCall :: ToolCall
  tb_started :: "ToolStarted option"
  tb_resultExists :: bool
  tb_terminate :: bool

record ToolBatchState =
  tbs_assistantEntryId :: ustring
  tbs_calls :: "ToolCallState list"
  tbs_truncated :: bool
  tbs_unresolved :: bool

record StepState =
  sst_kind :: step_kind
  sst_attempts :: nat
  sst_resultEntryId :: ustring
  sst_compactionReason :: "CompactionReason option"

datatype message_role =
  RoleUser | RoleAssistant | RoleToolResult | RoleBash | RoleCustom | RoleBranchSummary | RoleCompactionSummary

fun role_of :: "AgentMessage \<Rightarrow> message_role" where
  "role_of (MUser _) = RoleUser"
| "role_of (MAssistant _) = RoleAssistant"
| "role_of (MToolResult _) = RoleToolResult"
| "role_of (MBash _) = RoleBash"
| "role_of (MCustom _) = RoleCustom"
| "role_of (MBranchSummary _) = RoleBranchSummary"
| "role_of (MCompactionSummary _) = RoleCompactionSummary"

record NewestOwn =
  no_entryId :: ustring
  no_type :: entry_type
  no_role :: "message_role option"
  no_stopReason :: "StopReason option"

record OperationTargets =
  ot_result :: "bool option"
  ot_summary :: "bool option"

record OperationState =
  ops_id :: ustring
  ops_intent :: intent
  ops_aborting :: bool
  ops_step :: "StepState option"
  ops_toolBatch :: "ToolBatchState option"
  ops_missingInitialMessages :: "ProvisionedEntry list"
  ops_pendingSteer :: "ProvisionedEntry list"
  ops_pendingFollowUp :: "ProvisionedEntry list"
  ops_pendingWrites :: "ProvisionedEntry list"
  ops_deferred :: "DeferredHandle option"
  ops_overflowRecoveryUsed :: bool
  ops_newestOwn :: "NewestOwn option"
  ops_targets :: OperationTargets

record LaneState =
  ls_lane :: ustring
  ls_leafId :: "ustring option"
  ls_operation :: "OperationState option"
  ls_pendingNextRun :: "ProvisionedEntry list"

record LaneReductionInput = RecordLogSlice +
  in_leafId :: "ustring option"
  in_ownEntries :: "Entry list"
  in_configurationEntries :: "Entry list"
  in_defaults :: EffectiveLaneConfiguration

record LaneReductionResult =
  res_laneState :: LaneState
  res_effectiveConfiguration :: EffectiveLaneConfiguration
  res_terminalFailure :: "TerminalFailureState option"

section \<open>Derivations\<close>

definition configuration_step :: "EffectiveLaneConfiguration \<Rightarrow> Entry \<Rightarrow> EffectiveLaneConfiguration" where
  "configuration_step c e =
     (case en_body e of
        ModelChangeEntry provider modelId \<Rightarrow> c\<lparr>lc_model := (provider, modelId)\<rparr>
      | ThinkingLevelEntry level \<Rightarrow> c\<lparr>lc_thinkingLevel := level\<rparr>
      | ActiveToolsEntry names \<Rightarrow> c\<lparr>lc_activeToolNames := names\<rparr>
      | MessageEntry (MAssistant m) _ \<Rightarrow> c\<lparr>lc_model := (am_provider m, am_model m)\<rparr>
      | _ \<Rightarrow> c)"

definition deriveEffectiveConfiguration :: "LaneReductionInput \<Rightarrow> EffectiveLaneConfiguration" where
  "deriveEffectiveConfiguration input =
     foldl configuration_step (in_defaults input)
       (sort_key en_seq (map snd (index_entries (in_configurationEntries input @ in_ownEntries input))))"

definition deriveNewestOwn :: "Entry option \<Rightarrow> NewestOwn option" where
  "deriveNewestOwn entry =
     map_option (\<lambda>e. \<lparr>no_entryId = en_id e, no_type = en_type e,
        no_role = (case en_body e of MessageEntry m _ \<Rightarrow> Some (role_of m) | _ \<Rightarrow> None),
        no_stopReason = (case en_body e of MessageEntry (MAssistant m) _ \<Rightarrow> Some (am_stopReason m) | _ \<Rightarrow> None)\<rparr>) entry"

definition last_opt :: "'a list \<Rightarrow> 'a option" where
  "last_opt xs = (if xs = [] then None else Some (last xs))"

text \<open>The assistant entry of the tool batch: the newest own one that calls a tool.\<close>

definition batch_assistant :: "Entry list \<Rightarrow> (Entry \<times> AssistantMessage) option" where
  "batch_assistant ownEntries =
     Option.bind (List.find (\<lambda>e. case entry_tool_calls e of Some calls \<Rightarrow> calls \<noteq> [] | None \<Rightarrow> False) (rev ownEntries))
       (\<lambda>e. case en_body e of MessageEntry (MAssistant m) _ \<Rightarrow> Some (e, m) | _ \<Rightarrow> None)"

definition tool_starts :: "ustring \<Rightarrow> LaneRecord list \<Rightarrow> ustring \<Rightarrow> (nat \<times> ToolStarted) list" where
  "tool_starts operationId records assistantEntryId =
     foldl (\<lambda>m r. case lr_body r of
         ToolStartedRecord t \<Rightarrow>
           if ts_runId t = operationId \<and> ts_assistantEntryId t = assistantEntryId
           then amap_set m (ts_toolIndex t) t else m
       | _ \<Rightarrow> m) [] records"

definition is_blocked_result :: "nat \<Rightarrow> ustring list \<Rightarrow> ToolCall \<Rightarrow> Entry \<Rightarrow> bool" where
  "is_blocked_result seq deferredWriteIds toolCall e \<longleftrightarrow>
     en_seq e > seq \<and> en_id e \<notin> set deferredWriteIds \<and>
     (case en_body e of MessageEntry (MToolResult r) _ \<Rightarrow> tr_toolCallId r = call_id toolCall | _ \<Rightarrow> False)"

definition tool_call_state ::
  "(nat \<times> ToolStarted) list \<Rightarrow> nat \<Rightarrow> Entry list \<Rightarrow> entry_map \<Rightarrow> ustring list \<Rightarrow> nat \<Rightarrow> ToolCall \<Rightarrow> ToolCallState" where
  "tool_call_state starts seq ownEntries entriesById deferredWriteIds toolIndex toolCall =
     (let started = amap_get starts toolIndex;
          startedResult = Option.bind started (\<lambda>t. amap_get entriesById (ts_resultEntryId t));
          blockedResult = List.find (is_blocked_result seq deferredWriteIds toolCall) ownEntries;
          result = (case startedResult of Some e \<Rightarrow> Some e | None \<Rightarrow> blockedResult)
      in \<lparr>tb_toolIndex = toolIndex, tb_toolCall = toolCall, tb_started = started,
          tb_resultExists = (result \<noteq> None),
          tb_terminate = (case result of
             Some e \<Rightarrow> (case en_body e of MessageEntry _ terminate \<Rightarrow> terminate | _ \<Rightarrow> False) | None \<Rightarrow> False)\<rparr>)"

definition deriveToolBatch ::
  "ustring \<Rightarrow> LaneRecord list \<Rightarrow> Entry list \<Rightarrow> entry_map \<Rightarrow> ustring list \<Rightarrow> ToolBatchState option" where
  "deriveToolBatch operationId records ownEntries entriesById deferredWriteIds =
     (case batch_assistant ownEntries of
        None \<Rightarrow> None
      | Some (assistantEntry, m) \<Rightarrow>
          (let starts = tool_starts operationId records (en_id assistantEntry);
               calls = map (\<lambda>(i, c). tool_call_state starts (en_seq assistantEntry) ownEntries entriesById deferredWriteIds i c)
                 (enumerate 0 (tool_calls m))
           in Some \<lparr>tbs_assistantEntryId = en_id assistantEntry, tbs_calls = calls,
                    tbs_truncated = (am_stopReason m = SLength),
                    tbs_unresolved = list_ex (\<lambda>c. \<not> tb_resultExists c) calls\<rparr>))"

text \<open>The queue items of one queue, in record order, that are neither entries yet nor cancelled.\<close>

definition cancelled_ids :: "LaneRecord list \<Rightarrow> ustring list" where
  "cancelled_ids records =
     List.map_filter (\<lambda>r. case lr_body r of QueueCancelledRecord _ i \<Rightarrow> Some i | _ \<Rightarrow> None) records"

definition pending_queue :: "LaneRecord list \<Rightarrow> entry_map \<Rightarrow> QueueEnqueued list" where
  "pending_queue records entriesById =
     List.map_filter (\<lambda>r. case lr_body r of
         QueueEnqueuedRecord q \<Rightarrow>
           if \<not> amap_has entriesById (pe_id (qe_target q)) \<and> pe_id (qe_target q) \<notin> set (cancelled_ids records)
           then Some q else None
       | _ \<Rightarrow> None) records"

definition initial_messages :: "intent \<Rightarrow> ProvisionedEntry list" where
  "initial_messages i = (case i of RunIntent _ ms _ _ \<Rightarrow> ms | _ \<Rightarrow> [])"

definition queue_targets :: "queue_kind \<Rightarrow> ustring \<Rightarrow> QueueEnqueued list \<Rightarrow> ProvisionedEntry list" where
  "queue_targets k runId qs = map qe_target (filter (\<lambda>q. qe_queue q = k \<and> qe_runId q = Some runId) qs)"

definition operation_records :: "ustring \<Rightarrow> LaneRecord list \<Rightarrow> LaneRecord list" where
  "operation_records i records =
     filter (\<lambda>r. case lr_body r of OperationStartedRecord _ \<Rightarrow> lr_id r = i | b \<Rightarrow> body_runId b = Some i) records"

definition step_attempts :: "LaneRecord list \<Rightarrow> (nat \<times> StepAttempt) list" where
  "step_attempts records =
     List.map_filter (\<lambda>r. case lr_body r of StepAttemptRecord a \<Rightarrow> Some (lr_seq r, a) | _ \<Rightarrow> None) records"

definition deferred_writes :: "LaneRecord list \<Rightarrow> ProvisionedEntry list" where
  "deferred_writes records =
     List.map_filter (\<lambda>r. case lr_body r of WriteDeferredRecord _ t \<Rightarrow> Some t | _ \<Rightarrow> None) records"

definition derive_step :: "LaneRecord list \<Rightarrow> entry_map \<Rightarrow> StepState option" where
  "derive_step operationRecords entriesById =
     (case last_opt (step_attempts operationRecords) of
        None \<Rightarrow> None
      | Some (_, a) \<Rightarrow>
          if amap_has entriesById (sa_resultEntryId a) then None
          else Some \<lparr>sst_kind = sa_step a, sst_attempts = sa_attempt a, sst_resultEntryId = sa_resultEntryId a,
                     sst_compactionReason = (if sa_step a = StCompaction then sa_compactionReason a else None)\<rparr>)"

definition consumed_input_ids :: "intent \<Rightarrow> LaneRecord list \<Rightarrow> ustring list" where
  "consumed_input_ids i operationRecords =
     map pe_id (initial_messages i) @
     List.map_filter (\<lambda>r. case lr_body r of
         QueueEnqueuedRecord q \<Rightarrow> if qe_queue q \<noteq> QNextRun then Some (pe_id (qe_target q)) else None
       | _ \<Rightarrow> None) operationRecords"

text \<open>\<open>None\<close> is negative infinity.\<close>

definition newest_consumed :: "ustring list \<Rightarrow> entry_map \<Rightarrow> nat option" where
  "newest_consumed ids entriesById =
     foldl (\<lambda>acc i. case amap_get entriesById i of
         Some e \<Rightarrow> if en_type e = TMessage
           then Some (case acc of None \<Rightarrow> en_seq e | Some n \<Rightarrow> max n (en_seq e)) else acc
       | None \<Rightarrow> acc) None ids"

definition overflow_recovery_used :: "LaneRecord list \<Rightarrow> nat option \<Rightarrow> bool" where
  "overflow_recovery_used operationRecords newest =
     list_ex (\<lambda>(seq, a). sa_step a = StCompaction \<and> sa_compactionReason a = Some ROverflow
        \<and> (case newest of None \<Rightarrow> True | Some n \<Rightarrow> seq > n)) (step_attempts operationRecords)"

definition entry_assistant :: "Entry option \<Rightarrow> AssistantMessage option" where
  "entry_assistant e = Option.bind e (\<lambda>e. case en_body e of MessageEntry (MAssistant m) _ \<Rightarrow> Some m | _ \<Rightarrow> None)"

definition derive_deferred :: "Entry option \<Rightarrow> DeferredHandle option" where
  "derive_deferred newestOwnEntry =
     Option.bind (entry_assistant newestOwnEntry) (\<lambda>m. if am_stopReason m = SDeferred then am_deferred m else None)"

definition derive_targets :: "intent \<Rightarrow> entry_map \<Rightarrow> OperationTargets" where
  "derive_targets i entriesById =
     (case i of
        CompactionIntent _ resultEntryId \<Rightarrow> \<lparr>ot_result = Some (amap_has entriesById resultEntryId), ot_summary = None\<rparr>
      | NavigationIntent _ _ _ _ (Some s) \<Rightarrow>
          \<lparr>ot_result = None, ot_summary = (if s = [] then None else Some (amap_has entriesById s))\<rparr>
      | _ \<Rightarrow> \<lparr>ot_result = None, ot_summary = None\<rparr>)"

definition terminal_failure :: "LaneRecord list \<Rightarrow> Entry list \<Rightarrow> ustring list \<Rightarrow> TerminalFailureState option" where
  "terminal_failure operationRecords ownEntries deferredWriteIds =
     (case last_opt ownEntries of
        None \<Rightarrow> None
      | Some e \<Rightarrow>
          (case entry_assistant (Some e) of
             None \<Rightarrow> None
           | Some m \<Rightarrow>
               if am_stopReason m = SError \<and> en_id e \<notin> set deferredWriteIds then
                 (let producedByStep = list_ex (\<lambda>(_, a). sa_resultEntryId a = en_id e) (step_attempts operationRecords);
                      fetched = list_ex (\<lambda>r. case lr_body r of
                          UsageRecord _ (UAttempt CDeferredFetch _ entryId _ _) \<Rightarrow> entryId = en_id e
                        | _ \<Rightarrow> False) operationRecords;
                      followsDeferred = (case entry_assistant (last_opt (butlast ownEntries)) of
                          Some p \<Rightarrow> am_stopReason p = SDeferred | None \<Rightarrow> False)
                  in if producedByStep \<or> fetched \<or> followsDeferred
                     then Some \<lparr>tf_entryId = en_id e, tf_source = (if producedByStep then FromStep else FromDeferredFetch),
                                tf_message = m\<rparr>
                     else None)
               else None))"

definition reduce_operation ::
  "OpenOperation \<Rightarrow> LaneRecord list \<Rightarrow> Entry list \<Rightarrow> entry_map \<Rightarrow> QueueEnqueued list \<Rightarrow> OperationState" where
  "reduce_operation started records ownEntries entriesById pendingQueue =
     (let i = os_intent (oo_started started);
          operationRecords = operation_records (oo_id started) records;
          aborting = list_ex (\<lambda>r. record_type_of (lr_body r) = RAbortRequested) operationRecords;
          writes = deferred_writes operationRecords
      in \<lparr>ops_id = oo_id started, ops_intent = i, ops_aborting = aborting,
          ops_step = derive_step operationRecords entriesById,
          ops_toolBatch = deriveToolBatch (oo_id started) operationRecords ownEntries entriesById (map pe_id writes),
          ops_missingInitialMessages = filter (\<lambda>t. \<not> amap_has entriesById (pe_id t)) (initial_messages i),
          ops_pendingSteer = (if aborting then [] else queue_targets QSteer (oo_id started) pendingQueue),
          ops_pendingFollowUp = (if aborting then [] else queue_targets QFollowUp (oo_id started) pendingQueue),
          ops_pendingWrites = filter (\<lambda>t. \<not> amap_has entriesById (pe_id t)) writes,
          ops_deferred = derive_deferred (last_opt ownEntries),
          ops_overflowRecoveryUsed =
            overflow_recovery_used operationRecords
              (newest_consumed (consumed_input_ids i operationRecords) entriesById),
          ops_newestOwn = deriveNewestOwn (last_opt ownEntries),
          ops_targets = derive_targets i entriesById\<rparr>)"

definition slice_of :: "LaneReductionInput \<Rightarrow> RecordLogSlice" where
  "slice_of input = RecordLogSlice.truncate input"

definition reduceLaneState :: "LaneReductionInput \<Rightarrow> RecordLogCorruptionReason + LaneReductionResult" where
  "reduceLaneState input =
     rbind (validateRecordLog (slice_of input)) (\<lambda>_.
     let records = sort_key lr_seq (sl_records input);
         ownEntries = sort_key en_seq (in_ownEntries input);
         entriesById = index_entries (sl_entries input @ ownEntries);
         pendingQueue = pending_queue records entriesById;
         started = (case sl_openOperations input of [] \<Rightarrow> None | s # _ \<Rightarrow> Some s);
         captured = (case started of None \<Rightarrow> [] | Some s \<Rightarrow> map pe_id (initial_messages (os_intent (oo_started s))));
         pendingNextRun = map qe_target
           (filter (\<lambda>q. qe_queue q = QNextRun \<and> pe_id (qe_target q) \<notin> set captured) pendingQueue);
         configuration = deriveEffectiveConfiguration input
     in Inr (case started of
          None \<Rightarrow> \<lparr>res_laneState = \<lparr>ls_lane = sl_lane input, ls_leafId = in_leafId input, ls_operation = None,
                      ls_pendingNextRun = pendingNextRun\<rparr>,
                   res_effectiveConfiguration = configuration, res_terminalFailure = None\<rparr>
        | Some s \<Rightarrow>
            (let operationRecords = operation_records (oo_id s) records
             in \<lparr>res_laneState = \<lparr>ls_lane = sl_lane input, ls_leafId = in_leafId input,
                    ls_operation = Some (reduce_operation s records ownEntries entriesById pendingQueue),
                    ls_pendingNextRun = pendingNextRun\<rparr>,
                 res_effectiveConfiguration = configuration,
                 res_terminalFailure =
                   terminal_failure operationRecords ownEntries (map pe_id (deferred_writes operationRecords))\<rparr>)))"

end
