(* ===== verification/Reducer_Props.thy ===== *)
theory Reducer_Props
  imports Reducer
begin

text \<open>
  What the lane reducer guarantees: the corruption check accepts exactly the logs that satisfy a declarative
  specification over prefixes of the log, and the reduced state lists exactly the work that is still to be done.
\<close>

section \<open>The specification of a valid log\<close>

text \<open>The value the last record with key \<open>k\<close> gives.\<close>

definition latest :: "('r \<Rightarrow> ('k \<times> 'v) option) \<Rightarrow> 'r list \<Rightarrow> 'k \<Rightarrow> 'v option" where
  "latest f rs = foldl (\<lambda>m r. case f r of None \<Rightarrow> m | Some (k, v) \<Rightarrow> m(k \<mapsto> v)) Map.empty rs"

fun start_of :: "LaneRecord \<Rightarrow> (ustring \<times> OperationStarted) option" where
  "start_of r = (case lr_body r of OperationStartedRecord s \<Rightarrow> Some (lr_id r, s) | _ \<Rightarrow> None)"

fun finish_of :: "LaneRecord \<Rightarrow> (ustring \<times> nat) option" where
  "finish_of r = (case lr_body r of OperationFinishedRecord run _ _ \<Rightarrow> Some (run, lr_seq r) | _ \<Rightarrow> None)"

fun abort_of :: "LaneRecord \<Rightarrow> (ustring \<times> nat) option" where
  "abort_of r = (case lr_body r of AbortRequestedRecord run \<Rightarrow> Some (run, lr_seq r) | _ \<Rightarrow> None)"

fun enqueue_of :: "LaneRecord \<Rightarrow> (ustring \<times> (nat \<times> QueueEnqueued)) option" where
  "enqueue_of r = (case lr_body r of QueueEnqueuedRecord q \<Rightarrow> Some (pe_id (qe_target q), (lr_seq r, q)) | _ \<Rightarrow> None)"

fun attempt_of :: "LaneRecord \<Rightarrow> (ustring \<times> StepAttempt) option" where
  "attempt_of r = (case lr_body r of StepAttemptRecord a \<Rightarrow> Some (sa_runId a, a) | _ \<Rightarrow> None)"

fun invocation_of :: "LaneRecord \<Rightarrow> (ustring \<times> nat) option" where
  "invocation_of r = (case lr_body r of ToolStartedRecord t \<Rightarrow> Some (ts_assistantEntryId t, ts_toolIndex t) | _ \<Rightarrow> None)"

text \<open>A provisioned entry, where it exists, carries the content its intent names.\<close>

definition written_as_intended :: "entry_map \<Rightarrow> ProvisionedEntry \<Rightarrow> bool" where
  "written_as_intended E t \<longleftrightarrow> (\<forall>e. map_of E (pe_id t) = Some e \<longrightarrow> matchesProvisionedEntry e t)"

definition result_is :: "entry_map \<Rightarrow> ustring \<Rightarrow> (Entry \<Rightarrow> bool) \<Rightarrow> bool" where
  "result_is E i p \<longleftrightarrow> (\<forall>e. map_of E i = Some e \<longrightarrow> p e)"

definition intent_ok :: "entry_map \<Rightarrow> intent \<Rightarrow> bool" where
  "intent_ok E i = (case i of
     RunIntent _ ms _ _ \<Rightarrow> (\<forall>t \<in> set ms. written_as_intended E t)
   | CompactionIntent _ r \<Rightarrow> result_is E r (\<lambda>e. en_type e = TCompaction)
   | NavigationIntent _ _ _ _ s \<Rightarrow> (\<forall>r. s = Some r \<and> r \<noteq> [] \<longrightarrow> result_is E r (\<lambda>e. en_type e = TBranchSummary)))"

definition attempt_ok :: "entry_map \<Rightarrow> LaneRecord list \<Rightarrow> nat \<Rightarrow> StepAttempt \<Rightarrow> bool" where
  "attempt_ok E pre seq a \<longleftrightarrow>
     (sa_step a = StCompaction \<longleftrightarrow> sa_compactionReason a \<noteq> None) \<and>
     result_is E (sa_resultEntryId a) (case sa_step a of
         StAssistant \<Rightarrow> is_assistant_entry
       | StCompaction \<Rightarrow> (\<lambda>e. en_type e = TCompaction)
       | StBranchSummary \<Rightarrow> (\<lambda>e. en_type e = TBranchSummary)) \<and>
     (case latest attempt_of pre (sa_runId a) of
        Some p \<Rightarrow>
          if sa_step p = sa_step a \<and> result_is E (sa_resultEntryId p) (\<lambda>e. seq \<le> en_seq e)
          then sa_attempt a = sa_attempt p + 1 \<and>
            (sa_step a \<noteq> StAssistant \<longrightarrow> sa_resultEntryId a = sa_resultEntryId p \<and> sa_compactionReason a = sa_compactionReason p)
          else sa_attempt a = 1
      | None \<Rightarrow> sa_attempt a = 1)"

definition tool_start_ok :: "entry_map \<Rightarrow> LaneRecord list \<Rightarrow> ToolStarted \<Rightarrow> bool" where
  "tool_start_ok E pre t \<longleftrightarrow>
     (\<forall>r \<in> set pre. invocation_of r \<noteq> Some (ts_assistantEntryId t, ts_toolIndex t)) \<and>
     (\<exists>e calls. map_of E (ts_assistantEntryId t) = Some e \<and> entry_tool_calls e = Some calls \<and>
        ts_toolIndex t < length calls \<and> call_id (calls ! ts_toolIndex t) = ts_toolCallId t \<and>
        call_name (calls ! ts_toolIndex t) = ts_toolName t) \<and>
     result_is E (ts_resultEntryId t) (is_tool_result_for t)"

definition owned :: "LaneRecord list \<Rightarrow> LaneRecord \<Rightarrow> bool" where
  "owned pre r \<longleftrightarrow> (\<forall>run. body_runId (lr_body r) = Some run \<longrightarrow>
     (\<exists>s \<in> set pre. \<exists>st. start_of s = Some (run, st)) \<and> (\<forall>f \<in> set pre. \<forall>n. finish_of f \<noteq> Some (run, n)))"

text \<open>When a record may follow the records \<open>pre\<close>.\<close>

definition record_ok :: "entry_map \<Rightarrow> LaneRecord list \<Rightarrow> LaneRecord \<Rightarrow> bool" where
  "record_ok E pre r = (case lr_body r of
     OperationStartedRecord s \<Rightarrow> intent_ok E (os_intent s)
   | StepAttemptRecord a \<Rightarrow> owned pre r \<and> attempt_ok E pre (lr_seq r) a
   | ToolStartedRecord t \<Rightarrow> owned pre r \<and> tool_start_ok E pre t
   | QueueEnqueuedRecord q \<Rightarrow> owned pre r \<and> written_as_intended E (qe_target q) \<and>
       (\<forall>run a n. qe_queue q \<noteq> QNextRun \<and> qe_runId q = Some run \<and> a \<in> set pre \<longrightarrow> abort_of a \<noteq> Some (run, n))
   | QueueCancelledRecord run i \<Rightarrow> owned pre r \<and> map_of E i = None \<and>
       (\<exists>n q. latest enqueue_of pre i = Some (n, q) \<and> qe_runId q = run)
   | WriteDeferredRecord _ t \<Rightarrow> owned pre r \<and> written_as_intended E t
   | _ \<Rightarrow> owned pre r)"

definition log_ok :: "entry_map \<Rightarrow> LaneRecord list \<Rightarrow> bool" where
  "log_ok E rs \<longleftrightarrow> (\<forall>i < length rs. record_ok E (take i rs) (rs ! i))"

definition handle_ok :: "Entry \<Rightarrow> bool" where
  "handle_ok e \<longleftrightarrow>
     (\<forall>m x. en_body e = MessageEntry (MAssistant m) x \<and> am_stopReason m = SDeferred \<longrightarrow> am_deferred m \<noteq> None)"

section \<open>The validator decides the specification\<close>

lemma latest_Nil [simp]: "latest f [] = Map.empty"
  by (simp add: latest_def)

lemma latest_snoc [simp]:
  "latest f (rs @ [r]) = (case f r of None \<Rightarrow> latest f rs | Some (k, v) \<Rightarrow> (latest f rs)(k \<mapsto> v))"
  unfolding latest_def by simp

lemma latest_Some: "latest f rs k = Some v \<Longrightarrow> \<exists>r \<in> set rs. f r = Some (k, v)"
  by (induction rs rule: rev_induct) (auto split: option.splits if_splits)

lemma latest_None: "latest f rs k = None \<longleftrightarrow> (\<forall>r \<in> set rs. \<forall>v. f r \<noteq> Some (k, v))"
  by (induction rs rule: rev_induct) (auto split: option.splits if_splits)

lemma digits_value_range: "digits_value xs acc = Some v \<Longrightarrow> c \<in> set xs \<Longrightarrow> 48 \<le> c"
  by (induction xs arbitrary: acc) (auto split: if_splits)

lemma nat_text_no_zero: "0 \<notin> set (nat_text n)"
  using digits_value_range [OF digits_value_nat_text, of 0 n] by auto

lemma append_zero_inj:
  assumes "a @ 0 # x = b @ 0 # y" "0 \<notin> set x" "0 \<notin> set y"
  shows "a = b \<and> x = y"
  using assms by (auto simp: append_eq_append_conv2 Cons_eq_append_conv append_eq_Cons_conv)

lemma invocation_key_inj:
  "invocation_key t = invocation_key u \<longleftrightarrow>
     ts_assistantEntryId t = ts_assistantEntryId u \<and> ts_toolIndex t = ts_toolIndex u"
  unfolding invocation_key_def
  using append_zero_inj [OF _ nat_text_no_zero nat_text_no_zero,
    of "ts_assistantEntryId t" "ts_toolIndex t" "ts_assistantEntryId u" "ts_toolIndex u"]
  by (auto simp: nat_text_inj)

text \<open>The record-local checks.\<close>

lemma validate_all_iff: "validate_all f xs = Inr () \<longleftrightarrow> (\<forall>x \<in> set xs. f x = Inr ())"
  by (induction xs) (auto simp: rbind_Inr_iff)

lemma validateExact_iff [simp]: "validateExactProvisionedEntry E t = Inr u \<longleftrightarrow> written_as_intended E t"
  by (auto simp: validateExactProvisionedEntry_def written_as_intended_def split: option.splits)

lemma validateResult_iff [simp]: "validateResultEntry E i p = Inr u \<longleftrightarrow> result_is E i p"
  by (auto simp: validateResultEntry_def result_is_def split: option.splits)

lemma validateOperation_iff: "validateOperationResult E s = Inr u \<longleftrightarrow> intent_ok E (os_intent s)"
  by (auto simp: validateOperationResult_def intent_ok_def validate_all_iff split: intent.splits option.splits)

lemma validateAttemptReason_iff:
  "validateAttemptReason a = Inr u \<longleftrightarrow> (sa_step a = StCompaction \<longleftrightarrow> sa_compactionReason a \<noteq> None)"
  by (auto simp: validateAttemptReason_def)

lemma continues_series_iff:
  "continues_series seq a p E \<longleftrightarrow>
     (\<exists>p'. p = Some p' \<and> sa_step p' = sa_step a \<and> result_is E (sa_resultEntryId p') (\<lambda>e. seq \<le> en_seq e))"
  by (auto simp: continues_series_def result_is_def split: option.splits)

lemma validateAttempt_iff:
  "attempt_ok E pre seq a \<longleftrightarrow>
     validateAttemptReason a = Inr () \<and> validateAttemptSequence seq a (latest attempt_of pre (sa_runId a)) E = Inr ()
     \<and> validateAttemptResult E a = Inr ()"
  by (cases "latest attempt_of pre (sa_runId a)")
    (auto simp: attempt_ok_def validateAttemptReason_iff validateAttemptSequence_def validateAttemptResult_def
      continues_series_iff Let_def rbind_Inr_iff)

lemma handles_iff: "validateDeferredHandles es = Inr () \<longleftrightarrow> (\<forall>e \<in> set es. handle_ok e)"
  by (induction es) (auto simp: handle_ok_def split: entry_body.splits AgentMessage.splits)

fun keys_of :: "LaneRecord \<Rightarrow> ustring set" where
  "keys_of r = (case lr_body r of ToolStartedRecord t \<Rightarrow> {invocation_key t} | _ \<Rightarrow> {})"

lemma keys_of_iff:
  "invocation_key t \<in> keys_of r \<longleftrightarrow> invocation_of r = Some (ts_assistantEntryId t, ts_toolIndex t)"
  by (cases "lr_body r") (auto simp: invocation_key_inj)

text \<open>What the local variables of the loop hold after the records \<open>pre\<close>.\<close>

definition tracks :: "LaneRecord list \<Rightarrow> Validation \<Rightarrow> bool" where
  "tracks pre v \<longleftrightarrow>
     map_of (va_starts v) = latest start_of pre \<and> map_of (va_finishedAt v) = latest finish_of pre \<and>
     map_of (va_abortedAt v) = latest abort_of pre \<and> map_of (va_queueEnqueues v) = latest enqueue_of pre \<and>
     map_of (va_latestAttempt v) = latest attempt_of pre \<and>
     set (va_toolInvocations v) = (\<Union>r \<in> set pre. keys_of r)"

lemma tracks_new: "tracks [] new_Validation"
  by (simp add: tracks_def new_Validation_def)

lemma latest_before:
  assumes "\<forall>p \<in> set pre. lr_seq p < s"
  shows "latest finish_of pre k = Some n \<Longrightarrow> n < s" and "latest abort_of pre k = Some n \<Longrightarrow> n < s"
    and "latest enqueue_of pre k = Some (n, q) \<Longrightarrow> n < s"
  using assms by (auto dest!: latest_Some split: record_body.split_asm)

lemma invocations_tracked:
  assumes "tracks pre v"
  shows "invocation_key t \<in> set (va_toolInvocations v) \<longleftrightarrow>
    (\<exists>r \<in> set pre. invocation_of r = Some (ts_assistantEntryId t, ts_toolIndex t))"
  using assms by (simp add: tracks_def keys_of_iff del: invocation_of.simps keys_of.simps)

lemma check_owner_iff:
  assumes "tracks pre v" and "\<forall>p \<in> set pre. lr_seq p < lr_seq r"
  shows "check_owner v r = Inr u \<longleftrightarrow> owned pre r"
proof (cases "body_runId (lr_body r)")
  case (Some run)
  have "(\<exists>y. latest start_of pre run = Some y) \<longleftrightarrow> (\<exists>s \<in> set pre. \<exists>st. start_of s = Some (run, st))"
    using latest_None [of start_of pre run] by auto
  then show ?thesis
    using Some assms(1) latest_before(1) [OF assms(2)] latest_None [of finish_of pre run]
    by (cases "latest finish_of pre run")
      (auto simp: check_owner_def owned_def tracks_def rbind_Inr_iff simp del: start_of.simps finish_of.simps)
qed (simp add: check_owner_def owned_def)

lemma queued_after_abort_iff:
  assumes "tracks pre v" and "\<forall>p \<in> set pre. lr_seq p < lr_seq r"
  shows "queued_after_abort v r q \<longleftrightarrow>
    (\<exists>run a n. qe_queue q \<noteq> QNextRun \<and> qe_runId q = Some run \<and> a \<in> set pre \<and> abort_of a = Some (run, n))"
proof (cases "qe_runId q")
  case (Some run)
  then show ?thesis
    using assms(1) latest_before(2) [OF assms(2)] latest_None [of abort_of pre run]
    by (cases "latest abort_of pre run")
      (auto simp: queued_after_abort_def tracks_def simp del: abort_of.simps)
qed (simp add: queued_after_abort_def)

lemma check_cancellation_iff:
  assumes "tracks pre v" and "\<forall>p \<in> set pre. lr_seq p < seq"
  shows "check_cancellation E v seq run i \<longleftrightarrow>
    map_of E i = None \<and> (\<exists>n q. latest enqueue_of pre i = Some (n, q) \<and> qe_runId q = run)"
  using assms(1) latest_before(3) [OF assms(2)]
  by (auto simp: check_cancellation_def tracks_def split: option.splits)

lemma validateToolStart_iff:
  assumes "tracks pre v"
  shows "(\<exists>u. validateToolStart t E (va_toolInvocations v) = Inr u) \<longleftrightarrow> tool_start_ok E pre t"
  by (auto simp: validateToolStart_def tool_start_ok_def rbind_Inr_iff invocations_tracked [OF assms]
    simp del: invocation_of.simps split: option.splits)

lemma validate_record_iff:
  assumes "tracks pre v" and "\<forall>p \<in> set pre. lr_seq p < lr_seq r"
  shows "(\<exists>v'. validate_record E v r = Inr v') \<longleftrightarrow> record_ok E pre r"
proof -
  note local = check_owner_iff [OF assms] queued_after_abort_iff [OF assms] check_cancellation_iff [OF assms]
    validateToolStart_iff [OF assms(1)]
  have [simp]: "map_of (va_latestAttempt v) = latest attempt_of pre"
    using assms(1) by (simp add: tracks_def)
  show ?thesis
    by (cases "lr_body r")
      (auto simp: validate_record_def record_ok_def local validateOperation_iff validateAttempt_iff rbind_Inr_iff
        simp del: abort_of.simps)
qed

lemma validateToolStart_adds:
  "validateToolStart t E ks = Inr ks' \<Longrightarrow> set ks' = insert (invocation_key t) (set ks)"
  by (auto simp: validateToolStart_def rbind_Inr_iff set_add_def split: if_splits)

lemma validate_record_tracks:
  assumes "tracks pre v" and "validate_record E v r = Inr v'"
  shows "tracks (pre @ [r]) v'"
  using assms
  by (cases "lr_body r") (auto simp: validate_record_def rbind_Inr_iff tracks_def dest!: validateToolStart_adds split: if_splits)

lemma validate_records_iff:
  assumes "tracks pre v" and "sorted_wrt (\<lambda>a b. lr_seq a < lr_seq b) (pre @ rs)"
  shows "(\<exists>v'. validate_records E v rs = Inr v') \<longleftrightarrow> (\<forall>i < length rs. record_ok E (pre @ take i rs) (rs ! i))"
  using assms
proof (induction rs arbitrary: pre v)
  case (Cons r rs)
  have "\<forall>p \<in> set pre. lr_seq p < lr_seq r"
    using Cons.prems(2) by (auto simp: sorted_wrt_append)
  note step = validate_record_iff [OF Cons.prems(1) this, of E]
  have "(\<exists>v'. validate_records E v (r # rs) = Inr v') \<longleftrightarrow>
      record_ok E pre r \<and> (\<forall>i < length rs. record_ok E ((pre @ [r]) @ take i rs) (rs ! i))"
    using step Cons.IH [OF validate_record_tracks [OF Cons.prems(1)]] Cons.prems(2) by (auto simp: rbind_Inr_iff)
  then show ?case by (simp add: All_less_Suc2)
qed simp

lemma sorted_key_strict:
  "distinct (map f xs) \<Longrightarrow> sorted_wrt (\<lambda>a b. f a < f b) (sort_key f xs)" for f :: "'a \<Rightarrow> nat"
proof -
  assume "distinct (map f xs)"
  then have "distinct (map f (sort_key f xs))"
    by (metis distinct_map distinct_sort set_sort)
  then have "sorted_wrt (<) (map f (sort_key f xs))"
    by (simp add: strict_sorted_iff)
  then show ?thesis by (simp add: sorted_wrt_map)
qed

text \<open>
  C16. A recovery slice whose records have distinct sequence numbers is accepted exactly when it has at
  most one open operation, every deferred assistant message carries its handle, and every record, in
  sequence order, may follow the records before it: its operation has started and has not finished, its
  attempt number continues the series of its step, its tool invocation is new and names a call of its assistant
  message, nothing is queued for an aborted run, a cancellation names the latest enqueue of its item while the
  item is not an entry, and every provisioned entry that exists has the content of its intent.
\<close>

theorem validateRecordLog_iff:
  assumes "distinct (map lr_seq (sl_records input))"
  shows "validateRecordLog input = Inr () \<longleftrightarrow>
    length (sl_openOperations input) \<le> 1 \<and>
    (\<forall>e \<in> snd ` set (index_entries (sl_entries input)). handle_ok e) \<and>
    log_ok (index_entries (sl_entries input)) (sort_key lr_seq (sl_records input))"
  using validate_records_iff [OF tracks_new, of "sort_key lr_seq (sl_records input)" "index_entries (sl_entries input)"]
    sorted_key_strict [OF assms]
  by (auto simp: validateRecordLog_def rbind_Inr_iff Let_def handles_iff log_ok_def)

section \<open>The reduced state lists the work to be done\<close>

lemma index_entries_snoc: "index_entries (es @ [e]) = amap_set (index_entries es) (en_id e) e"
  by (simp add: index_entries_def)

lemma index_entries_has: "map_of (index_entries es) i = None \<longleftrightarrow> i \<notin> en_id ` set es"
  by (induction es rule: rev_induct) (auto simp: index_entries_def)

lemma index_entries_get: "map_of (index_entries es) i = Some e \<Longrightarrow> e \<in> set es \<and> en_id e = i"
  by (induction es rule: rev_induct) (auto simp: index_entries_def split: if_splits)

lemma index_entries_member:
  "distinct (map en_id es) \<Longrightarrow> e \<in> set es \<Longrightarrow> map_of (index_entries es) (en_id e) = Some e"
  using index_entries_has [of es "en_id e"] index_entries_get [of es "en_id e"]
  by (metis (no_types, lifting) distinct_map image_eqI inj_onD not_None_eq)

text \<open>The input holds a queue record of kind \<open>k\<close> for the run whose target is \<open>t\<close>; the entry of a target is missing.\<close>

definition queued :: "LaneReductionInput \<Rightarrow> queue_kind \<Rightarrow> ustring option \<Rightarrow> ProvisionedEntry \<Rightarrow> bool" where
  "queued input k run t \<longleftrightarrow> (\<exists>r \<in> set (sl_records input). \<exists>q. lr_body r = QueueEnqueuedRecord q
     \<and> qe_queue q = k \<and> (run = None \<or> qe_runId q = run) \<and> qe_target q = t)
   \<and> (\<forall>r \<in> set (sl_records input). \<forall>x. lr_body r \<noteq> QueueCancelledRecord x (pe_id t))"

definition unwritten :: "LaneReductionInput \<Rightarrow> ProvisionedEntry \<Rightarrow> bool" where
  "unwritten input t \<longleftrightarrow> pe_id t \<notin> en_id ` (set (sl_entries input) \<union> set (in_ownEntries input))"

definition abort_asked :: "LaneReductionInput \<Rightarrow> ustring \<Rightarrow> bool" where
  "abort_asked input run \<longleftrightarrow> (\<exists>r \<in> set (sl_records input). lr_body r = AbortRequestedRecord run)"

lemma set_map_filter: "set (List.map_filter f xs) = {y. \<exists>x \<in> set xs. f x = Some y}"
  by (auto simp: map_filter_def image_iff) force

lemma body_select:
  "(case b of QueueCancelledRecord _ i \<Rightarrow> Some i | _ \<Rightarrow> None) = Some i' \<longleftrightarrow> (\<exists>x. b = QueueCancelledRecord x i')"
  "(case b of WriteDeferredRecord _ t \<Rightarrow> Some t | _ \<Rightarrow> None) = Some t' \<longleftrightarrow> (\<exists>x. b = WriteDeferredRecord x t')"
  "(case b of QueueEnqueuedRecord q \<Rightarrow> if P q then Some q else None | _ \<Rightarrow> None) = Some q'
     \<longleftrightarrow> b = QueueEnqueuedRecord q' \<and> P q'"
  by (cases b; auto)+

lemma set_cancelled_ids: "set (cancelled_ids rs) = {i. \<exists>r \<in> set rs. \<exists>x. lr_body r = QueueCancelledRecord x i}"
  by (simp add: cancelled_ids_def set_map_filter body_select)

lemma set_deferred_writes: "set (deferred_writes rs) = {t. \<exists>r \<in> set rs. \<exists>x. lr_body r = WriteDeferredRecord x t}"
  by (simp add: deferred_writes_def set_map_filter body_select)

lemma set_pending_queue:
  "set (pending_queue rs E) = {q. (\<exists>r \<in> set rs. lr_body r = QueueEnqueuedRecord q)
     \<and> map_of E (pe_id (qe_target q)) = None \<and> (\<forall>r \<in> set rs. \<forall>x. lr_body r \<noteq> QueueCancelledRecord x (pe_id (qe_target q)))}"
  by (auto simp: pending_queue_def set_map_filter body_select(3) set_cancelled_ids)

lemma operation_records_iff:
  "r \<in> set (operation_records i rs) \<longleftrightarrow> r \<in> set rs \<and>
     (body_runId (lr_body r) = Some i \<or> (record_type_of (lr_body r) = ROperationStarted \<and> lr_id r = i))"
  by (cases "lr_body r") (auto simp: operation_records_def)

lemma operation_records_subset: "set (operation_records i rs) \<subseteq> set rs"
  by (auto simp: operation_records_iff)

lemma slice_of_simps [simp]:
  "sl_entries (slice_of input) = sl_entries input" "sl_records (slice_of input) = sl_records input"
  "sl_openOperations (slice_of input) = sl_openOperations input"
  by (simp_all add: slice_of_def RecordLogSlice.truncate_def)

lemma record_type_abort: "record_type_of b = RAbortRequested \<longleftrightarrow> (\<exists>run. b = AbortRequestedRecord run)"
  by (cases b) auto

lemma set_queue_targets:
  assumes "E = index_entries (sl_entries input @ sort_key en_seq (in_ownEntries input))"
  shows "set (queue_targets k run (pending_queue (sort_key lr_seq (sl_records input)) E))
    = {t. queued input k (Some run) t \<and> unwritten input t}"
  unfolding queue_targets_def queued_def unwritten_def
  by (auto simp: set_pending_queue assms index_entries_has image_iff)

lemma reduceLaneState_open:
  assumes "reduceLaneState input = Inr res" and "sl_openOperations input = s # ss"
  defines "own \<equiv> sort_key en_seq (in_ownEntries input)" and "rs \<equiv> sort_key lr_seq (sl_records input)"
  defines "E \<equiv> index_entries (sl_entries input @ own)"
  shows "ls_operation (res_laneState res) = Some (reduce_operation s rs own E (pending_queue rs E))"
    and "ls_pendingNextRun (res_laneState res) = map qe_target (filter (\<lambda>q. qe_queue q = QNextRun
      \<and> pe_id (qe_target q) \<notin> pe_id ` set (initial_messages (os_intent (oo_started s)))) (pending_queue rs E))"
    and "validateRecordLog (slice_of input) = Inr ()"
  using assms by (auto simp: reduceLaneState_def rbind_Inr_iff Let_def)


section \<open>Tool batches\<close>

lemma validate_records_each:
  "validate_records E v rs = Inr v' \<Longrightarrow> r \<in> set rs \<Longrightarrow> \<exists>v1 v2. validate_record E v1 r = Inr v2"
  by (induction rs arbitrary: v) (auto simp: rbind_Inr_iff)

lemma accepted_tool_start:
  assumes "validateRecordLog sl = Inr ()" and "r \<in> set (sl_records sl)" and "lr_body r = ToolStartedRecord t"
  shows "\<exists>e calls. map_of (index_entries (sl_entries sl)) (ts_assistantEntryId t) = Some e
      \<and> entry_tool_calls e = Some calls \<and> ts_toolIndex t < length calls
      \<and> call_id (calls ! ts_toolIndex t) = ts_toolCallId t \<and> call_name (calls ! ts_toolIndex t) = ts_toolName t"
    and "result_is (index_entries (sl_entries sl)) (ts_resultEntryId t) (is_tool_result_for t)"
proof -
  obtain v1 v2 where "validate_record (index_entries (sl_entries sl)) v1 r = Inr v2"
    using assms validate_records_each [of "index_entries (sl_entries sl)" new_Validation "sort_key lr_seq (sl_records sl)" _ r]
    by (auto simp: validateRecordLog_def rbind_Inr_iff Let_def split: if_splits)
  then obtain ks ks' where "validateToolStart t (index_entries (sl_entries sl)) ks = Inr ks'"
    using assms(3) by (auto simp: validate_record_def rbind_Inr_iff)
  then show "\<exists>e calls. map_of (index_entries (sl_entries sl)) (ts_assistantEntryId t) = Some e
      \<and> entry_tool_calls e = Some calls \<and> ts_toolIndex t < length calls
      \<and> call_id (calls ! ts_toolIndex t) = ts_toolCallId t \<and> call_name (calls ! ts_toolIndex t) = ts_toolName t"
    and "result_is (index_entries (sl_entries sl)) (ts_resultEntryId t) (is_tool_result_for t)"
    by (auto simp: validateToolStart_def rbind_Inr_iff split: option.split_asm if_splits)
qed

lemma tool_starts_member:
  "map_of (tool_starts run rs a) i = Some t \<Longrightarrow>
     \<exists>r \<in> set rs. lr_body r = ToolStartedRecord t \<and> ts_assistantEntryId t = a \<and> ts_toolIndex t = i"
  by (induction rs rule: rev_induct) (auto simp: tool_starts_def split: record_body.split_asm if_splits)

lemma batch_assistant_newest:
  assumes "batch_assistant own = Some (e, m)"
  shows "\<exists>pre post x. own = pre @ e # post \<and> en_body e = MessageEntry (MAssistant m) x \<and> tool_calls m \<noteq> [] \<and>
    (\<forall>e' \<in> set post. \<forall>calls. entry_tool_calls e' = Some calls \<longrightarrow> calls = [])"
proof -
  let ?p = "\<lambda>e. case entry_tool_calls e of Some calls \<Rightarrow> calls \<noteq> [] | None \<Rightarrow> False"
  obtain e0 where f: "List.find ?p (rev own) = Some e0"
    and b: "(case en_body e0 of MessageEntry (MAssistant m) _ \<Rightarrow> Some (e0, m) | _ \<Rightarrow> None) = Some (e, m)"
    using assms by (auto simp: batch_assistant_def bind_eq_Some_conv)
  obtain i where i: "i < length own" "?p (rev own ! i)" "e0 = rev own ! i" "\<forall>j < i. \<not> ?p (rev own ! j)"
    using f by (auto simp: find_Some_iff)
  have "own = rev (drop (Suc i) (rev own)) @ e0 # rev (take i (rev own))"
    using i(1,3) id_take_nth_drop [of i "rev own"] by (metis append.assoc append_Cons append_Nil length_rev rev.simps(2) rev_append rev_rev_ident)
  then obtain pre post where own: "own = pre @ e0 # post" "post = rev (take i (rev own))"
    by blast
  have "\<forall>e' \<in> set post. \<not> ?p e'"
    using i(1,4) own(2) by (auto simp: in_set_conv_nth)
  then have "\<forall>e' \<in> set post. \<forall>calls. entry_tool_calls e' = Some calls \<longrightarrow> calls = []"
    by auto
  moreover have "e0 = e \<and> (\<exists>x. en_body e = MessageEntry (MAssistant m) x)"
    using b by (auto split: entry_body.split_asm AgentMessage.split_asm)
  moreover have "tool_calls m \<noteq> []" if "e0 = e" "en_body e = MessageEntry (MAssistant m) x" for x
    using i(2,3) that by (simp add: entry_tool_calls_def)
  ultimately show ?thesis
    using own(1) by blast
qed

lemma index_entries_own:
  assumes "distinct (map en_id es)" and "set own \<subseteq> set es"
  shows "map_of (index_entries (es @ own)) i = map_of (index_entries es) i"
  using assms(2)
proof (induction own rule: rev_induct)
  case (snoc e own)
  then have "map_of (index_entries es) (en_id e) = Some e"
    using index_entries_member [OF assms(1)] by simp
  moreover have "index_entries (es @ own @ [e]) = amap_set (index_entries (es @ own)) (en_id e) e"
    using index_entries_snoc [of "es @ own" e] by simp
  moreover have "map_of (index_entries (es @ own)) i = map_of (index_entries es) i"
    using snoc by simp
  ultimately show ?case by auto
qed simp

lemma find_member: "List.find p xs = Some x \<Longrightarrow> x \<in> set xs \<and> p x"
  by (induction xs) (auto split: if_splits)

lemma blocked_result: "List.find (is_blocked_result n ws c) own = Some e \<Longrightarrow> e \<in> set own \<and>
  (\<exists>r x. en_body e = MessageEntry (MToolResult r) x \<and> tr_toolCallId r = call_id c)"
  by (drule find_member) (auto simp: is_blocked_result_def split: entry_body.split_asm AgentMessage.split_asm)

lemma tool_result_for: "is_tool_result_for t e \<Longrightarrow>
  \<exists>r x. en_body e = MessageEntry (MToolResult r) x \<and> tr_toolCallId r = ts_toolCallId t"
  by (auto simp: is_tool_result_for_def split: entry_body.split_asm AgentMessage.split_asm)

text \<open>The start records of a call that an accepted log holds.\<close>

lemma started_call:
  assumes "validateRecordLog sl = Inr ()" and "distinct (map en_id (sl_entries sl))" and "e \<in> set (sl_entries sl)"
    and "en_body e = MessageEntry (MAssistant m) x" and "set rs \<subseteq> set (sl_records sl)"
    and "map_of (tool_starts run rs (en_id e)) i = Some t"
  shows "ts_toolCallId t = call_id (tool_calls m ! i)" and "ts_toolName t = call_name (tool_calls m ! i)"
    and "result_is (index_entries (sl_entries sl)) (ts_resultEntryId t) (is_tool_result_for t)"
proof -
  obtain r where r: "r \<in> set (sl_records sl)" "lr_body r = ToolStartedRecord t" "ts_assistantEntryId t = en_id e"
    "ts_toolIndex t = i"
    using tool_starts_member [OF assms(6)] assms(5) by blast
  then show "ts_toolCallId t = call_id (tool_calls m ! i)" "ts_toolName t = call_name (tool_calls m ! i)"
    using accepted_tool_start(1) [OF assms(1) r(1,2)] index_entries_member [OF assms(2,3)] assms(4)
    by (auto simp: entry_tool_calls_def)
  show "result_is (index_entries (sl_entries sl)) (ts_resultEntryId t) (is_tool_result_for t)"
    by (rule accepted_tool_start(2) [OF assms(1) r(1,2)])
qed

lemma resolved_call:
  assumes "tb_resultExists (tool_call_state starts n own E ws i c)"
    and "\<And>t. map_of starts i = Some t \<Longrightarrow> ts_toolCallId t = call_id c \<and> result_is E (ts_resultEntryId t) (is_tool_result_for t)"
  shows "\<exists>r y e. (e \<in> set own \<or> (\<exists>j. map_of E j = Some e)) \<and> en_body e = MessageEntry (MToolResult r) y
    \<and> tr_toolCallId r = call_id c"
proof (cases "Option.bind (map_of starts i) (\<lambda>t. map_of E (ts_resultEntryId t))")
  case None
  then obtain e where "List.find (is_blocked_result n ws c) own = Some e"
    using assms(1) by (auto simp: tool_call_state_def Let_def)
  then show ?thesis using blocked_result by blast
next
  case (Some e)
  then obtain t where "map_of starts i = Some t" "map_of E (ts_resultEntryId t) = Some e"
    by (auto simp: bind_eq_Some_conv)
  then show ?thesis using assms(2) tool_result_for [of t e] by (fastforce simp: result_is_def)
qed

lemma deriveToolBatch_calls:
  assumes "deriveToolBatch run rs own E ws = Some b"
  obtains e m where "batch_assistant own = Some (e, m)" and "tbs_assistantEntryId b = en_id e"
    and "length (tbs_calls b) = length (tool_calls m)"
    and "\<And>i. i < length (tool_calls m) \<Longrightarrow>
      tbs_calls b ! i = tool_call_state (tool_starts run rs (en_id e)) (en_seq e) own E ws i (tool_calls m ! i)"
  using assms by (auto simp: deriveToolBatch_def Let_def nth_enumerate_eq split: option.splits)

text \<open>
  C18. When the operation has a tool batch, it is that of the newest own assistant message that calls
  tools, with one state per call in the order of the calls; a started call is one whose start record names
  the same call id and tool, and a call counts as resolved only when a tool result for its id exists.
\<close>

theorem tool_batch_covers_calls:
  assumes "reduceLaneState input = Inr res" and "sl_openOperations input = s # ss"
    and "distinct (map en_id (sl_entries input))" and "set (in_ownEntries input) \<subseteq> set (sl_entries input)"
    and "ls_operation (res_laneState res) = Some op" and "ops_toolBatch op = Some b"
  shows "\<exists>pre e m x post. sort_key en_seq (in_ownEntries input) = pre @ e # post \<and>
    en_id e = tbs_assistantEntryId b \<and> en_body e = MessageEntry (MAssistant m) x \<and>
    (\<forall>e' \<in> set post. \<forall>calls. entry_tool_calls e' = Some calls \<longrightarrow> calls = []) \<and>
    tool_calls m \<noteq> [] \<and> length (tbs_calls b) = length (tool_calls m) \<and>
    (\<forall>i < length (tool_calls m). tb_toolIndex (tbs_calls b ! i) = i \<and> tb_toolCall (tbs_calls b ! i) = tool_calls m ! i \<and>
       (\<forall>t. tb_started (tbs_calls b ! i) = Some t \<longrightarrow>
          ts_toolCallId t = call_id (tool_calls m ! i) \<and> ts_toolName t = call_name (tool_calls m ! i)) \<and>
       (tb_resultExists (tbs_calls b ! i) \<longrightarrow> (\<exists>r y. \<exists>e' \<in> set (sl_entries input).
          en_body e' = MessageEntry (MToolResult r) y \<and> tr_toolCallId r = call_id (tool_calls m ! i))))"
proof -
  let ?own = "sort_key en_seq (in_ownEntries input)" and ?rs = "sort_key lr_seq (sl_records input)"
  let ?E = "index_entries (sl_entries input @ ?own)" and ?ors = "operation_records (oo_id s) (sort_key lr_seq (sl_records input))"
  let ?ws = "map pe_id (deferred_writes ?ors)"
  have E: "map_of ?E = map_of (index_entries (sl_entries input))"
    using index_entries_own [OF assms(3)] assms(4) by (intro ext) simp
  have "deriveToolBatch (oo_id s) ?ors ?own ?E ?ws = Some b"
    using reduceLaneState_open(1) [OF assms(1,2)] assms(5,6) by (simp add: reduce_operation_def Let_def)
  from deriveToolBatch_calls [OF this] obtain e m where em: "batch_assistant ?own = Some (e, m)"
    and b: "tbs_assistantEntryId b = en_id e" "length (tbs_calls b) = length (tool_calls m)"
    and c: "\<And>i. i < length (tool_calls m) \<Longrightarrow> tbs_calls b ! i =
      tool_call_state (tool_starts (oo_id s) ?ors (en_id e)) (en_seq e) ?own ?E ?ws i (tool_calls m ! i)"
    by metis
  obtain pre post x where own: "?own = pre @ e # post" "en_body e = MessageEntry (MAssistant m) x" "tool_calls m \<noteq> []"
    "\<forall>e' \<in> set post. \<forall>calls. entry_tool_calls e' = Some calls \<longrightarrow> calls = []"
    using batch_assistant_newest [OF em] by blast
  have e: "e \<in> set (sl_entries (slice_of input))"
    using own(1) assms(4) by (metis slice_of_simps(1) in_set_conv_decomp set_sort subsetD)
  have start: "ts_toolCallId t = call_id (tool_calls m ! i) \<and> ts_toolName t = call_name (tool_calls m ! i)
      \<and> result_is ?E (ts_resultEntryId t) (is_tool_result_for t)"
    if "map_of (tool_starts (oo_id s) ?ors (en_id e)) i = Some t" for i t
    using started_call [OF reduceLaneState_open(3) [OF assms(1,2)] _ e own(2) _ that] assms(3)
      operation_records_subset [of "oo_id s" ?rs]
    by (simp add: result_is_def E)
  have "\<exists>r y. \<exists>e' \<in> set (sl_entries input). en_body e' = MessageEntry (MToolResult r) y \<and> tr_toolCallId r = call_id (tool_calls m ! i)"
    if "i < length (tool_calls m)" "tb_resultExists (tbs_calls b ! i)" for i
    using resolved_call [OF that(2) [unfolded c [OF that(1)]]] start assms(4) by (fastforce simp: E dest: index_entries_get)
  then show ?thesis
    using own b start c by (intro exI [of _ pre] exI [of _ e] exI [of _ m] exI [of _ x] exI [of _ post])
      (auto simp: tool_call_state_def Let_def)
qed

section \<open>A recovery slice\<close>

text \<open>
  A run with one assistant step whose message calls one tool; the tool has started and has no result yet,
  and a steering message waits.
\<close>

definition ex_cost :: UsageCost where
  "ex_cost = \<lparr>uc_input = NInt 0, uc_output = NInt 0, uc_cacheRead = NInt 0, uc_cacheWrite = NInt 0, uc_total = NInt 0\<rparr>"

definition ex_usage :: Usage where
  "ex_usage = \<lparr>us_input = 1, us_output = 1, us_cacheRead = 0, us_cacheWrite = 0, us_cacheWrite1h = None,
     us_reasoning = None, us_totalTokens = 2, us_cost = ex_cost\<rparr>"

definition ex_call :: ToolCall where
  "ex_call = \<lparr>call_id = js_lit ''c'', call_name = js_lit ''t'', call_arguments = JNull,
     call_thoughtSignature = None, call_namespace = None\<rparr>"

definition ex_assistant :: AssistantMessage where
  "ex_assistant = \<lparr>am_content = [AToolCall ex_call], am_api = [], am_provider = js_lit ''p'', am_model = js_lit ''m'',
     am_responseModel = None, am_responseId = None, am_diagnostics = None, am_usage = ex_usage,
     am_stopReason = SToolUse, am_deferred = None, am_errorMessage = None, am_rawStopReason = None,
     am_endTurn = None, am_timestamp = 2\<rparr>"

definition ex_reply :: Entry where
  "ex_reply = \<lparr>en_id = js_lit ''b'', en_seq = 3, en_parentId = None, en_timestamp = 2,
     en_body = MessageEntry (MAssistant ex_assistant) False\<rparr>"

definition ex_steer :: ProvisionedEntry where
  "ex_steer = \<lparr>pe_id = js_lit ''q'', pe_body = MessageEntry (ex_user ''q'') False\<rparr>"

definition ex_tool_started :: ToolStarted where
  "ex_tool_started = \<lparr>ts_runId = js_lit ''o'', ts_assistantEntryId = js_lit ''b'', ts_toolIndex = 0,
     ts_toolCallId = js_lit ''c'', ts_toolName = js_lit ''t'', ts_effectiveArgs = [],
     ts_resultEntryId = js_lit ''r'', ts_replay = ReplayNever\<rparr>"

definition ex_attempt :: StepAttempt where
  "ex_attempt = \<lparr>sa_runId = js_lit ''o'', sa_step = StAssistant, sa_attempt = 1,
     sa_resultEntryId = js_lit ''b'', sa_compactionReason = None\<rparr>"

definition ex_run :: OperationStarted where
  "ex_run = \<lparr>os_sourceLeafId = None, os_intent = RunIntent [] [] None None\<rparr>"

definition ex_rec :: "string \<Rightarrow> nat \<Rightarrow> record_body \<Rightarrow> LaneRecord" where
  "ex_rec i n b = \<lparr>lr_id = js_lit i, lr_seq = n, lr_lane = main_lane, lr_timestamp = 1, lr_body = b\<rparr>"

definition ex_lane :: LaneReductionInput where
  "ex_lane = \<lparr>sl_lane = main_lane,
     sl_openOperations = [\<lparr>oo_id = js_lit ''o'', oo_seq = 1, oo_lane = main_lane, oo_timestamp = 1, oo_started = ex_run\<rparr>],
     sl_records = [ex_rec ''x'' 5 (QueueEnqueuedRecord \<lparr>qe_queue = QSteer, qe_runId = Some (js_lit ''o''), qe_target = ex_steer\<rparr>),
       ex_rec ''o'' 1 (OperationStartedRecord ex_run), ex_rec ''y'' 2 (StepAttemptRecord ex_attempt),
       ex_rec ''z'' 4 (ToolStartedRecord ex_tool_started)],
     sl_entries = [ex_reply], in_leafId = Some (js_lit ''b''), in_ownEntries = [ex_reply],
     in_configurationEntries = [],
     in_defaults = \<lparr>lc_model = ([], []), lc_thinkingLevel = [], lc_activeToolNames = []\<rparr>\<rparr>"

lemmas ex_lane_defs = ex_lane_def ex_rec_def ex_run_def ex_attempt_def ex_tool_started_def ex_steer_def ex_reply_def
  ex_assistant_def ex_call_def tool_calls_def

lemma ex_lane_sorted:
  "sort_key lr_seq (sl_records ex_lane) = [ex_rec ''o'' 1 (OperationStartedRecord ex_run),
     ex_rec ''y'' 2 (StepAttemptRecord ex_attempt), ex_rec ''z'' 4 (ToolStartedRecord ex_tool_started),
     ex_rec ''x'' 5 (QueueEnqueuedRecord \<lparr>qe_queue = QSteer, qe_runId = Some (js_lit ''o''), qe_target = ex_steer\<rparr>)]"
  by (simp add: ex_lane_def ex_rec_def)

lemma ex_lane_index: "index_entries (sl_entries ex_lane) = [(js_lit ''b'', ex_reply)]"
  by (simp add: index_entries_def ex_lane_def ex_reply_def)

lemma ex_lane_accepted: "validateRecordLog (slice_of ex_lane) = Inr ()"
  unfolding validateRecordLog_def slice_of_simps ex_lane_sorted ex_lane_index Let_def
  by (simp add: ex_lane_defs validate_record_def new_Validation_def check_owner_def validateOperationResult_def
      validateAttemptReason_def validateAttemptSequence_def validateAttemptResult_def continues_series_def
      validateToolStart_def validateResultEntry_def is_assistant_entry_def entry_tool_calls_def
      queued_after_abort_def validateExactProvisionedEntry_def ex_user_def invocation_key_def throw_if_def Let_def)

lemma ex_lane_reduced: "\<exists>res op b. reduceLaneState ex_lane = Inr res \<and> ls_operation (res_laneState res) = Some op
  \<and> ops_toolBatch op = Some b \<and> tbs_assistantEntryId b = js_lit ''b'' \<and> ops_pendingSteer op = [ex_steer]"
  unfolding reduceLaneState_def ex_lane_accepted ex_lane_sorted
  by (simp add: ex_lane_defs reduce_operation_def deriveToolBatch_def batch_assistant_def entry_tool_calls_def
      operation_records_def queue_targets_def pending_queue_def cancelled_ids_def index_entries_def map_filter_simps
      Let_def)

theorem validateRecordLog_iff_witness:
  "distinct (map lr_seq (sl_records (slice_of ex_lane))) \<and>
   log_ok (index_entries (sl_entries (slice_of ex_lane))) (sort_key lr_seq (sl_records (slice_of ex_lane)))"
  using validateRecordLog_iff [of "slice_of ex_lane"] ex_lane_accepted by (simp add: ex_lane_def ex_rec_def)


theorem tool_batch_covers_calls_witness:
  "\<exists>res op b. reduceLaneState ex_lane = Inr res \<and> ls_operation (res_laneState res) = Some op \<and>
     ops_toolBatch op = Some b \<and> length (tbs_calls b) = 1 \<and> tb_toolCall (tbs_calls b ! 0) = ex_call"
proof -
  obtain res op b where res: "reduceLaneState ex_lane = Inr res" "ls_operation (res_laneState res) = Some op"
    "ops_toolBatch op = Some b"
    using ex_lane_reduced by blast
  have own: "sort_key en_seq (in_ownEntries ex_lane) = pre @ e # post \<longleftrightarrow> pre = [] \<and> e = ex_reply \<and> post = []" for pre e post
    by (auto simp: ex_lane_def Cons_eq_append_conv)
  have calls: "en_body ex_reply = MessageEntry (MAssistant m) x \<Longrightarrow> tool_calls m = [ex_call]" for m x
    by (auto simp: ex_reply_def ex_assistant_def tool_calls_def map_filter_simps)
  show ?thesis
    using tool_batch_covers_calls [OF res(1) _ _ _ res(2,3), of "hd (sl_openOperations ex_lane)" "[]"] res calls
    unfolding own by (fastforce simp: ex_lane_def)
qed

end
