(* ===== verification/Agent_Types.thy ===== *)
theory Agent_Types
  imports Messages
begin

text \<open>
  The types of the agent loop: \<^verbatim>\<open>pi/packages/agent/src/types.ts\<close> and the stream protocol of
  \<^verbatim>\<open>pi/packages/ai/src/types.ts\<close>. Everything outside the loop (hooks, tools, the model, the clock, the
  abort signal, the consumer of events) acts on a state \<open>'w\<close> of its own; an asynchronous callback is a function
  on \<open>'w\<close>. A callback whose contract forbids it to throw is total, one that may throw returns
  the error text as \<open>Inl\<close>.
\<close>

section \<open>Models and their streams\<close>

text \<open>The fields of a model that are not read here are one value.\<close>

record Model =
  mo_id :: ustring
  mo_api :: ustring
  mo_provider :: ustring
  mo_reasoning :: bool
  mo_contextWindow :: int
  mo_maxTokens :: int
  mo_other :: js

datatype AssistantMessageEvent =
    EvStart AssistantMessage
  | EvTextStart nat AssistantMessage
  | EvTextDelta nat ustring AssistantMessage
  | EvTextEnd nat ustring AssistantMessage
  | EvThinkingStart nat AssistantMessage
  | EvThinkingDelta nat ustring AssistantMessage
  | EvThinkingEnd nat ustring AssistantMessage
  | EvToolcallStart nat ustring ustring AssistantMessage
  | EvToolcallDelta nat ustring AssistantMessage
  | EvToolcallEnd nat ToolCall AssistantMessage
  | EvDone StopReason AssistantMessage
  | EvError StopReason AssistantMessage

text \<open>
  What the calls of \<open>next\<close> on a response return: the end, or an event and the rest; the surroundings may
  act while a call waits. \<open>rs_result\<close> is the promise of the final message.
\<close>

datatype 'w event_source =
    Ended
  | Arrives AssistantMessageEvent "'w event_source"
  | Awaits "'w \<Rightarrow> 'w" "'w \<Rightarrow> 'w event_source"

record 'w Response =
  rs_events :: "'w event_source"
  rs_result :: "'w \<Rightarrow> AssistantMessage \<times> 'w"

section \<open>Tools\<close>

datatype ToolExecutionMode = Sequential | Parallel

text \<open>\<open>content\<close> may be missing: tools written in JavaScript are not checked.\<close>

record AgentToolResult =
  ar_content :: "user_block list option"
  ar_details :: "js option"
  ar_usage :: "Usage option"
  ar_addedToolNames :: "ustring list option"
  ar_terminate :: "bool option"

text \<open>
  A running tool: it has returned or thrown, it reports a partial result, or it is suspended until the
  surroundings have acted.
\<close>

datatype 'w execution =
    Returned AgentToolResult
  | Thrown ustring
  | Reports AgentToolResult "'w execution"
  | Suspended "'w \<Rightarrow> 'w" "'w \<Rightarrow> 'w execution"

record 'w AgentTool =
  at_name :: ustring
  at_description :: ustring
  at_parameters :: js
  at_label :: ustring
  at_prepareArguments :: "(js \<Rightarrow> ustring + js) option"
  at_execute :: "ustring \<Rightarrow> js \<Rightarrow> 'w execution"
  at_executionMode :: "ToolExecutionMode option"

record BeforeToolCallResult =
  bt_block :: "bool option"
  bt_reason :: "ustring option"
  bt_terminate :: "bool option"

record AfterToolCallResult =
  aft_content :: "user_block list option"
  aft_details :: "js option"
  aft_isError :: "bool option"
  aft_usage :: "Usage option"
  aft_terminate :: "bool option"

section \<open>Contexts, configuration and events\<close>

record 'w AgentContext =
  cx_systemPrompt :: ustring
  cx_messages :: "AgentMessage list"
  cx_tools :: "'w AgentTool list option"

record 'w LlmContext =
  llm_systemPrompt :: ustring
  llm_messages :: "Message list"
  llm_tools :: "'w AgentTool list option"

record 'w BeforeToolCallContext =
  bc_assistantMessage :: AssistantMessage
  bc_toolCall :: ToolCall
  bc_args :: js
  bc_context :: "'w AgentContext"

record 'w AfterToolCallContext = "'w BeforeToolCallContext" +
  af_result :: AgentToolResult
  af_isError :: bool

record 'w TurnContext =
  tn_message :: AssistantMessage
  tn_toolResults :: "ToolResultMessage list"
  tn_context :: "'w AgentContext"
  tn_newMessages :: "AgentMessage list"

record 'w AgentLoopTurnUpdate =
  tu_context :: "'w AgentContext option"
  tu_model :: "Model option"
  tu_thinkingLevel :: "ustring option"

record 'w AgentLoopConfig =
  ac_model :: Model
  ac_apiKey :: "ustring option"
  ac_reasoning :: "ustring option"
  ac_convertToLlm :: "AgentMessage list \<Rightarrow> 'w \<Rightarrow> Message list \<times> 'w"
  ac_transformContext :: "(AgentMessage list \<Rightarrow> 'w \<Rightarrow> AgentMessage list \<times> 'w) option"
  ac_getApiKey :: "(ustring \<Rightarrow> 'w \<Rightarrow> ustring option \<times> 'w) option"
  ac_shouldStopAfterTurn :: "('w TurnContext \<Rightarrow> 'w \<Rightarrow> bool \<times> 'w) option"
  ac_prepareNextTurn :: "('w TurnContext \<Rightarrow> 'w \<Rightarrow> 'w AgentLoopTurnUpdate option \<times> 'w) option"
  ac_getSteeringMessages :: "('w \<Rightarrow> AgentMessage list \<times> 'w) option"
  ac_getFollowUpMessages :: "('w \<Rightarrow> AgentMessage list \<times> 'w) option"
  ac_toolExecution :: "ToolExecutionMode option"
  ac_beforeToolCall :: "('w BeforeToolCallContext \<Rightarrow> 'w \<Rightarrow> (ustring + BeforeToolCallResult option) \<times> 'w) option"
  ac_afterToolCall :: "('w AfterToolCallContext \<Rightarrow> 'w \<Rightarrow> (ustring + AfterToolCallResult option) \<times> 'w) option"

type_synonym 'w StreamFn = "Model \<Rightarrow> 'w LlmContext \<Rightarrow> 'w AgentLoopConfig \<Rightarrow> 'w \<Rightarrow> 'w Response \<times> 'w"

datatype AgentEvent =
    AgentStart
  | AgentEnd "AgentMessage list"
  | TurnStart
  | TurnEnd AgentMessage "ToolResultMessage list"
  | MessageStart AgentMessage
  | MessageUpdate AgentMessage AssistantMessageEvent
  | MessageEnd AgentMessage
  | ToolExecutionStart ustring ustring js
  | ToolExecutionUpdate ustring ustring js AgentToolResult
  | ToolExecutionEnd ustring ustring AgentToolResult bool

end
