(* ===== verification/Agent_Loop.thy ===== *)
theory Agent_Loop
  imports Agent_Types
begin

text \<open>
  \<^verbatim>\<open>pi/packages/agent/src/agent-loop.ts\<close>: streaming a response, executing its tool calls in sequence or
  concurrently, and the loop over turns. \<open>LoopEnv\<close> holds what the functions use besides their
  arguments: the event sink, the abort signal, the clock, the check of tool arguments, and the interleaving of
  concurrently running tools. The debug output of \<open>executePreparedToolCall\<close> is left out.
\<close>

record 'w LoopEnv =
  le_sink :: "AgentEvent \<Rightarrow> 'w \<Rightarrow> 'w"
  le_aborted :: "'w \<Rightarrow> bool"
  le_now :: "'w \<Rightarrow> int"
  le_validateToolArguments :: "'w AgentTool \<Rightarrow> ToolCall \<Rightarrow> ustring + js"
  le_schedule :: "'w \<Rightarrow> nat list"

text \<open>The surroundings, and the events emitted so far.\<close>

record 'w Run =
  ru_world :: 'w
  ru_events :: "AgentEvent list"

definition emit :: "'w LoopEnv \<Rightarrow> AgentEvent \<Rightarrow> 'w Run \<Rightarrow> 'w Run" where
  "emit env e r = r\<lparr>ru_world := le_sink env e (ru_world r), ru_events := ru_events r @ [e]\<rparr>"

definition emits :: "'w LoopEnv \<Rightarrow> AgentEvent list \<Rightarrow> 'w Run \<Rightarrow> 'w Run" where
  "emits env es r = fold (emit env) es r"

text \<open>A call of an asynchronous callback.\<close>

definition call_on :: "('w \<Rightarrow> 'a \<times> 'w) \<Rightarrow> 'w Run \<Rightarrow> 'a \<times> 'w Run" where
  "call_on f r = (case f (ru_world r) of (a, w) \<Rightarrow> (a, r\<lparr>ru_world := w\<rparr>))"

definition aborted :: "'w LoopEnv \<Rightarrow> 'w Run \<Rightarrow> bool" where
  "aborted env r = le_aborted env (ru_world r)"

section \<open>Streaming a response\<close>

fun eventPartial :: "AssistantMessageEvent \<Rightarrow> AssistantMessage option" where
  "eventPartial (EvStart p) = Some p"
| "eventPartial (EvTextStart _ p) = Some p"
| "eventPartial (EvTextDelta _ _ p) = Some p"
| "eventPartial (EvTextEnd _ _ p) = Some p"
| "eventPartial (EvThinkingStart _ p) = Some p"
| "eventPartial (EvThinkingDelta _ _ p) = Some p"
| "eventPartial (EvThinkingEnd _ _ p) = Some p"
| "eventPartial (EvToolcallStart _ _ _ p) = Some p"
| "eventPartial (EvToolcallDelta _ _ p) = Some p"
| "eventPartial (EvToolcallEnd _ _ p) = Some p"
| "eventPartial (EvDone _ _) = None"
| "eventPartial (EvError _ _) = None"

definition append_message :: "AgentMessage \<Rightarrow> 'w AgentContext \<Rightarrow> 'w AgentContext" where
  "append_message m c = c\<lparr>cx_messages := cx_messages c @ [m]\<rparr>"

definition set_last_message :: "AgentMessage \<Rightarrow> 'w AgentContext \<Rightarrow> 'w AgentContext" where
  "set_last_message m c = c\<lparr>cx_messages := (cx_messages c)[length (cx_messages c) - 1 := m]\<rparr>"

definition finish_response ::
  "'w LoopEnv \<Rightarrow> 'w Response \<Rightarrow> bool \<Rightarrow> 'w AgentContext \<Rightarrow> 'w Run \<Rightarrow> AssistantMessage \<times> 'w AgentContext \<times> 'w Run" where
  "finish_response env response addedPartial c r =
     (let (finalMessage, r1) = call_on (rs_result response) r;
          m = MAssistant finalMessage;
          c1 = (if addedPartial then set_last_message m c else append_message m c);
          r2 = (if addedPartial then r1 else emit env (MessageStart m) r1)
      in (finalMessage, c1, emit env (MessageEnd m) r2))"

text \<open>The loop over the events; \<open>partialMessage\<close> is set exactly when \<open>addedPartial\<close> is.\<close>

primrec consume_response ::
  "'w LoopEnv \<Rightarrow> 'w Response \<Rightarrow> 'w event_source \<Rightarrow> bool \<Rightarrow> 'w AgentContext \<Rightarrow> 'w Run
     \<Rightarrow> AssistantMessage \<times> 'w AgentContext \<times> 'w Run" where
  "consume_response env response Ended added c r = finish_response env response added c r"
| "consume_response env response (Awaits f k) added c r =
     consume_response env response (k (ru_world r)) added c (r\<lparr>ru_world := f (ru_world r)\<rparr>)"
| "consume_response env response (Arrives event rest) added c r =
     (case event of
        EvStart partial \<Rightarrow>
          consume_response env response rest True (append_message (MAssistant partial) c)
            (emit env (MessageStart (MAssistant partial)) r)
      | EvDone _ _ \<Rightarrow> finish_response env response added c r
      | EvError _ _ \<Rightarrow> finish_response env response added c r
      | _ \<Rightarrow>
          (case eventPartial event of
             Some partial \<Rightarrow>
               if added then
                 consume_response env response rest True (set_last_message (MAssistant partial) c)
                   (emit env (MessageUpdate (MAssistant partial) event) r)
               else consume_response env response rest False c r
           | None \<Rightarrow> consume_response env response rest added c r))"

definition truthy_text :: "ustring option \<Rightarrow> bool" where
  "truthy_text t = (case t of None \<Rightarrow> False | Some s \<Rightarrow> s \<noteq> [])"

definition streamAssistantResponse ::
  "'w LoopEnv \<Rightarrow> 'w StreamFn \<Rightarrow> 'w AgentLoopConfig \<Rightarrow> 'w AgentContext \<Rightarrow> 'w Run
     \<Rightarrow> AssistantMessage \<times> 'w AgentContext \<times> 'w Run" where
  "streamAssistantResponse env streamFunction config context r =
     (let (messages, r1) =
            (case ac_transformContext config of
               None \<Rightarrow> (cx_messages context, r)
             | Some f \<Rightarrow> call_on (f (cx_messages context)) r);
          (llmMessages, r2) = call_on (ac_convertToLlm config messages) r1;
          llmContext = \<lparr>llm_systemPrompt = cx_systemPrompt context, llm_messages = llmMessages, llm_tools = cx_tools context\<rparr>;
          (key, r3) =
            (case ac_getApiKey config of
               None \<Rightarrow> (None, r2)
             | Some f \<Rightarrow> call_on (f (mo_provider (ac_model config))) r2);
          resolvedApiKey = (if truthy_text key then key else ac_apiKey config);
          (response, r4) =
            call_on (streamFunction (ac_model config) llmContext (config\<lparr>ac_apiKey := resolvedApiKey\<rparr>)) r3
      in consume_response env response (rs_events response) False context r4)"

section \<open>Tool results\<close>

record FinalizedToolCallOutcome =
  fi_toolCall :: ToolCall
  fi_result :: AgentToolResult
  fi_isError :: bool

record ExecutedToolCallBatch =
  eb_messages :: "ToolResultMessage list"
  eb_terminate :: bool

definition createErrorToolResult :: "ustring \<Rightarrow> AgentToolResult" where
  "createErrorToolResult message =
     \<lparr>ar_content = Some [UText \<lparr>tc_text = message, tc_textSignature = None\<rparr>],
      ar_details = Some (JObj ObjectProto False []), ar_usage = None, ar_addedToolNames = None, ar_terminate = None\<rparr>"

definition emitToolExecutionEnd :: "'w LoopEnv \<Rightarrow> FinalizedToolCallOutcome \<Rightarrow> 'w Run \<Rightarrow> 'w Run" where
  "emitToolExecutionEnd env f r =
     emit env (ToolExecutionEnd (call_id (fi_toolCall f)) (call_name (fi_toolCall f)) (fi_result f) (fi_isError f)) r"

definition createToolResultMessage :: "int \<Rightarrow> FinalizedToolCallOutcome \<Rightarrow> ToolResultMessage" where
  "createToolResultMessage now f =
     \<lparr>tr_toolCallId = call_id (fi_toolCall f), tr_toolName = call_name (fi_toolCall f),
      tr_content = (case ar_content (fi_result f) of None \<Rightarrow> [] | Some c \<Rightarrow> c),
      tr_details = ar_details (fi_result f), tr_usage = ar_usage (fi_result f),
      tr_addedToolNames =
        (case ar_addedToolNames (fi_result f) of Some ns \<Rightarrow> if ns = [] then None else Some ns | None \<Rightarrow> None),
      tr_isError = fi_isError f, tr_timestamp = now\<rparr>"

definition emitToolResultMessage :: "'w LoopEnv \<Rightarrow> ToolResultMessage \<Rightarrow> 'w Run \<Rightarrow> 'w Run" where
  "emitToolResultMessage env m r = emit env (MessageEnd (MToolResult m)) (emit env (MessageStart (MToolResult m)) r)"

definition emit_tool_start :: "'w LoopEnv \<Rightarrow> ToolCall \<Rightarrow> 'w Run \<Rightarrow> 'w Run" where
  "emit_tool_start env c r = emit env (ToolExecutionStart (call_id c) (call_name c) (call_arguments c)) r"

definition shouldTerminateToolBatch :: "FinalizedToolCallOutcome list \<Rightarrow> bool" where
  "shouldTerminateToolBatch fs \<longleftrightarrow> fs \<noteq> [] \<and> list_all (\<lambda>f. ar_terminate (fi_result f) = Some True) fs"

definition truncated_text :: "ustring \<Rightarrow> ustring" where
  "truncated_text name = js_lit ''Tool call '' @ [34] @ name @ [34] @
     js_lit '' was not executed: the response hit the output token limit, so its arguments may be truncated. Re-issue the tool call with complete arguments.''"

fun failToolCallsFromTruncatedMessage ::
  "'w LoopEnv \<Rightarrow> ToolCall list \<Rightarrow> 'w Run \<Rightarrow> ToolResultMessage list \<times> 'w Run" where
  "failToolCallsFromTruncatedMessage env [] r = ([], r)"
| "failToolCallsFromTruncatedMessage env (c # cs) r =
     (let r1 = emit_tool_start env c r;
          f = \<lparr>fi_toolCall = c, fi_result = createErrorToolResult (truncated_text (call_name c)), fi_isError = True\<rparr>;
          r2 = emitToolExecutionEnd env f r1;
          m = createToolResultMessage (le_now env (ru_world r2)) f;
          (ms, r3) = failToolCallsFromTruncatedMessage env cs (emitToolResultMessage env m r2)
      in (m # ms, r3))"

section \<open>Executing one tool call\<close>

record 'w PreparedToolCall =
  pr_toolCall :: ToolCall
  pr_tool :: "'w AgentTool"
  pr_args :: js

datatype 'w preparation = Prepared "'w PreparedToolCall" | Immediate AgentToolResult bool

definition find_tool :: "'w AgentContext \<Rightarrow> ustring \<Rightarrow> 'w AgentTool option" where
  "find_tool c name = Option.bind (cx_tools c) (List.find (\<lambda>t. at_name t = name))"

definition prepareToolCallArguments :: "'w AgentTool \<Rightarrow> ToolCall \<Rightarrow> ustring + ToolCall" where
  "prepareToolCallArguments tool c =
     (case at_prepareArguments tool of
        None \<Rightarrow> Inr c
      | Some f \<Rightarrow> rbind (f (call_arguments c)) (\<lambda>args. Inr (c\<lparr>call_arguments := args\<rparr>)))"

definition abortedOutcome :: "'w preparation" where
  "abortedOutcome = Immediate (createErrorToolResult (js_lit ''Operation aborted'')) True"

definition blocked_result :: "BeforeToolCallResult \<Rightarrow> AgentToolResult" where
  "blocked_result b =
     (let reason = (if truthy_text (bt_reason b) then the (bt_reason b) else js_lit ''Tool execution was blocked'');
          result = createErrorToolResult reason
      in if bt_terminate b = Some True then result\<lparr>ar_terminate := Some True\<rparr> else result)"

definition before_hook ::
  "'w LoopEnv \<Rightarrow> 'w AgentLoopConfig \<Rightarrow> 'w BeforeToolCallContext \<Rightarrow> 'w Run \<Rightarrow> 'w preparation option \<times> 'w Run" where
  "before_hook env config bc r =
     (case ac_beforeToolCall config of
        None \<Rightarrow> (None, r)
      | Some hook \<Rightarrow>
          (case call_on (hook bc) r of
             (Inl message, r1) \<Rightarrow> (Some (Immediate (createErrorToolResult message) True), r1)
           | (Inr beforeResult, r1) \<Rightarrow>
               if aborted env r1 then (Some abortedOutcome, r1)
               else (case beforeResult of
                       None \<Rightarrow> (None, r1)
                     | Some b \<Rightarrow> if bt_block b = Some True then (Some (Immediate (blocked_result b) True), r1) else (None, r1))))"

definition prepareToolCall ::
  "'w LoopEnv \<Rightarrow> 'w AgentLoopConfig \<Rightarrow> 'w AgentContext \<Rightarrow> AssistantMessage \<Rightarrow> ToolCall \<Rightarrow> 'w Run
     \<Rightarrow> 'w preparation \<times> 'w Run" where
  "prepareToolCall env config context am c r =
     (case find_tool context (call_name c) of
        None \<Rightarrow> (Immediate (createErrorToolResult (js_lit ''Tool '' @ call_name c @ js_lit '' not found'')) True, r)
      | Some tool \<Rightarrow>
          (case rbind (prepareToolCallArguments tool c) (le_validateToolArguments env tool) of
             Inl message \<Rightarrow> (Immediate (createErrorToolResult message) True, r)
           | Inr args \<Rightarrow>
               (case before_hook env config
                   \<lparr>bc_assistantMessage = am, bc_toolCall = c, bc_args = args, bc_context = context\<rparr> r of
                  (Some outcome, r1) \<Rightarrow> (outcome, r1)
                | (None, r1) \<Rightarrow>
                    if aborted env r1 then (abortedOutcome, r1)
                    else (Prepared \<lparr>pr_toolCall = c, pr_tool = tool, pr_args = args\<rparr>, r1))))"

definition emit_tool_update :: "'w LoopEnv \<Rightarrow> ToolCall \<Rightarrow> AgentToolResult \<Rightarrow> 'w Run \<Rightarrow> 'w Run" where
  "emit_tool_update env c partialResult r =
     emit env (ToolExecutionUpdate (call_id c) (call_name c) (call_arguments c) partialResult) r"

text \<open>A tool that runs by itself, to its end.\<close>

primrec run_execution ::
  "'w LoopEnv \<Rightarrow> ToolCall \<Rightarrow> 'w execution \<Rightarrow> 'w Run \<Rightarrow> (AgentToolResult \<times> bool) \<times> 'w Run" where
  "run_execution env c (Returned result) r = ((result, False), r)"
| "run_execution env c (Thrown message) r = ((createErrorToolResult message, True), r)"
| "run_execution env c (Reports partialResult rest) r = run_execution env c rest (emit_tool_update env c partialResult r)"
| "run_execution env c (Suspended f k) r = run_execution env c (k (ru_world r)) (r\<lparr>ru_world := f (ru_world r)\<rparr>)"

definition start_execution :: "'w PreparedToolCall \<Rightarrow> 'w execution" where
  "start_execution p = at_execute (pr_tool p) (call_id (pr_toolCall p)) (pr_args p)"

definition executePreparedToolCall ::
  "'w LoopEnv \<Rightarrow> 'w PreparedToolCall \<Rightarrow> 'w Run \<Rightarrow> (AgentToolResult \<times> bool) \<times> 'w Run" where
  "executePreparedToolCall env p r = run_execution env (pr_toolCall p) (start_execution p) r"

definition or_else :: "'a option \<Rightarrow> 'a option \<Rightarrow> 'a option" where
  "or_else x y = (case x of Some _ \<Rightarrow> x | None \<Rightarrow> y)"

text \<open>\<open>??\<close> on an unchecked value.\<close>

definition nullish_or :: "js option \<Rightarrow> js option \<Rightarrow> js option" where
  "nullish_or x y = (if x = None \<or> x = Some JNull \<or> x = Some JUndef then y else x)"

definition override_result :: "AfterToolCallResult \<Rightarrow> AgentToolResult \<Rightarrow> AgentToolResult" where
  "override_result a result =
     result\<lparr>ar_content := or_else (aft_content a) (ar_content result),
       ar_details := nullish_or (aft_details a) (ar_details result),
       ar_usage := or_else (aft_usage a) (ar_usage result),
       ar_terminate := or_else (aft_terminate a) (ar_terminate result)\<rparr>"

definition finalizeExecutedToolCall ::
  "'w AgentLoopConfig \<Rightarrow> 'w AgentContext \<Rightarrow> AssistantMessage \<Rightarrow> 'w PreparedToolCall \<Rightarrow> AgentToolResult \<times> bool \<Rightarrow> 'w Run
     \<Rightarrow> FinalizedToolCallOutcome \<times> 'w Run" where
  "finalizeExecutedToolCall config context am p executed r =
     (case ac_afterToolCall config of
        None \<Rightarrow> (\<lparr>fi_toolCall = pr_toolCall p, fi_result = fst executed, fi_isError = snd executed\<rparr>, r)
      | Some hook \<Rightarrow>
          (case call_on (hook \<lparr>bc_assistantMessage = am, bc_toolCall = pr_toolCall p, bc_args = pr_args p,
                bc_context = context, af_result = fst executed, af_isError = snd executed\<rparr>) r of
             (Inl message, r1) \<Rightarrow>
               (\<lparr>fi_toolCall = pr_toolCall p, fi_result = createErrorToolResult message, fi_isError = True\<rparr>, r1)
           | (Inr None, r1) \<Rightarrow> (\<lparr>fi_toolCall = pr_toolCall p, fi_result = fst executed, fi_isError = snd executed\<rparr>, r1)
           | (Inr (Some a), r1) \<Rightarrow>
               (\<lparr>fi_toolCall = pr_toolCall p, fi_result = override_result a (fst executed),
                 fi_isError = (case aft_isError a of Some b \<Rightarrow> b | None \<Rightarrow> snd executed)\<rparr>, r1)))"

section \<open>Executing the tool calls of a message\<close>

text \<open>In sequence: one call, then the rest unless the signal is aborted.\<close>

definition execute_one ::
  "'w LoopEnv \<Rightarrow> 'w AgentLoopConfig \<Rightarrow> 'w AgentContext \<Rightarrow> AssistantMessage \<Rightarrow> ToolCall \<Rightarrow> 'w Run
     \<Rightarrow> FinalizedToolCallOutcome \<times> 'w Run" where
  "execute_one env config context am c r =
     (let (preparation, r1) = prepareToolCall env config context am c (emit_tool_start env c r)
      in case preparation of
           Immediate result isError \<Rightarrow> (\<lparr>fi_toolCall = c, fi_result = result, fi_isError = isError\<rparr>, r1)
         | Prepared p \<Rightarrow>
             (let (executed, r2) = executePreparedToolCall env p r1
              in finalizeExecutedToolCall config context am p executed r2))"

fun sequential_calls ::
  "'w LoopEnv \<Rightarrow> 'w AgentLoopConfig \<Rightarrow> 'w AgentContext \<Rightarrow> AssistantMessage \<Rightarrow> ToolCall list \<Rightarrow> 'w Run
     \<Rightarrow> (FinalizedToolCallOutcome list \<times> ToolResultMessage list) \<times> 'w Run" where
  "sequential_calls env config context am [] r = (([], []), r)"
| "sequential_calls env config context am (c # cs) r =
     (let (f, r1) = execute_one env config context am c r;
          r2 = emitToolExecutionEnd env f r1;
          m = createToolResultMessage (le_now env (ru_world r2)) f;
          r3 = emitToolResultMessage env m r2
      in if aborted env r3 then (([f], [m]), r3)
         else (let ((fs, ms), r4) = sequential_calls env config context am cs r3 in ((f # fs, m # ms), r4)))"

definition executeToolCallsSequential ::
  "'w LoopEnv \<Rightarrow> 'w AgentLoopConfig \<Rightarrow> 'w AgentContext \<Rightarrow> AssistantMessage \<Rightarrow> ToolCall list \<Rightarrow> 'w Run
     \<Rightarrow> ExecutedToolCallBatch \<times> 'w Run" where
  "executeToolCallsSequential env config context am cs r =
     (let ((fs, ms), r1) = sequential_calls env config context am cs r
      in (\<lparr>eb_messages = ms, eb_terminate = shouldTerminateToolBatch fs\<rparr>, r1))"

text \<open>
  Concurrently: an entry is a closure not called yet, a running tool, a tool that has settled, a finalized call whose
  end is not announced yet, or a settled promise.
\<close>

datatype 'w task =
    Waiting "'w PreparedToolCall"
  | Running "'w PreparedToolCall" "'w execution"
  | Executed "'w PreparedToolCall" "AgentToolResult \<times> bool"
  | Finalized FinalizedToolCallOutcome
  | Settled FinalizedToolCallOutcome

fun prepare_calls ::
  "'w LoopEnv \<Rightarrow> 'w AgentLoopConfig \<Rightarrow> 'w AgentContext \<Rightarrow> AssistantMessage \<Rightarrow> ToolCall list \<Rightarrow> 'w Run
     \<Rightarrow> 'w task list \<times> 'w Run" where
  "prepare_calls env config context am [] r = ([], r)"
| "prepare_calls env config context am (c # cs) r =
     (let (preparation, r1) = prepareToolCall env config context am c (emit_tool_start env c r);
          (t, r2) = (case preparation of
             Immediate result isError \<Rightarrow>
               (let f = \<lparr>fi_toolCall = c, fi_result = result, fi_isError = isError\<rparr>
                in (Settled f, emitToolExecutionEnd env f r1))
           | Prepared p \<Rightarrow> (Waiting p, r1))
      in if aborted env r2 then ([t], r2)
         else (let (ts, r3) = prepare_calls env config context am cs r2 in (t # ts, r3)))"

text \<open>A tool runs until it is suspended or settles.\<close>

primrec run_to_suspension :: "'w LoopEnv \<Rightarrow> ToolCall \<Rightarrow> 'w execution \<Rightarrow> 'w Run \<Rightarrow> 'w execution \<times> 'w Run" where
  "run_to_suspension env c (Returned result) r = (Returned result, r)"
| "run_to_suspension env c (Thrown message) r = (Thrown message, r)"
| "run_to_suspension env c (Reports partialResult rest) r =
     run_to_suspension env c rest (emit_tool_update env c partialResult r)"
| "run_to_suspension env c (Suspended f k) r = (Suspended f k, r)"

definition running :: "'w LoopEnv \<Rightarrow> 'w PreparedToolCall \<Rightarrow> 'w execution \<Rightarrow> 'w Run \<Rightarrow> 'w task \<times> 'w Run" where
  "running env p e r = (case run_to_suspension env (pr_toolCall p) e r of (e', r') \<Rightarrow> (Running p e', r'))"

text \<open>One step of an entry: up to its next suspension.\<close>

definition advance ::
  "'w LoopEnv \<Rightarrow> 'w AgentLoopConfig \<Rightarrow> 'w AgentContext \<Rightarrow> AssistantMessage \<Rightarrow> 'w task \<Rightarrow> 'w Run \<Rightarrow> 'w task \<times> 'w Run" where
  "advance env config context am t r =
     (case t of
        Waiting p \<Rightarrow> running env p (start_execution p) r
      | Running p (Suspended f k) \<Rightarrow> running env p (k (ru_world r)) (r\<lparr>ru_world := f (ru_world r)\<rparr>)
      | Running p (Reports partialResult rest) \<Rightarrow> running env p (Reports partialResult rest) r
      | Running p (Returned result) \<Rightarrow> (Executed p (result, False), r)
      | Running p (Thrown message) \<Rightarrow> (Executed p (createErrorToolResult message, True), r)
      | Executed p executed \<Rightarrow>
          (let (f, r1) = finalizeExecutedToolCall config context am p executed r in (Finalized f, r1))
      | Finalized f \<Rightarrow> (Settled f, emitToolExecutionEnd env f r)
      | Settled f \<Rightarrow> (Settled f, r))"

fun interleave ::
  "'w LoopEnv \<Rightarrow> 'w AgentLoopConfig \<Rightarrow> 'w AgentContext \<Rightarrow> AssistantMessage \<Rightarrow> nat list \<Rightarrow> 'w task list \<Rightarrow> 'w Run
     \<Rightarrow> 'w task list \<times> 'w Run" where
  "interleave env config context am [] ts r = (ts, r)"
| "interleave env config context am (i # is) ts r =
     (if i < length ts
      then (case advance env config context am (ts ! i) r of (t, r') \<Rightarrow> interleave env config context am is (ts[i := t]) r')
      else interleave env config context am is ts r)"

text \<open>What is left of an entry, without interruption.\<close>

definition settle ::
  "'w LoopEnv \<Rightarrow> 'w AgentLoopConfig \<Rightarrow> 'w AgentContext \<Rightarrow> AssistantMessage \<Rightarrow> 'w task \<Rightarrow> 'w Run
     \<Rightarrow> FinalizedToolCallOutcome \<times> 'w Run" where
  "settle env config context am t r =
     (let after = (\<lambda>p (executed, r1).
            let (f, r2) = finalizeExecutedToolCall config context am p executed r1 in (f, emitToolExecutionEnd env f r2))
      in case t of
           Waiting p \<Rightarrow> after p (executePreparedToolCall env p r)
         | Running p e \<Rightarrow> after p (run_execution env (pr_toolCall p) e r)
         | Executed p executed \<Rightarrow> after p (executed, r)
         | Finalized f \<Rightarrow> (f, emitToolExecutionEnd env f r)
         | Settled f \<Rightarrow> (f, r))"

fun settle_all ::
  "'w LoopEnv \<Rightarrow> 'w AgentLoopConfig \<Rightarrow> 'w AgentContext \<Rightarrow> AssistantMessage \<Rightarrow> 'w task list \<Rightarrow> 'w Run
     \<Rightarrow> FinalizedToolCallOutcome list \<times> 'w Run" where
  "settle_all env config context am [] r = ([], r)"
| "settle_all env config context am (t # ts) r =
     (let (f, r1) = settle env config context am t r; (fs, r2) = settle_all env config context am ts r1 in (f # fs, r2))"

fun tool_result_messages ::
  "'w LoopEnv \<Rightarrow> FinalizedToolCallOutcome list \<Rightarrow> 'w Run \<Rightarrow> ToolResultMessage list \<times> 'w Run" where
  "tool_result_messages env [] r = ([], r)"
| "tool_result_messages env (f # fs) r =
     (let m = createToolResultMessage (le_now env (ru_world r)) f;
          (ms, r1) = tool_result_messages env fs (emitToolResultMessage env m r)
      in (m # ms, r1))"

text \<open>
  The closures are called in order, each up to its first suspension; then the entries proceed in the order of the
  schedule, which may be any, and what the schedule leaves is completed.
\<close>

definition executeToolCallsParallel ::
  "'w LoopEnv \<Rightarrow> 'w AgentLoopConfig \<Rightarrow> 'w AgentContext \<Rightarrow> AssistantMessage \<Rightarrow> ToolCall list \<Rightarrow> 'w Run
     \<Rightarrow> ExecutedToolCallBatch \<times> 'w Run" where
  "executeToolCallsParallel env config context am cs r =
     (let (ts, r1) = prepare_calls env config context am cs r;
          (ts', r2) = interleave env config context am ([0..<length ts] @ le_schedule env (ru_world r1)) ts r1;
          (fs, r3) = settle_all env config context am ts' r2;
          (ms, r4) = tool_result_messages env fs r3
      in (\<lparr>eb_messages = ms, eb_terminate = shouldTerminateToolBatch fs\<rparr>, r4))"

definition executeToolCalls ::
  "'w LoopEnv \<Rightarrow> 'w AgentLoopConfig \<Rightarrow> 'w AgentContext \<Rightarrow> AssistantMessage \<Rightarrow> 'w Run \<Rightarrow> ExecutedToolCallBatch \<times> 'w Run" where
  "executeToolCalls env config context am r =
     (let cs = tool_calls am;
          hasSequentialToolCall =
            list_ex (\<lambda>c. Option.bind (find_tool context (call_name c)) at_executionMode = Some Sequential) cs
      in if ac_toolExecution config = Some Sequential \<or> hasSequentialToolCall
         then executeToolCallsSequential env config context am cs r
         else executeToolCallsParallel env config context am cs r)"

section \<open>The loop over turns\<close>

text \<open>The variables of \<open>runLoop\<close>.\<close>

record 'w LoopState =
  lo_context :: "'w AgentContext"
  lo_config :: "'w AgentLoopConfig"
  lo_newMessages :: "AgentMessage list"
  lo_firstTurn :: bool
  lo_lastCompletedTurn :: "'w TurnContext option"
  lo_pendingMessages :: "AgentMessage list"
  lo_hasMoreToolCalls :: bool
  lo_run :: "'w Run"

definition poll :: "('w \<Rightarrow> AgentMessage list \<times> 'w) option \<Rightarrow> 'w Run \<Rightarrow> AgentMessage list \<times> 'w Run" where
  "poll source r = (case source of None \<Rightarrow> ([], r) | Some f \<Rightarrow> call_on f r)"

definition poll_steering :: "'w LoopState \<Rightarrow> 'w LoopState" where
  "poll_steering st =
     (let (ms, r) = poll (ac_getSteeringMessages (lo_config st)) (lo_run st)
      in st\<lparr>lo_pendingMessages := ms, lo_run := r\<rparr>)"

definition loop_emit :: "'w LoopEnv \<Rightarrow> AgentEvent \<Rightarrow> 'w LoopState \<Rightarrow> 'w LoopState" where
  "loop_emit env e st = st\<lparr>lo_run := emit env e (lo_run st)\<rparr>"

definition apply_update :: "'w AgentLoopTurnUpdate \<Rightarrow> 'w LoopState \<Rightarrow> 'w LoopState" where
  "apply_update u st =
     st\<lparr>lo_context := (case tu_context u of Some c \<Rightarrow> c | None \<Rightarrow> lo_context st),
        lo_config := (lo_config st)\<lparr>
          ac_model := (case tu_model u of Some m \<Rightarrow> m | None \<Rightarrow> ac_model (lo_config st)),
          ac_reasoning := (case tu_thinkingLevel u of
              None \<Rightarrow> ac_reasoning (lo_config st)
            | Some level \<Rightarrow> if level = js_lit ''off'' then None else Some level)\<rparr>\<rparr>"

definition prepare_turn :: "'w TurnContext \<Rightarrow> 'w LoopState \<Rightarrow> 'w LoopState" where
  "prepare_turn completedTurn st =
     (let (snapshot, r) =
            (case ac_prepareNextTurn (lo_config st) of
               None \<Rightarrow> (None, lo_run st)
             | Some f \<Rightarrow> call_on (f completedTurn) (lo_run st));
          st1 = (case snapshot of None \<Rightarrow> st\<lparr>lo_run := r\<rparr> | Some u \<Rightarrow> apply_update u (st\<lparr>lo_run := r\<rparr>))
      in if lo_pendingMessages st1 = [] then poll_steering st1 else st1)"

definition begin_turn :: "'w LoopEnv \<Rightarrow> 'w LoopState \<Rightarrow> 'w LoopState" where
  "begin_turn env st =
     (if lo_firstTurn st then st\<lparr>lo_firstTurn := False\<rparr>
      else loop_emit env TurnStart
        (case lo_lastCompletedTurn st of None \<Rightarrow> st | Some completedTurn \<Rightarrow> prepare_turn completedTurn st))"

definition inject_message :: "'w LoopEnv \<Rightarrow> AgentMessage \<Rightarrow> 'w LoopState \<Rightarrow> 'w LoopState" where
  "inject_message env m st =
     (let st1 = loop_emit env (MessageEnd m) (loop_emit env (MessageStart m) st)
      in st1\<lparr>lo_context := append_message m (lo_context st1), lo_newMessages := lo_newMessages st1 @ [m]\<rparr>)"

definition inject_pending :: "'w LoopEnv \<Rightarrow> 'w LoopState \<Rightarrow> 'w LoopState" where
  "inject_pending env st = (fold (inject_message env) (lo_pendingMessages st) st)\<lparr>lo_pendingMessages := []\<rparr>"

definition stream_turn :: "'w LoopEnv \<Rightarrow> 'w StreamFn \<Rightarrow> 'w LoopState \<Rightarrow> AssistantMessage \<times> 'w LoopState" where
  "stream_turn env streamFunction st =
     (let (message, c, r) = streamAssistantResponse env streamFunction (lo_config st) (lo_context st) (lo_run st)
      in (message, st\<lparr>lo_context := c, lo_run := r, lo_newMessages := lo_newMessages st @ [MAssistant message]\<rparr>))"

definition execute_batch :: "'w LoopEnv \<Rightarrow> AssistantMessage \<Rightarrow> 'w LoopState \<Rightarrow> ToolResultMessage list \<times> 'w LoopState" where
  "execute_batch env message st =
     (let cs = tool_calls message
      in if cs = [] then ([], st\<lparr>lo_hasMoreToolCalls := False\<rparr>)
         else
           (let (batch, r) =
                  (if am_stopReason message = SLength
                   then (let (ms, r) = failToolCallsFromTruncatedMessage env cs (lo_run st)
                         in (\<lparr>eb_messages = ms, eb_terminate = False\<rparr>, r))
                   else executeToolCalls env (lo_config st) (lo_context st) message (lo_run st));
                results = map MToolResult (eb_messages batch)
            in (eb_messages batch,
                st\<lparr>lo_run := r, lo_hasMoreToolCalls := \<not> eb_terminate batch,
                   lo_context := fold append_message results (lo_context st),
                   lo_newMessages := lo_newMessages st @ results\<rparr>)))"

text \<open>One pass of the inner loop; the flag says that \<open>runLoop\<close> returns.\<close>

definition loop_turn :: "'w LoopEnv \<Rightarrow> 'w StreamFn \<Rightarrow> 'w LoopState \<Rightarrow> bool \<times> 'w LoopState" where
  "loop_turn env streamFunction st =
     (let (message, st1) = stream_turn env streamFunction (inject_pending env (begin_turn env st))
      in if am_stopReason message = SError \<or> am_stopReason message = SAborted then
           (let st2 = loop_emit env (TurnEnd (MAssistant message) []) st1
            in (True, loop_emit env (AgentEnd (lo_newMessages st2)) st2))
         else
           (let (toolResults, st2) = execute_batch env message st1;
                st3 = loop_emit env (TurnEnd (MAssistant message) toolResults) st2;
                completedTurn = \<lparr>tn_message = message, tn_toolResults = toolResults, tn_context = lo_context st3,
                  tn_newMessages = lo_newMessages st3\<rparr>;
                st4 = st3\<lparr>lo_lastCompletedTurn := Some completedTurn\<rparr>;
                (stop, r) =
                  (case ac_shouldStopAfterTurn (lo_config st4) of
                     None \<Rightarrow> (False, lo_run st4)
                   | Some f \<Rightarrow> call_on (f completedTurn) (lo_run st4));
                st5 = st4\<lparr>lo_run := r\<rparr>
            in if stop then (True, loop_emit env (AgentEnd (lo_newMessages st5)) st5)
               else (False, poll_steering st5)))"

text \<open>
  The two nested loops: a pass of the inner one while there are tool calls or pending messages, otherwise the
  follow-up messages, which start the outer loop again.
\<close>

partial_function (option) run_turns :: "'w LoopEnv \<Rightarrow> 'w StreamFn \<Rightarrow> 'w LoopState \<Rightarrow> 'w LoopState option" where
  "run_turns env streamFunction st =
     (if lo_hasMoreToolCalls st \<or> lo_pendingMessages st \<noteq> [] then
        (case loop_turn env streamFunction st of
           (stop, st1) \<Rightarrow> if stop then Some st1 else run_turns env streamFunction st1)
      else
        (case poll (ac_getFollowUpMessages (lo_config st)) (lo_run st) of
           (followUpMessages, r) \<Rightarrow>
             if followUpMessages \<noteq> []
             then run_turns env streamFunction
               (st\<lparr>lo_run := r, lo_pendingMessages := followUpMessages, lo_hasMoreToolCalls := True\<rparr>)
             else Some (loop_emit env (AgentEnd (lo_newMessages st)) (st\<lparr>lo_run := r\<rparr>))))"

definition runLoop ::
  "'w LoopEnv \<Rightarrow> 'w StreamFn \<Rightarrow> 'w AgentLoopConfig \<Rightarrow> 'w AgentContext \<Rightarrow> AgentMessage list \<Rightarrow> 'w Run \<Rightarrow> 'w LoopState option" where
  "runLoop env streamFunction config context newMessages r =
     run_turns env streamFunction (poll_steering
       \<lparr>lo_context = context, lo_config = config, lo_newMessages = newMessages, lo_firstTurn = True,
        lo_lastCompletedTurn = None, lo_pendingMessages = [], lo_hasMoreToolCalls = True, lo_run = r\<rparr>)"

definition announce :: "AgentMessage \<Rightarrow> AgentEvent list" where
  "announce m = [MessageStart m, MessageEnd m]"

definition runAgentLoop ::
  "'w LoopEnv \<Rightarrow> 'w StreamFn \<Rightarrow> AgentMessage list \<Rightarrow> 'w AgentContext \<Rightarrow> 'w AgentLoopConfig \<Rightarrow> 'w Run \<Rightarrow> 'w LoopState option" where
  "runAgentLoop env streamFn prompts context config r =
     runLoop env streamFn config (context\<lparr>cx_messages := cx_messages context @ prompts\<rparr>) prompts
       (emits env ([AgentStart, TurnStart] @ concat (map announce prompts)) r)"

definition check_continue :: "'w AgentContext \<Rightarrow> ustring + unit" where
  "check_continue context =
     (if cx_messages context = [] then Inl (js_lit ''Cannot continue: no messages in context'')
      else (case last (cx_messages context) of
              MAssistant _ \<Rightarrow> Inl (js_lit ''Cannot continue from message role: assistant'')
            | _ \<Rightarrow> Inr ()))"

definition runAgentLoopContinue ::
  "'w LoopEnv \<Rightarrow> 'w StreamFn \<Rightarrow> 'w AgentContext \<Rightarrow> 'w AgentLoopConfig \<Rightarrow> 'w Run \<Rightarrow> ustring + 'w LoopState option" where
  "runAgentLoopContinue env streamFn context config r =
     rbind (check_continue context) (\<lambda>_.
     Inr (runLoop env streamFn config context [] (emits env [AgentStart, TurnStart] r)))"

end
