(* ===== verification/Agent_Loop_Props.thy ===== *)
theory Agent_Loop_Props
  imports Agent_Loop "HOL-Library.Multiset"
begin

text \<open>
  What the agent loop guarantees for every model, every tool, every hook and every interleaving. The events of a run are
  observed through functions on single events; the locale \<open>observer\<close> carries what holds for every observer that
  ignores progress reports.
\<close>

definition observed :: "(AgentEvent \<Rightarrow> 'a list) \<Rightarrow> 'w Run \<Rightarrow> 'a list" where
  "observed obs r = concat (map obs (ru_events r))"

lemma observed_emit [simp]: "observed obs (emit env e r) = observed obs r @ obs e"
  by (simp add: observed_def emit_def)

lemma observed_emits [simp]: "observed obs (emits env es r) = observed obs r @ concat (map obs es)"
  by (induction es arbitrary: r) (simp_all add: emits_def)

lemma observed_world [simp]: "observed obs (r\<lparr>ru_world := w\<rparr>) = observed obs r"
  by (simp add: observed_def)

lemma observed_call_on [simp]: "observed obs (snd (call_on f r)) = observed obs r"
  by (simp add: call_on_def split: prod.splits)

lemma call_on_observed: "call_on f r = (a, r') \<Longrightarrow> observed obs r' = observed obs r"
  using observed_call_on [of obs f r] by simp

definition tool_start_event :: "ToolCall \<Rightarrow> AgentEvent" where
  "tool_start_event c = ToolExecutionStart (call_id c) (call_name c) (call_arguments c)"

definition tool_end_event :: "FinalizedToolCallOutcome \<Rightarrow> AgentEvent" where
  "tool_end_event f = ToolExecutionEnd (call_id (fi_toolCall f)) (call_name (fi_toolCall f)) (fi_result f) (fi_isError f)"

lemma tool_events [simp]:
  "observed obs (emit_tool_start env c r) = observed obs r @ obs (tool_start_event c)"
  "observed obs (emitToolExecutionEnd env f r) = observed obs r @ obs (tool_end_event f)"
  "observed obs (emitToolResultMessage env m r) =
     observed obs r @ obs (MessageStart (MToolResult m)) @ obs (MessageEnd (MToolResult m))"
  by (simp_all add: emit_tool_start_def emitToolExecutionEnd_def emitToolResultMessage_def tool_start_event_def
      tool_end_event_def)

section \<open>The calls a batch answers\<close>

definition task_call :: "'w task \<Rightarrow> ToolCall" where
  "task_call t = (case t of Waiting p \<Rightarrow> pr_toolCall p | Running p _ \<Rightarrow> pr_toolCall p | Executed p _ \<Rightarrow> pr_toolCall p
     | Finalized f \<Rightarrow> fi_toolCall f | Settled f \<Rightarrow> fi_toolCall f)"

lemma finalize_call: "fi_toolCall (fst (finalizeExecutedToolCall config ctx am p x r)) = pr_toolCall p"
  by (simp add: finalizeExecutedToolCall_def split: option.splits prod.splits sum.splits)

lemma prepare_call: "prepareToolCall env config ctx am c r = (Prepared p, r') \<Longrightarrow> pr_toolCall p = c"
  by (auto simp: prepareToolCall_def before_hook_def abortedOutcome_def
      split: option.splits sum.splits prod.splits if_splits)

lemma execute_one_call: "fi_toolCall (fst (execute_one env config ctx am c r)) = c"
proof (cases "prepareToolCall env config ctx am c (emit_tool_start env c r)")
  case (Pair prep r1)
  then show ?thesis
    by (cases prep) (auto simp: execute_one_def finalize_call dest: prepare_call split: prod.splits)
qed

lemma advance_call: "task_call (fst (advance env config ctx am t r)) = task_call t"
proof (cases t)
  case (Running p e)
  then show ?thesis
    by (cases e) (auto simp: advance_def running_def task_call_def split: prod.splits)
next
  case (Executed p x)
  then show ?thesis
    using finalize_call [of config ctx am p x r] by (auto simp: advance_def task_call_def split: prod.splits)
qed (auto simp: advance_def running_def task_call_def split: prod.splits)

lemma settle_call: "fi_toolCall (fst (settle env config ctx am t r)) = task_call t"
  by (cases t) (auto simp: settle_def task_call_def finalize_call split_beta Let_def)

lemma interleave_calls: "map task_call (fst (interleave env config ctx am is ts r)) = map task_call ts"
proof (induction "is" arbitrary: ts r)
  case (Cons i "is")
  have "(map task_call ts)[i := task_call (ts ! i)] = map task_call ts"
    by (cases "i < length ts") (simp_all add: list_update_same_conv list_update_beyond)
  then show ?case
    using Cons advance_call [of env config ctx am "ts ! i" r] by (simp add: map_update split_beta)
qed simp

lemma settle_all_calls: "map fi_toolCall (fst (settle_all env config ctx am ts r)) = map task_call ts"
  by (induction ts arbitrary: r) (simp_all add: split_beta Let_def settle_call)

lemma prepare_calls_prefix:
  "\<exists>k. map task_call (fst (prepare_calls env config ctx am cs r)) = take k cs \<and> (cs \<noteq> [] \<longrightarrow> 0 < k)
     \<and> ((\<forall>w. \<not> le_aborted env w) \<longrightarrow> k = length cs)"
proof (induction cs arbitrary: r)
  case (Cons c cs)
  obtain prep r1 where p: "prepareToolCall env config ctx am c (emit_tool_start env c r) = (prep, r1)" by fastforce
  define t where "t = (case prep of
      Immediate x e \<Rightarrow> (Settled \<lparr>fi_toolCall = c, fi_result = x, fi_isError = e\<rparr>,
        emitToolExecutionEnd env \<lparr>fi_toolCall = c, fi_result = x, fi_isError = e\<rparr> r1)
    | Prepared p \<Rightarrow> (Waiting p, r1))"
  have c: "task_call (fst t) = c"
    using p prepare_call by (cases prep) (auto simp: t_def task_call_def)
  obtain k where k: "map task_call (fst (prepare_calls env config ctx am cs (snd t))) = take k cs"
    "(\<forall>w. \<not> le_aborted env w) \<longrightarrow> k = length cs"
    using Cons by blast
  have "prepare_calls env config ctx am (c # cs) r =
      (if aborted env (snd t) then ([fst t], snd t)
       else (fst t # fst (prepare_calls env config ctx am cs (snd t)), snd (prepare_calls env config ctx am cs (snd t))))"
    by (cases prep) (simp_all add: p t_def split_beta Let_def)
  then show ?case
    using c k by (intro exI [of _ "if aborted env (snd t) then 1 else Suc k"]) (auto simp: aborted_def)
qed simp

lemma sequential_calls_prefix:
  "\<exists>k. map fi_toolCall (fst (fst (sequential_calls env config ctx am cs r))) = take k cs \<and> (cs \<noteq> [] \<longrightarrow> 0 < k)
     \<and> ((\<forall>w. \<not> le_aborted env w) \<longrightarrow> k = length cs)"
proof (induction cs arbitrary: r)
  case (Cons c cs)
  obtain f r1 where f: "execute_one env config ctx am c r = (f, r1)" by fastforce
  let ?m = "createToolResultMessage (le_now env (ru_world (emitToolExecutionEnd env f r1))) f"
  let ?r = "emitToolResultMessage env ?m (emitToolExecutionEnd env f r1)"
  have c: "fi_toolCall f = c" using execute_one_call [of env config ctx am c r] f by simp
  obtain k where k: "map fi_toolCall (fst (fst (sequential_calls env config ctx am cs ?r))) = take k cs"
    "(\<forall>w. \<not> le_aborted env w) \<longrightarrow> k = length cs"
    using Cons by blast
  then show ?case
    using c f by (intro exI [of _ "if aborted env ?r then 1 else Suc k"]) (auto simp: aborted_def split_beta Let_def)
qed simp

text \<open>A tool result message answers the call it was made for.\<close>

definition answers :: "ToolResultMessage \<Rightarrow> ToolCall \<Rightarrow> bool" where
  "answers m c \<longleftrightarrow> tr_toolCallId m = call_id c \<and> tr_toolName m = call_name c"

lemma created_answers [simp]: "answers (createToolResultMessage now f) (fi_toolCall f)"
  by (simp add: answers_def createToolResultMessage_def)

lemma sequential_messages:
  "list_all2 (\<lambda>m f. answers m (fi_toolCall f)) (snd (fst (sequential_calls env config ctx am cs r)))
     (fst (fst (sequential_calls env config ctx am cs r)))"
  by (induction cs arbitrary: r) (auto simp: split_beta Let_def)

lemma result_messages:
  "list_all2 (\<lambda>m f. answers m (fi_toolCall f)) (fst (tool_result_messages env fs r)) fs"
  by (induction fs arbitrary: r) (auto simp: split_beta Let_def)

lemma list_all2_answers:
  "list_all2 (\<lambda>m f. answers m (fi_toolCall f)) ms fs \<Longrightarrow> map fi_toolCall fs = cs \<Longrightarrow> list_all2 answers ms cs"
  by (auto simp: list_all2_conv_all_nth)

lemma sequential_batch:
  "executeToolCallsSequential env config ctx am cs r =
     (\<lparr>eb_messages = snd (fst (sequential_calls env config ctx am cs r)),
       eb_terminate = shouldTerminateToolBatch (fst (fst (sequential_calls env config ctx am cs r)))\<rparr>,
      snd (sequential_calls env config ctx am cs r))"
  by (simp add: executeToolCallsSequential_def split_beta Let_def)

text \<open>The phases of a concurrent batch.\<close>

lemma parallel_batch:
  obtains ts r1 ts' r2 fs r3 ms r4 where
    "prepare_calls env config ctx am cs r = (ts, r1)"
    "interleave env config ctx am ([0..<length ts] @ le_schedule env (ru_world r1)) ts r1 = (ts', r2)"
    "settle_all env config ctx am ts' r2 = (fs, r3)" "tool_result_messages env fs r3 = (ms, r4)"
    "executeToolCallsParallel env config ctx am cs r = (\<lparr>eb_messages = ms, eb_terminate = shouldTerminateToolBatch fs\<rparr>, r4)"
proof -
  obtain ts r1 where 1: "prepare_calls env config ctx am cs r = (ts, r1)" by fastforce
  obtain ts' r2 where 2: "interleave env config ctx am ([0..<length ts] @ le_schedule env (ru_world r1)) ts r1 = (ts', r2)"
    by fastforce
  obtain fs r3 where 3: "settle_all env config ctx am ts' r2 = (fs, r3)" by fastforce
  obtain ms r4 where 4: "tool_result_messages env fs r3 = (ms, r4)" by fastforce
  show thesis by (rule that [OF 1 2 3 4]) (simp add: executeToolCallsParallel_def Let_def 1 2 3 4)
qed

lemma sequential_answers:
  "\<exists>k. list_all2 answers (eb_messages (fst (executeToolCallsSequential env config ctx am cs r))) (take k cs)
     \<and> (cs \<noteq> [] \<longrightarrow> 0 < k) \<and> ((\<forall>w. \<not> le_aborted env w) \<longrightarrow> k = length cs)"
proof -
  obtain k where k: "map fi_toolCall (fst (fst (sequential_calls env config ctx am cs r))) = take k cs"
    "cs \<noteq> [] \<longrightarrow> 0 < k" "(\<forall>w. \<not> le_aborted env w) \<longrightarrow> k = length cs"
    using sequential_calls_prefix [of env config ctx am cs r] by blast
  from list_all2_answers [OF sequential_messages k(1)]
  have "list_all2 answers (eb_messages (fst (executeToolCallsSequential env config ctx am cs r))) (take k cs)"
    by (simp only: sequential_batch fst_conv ExecutedToolCallBatch.simps)
  with k(2,3) show ?thesis by blast
qed

lemma parallel_answers:
  "\<exists>k. list_all2 answers (eb_messages (fst (executeToolCallsParallel env config ctx am cs r))) (take k cs)
     \<and> (cs \<noteq> [] \<longrightarrow> 0 < k) \<and> ((\<forall>w. \<not> le_aborted env w) \<longrightarrow> k = length cs)"
proof -
  obtain k where k: "map task_call (fst (prepare_calls env config ctx am cs r)) = take k cs"
    "cs \<noteq> [] \<longrightarrow> 0 < k" "(\<forall>w. \<not> le_aborted env w) \<longrightarrow> k = length cs"
    using prepare_calls_prefix [of env config ctx am cs r] by blast
  obtain ts r1 ts' r2 fs r3 ms r4 where b: "prepare_calls env config ctx am cs r = (ts, r1)"
    "interleave env config ctx am ([0..<length ts] @ le_schedule env (ru_world r1)) ts r1 = (ts', r2)"
    "settle_all env config ctx am ts' r2 = (fs, r3)" "tool_result_messages env fs r3 = (ms, r4)"
    "executeToolCallsParallel env config ctx am cs r = (\<lparr>eb_messages = ms, eb_terminate = shouldTerminateToolBatch fs\<rparr>, r4)"
    by (rule parallel_batch)
  have "map fi_toolCall fs = take k cs"
    using settle_all_calls [of env config ctx am ts' r2] interleave_calls [of env config ctx am _ ts r1] b k(1)
    by (metis fst_conv)
  from list_all2_answers [OF result_messages this, of env r3]
  have "list_all2 answers (eb_messages (fst (executeToolCallsParallel env config ctx am cs r))) (take k cs)"
    by (simp only: b(4,5) fst_conv ExecutedToolCallBatch.simps)
  with k(2,3) show ?thesis by blast
qed

lemma executeToolCalls_answers:
  "\<exists>k. list_all2 answers (eb_messages (fst (executeToolCalls env config ctx am r))) (take k (tool_calls am))
     \<and> (tool_calls am \<noteq> [] \<longrightarrow> 0 < k) \<and> ((\<forall>w. \<not> le_aborted env w) \<longrightarrow> k = length (tool_calls am))"
  using sequential_answers [of env config ctx am "tool_calls am" r] parallel_answers [of env config ctx am "tool_calls am" r]
  by (simp add: executeToolCalls_def Let_def)

section \<open>What observers see of a batch\<close>

locale observer =
  fixes obs :: "AgentEvent \<Rightarrow> 'a list"
  assumes obs_update [simp]: "obs (ToolExecutionUpdate i n a p) = []" "obs (MessageUpdate m e) = []"
begin

lemma seen_run_execution [simp]: "observed obs (snd (run_execution env c e r)) = observed obs r"
  by (induction e arbitrary: r) (simp_all add: emit_tool_update_def)

lemma seen_run_to_suspension [simp]: "observed obs (snd (run_to_suspension env c e r)) = observed obs r"
  by (induction e arbitrary: r) (simp_all add: emit_tool_update_def)

lemma seen_finalize [simp]: "observed obs (snd (finalizeExecutedToolCall config ctx am p x r)) = observed obs r"
  by (auto simp: finalizeExecutedToolCall_def dest: call_on_observed split: option.splits prod.splits sum.splits)

lemma seen_before [simp]: "observed obs (snd (before_hook env config bc r)) = observed obs r"
  by (auto simp: before_hook_def dest: call_on_observed split: option.splits prod.splits sum.splits)

lemma seen_prepare [simp]: "observed obs (snd (prepareToolCall env config ctx am c r)) = observed obs r"
proof -
  have "observed obs r' = observed obs r" if "before_hook env config bc r = (x, r')" for bc x r'
    using seen_before [of env config bc r] that by simp
  then show ?thesis
    by (auto simp: prepareToolCall_def split: option.splits prod.splits sum.splits)
qed

lemma seen_execute_one [simp]:
  "observed obs (snd (execute_one env config ctx am c r)) = observed obs r @ obs (tool_start_event c)"
  by (simp add: execute_one_def executePreparedToolCall_def split_beta Let_def split: preparation.splits)

lemma seen_running [simp]: "observed obs (snd (running env p e r)) = observed obs r"
  by (simp add: running_def split_beta)

lemma seen_advance:
  "observed obs (snd (advance env config ctx am t r)) =
     observed obs r @ (case t of Finalized f \<Rightarrow> obs (tool_end_event f) | _ \<Rightarrow> [])"
proof (cases t)
  case (Running p e)
  then show ?thesis by (cases e) (simp_all add: advance_def)
qed (simp_all add: advance_def split_beta Let_def)

lemma seen_settle:
  "observed obs (snd (settle env config ctx am t r)) =
     observed obs r @ (case t of Settled f \<Rightarrow> [] | _ \<Rightarrow> obs (tool_end_event (fst (settle env config ctx am t r))))"
  by (cases t) (simp_all add: settle_def executePreparedToolCall_def split_beta Let_def)

lemma seen_result_messages:
  "observed obs (snd (tool_result_messages env fs r)) = observed obs r @
     concat (map (\<lambda>m. obs (MessageStart (MToolResult m)) @ obs (MessageEnd (MToolResult m)))
       (fst (tool_result_messages env fs r)))"
  by (induction fs arbitrary: r) (simp_all add: split_beta Let_def)

end

text \<open>An observer of messages and turns: the execution events of tools mean nothing to it.\<close>

locale message_observer = observer +
  assumes obs_tool [simp]: "obs (ToolExecutionStart i n x) = []" "obs (ToolExecutionEnd i n res e) = []"
begin

lemma quiet_tool_events [simp]: "obs (tool_start_event c) = []" "obs (tool_end_event f) = []"
  by (simp_all add: tool_start_event_def tool_end_event_def)

lemma quiet_prepare_calls: "observed obs (snd (prepare_calls env config ctx am cs r)) = observed obs r"
proof (induction cs arbitrary: r)
  case (Cons c cs)
  have "observed obs (snd (prepareToolCall env config ctx am c (emit_tool_start env c r))) = observed obs r" by simp
  with Cons show ?case by (auto simp: split_beta Let_def split: preparation.splits)
qed simp

lemma quiet_interleave: "observed obs (snd (interleave env config ctx am is ts r)) = observed obs r"
proof (induction "is" arbitrary: ts r)
  case (Cons i "is")
  have "observed obs (snd (advance env config ctx am (ts ! i) r)) = observed obs r"
    by (simp add: seen_advance split: task.splits)
  with Cons show ?case by (simp add: split_beta)
qed simp

lemma quiet_settle_all: "observed obs (snd (settle_all env config ctx am ts r)) = observed obs r"
proof (induction ts arbitrary: r)
  case (Cons t ts)
  have "observed obs (snd (settle env config ctx am t r)) = observed obs r"
    by (simp add: seen_settle split: task.splits)
  with Cons show ?case by (simp add: split_beta Let_def)
qed simp

definition result_obs :: "ToolResultMessage \<Rightarrow> 'a list" where
  "result_obs m = obs (MessageStart (MToolResult m)) @ obs (MessageEnd (MToolResult m))"

lemma seen_sequential:
  "observed obs (snd (sequential_calls env config ctx am cs r)) = observed obs r @
     concat (map result_obs (snd (fst (sequential_calls env config ctx am cs r))))"
  by (induction cs arbitrary: r) (simp_all add: split_beta Let_def result_obs_def)

lemma seen_parallel:
  "observed obs (snd (executeToolCallsParallel env config ctx am cs r)) = observed obs r @
     concat (map result_obs (eb_messages (fst (executeToolCallsParallel env config ctx am cs r))))"
proof -
  obtain ts r1 ts' r2 fs r3 ms r4 where b: "prepare_calls env config ctx am cs r = (ts, r1)"
    "interleave env config ctx am ([0..<length ts] @ le_schedule env (ru_world r1)) ts r1 = (ts', r2)"
    "settle_all env config ctx am ts' r2 = (fs, r3)" "tool_result_messages env fs r3 = (ms, r4)"
    "executeToolCallsParallel env config ctx am cs r = (\<lparr>eb_messages = ms, eb_terminate = shouldTerminateToolBatch fs\<rparr>, r4)"
    by (rule parallel_batch)
  have "observed obs r3 = observed obs r"
    using quiet_prepare_calls [of env config ctx am cs r] quiet_interleave [of env config ctx am _ ts r1]
      quiet_settle_all [of env config ctx am ts' r2] b by (metis snd_conv)
  with seen_result_messages [of env fs r3] show ?thesis
    by (simp add: b(4,5) result_obs_def [abs_def])
qed

lemma seen_batch:
  "observed obs (snd (executeToolCalls env config ctx am r)) = observed obs r @
     concat (map result_obs (eb_messages (fst (executeToolCalls env config ctx am r))))"
  by (simp add: executeToolCalls_def Let_def seen_parallel sequential_batch seen_sequential)

lemma seen_truncated:
  "observed obs (snd (failToolCallsFromTruncatedMessage env cs r)) = observed obs r @
     concat (map result_obs (fst (failToolCallsFromTruncatedMessage env cs r)))"
  by (induction cs arbitrary: r) (simp_all add: split_beta Let_def result_obs_def)

end

section \<open>The trace of a run\<close>

text \<open>A turn: the messages injected before the response, the response, and the tool results.\<close>

type_synonym turn = "AgentMessage list \<times> AssistantMessage \<times> ToolResultMessage list"

fun turn_messages :: "turn \<Rightarrow> AgentMessage list" where
  "turn_messages (injected, m, results) = injected @ [MAssistant m] @ map MToolResult results"

definition failed :: "AssistantMessage \<Rightarrow> bool" where
  "failed m \<longleftrightarrow> am_stopReason m = SError \<or> am_stopReason m = SAborted"

text \<open>
  A failed response has no tool results; otherwise the results answer the calls of the response one by one, all of
  them unless the run is aborted.
\<close>

fun turn_ok :: "'w LoopEnv \<Rightarrow> turn \<Rightarrow> bool" where
  "turn_ok env (injected, m, results) \<longleftrightarrow>
     (if failed m then results = []
      else \<exists>k. list_all2 answers results (take k (tool_calls m)) \<and> (tool_calls m \<noteq> [] \<longrightarrow> 0 < k)
        \<and> ((\<forall>w. \<not> le_aborted env w) \<longrightarrow> k = length (tool_calls m)))"

locale end_observer = message_observer +
  assumes obs_start [simp]: "obs (MessageStart m) = []"
begin

abbreviation seen :: "'w LoopState \<Rightarrow> 'a list" where
  "seen st \<equiv> observed obs (lo_run st)"

definition ends :: "AgentMessage list \<Rightarrow> 'a list" where
  "ends ms = concat (map (\<lambda>m. obs (MessageEnd m)) ms)"

lemma ends_simps [simp]: "ends [] = []" "ends (ms @ ns) = ends ms @ ends ns" "ends (m # ms) = obs (MessageEnd m) @ ends ms"
  by (simp_all add: ends_def)

lemma result_obs_ends: "concat (map result_obs ms) = ends (map MToolResult ms)"
  by (induction ms) (simp_all add: result_obs_def)

lemma seen_finish:
  "observed obs (snd (snd (finish_response env response added c r))) =
     observed obs r @ obs (MessageEnd (MAssistant (fst (finish_response env response added c r))))"
  by (simp add: finish_response_def Let_def split_beta)

lemma seen_consume:
  "observed obs (snd (snd (consume_response env response e added c r))) =
     observed obs r @ obs (MessageEnd (MAssistant (fst (consume_response env response e added c r))))"
  by (induction e arbitrary: added c r) (simp_all add: seen_finish split: AssistantMessageEvent.split)

lemma seen_stream:
  "observed obs (snd (snd (streamAssistantResponse env sf config c r))) =
     observed obs r @ obs (MessageEnd (MAssistant (fst (streamAssistantResponse env sf config c r))))"
  by (simp add: streamAssistantResponse_def Let_def split_beta seen_consume split: option.split)

lemma seen_poll [simp]: "seen (poll_steering st) = seen st"
  by (simp add: poll_steering_def poll_def split_beta split: option.split)

lemma seen_update [simp]: "seen (apply_update u st) = seen st"
  by (simp add: apply_update_def)

lemma seen_prepare_turn [simp]: "seen (prepare_turn t st) = seen st"
  by (simp add: prepare_turn_def Let_def split_beta split: option.split)

lemma seen_begin: "seen (begin_turn env st) = seen st @ (if lo_firstTurn st then [] else obs TurnStart)"
  by (simp add: begin_turn_def loop_emit_def split: option.split)

lemma inject_pending_eq:
  "lo_newMessages (inject_pending env st) = lo_newMessages st @ lo_pendingMessages st \<and>
   seen (inject_pending env st) = seen st @ ends (lo_pendingMessages st) \<and>
   lo_firstTurn (inject_pending env st) = lo_firstTurn st"
proof -
  have "lo_newMessages (fold (inject_message env) ms st) = lo_newMessages st @ ms \<and>
      seen (fold (inject_message env) ms st) = seen st @ ends ms \<and>
      lo_firstTurn (fold (inject_message env) ms st) = lo_firstTurn st" for ms
    by (induction ms arbitrary: st) (simp_all add: inject_message_def loop_emit_def Let_def)
  then show ?thesis by (simp add: inject_pending_def)
qed

end

lemma poll_steering_keeps [simp]:
  "lo_newMessages (poll_steering st) = lo_newMessages st" "lo_firstTurn (poll_steering st) = lo_firstTurn st"
  "lo_context (poll_steering st) = lo_context st" "lo_config (poll_steering st) = lo_config st"
  by (simp_all add: poll_steering_def split_beta)

lemma prepare_turn_keeps [simp]:
  "lo_newMessages (prepare_turn t st) = lo_newMessages st" "lo_firstTurn (prepare_turn t st) = lo_firstTurn st"
  by (simp_all add: prepare_turn_def apply_update_def Let_def split_beta split: option.split)

lemma begin_turn_keeps [simp]:
  "lo_newMessages (begin_turn env st) = lo_newMessages st" "lo_firstTurn (begin_turn env st) = False"
  by (simp_all add: begin_turn_def loop_emit_def split: option.split)

lemma truncated_answers: "list_all2 answers (fst (failToolCallsFromTruncatedMessage env cs r)) cs"
  by (induction cs arbitrary: r)
    (simp_all add: split_beta Let_def answers_def createToolResultMessage_def)

lemma execute_batch_answers:
  "\<exists>k. list_all2 answers (fst (execute_batch env m st)) (take k (tool_calls m)) \<and> (tool_calls m \<noteq> [] \<longrightarrow> 0 < k)
     \<and> ((\<forall>w. \<not> le_aborted env w) \<longrightarrow> k = length (tool_calls m))"
proof (cases "tool_calls m = [] \<or> am_stopReason m = SLength")
  case True
  then show ?thesis
    using truncated_answers [of env "tool_calls m" "lo_run st"]
    by (intro exI [of _ "length (tool_calls m)"]) (auto simp: execute_batch_def split_beta Let_def)
next
  case False
  then have "fst (execute_batch env m st) = eb_messages (fst (executeToolCalls env (lo_config st) (lo_context st) m (lo_run st)))"
    by (simp add: execute_batch_def split_beta Let_def)
  then show ?thesis
    using executeToolCalls_answers [of env "lo_config st" "lo_context st" m "lo_run st"] by simp
qed

lemma execute_batch_keeps:
  "lo_newMessages (snd (execute_batch env m st)) = lo_newMessages st @ map MToolResult (fst (execute_batch env m st))"
  "lo_firstTurn (snd (execute_batch env m st)) = lo_firstTurn st"
  by (simp_all add: execute_batch_def split_beta Let_def)

text \<open>What holds of the ways the loop proceeds holds of every run that returns.\<close>

lemma run_turns_induct [consumes 1, case_names stop step follow finish]:
  assumes "run_turns env sf st = Some st'"
    and stop: "\<And>st st'. loop_turn env sf st = (True, st') \<Longrightarrow> P st st'"
    and step: "\<And>st st1 st'. loop_turn env sf st = (False, st1) \<Longrightarrow> P st1 st' \<Longrightarrow> P st st'"
    and follow: "\<And>st fu r st'. \<not> lo_hasMoreToolCalls st \<Longrightarrow> lo_pendingMessages st = [] \<Longrightarrow>
      poll (ac_getFollowUpMessages (lo_config st)) (lo_run st) = (fu, r) \<Longrightarrow> fu \<noteq> [] \<Longrightarrow>
      P (st\<lparr>lo_run := r, lo_pendingMessages := fu, lo_hasMoreToolCalls := True\<rparr>) st' \<Longrightarrow> P st st'"
    and finish: "\<And>st r. \<not> lo_hasMoreToolCalls st \<Longrightarrow> lo_pendingMessages st = [] \<Longrightarrow>
      poll (ac_getFollowUpMessages (lo_config st)) (lo_run st) = ([], r) \<Longrightarrow>
      P st (loop_emit env (AgentEnd (lo_newMessages st)) (st\<lparr>lo_run := r\<rparr>))"
  shows "P st st'"
proof -
  have "e = env \<longrightarrow> s = sf \<longrightarrow> P st st'" if "run_turns e s st = Some st'" for e s st st'
  proof (rule run_turns.raw_induct [where P = "\<lambda>e s st st'. e = env \<longrightarrow> s = sf \<longrightarrow> P st st'", OF _ that], intro impI)
    fix f e s st st'
    assume IH: "\<And>e s st st'. f e s st = Some st' \<Longrightarrow> e = env \<longrightarrow> s = sf \<longrightarrow> P st st'"
      and eq: "(if lo_hasMoreToolCalls st \<or> lo_pendingMessages st \<noteq> [] then
          (case loop_turn e s st of (stop, st1) \<Rightarrow> if stop then Some st1 else f e s st1)
        else (case poll (ac_getFollowUpMessages (lo_config st)) (lo_run st) of (followUpMessages, r) \<Rightarrow>
            if followUpMessages \<noteq> []
            then f e s (st\<lparr>lo_run := r, lo_pendingMessages := followUpMessages, lo_hasMoreToolCalls := True\<rparr>)
            else Some (loop_emit e (AgentEnd (lo_newMessages st)) (st\<lparr>lo_run := r\<rparr>)))) = Some st'"
      and es: "e = env" "s = sf"
    obtain b st1 where l: "loop_turn env sf st = (b, st1)" by fastforce
    obtain fu r where p: "poll (ac_getFollowUpMessages (lo_config st)) (lo_run st) = (fu, r)" by fastforce
    show "P st st'"
    proof (cases "lo_hasMoreToolCalls st \<or> lo_pendingMessages st \<noteq> []")
      case True
      then show ?thesis
        using eq es l IH [of env sf st1 st'] stop [of st st1] step [of st st1 st'] by (cases b) auto
    next
      case False
      then show ?thesis
        using eq es p IH [of env sf _ st'] follow [of st fu r st'] finish [of st r] by (cases "fu = []") auto
    qed
  qed
  with assms(1) show ?thesis by simp
qed

context end_observer
begin

lemma seen_execute_batch:
  "seen (snd (execute_batch env m st)) = seen st @ ends (map MToolResult (fst (execute_batch env m st)))"
  by (simp add: execute_batch_def split_beta Let_def seen_batch seen_truncated result_obs_ends)

fun turn_obs :: "turn \<Rightarrow> 'a list" where
  "turn_obs (injected, m, results) = ends (turn_messages (injected, m, results)) @ obs (TurnEnd (MAssistant m) results)"

lemma loop_turn_trace:
  assumes "loop_turn env sf st = (stop, st')"
  obtains t where "turn_ok env t" and "lo_newMessages st' = lo_newMessages st @ turn_messages t"
    and "\<not> lo_firstTurn st'"
    and "seen st' = seen st @ (if lo_firstTurn st then [] else obs TurnStart) @ turn_obs t
       @ (if stop then obs (AgentEnd (lo_newMessages st')) else [])"
    and "snd (snd t) \<noteq> [] \<or> stop \<or> \<not> failed (fst (snd t))"
proof -
  let ?st0 = "inject_pending env (begin_turn env st)"
  let ?m = "fst (stream_turn env sf ?st0)" and ?st1 = "snd (stream_turn env sf ?st0)"
  let ?inj = "lo_pendingMessages (begin_turn env st)"
  have st0: "lo_newMessages ?st0 = lo_newMessages st @ ?inj" "\<not> lo_firstTurn ?st0"
    "seen ?st0 = seen st @ (if lo_firstTurn st then [] else obs TurnStart) @ ends ?inj"
    using inject_pending_eq [of env "begin_turn env st"] seen_begin [of env st] by simp_all
  have st1: "lo_newMessages ?st1 = lo_newMessages st @ ?inj @ [MAssistant ?m]" "\<not> lo_firstTurn ?st1"
    "seen ?st1 = seen st @ (if lo_firstTurn st then [] else obs TurnStart) @ ends (?inj @ [MAssistant ?m])"
    using st0 by (simp_all add: stream_turn_def split_beta Let_def seen_stream)
  let ?b = "if failed ?m then ([], ?st1) else execute_batch env ?m ?st1"
  have b: "lo_newMessages (snd ?b) = lo_newMessages st @ turn_messages (?inj, ?m, fst ?b)"
    "\<not> lo_firstTurn (snd ?b)"
    "seen (snd ?b) = seen st @ (if lo_firstTurn st then [] else obs TurnStart) @ ends (turn_messages (?inj, ?m, fst ?b))"
    using st1 by (auto simp: execute_batch_keeps seen_execute_batch)
  have ok: "turn_ok env (?inj, ?m, fst ?b)"
    using execute_batch_answers [of env ?m ?st1] by simp
  show thesis
  proof (rule that [OF ok])
    show "lo_newMessages st' = lo_newMessages st @ turn_messages (?inj, ?m, fst ?b)" "\<not> lo_firstTurn st'"
      "seen st' = seen st @ (if lo_firstTurn st then [] else obs TurnStart) @ turn_obs (?inj, ?m, fst ?b)
         @ (if stop then obs (AgentEnd (lo_newMessages st')) else [])"
      "snd (snd (?inj, ?m, fst ?b)) \<noteq> [] \<or> stop \<or> \<not> failed (fst (snd (?inj, ?m, fst ?b)))"
      using assms b
      by (auto simp: loop_turn_def split_beta Let_def failed_def loop_emit_def split: if_splits option.splits)
  qed
qed

fun trace_obs :: "bool \<Rightarrow> turn list \<Rightarrow> 'a list" where
  "trace_obs first [] = []"
| "trace_obs first (t # ts) = (if first then [] else obs TurnStart) @ turn_obs t @ trace_obs False ts"

definition traced :: "'w LoopEnv \<Rightarrow> 'w LoopState \<Rightarrow> 'w LoopState \<Rightarrow> bool" where
  "traced env st st' \<longleftrightarrow> (\<exists>turns. list_all (turn_ok env) turns \<and>
     lo_newMessages st' = lo_newMessages st @ concat (map turn_messages turns) \<and>
     (lo_hasMoreToolCalls st \<or> lo_pendingMessages st \<noteq> [] \<longrightarrow> turns \<noteq> []) \<and>
     seen st' = seen st @ trace_obs (lo_firstTurn st) turns @ obs (AgentEnd (lo_newMessages st')))"

lemma traced_stop:
  assumes "loop_turn env sf st = (True, st')"
  shows "traced env st st'"
proof -
  obtain t where t: "turn_ok env t" "lo_newMessages st' = lo_newMessages st @ turn_messages t"
    "seen st' = seen st @ (if lo_firstTurn st then [] else obs TurnStart) @ turn_obs t
       @ (if True then obs (AgentEnd (lo_newMessages st')) else [])"
    using loop_turn_trace [OF assms] by metis
  then show ?thesis unfolding traced_def by (intro exI [of _ "[t]"]) simp
qed

lemma traced_step:
  assumes "loop_turn env sf st = (False, st1)" and "traced env st1 st'"
  shows "traced env st st'"
proof -
  obtain t where t: "turn_ok env t" "lo_newMessages st1 = lo_newMessages st @ turn_messages t" "\<not> lo_firstTurn st1"
    "seen st1 = seen st @ (if lo_firstTurn st then [] else obs TurnStart) @ turn_obs t
       @ (if False then obs (AgentEnd (lo_newMessages st1)) else [])"
    using loop_turn_trace [OF assms(1)] by metis
  obtain turns where "list_all (turn_ok env) turns"
    "lo_newMessages st' = lo_newMessages st1 @ concat (map turn_messages turns)"
    "seen st' = seen st1 @ trace_obs (lo_firstTurn st1) turns @ obs (AgentEnd (lo_newMessages st'))"
    using assms(2) unfolding traced_def by blast
  with t show ?thesis unfolding traced_def by (intro exI [of _ "t # turns"]) simp
qed

lemma run_turns_traced: "run_turns env sf st = Some st' \<Longrightarrow> traced env st st'"
proof (induction rule: run_turns_induct)
  case (follow st fu r st')
  have "observed obs r = seen st"
    using follow by (auto simp: poll_def dest: call_on_observed split: option.splits)
  with follow show ?case by (auto simp: traced_def)
next
  case (finish st r)
  have "observed obs r = seen st"
    using finish by (auto simp: poll_def dest: call_on_observed split: option.splits)
  with finish show ?case
    unfolding traced_def by (intro exI [of _ "[]"]) (simp add: loop_emit_def)
qed (auto intro: traced_stop traced_step)

end

text \<open>The events that delimit runs, turns and messages.\<close>

fun milestone :: "AgentEvent \<Rightarrow> AgentEvent list" where
  "milestone AgentStart = [AgentStart]"
| "milestone (AgentEnd ms) = [AgentEnd ms]"
| "milestone TurnStart = [TurnStart]"
| "milestone (TurnEnd m rs) = [TurnEnd m rs]"
| "milestone (MessageEnd m) = [MessageEnd m]"
| "milestone _ = []"

interpretation milestones: end_observer milestone
  by unfold_locales simp_all

fun turn_trace :: "turn \<Rightarrow> AgentEvent list" where
  "turn_trace (injected, m, results) =
     map MessageEnd (turn_messages (injected, m, results)) @ [TurnEnd (MAssistant m) results]"

lemma milestones_turn: "milestones.turn_obs t = turn_trace t"
  by (cases t rule: turn_trace.cases) (simp add: milestones.ends_def concat_map_singleton comp_def)

lemma milestones_trace:
  "[TurnStart] @ milestones.trace_obs True (t # ts) = concat (map (\<lambda>t. TurnStart # turn_trace t) (t # ts))"
proof -
  have "milestones.trace_obs False ts = concat (map (\<lambda>t. TurnStart # turn_trace t) ts)" for ts
    by (induction ts) (simp_all add: milestones_turn)
  then show ?thesis by (simp add: milestones_turn)
qed

lemma runLoop_trace:
  assumes "runLoop env sf config ctx new r = Some st"
  obtains inj m rs ts where "list_all (turn_ok env) ((inj, m, rs) # ts)"
    and "lo_newMessages st = new @ concat (map turn_messages ((inj, m, rs) # ts))"
    and "observed milestone (lo_run st) = observed milestone r @ turn_trace (inj, m, rs) @
      concat (map (\<lambda>t. TurnStart # turn_trace t) ts) @ [AgentEnd (lo_newMessages st)]"
proof -
  obtain turns where t: "list_all (turn_ok env) turns" "lo_newMessages st = new @ concat (map turn_messages turns)"
    "turns \<noteq> []" "observed milestone (lo_run st) = observed milestone r @ milestones.trace_obs True turns @ [AgentEnd (lo_newMessages st)]"
    using milestones.run_turns_traced [OF assms [unfolded runLoop_def]]
    by (auto simp: milestones.traced_def poll_steering_def poll_def split_beta split: option.splits)
  obtain inj m rs ts where ts: "turns = (inj, m, rs) # ts"
    using t(3) by (metis list.exhaust prod_cases3)
  show thesis
    using that [of inj m rs ts] t milestones_trace [of "(inj, m, rs)" ts] by (simp add: ts)
qed

text \<open>
  C21. A run that returns emits a start, then its turns, then one end that carries exactly the messages the
  run returns. Each turn is delimited by its start and its end and completes, in order, its injected messages (the
  prompts first), one assistant message and its tool results; a failed response has no results, and
  otherwise the results answer the tool calls of the response one by one in order, all of them unless the run is
  aborted. The messages of the run are those its turns complete.
\<close>

theorem run_trace:
  assumes "runAgentLoop env streamFn prompts ctx config r = Some st"
  shows "\<exists>inj m rs ts. let turns = (prompts @ inj, m, rs) # ts in
    list_all (turn_ok env) turns \<and> lo_newMessages st = concat (map turn_messages turns) \<and>
    observed milestone (lo_run st) = observed milestone r @ [AgentStart] @
      concat (map (\<lambda>t. TurnStart # turn_trace t) turns) @ [AgentEnd (lo_newMessages st)]"
proof -
  have p: "concat (map milestone (concat (map announce prompts))) = map MessageEnd prompts"
    by (induction prompts) (simp_all add: announce_def)
  obtain inj m rs ts where t: "list_all (turn_ok env) ((inj, m, rs) # ts)"
    "lo_newMessages st = prompts @ concat (map turn_messages ((inj, m, rs) # ts))"
    "observed milestone (lo_run st) =
       observed milestone (emits env ([AgentStart, TurnStart] @ concat (map announce prompts)) r) @
       turn_trace (inj, m, rs) @ concat (map (\<lambda>t. TurnStart # turn_trace t) ts) @ [AgentEnd (lo_newMessages st)]"
    using assms unfolding runAgentLoop_def by (rule runLoop_trace)
  show ?thesis
    unfolding Let_def by (rule exI [of _ inj], rule exI [of _ m], rule exI [of _ rs], rule exI [of _ ts])
      (use t in \<open>simp add: p\<close>)
qed

section \<open>A scripted agent\<close>

text \<open>
  The surroundings count the responses: the first calls the tool, the second stops. The tool reports progress, is
  suspended once, and returns.
\<close>

definition sc_usage :: Usage where
  "sc_usage = \<lparr>us_input = 1, us_output = 1, us_cacheRead = 0, us_cacheWrite = 0, us_cacheWrite1h = None,
     us_reasoning = None, us_totalTokens = 2, us_cost = \<lparr>uc_input = NInt 0, uc_output = NInt 0, uc_cacheRead = NInt 0,
     uc_cacheWrite = NInt 0, uc_total = NInt 0\<rparr>\<rparr>"

definition sc_call :: ToolCall where
  "sc_call = \<lparr>call_id = [1], call_name = [2], call_arguments = JNull, call_thoughtSignature = None, call_namespace = None\<rparr>"

definition sc_message :: "assistant_block list \<Rightarrow> StopReason \<Rightarrow> AssistantMessage" where
  "sc_message content reason = \<lparr>am_content = content, am_api = [], am_provider = [], am_model = [],
     am_responseModel = None, am_responseId = None, am_diagnostics = None, am_usage = sc_usage,
     am_stopReason = reason, am_deferred = None, am_errorMessage = None, am_rawStopReason = None,
     am_endTurn = None, am_timestamp = 2\<rparr>"

definition sc_result :: AgentToolResult where
  "sc_result = \<lparr>ar_content = Some [], ar_details = None, ar_usage = None, ar_addedToolNames = None, ar_terminate = None\<rparr>"

definition sc_tool :: "nat AgentTool" where
  "sc_tool = \<lparr>at_name = [2], at_description = [], at_parameters = JNull, at_label = [], at_prepareArguments = None,
     at_execute = (\<lambda>i a. Reports sc_result (Suspended (\<lambda>w. w) (\<lambda>w. Returned sc_result))), at_executionMode = None\<rparr>"

definition sc_env :: "nat LoopEnv" where
  "sc_env = \<lparr>le_sink = (\<lambda>e w. w), le_aborted = (\<lambda>w. False), le_now = (\<lambda>w. 3),
     le_validateToolArguments = (\<lambda>t c. Inr (call_arguments c)), le_schedule = (\<lambda>w. [0, 0])\<rparr>"

definition sc_stream :: "nat StreamFn" where
  "sc_stream model c options w =
     (\<lparr>rs_events = Awaits (\<lambda>w. w) (\<lambda>w. Ended),
       rs_result = (\<lambda>w. (if w = 0 then sc_message [AToolCall sc_call] SToolUse else sc_message [] SStop, w + 1))\<rparr>, w)"

definition sc_config :: "nat AgentLoopConfig" where
  "sc_config = \<lparr>ac_model = \<lparr>mo_id = [], mo_api = [], mo_provider = [], mo_reasoning = False, mo_contextWindow = 1000,
       mo_maxTokens = 100, mo_other = JNull\<rparr>, ac_apiKey = None, ac_reasoning = None,
     ac_convertToLlm = (\<lambda>ms w. (List.map_filter (\<lambda>m. case m of MUser u \<Rightarrow> Some (LUser u) | _ \<Rightarrow> None) ms, w)),
     ac_transformContext = None, ac_getApiKey = None, ac_shouldStopAfterTurn = None, ac_prepareNextTurn = None,
     ac_getSteeringMessages = None, ac_getFollowUpMessages = None, ac_toolExecution = None,
     ac_beforeToolCall = None, ac_afterToolCall = None\<rparr>"

definition sc_context :: "nat AgentContext" where
  "sc_context = \<lparr>cx_systemPrompt = [], cx_messages = [], cx_tools = Some [sc_tool]\<rparr>"

definition sc_prompt :: AgentMessage where
  "sc_prompt = MUser \<lparr>um_content = CString [], um_timestamp = 0\<rparr>"

definition sc_run :: "nat Run" where
  "sc_run = \<lparr>ru_world = 0, ru_events = []\<rparr>"

lemmas loop_defs = loop_turn_def begin_turn_def prepare_turn_def poll_steering_def poll_def loop_emit_def
  inject_pending_def inject_message_def stream_turn_def execute_batch_def streamAssistantResponse_def
  finish_response_def executeToolCalls_def executeToolCallsParallel_def prepareToolCall_def before_hook_def
  find_tool_def prepareToolCallArguments_def emit_tool_start_def aborted_def advance_def running_def start_execution_def
  emit_tool_update_def finalizeExecutedToolCall_def settle_def emitToolExecutionEnd_def createToolResultMessage_def
  emitToolResultMessage_def shouldTerminateToolBatch_def append_message_def set_last_message_def emit_def emits_def call_on_def
  announce_def

lemmas sc_defs = sc_message_def sc_call_def sc_result_def sc_tool_def sc_env_def sc_stream_def
  sc_config_def sc_context_def sc_run_def tool_calls_def map_filter_simps

lemma sc_returns:
  "\<exists>st. runAgentLoop sc_env sc_stream [sc_prompt] sc_context sc_config sc_run = Some st \<and> ru_world (lo_run st) = 2
     \<and> map tr_toolCallId (List.map_filter (\<lambda>m. case m of MToolResult t \<Rightarrow> Some t | _ \<Rightarrow> None) (lo_newMessages st)) = [[1]]"
  unfolding runAgentLoop_def runLoop_def
  apply (subst run_turns.simps, simp add: loop_defs sc_defs Let_def)
  apply (subst run_turns.simps, simp add: loop_defs sc_defs Let_def)
  apply (subst run_turns.simps, simp add: loop_defs Let_def sc_prompt_def map_filter_simps)
  done

theorem run_trace_witness:
  "\<exists>st. runAgentLoop sc_env sc_stream [sc_prompt] sc_context sc_config sc_run = Some st \<and>
     (\<exists>inj m rs ts. lo_newMessages st = concat (map turn_messages (([sc_prompt] @ inj, m, rs) # ts)) \<and>
        list_all (turn_ok sc_env) (([sc_prompt] @ inj, m, rs) # ts))"
proof -
  obtain st where st: "runAgentLoop sc_env sc_stream [sc_prompt] sc_context sc_config sc_run = Some st"
    using sc_returns by blast
  from run_trace [OF st] st show ?thesis unfolding Let_def by blast
qed

section \<open>Starts and ends of tool executions\<close>

fun starts_of :: "AgentEvent \<Rightarrow> ustring list" where
  "starts_of (ToolExecutionStart i _ _) = [i]"
| "starts_of _ = []"

fun ends_of :: "AgentEvent \<Rightarrow> ustring list" where
  "ends_of (ToolExecutionEnd i _ _ _) = [i]"
| "ends_of _ = []"

interpretation starts: observer starts_of
  by unfold_locales simp_all

interpretation ends: observer ends_of
  by unfold_locales simp_all

lemma start_end_events [simp]:
  "starts_of (tool_start_event c) = [call_id c]" "starts_of (tool_end_event f) = []"
  "ends_of (tool_start_event c) = []" "ends_of (tool_end_event f) = [call_id (fi_toolCall f)]"
  by (simp_all add: tool_start_event_def tool_end_event_def)

text \<open>The end that an entry still has to announce.\<close>

definition owed :: "'w task \<Rightarrow> ustring multiset" where
  "owed t = (case t of Settled _ \<Rightarrow> {#} | _ \<Rightarrow> {#call_id (task_call t)#})"

abbreviation starts_in :: "'w Run \<Rightarrow> ustring multiset" where
  "starts_in r \<equiv> mset (observed starts_of r)"

abbreviation ends_in :: "'w Run \<Rightarrow> ustring multiset" where
  "ends_in r \<equiv> mset (observed ends_of r)"

abbreviation ids_of :: "ToolCall list \<Rightarrow> ustring multiset" where
  "ids_of cs \<equiv> mset (map call_id cs)"

lemma owed_advance:
  "owed (fst (advance env config ctx am t r)) = (case t of Finalized f \<Rightarrow> {#} | Settled f \<Rightarrow> {#} | _ \<Rightarrow> {#call_id (task_call t)#})"
proof (cases t)
  case (Running p e)
  then show ?thesis by (cases e) (simp_all add: advance_def running_def owed_def task_call_def split_beta)
qed (simp_all add: advance_def running_def owed_def task_call_def split_beta Let_def finalize_call)

lemma advance_owed:
  "ends_in (snd (advance env config ctx am t r)) + owed (fst (advance env config ctx am t r)) = ends_in r + owed t"
  unfolding owed_advance ends.seen_advance by (cases t) (simp_all add: owed_def task_call_def)

lemma advance_starts: "starts_in (snd (advance env config ctx am t r)) = starts_in r"
  by (simp add: starts.seen_advance split: task.splits)

lemma sum_list_update:
  "i < length xs \<Longrightarrow> sum_list (map f (xs[i := x])) + f (xs ! i) = sum_list (map f xs) + (f x :: 'a multiset)"
  by (induction xs arbitrary: i) (auto simp: nth_Cons ac_simps split: nat.split)

lemma exchange:
  assumes "B + C = S + D" and "A + D = E + C"
  shows "A + B = E + (S :: 'a multiset)"
proof -
  have "(A + B) + (C + D) = (A + D) + (B + C)" by (simp add: ac_simps)
  also have "\<dots> = (E + S) + (C + D)" unfolding assms by (simp add: ac_simps)
  finally show ?thesis by simp
qed

lemma carry:
  assumes "A + S = B + I" and "B + P = E + C"
  shows "A + (P + S) = E + (C + (I :: 'a multiset))"
proof -
  have "A + (P + S) = (A + S) + P" by (simp add: ac_simps)
  also have "\<dots> = (B + P) + I" unfolding assms(1) by (simp add: ac_simps)
  finally show ?thesis unfolding assms(2) by (simp add: ac_simps)
qed

lemma interleave_owed:
  "ends_in (snd (interleave env config ctx am is ts r)) + sum_list (map owed (fst (interleave env config ctx am is ts r)))
     = ends_in r + sum_list (map owed ts)"
proof (induction "is" arbitrary: ts r)
  case (Cons i "is")
  show ?case
  proof (cases "i < length ts")
    case True
    let ?a = "advance env config ctx am (ts ! i) r"
    have "ends_in (snd ?a) + sum_list (map owed (ts[i := fst ?a])) = ends_in r + sum_list (map owed ts)"
      by (rule exchange [OF sum_list_update [OF True, of owed "fst ?a"] advance_owed [of env config ctx am "ts ! i" r]])
    with True Cons [of "ts[i := fst ?a]" "snd ?a"] show ?thesis by (simp add: split_beta)
  qed (simp add: Cons)
qed simp

lemma interleave_starts: "starts_in (snd (interleave env config ctx am is ts r)) = starts_in r"
  by (induction "is" arbitrary: ts r) (simp_all add: split_beta advance_starts)

lemma settle_all_ends: "ends_in (snd (settle_all env config ctx am ts r)) = ends_in r + sum_list (map owed ts)"
proof (induction ts arbitrary: r)
  case (Cons t ts)
  have "ends_in (snd (settle env config ctx am t r)) = ends_in r + owed t"
    unfolding ends.seen_settle by (cases t) (simp_all add: settle_call, simp_all add: owed_def task_call_def)
  with Cons [of "snd (settle env config ctx am t r)"] show ?case by (simp add: split_beta Let_def)
qed simp

lemma settle_all_starts: "starts_in (snd (settle_all env config ctx am ts r)) = starts_in r"
proof (induction ts arbitrary: r)
  case (Cons t ts)
  have "starts_in (snd (settle env config ctx am t r)) = starts_in r"
    by (simp add: starts.seen_settle split: task.splits)
  with Cons show ?case by (simp add: split_beta Let_def)
qed simp

lemma prepare_calls_cons:
  assumes "prepareToolCall env config ctx am c (emit_tool_start env c r) = (prep, r1)"
  obtains t r2 where "task_call t = c" and "ends_in r2 + owed t = ends_in r + {#call_id c#}"
    and "starts_in r2 = starts_in r + {#call_id c#}"
    and "prepare_calls env config ctx am (c # cs) r = (if aborted env r2 then ([t], r2)
      else (t # fst (prepare_calls env config ctx am cs r2), snd (prepare_calls env config ctx am cs r2)))"
proof -
  have r1: "observed ends_of r1 = observed ends_of r" "observed starts_of r1 = observed starts_of r @ [call_id c]"
    using ends.seen_prepare [of env config ctx am c "emit_tool_start env c r"]
      starts.seen_prepare [of env config ctx am c "emit_tool_start env c r"] assms by simp_all
  show thesis
  proof (cases prep)
    case (Prepared p)
    then show thesis
      using assms prepare_call [of env config ctx am c "emit_tool_start env c r" p r1] r1
      by (intro that [of "Waiting p" r1]) (simp_all add: task_call_def owed_def split_beta Let_def)
  next
    case (Immediate x e)
    let ?f = "\<lparr>fi_toolCall = c, fi_result = x, fi_isError = e\<rparr>"
    from Immediate show thesis
      using assms r1 by (intro that [of "Settled ?f" "emitToolExecutionEnd env ?f r1"])
        (simp_all add: task_call_def owed_def split_beta Let_def)
  qed
qed

lemma prepare_calls_owed:
  "ends_in (snd (prepare_calls env config ctx am cs r)) + sum_list (map owed (fst (prepare_calls env config ctx am cs r)))
     = ends_in r + ids_of (map task_call (fst (prepare_calls env config ctx am cs r))) \<and>
   starts_in (snd (prepare_calls env config ctx am cs r))
     = starts_in r + ids_of (map task_call (fst (prepare_calls env config ctx am cs r)))"
proof (induction cs arbitrary: r)
  case (Cons c cs)
  obtain prep r1 where p: "prepareToolCall env config ctx am c (emit_tool_start env c r) = (prep, r1)" by fastforce
  obtain t r2 where t: "task_call t = c" "ends_in r2 + owed t = ends_in r + {#call_id c#}"
    "starts_in r2 = starts_in r + {#call_id c#}"
    "prepare_calls env config ctx am (c # cs) r = (if aborted env r2 then ([t], r2)
      else (t # fst (prepare_calls env config ctx am cs r2), snd (prepare_calls env config ctx am cs r2)))"
    using prepare_calls_cons [OF p] by blast
  let ?p = "prepare_calls env config ctx am cs r2"
  have "ends_in (snd ?p) + (owed t + sum_list (map owed (fst ?p))) =
      ends_in r + ({#call_id c#} + ids_of (map task_call (fst ?p)))"
    using Cons [of r2] t(2) by (intro carry [where B = "ends_in r2"]) simp_all
  moreover have "starts_in (snd ?p) = starts_in r + ({#call_id c#} + ids_of (map task_call (fst ?p)))"
    using Cons [of r2] t(3) by simp
  ultimately show ?case using t by (cases "aborted env r2") simp_all
qed simp

lemma parallel_balanced:
  assumes "executeToolCallsParallel env config ctx am cs r = (b, r')"
  shows "\<exists>k. ends_in r' = ends_in r + ids_of (take k cs) \<and> starts_in r' = starts_in r + ids_of (take k cs)
    \<and> length (eb_messages b) = length (take k cs)"
proof -
  obtain ts r1 ts' r2 fs r3 ms r4 where b: "prepare_calls env config ctx am cs r = (ts, r1)"
    "interleave env config ctx am ([0..<length ts] @ le_schedule env (ru_world r1)) ts r1 = (ts', r2)"
    "settle_all env config ctx am ts' r2 = (fs, r3)" "tool_result_messages env fs r3 = (ms, r4)"
    "executeToolCallsParallel env config ctx am cs r = (\<lparr>eb_messages = ms, eb_terminate = shouldTerminateToolBatch fs\<rparr>, r4)"
    by (rule parallel_batch)
  obtain k where k: "map task_call ts = take k cs"
    using prepare_calls_prefix [of env config ctx am cs r] b(1) by auto
  have e: "ends_in r3 = ends_in r + ids_of (map task_call ts)" "starts_in r3 = starts_in r + ids_of (map task_call ts)"
    using prepare_calls_owed [of env config ctx am cs r] interleave_owed [of env config ctx am _ ts r1]
      interleave_starts [of env config ctx am _ ts r1] settle_all_ends [of env config ctx am ts' r2]
      settle_all_starts [of env config ctx am ts' r2] b(1-3) by (metis fst_conv snd_conv)+
  have "observed ends_of r4 = observed ends_of r3" "observed starts_of r4 = observed starts_of r3"
    using ends.seen_result_messages [of env fs r3] starts.seen_result_messages [of env fs r3] b(4) by simp_all
  moreover have "length ms = length ts"
    using list_all2_lengthD [OF result_messages [of env fs r3]] b settle_all_calls [of env config ctx am ts' r2]
      interleave_calls [of env config ctx am _ ts r1] by (metis fst_conv length_map)
  moreover have "length (take k cs) = length ts"
    using k by (metis length_map)
  ultimately show ?thesis
    using assms b(5) e k by (intro exI [of _ k]) auto
qed

lemma sequential_balanced:
  "ends_in (snd (sequential_calls env config ctx am cs r)) =
     ends_in r + ids_of (map fi_toolCall (fst (fst (sequential_calls env config ctx am cs r)))) \<and>
   starts_in (snd (sequential_calls env config ctx am cs r)) =
     starts_in r + ids_of (map fi_toolCall (fst (fst (sequential_calls env config ctx am cs r))))"
proof (induction cs arbitrary: r)
  case (Cons c cs)
  obtain f r1 where f: "execute_one env config ctx am c r = (f, r1)" by fastforce
  have "fi_toolCall f = c" "observed ends_of r1 = observed ends_of r" "observed starts_of r1 = observed starts_of r @ [call_id c]"
    using execute_one_call [of env config ctx am c r] ends.seen_execute_one [of env config ctx am c r]
      starts.seen_execute_one [of env config ctx am c r] f by simp_all
  with Cons f show ?case by (auto simp: split_beta Let_def ac_simps)
qed simp

end
