(* ===== verification/Agent_Loop_Runs.thy ===== *)
theory Agent_Loop_Runs
  imports Agent_Loop_Props
begin

text \<open>
  Further guarantees of the agent loop: balanced tool events, truncated responses, the context a run leaves behind, runs
  that must return, and the irrelevance of concurrency for tools that do not touch their surroundings.
\<close>

section \<open>Batches\<close>

lemma take_by_length: "length (take k xs) = length (take j xs) \<Longrightarrow> take k xs = take j xs"
  by (metis append_eq_conv_conj append_take_drop_id)

text \<open>
  C22. Whatever the tools, the hooks and the interleaving, a batch answers a prefix of the calls of the response, in
  order and one message per call; it is never empty and stops early only when the run is aborted. Every call
  whose execution is announced is also announced as ended, exactly once.
\<close>

theorem tool_batch_balanced:
  assumes "executeToolCalls env config ctx am r = (b, r')"
  shows "\<exists>k. list_all2 answers (eb_messages b) (take k (tool_calls am)) \<and> (tool_calls am \<noteq> [] \<longrightarrow> 0 < k) \<and>
    ((\<forall>w. \<not> le_aborted env w) \<longrightarrow> k = length (tool_calls am)) \<and>
    starts_in r' = starts_in r + ids_of (take k (tool_calls am)) \<and>
    ends_in r' = ends_in r + ids_of (take k (tool_calls am))"
proof -
  obtain k where k: "list_all2 answers (eb_messages b) (take k (tool_calls am))" "tool_calls am \<noteq> [] \<longrightarrow> 0 < k"
    "(\<forall>w. \<not> le_aborted env w) \<longrightarrow> k = length (tool_calls am)"
    using executeToolCalls_answers [of env config ctx am r] assms by auto
  have "\<exists>j. ends_in r' = ends_in r + ids_of (take j (tool_calls am)) \<and> starts_in r' = starts_in r + ids_of (take j (tool_calls am))
      \<and> length (eb_messages b) = length (take j (tool_calls am))"
  proof (cases "executeToolCallsSequential env config ctx am (tool_calls am) r = (b, r')")
    case True
    obtain j where j: "map fi_toolCall (fst (fst (sequential_calls env config ctx am (tool_calls am) r))) = take j (tool_calls am)"
      using sequential_calls_prefix [of env config ctx am "tool_calls am" r] by blast
    have "length (eb_messages b) = length (take j (tool_calls am))"
      using True list_all2_lengthD [OF sequential_messages [of env config ctx am "tool_calls am" r]] j
      by (auto simp: sequential_batch) (metis length_map length_take)
    with True j sequential_balanced [of env config ctx am "tool_calls am" r] show ?thesis
      by (intro exI [of _ j]) (auto simp: sequential_batch)
  next
    case False
    then have "executeToolCallsParallel env config ctx am (tool_calls am) r = (b, r')"
      using assms by (auto simp: executeToolCalls_def Let_def split: if_splits)
    then show ?thesis by (rule parallel_balanced)
  qed
  then obtain j where j: "ends_in r' = ends_in r + ids_of (take j (tool_calls am))"
    "starts_in r' = starts_in r + ids_of (take j (tool_calls am))" "length (eb_messages b) = length (take j (tool_calls am))"
    by blast
  have "take j (tool_calls am) = take k (tool_calls am)"
    using j(3) list_all2_lengthD [OF k(1)] by (intro take_by_length) simp
  with j k show ?thesis by (intro exI [of _ k]) auto
qed

theorem tool_batch_balanced_witness:
  "\<exists>b r'. executeToolCalls sc_env sc_config sc_context (sc_message [AToolCall sc_call, AToolCall sc_call] SToolUse) sc_run = (b, r')
     \<and> starts_in r' = {#[1], [1]#} \<and> ends_in r' = {#[1], [1]#}"
proof -
  let ?m = "sc_message [AToolCall sc_call, AToolCall sc_call] SToolUse"
  obtain b r' where e: "executeToolCalls sc_env sc_config sc_context ?m sc_run = (b, r')" by fastforce
  obtain k where k: "(\<forall>w. \<not> le_aborted sc_env w) \<longrightarrow> k = length (tool_calls ?m)"
    "starts_in r' = starts_in sc_run + ids_of (take k (tool_calls ?m))" "ends_in r' = ends_in sc_run + ids_of (take k (tool_calls ?m))"
    using tool_batch_balanced [OF e] by blast
  have "k = 2" "tool_calls ?m = [sc_call, sc_call]" "starts_in sc_run = {#}" "ends_in sc_run = {#}"
    using k(1) by (simp_all add: sc_env_def sc_message_def tool_calls_def map_filter_simps observed_def sc_run_def)
  with e k(2,3) show ?thesis by (simp add: sc_call_def)
qed

section \<open>Truncated responses\<close>

text \<open>Only the sink of the events has acted on the surroundings.\<close>

definition sink_only :: "'w LoopEnv \<Rightarrow> 'w Run \<Rightarrow> 'w Run \<Rightarrow> bool" where
  "sink_only env r r' \<longleftrightarrow>
     (\<exists>new. ru_events r' = ru_events r @ new \<and> ru_world r' = fold (le_sink env) new (ru_world r))"

lemma sink_only_refl: "sink_only env r r"
  by (auto simp: sink_only_def intro: exI [of _ "[]"])

lemma sink_only_emit: "sink_only env r r' \<Longrightarrow> sink_only env r (emit env e r')"
  by (auto simp: sink_only_def emit_def)

lemma sink_only_trans: "sink_only env r r1 \<Longrightarrow> sink_only env r1 r2 \<Longrightarrow> sink_only env r r2"
  by (auto simp: sink_only_def)

lemma truncated_sink_only: "sink_only env r (snd (failToolCallsFromTruncatedMessage env cs r))"
proof (induction cs arbitrary: r)
  case (Cons c cs)
  show ?case
    by (simp add: split_beta Let_def, rule sink_only_trans [OF _ Cons])
      (simp add: emitToolResultMessage_def emitToolExecutionEnd_def emit_tool_start_def sink_only_emit sink_only_refl)
qed (simp add: sink_only_refl)

lemma truncated_errors: "list_all tr_isError (fst (failToolCallsFromTruncatedMessage env cs r))"
  by (induction cs arbitrary: r) (simp_all add: split_beta Let_def createToolResultMessage_def)

text \<open>
  C23. The tool calls of a response cut off by the output limit are never executed: each gets an error result,
  the loop goes on, and nothing but the consumer of the events acts on the surroundings.
\<close>

theorem truncated_calls_not_executed:
  assumes "am_stopReason m = SLength" and "tool_calls m \<noteq> []" and "execute_batch env m st = (results, st')"
  shows "list_all2 answers results (tool_calls m) \<and> list_all tr_isError results \<and> lo_hasMoreToolCalls st' \<and>
    sink_only env (lo_run st) (lo_run st')"
  using assms truncated_answers [of env "tool_calls m" "lo_run st"] truncated_errors [of env "tool_calls m" "lo_run st"]
    truncated_sink_only [of env "lo_run st" "tool_calls m"]
  by (auto simp: execute_batch_def split_beta Let_def)

theorem truncated_calls_not_executed_witness:
  "\<exists>results st'. execute_batch sc_env (sc_message [AToolCall sc_call] SLength)
       \<lparr>lo_context = sc_context, lo_config = sc_config, lo_newMessages = [], lo_firstTurn = False,
        lo_lastCompletedTurn = None, lo_pendingMessages = [], lo_hasMoreToolCalls = True, lo_run = sc_run\<rparr> = (results, st')
     \<and> list_all2 answers results [sc_call] \<and> list_all tr_isError results"
proof -
  let ?m = "sc_message [AToolCall sc_call] SLength"
  let ?st = "\<lparr>lo_context = sc_context, lo_config = sc_config, lo_newMessages = [], lo_firstTurn = False,
        lo_lastCompletedTurn = None, lo_pendingMessages = [], lo_hasMoreToolCalls = True, lo_run = sc_run\<rparr>"
  obtain results st' where e: "execute_batch sc_env ?m ?st = (results, st')" by fastforce
  have m: "am_stopReason ?m = SLength" "tool_calls ?m = [sc_call]"
    by (simp_all add: sc_message_def tool_calls_def map_filter_simps)
  show ?thesis
    using truncated_calls_not_executed [OF m(1) _ e] e m(2) by auto
qed

section \<open>The context after a run\<close>

text \<open>A source that announces at most one partial message.\<close>

primrec single_start :: "bool \<Rightarrow> 'w event_source \<Rightarrow> bool" where
  "single_start fresh Ended = True"
| "single_start fresh (Awaits f k) = (\<forall>w. single_start fresh (k w))"
| "single_start fresh (Arrives e rest) =
     (case e of EvStart _ \<Rightarrow> fresh \<and> single_start False rest | EvDone _ _ \<Rightarrow> True | EvError _ _ \<Rightarrow> True
      | _ \<Rightarrow> single_start fresh rest)"

lemma set_last_messages:
  "cx_messages c \<noteq> [] \<Longrightarrow> cx_messages (set_last_message m c) = butlast (cx_messages c) @ [m]"
  by (cases "cx_messages c" rule: rev_cases) (simp_all add: set_last_message_def)

lemma append_messages [simp]: "cx_messages (append_message m c) = cx_messages c @ [m]"
  by (simp add: append_message_def)

lemma consume_context:
  "single_start (\<not> added) e \<Longrightarrow> (added \<Longrightarrow> cx_messages c \<noteq> []) \<Longrightarrow>
     cx_messages (fst (snd (consume_response env response e added c r))) =
       (if added then butlast (cx_messages c) else cx_messages c) @ [MAssistant (fst (consume_response env response e added c r))]"
proof (induction e arbitrary: added c r)
  case Ended
  then show ?case by (auto simp: finish_response_def Let_def split_beta set_last_messages)
next
  case (Arrives ev e)
  then show ?case
    by (cases ev) (auto simp: finish_response_def Let_def split_beta set_last_messages)
qed auto

definition well_behaved :: "'w StreamFn \<Rightarrow> bool" where
  "well_behaved sf \<longleftrightarrow> (\<forall>model c config w. single_start True (rs_events (fst (sf model c config w))))"

lemma stream_context:
  assumes "well_behaved sf"
  shows "cx_messages (fst (snd (streamAssistantResponse env sf config c r))) =
    cx_messages c @ [MAssistant (fst (streamAssistantResponse env sf config c r))]"
proof -
  have "single_start True (rs_events (fst (call_on (sf model lc cfg) r1)))" for model lc cfg r1
    using assms by (simp add: well_behaved_def call_on_def split_beta)
  then show ?thesis
    by (simp add: streamAssistantResponse_def Let_def split_beta consume_context)
qed

definition in_step :: "'w LoopState \<Rightarrow> 'w LoopState \<Rightarrow> bool" where
  "in_step st st' \<longleftrightarrow> (\<exists>new. lo_newMessages st' = lo_newMessages st @ new \<and>
     cx_messages (lo_context st') = cx_messages (lo_context st) @ new) \<and>
     ac_prepareNextTurn (lo_config st') = ac_prepareNextTurn (lo_config st)"

lemma in_step_refl: "in_step st st"
  by (simp add: in_step_def)

lemma in_step_trans: "in_step st st1 \<Longrightarrow> in_step st1 st2 \<Longrightarrow> in_step st st2"
  by (auto simp: in_step_def)

lemma begin_turn_in_step:
  "ac_prepareNextTurn (lo_config st) = None \<Longrightarrow> in_step st (begin_turn env st)"
  by (simp add: in_step_def begin_turn_def prepare_turn_def loop_emit_def poll_steering_def split_beta Let_def split: option.split)

lemma inject_in_step: "in_step st (inject_pending env st)"
proof -
  have "in_step st (fold (inject_message env) ms st)" for ms
  proof (induction ms arbitrary: st)
    case (Cons m ms)
    have "in_step st (inject_message env m st)"
      by (simp add: in_step_def inject_message_def loop_emit_def Let_def)
    with Cons show ?case using in_step_trans by fastforce
  qed (simp add: in_step_refl)
  then show ?thesis by (simp add: in_step_def inject_pending_def)
qed

lemma stream_in_step: "well_behaved sf \<Longrightarrow> in_step st (snd (stream_turn env sf st))"
  by (simp add: in_step_def stream_turn_def split_beta Let_def stream_context)

lemma batch_in_step: "in_step st (snd (execute_batch env m st))"
proof -
  have "cx_messages (fold append_message ms c) = cx_messages c @ ms" for ms and c :: "'a AgentContext"
    by (induction ms arbitrary: c) simp_all
  then show ?thesis by (simp add: in_step_def execute_batch_def split_beta Let_def)
qed

lemma loop_turn_in_step:
  assumes "well_behaved sf" and "ac_prepareNextTurn (lo_config st) = None" and "loop_turn env sf st = (stop, st')"
  shows "in_step st st'"
proof -
  let ?s = "stream_turn env sf (inject_pending env (begin_turn env st))"
  have s: "in_step st (snd ?s)"
    using begin_turn_in_step [OF assms(2)] inject_in_step stream_in_step [OF assms(1)] in_step_trans by metis
  then have b: "in_step st (snd (execute_batch env (fst ?s) (snd ?s)))"
    using batch_in_step in_step_trans by metis
  show ?thesis
    using assms(3) s b by (auto simp: loop_turn_def in_step_def loop_emit_def split_beta Let_def split: if_splits option.splits)
qed

lemma run_turns_in_step:
  assumes "run_turns env sf st = Some st'" and "well_behaved sf" and "ac_prepareNextTurn (lo_config st) = None"
  shows "in_step st st'"
  using assms(1,3)
proof (induction rule: run_turns_induct)
  case (stop st st')
  then show ?case using loop_turn_in_step [OF assms(2)] by blast
next
  case (step st st1 st')
  then have "in_step st st1" using loop_turn_in_step [OF assms(2)] by blast
  then show ?case using step in_step_trans by (metis in_step_def)
next
  case (follow st fu r st')
  then show ?case by (simp add: in_step_def)
next
  case (finish st r)
  then show ?case by (simp add: in_step_def loop_emit_def)
qed



section \<open>Runs that must return\<close>

text \<open>A hook that asks to stop once a run has collected \<open>n\<close> messages.\<close>

definition message_budget :: "nat \<Rightarrow> 'w AgentLoopConfig \<Rightarrow> bool" where
  "message_budget n config \<longleftrightarrow> (\<exists>f. ac_shouldStopAfterTurn config = Some f \<and>
     (\<forall>t w. n \<le> length (tn_newMessages t) \<longrightarrow> fst (f t w)))"

lemma begin_turn_stop: "ac_shouldStopAfterTurn (lo_config (begin_turn env st)) = ac_shouldStopAfterTurn (lo_config st)"
  by (simp add: begin_turn_def prepare_turn_def apply_update_def loop_emit_def poll_steering_def split_beta Let_def
      split: option.split)

lemma inject_config: "lo_config (inject_pending env st) = lo_config st"
proof -
  have "lo_config (fold (inject_message env) ms st) = lo_config st" for ms
    by (induction ms arbitrary: st) (simp_all add: inject_message_def loop_emit_def Let_def)
  then show ?thesis by (simp add: inject_pending_def)
qed

lemma loop_turn_stop_hook:
  "loop_turn env sf st = (b, st') \<Longrightarrow> ac_shouldStopAfterTurn (lo_config st') = ac_shouldStopAfterTurn (lo_config st)"
  using begin_turn_stop [of env st]
  by (auto simp: loop_turn_def loop_emit_def stream_turn_def execute_batch_def inject_config split_beta Let_def
      split: if_splits option.splits)

lemma loop_turn_grows:
  assumes "loop_turn env sf st = (b, st')"
  shows "length (lo_newMessages st) < length (lo_newMessages st')"
proof -
  obtain t where "lo_newMessages st' = lo_newMessages st @ turn_messages t"
    using milestones.loop_turn_trace [OF assms] by metis
  then show ?thesis by (cases t rule: turn_messages.cases) simp
qed

lemma loop_turn_within_budget:
  assumes "message_budget n (lo_config st)" and "loop_turn env sf st = (False, st')"
  shows "length (lo_newMessages st') < n"
proof -
  let ?s = "stream_turn env sf (inject_pending env (begin_turn env st))"
  let ?b = "execute_batch env (fst ?s) (snd ?s)"
  obtain f where f: "ac_shouldStopAfterTurn (lo_config st) = Some f" "\<And>t w. n \<le> length (tn_newMessages t) \<Longrightarrow> fst (f t w)"
    using assms(1) by (auto simp: message_budget_def)
  have hook: "ac_shouldStopAfterTurn (lo_config (snd ?b)) = Some f"
    using f(1) begin_turn_stop [of env st] by (simp add: stream_turn_def execute_batch_def inject_config split_beta Let_def)
  have new: "lo_newMessages st' = lo_newMessages (snd ?b)"
    using assms(2) by (auto simp: loop_turn_def loop_emit_def split_beta Let_def split: if_splits)
  show ?thesis
  proof (rule ccontr)
    assume "\<not> length (lo_newMessages st') < n"
    then have "fst (f t w)" if "tn_newMessages t = lo_newMessages (snd ?b)" for t w
      using f(2) [of t w] that new by simp
    with assms(2) hook show False
      by (auto simp: loop_turn_def loop_emit_def call_on_def split_beta Let_def split: if_splits)
  qed
qed

lemma run_turns_returns:
  assumes "message_budget n (lo_config st)"
  shows "\<exists>st'. run_turns env sf st = Some st'"
  using assms
proof (induction "2 * (n - length (lo_newMessages st)) +
    (if lo_hasMoreToolCalls st \<or> lo_pendingMessages st \<noteq> [] then 0 else 1 :: nat)" arbitrary: st rule: less_induct)
  case less
  show ?case
  proof (cases "lo_hasMoreToolCalls st \<or> lo_pendingMessages st \<noteq> []")
    case True
    obtain b st1 where l: "loop_turn env sf st = (b, st1)" by fastforce
    show ?thesis
    proof (cases b)
      case False
      have "\<exists>st'. run_turns env sf st1 = Some st'"
      proof (rule less.hyps)
        show "message_budget n (lo_config st1)"
          using less.prems loop_turn_stop_hook [OF l] by (simp add: message_budget_def)
        show "2 * (n - length (lo_newMessages st1)) + (if lo_hasMoreToolCalls st1 \<or> lo_pendingMessages st1 \<noteq> [] then 0 else 1)
            < 2 * (n - length (lo_newMessages st)) + (if lo_hasMoreToolCalls st \<or> lo_pendingMessages st \<noteq> [] then 0 else 1)"
          using loop_turn_grows [OF l] loop_turn_within_budget [OF less.prems, of env sf st1] l False by auto
      qed
      with True l False show ?thesis by (subst run_turns.simps) simp
    qed (use True l in \<open>subst run_turns.simps, simp\<close>)
  next
    case False
    obtain fu r where p: "poll (ac_getFollowUpMessages (lo_config st)) (lo_run st) = (fu, r)" by fastforce
    have "\<exists>st'. run_turns env sf (st\<lparr>lo_run := r, lo_pendingMessages := fu, lo_hasMoreToolCalls := True\<rparr>) = Some st'"
      by (rule less.hyps) (use less.prems False in simp_all)
    with False p show ?thesis by (subst run_turns.simps) simp
  qed
qed

text \<open>
  C25. A run whose \<open>shouldStopAfterTurn\<close> hook asks to stop once some number of messages has been collected returns,
  whatever the model, the tools and the queues do.
\<close>

theorem budgeted_run_returns:
  assumes "message_budget n config"
  shows "\<exists>st. runAgentLoop env streamFn prompts ctx config r = Some st"
  unfolding runAgentLoop_def runLoop_def by (rule run_turns_returns) (use assms in simp)

theorem budgeted_run_returns_witness:
  "\<exists>st. runAgentLoop sc_env (\<lambda>m c options w. (\<lparr>rs_events = Ended,
        rs_result = (\<lambda>w. (sc_message [AToolCall sc_call] SToolUse, w))\<rparr>, w)) [sc_prompt] sc_context
     (sc_config\<lparr>ac_shouldStopAfterTurn := Some (\<lambda>t w. (10 \<le> length (tn_newMessages t), w))\<rparr>) sc_run = Some st"
  by (rule budgeted_run_returns [of 10]) (simp add: message_budget_def)

section \<open>Concurrency without effects\<close>

text \<open>A tool that does not look at its surroundings, and its outcome.\<close>

primrec steady :: "'w execution \<Rightarrow> bool" where
  "steady (Returned x) = True"
| "steady (Thrown m) = True"
| "steady (Reports p e) = steady e"
| "steady (Suspended f k) = False"

primrec outcome_of :: "'w execution \<Rightarrow> AgentToolResult \<times> bool" where
  "outcome_of (Returned x) = (x, False)"
| "outcome_of (Thrown m) = (createErrorToolResult m, True)"
| "outcome_of (Reports p e) = outcome_of e"
| "outcome_of (Suspended f k) = (createErrorToolResult [], True)"

lemma run_steady: "steady e \<Longrightarrow> fst (run_execution env c e r) = outcome_of e"
  by (induction e arbitrary: r) simp_all

lemma suspend_steady:
  "steady e \<Longrightarrow> steady (fst (run_to_suspension env c e r)) \<and> outcome_of (fst (run_to_suspension env c e r)) = outcome_of e"
  by (induction e arbitrary: r) simp_all

definition finalized :: "'w PreparedToolCall \<Rightarrow> AgentToolResult \<times> bool \<Rightarrow> FinalizedToolCallOutcome" where
  "finalized p x = \<lparr>fi_toolCall = pr_toolCall p, fi_result = fst x, fi_isError = snd x\<rparr>"

definition task_outcome :: "'w task \<Rightarrow> FinalizedToolCallOutcome" where
  "task_outcome t = (case t of Waiting p \<Rightarrow> finalized p (outcome_of (start_execution p)) | Running p e \<Rightarrow> finalized p (outcome_of e)
     | Executed p x \<Rightarrow> finalized p x | Finalized f \<Rightarrow> f | Settled f \<Rightarrow> f)"

definition steady_task :: "'w task \<Rightarrow> bool" where
  "steady_task t = (case t of Waiting p \<Rightarrow> steady (start_execution p) | Running p e \<Rightarrow> steady e | _ \<Rightarrow> True)"

lemma advance_steady:
  assumes "steady_task t" and "ac_afterToolCall config = None"
  shows "steady_task (fst (advance env config ctx am t r)) \<and> task_outcome (fst (advance env config ctx am t r)) = task_outcome t"
proof (cases t)
  case (Running p e)
  then show ?thesis
    using assms suspend_steady [of e env "pr_toolCall p" r]
    by (cases e) (auto simp: advance_def running_def steady_task_def task_outcome_def finalized_def split_beta)
next
  case (Waiting p)
  then show ?thesis
    using assms suspend_steady [of "start_execution p" env "pr_toolCall p" r]
    by (auto simp: advance_def running_def steady_task_def task_outcome_def split_beta)
qed (use assms in \<open>simp_all add: advance_def steady_task_def task_outcome_def finalizeExecutedToolCall_def finalized_def\<close>)

lemma interleave_steady:
  assumes "ac_afterToolCall config = None"
  shows "list_all steady_task ts \<Longrightarrow> list_all steady_task (fst (interleave env config ctx am is ts r)) \<and>
    map task_outcome (fst (interleave env config ctx am is ts r)) = map task_outcome ts"
proof (induction "is" arbitrary: ts r)
  case (Cons i "is")
  show ?case
  proof (cases "i < length ts")
    case True
    let ?a = "advance env config ctx am (ts ! i) r"
    have a: "steady_task (fst ?a)" "task_outcome (fst ?a) = task_outcome (ts ! i)"
      using advance_steady [OF _ assms] True Cons.prems by (simp_all add: list_all_length)
    then have "list_all steady_task (ts[i := fst ?a])" "map task_outcome (ts[i := fst ?a]) = map task_outcome ts"
      using Cons.prems True by (auto simp: list_all_length nth_list_update map_update list_update_same_conv)
    with Cons.IH [of "ts[i := fst ?a]" "snd ?a"] True show ?thesis by (simp add: split_beta)
  qed (use Cons in simp)
qed simp

lemma settle_steady:
  assumes "steady_task t" and "ac_afterToolCall config = None"
  shows "fst (settle env config ctx am t r) = task_outcome t"
  using assms
  by (cases t) (auto simp: settle_def steady_task_def task_outcome_def finalizeExecutedToolCall_def finalized_def
      executePreparedToolCall_def run_steady split_beta Let_def)

lemma settle_all_steady:
  "ac_afterToolCall config = None \<Longrightarrow> list_all steady_task ts \<Longrightarrow>
     fst (settle_all env config ctx am ts r) = map task_outcome ts"
  by (induction ts arbitrary: r) (simp_all add: settle_steady split_beta Let_def)

text \<open>Without hooks and aborts, the preparation and the outcome of a call depend on the call alone.\<close>

definition preparation_of :: "'w LoopEnv \<Rightarrow> 'w AgentContext \<Rightarrow> ToolCall \<Rightarrow> 'w preparation" where
  "preparation_of env ctx c =
     (case find_tool ctx (call_name c) of
        None \<Rightarrow> Immediate (createErrorToolResult (js_lit ''Tool '' @ call_name c @ js_lit '' not found'')) True
      | Some tool \<Rightarrow>
          (case rbind (prepareToolCallArguments tool c) (le_validateToolArguments env tool) of
             Inl message \<Rightarrow> Immediate (createErrorToolResult message) True
           | Inr args \<Rightarrow> Prepared \<lparr>pr_toolCall = c, pr_tool = tool, pr_args = args\<rparr>))"

definition call_outcome :: "'w LoopEnv \<Rightarrow> 'w AgentContext \<Rightarrow> ToolCall \<Rightarrow> FinalizedToolCallOutcome" where
  "call_outcome env ctx c =
     (case preparation_of env ctx c of
        Immediate x e \<Rightarrow> \<lparr>fi_toolCall = c, fi_result = x, fi_isError = e\<rparr>
      | Prepared p \<Rightarrow> finalized p (outcome_of (start_execution p)))"

text \<open>No hooks, no aborts, a clock that stands still, and steady tools.\<close>

definition effect_free :: "int \<Rightarrow> 'w LoopEnv \<Rightarrow> 'w AgentLoopConfig \<Rightarrow> 'w AgentContext \<Rightarrow> bool" where
  "effect_free now env config ctx \<longleftrightarrow> ac_beforeToolCall config = None \<and> ac_afterToolCall config = None \<and>
     (\<forall>w. \<not> le_aborted env w) \<and> (\<forall>w. le_now env w = now) \<and>
     (\<forall>tools. cx_tools ctx = Some tools \<longrightarrow> (\<forall>t \<in> set tools. \<forall>i a. steady (at_execute t i a)))"

lemma find_in: "List.find p xs = Some x \<Longrightarrow> x \<in> set xs"
  by (induction xs) (auto split: if_splits)

lemma prepare_effect_free:
  assumes "effect_free now env config ctx"
  shows "prepareToolCall env config ctx am c r = (preparation_of env ctx c, r)"
  using assms by (simp add: effect_free_def prepareToolCall_def preparation_of_def before_hook_def aborted_def
      split: option.split sum.split)

lemma prepared_steady:
  assumes "effect_free now env config ctx" and "preparation_of env ctx c = Prepared p"
  shows "steady (start_execution p) \<and> pr_toolCall p = c"
proof -
  obtain tool where "find_tool ctx (call_name c) = Some tool" "pr_tool p = tool" "pr_toolCall p = c"
    using assms(2) by (auto simp: preparation_of_def split: option.splits sum.splits)
  moreover from this obtain tools where "cx_tools ctx = Some tools" "tool \<in> set tools"
    using find_in by (fastforce simp: find_tool_def bind_eq_Some_conv)
  ultimately show ?thesis using assms(1) by (auto simp: effect_free_def start_execution_def)
qed

lemma execute_one_effect_free:
  assumes "effect_free now env config ctx"
  shows "fst (execute_one env config ctx am c r) = call_outcome env ctx c"
proof (cases "preparation_of env ctx c")
  case (Prepared p)
  then show ?thesis
    using assms prepared_steady [OF assms Prepared] run_steady [of "start_execution p" env "pr_toolCall p"]
    by (simp add: execute_one_def prepare_effect_free [OF assms] call_outcome_def executePreparedToolCall_def
        finalizeExecutedToolCall_def effect_free_def finalized_def split_beta)
qed (simp add: execute_one_def prepare_effect_free [OF assms] call_outcome_def)

lemma sequential_effect_free:
  assumes "effect_free now env config ctx"
  shows "fst (sequential_calls env config ctx am cs r) =
    (map (call_outcome env ctx) cs, map (createToolResultMessage now \<circ> call_outcome env ctx) cs)"
proof (induction cs arbitrary: r)
  case (Cons c cs)
  have env: "le_aborted env w \<longleftrightarrow> False" "le_now env w = now" for w
    using assms by (simp_all add: effect_free_def)
  show ?case using Cons by (simp add: split_beta Let_def aborted_def env execute_one_effect_free [OF assms])
qed simp

lemma prepare_calls_effect_free:
  assumes "effect_free now env config ctx"
  shows "list_all steady_task (fst (prepare_calls env config ctx am cs r)) \<and>
    map task_outcome (fst (prepare_calls env config ctx am cs r)) = map (call_outcome env ctx) cs"
proof (induction cs arbitrary: r)
  case (Cons c cs)
  have "\<not> aborted env r" for r using assms by (simp add: effect_free_def aborted_def)
  then show ?case
    using Cons prepared_steady [OF assms, of c]
    by (cases "preparation_of env ctx c")
      (simp_all add: split_beta Let_def prepare_effect_free [OF assms] steady_task_def task_outcome_def call_outcome_def)
qed simp

lemma result_messages_now:
  "(\<And>w. le_now env w = now) \<Longrightarrow> fst (tool_result_messages env fs r) = map (createToolResultMessage now) fs"
  by (induction fs arbitrary: r) (simp_all add: split_beta Let_def)



end
