(* ===== verification/Event_Stream.thy ===== *)
theory Event_Stream
  imports Prelude
begin

text \<open>
  \<^verbatim>\<open>pi/packages/ai/src/utils/event-stream.ts\<close>: the queue between a producer of events and its
  consumers. A promise that is not settled yet is a name in a waiting list, and each operation returns the promises it
  settles. \<open>finalResult\<close> together with \<open>finalResultSet\<close> is an option.
\<close>

record ('e, 'r) EventStream =
  es_waiting :: "nat list"
  es_resultWaiters :: "nat list"
  es_done :: bool
  es_finalResult :: "'r option"
  es_events :: "'e list"
  es_cursor :: nat

datatype ('e, 'r) settled =
    NextSettled nat "'e option" bool  \<comment> \<open>the promise, \<open>value\<close> (\<open>None\<close> for \<open>undefined\<close>), \<open>done\<close>\<close>
  | ResultSettled nat "'r option"

definition new_EventStream :: "('e, 'r) EventStream" where
  "new_EventStream = \<lparr>es_waiting = [], es_resultWaiters = [], es_done = False, es_finalResult = None,
     es_events = [], es_cursor = 0\<rparr>"

definition at :: "'a list \<Rightarrow> nat \<Rightarrow> 'a option" where
  "at xs i = (if i < length xs then Some (xs ! i) else None)"

definition push_waiter :: "('e, 'r) EventStream \<Rightarrow> ('e, 'r) EventStream \<times> ('e, 'r) settled list" where
  "push_waiter s =
     (case es_waiting s of
        [] \<Rightarrow> (s, [])
      | p # ps \<Rightarrow>
          (s\<lparr>es_waiting := ps, es_cursor := es_cursor s + 1\<rparr>,
           [NextSettled p (at (es_events s) (es_cursor s))
              (es_done s \<and> int (es_cursor s) = int (length (es_events s)) - 1)]))"

definition stream_push ::
  "('e \<Rightarrow> bool) \<Rightarrow> ('e \<Rightarrow> 'r) \<Rightarrow> 'e \<Rightarrow> ('e, 'r) EventStream \<Rightarrow> ('e, 'r) EventStream \<times> ('e, 'r) settled list" where
  "stream_push isComplete extractResult event s =
     (if es_done s then (s, [])
      else
        (let s1 = (if isComplete event then s\<lparr>es_done := True, es_finalResult := Some (extractResult event)\<rparr> else s);
             (s2, out) = push_waiter (s1\<lparr>es_events := es_events s1 @ [event]\<rparr>)
         in if es_finalResult s2 \<noteq> None
            then (s2\<lparr>es_resultWaiters := []\<rparr>,
                  out @ map (\<lambda>p. ResultSettled p (es_finalResult s2)) (es_resultWaiters s2))
            else (s2, out)))"

definition stream_end :: "'r option \<Rightarrow> ('e, 'r) EventStream \<Rightarrow> ('e, 'r) EventStream \<times> ('e, 'r) settled list" where
  "stream_end result s =
     (let s1 = s\<lparr>es_done := True,
            es_finalResult := (if es_finalResult s = None then result else es_finalResult s)\<rparr>;
          (s2, out) =
            (case es_waiting s1 of
               [] \<Rightarrow> (s1, [])
             | p # ps \<Rightarrow>
                 (s1\<lparr>es_waiting := ps, es_cursor := length (es_events s1)\<rparr>,
                  [NextSettled p (if es_events s1 = [] then None else Some (last (es_events s1))) True]))
      in (s2\<lparr>es_resultWaiters := []\<rparr>,
          out @ map (\<lambda>p. ResultSettled p (es_finalResult s2)) (es_resultWaiters s2)))"

definition stream_next :: "nat \<Rightarrow> ('e, 'r) EventStream \<Rightarrow> ('e, 'r) EventStream \<times> ('e, 'r) settled list" where
  "stream_next p s =
     (if es_cursor s < length (es_events s) then
        (s\<lparr>es_cursor := es_cursor s + 1\<rparr>,
         [NextSettled p (at (es_events s) (es_cursor s)) (es_done s \<and> es_cursor s + 1 = length (es_events s))])
      else if es_done s \<and> es_events s \<noteq> [] then (s, [NextSettled p (Some (last (es_events s))) True])
      else (s\<lparr>es_waiting := es_waiting s @ [p]\<rparr>, []))"

definition stream_result :: "nat \<Rightarrow> ('e, 'r) EventStream \<Rightarrow> ('e, 'r) EventStream \<times> ('e, 'r) settled list" where
  "stream_result p s =
     (if es_finalResult s \<noteq> None then (s, [ResultSettled p (es_finalResult s)])
      else if es_done s then (s, [ResultSettled p None])
      else (s\<lparr>es_resultWaiters := es_resultWaiters s @ [p]\<rparr>, []))"

section \<open>Sequences of calls\<close>

datatype ('e, 'r) call = Push 'e | End "'r option" | Next nat | Result nat

fun call_stream ::
  "('e \<Rightarrow> bool) \<Rightarrow> ('e \<Rightarrow> 'r) \<Rightarrow> ('e, 'r) call \<Rightarrow> ('e, 'r) EventStream \<Rightarrow> ('e, 'r) EventStream \<times> ('e, 'r) settled list" where
  "call_stream c x (Push e) s = stream_push c x e s"
| "call_stream c x (End r) s = stream_end r s"
| "call_stream c x (Next p) s = stream_next p s"
| "call_stream c x (Result p) s = stream_result p s"

fun run_stream ::
  "('e \<Rightarrow> bool) \<Rightarrow> ('e \<Rightarrow> 'r) \<Rightarrow> ('e, 'r) call list \<Rightarrow> ('e, 'r) EventStream \<Rightarrow> ('e, 'r) EventStream \<times> ('e, 'r) settled list" where
  "run_stream c x [] s = (s, [])"
| "run_stream c x (op # ops) s =
     (let (s1, out1) = call_stream c x op s; (s2, out2) = run_stream c x ops s1 in (s2, out1 @ out2))"

text \<open>The events a stream accepts: up to the first complete one or the first \<open>end\<close>.\<close>

fun accepted :: "('e \<Rightarrow> bool) \<Rightarrow> ('e, 'r) call list \<Rightarrow> 'e list" where
  "accepted c [] = []"
| "accepted c (Push e # ops) = e # (if c e then [] else accepted c ops)"
| "accepted c (End _ # ops) = []"
| "accepted c (_ # ops) = accepted c ops"

fun deliveries :: "('e, 'r) settled list \<Rightarrow> ('e option \<times> bool) list" where
  "deliveries [] = []"
| "deliveries (NextSettled _ v d # out) = (v, d) # deliveries out"
| "deliveries (ResultSettled _ _ # out) = deliveries out"

section \<open>Order of delivery\<close>

text \<open>The \<open>i\<close>-th delivery of a stream whose events are \<open>evs\<close>.\<close>

fun delivery_ok :: "'e list \<Rightarrow> nat \<Rightarrow> 'e option \<times> bool \<Rightarrow> bool" where
  "delivery_ok evs i (v, d) \<longleftrightarrow> (\<not> d \<longrightarrow> i < length evs) \<and> (i < length evs \<longrightarrow> v = Some (evs ! i)) \<and>
     (d \<longrightarrow> length evs \<le> Suc i \<and> v = (if evs = [] then None else Some (last evs)))"

text \<open>After \<open>k\<close> deliveries.\<close>

definition stream_ok :: "nat \<Rightarrow> ('e, 'r) EventStream \<Rightarrow> bool" where
  "stream_ok k s \<longleftrightarrow> es_cursor s = min k (length (es_events s)) \<and> (length (es_events s) < k \<longrightarrow> es_done s) \<and>
     (es_waiting s \<noteq> [] \<longrightarrow> es_cursor s = length (es_events s))"

definition accepts :: "('e \<Rightarrow> bool) \<Rightarrow> ('e, 'r) EventStream \<Rightarrow> ('e, 'r) call list \<Rightarrow> 'e list" where
  "accepts c s ops = (if es_done s then [] else accepted c ops)"

lemma deliveries_append [simp]: "deliveries (xs @ ys) = deliveries xs @ deliveries ys"
  by (induction xs rule: deliveries.induct) auto

lemma deliveries_results [simp]: "deliveries (map (\<lambda>p. ResultSettled p r) ps) = []"
  by (induction ps) auto

lemmas stream_defs = stream_push_def stream_end_def stream_next_def stream_result_def push_waiter_def at_def Let_def

definition step_ok :: "nat \<Rightarrow> ('e, 'r) EventStream \<times> ('e, 'r) settled list \<Rightarrow> bool" where
  "step_ok k r \<longleftrightarrow> (case r of (s, out) \<Rightarrow> stream_ok (k + length (deliveries out)) s \<and>
     (case deliveries out of [] \<Rightarrow> True
      | d # ds \<Rightarrow> ds = [] \<and> delivery_ok (es_events s) k d \<and> (snd d \<longrightarrow> es_done s)))"

lemma push_ok:
  assumes "stream_ok k s"
  shows "step_ok k (stream_push c x e s)"
proof (cases "es_done s")
  case True
  then show ?thesis using assms by (simp add: stream_push_def step_ok_def)
next
  case False
  then show ?thesis using assms
    by (cases "es_waiting s") (auto simp: stream_ok_def stream_defs step_ok_def split: if_splits)
qed

lemma end_ok: "stream_ok k s \<Longrightarrow> step_ok k (stream_end r s)"
proof (cases "es_waiting s")
  case (Cons p ps)
  moreover assume "stream_ok k s"
  ultimately have k: "length (es_events s) \<le> k" "es_cursor s = length (es_events s)"
    by (auto simp: stream_ok_def min_def split: if_splits)
  then have "k < length (es_events s) \<longleftrightarrow> False" "min k (length (es_events s)) = length (es_events s)"
    by auto
  with Cons k show ?thesis by (simp add: stream_ok_def stream_end_def step_ok_def Let_def)
qed (simp add: stream_ok_def stream_end_def step_ok_def Let_def)

lemma nth_last: "Suc i = length xs \<Longrightarrow> xs ! i = last xs"
  by (cases xs rule: rev_cases) auto

lemma next_ok: "stream_ok k s \<Longrightarrow> step_ok k (stream_next p s)"
  by (cases "k < length (es_events s)") (auto simp: stream_ok_def stream_next_def at_def step_ok_def nth_last)

lemma result_ok: "stream_ok k s \<Longrightarrow> step_ok k (stream_result p s)"
  by (auto simp: stream_ok_def stream_defs step_ok_def)

lemma call_events:
  "call_stream c x op s = (s1, out) \<Longrightarrow> es_events s1 @ accepts c s1 ops = es_events s @ accepts c s (op # ops)"
  by (cases op; cases "es_waiting s") (auto simp: stream_defs accepts_def split: if_splits)

lemma call_stream_ok:
  assumes "stream_ok k s" and "call_stream c x op s = (s1, out)"
  shows "stream_ok (k + length (deliveries out)) s1"
    and "i < length (deliveries out) \<Longrightarrow> delivery_ok (es_events s1) (k + i) (deliveries out ! i)"
    and "i < length (deliveries out) \<Longrightarrow> snd (deliveries out ! i) \<Longrightarrow> es_done s1"
proof -
  have "step_ok k (call_stream c x op s)"
    using assms(1) by (cases op) (simp_all add: push_ok end_ok next_ok result_ok)
  then show "stream_ok (k + length (deliveries out)) s1"
    "i < length (deliveries out) \<Longrightarrow> delivery_ok (es_events s1) (k + i) (deliveries out ! i)"
    "i < length (deliveries out) \<Longrightarrow> snd (deliveries out ! i) \<Longrightarrow> es_done s1"
    using assms(2) by (auto simp: step_ok_def split: list.splits)
qed

lemma delivery_ok_extend:
  "delivery_ok evs i d \<Longrightarrow> (snd d \<Longrightarrow> evs' = []) \<Longrightarrow> delivery_ok (evs @ evs') i d"
  by (cases d) (auto simp: nth_append)

lemma run_stream_ok:
  assumes "stream_ok k s" and "run_stream c x ops s = (s', out)"
  shows "stream_ok (k + length (deliveries out)) s' \<and> es_events s' = es_events s @ accepts c s ops \<and>
    (\<forall>i < length (deliveries out). delivery_ok (es_events s') (k + i) (deliveries out ! i))"
  using assms
proof (induction ops arbitrary: k s out)
  case Nil
  then show ?case by (simp add: accepts_def)
next
  case (Cons op ops)
  obtain s1 out1 out2 where s1: "call_stream c x op s = (s1, out1)" and s2: "run_stream c x ops s1 = (s', out2)"
    and out: "out = out1 @ out2"
    using Cons.prems(2) by (auto simp: Let_def split: prod.splits)
  note step = call_stream_ok [OF Cons.prems(1) s1]
  note IH = Cons.IH [OF step(1) s2]
  have "delivery_ok (es_events s1 @ accepts c s1 ops) (k + i) (deliveries out1 ! i)" if "i < length (deliveries out1)" for i
    using step(2,3) [OF that] by (intro delivery_ok_extend) (auto simp: accepts_def)
  then show ?case
    using IH call_events [OF s1, of ops] by (auto simp: out nth_append add.assoc)
      (metis add.assoc add_diff_inverse_nat nat_add_left_cancel_less)
qed

text \<open>
  C19. Whatever the order in which a producer pushes and ends and consumers ask, the deliveries of a stream are the
  accepted events, each once and in order, before any is repeated; a delivery marked \<open>done\<close> carries the
  last event, and one not marked is a fresh event.
\<close>

theorem stream_delivers_in_order:
  assumes "run_stream isComplete extractResult ops new_EventStream = (s, out)"
  shows "es_events s = accepted isComplete ops \<and>
    (\<forall>i < length (deliveries out). delivery_ok (accepted isComplete ops) i (deliveries out ! i))"
proof -
  have "stream_ok 0 (new_EventStream :: ('a, 'b) EventStream)"
    by (simp add: stream_ok_def new_EventStream_def)
  from run_stream_ok [OF this assms] show ?thesis
    by (auto simp: accepts_def new_EventStream_def)
qed

theorem stream_delivers_in_order_witness:
  "\<exists>s out. run_stream (\<lambda>e. e = 9) id [Next 1, Push 7, Push 8, Next 2, Push 9, Next 3, Next 4] new_EventStream = (s, out)
     \<and> deliveries out = [(Some 7, False), (Some 8, False), (Some 9, True), (Some (9 :: nat), True)]
     \<and> (\<forall>i < 4. delivery_ok [7, 8, 9] i (deliveries out ! i))"
proof -
  let ?ops = "[Next 1, Push 7, Push 8, Next 2, Push 9, Next 3, Next 4] :: (nat, nat) call list"
  obtain s out where r: "run_stream (\<lambda>e. e = 9) id ?ops new_EventStream = (s, out)" by fastforce
  then have "deliveries out = [(Some 7, False), (Some 8, False), (Some 9, True), (Some (9 :: nat), True)]"
    by (auto simp: new_EventStream_def stream_defs)
  with stream_delivers_in_order [OF r] r show ?thesis by (simp add: numeral_eq_Suc)
qed

section \<open>Every promise is settled\<close>

text \<open>A consumer that awaits each \<open>next\<close> before it calls it again.\<close>

inductive single_consumer :: "('e \<Rightarrow> bool) \<Rightarrow> ('e \<Rightarrow> 'r) \<Rightarrow> ('e, 'r) EventStream \<Rightarrow> bool" for c x where
  start: "single_consumer c x new_EventStream"
| produce: "single_consumer c x s \<Longrightarrow> single_consumer c x (fst (stream_push c x e s))"
| finish: "single_consumer c x s \<Longrightarrow> single_consumer c x (fst (stream_end r s))"
| consume: "single_consumer c x s \<Longrightarrow> es_waiting s = [] \<Longrightarrow> single_consumer c x (fst (stream_next p s))"
| await: "single_consumer c x s \<Longrightarrow> single_consumer c x (fst (stream_result p s))"

lemma single_consumer_waits:
  "single_consumer c x s \<Longrightarrow> length (es_waiting s) \<le> 1 \<and> (es_done s \<and> es_events s \<noteq> [] \<longrightarrow> es_waiting s = [])
     \<and> (es_done s \<longrightarrow> es_resultWaiters s = [])"
proof (induction rule: single_consumer.induct)
  case (produce s e)
  then show ?case by (cases "es_waiting s") (auto simp: stream_defs)
next
  case (finish s r)
  then show ?case by (cases "es_waiting s") (auto simp: stream_defs)
qed (auto simp: stream_defs new_EventStream_def)



lemma run_stream_out:
  "snd (run_stream c x (op # ops) s) = snd (call_stream c x op s) @ snd (run_stream c x ops (fst (call_stream c x op s)))"
  by (simp add: Let_def split: prod.splits)

text \<open>
  A stream that ends before any event leaves a later \<open>next\<close> waiting for ever: no push and no
  other call but a second \<open>end\<close> settles it.
\<close>

theorem next_after_empty_end_hangs:
  assumes "\<forall>op \<in> set ops. \<forall>r. op \<noteq> End r"
  shows "\<forall>v d. NextSettled p v d \<notin> set (snd (run_stream isComplete extractResult (End result # Next p # ops) new_EventStream))"
proof -
  have stuck: "\<forall>q v d. NextSettled q v d \<notin> set (snd (run_stream isComplete extractResult ops s))"
    if "es_done s" "es_events s = []" "es_cursor s = 0" "\<forall>op \<in> set ops. \<forall>r. op \<noteq> End r" for s
    using that
  proof (induction ops arbitrary: s)
    case (Cons op ops)
    then show ?case by (cases op) (auto simp: run_stream_out stream_defs simp del: run_stream.simps(2))
  qed simp
  show ?thesis
    using stuck [OF _ _ _ assms] by (auto simp: run_stream_out new_EventStream_def stream_defs simp del: run_stream.simps(2))
qed

theorem next_after_empty_end_hangs_witness:
  "\<forall>v d. NextSettled 5 v d \<notin> set (snd (run_stream (\<lambda>e. e = (9 :: nat)) id [End None, Next 5, Push 9, Next 6, Result 7] new_EventStream))"
  using next_after_empty_end_hangs [of "[Push 9, Next 6, Result 7]" 5 "\<lambda>e. e = (9 :: nat)" id None] by simp

end
