(* ===== verification/Agent_Stream.thy ===== *)
theory Agent_Stream
  imports Agent_Loop_Runs Event_Stream
begin

text \<open>
  The event streams of the agent: \<open>AssistantMessageEventStream\<close> of \<^verbatim>\<open>pi/packages/ai/src/utils/event-stream.ts\<close> and
  the stream that \<open>agentLoop\<close> and \<open>agentLoopContinue\<close> of \<^verbatim>\<open>pi/packages/agent/src/agent-loop.ts\<close> return. The calls
  a stream receives are those of \<open>Event_Stream\<close>.
\<close>

fun assistant_complete :: "AssistantMessageEvent \<Rightarrow> bool" where
  "assistant_complete (EvDone _ _) = True"
| "assistant_complete (EvError _ _) = True"
| "assistant_complete _ = False"

text \<open>\<open>None\<close> where the source throws; it is called on complete events only.\<close>

fun assistant_result :: "AssistantMessageEvent \<Rightarrow> AssistantMessage option" where
  "assistant_result (EvDone _ m) = Some m"
| "assistant_result (EvError _ m) = Some m"
| "assistant_result _ = None"

fun agent_complete :: "AgentEvent \<Rightarrow> bool" where
  "agent_complete (AgentEnd _) = True"
| "agent_complete _ = False"

fun agent_messages :: "AgentEvent \<Rightarrow> AgentMessage list" where
  "agent_messages (AgentEnd ms) = ms"
| "agent_messages _ = []"

definition createAgentStream :: "(AgentEvent, AgentMessage list) EventStream" where
  "createAgentStream = new_EventStream"

text \<open>
  The calls on the stream of a run that has emitted \<open>events\<close> and then returned its messages or thrown. The agent
  streams push while the run goes on; a consumer's calls may come anywhere between.
\<close>

definition stream_calls :: "AgentEvent list \<Rightarrow> ustring + AgentMessage list \<Rightarrow> (AgentEvent, AgentMessage list) call list" where
  "stream_calls events returned =
     map Push events @
     (case returned of
        Inr messages \<Rightarrow> [End (Some messages)]
      | Inl _ \<Rightarrow> [Push (AgentEnd []), End (Some [])])"

definition fresh_run :: "'w \<Rightarrow> 'w Run" where
  "fresh_run w = \<lparr>ru_world = w, ru_events = []\<rparr>"

definition agentLoop ::
  "'w LoopEnv \<Rightarrow> 'w StreamFn \<Rightarrow> AgentMessage list \<Rightarrow> 'w AgentContext \<Rightarrow> 'w AgentLoopConfig \<Rightarrow> 'w
     \<Rightarrow> (AgentEvent, AgentMessage list) call list option" where
  "agentLoop env streamFn prompts context config w =
     map_option (\<lambda>st. stream_calls (ru_events (lo_run st)) (Inr (lo_newMessages st)))
       (runAgentLoop env streamFn prompts context config (fresh_run w))"

definition agentLoopContinue ::
  "'w LoopEnv \<Rightarrow> 'w StreamFn \<Rightarrow> 'w AgentContext \<Rightarrow> 'w AgentLoopConfig \<Rightarrow> 'w
     \<Rightarrow> ustring + (AgentEvent, AgentMessage list) call list option" where
  "agentLoopContinue env streamFn context config w =
     rbind (check_continue context) (\<lambda>_.
     rbind (runAgentLoopContinue env streamFn context config (fresh_run w)) (\<lambda>run.
     Inr (map_option (\<lambda>st. stream_calls (ru_events (lo_run st)) (Inr (lo_newMessages st))) run)))"

section \<open>The stream of a run\<close>

lemma run_turns_last: "run_turns env sf st = Some st' \<Longrightarrow> \<exists>es. ru_events (lo_run st') = es @ [AgentEnd (lo_newMessages st')]"
proof (induction rule: run_turns_induct)
  case (stop st st')
  then show ?case
    by (auto simp: loop_turn_def loop_emit_def emit_def split_beta Let_def split: if_splits)
qed (auto simp: loop_emit_def emit_def)

definition agent_ends :: "AgentEvent list \<Rightarrow> nat" where
  "agent_ends es = length (filter agent_complete es)"

lemma agent_ends_milestones: "agent_ends (concat (map milestone es)) = agent_ends es"
proof (induction es)
  case (Cons e es)
  then show ?case by (cases e) (simp_all add: agent_ends_def)
qed simp

lemma turn_trace_ends: "filter agent_complete (turn_trace t) = []"
  by (cases t rule: turn_trace.cases) (simp add: filter_empty_conv)

lemma turns_trace_ends: "filter agent_complete (concat (map (\<lambda>t. TurnStart # turn_trace t) ts)) = []"
  by (induction ts) (simp_all add: turn_trace_ends)

lemma fresh_unobserved: "observed obs (fresh_run w) = []"
  by (simp add: observed_def fresh_run_def)

lemma runAgentLoop_single_end:
  assumes "runAgentLoop env sf prompts ctx config (fresh_run w) = Some st"
  obtains es where "ru_events (lo_run st) = es @ [AgentEnd (lo_newMessages st)]" and "\<forall>e \<in> set es. \<not> agent_complete e"
proof -
  obtain es where es: "ru_events (lo_run st) = es @ [AgentEnd (lo_newMessages st)]"
    using run_turns_last assms unfolding runAgentLoop_def runLoop_def by blast
  obtain inj m rs ts where t: "observed milestone (lo_run st) =
      observed milestone (emits env ([AgentStart, TurnStart] @ concat (map announce prompts)) (fresh_run w)) @
      turn_trace (inj, m, rs) @ concat (map (\<lambda>t. TurnStart # turn_trace t) ts) @ [AgentEnd (lo_newMessages st)]"
    using assms unfolding runAgentLoop_def by (rule runLoop_trace) metis
  have "filter agent_complete (concat (map milestone (concat (map announce prompts)))) = []"
    by (induction prompts) (simp_all add: announce_def)
  then have "agent_ends (observed milestone (lo_run st)) = 1"
    unfolding t agent_ends_def
    by (simp add: turn_trace_ends turns_trace_ends fresh_unobserved del: turn_trace.simps)
  then have "agent_ends (ru_events (lo_run st)) = 1"
    by (simp add: observed_def agent_ends_milestones)
  then have "\<forall>e \<in> set es. \<not> agent_complete e"
    by (simp add: es agent_ends_def filter_empty_conv)
  with es show thesis by (rule that)
qed

lemma accepted_pushes:
  "\<forall>e \<in> set es. \<not> c e \<Longrightarrow> accepted c (map Push es @ ops) = es @ accepted c ops"
  by (induction es) auto

text \<open>The calls of the producer among those a stream receives.\<close>

fun is_producer :: "('e, 'r) call \<Rightarrow> bool" where
  "is_producer (Push _) = True"
| "is_producer (End _) = True"
| "is_producer _ = False"

lemma accepted_producer: "accepted c (filter is_producer ops) = accepted c ops"
proof (induction ops)
  case (Cons op ops)
  then show ?case by (cases op) auto
qed simp

definition results_are :: "'r option \<Rightarrow> ('e, 'r) settled list \<Rightarrow> bool" where
  "results_are v out \<longleftrightarrow> (\<forall>p u. ResultSettled p u \<in> set out \<longrightarrow> u = v)"

lemma call_after_final:
  "es_finalResult s = Some v \<Longrightarrow> es_done s \<Longrightarrow> call_stream c x op s = (s1, out) \<Longrightarrow>
     es_finalResult s1 = Some v \<and> es_done s1 \<and> results_are (Some v) out"
  by (cases op; cases "es_waiting s") (auto simp: stream_defs results_are_def split: if_splits)

lemma run_after_final:
  "es_finalResult s = Some v \<Longrightarrow> es_done s \<Longrightarrow> run_stream c x ops s = (s', out) \<Longrightarrow>
     es_finalResult s' = Some v \<and> results_are (Some v) out"
proof (induction ops arbitrary: s out)
  case (Cons op ops)
  obtain s1 out1 where 1: "call_stream c x op s = (s1, out1)" by fastforce
  then show ?case
    using Cons call_after_final [OF Cons.prems(1,2) 1] by (auto simp: results_are_def split: prod.splits)
qed (simp add: results_are_def)

lemma push_complete:
  assumes "c e" and "\<not> es_done s" and "stream_push c x e s = (s1, out)"
  shows "es_finalResult s1 = Some (x e) \<and> es_done s1 \<and> results_are (Some (x e)) out"
  using assms by (cases "es_waiting s") (auto simp: stream_defs results_are_def)

lemma call_before_final:
  assumes "es_finalResult s = None" and "\<not> es_done s" and "call_stream c x op s = (s1, out)"
    and "\<And>e. op = Push e \<Longrightarrow> \<not> c e" and "\<And>r. op \<noteq> End r"
  shows "es_finalResult s1 = None \<and> \<not> es_done s1 \<and> results_are v out"
  using assms by (cases op; cases "es_waiting s") (auto simp: stream_defs results_are_def split: if_splits)

lemma run_completes:
  assumes "es_finalResult s = None" and "\<not> es_done s" and "accepted c ops = es @ [e]" and "\<forall>d \<in> set es. \<not> c d" and "c e"
    and "run_stream c x ops s = (s', out)"
  shows "es_finalResult s' = Some (x e) \<and> results_are (Some (x e)) out"
  using assms
proof (induction ops arbitrary: s es out)
  case (Cons op ops)
  obtain s1 out1 out2 where 1: "call_stream c x op s = (s1, out1)" and 2: "run_stream c x ops s1 = (s', out2)" "out = out1 @ out2"
    using Cons.prems(6) by (auto simp: Let_def split: prod.splits)
  show ?case
  proof (cases "op = Push e \<and> es = []")
    case True
    then show ?thesis
      using push_complete [of c e s x s1 out1, OF Cons.prems(5,2)] run_after_final [of s1 "x e" c x ops s' out2] 1 2
      by (auto simp: results_are_def)
  next
    case False
    have op: "\<And>d. op = Push d \<Longrightarrow> \<not> c d" "\<And>r. op \<noteq> End r"
      using Cons.prems(3,4) False by (cases es; cases op; auto split: if_splits)+
    have "\<exists>es'. accepted c ops = es' @ [e] \<and> (\<forall>d \<in> set es'. \<not> c d)"
      using Cons.prems(3,4) op False by (cases op; cases es) (auto split: if_splits)
    then show ?thesis
      using Cons.IH [of s1 _ out2] call_before_final [OF Cons.prems(1,2) 1 op] Cons.prems(5) 2
      by (auto simp: results_are_def)
  qed
qed simp



end
