(* ===== verification/Compaction_Utils.thy ===== *)
theory Compaction_Utils
  imports Json_Text "HOL-Library.List_Lexorder"
begin

text \<open>
  \<^verbatim>\<open>pi/packages/agent/src/harness/compaction/utils.ts\<close>: the files a stretch of conversation touched, and the plain text a
  conversation is summarised from.
\<close>

section \<open>File operations\<close>

text \<open>A set of paths in insertion order.\<close>

record FileOperations =
  fo_read :: "ustring list"
  fo_written :: "ustring list"
  fo_edited :: "ustring list"

definition path_add :: "'a list \<Rightarrow> 'a \<Rightarrow> 'a list" where
  "path_add xs x = (if x \<in> set xs then xs else xs @ [x])"

definition createFileOps :: FileOperations where
  "createFileOps = \<lparr>fo_read = [], fo_written = [], fo_edited = []\<rparr>"

text \<open>A property of a value; values that are not objects have none of the ones asked for here.\<close>

fun property :: "string \<Rightarrow> js \<Rightarrow> js option" where
  "property k (JObj _ _ kvs) = map_of kvs (js_lit k)"
| "property k _ = None"

fun block_file_ops :: "assistant_block \<Rightarrow> FileOperations \<Rightarrow> FileOperations" where
  "block_file_ops (AToolCall c) fileOps =
     (case property ''path'' (call_arguments c) of
        Some (JStr path) \<Rightarrow>
          if path = [] then fileOps
          else if call_name c = js_lit ''read'' then fileOps\<lparr>fo_read := path_add (fo_read fileOps) path\<rparr>
          else if call_name c = js_lit ''write'' then fileOps\<lparr>fo_written := path_add (fo_written fileOps) path\<rparr>
          else if call_name c = js_lit ''edit'' then fileOps\<lparr>fo_edited := path_add (fo_edited fileOps) path\<rparr>
          else fileOps
      | _ \<Rightarrow> fileOps)"
| "block_file_ops _ fileOps = fileOps"

fun extractFileOpsFromMessage :: "AgentMessage \<Rightarrow> FileOperations \<Rightarrow> FileOperations" where
  "extractFileOpsFromMessage (MAssistant m) fileOps = fold block_file_ops (am_content m) fileOps"
| "extractFileOpsFromMessage _ fileOps = fileOps"

text \<open>The default order of \<open>sort\<close> on strings is the lexicographic one of their code units.\<close>

definition computeFileLists :: "FileOperations \<Rightarrow> ustring list \<times> ustring list" where
  "computeFileLists fileOps =
     (let modified = foldl path_add [] (fo_edited fileOps @ fo_written fileOps);
          readOnly = sort (filter (\<lambda>f. f \<notin> set modified) (fo_read fileOps))
      in (readOnly, sort modified))"

definition tagged :: "string \<Rightarrow> ustring \<Rightarrow> ustring" where
  "tagged tag body = js_lit (''<'' @ tag @ ''>'') @ newline @ body @ newline @ js_lit (''</'' @ tag @ ''>'')"

definition formatFileOperations :: "ustring list \<Rightarrow> ustring list \<Rightarrow> ustring" where
  "formatFileOperations readFiles modifiedFiles =
     (let sections = (if readFiles \<noteq> [] then [tagged ''read-files'' (join newline readFiles)] else [])
            @ (if modifiedFiles \<noteq> [] then [tagged ''modified-files'' (join newline modifiedFiles)] else [])
      in if sections = [] then [] else newline @ newline @ join (newline @ newline) sections)"

section \<open>Conversation text\<close>

definition TOOL_RESULT_MAX_CHARS :: nat where
  "TOOL_RESULT_MAX_CHARS = 2000"

definition safeJsonStringify :: "js \<Rightarrow> ustring" where
  "safeJsonStringify v =
     (case stringify v of Inl _ \<Rightarrow> js_lit ''[unserializable]'' | Inr None \<Rightarrow> js_lit ''undefined'' | Inr (Some t) \<Rightarrow> t)"

definition truncateForSummary :: "ustring \<Rightarrow> nat \<Rightarrow> ustring" where
  "truncateForSummary text maxChars =
     (if length text \<le> maxChars then text
      else take maxChars text @ newline @ newline @ js_lit ''[... '' @ nat_text (length text - maxChars)
        @ js_lit '' more characters truncated]'')"

text \<open>\<open>Object.entries\<close> of the arguments of a call, which are an object.\<close>

fun object_entries :: "js \<Rightarrow> (ustring \<times> js) list" where
  "object_entries (JObj _ _ kvs) = kvs"
| "object_entries (JArr vs) = map (\<lambda>(i, v). (nat_text i, v)) (enumerate 0 vs)"
| "object_entries _ = []"

fun thinking_part :: "assistant_block \<Rightarrow> ustring option" where
  "thinking_part (AThinking t) = Some (th_thinking t)"
| "thinking_part _ = None"

fun tool_call_part :: "assistant_block \<Rightarrow> ustring option" where
  "tool_call_part (AToolCall c) =
     Some (call_name c @ js_lit ''('' @ join (js_lit '', '') (map (\<lambda>(k, v). k @ js_lit ''='' @ safeJsonStringify v)
       (object_entries (call_arguments c))) @ js_lit '')'')"
| "tool_call_part _ = None"

fun message_parts :: "Message \<Rightarrow> ustring list" where
  "message_parts (LUser m) =
     (let content = contentText (um_content m) []
      in if content \<noteq> [] then [js_lit ''[User]: '' @ content] else [])"
| "message_parts (LAssistant m) =
     (let thinkingParts = List.map_filter thinking_part (am_content m);
          toolCalls = List.map_filter tool_call_part (am_content m)
      in (if thinkingParts \<noteq> [] then [js_lit ''[Assistant thinking]: '' @ join newline thinkingParts] else [])
       @ (if list_ex (\<lambda>b. assistant_block_text b \<noteq> None) (am_content m) then [js_lit ''[Assistant]: '' @ assistantText m] else [])
       @ (if toolCalls \<noteq> [] then [js_lit ''[Assistant tool calls]: '' @ join (js_lit ''; '') toolCalls] else []))"
| "message_parts (LToolResult m) =
     (let content = block_texts user_block_text (tr_content m) []
      in if content \<noteq> [] then [js_lit ''[Tool result]: '' @ truncateForSummary content TOOL_RESULT_MAX_CHARS] else [])"

definition serializeConversation :: "Message list \<Rightarrow> ustring" where
  "serializeConversation messages = join (newline @ newline) (concat (map message_parts messages))"

section \<open>Properties of the file lists\<close>

lemma set_path_add [simp]: "set (path_add xs x) = insert x (set xs)"
  by (auto simp: path_add_def)

lemma distinct_path_add [simp]: "distinct (path_add xs x) \<longleftrightarrow> distinct xs"
  by (auto simp: path_add_def)

lemma foldl_path_add:
  "set (foldl path_add acc xs) = set acc \<union> set xs" "distinct (foldl path_add acc xs) = distinct acc"
  by (induction xs arbitrary: acc) auto

lemma computeFileLists_sets:
  assumes "computeFileLists ops = (readFiles, modifiedFiles)"
  shows "set readFiles = set (fo_read ops) - (set (fo_edited ops) \<union> set (fo_written ops))"
    and "set modifiedFiles = set (fo_edited ops) \<union> set (fo_written ops)"
    and "sorted readFiles" and "sorted modifiedFiles" and "distinct modifiedFiles"
  using assms by (auto simp: computeFileLists_def Let_def foldl_path_add)

text \<open>The files of the tool calls of messages.\<close>

fun call_path :: "assistant_block \<Rightarrow> (ustring \<times> ustring) option" where
  "call_path (AToolCall c) =
     (case property ''path'' (call_arguments c) of
        Some (JStr path) \<Rightarrow> if path = [] then None else Some (call_name c, path)
      | _ \<Rightarrow> None)"
| "call_path _ = None"

fun message_blocks :: "AgentMessage \<Rightarrow> assistant_block list" where
  "message_blocks (MAssistant m) = am_content m"
| "message_blocks _ = []"

definition touched :: "string list \<Rightarrow> AgentMessage list \<Rightarrow> ustring set" where
  "touched names ms =
     {path. \<exists>m \<in> set ms. \<exists>b \<in> set (message_blocks m). \<exists>name \<in> set names. call_path b = Some (js_lit name, path)}"

lemma block_file_ops_sets:
  "set (fo_read (block_file_ops b ops)) = set (fo_read ops) \<union> {p. call_path b = Some (js_lit ''read'', p)}"
  "set (fo_written (block_file_ops b ops)) = set (fo_written ops) \<union> {p. call_path b = Some (js_lit ''write'', p)}"
  "set (fo_edited (block_file_ops b ops)) = set (fo_edited ops) \<union> {p. call_path b = Some (js_lit ''edit'', p)}"
  by (cases b; auto simp: js_lit_def split: option.split js.split)+

lemma fold_block_file_ops_sets:
  "set (fo_read (fold block_file_ops bs ops)) = set (fo_read ops) \<union> {p. \<exists>b \<in> set bs. call_path b = Some (js_lit ''read'', p)}"
  "set (fo_written (fold block_file_ops bs ops)) = set (fo_written ops) \<union> {p. \<exists>b \<in> set bs. call_path b = Some (js_lit ''write'', p)}"
  "set (fo_edited (fold block_file_ops bs ops)) = set (fo_edited ops) \<union> {p. \<exists>b \<in> set bs. call_path b = Some (js_lit ''edit'', p)}"
  by (induction bs arbitrary: ops) (auto simp: block_file_ops_sets)

lemma extract_sets:
  "set (fo_read (extractFileOpsFromMessage m ops)) = set (fo_read ops) \<union> touched [''read''] [m]"
  "set (fo_written (extractFileOpsFromMessage m ops)) = set (fo_written ops) \<union> touched [''write''] [m]"
  "set (fo_edited (extractFileOpsFromMessage m ops)) = set (fo_edited ops) \<union> touched [''edit''] [m]"
  by (cases m; simp add: touched_def fold_block_file_ops_sets)+

lemma touched_Cons: "touched names (m # ms) = touched names [m] \<union> touched names ms"
  by (auto simp: touched_def)

lemma touched_append: "touched names (ms @ ms') = touched names ms \<union> touched names ms'"
  by (auto simp: touched_def)

lemma touched_names: "touched (x # xs) ms = touched [x] ms \<union> touched xs ms"
  by (auto simp: touched_def)

lemma touched_Nil [simp]: "touched names [] = {}"
  by (simp add: touched_def)

lemma fold_extract_sets:
  "set (fo_read (fold extractFileOpsFromMessage ms ops)) = set (fo_read ops) \<union> touched [''read''] ms"
  "set (fo_written (fold extractFileOpsFromMessage ms ops)) = set (fo_written ops) \<union> touched [''write''] ms"
  "set (fo_edited (fold extractFileOpsFromMessage ms ops)) = set (fo_edited ops) \<union> touched [''edit''] ms"
proof (induction ms arbitrary: ops)
  case (Cons m ms)
  { case 1 show ?case using Cons(1) by (subst touched_Cons) (simp add: extract_sets Un_assoc) }
  { case 2 show ?case using Cons(2) by (subst touched_Cons) (simp add: extract_sets Un_assoc) }
  { case 3 show ?case using Cons(3) by (subst touched_Cons) (simp add: extract_sets Un_assoc) }
qed simp_all

end
