(* ===== verification/Compaction.thy ===== *)
theory Compaction
  imports Session_Context Compaction_Utils
begin

text \<open>
  \<^verbatim>\<open>pi/packages/agent/src/harness/compaction/compaction.ts\<close>, the planning half: token estimates, the choice of the cut
  and the preparation of a compaction. Token counts and settings are integers; an index that the source gives as
  \<open>-1\<close> when there is none is an option.
\<close>

section \<open>Messages and files of entries\<close>

text \<open>The strings of an array stored in the details of a summary, which holds strings only.\<close>

fun detail_paths :: "js option \<Rightarrow> ustring list" where
  "detail_paths (Some (JArr vs)) = List.map_filter (\<lambda>v. case v of JStr s \<Rightarrow> Some s | _ \<Rightarrow> None) vs"
| "detail_paths _ = []"

definition add_details :: "js option \<Rightarrow> FileOperations \<Rightarrow> FileOperations" where
  "add_details details fileOps =
     (case details of
        None \<Rightarrow> fileOps
      | Some d \<Rightarrow> fileOps\<lparr>fo_read := foldl path_add (fo_read fileOps) (detail_paths (property ''readFiles'' d)),
          fo_edited := foldl path_add (fo_edited fileOps) (detail_paths (property ''modifiedFiles'' d))\<rparr>)"

definition extractFileOperations :: "AgentMessage list \<Rightarrow> Entry list \<Rightarrow> nat option \<Rightarrow> FileOperations" where
  "extractFileOperations messages entries prevCompactionIndex =
     fold extractFileOpsFromMessage messages
       (case prevCompactionIndex of
          None \<Rightarrow> createFileOps
        | Some i \<Rightarrow> (case en_body (entries ! i) of
            CompactionEntry _ _ _ details _ \<Rightarrow> add_details details createFileOps
          | _ \<Rightarrow> createFileOps))"

definition getMessageFromEntry :: "Entry \<Rightarrow> AgentMessage option" where
  "getMessageFromEntry entry =
     (case en_body entry of
        MessageEntry m _ \<Rightarrow> Some m
      | BranchSummaryEntry fromId summary _ _ \<Rightarrow>
          Some (MBranchSummary (createBranchSummaryMessage summary fromId (en_timestamp entry)))
      | CompactionEntry summary _ tokensBefore _ _ \<Rightarrow>
          Some (MCompactionSummary (createCompactionSummaryMessage summary tokensBefore (en_timestamp entry)))
      | _ \<Rightarrow> None)"

definition getMessageFromEntryForCompaction :: "Entry \<Rightarrow> AgentMessage option" where
  "getMessageFromEntryForCompaction entry = (if en_type entry = TCompaction then None else getMessageFromEntry entry)"

section \<open>Token estimates\<close>

record CompactionSettings =
  co_enabled :: bool
  co_reserveTokens :: int
  co_keepRecentTokens :: int

definition DEFAULT_COMPACTION_SETTINGS :: CompactionSettings where
  "DEFAULT_COMPACTION_SETTINGS = \<lparr>co_enabled = True, co_reserveTokens = 16384, co_keepRecentTokens = 20000\<rparr>"

definition calculateContextTokens :: "Usage \<Rightarrow> int" where
  "calculateContextTokens usage =
     (if us_totalTokens usage \<noteq> 0 then us_totalTokens usage
      else us_input usage + us_output usage + us_cacheRead usage + us_cacheWrite usage)"

fun getAssistantUsage :: "AgentMessage \<Rightarrow> Usage option" where
  "getAssistantUsage (MAssistant m) =
     (if am_stopReason m \<noteq> SAborted \<and> am_stopReason m \<noteq> SError \<and> calculateContextTokens (am_usage m) > 0
      then Some (am_usage m) else None)"
| "getAssistantUsage _ = None"

definition entry_usage :: "Entry \<Rightarrow> Usage option" where
  "entry_usage entry = (case en_body entry of MessageEntry m _ \<Rightarrow> getAssistantUsage m | _ \<Rightarrow> None)"

fun getLastAssistantUsage_from :: "Entry list \<Rightarrow> Usage option" where
  "getLastAssistantUsage_from [] = None"
| "getLastAssistantUsage_from (e # es) = (case entry_usage e of Some u \<Rightarrow> Some u | None \<Rightarrow> getLastAssistantUsage_from es)"

definition getLastAssistantUsage :: "Entry list \<Rightarrow> Usage option" where
  "getLastAssistantUsage entries = getLastAssistantUsage_from (rev entries)"

fun getLastAssistantUsageInfo :: "AgentMessage list \<Rightarrow> nat \<Rightarrow> (Usage \<times> nat) option" where
  "getLastAssistantUsageInfo messages 0 = None"
| "getLastAssistantUsageInfo messages (Suc i) =
     (case getAssistantUsage (messages ! i) of
        Some u \<Rightarrow> Some (u, i)
      | None \<Rightarrow> getLastAssistantUsageInfo messages i)"

definition ESTIMATED_IMAGE_CHARS :: nat where
  "ESTIMATED_IMAGE_CHARS = 4800"

fun block_chars :: "user_block \<Rightarrow> nat" where
  "block_chars (UText t) = length (tc_text t)"
| "block_chars (UImage _) = ESTIMATED_IMAGE_CHARS"

fun estimateTextAndImageContentChars :: "user_content \<Rightarrow> nat" where
  "estimateTextAndImageContentChars (CString s) = length s"
| "estimateTextAndImageContentChars (CBlocks bs) = sum_list (map block_chars bs)"

fun assistant_block_chars :: "assistant_block \<Rightarrow> nat" where
  "assistant_block_chars (AText t) = length (tc_text t)"
| "assistant_block_chars (AThinking t) = length (th_thinking t)"
| "assistant_block_chars (AToolCall c) = length (call_name c) + length (safeJsonStringify (call_arguments c))"

fun message_chars :: "AgentMessage \<Rightarrow> nat" where
  "message_chars (MUser m) = estimateTextAndImageContentChars (um_content m)"
| "message_chars (MAssistant m) = sum_list (map assistant_block_chars (am_content m))"
| "message_chars (MCustom m) = estimateTextAndImageContentChars (cm_content m)"
| "message_chars (MToolResult m) = estimateTextAndImageContentChars (CBlocks (tr_content m))"
| "message_chars (MBash m) = length (be_command m) + length (be_output m)"
| "message_chars (MBranchSummary m) = length (bs_summary m)"
| "message_chars (MCompactionSummary m) = length (cs_summary m)"

text \<open>\<open>Math.ceil(chars / 4)\<close>.\<close>

definition estimateTokens :: "AgentMessage \<Rightarrow> int" where
  "estimateTokens message = int ((message_chars message + 3) div 4)"

record ContextUsageEstimate =
  ce_tokens :: int
  ce_usageTokens :: int
  ce_trailingTokens :: int
  ce_lastUsageIndex :: "nat option"

definition estimateContextTokens :: "AgentMessage list \<Rightarrow> ContextUsageEstimate" where
  "estimateContextTokens messages =
     (case getLastAssistantUsageInfo messages (length messages) of
        None \<Rightarrow>
          (let estimated = sum_list (map estimateTokens messages)
           in \<lparr>ce_tokens = estimated, ce_usageTokens = 0, ce_trailingTokens = estimated, ce_lastUsageIndex = None\<rparr>)
      | Some (usage, index) \<Rightarrow>
          (let usageTokens = calculateContextTokens usage;
               trailingTokens = sum_list (map estimateTokens (drop (index + 1) messages))
           in \<lparr>ce_tokens = usageTokens + trailingTokens, ce_usageTokens = usageTokens,
               ce_trailingTokens = trailingTokens, ce_lastUsageIndex = Some index\<rparr>))"

definition shouldCompact :: "int \<Rightarrow> int \<Rightarrow> CompactionSettings \<Rightarrow> bool" where
  "shouldCompact contextTokens contextWindow settings \<longleftrightarrow>
     co_enabled settings \<and> contextTokens > contextWindow - co_reserveTokens settings"

section \<open>The cut point\<close>

fun is_tool_result :: "AgentMessage \<Rightarrow> bool" where
  "is_tool_result (MToolResult _) = True"
| "is_tool_result _ = False"

definition valid_cut :: "Entry \<Rightarrow> bool" where
  "valid_cut entry =
     (case en_body entry of
        MessageEntry m _ \<Rightarrow> \<not> is_tool_result m
      | BranchSummaryEntry _ _ _ _ \<Rightarrow> True
      | _ \<Rightarrow> False)"

definition findValidCutPoints :: "Entry list \<Rightarrow> nat \<Rightarrow> nat \<Rightarrow> nat list" where
  "findValidCutPoints entries startIndex endIndex = filter (\<lambda>i. valid_cut (entries ! i)) [startIndex..<endIndex]"

definition starts_turn :: "Entry \<Rightarrow> bool" where
  "starts_turn entry =
     (case en_body entry of
        BranchSummaryEntry _ _ _ _ \<Rightarrow> True
      | MessageEntry (MUser _) _ \<Rightarrow> True
      | MessageEntry (MBash _) _ \<Rightarrow> True
      | _ \<Rightarrow> False)"

text \<open>The loop of \<open>findTurnStartIndex\<close>, with \<open>n = i + 1\<close>.\<close>

fun turn_start_below :: "Entry list \<Rightarrow> nat \<Rightarrow> nat \<Rightarrow> nat option" where
  "turn_start_below entries startIndex 0 = None"
| "turn_start_below entries startIndex (Suc i) =
     (if i < startIndex then None
      else if starts_turn (entries ! i) then Some i
      else turn_start_below entries startIndex i)"

definition findTurnStartIndex :: "Entry list \<Rightarrow> nat \<Rightarrow> nat \<Rightarrow> nat option" where
  "findTurnStartIndex entries entryIndex startIndex = turn_start_below entries startIndex (entryIndex + 1)"

record CutPointResult =
  cp_firstKeptEntryIndex :: nat
  cp_turnStartIndex :: "nat option"
  cp_isSplitTurn :: bool

text \<open>
  The backward scan: the cut point it sets, if it sets one. \<open>n = i + 1\<close> as above.
\<close>

fun scan_cut :: "Entry list \<Rightarrow> nat list \<Rightarrow> nat \<Rightarrow> int \<Rightarrow> nat \<Rightarrow> int \<Rightarrow> nat option" where
  "scan_cut entries cutPoints startIndex keepRecentTokens 0 accumulatedTokens = None"
| "scan_cut entries cutPoints startIndex keepRecentTokens (Suc i) accumulatedTokens =
     (if i < startIndex then None
      else case en_body (entries ! i) of
        MessageEntry m _ \<Rightarrow>
          (let accumulatedTokens' = accumulatedTokens + estimateTokens m
           in if accumulatedTokens' \<ge> keepRecentTokens then find (\<lambda>c. c \<ge> i) cutPoints
              else scan_cut entries cutPoints startIndex keepRecentTokens i accumulatedTokens')
      | _ \<Rightarrow> scan_cut entries cutPoints startIndex keepRecentTokens i accumulatedTokens)"

text \<open>The loop that moves the cut before the entries that are neither messages nor compactions.\<close>

fun back_up :: "Entry list \<Rightarrow> nat \<Rightarrow> nat \<Rightarrow> nat" where
  "back_up entries startIndex 0 = 0"
| "back_up entries startIndex (Suc c) =
     (if Suc c > startIndex \<and> en_type (entries ! c) \<noteq> TCompaction \<and> en_type (entries ! c) \<noteq> TMessage
      then back_up entries startIndex c else Suc c)"

definition is_user_entry :: "Entry \<Rightarrow> bool" where
  "is_user_entry entry = (case en_body entry of MessageEntry (MUser _) _ \<Rightarrow> True | _ \<Rightarrow> False)"

definition findCutPoint :: "Entry list \<Rightarrow> nat \<Rightarrow> nat \<Rightarrow> int \<Rightarrow> CutPointResult" where
  "findCutPoint entries startIndex endIndex keepRecentTokens =
     (let cutPoints = findValidCutPoints entries startIndex endIndex
      in if cutPoints = []
         then \<lparr>cp_firstKeptEntryIndex = startIndex, cp_turnStartIndex = None, cp_isSplitTurn = False\<rparr>
         else
           (let found = (case scan_cut entries cutPoints startIndex keepRecentTokens endIndex 0 of
                  Some c \<Rightarrow> c | None \<Rightarrow> hd cutPoints);
                cutIndex = back_up entries startIndex found;
                isUserMessage = is_user_entry (entries ! cutIndex);
                turnStartIndex = (if isUserMessage then None else findTurnStartIndex entries cutIndex startIndex)
            in \<lparr>cp_firstKeptEntryIndex = cutIndex, cp_turnStartIndex = turnStartIndex,
                cp_isSplitTurn = (\<not> isUserMessage \<and> turnStartIndex \<noteq> None)\<rparr>))"

section \<open>Preparation\<close>

record CompactionPreparation =
  pr_messagesToSummarize :: "AgentMessage list"
  pr_turnPrefixMessages :: "AgentMessage list"
  pr_retainedTail :: "AgentMessage list"
  pr_isSplitTurn :: bool
  pr_tokensBefore :: int
  pr_previousSummary :: "ustring option"
  pr_fileOps :: FileOperations
  pr_settings :: CompactionSettings

datatype CompactionErrorCode = CAborted | CSummarizationFailed

datatype CompactionError = CompactionError CompactionErrorCode ustring

fun message_timestamp :: "AgentMessage \<Rightarrow> int" where
  "message_timestamp (MUser m) = um_timestamp m"
| "message_timestamp (MAssistant m) = am_timestamp m"
| "message_timestamp (MToolResult m) = tr_timestamp m"
| "message_timestamp (MBash m) = be_timestamp m"
| "message_timestamp (MCustom m) = cm_timestamp m"
| "message_timestamp (MBranchSummary m) = bs_timestamp m"
| "message_timestamp (MCompactionSummary m) = cs_timestamp m"

definition retained_id :: "Entry \<Rightarrow> nat \<Rightarrow> ustring" where
  "retained_id prevCompaction index = en_id prevCompaction @ js_lit '':retained:'' @ nat_text index"

definition virtual_entry :: "Entry \<Rightarrow> nat \<times> AgentMessage \<Rightarrow> Entry" where
  "virtual_entry prevCompaction im =
     (case im of (index, message) \<Rightarrow>
        \<lparr>en_id = retained_id prevCompaction index, en_seq = en_seq prevCompaction,
         en_parentId = Some (if index = 0 then en_id prevCompaction else retained_id prevCompaction (index - 1)),
         en_timestamp = message_timestamp message, en_body = MessageEntry message False\<rparr>)"

text \<open>The entries since the last compaction, with its retained tail before them, and its summary.\<close>

definition compactable :: "Entry list \<Rightarrow> ustring option \<times> Entry list" where
  "compactable pathEntries =
     (case last_compaction pathEntries (length pathEntries) of
        None \<Rightarrow> (None, pathEntries)
      | Some i \<Rightarrow>
          (case en_body (pathEntries ! i) of
             CompactionEntry summary retainedTail _ _ _ \<Rightarrow>
               (Some summary, map (virtual_entry (pathEntries ! i)) (enumerate 0 retainedTail) @ drop (i + 1) pathEntries)
           | _ \<Rightarrow> (None, pathEntries)))"

definition entry_messages :: "Entry list \<Rightarrow> nat \<Rightarrow> nat \<Rightarrow> AgentMessage list" where
  "entry_messages entries from til = List.map_filter (\<lambda>i. getMessageFromEntryForCompaction (entries ! i)) [from..<til]"

definition prepareCompaction :: "Entry list \<Rightarrow> CompactionSettings \<Rightarrow> CompactionError + CompactionPreparation option" where
  "prepareCompaction pathEntries settings =
     (if pathEntries = [] \<or> en_type (last pathEntries) = TCompaction then Inr None
      else
        (let prevCompactionIndex = last_compaction pathEntries (length pathEntries);
             (previousSummary, compactableEntries) = compactable pathEntries;
             boundaryEnd = length compactableEntries;
             tokensBefore = ce_tokens (estimateContextTokens (sc_messages (buildSessionContext pathEntries no_build_options)));
             cutPoint = findCutPoint compactableEntries 0 boundaryEnd (co_keepRecentTokens settings);
             firstKept = cp_firstKeptEntryIndex cutPoint;
             historyEnd = (if cp_isSplitTurn cutPoint then the (cp_turnStartIndex cutPoint) else firstKept);
             messagesToSummarize = entry_messages compactableEntries 0 historyEnd;
             turnPrefixMessages = (if cp_isSplitTurn cutPoint then entry_messages compactableEntries historyEnd firstKept else []);
             retainedTail = entry_messages compactableEntries firstKept boundaryEnd;
             fileOps = extractFileOperations messagesToSummarize pathEntries prevCompactionIndex;
             fileOps' = (if cp_isSplitTurn cutPoint then fold extractFileOpsFromMessage turnPrefixMessages fileOps else fileOps)
         in Inr (Some \<lparr>pr_messagesToSummarize = messagesToSummarize, pr_turnPrefixMessages = turnPrefixMessages,
              pr_retainedTail = retainedTail, pr_isSplitTurn = cp_isSplitTurn cutPoint, pr_tokensBefore = tokensBefore,
              pr_previousSummary = previousSummary, pr_fileOps = fileOps', pr_settings = settings\<rparr>)))"

end
