(* ===== verification/Compaction_Props.thy ===== *)
theory Compaction_Props
  imports Compaction
begin

text \<open>
  What a compaction keeps: the choice of the cut against a declarative description, the pairing of tool calls and
  results, and the context before and after.
\<close>

text \<open>Entries whose message the context shows: not a deferred response and not an empty branch summary.\<close>

definition shown :: "Entry \<Rightarrow> bool" where
  "shown e = (case en_body e of
     MessageEntry (MAssistant a) _ \<Rightarrow> am_stopReason a \<noteq> SDeferred
   | BranchSummaryEntry _ summary _ _ \<Rightarrow> summary \<noteq> []
   | _ \<Rightarrow> True)"

section \<open>A path with a tool call\<close>

definition ex_assistant :: "assistant_block list \<Rightarrow> AssistantMessage" where
  "ex_assistant content = \<lparr>am_content = content, am_api = [], am_provider = [], am_model = [], am_responseModel = None,
     am_responseId = None, am_diagnostics = None, am_usage = \<lparr>us_input = 0, us_output = 0, us_cacheRead = 0,
     us_cacheWrite = 0, us_cacheWrite1h = None, us_reasoning = None, us_totalTokens = 0, us_cost = \<lparr>uc_input = NInt 0,
     uc_output = NInt 0, uc_cacheRead = NInt 0, uc_cacheWrite = NInt 0, uc_total = NInt 0\<rparr>\<rparr>, am_stopReason = SToolUse,
     am_deferred = None, am_errorMessage = None, am_rawStopReason = None, am_endTurn = None, am_timestamp = 0\<rparr>"

definition ex_call :: ToolCall where
  "ex_call = \<lparr>call_id = js_lit ''1'', call_name = js_lit ''edit'',
     call_arguments = JObj ObjectProto False [(js_lit ''path'', JStr (js_lit ''f''))],
     call_thoughtSignature = None, call_namespace = None\<rparr>"

definition ex_result :: ToolResultMessage where
  "ex_result = \<lparr>tr_toolCallId = js_lit ''1'', tr_toolName = js_lit ''edit'',
     tr_content = [UText \<lparr>tc_text = js_lit ''done'', tc_textSignature = None\<rparr>],
     tr_details = None, tr_usage = None, tr_addedToolNames = None, tr_isError = False, tr_timestamp = 0\<rparr>"

definition ex_path :: "Entry list" where
  "ex_path = [ex_entry ''ask'' 1 None,
     (ex_entry ''call'' 2 (Some (js_lit ''ask'')))\<lparr>en_body := MessageEntry (MAssistant (ex_assistant [AToolCall ex_call])) False\<rparr>,
     (ex_entry ''result'' 3 (Some (js_lit ''call'')))\<lparr>en_body := MessageEntry (MToolResult ex_result) False\<rparr>,
     ex_entry ''next'' 4 (Some (js_lit ''result''))]"

definition ex_settings :: CompactionSettings where
  "ex_settings = \<lparr>co_enabled = True, co_reserveTokens = 0, co_keepRecentTokens = 2\<rparr>"

definition ex_compaction :: Entry where
  "ex_compaction = (ex_entry ''sum'' 5 (Some (js_lit ''next'')))\<lparr>en_body := CompactionEntry (js_lit ''sum'') [ex_user ''next''] 7 None None\<rparr>"

lemma ex_path_cut:
  "findCutPoint ex_path 0 4 2 = \<lparr>cp_firstKeptEntryIndex = 3, cp_turnStartIndex = None, cp_isSplitTurn = False\<rparr>"
  by code_simp

lemma ex_path_prepared:
  obtains p where "prepareCompaction ex_path ex_settings = Inr (Some p)" and "pr_retainedTail p = [ex_user ''next'']"
proof -
  have "case prepareCompaction ex_path ex_settings of Inr (Some p) \<Rightarrow> pr_retainedTail p = [ex_user ''next''] | _ \<Rightarrow> False"
    by code_simp
  then show thesis using that by (auto split: sum.splits option.splits)
qed

lemma ex_path_shown: "\<forall>e \<in> set ex_path. shown e"
  by (simp add: ex_path_def ex_entry_def ex_user_def shown_def ex_assistant_def)

section \<open>The cut point\<close>

text \<open>The estimated tokens of the message entries from an index on.\<close>

definition entry_tokens :: "Entry \<Rightarrow> int" where
  "entry_tokens entry = (case en_body entry of MessageEntry m _ \<Rightarrow> estimateTokens m | _ \<Rightarrow> 0)"

definition kept_tokens :: "Entry list \<Rightarrow> nat \<Rightarrow> int" where
  "kept_tokens entries i = sum_list (map entry_tokens (drop i entries))"

lemma entry_tokens_nonneg: "0 \<le> entry_tokens e"
  by (simp add: entry_tokens_def estimateTokens_def split: entry_body.split)

lemma kept_tokens_step: "i < length es \<Longrightarrow> kept_tokens es i = entry_tokens (es ! i) + kept_tokens es (Suc i)"
  unfolding kept_tokens_def by (metis Cons_nth_drop_Suc list.simps(9) sum_list.Cons)

lemma kept_tokens_antimono: "i \<le> j \<Longrightarrow> kept_tokens es j \<le> kept_tokens es i"
proof (induction rule: dec_induct)
  case (step n)
  have "kept_tokens es (Suc n) \<le> kept_tokens es n"
  proof (cases "n < length es")
    case True
    then show ?thesis using kept_tokens_step [OF True] entry_tokens_nonneg [of "es ! n"] by simp
  qed (simp add: kept_tokens_def)
  with step show ?case by simp
qed simp

lemma find_cong_set: "(\<And>x. x \<in> set xs \<Longrightarrow> P x = Q x) \<Longrightarrow> find P xs = find Q xs"
  by (induction xs) auto

text \<open>
  The scan sets the first cut point whose strictly younger messages fit into the budget, given that the messages
  after the scanned position do.
\<close>

lemma scan_cut_find:
  assumes "n \<le> length es" and "kept_tokens es n < keep" and "\<forall>c \<in> set cps. start \<le> c"
  shows "scan_cut es cps start keep n (kept_tokens es n) =
    (if kept_tokens es start < keep then None else find (\<lambda>c. kept_tokens es (Suc c) < keep) cps)"
  using assms(1,2)
proof (induction n)
  case 0
  then show ?case using kept_tokens_antimono [of 0 start es] by simp
next
  case (Suc i)
  have step: "kept_tokens es i = entry_tokens (es ! i) + kept_tokens es (Suc i)"
    using kept_tokens_step Suc.prems(1) by simp
  show ?case
  proof (cases "i < start")
    case True
    then show ?thesis using kept_tokens_antimono [of "Suc i" start es] Suc.prems(2) by simp
  next
    case in_range: False
    show ?thesis
    proof (cases "kept_tokens es i < keep")
      case True
      then have "scan_cut es cps start keep (Suc i) (kept_tokens es (Suc i)) = scan_cut es cps start keep i (kept_tokens es i)"
        using in_range step by (simp add: entry_tokens_def algebra_simps Let_def split: entry_body.splits)
      with Suc True show ?thesis by simp
    next
      case False
      then obtain m t where m: "en_body (es ! i) = MessageEntry m t"
        using step Suc.prems(2) by (auto simp: entry_tokens_def split: entry_body.splits)
      have "find (\<lambda>c. c \<ge> i) cps = find (\<lambda>c. kept_tokens es (Suc c) < keep) cps"
      proof (rule find_cong_set)
        fix c
        show "(i \<le> c) = (kept_tokens es (Suc c) < keep)"
          using kept_tokens_antimono [of "Suc i" "Suc c" es] kept_tokens_antimono [of "Suc c" i es] False Suc.prems(2)
          by (cases "i \<le> c") auto
      qed
      moreover have "\<not> kept_tokens es start < keep"
        using kept_tokens_antimono [of start i es] False in_range by simp
      ultimately show ?thesis
        using in_range m False step by (simp add: entry_tokens_def algebra_simps Let_def)
    qed
  qed
qed

text \<open>The cut point that is chosen, before it is moved back.\<close>

definition chosen_cut :: "Entry list \<Rightarrow> int \<Rightarrow> nat \<Rightarrow> bool" where
  "chosen_cut es keep c \<longleftrightarrow>
     (let fits = (\<lambda>j. j < length es \<and> valid_cut (es ! j) \<and> kept_tokens es (Suc j) < keep)
      in c < length es \<and> valid_cut (es ! c) \<and> (if \<exists>j. fits j then fits c \<and> (\<forall>j < c. \<not> fits j) else \<forall>j < c. \<not> valid_cut (es ! j)))"

lemma hd_filter_upt:
  assumes "filter P [0..<n] = c # cs"
  shows "c < n \<and> P c \<and> (\<forall>j < c. \<not> P j)"
proof -
  have c: "c \<in> set (filter P [0..<n])" using assms by simp
  have "sorted (c # cs)" by (metis assms sorted_wrt_filter sorted_upt)
  then have least: "c \<le> j" if "j \<in> set (filter P [0..<n])" for j using that by (auto simp: assms)
  have "\<not> P j" if "j < c" for j
    using that least [of j] c by auto
  with c show ?thesis by simp
qed

lemma find_filter: "find P xs = (case filter P xs of [] \<Rightarrow> None | x # _ \<Rightarrow> Some x)"
  by (induction xs) auto

lemma chosen_cut_found:
  assumes "0 < keep" and "findValidCutPoints es 0 (length es) \<noteq> []"
  shows "chosen_cut es keep (case scan_cut es (findValidCutPoints es 0 (length es)) 0 keep (length es) 0 of
    Some c \<Rightarrow> c | None \<Rightarrow> hd (findValidCutPoints es 0 (length es)))" (is "chosen_cut es keep ?c")
proof -
  let ?cps = "findValidCutPoints es 0 (length es)"
  let ?P = "\<lambda>c. kept_tokens es (Suc c) < keep"
  have sc: "scan_cut es ?cps 0 keep (length es) 0 = (if kept_tokens es 0 < keep then None else find ?P ?cps)"
    using scan_cut_find [of "length es" es keep ?cps 0] assms(1) by (simp add: kept_tokens_def)
  obtain c0 cs where c0: "?cps = c0 # cs" using assms(2) by (cases ?cps) auto
  have first: "c0 < length es" "valid_cut (es ! c0)" "\<forall>j < c0. \<not> valid_cut (es ! j)"
    using hd_filter_upt [OF c0 [unfolded findValidCutPoints_def]] by blast+
  show ?thesis
  proof (cases "kept_tokens es 0 < keep")
    case True
    then have "?P j" for j using kept_tokens_antimono [of 0 "Suc j" es] by simp
    moreover have "?c = c0" unfolding sc by (simp add: True c0)
    ultimately show ?thesis using first by (auto simp: chosen_cut_def Let_def)
  next
    case False
    show ?thesis
    proof (cases "filter ?P ?cps")
      case Nil
      then have "\<forall>j < length es. valid_cut (es ! j) \<longrightarrow> \<not> ?P j"
        by (auto simp: filter_empty_conv findValidCutPoints_def)
      moreover have "?c = c0" unfolding sc find_filter Nil by (simp add: False c0)
      ultimately show ?thesis using first by (auto simp: chosen_cut_def Let_def)
    next
      case (Cons c cs')
      have "filter (\<lambda>j. valid_cut (es ! j) \<and> ?P j) [0..<length es] = c # cs'"
        using Cons by (simp add: findValidCutPoints_def conj_commute)
      from hd_filter_upt [OF this] show ?thesis
        unfolding sc find_filter Cons using False by (auto simp: chosen_cut_def Let_def)
    qed
  qed
qed

text \<open>Moving back stops right after a message or a compaction, or at the start.\<close>

abbreviation cut_barrier :: "Entry \<Rightarrow> bool" where
  "cut_barrier e \<equiv> en_type e = TMessage \<or> en_type e = TCompaction"

lemma back_up_spec:
  "start \<le> c \<Longrightarrow> start \<le> back_up es start c \<and> back_up es start c \<le> c \<and>
     (\<forall>j. back_up es start c \<le> j \<and> j < c \<longrightarrow> \<not> cut_barrier (es ! j)) \<and>
     (back_up es start c = start \<or> cut_barrier (es ! (back_up es start c - 1)))"
proof (induction c)
  case (Suc c)
  then show ?case by (auto simp: less_Suc_eq le_Suc_eq)
qed simp

lemma turn_start_below_iff:
  "turn_start_below es start n = Some t \<longleftrightarrow>
     start \<le> t \<and> t < n \<and> starts_turn (es ! t) \<and> (\<forall>j. t < j \<and> j < n \<longrightarrow> \<not> starts_turn (es ! j))"
proof (induction n)
  case (Suc n)
  show ?case
    by (cases "n < start"; cases "starts_turn (es ! n)") (auto simp: Suc less_Suc_eq)
qed simp

lemma turn_start_below_none:
  "turn_start_below es start n = None \<longleftrightarrow> (\<forall>j. start \<le> j \<and> j < n \<longrightarrow> \<not> starts_turn (es ! j))"
proof (induction n)
  case (Suc n)
  show ?case
  proof (cases "start \<le> n \<and> starts_turn (es ! n)")
    case True
    then show ?thesis using lessI by auto
  qed (auto simp: Suc less_Suc_eq)
qed simp

lemma findTurnStartIndex_iff:
  "findTurnStartIndex es k 0 = Some t \<longleftrightarrow>
     t \<le> k \<and> starts_turn (es ! t) \<and> (\<forall>j. t < j \<and> j \<le> k \<longrightarrow> \<not> starts_turn (es ! j))"
  "findTurnStartIndex es k 0 = None \<longleftrightarrow> (\<forall>j \<le> k. \<not> starts_turn (es ! j))"
  unfolding findTurnStartIndex_def turn_start_below_iff turn_start_below_none by (simp_all add: less_Suc_eq_le)

lemma findCutPoint_spec_lemma:
  assumes "0 < keep" and "i < length es" and "valid_cut (es ! i)"
  shows "\<exists>c. chosen_cut es keep c \<and>
    (let r = findCutPoint es 0 (length es) keep; k = cp_firstKeptEntryIndex r
     in k \<le> c \<and> (\<forall>j. k \<le> j \<and> j < c \<longrightarrow> \<not> cut_barrier (es ! j)) \<and> (k = 0 \<or> cut_barrier (es ! (k - 1))) \<and>
       cp_isSplitTurn r = (\<not> is_user_entry (es ! k) \<and> (\<exists>j \<le> k. starts_turn (es ! j))) \<and>
       (cp_isSplitTurn r \<longrightarrow> (\<exists>t. cp_turnStartIndex r = Some t \<and> t \<le> k \<and> starts_turn (es ! t) \<and>
          (\<forall>j. t < j \<and> j \<le> k \<longrightarrow> \<not> starts_turn (es ! j)))))"
proof -
  let ?cps = "findValidCutPoints es 0 (length es)"
  let ?c = "case scan_cut es ?cps 0 keep (length es) 0 of Some c \<Rightarrow> c | None \<Rightarrow> hd ?cps"
  have ne: "?cps \<noteq> []" using assms(2,3) by (auto simp: findValidCutPoints_def filter_empty_conv)
  obtain c where c: "?c = c" by blast
  let ?k = "back_up es 0 c"
  have r: "findCutPoint es 0 (length es) keep = \<lparr>cp_firstKeptEntryIndex = ?k,
      cp_turnStartIndex = (if is_user_entry (es ! ?k) then None else findTurnStartIndex es ?k 0),
      cp_isSplitTurn = (\<not> is_user_entry (es ! ?k) \<and> findTurnStartIndex es ?k 0 \<noteq> None)\<rparr>"
    unfolding findCutPoint_def Let_def c using ne by auto
  have "chosen_cut es keep c" using chosen_cut_found [OF assms(1) ne] by (simp only: c)
  moreover have "findTurnStartIndex es ?k 0 \<noteq> None \<longleftrightarrow> (\<exists>j \<le> ?k. starts_turn (es ! j))"
    by (auto simp: findTurnStartIndex_iff)
  moreover have "\<exists>t. findTurnStartIndex es ?k 0 = Some t \<and> t \<le> ?k \<and> starts_turn (es ! t) \<and>
      (\<forall>j. t < j \<and> j \<le> ?k \<longrightarrow> \<not> starts_turn (es ! j))" if "findTurnStartIndex es ?k 0 \<noteq> None"
    using that findTurnStartIndex_iff(1) by auto
  ultimately show ?thesis
    using back_up_spec [of 0 c es] unfolding r Let_def
    by (intro exI [of _ c]) simp
qed



text \<open>
  When the messages after every cut point exceed the budget, as after one large tool result, the cut falls back to the
  oldest cut point: a transcript that starts with a user message is retained whole, and nothing is compacted.
\<close>

lemma oversized_tail_keeps_everything:
  assumes "0 < keep" and "es \<noteq> []" and "valid_cut (es ! 0)"
    and "\<forall>c < length es. valid_cut (es ! c) \<longrightarrow> keep \<le> kept_tokens es (Suc c)"
  shows "cp_firstKeptEntryIndex (findCutPoint es 0 (length es) keep) = 0"
proof -
  obtain c where "chosen_cut es keep c" "cp_firstKeptEntryIndex (findCutPoint es 0 (length es) keep) \<le> c"
    using findCutPoint_spec_lemma [of keep 0 es] assms(1-3) by (auto simp: Let_def)
  moreover have "\<nexists>j. j < length es \<and> valid_cut (es ! j) \<and> kept_tokens es (Suc j) < keep" using assms(4) by force
  with \<open>chosen_cut es keep c\<close> have "\<forall>j < c. \<not> valid_cut (es ! j)" unfolding chosen_cut_def Let_def by (simp only: if_False, elim conjE)
  with assms(3) have "c = 0" by (cases c) auto
  ultimately show ?thesis by simp
qed

section \<open>Tool calls and results\<close>

text \<open>
  Every tool result answers a call of the last message before it that is not a tool result; \<open>ids\<close> are the calls that are
  open at the start.
\<close>

fun paired :: "ustring set \<Rightarrow> AgentMessage list \<Rightarrow> bool" where
  "paired ids [] = True"
| "paired ids (MToolResult r # ms) = (tr_toolCallId r \<in> ids \<and> paired ids ms)"
| "paired ids (MAssistant a # ms) = paired (set (map call_id (tool_calls a))) ms"
| "paired ids (_ # ms) = paired {} ms"

lemma paired_suffix:
  assumes "paired ids (xs @ ys)" and "ys \<noteq> [] \<Longrightarrow> \<not> is_tool_result (hd ys)"
  shows "paired {} ys"
  using assms
proof (induction xs arbitrary: ids)
  case Nil
  then show ?case by (cases "({} :: ustring set, ys)" rule: paired.cases) auto
next
  case (Cons x xs)
  then show ?case by (cases x) auto
qed

lemma entry_messages_append:
  "i \<le> j \<Longrightarrow> j \<le> k \<Longrightarrow> entry_messages es i k = entry_messages es i j @ entry_messages es j k"
  using upt_add_eq_append [of i j "k - j"] by (simp add: entry_messages_def List.map_filter_def)

lemma entry_messages_Cons:
  "i < k \<Longrightarrow> entry_messages es i k =
     (case getMessageFromEntryForCompaction (es ! i) of None \<Rightarrow> [] | Some m \<Rightarrow> [m]) @ entry_messages es (Suc i) k"
  by (simp add: entry_messages_def upt_conv_Cons map_filter_Cons split: option.split)

lemma entry_messages_Nil [simp]: "entry_messages es k k = []"
  by (simp add: entry_messages_def List.map_filter_def)

text \<open>The messages from a cut on do not start with a tool result.\<close>

lemma cut_not_at_result:
  assumes "k \<le> c" and "c < n" and "valid_cut (es ! c)" and "\<forall>j. k \<le> j \<and> j < c \<longrightarrow> \<not> cut_barrier (es ! j)"
  shows "entry_messages es k n \<noteq> [] \<and> \<not> is_tool_result (hd (entry_messages es k n))"
  using assms(1,4)
proof (induction k rule: inc_induct)
  case base
  obtain m where "getMessageFromEntryForCompaction (es ! c) = Some m" "\<not> is_tool_result m"
    using assms(3) by (auto simp: valid_cut_def getMessageFromEntryForCompaction_def getMessageFromEntry_def split: entry_body.splits)
  then show ?case using assms(2) by (simp add: entry_messages_Cons)
next
  case (step k)
  have "\<not> cut_barrier (es ! k)" using step.hyps step.prems by auto
  then have "case getMessageFromEntryForCompaction (es ! k) of None \<Rightarrow> True | Some m \<Rightarrow> \<not> is_tool_result m"
    by (auto simp: getMessageFromEntryForCompaction_def getMessageFromEntry_def split: entry_body.splits option.splits)
  moreover have "entry_messages es (Suc k) n \<noteq> [] \<and> \<not> is_tool_result (hd (entry_messages es (Suc k) n))"
    using step.IH step.prems by auto
  moreover have "k < n" using step.hyps assms(2) by simp
  ultimately show ?case by (auto simp: entry_messages_Cons split: option.splits)
qed

text \<open>Whatever the budget, the cut is one of the cut points, moved back.\<close>

lemma scan_cut_mem: "scan_cut es cps start keep n acc = Some c \<Longrightarrow> c \<in> set cps"
proof (induction n arbitrary: acc)
  case (Suc n)
  then show ?case by (auto simp: Let_def find_Some_iff split: if_splits entry_body.splits)
qed simp

lemma findCutPoint_cases:
  obtains (none) "findCutPoint es 0 n keep = \<lparr>cp_firstKeptEntryIndex = 0, cp_turnStartIndex = None, cp_isSplitTurn = False\<rparr>"
  | (cut) c where "c < n" and "valid_cut (es ! c)" and "cp_firstKeptEntryIndex (findCutPoint es 0 n keep) = back_up es 0 c"
      and "cp_isSplitTurn (findCutPoint es 0 n keep) \<Longrightarrow>
        \<exists>t. cp_turnStartIndex (findCutPoint es 0 n keep) = Some t \<and> t \<le> back_up es 0 c"
proof (cases "findValidCutPoints es 0 n = []")
  case True
  then show ?thesis using none by (simp add: findCutPoint_def)
next
  case False
  let ?cps = "findValidCutPoints es 0 n"
  let ?c = "case scan_cut es ?cps 0 keep n 0 of Some c \<Rightarrow> c | None \<Rightarrow> hd ?cps"
  have "?c \<in> set ?cps" using False scan_cut_mem by (auto split: option.split)
  then have "?c < n" "valid_cut (es ! ?c)" by (auto simp: findValidCutPoints_def)
  then show ?thesis
    using False by (intro cut [of ?c]) (auto simp: findCutPoint_def Let_def findTurnStartIndex_iff)
qed

lemma findCutPoint_tail:
  fixes es n keep
  defines "k \<equiv> cp_firstKeptEntryIndex (findCutPoint es 0 n keep)"
  shows "k \<le> n" and "k = 0 \<or> \<not> is_tool_result (hd (entry_messages es k n))"
    and "cp_isSplitTurn (findCutPoint es 0 n keep) \<Longrightarrow> \<exists>t. cp_turnStartIndex (findCutPoint es 0 n keep) = Some t \<and> t \<le> k"
proof -
  have "back_up es 0 c \<le> c" for c using back_up_spec [of 0 c es] by simp
  then show "k \<le> n"
    unfolding k_def by (cases rule: findCutPoint_cases [of es n keep]) (auto intro: order_trans [OF _ less_imp_le])
  show "k = 0 \<or> \<not> is_tool_result (hd (entry_messages es k n))"
    unfolding k_def
  proof (cases rule: findCutPoint_cases [of es n keep])
    case (cut c)
    then show "cp_firstKeptEntryIndex (findCutPoint es 0 n keep) = 0 \<or>
        \<not> is_tool_result (hd (entry_messages es (cp_firstKeptEntryIndex (findCutPoint es 0 n keep)) n))"
      using cut_not_at_result [of "back_up es 0 c" c n es] back_up_spec [of 0 c es] by simp
  qed simp
  show "\<exists>t. cp_turnStartIndex (findCutPoint es 0 n keep) = Some t \<and> t \<le> k" if "cp_isSplitTurn (findCutPoint es 0 n keep)"
    unfolding k_def using that by (cases rule: findCutPoint_cases [of es n keep]) auto
qed

section \<open>The context before and after\<close>

lemma shown_messages:
  assumes "shown e" and "en_type e \<noteq> TCompaction"
  shows "sessionEntryToContextMessages no_build_options e i es =
    (case getMessageFromEntryForCompaction e of None \<Rightarrow> [] | Some m \<Rightarrow> [m])"
  using assms
  by (auto simp: shown_def sessionEntryToContextMessages_def getMessageFromEntryForCompaction_def getMessageFromEntry_def
      no_build_options_def split: entry_body.splits AgentMessage.splits)

lemma concat_shown:
  assumes "\<forall>e \<in> set es. shown e \<and> en_type e \<noteq> TCompaction"
  shows "concat (map (\<lambda>e. sessionEntryToContextMessages no_build_options e 0 []) es) =
    List.map_filter getMessageFromEntryForCompaction es"
  using assms
  by (induction es) (auto simp: shown_messages map_filter_Cons List.map_filter_def split: option.split)

lemma entry_messages_all: "entry_messages es 0 (length es) = List.map_filter getMessageFromEntryForCompaction es"
proof -
  have "List.map_filter (\<lambda>i. f (es ! i)) [0..<n] = List.map_filter f (take n es)" if "n \<le> length es" for n and f :: "Entry \<Rightarrow> AgentMessage option"
    using that by (induction n) (auto simp: List.map_filter_def take_Suc_conv_app_nth)
  then show ?thesis by (simp add: entry_messages_def)
qed

lemma map_filter_virtual:
  "List.map_filter getMessageFromEntryForCompaction (map (virtual_entry c) (enumerate n ms)) = ms"
  by (induction ms arbitrary: n)
    (simp_all add: virtual_entry_def getMessageFromEntryForCompaction_def getMessageFromEntry_def map_filter_Cons List.map_filter_def)

definition summary_prefix :: "Entry list \<Rightarrow> AgentMessage list" where
  "summary_prefix path = (case last_compaction path (length path) of
     None \<Rightarrow> []
   | Some i \<Rightarrow> (case en_body (path ! i) of
       CompactionEntry summary _ tokensBefore _ _ \<Rightarrow>
         [MCompactionSummary (createCompactionSummaryMessage summary tokensBefore (en_timestamp (path ! i)))]
     | _ \<Rightarrow> []))"

text \<open>The context of a path is the last summary and the messages of the compactable entries.\<close>

lemma context_compactable:
  assumes "\<forall>e \<in> set path. shown e"
  shows "sc_messages (buildSessionContext path no_build_options) =
    summary_prefix path @ List.map_filter getMessageFromEntryForCompaction (snd (compactable path))"
proof (cases "last_compaction path (length path)")
  case None
  then have "\<forall>e \<in> set path. shown e \<and> en_type e \<noteq> TCompaction"
    using assms by (auto simp: last_compaction_none in_set_conv_nth)
  with None show ?thesis
    by (simp add: default_context_messages defaultContextEntryTransform_def summary_prefix_def compactable_def concat_shown)
next
  case (Some i)
  note l = last_compaction_some [OF Some]
  then obtain summary tail tokens details usage where c: "en_body (path ! i) = CompactionEntry summary tail tokens details usage"
    by (cases "en_body (path ! i)") auto
  have "\<forall>e \<in> set (drop (i + 1) path). shown e \<and> en_type e \<noteq> TCompaction"
    using assms l by (auto simp: in_set_conv_nth dest: in_set_dropD nth_mem [of "Suc (i + _)" path])
  from concat_shown [OF this] Some c show ?thesis
    by (simp add: default_context_messages defaultContextEntryTransform_def summary_prefix_def compactable_def
        sessionEntryToContextMessages_def map_filter_append map_filter_virtual)
qed

lemma prepared_parts:
  assumes "prepareCompaction path settings = Inr (Some p)"
  defines "es \<equiv> snd (compactable path)"
  obtains k where "k \<le> length es" and "k = 0 \<or> \<not> is_tool_result (hd (entry_messages es k (length es)))"
    and "pr_messagesToSummarize p @ pr_turnPrefixMessages p = entry_messages es 0 k"
    and "pr_retainedTail p = entry_messages es k (length es)"
    and "pr_previousSummary p = fst (compactable path)"
proof -
  let ?cp = "findCutPoint es 0 (length es) (co_keepRecentTokens settings)"
  let ?k = "cp_firstKeptEntryIndex ?cp"
  note t = findCutPoint_tail [of es "length es" "co_keepRecentTokens settings"]
  have "pr_messagesToSummarize p @ pr_turnPrefixMessages p = entry_messages es 0 ?k"
    "pr_retainedTail p = entry_messages es ?k (length es)" "pr_previousSummary p = fst (compactable path)"
    using assms(1) t(3) entry_messages_append [of 0 "the (cp_turnStartIndex ?cp)" ?k es]
    by (auto simp: prepareCompaction_def Let_def es_def split: if_splits prod.splits)
  with that t(1,2) show ?thesis by blast
qed

lemma prepared_whole:
  assumes "prepareCompaction path settings = Inr (Some p)"
  shows "pr_messagesToSummarize p @ pr_turnPrefixMessages p @ pr_retainedTail p =
      List.map_filter getMessageFromEntryForCompaction (snd (compactable path))"
  using prepared_parts [OF assms] entry_messages_append entry_messages_all by (metis append_assoc le0)

lemma paired_tail:
  assumes "prepareCompaction path settings = Inr (Some p)"
    and "paired {} (pr_messagesToSummarize p @ pr_turnPrefixMessages p @ pr_retainedTail p)"
  shows "paired {} (pr_retainedTail p)"
proof (cases rule: prepared_parts [OF assms(1)])
  case (1 k)
  show ?thesis
  proof (cases "k = 0")
    case True
    with 1(3) assms(2) show ?thesis by simp
  next
    case False
    with 1(2,4) have "\<not> is_tool_result (hd (pr_retainedTail p))" by simp
    with assms(2) show ?thesis
      by (metis append_assoc paired_suffix)
  qed
qed

lemma context_after_compaction:
  assumes "en_body entry = CompactionEntry summary tail tokens details usage"
  shows "sc_messages (buildSessionContext (path @ [entry]) no_build_options) =
    MCompactionSummary (createCompactionSummaryMessage summary tokens (en_timestamp entry)) # tail"
  using transform_compaction [of entry "[]" path] assms
  by (simp add: default_context_messages sessionEntryToContextMessages_def)





end
