(* ===== verification/Retry.thy ===== *)
theory Retry
  imports Messages
begin

text \<open>
  \<^verbatim>\<open>pi/packages/ai/src/utils/retry.ts\<close>: the classification of provider errors and the bounded retry loop. The produced
  calls, the sleeping and the callbacks act on surroundings \<open>'w\<close>; the notifications sent so far are recorded.
\<close>

section \<open>Error patterns\<close>

text \<open>
  The regular expressions are alternatives of characters, wildcards and optional characters, matched anywhere and without
  regard to case. \<open>None\<close> is the wildcard, which does not match a line terminator; the flag marks an optional item.
\<close>

type_synonym pattern = "(code_unit option \<times> bool) list"

fun compile :: "string \<Rightarrow> pattern" where
  "compile [] = []"
| "compile (c # cs) =
     (let a = (if c = CHR ''.'' then None else Some (of_nat (of_char c)))
      in case cs of
           d # ds \<Rightarrow> if d = CHR ''?'' then (a, True) # compile ds else (a, False) # compile cs
         | [] \<Rightarrow> [(a, False)])"

definition fold_case :: "code_unit \<Rightarrow> code_unit" where
  "fold_case c = (if 97 \<le> c \<and> c \<le> 122 then c - 32 else c)"

definition atom_matches :: "code_unit option \<Rightarrow> code_unit \<Rightarrow> bool" where
  "atom_matches a x = (case a of
     None \<Rightarrow> x \<notin> {10, 13, 0x2028, 0x2029}
   | Some c \<Rightarrow> fold_case c = fold_case x)"

fun matches_here :: "pattern \<Rightarrow> ustring \<Rightarrow> bool" where
  "matches_here [] s = True"
| "matches_here ((a, optional) # ps) s =
     ((optional \<and> matches_here ps s) \<or> (case s of [] \<Rightarrow> False | x # xs \<Rightarrow> atom_matches a x \<and> matches_here ps xs))"

fun test_patterns :: "pattern list \<Rightarrow> ustring \<Rightarrow> bool" where
  "test_patterns ps [] = list_ex (\<lambda>p. matches_here p []) ps"
| "test_patterns ps (x # xs) = (list_ex (\<lambda>p. matches_here p (x # xs)) ps \<or> test_patterns ps xs)"

definition buildProviderErrorPattern :: "string list \<Rightarrow> pattern list" where
  "buildProviderErrorPattern patterns = map compile patterns"

definition NON_RETRYABLE_PROVIDER_LIMIT_ERROR_PATTERN :: "pattern list" where
  "NON_RETRYABLE_PROVIDER_LIMIT_ERROR_PATTERN = buildProviderErrorPattern
     [''GoUsageLimitError'', ''FreeUsageLimitError'', ''Monthly usage limit reached'', ''available balance'',
      ''insufficient_quota'', ''out of budget'', ''quota exceeded'', ''billing'']"

definition RETRYABLE_PROVIDER_ERROR_PATTERN :: "pattern list" where
  "RETRYABLE_PROVIDER_ERROR_PATTERN = buildProviderErrorPattern
     [''overloaded'', ''rate.?limit'', ''too many requests'', ''429'', ''500'', ''502'', ''503'', ''504'', ''520'', ''524'',
      ''service.?unavailable'', ''server.?error'', ''internal.?error'', ''provider.?returned.?error'',
      ''exceeded request buffer limit while retrying upstream'', ''network.?error'', ''connection.?error'',
      ''connection.?refused'', ''connection.?lost'', ''other side closed'', ''fetch failed'', ''getaddrinfo'', ''ENOTFOUND'',
      ''EAI_AGAIN'', ''upstream.?connect'', ''reset before headers'', ''socket hang up'', ''socket connection was closed'',
      ''timed? out'', ''timeout'', ''terminated'', ''websocket.?closed'', ''websocket.?error'', ''ended without'',
      ''stream ended before message_stop'', ''stream ended before a terminal response event'',
      ''http2 request did not get a response'', ''retry delay'', ''you can retry your request'',
      ''try your request again'', ''please retry your request'', ''ResourceExhausted'']"

definition isRetryableAssistantError :: "AssistantMessage \<Rightarrow> bool" where
  "isRetryableAssistantError m \<longleftrightarrow>
     am_stopReason m = SError \<and>
     (case am_errorMessage m of
        None \<Rightarrow> False
      | Some e \<Rightarrow> e \<noteq> [] \<and> \<not> test_patterns NON_RETRYABLE_PROVIDER_LIMIT_ERROR_PATTERN e
          \<and> test_patterns RETRYABLE_PROVIDER_ERROR_PATTERN e)"

section \<open>Delays\<close>

text \<open>Delays are whole milliseconds.\<close>

record RetryPolicy =
  rp_enabled :: bool
  rp_maxRetries :: int
  rp_baseDelayMs :: int
  rp_maxAgentDelayMs :: "int option"

definition DEFAULT_MAX_AGENT_RETRY_DELAY_MS :: int where
  "DEFAULT_MAX_AGENT_RETRY_DELAY_MS = 60000"

text \<open>
  The product is exact unless it overflows; from the exponent 1024 on the power is infinite, and the product infinite or not
  a number.
\<close>

definition retryDelayMs :: "RetryPolicy \<Rightarrow> int \<Rightarrow> int" where
  "retryDelayMs policy attempt =
     (let exponent = nat (max 0 (attempt - 1));
          delay = rp_baseDelayMs policy * 2 ^ exponent;
          safeDelay = (if exponent < 1024 \<and> \<bar>delay\<bar> \<le> max_safe then delay else max_safe)
      in min safeDelay (case rp_maxAgentDelayMs policy of Some m \<Rightarrow> m | None \<Rightarrow> DEFAULT_MAX_AGENT_RETRY_DELAY_MS))"

section \<open>The loop\<close>

datatype retry_event =
    RetryScheduled int int int ustring  \<comment> \<open>\<open>attempt\<close>, \<open>maxAttempts\<close>, \<open>delayMs\<close>, \<open>errorMessage\<close>\<close>
  | RetryAttemptStart
  | RetryFinished bool int "ustring option"  \<comment> \<open>\<open>success\<close>, \<open>attempt\<close>, \<open>finalError\<close>\<close>

record 'w RetryRun =
  rr_world :: 'w
  rr_events :: "retry_event list"

text \<open>
  What the loop uses: the call, the sleep, which reports whether it was aborted, and the callbacks; a missing
  callback does nothing.
\<close>

record 'w RetryEnv =
  re_produce :: "'w \<Rightarrow> AssistantMessage \<times> 'w"
  re_sleep :: "int \<Rightarrow> 'w \<Rightarrow> bool \<times> 'w"
  re_notify :: "retry_event \<Rightarrow> 'w \<Rightarrow> 'w"

definition notify :: "'w RetryEnv \<Rightarrow> retry_event \<Rightarrow> 'w RetryRun \<Rightarrow> 'w RetryRun" where
  "notify env e r = r\<lparr>rr_world := re_notify env e (rr_world r), rr_events := rr_events r @ [e]\<rparr>"

definition finished :: "'w RetryEnv \<Rightarrow> bool \<Rightarrow> (int \<times> ustring) option \<Rightarrow> ustring option \<Rightarrow> 'w RetryRun \<Rightarrow> 'w RetryRun" where
  "finished env success lastRetry finalError r =
     (case lastRetry of None \<Rightarrow> r | Some (attempt, _) \<Rightarrow> notify env (RetryFinished success attempt finalError) r)"

definition produce :: "'w RetryEnv \<Rightarrow> 'w RetryRun \<Rightarrow> AssistantMessage \<times> 'w RetryRun" where
  "produce env r = (case re_produce env (rr_world r) of (m, w) \<Rightarrow> (m, r\<lparr>rr_world := w\<rparr>))"

definition error_text :: "AssistantMessage \<Rightarrow> ustring" where
  "error_text m = (case am_errorMessage m of Some (c # cs) \<Rightarrow> c # cs | _ \<Rightarrow> js_lit ''Unknown error'')"

function retry_loop ::
  "'w RetryEnv \<Rightarrow> RetryPolicy \<Rightarrow> int \<Rightarrow> int \<Rightarrow> (int \<times> ustring) option \<Rightarrow> 'w RetryRun \<Rightarrow> AssistantMessage \<times> 'w RetryRun" where
  "retry_loop env policy maxAttempts attempt lastRetry r =
     (let (response, r1) = produce env r
      in if am_stopReason response = SAborted then (response, finished env False lastRetry None r1)
         else if am_stopReason response \<noteq> SError then (response, finished env True lastRetry None r1)
         else if attempt \<ge> maxAttempts \<or> \<not> isRetryableAssistantError response
           then (response, finished env False lastRetry (am_errorMessage response) r1)
         else
           (let attempt' = attempt + 1;
                errorMessage = error_text response;
                delayMs = retryDelayMs policy attempt';
                r2 = notify env (RetryScheduled attempt' maxAttempts delayMs errorMessage) r1;
                (interrupted, w) = re_sleep env delayMs (rr_world r2);
                r3 = r2\<lparr>rr_world := w\<rparr>
            in if interrupted
               then (response\<lparr>am_stopReason := SAborted, am_errorMessage := None\<rparr>,
                     notify env (RetryFinished False attempt' (Some errorMessage)) r3)
               else retry_loop env policy maxAttempts attempt' (Some (attempt', errorMessage)) (notify env RetryAttemptStart r3)))"
  by pat_completeness auto
termination
  by (relation "measure (\<lambda>(env, policy, maxAttempts, attempt, lastRetry, r). nat (maxAttempts - attempt))") auto

declare retry_loop.simps [simp del]

text \<open>Without a policy there are no retries, and the policy is not read.\<close>

definition retryAssistantCall :: "'w RetryEnv \<Rightarrow> RetryPolicy option \<Rightarrow> 'w RetryRun \<Rightarrow> AssistantMessage \<times> 'w RetryRun" where
  "retryAssistantCall env policy r =
     (let p = (case policy of Some p \<Rightarrow> p | None \<Rightarrow>
            \<lparr>rp_enabled = False, rp_maxRetries = 0, rp_baseDelayMs = 0, rp_maxAgentDelayMs = None\<rparr>)
      in retry_loop env p (if rp_enabled p then rp_maxRetries p else 0) 0 None r)"

section \<open>The delays grow up to the cap\<close>

definition delay_cap :: "RetryPolicy \<Rightarrow> int" where
  "delay_cap policy = (case rp_maxAgentDelayMs policy of Some m \<Rightarrow> m | None \<Rightarrow> DEFAULT_MAX_AGENT_RETRY_DELAY_MS)"

lemma delay_unfold:
  "retryDelayMs policy a = min (if nat (max 0 (a - 1)) < 1024 \<and> \<bar>rp_baseDelayMs policy * 2 ^ nat (max 0 (a - 1))\<bar> \<le> max_safe
     then rp_baseDelayMs policy * 2 ^ nat (max 0 (a - 1)) else max_safe) (delay_cap policy)"
  by (simp add: retryDelayMs_def delay_cap_def Let_def)

lemma doubled_mono:
  assumes "0 \<le> (b :: int)" and "i \<le> j"
  shows "b * 2 ^ i \<le> b * 2 ^ j"
  using assms by (intro mult_left_mono power_increasing) auto

text \<open>
  With a base delay and a cap that are not negative, the delays before successive retries lie between zero and the cap
  and never shrink, and while the exponential delay stays within the cap it is exactly \<open>base * 2 ^ (attempt - 1)\<close>.
\<close>

theorem retryDelayMs_bounds:
  assumes "0 \<le> rp_baseDelayMs policy" and "0 \<le> delay_cap policy" and "1 \<le> a" and "a \<le> b"
  shows "0 \<le> retryDelayMs policy a \<and> retryDelayMs policy a \<le> retryDelayMs policy b \<and>
    retryDelayMs policy b \<le> delay_cap policy \<and>
    (a \<le> 1024 \<and> rp_baseDelayMs policy * 2 ^ nat (a - 1) \<le> min max_safe (delay_cap policy) \<longrightarrow>
       retryDelayMs policy a = rp_baseDelayMs policy * 2 ^ nat (a - 1))"
proof -
  let ?d = "\<lambda>k. rp_baseDelayMs policy * 2 ^ k"
  have d: "0 \<le> ?d k" "\<bar>?d k\<bar> = ?d k" for k using assms(1) by simp_all
  have m: "?d (nat (a - 1)) \<le> ?d (nat (b - 1))"
    using assms by (intro doubled_mono) auto
  have "0 < max_safe" by (simp add: max_safe_def)
  with assms d m show ?thesis
    unfolding delay_unfold by (auto simp: min_def max_def)
qed

theorem retryDelayMs_bounds_witness:
  "retryDelayMs \<lparr>rp_enabled = True, rp_maxRetries = 3, rp_baseDelayMs = 2000, rp_maxAgentDelayMs = None\<rparr> 2 = 4000 \<and>
   retryDelayMs \<lparr>rp_enabled = True, rp_maxRetries = 3, rp_baseDelayMs = 2000, rp_maxAgentDelayMs = None\<rparr> 2000 \<le> 60000"
  using retryDelayMs_bounds [of "\<lparr>rp_enabled = True, rp_maxRetries = 3, rp_baseDelayMs = 2000, rp_maxAgentDelayMs = None\<rparr>" 2 2000]
  by (simp add: delay_cap_def DEFAULT_MAX_AGENT_RETRY_DELAY_MS_def max_safe_def)

section \<open>The notifications of a call\<close>

fun attempts :: "RetryPolicy \<Rightarrow> int \<Rightarrow> int \<Rightarrow> ustring list \<Rightarrow> retry_event list" where
  "attempts policy maxA a [] = []"
| "attempts policy maxA a (e # es) =
     [RetryScheduled (a + 1) maxA (retryDelayMs policy (a + 1)) e, RetryAttemptStart] @ attempts policy maxA (a + 1) es"

definition succeeded :: "AssistantMessage \<Rightarrow> bool" where
  "succeeded m \<longleftrightarrow> am_stopReason m \<noteq> SError \<and> am_stopReason m \<noteq> SAborted"

text \<open>
  After retries announced up to number \<open>a\<close>: either the last response ends the call, reported if there
  was a retry at all, or the backoff before one more retry was aborted.
\<close>

definition call_ending :: "RetryPolicy \<Rightarrow> int \<Rightarrow> int \<Rightarrow> AssistantMessage \<Rightarrow> retry_event list \<Rightarrow> bool" where
  "call_ending policy maxA a m ending \<longleftrightarrow>
     (if a = 0 then ending = [] else \<exists>f. ending = [RetryFinished (succeeded m) a f]) \<or>
     (\<exists>e. a < maxA \<and> am_stopReason m = SAborted \<and> am_errorMessage m = None \<and>
        ending = [RetryScheduled (a + 1) maxA (retryDelayMs policy (a + 1)) e, RetryFinished False (a + 1) (Some e)])"

lemma finished_events:
  "rr_events (finished env b lastRetry f r) =
     rr_events r @ (case lastRetry of None \<Rightarrow> [] | Some (a, _) \<Rightarrow> [RetryFinished b a f])"
  by (simp add: finished_def notify_def split: option.split)

lemma produce_events: "rr_events (snd (produce env r)) = rr_events r"
  by (simp add: produce_def split: prod.split)

lemma retryable_error: "isRetryableAssistantError m \<Longrightarrow> am_stopReason m = SError"
  by (simp add: isRetryableAssistantError_def)

lemma retry_loop_stops:
  assumes "produce env r = (response, r1)"
    and "\<not> (am_stopReason response = SError \<and> a < maxA \<and> isRetryableAssistantError response)"
  shows "retry_loop env policy maxA a lastRetry r = (response, finished env (succeeded response) lastRetry
    (if am_stopReason response = SError then am_errorMessage response else None) r1)"
  unfolding retry_loop.simps [of env policy maxA a lastRetry r] assms(1)
  using assms(2) by (cases "am_stopReason response") (auto simp: succeeded_def)

lemma retry_loop_trace:
  assumes "0 \<le> a" and "map_option fst lastRetry = (if a = 0 then None else Some a)"
  shows "\<exists>es ending. rr_events (snd (retry_loop env policy maxA a lastRetry r)) = rr_events r @ attempts policy maxA a es @ ending
    \<and> (es \<noteq> [] \<longrightarrow> a + int (length es) \<le> maxA)
    \<and> call_ending policy maxA (a + int (length es)) (fst (retry_loop env policy maxA a lastRetry r)) ending
    \<and> (isRetryableAssistantError (fst (retry_loop env policy maxA a lastRetry r)) \<longrightarrow> maxA \<le> a + int (length es))"
  using assms
proof (induction env policy maxA a lastRetry r rule: retry_loop.induct)
  case (1 env policy maxA a lastRetry r)
  obtain response r1 where p: "produce env r = (response, r1)" by fastforce
  have r1: "rr_events r1 = rr_events r" using produce_events [of env r] p by simp
  let ?go = "am_stopReason response = SError \<and> a < maxA \<and> isRetryableAssistantError response"
  let ?d = "retryDelayMs policy (a + 1)" and ?e = "error_text response"
  let ?r2 = "notify env (RetryScheduled (a + 1) maxA ?d ?e) r1"
  obtain b w where s: "re_sleep env ?d (rr_world ?r2) = (b, w)" by fastforce
  show ?case
  proof (cases ?go)
    case False
    have l: "case lastRetry of None \<Rightarrow> a = 0 | Some (x, _) \<Rightarrow> x = a \<and> a \<noteq> 0"
      using 1(3) by (auto split: option.splits if_splits)
    let ?f = "if am_stopReason response = SError then am_errorMessage response else None"
    let ?fin = "case lastRetry of None \<Rightarrow> [] | Some (x, _) \<Rightarrow> [RetryFinished (succeeded response) x ?f]"
    have "call_ending policy maxA (a + int (length [])) response ?fin"
      using l by (auto simp: call_ending_def split: option.splits)
    with False retryable_error [of response] show ?thesis
      unfolding retry_loop_stops [OF p False] fst_conv snd_conv finished_events r1
      by (intro exI [of _ "[]"] exI [of _ ?fin]) auto
  next
    case True
    show ?thesis
    proof (cases b)
      case True
      let ?m = "response\<lparr>am_stopReason := SAborted, am_errorMessage := None\<rparr>"
      let ?fin = "[RetryScheduled (a + 1) maxA ?d ?e, RetryFinished False (a + 1) (Some ?e)]"
      have "retry_loop env policy maxA a lastRetry r = (?m, notify env (RetryFinished False (a + 1) (Some ?e)) (?r2\<lparr>rr_world := w\<rparr>))"
        using \<open>?go\<close> True p s by (simp add: retry_loop.simps [of env policy maxA a lastRetry r] Let_def)
      moreover have "call_ending policy maxA (a + int (length [])) ?m ?fin" "\<not> isRetryableAssistantError ?m"
        using \<open>?go\<close> by (simp_all add: call_ending_def isRetryableAssistantError_def)
      ultimately show ?thesis
        by (intro exI [of _ "[]"] exI [of _ ?fin]) (simp add: notify_def r1)
    next
      case False
      let ?r3 = "notify env RetryAttemptStart (?r2\<lparr>rr_world := w\<rparr>)"
      let ?rest = "retry_loop env policy maxA (a + 1) (Some (a + 1, ?e)) ?r3"
      have eq: "retry_loop env policy maxA a lastRetry r = ?rest"
        using \<open>?go\<close> False p s by (simp add: retry_loop.simps [of env policy maxA a lastRetry r] Let_def)
      obtain es ending where IH: "rr_events (snd ?rest) = rr_events ?r3 @ attempts policy maxA (a + 1) es @ ending"
        "es \<noteq> [] \<longrightarrow> a + 1 + int (length es) \<le> maxA" "call_ending policy maxA (a + 1 + int (length es)) (fst ?rest) ending"
        "isRetryableAssistantError (fst ?rest) \<longrightarrow> maxA \<le> a + 1 + int (length es)"
        using 1(1) [OF refl p [symmetric] _ _ _ refl refl refl refl refl s [symmetric] refl] \<open>?go\<close> False 1(2) by auto
      show ?thesis
        unfolding eq using IH \<open>?go\<close>
        by (intro exI [of _ "?e # es"] exI [of _ ending]) (auto simp: notify_def r1 algebra_simps)
    qed
  qed
qed

text \<open>
  C28. A call under an enabled policy always returns, after at most \<open>maxRetries\<close> retries. Each retry is announced with
  its number and its backoff delay before it starts; if there was a retry, the end is announced exactly once, last, with the
  right verdict; an abort during a backoff gives an aborted message. An error that is worth
  retrying is only returned once the retries are used up.
\<close>

theorem retry_trace:
  assumes "retryAssistantCall env (Some policy) r = (m, r')" and "rp_enabled policy"
  shows "\<exists>errors ending. rr_events r' = rr_events r @ attempts policy (rp_maxRetries policy) 0 errors @ ending \<and>
    (errors \<noteq> [] \<longrightarrow> int (length errors) \<le> rp_maxRetries policy) \<and>
    call_ending policy (rp_maxRetries policy) (int (length errors)) m ending \<and>
    (isRetryableAssistantError m \<longrightarrow> rp_maxRetries policy \<le> int (length errors))"
  using retry_loop_trace [of 0 None env policy "rp_maxRetries policy" r] assms
  by (simp add: retryAssistantCall_def)

text \<open>A provider that is overloaded for ever.\<close>

definition ex_overloaded :: AssistantMessage where
  "ex_overloaded = \<lparr>am_content = [], am_api = [], am_provider = [], am_model = [], am_responseModel = None,
     am_responseId = None, am_diagnostics = None, am_usage = \<lparr>us_input = 0, us_output = 0, us_cacheRead = 0,
     us_cacheWrite = 0, us_cacheWrite1h = None, us_reasoning = None, us_totalTokens = 0, us_cost = \<lparr>uc_input = NInt 0,
     uc_output = NInt 0, uc_cacheRead = NInt 0, uc_cacheWrite = NInt 0, uc_total = NInt 0\<rparr>\<rparr>, am_stopReason = SError,
     am_deferred = None, am_errorMessage = Some ([52, 50, 57]), am_rawStopReason = None,
     am_endTurn = None, am_timestamp = 0\<rparr>"

lemma ex_overloaded_retryable: "isRetryableAssistantError ex_overloaded"
  by code_simp

theorem retry_trace_witness:
  "\<exists>r' errors ending. retryAssistantCall
       \<lparr>re_produce = (\<lambda>w. (ex_overloaded, w)), re_sleep = (\<lambda>d w. (False, w)), re_notify = (\<lambda>e w. w)\<rparr>
       (Some \<lparr>rp_enabled = True, rp_maxRetries = 2, rp_baseDelayMs = 1000, rp_maxAgentDelayMs = None\<rparr>)
       \<lparr>rr_world = (), rr_events = []\<rparr> = (ex_overloaded, r')
     \<and> rr_events r' = attempts \<lparr>rp_enabled = True, rp_maxRetries = 2, rp_baseDelayMs = 1000, rp_maxAgentDelayMs = None\<rparr> 2 0 errors @ ending
     \<and> length errors = 2"
proof -
  let ?env = "\<lparr>re_produce = (\<lambda>w. (ex_overloaded, w)), re_sleep = (\<lambda>d w. (False, w)), re_notify = (\<lambda>e w. w)\<rparr> :: unit RetryEnv"
  let ?p = "\<lparr>rp_enabled = True, rp_maxRetries = 2, rp_baseDelayMs = 1000, rp_maxAgentDelayMs = None\<rparr>"
  let ?r = "\<lparr>rr_world = (), rr_events = []\<rparr>"
  have "fst (retryAssistantCall ?env (Some ?p) ?r) = ex_overloaded"
    using ex_overloaded_retryable retryable_error [OF ex_overloaded_retryable]
    by (simp add: retryAssistantCall_def retry_loop.simps produce_def finished_def notify_def Let_def)
  then obtain r' where c: "retryAssistantCall ?env (Some ?p) ?r = (ex_overloaded, r')"
    by (metis prod.collapse)
  obtain errors ending where e: "rr_events r' = attempts ?p 2 0 errors @ ending" "errors \<noteq> [] \<longrightarrow> int (length errors) \<le> 2"
      "2 \<le> int (length errors)"
    using retry_trace [OF c] ex_overloaded_retryable by auto
  then have "length errors = 2" by auto
  with c e(1) show ?thesis by blast
qed

end
