(* ===== verification/Compaction_Summary.thy ===== *)
theory Compaction_Summary
  imports Compaction_Props Retry Agent_Types
begin

text \<open>
  \<^verbatim>\<open>pi/packages/agent/src/harness/compaction/compaction.ts\<close>, the summarising half: prompts, the requests to the model and
  \<open>compact\<close>. The model collection, the clock and the id generator are functions on the surroundings \<open>'w\<close>; requests go
  through the retry loop.
\<close>

section \<open>Prompts\<close>

definition SUMMARIZATION_SYSTEM_PROMPT :: ustring where
  \<open>SUMMARIZATION_SYSTEM_PROMPT = join newline
     [js_lit ''You are a context summarization assistant. Your task is to read a conversation between a user and an AI assistant, then produce a structured summary following the exact format specified.'',
      [],
      js_lit ''Do NOT continue the conversation. Do NOT respond to any questions in the conversation. ONLY output the structured summary.'']\<close>

definition SUMMARIZATION_PROMPT :: ustring where
  \<open>SUMMARIZATION_PROMPT = join newline
     [js_lit ''The messages above are a conversation to summarize. Create a structured context checkpoint summary that another LLM will use to continue the work.'',
      [],
      js_lit ''Use this EXACT format:'',
      [],
      js_lit ''## Goal'',
      js_lit ''[What is the user trying to accomplish? Can be multiple items if the session covers different tasks.]'',
      [],
      js_lit ''## Constraints & Preferences'',
      js_lit ''- [Any constraints, preferences, or requirements mentioned by user]'',
      js_lit ''- [Or "(none)" if none were mentioned]'',
      [],
      js_lit ''## Progress'',
      js_lit ''### Done'',
      js_lit ''- [x] [Completed tasks/changes]'',
      [],
      js_lit ''### In Progress'',
      js_lit ''- [ ] [Current work]'',
      [],
      js_lit ''### Blocked'',
      js_lit ''- [Issues preventing progress, if any]'',
      [],
      js_lit ''## Key Decisions'',
      js_lit ''- **[Decision]**: [Brief rationale]'',
      [],
      js_lit ''## Next Steps'',
      js_lit ''1. [Ordered list of what should happen next]'',
      [],
      js_lit ''## Critical Context'',
      js_lit ''- [Any data, examples, or references needed to continue]'',
      js_lit ''- [Or "(none)" if not applicable]'',
      [],
      js_lit ''Keep each section concise. Preserve exact file paths, function names, and error messages.'']\<close>

definition UPDATE_SUMMARIZATION_PROMPT :: ustring where
  \<open>UPDATE_SUMMARIZATION_PROMPT = join newline
     [js_lit ''The messages above are NEW conversation messages to incorporate into the existing summary provided in <previous-summary> tags.'',
      [],
      js_lit ''Update the existing structured summary with new information. RULES:'',
      js_lit ''- PRESERVE all existing information from the previous summary'',
      js_lit ''- ADD new progress, decisions, and context from the new messages'',
      js_lit ''- UPDATE the Progress section: move items from "In Progress" to "Done" when completed'',
      js_lit ''- UPDATE "Next Steps" based on what was accomplished'',
      js_lit ''- PRESERVE exact file paths, function names, and error messages'',
      js_lit ''- If something is no longer relevant, you may remove it'',
      [],
      js_lit ''Use this EXACT format:'',
      [],
      js_lit ''## Goal'',
      js_lit ''[Preserve existing goals, add new ones if the task expanded]'',
      [],
      js_lit ''## Constraints & Preferences'',
      js_lit ''- [Preserve existing, add new ones discovered]'',
      [],
      js_lit ''## Progress'',
      js_lit ''### Done'',
      js_lit ''- [x] [Include previously done items AND newly completed items]'',
      [],
      js_lit ''### In Progress'',
      js_lit ''- [ ] [Current work - update based on progress]'',
      [],
      js_lit ''### Blocked'',
      js_lit ''- [Current blockers - remove if resolved]'',
      [],
      js_lit ''## Key Decisions'',
      js_lit ''- **[Decision]**: [Brief rationale] (preserve all previous, add new)'',
      [],
      js_lit ''## Next Steps'',
      js_lit ''1. [Update based on current state]'',
      [],
      js_lit ''## Critical Context'',
      js_lit ''- [Preserve important context, add new if needed]'',
      [],
      js_lit ''Keep each section concise. Preserve exact file paths, function names, and error messages.'']\<close>

definition TURN_PREFIX_SUMMARIZATION_PROMPT :: ustring where
  \<open>TURN_PREFIX_SUMMARIZATION_PROMPT = join newline
     [js_lit ''This is the PREFIX of a turn that was too large to keep. The SUFFIX (recent work) is retained.'',
      [],
      js_lit ''Summarize the prefix to provide context for the retained suffix:'',
      [],
      js_lit ''## Original Request'',
      js_lit ''[What did the user ask for in this turn?]'',
      [],
      js_lit ''## Early Progress'',
      js_lit ''- [Key decisions and work done in the prefix]'',
      [],
      js_lit ''## Context for Suffix'',
      js_lit ''- [Information needed to understand the retained recent work]'',
      [],
      js_lit (''Be concise. Focus on what'' @ [CHR 39] @ ''s needed to understand the kept suffix.'')]\<close>

section \<open>Requests\<close>

record SummaryRequest =
  sq_systemPrompt :: ustring
  sq_messages :: "Message list"
  sq_maxTokens :: int
  sq_reasoning :: "ustring option"
  sq_cacheRetention :: ustring
  sq_sessionId :: ustring

record 'w SummaryEnv =
  su_completeSimple :: "Model \<Rightarrow> SummaryRequest \<Rightarrow> 'w \<Rightarrow> AssistantMessage \<times> 'w"
  su_sleep :: "int \<Rightarrow> 'w \<Rightarrow> bool \<times> 'w"
  su_notify :: "retry_event \<Rightarrow> 'w \<Rightarrow> 'w"
  su_now :: "'w \<Rightarrow> int \<times> 'w"
  su_uuidv7 :: "'w \<Rightarrow> ustring \<times> 'w"

text \<open>The request options are those of the caller with caching off and a fresh session id.\<close>

definition completeSimpleWithRetries ::
  "'w SummaryEnv \<Rightarrow> Model \<Rightarrow> ustring \<times> Message list \<Rightarrow> int \<times> ustring option \<Rightarrow> RetryPolicy option \<Rightarrow> 'w RetryRun
     \<Rightarrow> AssistantMessage \<times> 'w RetryRun" where
  "completeSimpleWithRetries env model ctx options retry r =
     (let (sessionId, w) = su_uuidv7 env (rr_world r);
          request = \<lparr>sq_systemPrompt = fst ctx, sq_messages = snd ctx, sq_maxTokens = fst options,
            sq_reasoning = snd options, sq_cacheRetention = js_lit ''none'', sq_sessionId = sessionId\<rparr>
      in retryAssistantCall \<lparr>re_produce = su_completeSimple env model request, re_sleep = su_sleep env, re_notify = su_notify env\<rparr>
           retry (r\<lparr>rr_world := w\<rparr>))"

definition opt_add :: "int option \<Rightarrow> int option \<Rightarrow> int option" where
  "opt_add a b = (if a \<noteq> None \<or> b \<noteq> None
     then Some ((case a of Some i \<Rightarrow> i | None \<Rightarrow> 0) + (case b of Some i \<Rightarrow> i | None \<Rightarrow> 0)) else None)"

definition combineUsage :: "Usage \<Rightarrow> Usage \<Rightarrow> Usage" where
  "combineUsage first second =
     \<lparr>us_input = us_input first + us_input second, us_output = us_output first + us_output second,
      us_cacheRead = us_cacheRead first + us_cacheRead second, us_cacheWrite = us_cacheWrite first + us_cacheWrite second,
      us_cacheWrite1h = opt_add (us_cacheWrite1h first) (us_cacheWrite1h second),
      us_reasoning = opt_add (us_reasoning first) (us_reasoning second),
      us_totalTokens = us_totalTokens first + us_totalTokens second,
      us_cost = \<lparr>uc_input = num_add (uc_input (us_cost first)) (uc_input (us_cost second)),
        uc_output = num_add (uc_output (us_cost first)) (uc_output (us_cost second)),
        uc_cacheRead = num_add (uc_cacheRead (us_cost first)) (uc_cacheRead (us_cost second)),
        uc_cacheWrite = num_add (uc_cacheWrite (us_cost first)) (uc_cacheWrite (us_cost second)),
        uc_total = num_add (uc_total (us_cost first)) (uc_total (us_cost second))\<rparr>\<rparr>"

text \<open>
  A share of an integer, in binary64: \<open>Math.floor(0.8 * n)\<close> and the like, with the constant given by its bits.
\<close>

definition share :: "64 word \<Rightarrow> int \<Rightarrow> jsnum" where
  "share w n = (case scaled (NFrac w) of (m, e) \<Rightarrow> round_num (m * n) e)"

definition floor_num :: "jsnum \<Rightarrow> int" where
  "floor_num x = (case scaled x of (m, e) \<Rightarrow> if e \<ge> 0 then m * 2 ^ nat e else m div 2 ^ nat (- e))"

abbreviation (input) num_0_8 :: "64 word" where "num_0_8 \<equiv> 0x3fe999999999999a"
abbreviation (input) num_0_5 :: "64 word" where "num_0_5 \<equiv> 0x3fe0000000000000"

definition max_tokens :: "64 word \<Rightarrow> int \<Rightarrow> Model \<Rightarrow> int" where
  "max_tokens w reserveTokens model =
     (let n = floor_num (share w reserveTokens) in if mo_maxTokens model > 0 then min n (mo_maxTokens model) else n)"

definition reasoning_option :: "Model \<Rightarrow> ustring option \<Rightarrow> ustring option" where
  "reasoning_option model thinkingLevel =
     (case thinkingLevel of
        Some l \<Rightarrow> if mo_reasoning model \<and> l \<noteq> [] \<and> l \<noteq> js_lit ''off'' then Some l else None
      | None \<Rightarrow> None)"

definition message_or :: "ustring option \<Rightarrow> ustring \<Rightarrow> ustring" where
  "message_or m fallback = (case m of Some (c # cs) \<Rightarrow> c # cs | _ \<Rightarrow> fallback)"

text \<open>
  The common end of both summaries: one user message with the prompt, the request, and the response as a result;
  \<open>label\<close> is what the error messages start with.
\<close>

definition request_summary ::
  "'w SummaryEnv \<Rightarrow> Model \<Rightarrow> ustring \<Rightarrow> int \<Rightarrow> ustring option \<Rightarrow> RetryPolicy option \<Rightarrow> string \<Rightarrow> 'w RetryRun
     \<Rightarrow> (CompactionError + ustring \<times> Usage) \<times> 'w RetryRun" where
  "request_summary env model promptText maxTokens thinkingLevel retry label r =
     (let (now, w) = su_now env (rr_world r);
          (response, r') = completeSimpleWithRetries env model (SUMMARIZATION_SYSTEM_PROMPT, [text_user promptText now])
            (maxTokens, reasoning_option model thinkingLevel) retry (r\<lparr>rr_world := w\<rparr>)
      in (if am_stopReason response = SAborted
          then Inl (CompactionError CAborted (message_or (am_errorMessage response) (js_lit (label @ '' aborted''))))
          else if am_stopReason response = SError
          then Inl (CompactionError CSummarizationFailed
            (js_lit (label @ '' failed: '') @ message_or (am_errorMessage response) (js_lit ''Unknown error'')))
          else Inr (assistantText response, am_usage response), r'))"

definition conversation_prompt :: "AgentMessage list \<Rightarrow> ustring" where
  "conversation_prompt messages =
     js_lit ''<conversation>'' @ newline @ serializeConversation (convertToLlm messages) @ newline
     @ js_lit ''</conversation>'' @ newline @ newline"

definition truthy :: "ustring option \<Rightarrow> bool" where
  "truthy s = (case s of Some (_ # _) \<Rightarrow> True | _ \<Rightarrow> False)"

definition summary_prompt :: "AgentMessage list \<Rightarrow> ustring option \<Rightarrow> ustring option \<Rightarrow> ustring" where
  "summary_prompt messages customInstructions previousSummary =
     conversation_prompt messages
     @ (if truthy previousSummary then tagged ''previous-summary'' (the previousSummary) @ newline @ newline else [])
     @ (if truthy previousSummary then UPDATE_SUMMARIZATION_PROMPT else SUMMARIZATION_PROMPT)
     @ (if truthy customInstructions then newline @ newline @ js_lit ''Additional focus: '' @ the customInstructions else [])"

definition generateSummaryWithUsage ::
  "'w SummaryEnv \<Rightarrow> AgentMessage list \<Rightarrow> Model \<Rightarrow> int \<Rightarrow> ustring option \<Rightarrow> ustring option \<Rightarrow> ustring option
     \<Rightarrow> RetryPolicy option \<Rightarrow> 'w RetryRun \<Rightarrow> (CompactionError + ustring \<times> Usage) \<times> 'w RetryRun" where
  "generateSummaryWithUsage env currentMessages model reserveTokens customInstructions previousSummary thinkingLevel retry r =
     request_summary env model (summary_prompt currentMessages customInstructions previousSummary)
       (max_tokens num_0_8 reserveTokens model) thinkingLevel retry ''Summarization'' r"

definition generateSummary ::
  "'w SummaryEnv \<Rightarrow> AgentMessage list \<Rightarrow> Model \<Rightarrow> int \<Rightarrow> ustring option \<Rightarrow> ustring option \<Rightarrow> ustring option
     \<Rightarrow> RetryPolicy option \<Rightarrow> 'w RetryRun \<Rightarrow> (CompactionError + ustring) \<times> 'w RetryRun" where
  "generateSummary env currentMessages model reserveTokens customInstructions previousSummary thinkingLevel retry r =
     (case generateSummaryWithUsage env currentMessages model reserveTokens customInstructions previousSummary thinkingLevel retry r of
        (Inr (text, _), r') \<Rightarrow> (Inr text, r')
      | (Inl e, r') \<Rightarrow> (Inl e, r'))"

definition generateTurnPrefixSummary ::
  "'w SummaryEnv \<Rightarrow> AgentMessage list \<Rightarrow> Model \<Rightarrow> int \<Rightarrow> ustring option \<Rightarrow> RetryPolicy option \<Rightarrow> 'w RetryRun
     \<Rightarrow> (CompactionError + ustring \<times> Usage) \<times> 'w RetryRun" where
  "generateTurnPrefixSummary env messages model reserveTokens thinkingLevel retry r =
     request_summary env model (conversation_prompt messages @ TURN_PREFIX_SUMMARIZATION_PROMPT)
       (max_tokens num_0_5 reserveTokens model) thinkingLevel retry ''Turn prefix summarization'' r"

section \<open>Compaction\<close>

record CompactResult =
  cr_summary :: ustring
  cr_tokensBefore :: int
  cr_usage :: Usage
  cr_retainedTail :: "AgentMessage list"
  cr_readFiles :: "ustring list"  \<comment> \<open>\<open>details\<close>\<close>
  cr_modifiedFiles :: "ustring list"

definition turn_context :: "ustring \<Rightarrow> ustring \<Rightarrow> ustring" where
  "turn_context historyText prefixText =
     join (newline @ newline) [historyText, js_lit ''---'', js_lit ''**Turn Context (split turn):**'', prefixText]"

text \<open>The history part of a split-turn compaction: its text, and its usage if a request was made.\<close>

definition history_summary ::
  "'w SummaryEnv \<Rightarrow> CompactionPreparation \<Rightarrow> Model \<Rightarrow> ustring option \<Rightarrow> ustring option \<Rightarrow> RetryPolicy option \<Rightarrow> 'w RetryRun
     \<Rightarrow> (CompactionError + ustring \<times> Usage option) \<times> 'w RetryRun" where
  "history_summary env p model customInstructions thinkingLevel retry r =
     (if pr_messagesToSummarize p \<noteq> [] then
        (case generateSummaryWithUsage env (pr_messagesToSummarize p) model (co_reserveTokens (pr_settings p)) customInstructions
            (pr_previousSummary p) thinkingLevel retry r of
           (Inl e, r') \<Rightarrow> (Inl e, r')
         | (Inr (text, usage), r') \<Rightarrow> (Inr (text, Some usage), r'))
      else (Inr (js_lit ''No prior history.'', None), r))"

definition summary_of ::
  "'w SummaryEnv \<Rightarrow> CompactionPreparation \<Rightarrow> Model \<Rightarrow> ustring option \<Rightarrow> ustring option \<Rightarrow> RetryPolicy option \<Rightarrow> 'w RetryRun
     \<Rightarrow> (CompactionError + ustring \<times> Usage) \<times> 'w RetryRun" where
  "summary_of env p model customInstructions thinkingLevel retry r =
     (if pr_isSplitTurn p \<and> pr_turnPrefixMessages p \<noteq> [] then
        (case history_summary env p model customInstructions thinkingLevel retry r of
           (Inl e, r1) \<Rightarrow> (Inl e, r1)
         | (Inr (historyText, historyUsage), r1) \<Rightarrow>
             (case generateTurnPrefixSummary env (pr_turnPrefixMessages p) model (co_reserveTokens (pr_settings p)) thinkingLevel retry r1 of
                (Inl e, r2) \<Rightarrow> (Inl e, r2)
              | (Inr (prefixText, prefixUsage), r2) \<Rightarrow>
                  (Inr (turn_context historyText prefixText,
                     case historyUsage of Some u \<Rightarrow> combineUsage u prefixUsage | None \<Rightarrow> prefixUsage), r2)))
      else generateSummaryWithUsage env (pr_messagesToSummarize p) model (co_reserveTokens (pr_settings p)) customInstructions
        (pr_previousSummary p) thinkingLevel retry r)"

definition compact ::
  "'w SummaryEnv \<Rightarrow> CompactionPreparation \<Rightarrow> Model \<Rightarrow> ustring option \<Rightarrow> ustring option \<Rightarrow> RetryPolicy option \<Rightarrow> 'w RetryRun
     \<Rightarrow> (CompactionError + CompactResult) \<times> 'w RetryRun" where
  "compact env p model customInstructions thinkingLevel retry r =
     (case summary_of env p model customInstructions thinkingLevel retry r of
        (Inl e, r') \<Rightarrow> (Inl e, r')
      | (Inr (summary, usage), r') \<Rightarrow>
          (let (readFiles, modifiedFiles) = computeFileLists (pr_fileOps p)
           in (Inr \<lparr>cr_summary = summary @ formatFileOperations readFiles modifiedFiles, cr_tokensBefore = pr_tokensBefore p,
                cr_usage = usage, cr_retainedTail = pr_retainedTail p, cr_readFiles = readFiles, cr_modifiedFiles = modifiedFiles\<rparr>, r')))"

section \<open>The files of a compaction\<close>

text \<open>The files the last compaction of a path recorded in its details.\<close>

definition recorded :: "string \<Rightarrow> Entry list \<Rightarrow> ustring set" where
  "recorded key path = (case last_compaction path (length path) of
     None \<Rightarrow> {}
   | Some i \<Rightarrow> (case en_body (path ! i) of
       CompactionEntry _ _ _ (Some d) _ \<Rightarrow> set (detail_paths (property key d))
     | _ \<Rightarrow> {}))"

lemma add_details_sets:
  "set (fo_read (add_details d ops)) = set (fo_read ops) \<union> (case d of None \<Rightarrow> {} | Some d \<Rightarrow> set (detail_paths (property ''readFiles'' d)))"
  "set (fo_edited (add_details d ops)) = set (fo_edited ops) \<union> (case d of None \<Rightarrow> {} | Some d \<Rightarrow> set (detail_paths (property ''modifiedFiles'' d)))"
  "fo_written (add_details d ops) = fo_written ops"
  by (simp_all add: add_details_def foldl_path_add split: option.split)

lemma extract_operations_sets:
  assumes "ops = extractFileOperations ms path (last_compaction path (length path))"
  shows "set (fo_read ops) = recorded ''readFiles'' path \<union> touched [''read''] ms"
    and "set (fo_edited ops) = recorded ''modifiedFiles'' path \<union> touched [''edit''] ms"
    and "set (fo_written ops) = touched [''write''] ms"
  unfolding assms extractFileOperations_def recorded_def
  by (auto simp: fold_extract_sets add_details_sets createFileOps_def split: option.split entry_body.split)

lemma prepared_file_ops:
  assumes "prepareCompaction path settings = Inr (Some p)"
  defines "ms \<equiv> pr_messagesToSummarize p @ pr_turnPrefixMessages p"
  shows "set (fo_read (pr_fileOps p)) = recorded ''readFiles'' path \<union> touched [''read''] ms"
    and "set (fo_edited (pr_fileOps p)) = recorded ''modifiedFiles'' path \<union> touched [''edit''] ms"
    and "set (fo_written (pr_fileOps p)) = touched [''write''] ms"
proof -
  have "pr_fileOps p = fold extractFileOpsFromMessage (pr_turnPrefixMessages p)
      (extractFileOperations (pr_messagesToSummarize p) path (last_compaction path (length path)))"
    using assms(1) by (auto simp: prepareCompaction_def Let_def split: if_splits prod.splits)
  then show "set (fo_read (pr_fileOps p)) = recorded ''readFiles'' path \<union> touched [''read''] ms"
    and "set (fo_edited (pr_fileOps p)) = recorded ''modifiedFiles'' path \<union> touched [''edit''] ms"
    and "set (fo_written (pr_fileOps p)) = touched [''write''] ms"
    by (simp_all add: ms_def fold_extract_sets extract_operations_sets touched_append Un_assoc)
qed

lemma compact_files:
  assumes "compact env p model instructions level retry r = (Inr result, r')"
  shows "computeFileLists (pr_fileOps p) = (cr_readFiles result, cr_modifiedFiles result)"
    and "cr_retainedTail result = pr_retainedTail p"
  using assms by (auto simp: compact_def Let_def split: prod.splits sum.splits)

text \<open>The entry that stores a result; the details are an object with the two lists.\<close>

definition stores_result :: "Entry \<Rightarrow> CompactResult \<Rightarrow> bool" where
  "stores_result entry result \<longleftrightarrow> en_body entry = CompactionEntry (cr_summary result) (cr_retainedTail result) (cr_tokensBefore result)
     (Some (JObj ObjectProto False [(js_lit ''readFiles'', JArr (map JStr (cr_readFiles result))),
        (js_lit ''modifiedFiles'', JArr (map JStr (cr_modifiedFiles result)))])) (Some (cr_usage result))"

lemma detail_paths_strings: "detail_paths (Some (JArr (map JStr fs))) = fs"
  by (induction fs) (simp_all add: List.map_filter_def)

lemma last_compaction_at:
  assumes "en_type c = TCompaction" and "\<forall>e \<in> set later. en_type e \<noteq> TCompaction"
  shows "last_compaction (es @ c # later) (length (es @ c # later)) = Some (length es)"
proof (cases "last_compaction (es @ c # later) (length (es @ c # later))")
  case None
  then have "en_type ((es @ c # later) ! length es) \<noteq> TCompaction"
    unfolding last_compaction_none by (auto dest: spec [of _ "length es"])
  with assms(1) show ?thesis by simp
next
  case (Some i)
  note l = last_compaction_some [OF Some]
  have "\<not> i < length es" using l assms(1) by (auto dest: spec [of _ "length es"])
  moreover have "\<not> length es < i" using l assms(2) by (auto simp: nth_append nth_Cons split: nat.splits)
  ultimately show ?thesis using Some by simp
qed

lemma recorded_result:
  assumes "stores_result entry result" and "\<forall>e \<in> set later. en_type e \<noteq> TCompaction"
  shows "recorded ''readFiles'' (path @ entry # later) = set (cr_readFiles result)"
    and "recorded ''modifiedFiles'' (path @ entry # later) = set (cr_modifiedFiles result)"
  using assms last_compaction_at [of entry later path]
  by (simp_all add: stores_result_def recorded_def nth_append detail_paths_strings js_lit_def del: detail_paths.simps)

text \<open>
  C32. The file lists of a compaction are sorted and disjoint and cumulative: the modified files are those the previous
  compaction recorded and those edited or written in the messages now summarised, the read files the other ones read;
  once the result is stored, the next compaction starts from exactly these lists.
\<close>

theorem compaction_files_accumulate:
  assumes "prepareCompaction path settings = Inr (Some p)"
    and "compact env p model instructions level retry r = (Inr result, r')"
    and "stores_result entry result" and "\<forall>e \<in> set later. en_type e \<noteq> TCompaction"
  shows "sorted (cr_readFiles result) \<and> sorted (cr_modifiedFiles result) \<and>
    set (cr_modifiedFiles result) = recorded ''modifiedFiles'' path
      \<union> touched [''edit'', ''write''] (pr_messagesToSummarize p @ pr_turnPrefixMessages p) \<and>
    set (cr_readFiles result) = recorded ''readFiles'' path \<union> touched [''read''] (pr_messagesToSummarize p @ pr_turnPrefixMessages p)
      - set (cr_modifiedFiles result) \<and>
    recorded ''readFiles'' (path @ entry # later) = set (cr_readFiles result) \<and>
    recorded ''modifiedFiles'' (path @ entry # later) = set (cr_modifiedFiles result)"
  using computeFileLists_sets [OF compact_files(1) [OF assms(2)]] prepared_file_ops [OF assms(1)]
    recorded_result [OF assms(3,4), of path]
  by (auto simp: touched_names [of "''edit''" "[''write'']"])

text \<open>A model that always answers.\<close>

definition ex_reply :: "string \<Rightarrow> AssistantMessage" where
  "ex_reply t = ex_assistant [AText \<lparr>tc_text = js_lit t, tc_textSignature = None\<rparr>]"

definition ex_env :: "unit SummaryEnv" where
  "ex_env = \<lparr>su_completeSimple = (\<lambda>model request w. (ex_reply ''summary'', w)), su_sleep = (\<lambda>d w. (False, w)),
     su_notify = (\<lambda>e w. w), su_now = (\<lambda>w. (0, w)), su_uuidv7 = (\<lambda>w. ([], w))\<rparr>"

definition ex_run :: "unit RetryRun" where
  "ex_run = \<lparr>rr_world = (), rr_events = []\<rparr>"

definition ex_model :: Model where
  "ex_model = \<lparr>mo_id = [], mo_api = [], mo_provider = [], mo_reasoning = False, mo_contextWindow = 1000, mo_maxTokens = 100,
     mo_other = JUndef\<rparr>"

lemma ex_request: "request_summary ex_env model prompt n level None label ex_run = (Inr (js_lit ''summary'', am_usage (ex_reply ''summary'')), ex_run)"
  by (simp add: request_summary_def completeSimpleWithRetries_def ex_env_def ex_run_def ex_reply_def ex_assistant_def
      retryAssistantCall_def retry_loop.simps produce_def finished_def assistantText_def block_texts_def List.map_filter_def Let_def)

lemma ex_compact: "\<exists>result. compact ex_env p model instructions level None ex_run = (Inr result, ex_run)"
  by (simp add: compact_def summary_of_def history_summary_def generateSummaryWithUsage_def generateTurnPrefixSummary_def ex_request
      Let_def split: prod.split)

theorem compaction_files_accumulate_witness:
  "\<exists>p result r'. prepareCompaction ex_path ex_settings = Inr (Some p) \<and>
     compact ex_env p ex_model None None None ex_run = (Inr result, r') \<and>
     set (cr_modifiedFiles result) = recorded ''modifiedFiles'' ex_path
      \<union> touched [''edit'', ''write''] (pr_messagesToSummarize p @ pr_turnPrefixMessages p)"
proof -
  obtain p where p: "prepareCompaction ex_path ex_settings = Inr (Some p)" by (rule ex_path_prepared)
  obtain result where c: "compact ex_env p ex_model None None None ex_run = (Inr result, ex_run)"
    using ex_compact by blast
  have "\<exists>entry. stores_result entry result" by (rule exI [of _ "_\<lparr>en_body := _\<rparr>"]) (simp add: stores_result_def)
  then obtain entry where "stores_result entry result" ..
  from compaction_files_accumulate [OF p c this, of "[]"] p c show ?thesis by auto
qed

section \<open>The summary of a split turn\<close>

text \<open>
  When the split turn is the first one, nothing is left to summarise before it, and the result does not
  depend on the previous summary at all: what earlier compactions summarised is lost.
\<close>

lemma split_turn_drops_previous_summary:
  assumes "pr_isSplitTurn p" and "pr_turnPrefixMessages p \<noteq> []" and "pr_messagesToSummarize p = []"
  shows "compact env (p\<lparr>pr_previousSummary := s\<rparr>) model instructions level retry r = compact env p model instructions level retry r"
  using assms by (simp add: compact_def summary_of_def history_summary_def split: prod.split sum.split)

text \<open>Such a preparation: a turn that began in the tail of the previous compaction is split.\<close>

definition ex_split_path :: "Entry list" where
  "ex_split_path = [(ex_entry ''sum'' 1 None)\<lparr>en_body := CompactionEntry (js_lit ''old summary'') [ex_user ''ask''] 7 None None\<rparr>,
     (ex_entry ''a'' 2 (Some (js_lit ''sum'')))\<lparr>en_body := MessageEntry (MAssistant (ex_reply ''working'')) False\<rparr>,
     (ex_entry ''b'' 3 (Some (js_lit ''a'')))\<lparr>en_body := MessageEntry (MAssistant (ex_reply ''done'')) False\<rparr>]"

lemma split_turn_reachable:
  "case prepareCompaction ex_split_path \<lparr>co_enabled = True, co_reserveTokens = 0, co_keepRecentTokens = 1\<rparr> of
     Inr (Some p) \<Rightarrow> pr_isSplitTurn p \<and> pr_turnPrefixMessages p \<noteq> [] \<and> pr_messagesToSummarize p = []
       \<and> pr_previousSummary p = Some (js_lit ''old summary'')
   | _ \<Rightarrow> False"
  by code_simp

text \<open>A deferred response, which no context shows, is retained by a compaction and shown from then on.\<close>

definition ex_deferred_path :: "Entry list" where
  "ex_deferred_path = [ex_entry ''ask'' 1 None,
     (ex_entry ''b'' 2 (Some (js_lit ''ask'')))\<lparr>en_body := MessageEntry (MAssistant ((ex_reply ''later'')\<lparr>am_stopReason := SDeferred\<rparr>)) False\<rparr>]"

lemma deferred_response_retained:
  "MAssistant ((ex_reply ''later'')\<lparr>am_stopReason := SDeferred\<rparr>) \<notin>
     set (sc_messages (buildSessionContext ex_deferred_path no_build_options)) \<and>
   (case prepareCompaction ex_deferred_path \<lparr>co_enabled = True, co_reserveTokens = 0, co_keepRecentTokens = 1\<rparr> of
      Inr (Some p) \<Rightarrow> pr_retainedTail p = [MAssistant ((ex_reply ''later'')\<lparr>am_stopReason := SDeferred\<rparr>)]
    | _ \<Rightarrow> False)"
  by code_simp

end
