(* ===== verification/Branch_Summary.thy ===== *)
theory Branch_Summary
  imports Compaction_Summary
begin

text \<open>
  \<^verbatim>\<open>pi/packages/agent/src/harness/compaction/branch-summarization.ts\<close>: the entries that are left behind when a session moves to
  another entry, the messages of them that fit into a budget, and their summary.
\<close>

section \<open>The entries left behind\<close>

definition from_entry :: "ustring \<Rightarrow> BranchBounds" where
  "from_entry start = \<lparr>bb_start = Some start, bb_stopAtType = None, bb_stopAtId = None\<rparr>"

definition any_entry :: EntryQuery where
  "any_entry = \<lparr>q_type = None, q_customType = None, q_order = None, q_limit = None, q_cursor = None\<rparr>"

text \<open>The loop over the parents; it need not end on a storage with a cycle.\<close>

partial_function (option) walk_back ::
  "(ustring \<Rightarrow> Entry option) \<Rightarrow> ustring option \<Rightarrow> ustring option \<Rightarrow> Entry list \<Rightarrow> (SessionError + Entry list) option" where
  "walk_back look commonAncestorId current entries =
     (case current of
        None \<Rightarrow> Some (Inr entries)
      | Some c \<Rightarrow>
          if c = [] \<or> Some c = commonAncestorId then Some (Inr entries)
          else (case look c of
              None \<Rightarrow> Some (Inl (SessionError InvalidEntry (js_lit ''Entry '' @ c @ js_lit '' not found'')))
            | Some entry \<Rightarrow> walk_back look commonAncestorId (en_parentId entry) (entries @ [entry])))"

definition common_ancestor :: "Entry list \<Rightarrow> Entry list \<Rightarrow> ustring option" where
  "common_ancestor oldPath targetPath =
     map_option en_id (find (\<lambda>entry. en_id entry \<in> en_id ` set oldPath) targetPath)"

definition collectEntriesForBranchSummary ::
  "'s SessionStorage \<Rightarrow> 's \<Rightarrow> ustring option \<Rightarrow> ustring \<Rightarrow> (SessionError + (Entry list \<times> ustring option)) option" where
  "collectEntriesForBranchSummary S s oldLeafId targetId =
     (if \<not> truthy oldLeafId then Some (Inr ([], None))
      else
        (case rbind (tree_findEntriesOnBranch (session_tree S) s any_entry (from_entry (the oldLeafId))) (\<lambda>oldPath.
              rbind (tree_findEntriesOnBranch (session_tree S) s any_entry (from_entry targetId)) (\<lambda>targetPath.
              Inr (common_ancestor oldPath targetPath))) of
           Inl e \<Rightarrow> Some (Inl e)
         | Inr commonAncestorId \<Rightarrow>
             (case walk_back (tree_getEntry (session_tree S) s) commonAncestorId oldLeafId [] of
                None \<Rightarrow> None
              | Some (Inl e) \<Rightarrow> Some (Inl e)
              | Some (Inr entries) \<Rightarrow> Some (Inr (rev entries, commonAncestorId)))))"

section \<open>Messages within a budget\<close>

definition branch_message :: "Entry \<Rightarrow> AgentMessage option" where
  "branch_message entry =
     (case en_body entry of
        MessageEntry m _ \<Rightarrow> if is_tool_result m then None else Some m
      | BranchSummaryEntry fromId summary _ _ \<Rightarrow>
          Some (MBranchSummary (createBranchSummaryMessage summary fromId (en_timestamp entry)))
      | CompactionEntry summary _ tokensBefore _ _ \<Rightarrow>
          Some (MCompactionSummary (createCompactionSummaryMessage summary tokensBefore (en_timestamp entry)))
      | _ \<Rightarrow> None)"

record BranchPreparation =
  bp_messages :: "AgentMessage list"
  bp_fileOps :: FileOperations
  bp_totalTokens :: int

text \<open>The first loop: the files recorded by the branch summaries of the branch.\<close>

definition entry_details :: "Entry \<Rightarrow> FileOperations \<Rightarrow> FileOperations" where
  "entry_details entry fileOps = (case en_body entry of BranchSummaryEntry _ _ details _ \<Rightarrow> add_details details fileOps | _ \<Rightarrow> fileOps)"

abbreviation (input) num_0_9 :: "64 word" where "num_0_9 \<equiv> 0x3feccccccccccccd"

text \<open>\<open>n < x\<close> for an integer and a finite number.\<close>

definition below :: "int \<Rightarrow> jsnum \<Rightarrow> bool" where
  "below n x = (case x of NFrac _ \<Rightarrow> n \<le> floor_num x | _ \<Rightarrow> n < floor_num x)"

definition is_summary_entry :: "Entry \<Rightarrow> bool" where
  "is_summary_entry entry \<longleftrightarrow> en_type entry = TCompaction \<or> en_type entry = TBranchSummary"

text \<open>The second loop, over the entries from the newest on.\<close>

fun take_messages :: "int \<Rightarrow> Entry list \<Rightarrow> BranchPreparation \<Rightarrow> BranchPreparation" where
  "take_messages tokenBudget [] b = b"
| "take_messages tokenBudget (entry # older) b =
     (case branch_message entry of
        None \<Rightarrow> take_messages tokenBudget older b
      | Some message \<Rightarrow>
          (let b1 = b\<lparr>bp_fileOps := extractFileOpsFromMessage message (bp_fileOps b)\<rparr>;
               tokens = estimateTokens message;
               b2 = b1\<lparr>bp_messages := message # bp_messages b1, bp_totalTokens := bp_totalTokens b1 + tokens\<rparr>
           in if tokenBudget > 0 \<and> bp_totalTokens b1 + tokens > tokenBudget
              then (if is_summary_entry entry \<and> below (bp_totalTokens b1) (share num_0_9 tokenBudget) then b2 else b1)
              else take_messages tokenBudget older b2))"

definition prepareBranchEntries :: "Entry list \<Rightarrow> int \<Rightarrow> BranchPreparation" where
  "prepareBranchEntries entries tokenBudget =
     take_messages tokenBudget (rev entries)
       \<lparr>bp_messages = [], bp_fileOps = fold entry_details entries createFileOps, bp_totalTokens = 0\<rparr>"

section \<open>The summary\<close>

definition BRANCH_SUMMARY_PREAMBLE :: ustring where
  \<open>BRANCH_SUMMARY_PREAMBLE = join newline
     [js_lit ''The user explored a different conversation branch before returning here.'',
      js_lit ''Summary of that exploration:'',
      [],
      []]\<close>

definition BRANCH_SUMMARY_PROMPT :: ustring where
  \<open>BRANCH_SUMMARY_PROMPT = join newline
     [js_lit ''Create a structured summary of this conversation branch for context when returning later.'',
      [],
      js_lit ''Use this EXACT format:'',
      [],
      js_lit ''## Goal'',
      js_lit ''[What was the user trying to accomplish in this branch?]'',
      [],
      js_lit ''## Constraints & Preferences'',
      js_lit ''- [Any constraints, preferences, or requirements mentioned]'',
      js_lit ''- [Or "(none)" if none were mentioned]'',
      [],
      js_lit ''## Progress'',
      js_lit ''### Done'',
      js_lit ''- [x] [Completed tasks/changes]'',
      [],
      js_lit ''### In Progress'',
      js_lit ''- [ ] [Work that was started but not finished]'',
      [],
      js_lit ''### Blocked'',
      js_lit ''- [Issues preventing progress, if any]'',
      [],
      js_lit ''## Key Decisions'',
      js_lit ''- **[Decision]**: [Brief rationale]'',
      [],
      js_lit ''## Next Steps'',
      js_lit ''1. [What should happen next to continue this work]'',
      [],
      js_lit ''Keep each section concise. Preserve exact file paths, function names, and error messages.'']\<close>

datatype BranchSummaryErrorCode = BAborted | BSummarizationFailed

datatype BranchSummaryError = BranchSummaryError BranchSummaryErrorCode ustring

record BranchSummaryResult =
  br_summary :: ustring
  br_usage :: "Usage option"
  br_readFiles :: "ustring list"
  br_modifiedFiles :: "ustring list"

record GenerateBranchSummaryOptions =
  go_model :: Model
  go_customInstructions :: "ustring option"
  go_replaceInstructions :: "bool option"
  go_reserveTokens :: "int option"
  go_retry :: "RetryPolicy option"

definition branch_budget :: "GenerateBranchSummaryOptions \<Rightarrow> int" where
  "branch_budget options =
     (let reserveTokens = (case go_reserveTokens options of Some n \<Rightarrow> n | None \<Rightarrow> 16384);
          contextWindow = (if mo_contextWindow (go_model options) \<noteq> 0 then mo_contextWindow (go_model options) else 128000)
      in contextWindow - reserveTokens)"

definition branch_instructions :: "GenerateBranchSummaryOptions \<Rightarrow> ustring" where
  "branch_instructions options =
     (let custom = go_customInstructions options
      in if go_replaceInstructions options = Some True \<and> truthy custom then the custom
         else if truthy custom then BRANCH_SUMMARY_PROMPT @ newline @ newline @ js_lit ''Additional focus: '' @ the custom
         else BRANCH_SUMMARY_PROMPT)"

definition generateBranchSummary ::
  "'w SummaryEnv \<Rightarrow> Entry list \<Rightarrow> GenerateBranchSummaryOptions \<Rightarrow> 'w RetryRun
     \<Rightarrow> (BranchSummaryError + BranchSummaryResult) \<times> 'w RetryRun" where
  "generateBranchSummary env entries options r =
     (let b = prepareBranchEntries entries (branch_budget options)
      in if bp_messages b = []
         then (Inr \<lparr>br_summary = js_lit ''No content to summarize'', br_usage = None, br_readFiles = [], br_modifiedFiles = []\<rparr>, r)
         else
           (let promptText = conversation_prompt (bp_messages b) @ branch_instructions options;
                (now, w) = su_now env (rr_world r);
                (response, r') = completeSimpleWithRetries env (go_model options)
                  (SUMMARIZATION_SYSTEM_PROMPT, [text_user promptText now]) (2048, None) (go_retry options) (r\<lparr>rr_world := w\<rparr>);
                (readFiles, modifiedFiles) = computeFileLists (bp_fileOps b);
                summary = BRANCH_SUMMARY_PREAMBLE @ assistantText response @ formatFileOperations readFiles modifiedFiles
            in (if am_stopReason response = SAborted
                then Inl (BranchSummaryError BAborted (message_or (am_errorMessage response) (js_lit ''Branch summary aborted'')))
                else if am_stopReason response = SError
                then Inl (BranchSummaryError BSummarizationFailed
                  (js_lit ''Branch summary failed: '' @ message_or (am_errorMessage response) (js_lit ''Unknown error'')))
                else Inr \<lparr>br_summary = (if summary \<noteq> [] then summary else js_lit ''No summary generated''),
                  br_usage = Some (am_usage response), br_readFiles = readFiles, br_modifiedFiles = modifiedFiles\<rparr>, r')))"

section \<open>The entries left behind are those after the common ancestor\<close>

text \<open>What the collection needs of a storage besides the contract of sessions: the newest-first scan of a branch.\<close>

locale branch_reader = session_storage S ok for S :: "'s SessionStorage" and ok :: "'s \<Rightarrow> bool" +
  assumes newest_first: "ok s \<Longrightarrow> so_getEntry S s i = Some e \<Longrightarrow>
      so_findEntriesOnBranch S s any_entry (from_entry i) i =
        map_sum id rev (so_findEntriesOnBranch S s oldest_first no_bounds i)"
begin

lemma scan_newest:
  assumes "ok s" and "so_getEntry S s i = Some e"
  obtains path where "so_findEntriesOnBranch S s oldest_first no_bounds i = Inr path"
    and "tree_findEntriesOnBranch (session_tree S) s any_entry (from_entry i) = Inr (rev path)"
    and "chain None path" and "path \<noteq> []" and "last path = e" and "\<forall>x \<in> set path. so_getEntry S s (en_id x) = Some x"
    and "en_id e = i"
proof -
  obtain path where p: "so_findEntriesOnBranch S s oldest_first no_bounds i = Inr path" "chain None path"
      "path \<noteq> []" "last path = e" "\<forall>x \<in> set path. so_getEntry S s (en_id x) = Some x"
    using branch [OF assms] by blast
  have "tree_findEntriesOnBranch (session_tree S) s any_entry (from_entry i) = so_findEntriesOnBranch S s any_entry (from_entry i) i"
    by (simp add: session_tree_def view_def queryBranchEntries_def any_entry_def from_entry_def)
  with newest_first [OF assms] p(1) have "tree_findEntriesOnBranch (session_tree S) s any_entry (from_entry i) = Inr (rev path)"
    by simp
  with that p stored_id [OF assms] show ?thesis by blast
qed

end

text \<open>Walking back from the end of a chain over the entries after the ancestor.\<close>

lemma chain_append: "chain prev (xs @ ys) \<longleftrightarrow> chain prev xs \<and> chain (if xs = [] then prev else Some (en_id (last xs))) ys"
  by (induction xs arbitrary: prev) auto

lemma walk_back_chain:
  assumes "chain ancestor mine" and "\<forall>x \<in> set mine. look (en_id x) = Some x \<and> en_id x \<noteq> [] \<and> Some (en_id x) \<noteq> ancestor"
  shows "walk_back look ancestor (if mine = [] then ancestor else Some (en_id (last mine))) acc = Some (Inr (acc @ rev mine))"
  using assms
proof (induction mine arbitrary: acc rule: rev_induct)
  case Nil
  show ?case by (cases ancestor) (simp_all add: walk_back.simps)
next
  case (snoc x mine)
  from snoc.prems have "en_parentId x = (if mine = [] then ancestor else Some (en_id (last mine)))"
    by (simp add: chain_snoc)
  with snoc.IH [of "acc @ [x]"] snoc.prems show ?case
    by (simp add: chain_snoc walk_back.simps [of look ancestor "Some (en_id x)"])
qed

lemma path_distinct:
  assumes "chain None path" and "\<forall>x \<in> set path. look (en_id x) = Some x"
  shows "distinct (map en_id path)"
proof -
  have "inj_on en_id (set path)" using assms(2) by (metis inj_onI option.inject)
  moreover have "distinct path"
  proof (rule ccontr)
    assume "\<not> distinct path"
    then obtain xs ys zs y where p: "path = xs @ [y] @ ys @ [y] @ zs" using not_distinct_decomp by blast
    then have "chain None (xs @ [y])" "chain None (xs @ [y] @ ys @ [y])"
      using assms(1) by (auto simp: chain_append split: if_splits)
    then have "xs @ [y] = xs @ [y] @ ys @ [y]"
      using assms(2) p by (intro path_unique [of _ y look]) auto
    then show False by simp
  qed
  ultimately show ?thesis by (simp add: distinct_map)
qed

lemma find_split: "find p xs = Some a \<Longrightarrow> \<exists>ys zs. xs = ys @ a # zs \<and> (\<forall>y \<in> set ys. \<not> p y) \<and> p a"
proof (induction xs)
  case (Cons x xs)
  show ?case
  proof (cases "p x")
    case True
    with Cons.prems show ?thesis by (intro exI [of _ "[]"] exI [of _ xs]) auto
  next
    case False
    with Cons obtain ys zs where "xs = ys @ a # zs" "\<forall>y \<in> set ys. \<not> p y" "p a" by auto
    with False show ?thesis by (intro exI [of _ "x # ys"] exI [of _ zs]) auto
  qed
qed simp

lemma common_split:
  assumes P: "chain None P" "\<forall>x \<in> set P. look (en_id x) = Some x"
    and Q: "chain None Q" "\<forall>x \<in> set Q. look (en_id x) = Some x"
  obtains common mine theirs where "P = common @ mine" and "Q = common @ theirs"
    and "common_ancestor (rev P) (rev Q) = (if common = [] then None else Some (en_id (last common)))"
    and "en_id ` set theirs \<inter> en_id ` set P = {}"
proof (cases "find (\<lambda>e. en_id e \<in> en_id ` set P) (rev Q)")
  case None
  then have "en_id ` set Q \<inter> en_id ` set P = {}" by (auto simp: find_None_iff)
  with that [of "[]" P Q] None show ?thesis by (simp add: common_ancestor_def)
next
  case (Some a)
  obtain ys zs where q: "rev Q = ys @ a # zs" "\<forall>y \<in> set ys. en_id y \<notin> en_id ` set P" "en_id a \<in> en_id ` set P"
    using find_split [OF Some] by blast
  have Qs: "Q = (rev zs @ [a]) @ rev ys" using q(1) by (metis append_Cons append_assoc append_self_conv2 rev_append rev_eq_Cons_iff rev_rev_ident)
  have "a \<in> set P" using q(3) P(2) Q(2) Qs by (metis UnCI imageE in_set_conv_decomp option.inject set_append)
  then obtain P1 P2 where Ps: "P = (P1 @ [a]) @ P2" by (metis append_Cons append_assoc append_self_conv2 split_list)
  have "rev zs @ [a] = P1 @ [a]"
    using P Q Ps Qs by (intro path_unique [of _ a look]) (auto simp: chain_append)
  moreover have "common_ancestor (rev P) (rev Q) = Some (en_id a)" by (simp add: common_ancestor_def Some)
  moreover have "en_id ` set (rev ys) \<inter> en_id ` set P = {}" using q(2) by auto
  ultimately show ?thesis
    using that [of "P1 @ [a]" P2 "rev ys"] Ps Qs by simp
qed

context branch_reader
begin

lemma collects_after_ancestor:
  assumes "ok s" and "so_getEntry S s leaf = Some e" and "so_getEntry S s target = Some t"
    and "\<And>i x. so_getEntry S s i = Some x \<Longrightarrow> i \<noteq> []"
  shows "\<exists>common mine theirs.
    so_findEntriesOnBranch S s oldest_first no_bounds leaf = Inr (common @ mine) \<and>
    so_findEntriesOnBranch S s oldest_first no_bounds target = Inr (common @ theirs) \<and>
    en_id ` set mine \<inter> en_id ` set theirs = {} \<and>
    collectEntriesForBranchSummary S s (Some leaf) target =
      Some (Inr (mine, if common = [] then None else Some (en_id (last common))))"
proof -
  obtain P where P: "so_findEntriesOnBranch S s oldest_first no_bounds leaf = Inr P"
      "tree_findEntriesOnBranch (session_tree S) s any_entry (from_entry leaf) = Inr (rev P)"
      "chain None P" "P \<noteq> []" "last P = e" "\<forall>x \<in> set P. so_getEntry S s (en_id x) = Some x" "en_id e = leaf"
    by (rule scan_newest [OF assms(1,2)])
  obtain Q where Q: "so_findEntriesOnBranch S s oldest_first no_bounds target = Inr Q"
      "tree_findEntriesOnBranch (session_tree S) s any_entry (from_entry target) = Inr (rev Q)"
      "chain None Q" "\<forall>x \<in> set Q. so_getEntry S s (en_id x) = Some x"
    by (rule scan_newest [OF assms(1,3)])
  obtain common mine theirs where c: "P = common @ mine" "Q = common @ theirs"
      "common_ancestor (rev P) (rev Q) = (if common = [] then None else Some (en_id (last common)))"
      "en_id ` set theirs \<inter> en_id ` set P = {}"
    by (rule common_split [OF P(3,6) Q(3,4)])
  let ?a = "if common = [] then None else Some (en_id (last common))"
  have "distinct (map en_id P)" by (rule path_distinct [OF P(3,6)])
  then have "en_id x \<noteq> en_id (last common)" if "x \<in> set mine" "common \<noteq> []" for x
    using that c(1) last_in_set [of common] by force
  then have "\<forall>x \<in> set mine. so_getEntry S s (en_id x) = Some x \<and> en_id x \<noteq> [] \<and> Some (en_id x) \<noteq> ?a"
    using c(1) P(6) assms(4) by auto
  moreover have "chain ?a mine" using P(3) c(1) by (simp add: chain_append)
  moreover have "Some leaf = (if mine = [] then ?a else Some (en_id (last mine)))"
    using P(4,5,7) c(1) by auto
  ultimately have "walk_back (so_getEntry S s) ?a (Some leaf) [] = Some (Inr (rev mine))"
    using walk_back_chain [of ?a mine "so_getEntry S s" "[]"] by simp
  moreover have "truthy (Some leaf)" using assms(4) [OF assms(2)] by (auto simp: truthy_def split: list.split)
  ultimately have "collectEntriesForBranchSummary S s (Some leaf) target = Some (Inr (mine, ?a))"
    using P(2) Q(2) c(3) by (simp add: collectEntriesForBranchSummary_def session_tree_def view_def)
  moreover have "en_id ` set mine \<inter> en_id ` set theirs = {}" using c(1,4) by auto
  ultimately show ?thesis using P(1) Q(1) c(1,2) by blast
qed

end

lemma take_until_never: "(\<And>x. \<not> p x) \<Longrightarrow> take_until p xs = xs"
  by (induction xs) auto

interpretation memory_branches: branch_reader memory_storage storage_ok
proof unfold_locales
  fix s i e
  assume a: "storage_ok s" "so_getEntry memory_storage s i = Some e"
  then have st: "state_ok (im_state s)" and g: "map_of (ss_entriesById (im_state s)) i = Some e"
    by (auto simp: storage_ok_def memory_storage_def getEntry_def)
  have v: "assertValidLimit (q_limit any_entry) = Inr None" "assertValidCursor (q_cursor any_entry) = Inr None"
    by (simp_all add: any_entry_def)
  obtain p where p: "root_path (im_state s) p e" "findEntriesOnBranch (im_state s) any_entry (from_entry i) i =
      Inr (limited None (filter (\<lambda>e. matchesEntryQuery e any_entry None) (take_until (walk_stops (Some (from_entry i))) (ordered p (q_order any_entry)))))"
    using findEntriesOnBranch_path [OF st g v] by blast
  obtain q where q: "root_path (im_state s) q e" "findEntriesOnBranch (im_state s) oldest_first no_bounds i = Inr q"
    using findEntriesOnBranch_whole [OF st g] by blast
  have "p = q" using p(1) q(1) index_get st
    by (intro path_unique [of _ e "map_of (ss_entriesById (im_state s))"]) (auto simp: root_path_def state_ok_def)
  moreover have "walk_stops (Some (from_entry i)) = (\<lambda>_. False)"
    by (simp add: walk_stops_def from_entry_def fun_eq_iff)
  ultimately show "so_findEntriesOnBranch memory_storage s any_entry (from_entry i) i =
      map_sum id rev (so_findEntriesOnBranch memory_storage s oldest_first no_bounds i)"
    using p(2) q(2) by (simp add: memory_storage_def limited_def ordered_def any_entry_def matchesEntryQuery_def)
qed

text \<open>
  C33. On every storage clients can produce, and between any two of its entries, the collection returns: exactly the
  entries of the old branch that are not on the branch of the target, oldest first, and their common ancestor, the
  deepest entry of both branches, if there is one.
\<close>

theorem branch_collection:
  assumes "mem_reachable s" and "getEntry (im_state s) leaf = Some e" and "getEntry (im_state s) target = Some t"
    and "getEntry (im_state s) [] = None"
  shows "\<exists>common mine theirs.
    findEntriesOnBranch (im_state s) oldest_first no_bounds leaf = Inr (common @ mine) \<and>
    findEntriesOnBranch (im_state s) oldest_first no_bounds target = Inr (common @ theirs) \<and>
    en_id ` set mine \<inter> en_id ` set theirs = {} \<and>
    collectEntriesForBranchSummary memory_storage s (Some leaf) target =
      Some (Inr (mine, if common = [] then None else Some (en_id (last common))))"
proof -
  have m: "so_getEntry memory_storage s = getEntry (im_state s)"
    "so_findEntriesOnBranch memory_storage s = findEntriesOnBranch (im_state s)" by (simp_all add: memory_storage_def)
  show ?thesis
    using memory_branches.collects_after_ancestor [OF mem_reachable_ok [OF assms(1)], of leaf e target t] assms(2-4)
    unfolding m by force
qed

lemma ex_two_entries:
  "\<exists>s1 s2 b. im_appendEntry (new_InMemorySessionStorage ex_metadata) 5 (ex_provisioned ''a'') main_lane = Inr (ex_entry ''a'' 1 None, s1)
     \<and> im_appendEntry s1 6 (ex_provisioned ''b'') main_lane = Inr (b, s2)
     \<and> getEntry (im_state s2) (js_lit ''a'') = Some (ex_entry ''a'' 1 None) \<and> getEntry (im_state s2) (js_lit ''b'') = Some b
     \<and> getEntry (im_state s2) [] = None
     \<and> findEntriesOnBranch (im_state s2) oldest_first no_bounds (js_lit ''a'') = Inr [ex_entry ''a'' 1 None]
     \<and> findEntriesOnBranch (im_state s2) oldest_first no_bounds (js_lit ''b'') = Inr [ex_entry ''a'' 1 None, b]"
  by (simp add: im_eval ex_provisioned_def ex_entry_def Let_def findEntriesOnBranch_def oldest_first_def
      walkToRoot_def walk_from.simps walk_stops_def no_bounds_def matchesEntryQuery_def getEntry_def)

theorem branch_collection_witness:
  "\<exists>s b. mem_reachable s \<and> getEntry (im_state s) (js_lit ''b'') = Some b \<and>
     collectEntriesForBranchSummary memory_storage s (Some (js_lit ''b'')) (js_lit ''a'') = Some (Inr ([b], Some (js_lit ''a'')))"
proof -
  let ?a = "ex_entry ''a'' 1 None"
  obtain s1 s b where a: "im_appendEntry (new_InMemorySessionStorage ex_metadata) 5 (ex_provisioned ''a'') main_lane = Inr (?a, s1)"
      "im_appendEntry s1 6 (ex_provisioned ''b'') main_lane = Inr (b, s)"
      "getEntry (im_state s) (js_lit ''a'') = Some ?a" "getEntry (im_state s) (js_lit ''b'') = Some b" "getEntry (im_state s) [] = None"
      "findEntriesOnBranch (im_state s) oldest_first no_bounds (js_lit ''a'') = Inr [?a]"
      "findEntriesOnBranch (im_state s) oldest_first no_bounds (js_lit ''b'') = Inr [?a, b]"
    using ex_two_entries by blast
  have r: "mem_reachable s"
    by (rule mem_reachable.stepped [OF mem_reachable.stepped [OF mem_reachable.created mem_step.appendEntry [OF a(1)]]
          mem_step.appendEntry [OF a(2)]])
  obtain common mine theirs where c: "[?a, b] = common @ mine" "[?a] = common @ theirs" "en_id ` set mine \<inter> en_id ` set theirs = {}"
      "collectEntriesForBranchSummary memory_storage s (Some (js_lit ''b'')) (js_lit ''a'') =
        Some (Inr (mine, if common = [] then None else Some (en_id (last common))))"
    using branch_collection [OF r a(4,3,5)] a(6,7) by auto
  have "common = [?a] \<and> mine = [b]" using c(1-3) by (cases common) auto
  moreover have "en_id ?a = js_lit ''a''" by (simp add: ex_entry_def)
  ultimately show ?thesis using c(4) r a(4) by auto
qed

section \<open>The budget\<close>

lemma estimateTokens_nonneg: "0 \<le> estimateTokens m"
  by (simp add: estimateTokens_def)

text \<open>
  The messages \<open>b\<close> has taken so far are extended by the newest of the messages of the remaining entries; what is left
  out would have exceeded the budget, and only a summary may exceed it.
\<close>

fun is_summary_message :: "AgentMessage \<Rightarrow> bool" where
  "is_summary_message (MBranchSummary _) = True"
| "is_summary_message (MCompactionSummary _) = True"
| "is_summary_message _ = False"

definition taken :: "int \<Rightarrow> AgentMessage list \<Rightarrow> BranchPreparation \<Rightarrow> BranchPreparation \<Rightarrow> bool" where
  "taken budget available b r \<longleftrightarrow> (\<exists>left got. available = left @ got \<and> bp_messages r = got @ bp_messages b \<and>
     bp_totalTokens r = bp_totalTokens b + sum_list (map estimateTokens got) \<and>
     (left \<noteq> [] \<longrightarrow> 0 < budget \<and> budget < bp_totalTokens r + estimateTokens (last left)) \<and>
     (0 < budget \<and> bp_totalTokens b \<le> budget \<longrightarrow> bp_totalTokens r \<le> budget \<or>
        got \<noteq> [] \<and> is_summary_message (hd got) \<and> below (bp_totalTokens r - estimateTokens (hd got)) (share num_0_9 budget)))"

lemma summary_entry_message:
  "is_summary_entry e \<Longrightarrow> branch_message e = Some m \<Longrightarrow> is_summary_message m"
  by (auto simp: is_summary_entry_def branch_message_def split: entry_body.splits)

lemma take_messages_taken:
  "taken budget (List.map_filter branch_message (rev es)) b (take_messages budget es b)"
proof (induction budget es b rule: take_messages.induct)
  case (1 budget b)
  show ?case by (simp add: taken_def List.map_filter_def)
next
  case (2 budget e older b)
  show ?case
  proof (cases "branch_message e")
    case None
    with 2(1) show ?thesis by (simp add: map_filter_Cons List.map_filter_def)
  next
    case (Some m)
    let ?b1 = "b\<lparr>bp_fileOps := extractFileOpsFromMessage m (bp_fileOps b)\<rparr>"
    let ?b2 = "?b1\<lparr>bp_messages := m # bp_messages ?b1, bp_totalTokens := bp_totalTokens ?b1 + estimateTokens m\<rparr>"
    let ?ms = "List.map_filter branch_message (rev older)"
    have all: "List.map_filter branch_message (rev (e # older)) = ?ms @ [m]"
      using Some by (simp add: List.map_filter_def)
    show ?thesis
    proof (cases "0 < budget \<and> bp_totalTokens b + estimateTokens m > budget")
      case True
      show ?thesis
      proof (cases "is_summary_entry e \<and> below (bp_totalTokens b) (share num_0_9 budget)")
        case s: True
        then have "take_messages budget (e # older) b = ?b2" using True Some by (simp add: Let_def)
        then show ?thesis
          unfolding taken_def all using True s summary_entry_message [OF _ Some] estimateTokens_nonneg [of "last ?ms"]
          by (intro exI [of _ ?ms] exI [of _ "[m]"]) auto
      next
        case s: False
        then have "take_messages budget (e # older) b = ?b1" using True Some by (auto simp: Let_def)
        then show ?thesis
          unfolding taken_def all using True by (intro exI [of _ "?ms @ [m]"] exI [of _ "[]"]) auto
      qed
    next
      case False
      then have t: "take_messages budget (e # older) b = take_messages budget older ?b2" using Some by (auto simp: Let_def)
      have "taken budget ?ms ?b2 (take_messages budget older ?b2)" using 2(2) [OF Some refl refl refl] False by simp
      then obtain left got where g: "?ms = left @ got" "bp_messages (take_messages budget older ?b2) = got @ m # bp_messages b"
          "bp_totalTokens (take_messages budget older ?b2) = bp_totalTokens b + estimateTokens m + sum_list (map estimateTokens got)"
          "left \<noteq> [] \<longrightarrow> 0 < budget \<and> budget < bp_totalTokens (take_messages budget older ?b2) + estimateTokens (last left)"
          "0 < budget \<longrightarrow> bp_totalTokens (take_messages budget older ?b2) \<le> budget \<or>
            got \<noteq> [] \<and> is_summary_message (hd got) \<and>
              below (bp_totalTokens (take_messages budget older ?b2) - estimateTokens (hd got)) (share num_0_9 budget)"
        using False unfolding taken_def by auto
      then show ?thesis
        unfolding taken_def all t by (intro exI [of _ left] exI [of _ "got @ [m]"]) auto
    qed
  qed
qed

text \<open>
  C34. The messages to summarise are the newest ones of the branch, with no gap, and their token count is the sum of the
  estimates. Within a positive budget as many are taken as fit; the count exceeds the budget only by a summary taken
  last, when less than nine tenths of the budget were used before it. A budget that is not positive takes all.
\<close>

theorem branch_messages_fit:
  assumes "r = prepareBranchEntries entries budget"
  shows "\<exists>left. List.map_filter branch_message entries = left @ bp_messages r \<and>
    bp_totalTokens r = sum_list (map estimateTokens (bp_messages r)) \<and>
    (left \<noteq> [] \<longrightarrow> 0 < budget \<and> budget < bp_totalTokens r + estimateTokens (last left)) \<and>
    (0 < budget \<longrightarrow> bp_totalTokens r \<le> budget \<or>
      bp_messages r \<noteq> [] \<and> is_summary_message (hd (bp_messages r)) \<and>
      below (bp_totalTokens r - estimateTokens (hd (bp_messages r))) (share num_0_9 budget))"
  using take_messages_taken [of budget "rev entries" "\<lparr>bp_messages = [], bp_fileOps = fold entry_details entries createFileOps, bp_totalTokens = 0\<rparr>"]
  unfolding assms prepareBranchEntries_def taken_def by auto

theorem branch_messages_fit_witness:
  "\<exists>left. List.map_filter branch_message ex_path = left @ bp_messages (prepareBranchEntries ex_path 3) \<and>
     bp_totalTokens (prepareBranchEntries ex_path 3) \<le> 3 \<and> bp_messages (prepareBranchEntries ex_path 3) = [ex_user ''next'']"
proof -
  have e: "bp_messages (prepareBranchEntries ex_path 3) = [ex_user ''next'']" by code_simp
  have "\<not> is_summary_message (ex_user ''next'')" by (simp add: ex_user_def)
  with e branch_messages_fit [of "prepareBranchEntries ex_path 3" ex_path 3] show ?thesis by auto
qed

text \<open>
  A model whose window is not larger than the reserve has no positive budget, and no limit applies: the request
  carries the whole branch.
\<close>

lemma small_window_takes_everything:
  assumes "branch_budget options \<le> 0"
  shows "bp_messages (prepareBranchEntries entries (branch_budget options)) = List.map_filter branch_message entries"
proof -
  let ?b = "\<lparr>bp_messages = [], bp_fileOps = fold entry_details entries createFileOps, bp_totalTokens = 0\<rparr>"
  from take_messages_taken [of "branch_budget options" "rev entries" ?b] assms show ?thesis
    unfolding taken_def prepareBranchEntries_def by force
qed

end
