(* ===== verification/Json_Number.thy ===== *)
theory Json_Number
  imports Json_Parse Complex_Main
begin

text \<open>
  The text of a number reads back as that number: digits and their layout, integers, and rounding of a decimal to the
  binary64 number whose neighbourhood it lies in.
\<close>

section \<open>Digits\<close>

lemma digits_nat_append: "digits_nat (s @ t) = digits_nat s * 10 ^ length t + digits_nat t"
proof (induction t rule: rev_induct)
  case (snoc c t)
  then show ?case by (simp add: digits_nat_def algebra_simps flip: append_assoc)
qed (simp add: digits_nat_def)

lemma digits_nat_zeros [simp]: "digits_nat (zeros n) = 0"
  by (induction n) (simp_all add: digits_nat_def zeros_def replicate_append_same [symmetric])

lemma length_zeros [simp]: "length (zeros n) = n"
  by (simp add: zeros_def)

lemma nat_text_digits: "c \<in> set (nat_text n) \<Longrightarrow> is_digit c"
proof (induction n rule: nat_text.induct)
  case (1 n)
  then show ?case
    using digit_range [of n] digit_range [of "n mod 10"] by (subst (asm) nat_text.simps) (auto simp: is_digit_def simp del: of_nat_add split: if_splits)
qed

lemma nat_text_nonempty [simp]: "nat_text n \<noteq> []"
  by (subst nat_text.simps) simp

lemma digits_nat_text: "digits_nat (nat_text n) = n"
proof (induction n rule: nat_text.induct)
  case (1 n)
  then show ?case
    using unat_digit [of n] unat_digit [of "n mod 10"]
    by (subst nat_text.simps) (simp add: digits_nat_append digits_nat_def del: of_nat_add)
qed

text \<open>No leading zero.\<close>

lemma nat_text_hd: "0 < n \<Longrightarrow> hd (nat_text n) \<noteq> 48"
proof (induction n rule: nat_text.induct)
  case (1 n)
  show ?case
  proof (cases "n < 10")
    case True
    then show ?thesis using unat_digit [of n] 1(2) by (subst nat_text.simps) (auto simp del: of_nat_add dest: arg_cong [of _ _ unat])
  next
    case False
    with 1 show ?thesis by (subst nat_text.simps) simp
  qed
qed

text \<open>What may follow a number.\<close>

definition stops :: "ustring \<Rightarrow> bool" where
  "stops r = (case r of [] \<Rightarrow> True | c # _ \<Rightarrow> \<not> is_digit c \<and> c \<noteq> 46 \<and> c \<noteq> 101 \<and> c \<noteq> 69)"

lemma take_digits:
  assumes "\<forall>c \<in> set ds. is_digit c" and "case r of [] \<Rightarrow> True | c # _ \<Rightarrow> \<not> is_digit c"
  shows "takeWhile is_digit (ds @ r) = ds" and "dropWhile is_digit (ds @ r) = r"
  using assms by (induction ds) (auto split: list.splits)

lemma stops_digit: "stops r \<Longrightarrow> case r of [] \<Rightarrow> True | c # _ \<Rightarrow> \<not> is_digit c"
  by (auto simp: stops_def split: list.splits)

lemma fraction_none: "stops r \<Longrightarrow> fraction_part r = Some ([], r)"
  by (auto simp: stops_def fraction_part_def split: list.splits)

lemma exponent_none: "stops r \<Longrightarrow> exponent_part r = Some (0, r)"
  by (auto simp: stops_def exponent_part_def split: list.splits)

lemma not_digits [simp]: "\<not> is_digit 46" "\<not> is_digit 101" "\<not> is_digit 45" "is_digit 48"
  by (simp_all add: is_digit_def)

text \<open>The sign, an integer part and what follows it.\<close>

lemma parse_number_parts:
  assumes "\<forall>c \<in> set ip. is_digit c" and "ip \<noteq> []" and "hd ip = 48 \<longrightarrow> length ip = 1"
    and "case after of [] \<Rightarrow> True | c # _ \<Rightarrow> \<not> is_digit c"
    and "fraction_part after = Some (fp, s3)" and "exponent_part s3 = Some (e, r)"
  shows "parse_number ((if neg then js_lit ''-'' else []) @ ip @ after) = Some (decimal_num neg (digits_nat (ip @ fp)) (e - int (length fp)), r)"
proof -
  have "hd ip \<noteq> 45" using assms(1,2) by (metis hd_in_set not_digits(3))
  then have h: "\<exists>c cs. ip = c # cs \<and> c \<noteq> 45" using assms(2) by (cases ip) auto
  show ?thesis
    using h take_digits [OF assms(1,4)] assms(1,3,5,6) unfolding parse_number_def js_lit_def Let_def
    by (cases neg) auto
qed

section \<open>The layout of a decimal\<close>

lemma exponent_text:
  assumes "stops r"
  shows "exponent_part (js_lit ''e'' @ (if x < 0 then js_lit ''-'' else js_lit ''+'') @ nat_text (nat \<bar>x\<bar>) @ r) = Some (x, r)"
  using take_digits [of "nat_text (nat \<bar>x\<bar>)" r] stops_digit [OF assms] nat_text_digits
  by (auto simp: exponent_part_def js_lit_def digits_nat_text Let_def)

lemma fraction_text:
  assumes "\<forall>c \<in> set fp. is_digit c" and "fp \<noteq> []" and "case r of [] \<Rightarrow> True | c # _ \<Rightarrow> \<not> is_digit c"
  shows "fraction_part (js_lit ''.'' @ fp @ r) = Some (fp, r)"
  using take_digits [OF assms(1,3)] assms(2) by (simp add: fraction_part_def js_lit_def)

lemma exponent_start:
  "fraction_part (js_lit ''e'' @ r) = Some ([], js_lit ''e'' @ r)" "case js_lit ''e'' @ r of [] \<Rightarrow> True | c # _ \<Rightarrow> \<not> is_digit c"
  "case js_lit ''.'' @ r of [] \<Rightarrow> True | c # _ \<Rightarrow> \<not> is_digit c"
  by (simp_all add: fraction_part_def js_lit_def)

text \<open>A decimal \<open>s * 10 ^ q\<close> as numerator and denominator, and when two are the same.\<close>

definition same_decimal :: "nat \<Rightarrow> int \<Rightarrow> nat \<Rightarrow> int \<Rightarrow> bool" where
  "same_decimal s q s' q' \<longleftrightarrow> s * 10 ^ nat q * 10 ^ nat (- q') = s' * 10 ^ nat q' * 10 ^ nat (- q)"

lemma layout_digits_read:
  assumes "0 < a" and "stops r"
  shows "\<exists>s' q'. parse_number ((if neg then js_lit ''-'' else []) @ layout_digits (nat_text a) q @ r) = Some (decimal_num neg s' q', r)
    \<and> 0 < s' \<and> same_decimal a q s' q'"
proof -
  let ?ds = "nat_text a" and ?sg = "if neg then js_lit ''-'' else []"
  let ?k = "int (length (nat_text a))" and ?n = "int (length (nat_text a)) + q"
  have d: "\<forall>c \<in> set ?ds. is_digit c" using nat_text_digits by blast
  have h: "hd ?ds \<noteq> 48" using nat_text_hd [OF assms(1)] .
  have same: "same_decimal a q a q" by (simp add: same_decimal_def)
  have ht: "hd (take n ?ds) \<noteq> 48" "take n ?ds \<noteq> []" if "0 < n" for n using h that by (simp_all add: hd_take)
  consider (whole) "?k \<le> ?n" "?n \<le> 21" | (point) "\<not> ?k \<le> ?n" "0 < ?n" "?n \<le> 21" | (small) "\<not> ?k \<le> ?n" "- 6 < ?n" "?n \<le> 0"
    | (exp1) "\<not> (?k \<le> ?n \<and> ?n \<le> 21)" "\<not> (0 < ?n \<and> ?n \<le> 21)" "\<not> (- 6 < ?n \<and> ?n \<le> 0)" "?k = 1"
    | (exp) "\<not> (?k \<le> ?n \<and> ?n \<le> 21)" "\<not> (0 < ?n \<and> ?n \<le> 21)" "\<not> (- 6 < ?n \<and> ?n \<le> 0)" "?k \<noteq> 1"
    by linarith
  then show ?thesis
  proof cases
    case whole
    let ?ip = "?ds @ zeros (nat q)"
    have "\<forall>c \<in> set ?ip. is_digit c" using d by (auto simp: zeros_def)
    then have "parse_number (?sg @ ?ip @ r) = Some (decimal_num neg (digits_nat ?ip) 0, r)"
      using parse_number_parts [of ?ip r "[]" r 0 r neg] h assms(2) by (simp add: stops_digit fraction_none exponent_none)
    moreover have "digits_nat ?ip = a * 10 ^ nat q" by (simp add: digits_nat_append digits_nat_text)
    ultimately show ?thesis
      using whole assms(1) by (intro exI [of _ "a * 10 ^ nat q"] exI [of _ 0]) (simp add: layout_digits_def same_decimal_def)
  next
    case point
    let ?ip = "take (nat ?n) ?ds" and ?fp = "drop (nat ?n) ?ds"
    have "\<forall>c \<in> set ?ip. is_digit c" "\<forall>c \<in> set ?fp. is_digit c" "?fp \<noteq> []"
      using d point by (auto dest: in_set_takeD in_set_dropD)
    then have "parse_number (?sg @ ?ip @ js_lit ''.'' @ ?fp @ r) = Some (decimal_num neg (digits_nat (?ip @ ?fp)) (0 - int (length ?fp)), r)"
      using ht [of "nat ?n"] point assms(2)
      by (intro parse_number_parts [where ?s3.0 = r]) (simp_all add: exponent_start fraction_text stops_digit exponent_none del: append_take_drop_id)
    moreover have "0 - int (length ?fp) = q" using point by simp
    ultimately have "parse_number (?sg @ ?ip @ js_lit ''.'' @ ?fp @ r) = Some (decimal_num neg a q, r)"
      by (simp only: append_take_drop_id digits_nat_text)
    with point assms(1) same show ?thesis by (intro exI [of _ a] exI [of _ q]) (simp add: layout_digits_def Let_def)
  next
    case small
    let ?fp = "zeros (nat (- ?n)) @ ?ds"
    have "\<forall>c \<in> set ?fp. is_digit c" using d by (auto simp: zeros_def)
    then have "parse_number (?sg @ [48] @ js_lit ''.'' @ ?fp @ r) = Some (decimal_num neg (digits_nat ([48] @ ?fp)) (0 - int (length ?fp)), r)"
      using assms(2) by (intro parse_number_parts [where ?s3.0 = r])
        (simp_all add: exponent_start fraction_text stops_digit exponent_none del: append_assoc)
    moreover have "0 - int (length ?fp) = q" using small by simp
    moreover have "digits_nat ([48] @ ?fp) = a"
      unfolding digits_nat_append by (simp add: digits_nat_text) (simp add: digits_nat_def)
    ultimately have "parse_number (?sg @ js_lit ''0.'' @ ?fp @ r) = Some (decimal_num neg a q, r)"
      by (simp add: js_lit_def)
    with small assms(1) same show ?thesis by (intro exI [of _ a] exI [of _ q]) (simp add: layout_digits_def)
  next
    case exp1
    let ?e = "js_lit ''e'' @ (if ?n - 1 < 0 then js_lit ''-'' else js_lit ''+'') @ nat_text (nat \<bar>?n - 1\<bar>) @ r"
    have "parse_number (?sg @ ?ds @ ?e) = Some (decimal_num neg (digits_nat (?ds @ [])) (?n - 1 - int (length ([] :: ustring))), r)"
      using d h exponent_text [OF assms(2), of "?n - 1"]
      by (intro parse_number_parts [where ?s3.0 = ?e]) (simp_all only: exponent_start, auto)
    then have "parse_number (?sg @ ?ds @ ?e) = Some (decimal_num neg a q, r)" using exp1(4) by (simp add: digits_nat_text)
    with exp1 assms(1) same show ?thesis by (intro exI [of _ a] exI [of _ q]) (auto simp: layout_digits_def Let_def)
  next
    case exp
    let ?e = "js_lit ''e'' @ (if ?n - 1 < 0 then js_lit ''-'' else js_lit ''+'') @ nat_text (nat \<bar>?n - 1\<bar>) @ r"
    let ?ip = "take 1 ?ds" and ?fp = "drop 1 ?ds"
    have l: "1 < length ?ds" using exp(4) by (cases ?ds) auto
    have "\<forall>c \<in> set ?ip. is_digit c" "\<forall>c \<in> set ?fp. is_digit c" "?fp \<noteq> []"
      using d l by (auto dest: in_set_takeD in_set_dropD)
    moreover have "fraction_part (js_lit ''.'' @ ?fp @ ?e) = Some (?fp, ?e)"
      by (rule fraction_text) (use calculation exponent_start(2) in auto)
    ultimately have "parse_number (?sg @ ?ip @ js_lit ''.'' @ ?fp @ ?e) = Some (decimal_num neg (digits_nat (?ip @ ?fp)) (?n - 1 - int (length ?fp)), r)"
      using ht [of 1] exponent_text [OF assms(2), of "?n - 1"]
      by (intro parse_number_parts [where ?s3.0 = ?e]) (simp_all only: exponent_start, auto)
    moreover have "?n - 1 - int (length ?fp) = q" using l by simp
    ultimately have "parse_number (?sg @ ?ip @ js_lit ''.'' @ ?fp @ ?e) = Some (decimal_num neg a q, r)"
      by (simp add: digits_nat_text del: take_Suc)
    with exp assms(1) same show ?thesis by (intro exI [of _ a] exI [of _ q]) (auto simp: layout_digits_def Let_def)
  qed
qed

lemma layout_read:
  assumes "0 < s" and "stops r"
  shows "\<exists>s' q'. parse_number ((if neg then js_lit ''-'' else []) @ layout (s, q) @ r) = Some (decimal_num neg s' q', r)
    \<and> 0 < s' \<and> same_decimal s q s' q'"
proof (cases "s = 10")
  case False
  then show ?thesis using layout_digits_read [OF assms] by (simp add: layout_def)
next
  case True
  obtain s' q' where l: "parse_number ((if neg then js_lit ''-'' else []) @ layout_digits (nat_text 1) (q + 1) @ r) = Some (decimal_num neg s' q', r)"
      "0 < s'" "same_decimal 1 (q + 1) s' q'"
    using layout_digits_read [of 1 r neg "q + 1"] assms(2) by auto
  have "same_decimal 10 q s' q'"
  proof (cases "q \<ge> 0")
    case True
    with l(3) show ?thesis by (simp add: same_decimal_def nat_add_distrib)
  next
    case False
    then obtain j where q: "q = - int (Suc j)" by (metis int_cases linorder_not_le of_nat_0_le_iff)
    with l(3) show ?thesis by (simp add: same_decimal_def nat_add_distrib)
  qed
  with l True show ?thesis by (auto simp: layout_def)
qed

section \<open>Rounding\<close>

lemma top_bit_bounds: "0 < n \<Longrightarrow> 2 ^ top_bit n \<le> n \<and> n < 2 ^ Suc (top_bit n)"
proof (induction n rule: top_bit.induct)
  case (1 n)
  show ?case
  proof (cases "n < 2")
    case True
    with 1(2) show ?thesis by (simp add: top_bit.simps)
  next
    case False
    with 1(1) have "2 ^ top_bit (n div 2) \<le> n div 2" "n div 2 < 2 ^ Suc (top_bit (n div 2))" by auto
    with False show ?thesis by (simp add: top_bit.simps [of n]) linarith
  qed
qed

lemma binary_exponent_bounds:
  assumes "0 < num" and "0 < den"
  shows "2 powi binary_exponent num den \<le> real num / real den \<and> real num / real den < 2 powi (binary_exponent num den + 1)"
proof (cases "den \<le> num")
  case True
  let ?k = "num div den"
  have "0 < ?k" using True assms by (simp add: div_greater_zero_iff)
  note tb = top_bit_bounds [OF this]
  have "?k * den \<le> num" "num < Suc ?k * den" using assms(2) dividend_less_div_times [of den num] by (auto simp: add.commute)
  then have k: "2 ^ top_bit ?k * den \<le> num" "num < 2 ^ Suc (top_bit ?k) * den"
    using tb by (meson le_trans mult_le_mono1, meson Suc_leI less_le_trans mult_le_mono1)
  have "real (2 ^ top_bit ?k * den) \<le> real num" using k(1) by (rule of_nat_mono)
  moreover have "real num < real (2 ^ Suc (top_bit ?k) * den)" using k(2) by (rule of_nat_less_iff [THEN iffD2])
  moreover have "binary_exponent num den = int (top_bit ?k)" using True by (simp add: binary_exponent_def)
  moreover have "(2 :: real) powi (int (top_bit ?k) + 1) = 2 ^ Suc (top_bit ?k)" by (metis of_nat_Suc power_int_of_nat add.commute)
  ultimately show ?thesis using assms(2) by (simp add: field_simps del: power_Suc)
next
  case False
  let ?k = "den div num" let ?j = "top_bit ?k"
  have "0 < ?k" using False assms by (simp add: div_greater_zero_iff)
  note tb = top_bit_bounds [OF this]
  have "?k * num \<le> den" "den < Suc ?k * num" using assms(1) dividend_less_div_times [of num den] by (auto simp: add.commute)
  then have k: "2 ^ ?j * num \<le> den" "den < 2 ^ Suc ?j * num"
    using tb by (meson le_trans mult_le_mono1, meson Suc_leI less_le_trans mult_le_mono1)
  have r: "real (2 ^ ?j * num) \<le> real den" "real den < real (2 ^ Suc ?j * num)"
    using k by (metis of_nat_le_iff, metis of_nat_less_iff)
  show ?thesis
  proof (cases "den \<le> num * 2 ^ ?j")
    case True
    then have "real den \<le> real (num * 2 ^ ?j)" by (simp only: of_nat_le_iff)
    moreover have t: "binary_exponent num den = - int ?j" using True False by (simp add: binary_exponent_def Let_def)
    have p: "(2 :: real) powi (binary_exponent num den) = 1 / 2 ^ ?j" "(2 :: real) powi (binary_exponent num den + 1) = 2 / 2 ^ ?j"
      unfolding t by (simp_all add: power_int_minus power_int_diff field_simps)
    ultimately show ?thesis unfolding p using assms r(1) by (simp add: field_simps)
  next
    case f: False
    then have "real (num * 2 ^ ?j) < real den" by (simp only: of_nat_less_iff not_le)
    moreover have t: "binary_exponent num den = - int ?j - 1" using f False by (simp add: binary_exponent_def Let_def)
    have p: "(2 :: real) powi (binary_exponent num den) = 1 / (2 * 2 ^ ?j)" "(2 :: real) powi (binary_exponent num den + 1) = 1 / 2 ^ ?j"
      unfolding t by (simp_all add: power_int_minus power_int_diff field_simps)
    ultimately show ?thesis unfolding p using assms r(2) by (simp add: field_simps)
  qed
qed

lemma div_half_even_nearest:
  assumes "0 < d" and "(2 * m + 1) * d \<le> 2 * a" and "2 * a \<le> (2 * m + 3) * d"
    and "(2 * m + 1) * d = 2 * a \<or> 2 * a = (2 * m + 3) * d \<Longrightarrow> odd m"
  shows "div_half_even a d = Suc m"
proof -
  let ?k = "a div d" and ?r = "a mod d"
  have a: "a = ?k * d + ?r" "?r < d" using assms(1) by simp_all
  have "\<not> Suc (Suc m) \<le> ?k"
  proof
    assume "Suc (Suc m) \<le> ?k"
    then have "Suc (Suc m) * d \<le> ?k * d" by (rule mult_le_mono1)
    also have "\<dots> \<le> a" by simp
    finally show False using assms(1,3) by (simp add: algebra_simps)
  qed
  moreover have "\<not> ?k < m"
  proof
    assume "?k < m"
    then have "Suc ?k * d \<le> m * d" by (intro mult_le_mono1) simp
    moreover have "a < Suc ?k * d" using dividend_less_div_times [OF assms(1), of a] by (simp add: add.commute)
    ultimately have "a < m * d" by simp
    with assms(2) show False by (simp add: algebra_simps)
  qed
  ultimately consider "?k = m" | "?k = Suc m" by linarith
  then show ?thesis
  proof cases
    case 1
    then have "d \<le> 2 * ?r" "d = 2 * ?r \<Longrightarrow> odd m"
      using a(1) assms(2,4) by (auto simp: algebra_simps)
    with 1 show ?thesis by (auto simp: div_half_even_def Let_def)
  next
    case 2
    then have "2 * ?r \<le> d" "2 * ?r = d \<Longrightarrow> odd m"
      using a(1) assms(3,4) by (auto simp: algebra_simps)
    with 2 show ?thesis by (auto simp: div_half_even_def Let_def)
  qed
qed

lemma place_of:
  assumes "0 < num" and "0 < den" and "2 powi t \<le> real num / real den" and "real num / real den < 2 powi (t + 1)"
  shows "binary_exponent num den = t"
proof -
  note b = binary_exponent_bounds [OF assms(1,2)]
  have "(2 :: real) powi t < 2 powi (binary_exponent num den + 1)" "(2 :: real) powi binary_exponent num den < 2 powi (t + 1)"
    using b assms(3,4) by linarith+
  then have "t < binary_exponent num den + 1" "binary_exponent num den < t + 1"
    by (metis linorder_not_le one_le_numeral power_int_increasing)+
  then show ?thesis by simp
qed

lemma place_below:
  assumes "0 < num" and "0 < den" and "real num / real den < 2 powi t"
  shows "binary_exponent num den < t"
proof -
  have "(2 :: real) powi binary_exponent num den < 2 powi t"
    using binary_exponent_bounds [OF assms(1,2)] assms(3) by linarith
  then show ?thesis by (metis linorder_not_le one_le_numeral power_int_increasing)
qed

lemma scaled_less:
  assumes "0 < den" and "e < 0"
  shows "real num / real den < 2 powi (int k + e) \<longleftrightarrow> num * 2 ^ nat (- e) < 2 ^ k * den"
proof -
  obtain j where j: "e = - int j" using assms(2) by (metis int_nat_eq minus_minus order_less_imp_le neg_0_le_iff_le)
  have p: "(2 :: real) powi (int k + e) = 2 ^ k / 2 ^ nat (- e)" by (simp add: j power_int_diff)
  have "real num / real den < 2 powi (int k + e) \<longleftrightarrow> real (num * 2 ^ nat (- e)) < real (2 ^ k * den)"
    unfolding p using assms(1) by (simp add: field_simps)
  then show ?thesis by (simp only: of_nat_less_iff)
qed

text \<open>A binary64 significand and exponent that are not an integer.\<close>

definition fraction_parts :: "nat \<Rightarrow> int \<Rightarrow> bool" where
  "fraction_parts m e \<longleftrightarrow> 0 < m \<and> m < 2 ^ 53 \<and> e < 0 \<and> - 1074 \<le> e \<and> (2 ^ 52 \<le> m \<or> e = - 1074) \<and> m mod 2 ^ nat (- e) \<noteq> 0"

lemma assemble_carry:
  assumes "fraction_parts (2 ^ 52) e" and "- 1074 < e"
  shows "assemble neg (e - 1) (2 ^ 53) = assemble neg e (2 ^ 52)"
proof -
  have "52 < nat (- e)"
  proof (rule ccontr)
    assume "\<not> 52 < nat (- e)"
    then have "(2 :: nat) ^ nat (- e) dvd 2 ^ 52" by (intro le_imp_power_dvd) simp
    then have "(2 :: nat) ^ 52 mod 2 ^ nat (- e) = 0" by (rule dvd_imp_mod_0)
    with assms(1) show False unfolding fraction_parts_def by blast
  qed
  moreover have "e < 0" using assms by (simp add: fraction_parts_def)
  then have "nat (- (e - 1)) = Suc (nat (- e))" by simp
  ultimately have "53 < nat (- (e - 1))" "52 < nat (- e)" by simp_all
  from power_strict_increasing [OF this(1), of "2 :: nat"] power_strict_increasing [OF this(2), of "2 :: nat"]
  have "(2 :: nat) ^ 53 < 2 ^ nat (- (e - 1))" "(2 :: nat) ^ 52 < 2 ^ nat (- e)" by (simp_all only: one_less_numeral_iff semiring_norm)
  moreover have "(0 :: nat) < 2 ^ 52" "(0 :: nat) < 2 ^ 53" by simp_all
  ultimately show ?thesis
    using assms unfolding assemble_def fraction_parts_def by (simp add: add.commute)
qed

lemma nearest_in_neighbourhood:
  assumes p: "fraction_parts m e" and "0 < num" "0 < den"
    and lo: "nb_lo (neighbourhood_of m e) * den \<le> num * nb_den (neighbourhood_of m e)"
    and hi: "num * nb_den (neighbourhood_of m e) \<le> nb_hi (neighbourhood_of m e) * den"
    and strict: "odd m \<Longrightarrow> nb_lo (neighbourhood_of m e) * den \<noteq> num * nb_den (neighbourhood_of m e) \<and>
      num * nb_den (neighbourhood_of m e) \<noteq> nb_hi (neighbourhood_of m e) * den"
  shows "nearest neg num den = assemble neg e m"
proof -
  define A where "A = num * 2 ^ nat (- e)"
  have e: "e < 0" "- 1074 \<le> e" and m: "0 < m" "m < 2 ^ 53" using p by (auto simp: fraction_parts_def)
  have "nat (2 - e) = Suc (Suc (nat (- e)))" using e by simp
  then have den: "num * nb_den (neighbourhood_of m e) = 4 * A" using e by (simp add: neighbourhood_of_def A_def)
  have hi': "4 * A \<le> (4 * m + 2) * den" using hi e unfolding den by (simp add: neighbourhood_of_def Let_def)
  have "(4 * m + 2) * den < (4 * 2 ^ 53) * den" using m(2) assms(3) by (intro mult_strict_right_mono) simp_all
  with hi' have "A < 2 ^ 53 * den" by linarith
  then have up: "real num / real den < 2 powi (53 + e)" using scaled_less [OF assms(3) e(1), of num 53] by (simp add: A_def)
  show ?thesis
  proof (cases "m = 2 ^ 52 \<and> - 1074 < e \<and> A < 2 ^ 52 * den")
    case True
    then have B: "m = 2 ^ 52" "- 1074 < e" "A < 2 ^ 52 * den" by auto
    have lo': "(4 * 2 ^ 52 - 1) * den \<le> 4 * A" using lo e B(1,2) unfolding den by (simp add: neighbourhood_of_def Let_def)
    have "real num / real den < 2 powi (52 + e)" using B(3) scaled_less [OF assms(3) e(1), of num 52] by (simp add: A_def)
    moreover have "\<not> A < 2 ^ 51 * den" using lo' assms(3) by auto
    then have "\<not> real num / real den < 2 powi (51 + e)" using scaled_less [OF assms(3) e(1), of num 51] by (simp add: A_def)
    ultimately have t: "binary_exponent num den = 51 + e" by (intro place_of [OF assms(2,3)]) (simp_all add: not_less add.commute)
    have "div_half_even (2 * A) den = Suc (2 ^ 53 - 1)"
      using lo' B(3) assms(3) by (intro div_half_even_nearest) auto
    moreover have "nat (- (e - 1)) = Suc (nat (- e))" using e by simp
    moreover have "max (binary_exponent num den - 52) (- 1074) = e - 1" using t B(2) by simp
    ultimately have "nearest neg num den = assemble neg (e - 1) (2 ^ 53)"
      using e unfolding nearest_def A_def Let_def by (simp add: mult.left_commute)
    with assemble_carry [of e neg] p B(1,2) show ?thesis by simp
  next
    case False
    have n: "(2 * m - 1) * den \<le> 2 * A \<and> (odd m \<longrightarrow> (2 * m - 1) * den \<noteq> 2 * A)"
    proof (cases "m = 2 ^ 52 \<and> - 1074 < e")
      case True
      then have "m * den \<le> A" using False by simp
      moreover have "(2 * m - 1) * den \<le> 2 * m * den" by (intro mult_le_mono1) simp
      ultimately have "(2 * m - 1) * den \<le> 2 * A" by linarith
      with True show ?thesis by simp
    next
      case F: False
      then have l: "nb_lo (neighbourhood_of m e) = 2 * (2 * m - 1)" using e by (auto simp: neighbourhood_of_def Let_def)
      show ?thesis using lo strict unfolding den l by (auto simp: mult.commute)
    qed
    have h: "odd m \<Longrightarrow> 2 * A \<noteq> (2 * m + 1) * den"
      using strict e unfolding den by (auto simp: neighbourhood_of_def Let_def)
    have place: "max (binary_exponent num den - 52) (- 1074) = e"
    proof (cases "e = - 1074")
      case True
      then show ?thesis using place_below [OF assms(2,3) up] by simp
    next
      case F: False
      then have "2 ^ 52 \<le> m" using p by (auto simp: fraction_parts_def)
      have "2 ^ 52 * den \<le> A"
      proof (cases "m = 2 ^ 52")
        case True
        then show ?thesis using False F e by auto
      next
        case False
        with \<open>2 ^ 52 \<le> m\<close> have "2 * 2 ^ 52 \<le> 2 * m - 1" by simp
        then have "2 * 2 ^ 52 * den \<le> (2 * m - 1) * den" by (rule mult_le_mono1)
        with n show ?thesis by linarith
      qed
      then have "\<not> real num / real den < 2 powi (52 + e)"
        using scaled_less [OF assms(3) e(1), of num 52] by (simp add: A_def not_less)
      with up have "binary_exponent num den = 52 + e" by (intro place_of [OF assms(2,3)]) (simp_all add: add.commute)
      then show ?thesis using F e by simp
    qed
    obtain m' where m': "m = Suc m'" using m(1) by (cases m) auto
    have "div_half_even A den = Suc m'"
      using n h hi' assms(3) unfolding m' by (intro div_half_even_nearest) (auto simp: algebra_simps)
    then show ?thesis
      using e m' unfolding nearest_def place A_def by simp
  qed
qed

section \<open>The decimal of a fraction\<close>

lemma denotes_nonzero: "denotes b s q \<Longrightarrow> 0 < nb_lo b \<Longrightarrow> 0 < s"
  by (cases s) (auto simp: denotes_def Let_def split: if_splits)

lemma candidate_denotes: "candidate b q = Some (s, q') \<Longrightarrow> 0 < s \<and> denotes b s q'"
  by (auto simp: candidate_def Let_def split: if_splits)

lemma shortest_from_denotes: "shortest_from b n ks = Some (s, q) \<Longrightarrow> 0 < s \<and> denotes b s q"
  by (induction ks) (auto split: option.splits dest: candidate_denotes)

lemma exact_denotes:
  assumes "fraction_parts m e" and "exact_decimal m e = (s, q)"
  shows "0 < s \<and> denotes (neighbourhood_of m e) s q"
proof -
  have e: "e < 0" "0 < m" using assms(1) by (auto simp: fraction_parts_def)
  then have sq: "s = m * 5 ^ nat (- e)" "q = e" using assms(2) by (auto simp: exact_decimal_def)
  have d: "nb_den (neighbourhood_of m e) = 4 * 2 ^ nat (- e)"
  proof -
    have "nat (2 - e) = Suc (Suc (nat (- e)))" using e by simp
    then show ?thesis using e by (simp add: neighbourhood_of_def)
  qed
  have v: "s * nb_den (neighbourhood_of m e) = 4 * m * 10 ^ nat (- e)"
  proof -
    have "(2 :: nat) ^ nat (- e) * 5 ^ nat (- e) = 10 ^ nat (- e)" by (simp flip: power_mult_distrib)
    then show ?thesis unfolding sq d by (metis mult.assoc mult.commute)
  qed
  have "nb_lo (neighbourhood_of m e) < 4 * m" "4 * m < nb_hi (neighbourhood_of m e)" using e by (auto simp: neighbourhood_of_def Let_def)
  then have "nb_lo (neighbourhood_of m e) * 10 ^ nat (- e) < 4 * m * 10 ^ nat (- e)"
    "4 * m * 10 ^ nat (- e) < nb_hi (neighbourhood_of m e) * 10 ^ nat (- e)" by simp_all
  moreover have "s * nb_den (neighbourhood_of m e) * 10 ^ nat e = 4 * m * 10 ^ nat (- e)" using v e by simp
  ultimately have "denotes (neighbourhood_of m e) s q" unfolding denotes_def Let_def sq(2) by auto
  then show ?thesis using sq e by simp
qed

lemma shortest_denotes:
  assumes "fraction_parts m e" and "shortest m e = (s, q)"
  shows "0 < s \<and> denotes (neighbourhood_of m e) s q"
  using assms exact_denotes [OF assms(1)]
  by (auto simp: shortest_def Let_def split: option.splits dest: shortest_from_denotes)

lemma decimal_num_denotes:
  assumes "fraction_parts m e" and "denotes (neighbourhood_of m e) s q" and "0 < s'" and "same_decimal s q s' q'"
  shows "decimal_num neg s' q' = assemble neg e m"
proof -
  let ?b = "neighbourhood_of m e" and ?num = "s' * 10 ^ nat q'" and ?den = "10 ^ nat (- q') :: nat"
  let ?p = "10 ^ nat (- q) :: nat"
  have v: "s * nb_den ?b * 10 ^ nat q * ?den = ?num * nb_den ?b * ?p"
    using assms(4) by (simp add: same_decimal_def algebra_simps)
  have c: "nb_closed ?b = even m" by (simp add: neighbourhood_of_def Let_def)
  have le: "x * ?p \<le> s * nb_den ?b * 10 ^ nat q \<longleftrightarrow> x * ?den \<le> ?num * nb_den ?b" for x
  proof -
    have "x * ?p \<le> s * nb_den ?b * 10 ^ nat q \<longleftrightarrow> x * ?p * ?den \<le> s * nb_den ?b * 10 ^ nat q * ?den" by simp
    also have "\<dots> \<longleftrightarrow> (x * ?den) * ?p \<le> (?num * nb_den ?b) * ?p" unfolding v by (simp add: algebra_simps)
    finally show ?thesis by simp
  qed
  have ge: "s * nb_den ?b * 10 ^ nat q \<le> x * ?p \<longleftrightarrow> ?num * nb_den ?b \<le> x * ?den" for x
  proof -
    have "s * nb_den ?b * 10 ^ nat q \<le> x * ?p \<longleftrightarrow> s * nb_den ?b * 10 ^ nat q * ?den \<le> x * ?p * ?den" by simp
    also have "\<dots> \<longleftrightarrow> (?num * nb_den ?b) * ?p \<le> (x * ?den) * ?p" unfolding v by (simp add: algebra_simps)
    finally show ?thesis by simp
  qed
  have "nb_lo ?b * ?den \<le> ?num * nb_den ?b" "?num * nb_den ?b \<le> nb_hi ?b * ?den"
    "odd m \<Longrightarrow> nb_lo ?b * ?den \<noteq> ?num * nb_den ?b \<and> ?num * nb_den ?b \<noteq> nb_hi ?b * ?den"
    using assms(2) le [of "nb_lo ?b"] ge [of "nb_lo ?b"] le [of "nb_hi ?b"] ge [of "nb_hi ?b"]
    unfolding denotes_def Let_def c by (auto simp: not_less [symmetric] split: if_splits)
  then show ?thesis
    using assms(1,3) nearest_in_neighbourhood [of m e ?num ?den neg] by (simp add: decimal_num_def)
qed

section \<open>Numbers read back\<close>

lemma bits_split:
  assumes "(n :: nat) < 2 ^ 64"
  shows "(if 2 ^ 63 \<le> n then 2 ^ 63 else 0) + (n div 2 ^ 52 mod 2048 * 2 ^ 52 + n mod 2 ^ 52) = n"
proof -
  define q r h x where "q = n div 2 ^ 52" and "r = n mod 2 ^ 52" and "h = q div 2048" and "x = q mod 2048"
  have n: "n = q * 2 ^ 52 + r" and q: "q = h * 2048 + x" by (simp_all add: q_def r_def h_def x_def)
  have "h = n div 2 ^ 63" by (simp add: h_def q_def flip: div_mult2_eq)
  then have h: "h = (if 2 ^ 63 \<le> n then 1 else 0)" using assms by (auto simp: div_nat_eqI)
  have "n = h * 2 ^ 63 + (x * 2 ^ 52 + r)" unfolding n q by (simp add: algebra_simps)
  then show ?thesis unfolding q_def [symmetric] r_def [symmetric] x_def [symmetric] using h by (cases "2 ^ 63 \<le> n") simp_all
qed

lemma assemble_fraction:
  "q < 0 \<Longrightarrow> d mod 2 ^ nat (- q) \<noteq> 0 \<Longrightarrow> assemble neg q d = NFrac (of_nat ((if neg then 2 ^ 63 else 0)
     + (if d < 2 ^ 52 then d else if d = 2 ^ 53 then nat (q + 1076) * 2 ^ 52 else nat (q + 1075) * 2 ^ 52 + (d - 2 ^ 52))))"
  by (cases "d = 0") (simp_all add: assemble_def)

lemma fraction_scaled:
  assumes "num_ok (NFrac w)"
  obtains m e neg where "scaled (NFrac w) = (if neg then - int m else int m, e)" and "fraction_parts m e" and "assemble neg e m = NFrac w"
proof -
  let ?n = "unat w" let ?x = "?n div 2 ^ 52 mod 2048" and ?f = "?n mod 2 ^ 52" and ?neg = "2 ^ 63 \<le> unat w"
  have n: "?n < 2 ^ 64" using unsigned_less [of w] by simp
  note split = bits_split [OF n]
  have nw: "num_of_bits w = NFrac w" using assms by simp
  have f: "?f < 2 ^ 52" by simp
  show thesis
  proof (cases "?x = 0")
    case True
    with nw have f0: "?f \<noteq> 0" by (auto simp: num_of_bits_def Let_def split: if_splits)
    have mod: "?f mod 2 ^ nat (- (- 1074 :: int)) = ?f"
      using f power_strict_increasing [of 52 "nat (- (- 1074 :: int))" "2 :: nat"] by (intro mod_less) (rule less_trans, assumption, simp)
    have "fraction_parts ?f (- 1074)" using f f0 unfolding fraction_parts_def by (simp only: mod) simp
    moreover have "assemble ?neg (- 1074) ?f = NFrac w"
    proof -
      have s: "(if ?neg then 2 ^ 63 else 0) + ?f = ?n" using split True by simp
      have "assemble ?neg (- 1074) ?f = NFrac (of_nat ((if ?neg then 2 ^ 63 else 0) + ?f))"
        using assemble_fraction [of "- 1074" ?f ?neg] f0 f unfolding mod by (simp only: if_True) simp
      then show ?thesis unfolding s by simp
    qed
    moreover have "scaled (NFrac w) = (if ?neg then - int ?f else int ?f, - 1074)" using True by (simp add: Let_def)
    ultimately show thesis using that by blast
  next
    case False
    let ?m = "2 ^ 52 + ?f" and ?e = "int ?x - 1075"
    have x: "?x < 1075" "?x \<noteq> 2047" and mod: "?m mod 2 ^ (1075 - ?x) \<noteq> 0"
      using nw False by (auto simp: num_of_bits_def Let_def split: if_splits)
    have e: "nat (- ?e) = 1075 - ?x" using x by linarith
    have "fraction_parts ?m ?e" using f x False unfolding fraction_parts_def e using mod by auto
    moreover have "assemble ?neg ?e ?m = NFrac w"
    proof -
      have "assemble ?neg ?e ?m = NFrac (of_nat ((if ?neg then 2 ^ 63 else 0) + (?x * 2 ^ 52 + ?f)))"
        using assemble_fraction [of ?e ?m ?neg] f x mod unfolding e by simp
      then show ?thesis unfolding split by simp
    qed
    moreover have "scaled (NFrac w) = (if ?neg then - int ?m else int ?m, ?e)" using False by (simp add: Let_def)
    ultimately show thesis using that by blast
  qed
qed

lemma div_half_even_one [simp]: "div_half_even n (Suc 0) = n"
  by (simp add: div_half_even_def)

lemma int_nearest:
  assumes "0 < n" and "n \<le> 2 ^ 53"
  shows "decimal_num neg n 0 = NInt (if neg then - int n else int n)"
proof (cases "n = 2 ^ 53")
  case True
  have "top_bit (2 ^ 53) = 53" by (simp add: top_bit.simps)
  then show ?thesis
    using True by (auto simp: decimal_num_def nearest_def binary_exponent_def div_half_even_def assemble_def sign_int_def Let_def)
next
  case False
  then have "2 ^ top_bit n < (2 :: nat) ^ 53" using top_bit_bounds [OF assms(1)] assms(2) by linarith
  then have "top_bit n < 53" by (rule power_less_imp_less_exp [rotated]) simp
  then have t: "top_bit n \<le> 52" by simp
  define k where "k = 52 - top_bit n"
  have place: "max (int (top_bit n) - 52) (- 1074) = - int k" using t by (simp add: k_def)
  have "decimal_num neg n 0 = assemble neg (- int k) (n * 2 ^ k)"
    using assms(1) by (simp add: decimal_num_def nearest_def binary_exponent_def place)
  also have "\<dots> = NInt (if neg then - int n else int n)"
  proof (cases "k = 0")
    case True
    have "(2 :: nat) ^ 53 < 2 ^ 1024" by (rule power_strict_increasing) simp_all
    then have "n < 2 ^ 1024" using assms(2) by (rule le_less_trans [rotated])
    then show ?thesis using assms(1) True by (auto simp: assemble_def sign_int_def not_le)
  qed (use assms(1) in \<open>auto simp: assemble_def sign_int_def\<close>)
  finally show ?thesis .
qed

text \<open>
  The numbers a JSON text can say: the finite ones other than \<open>-0\<close>, the integers up to \<open>2 ^ 53\<close>.
\<close>

fun num_json :: "jsnum \<Rightarrow> bool" where
  "num_json (NInt i) = (\<bar>i\<bar> \<le> 2 ^ 53)"
| "num_json (NFrac w) = num_ok (NFrac w)"
| "num_json _ = False"

lemma int_text_read:
  assumes "\<bar>i\<bar> \<le> 2 ^ 53" and "stops rest"
  shows "parse_number (int_text i @ rest) = Some (NInt i, rest)"
proof (cases "i = 0")
  case True
  have "parse_number ([] @ [48] @ rest) = Some (decimal_num False (digits_nat ([48] @ [])) (0 - int (length ([] :: ustring))), rest)"
    using parse_number_parts [of "[48]" rest "[]" rest 0 rest False] fraction_none exponent_none stops_digit assms(2) by simp
  then show ?thesis using True by (simp add: int_text_def nat_text.simps decimal_num_def digits_nat_def)
next
  case False
  let ?n = "nat \<bar>i\<bar>"
  have n: "0 < ?n" "?n \<le> 2 ^ 53" using False assms(1) by auto
  have "parse_number ((if i < 0 then js_lit ''-'' else []) @ nat_text ?n @ rest)
      = Some (decimal_num (i < 0) (digits_nat (nat_text ?n @ [])) (0 - int (length ([] :: ustring))), rest)"
    using parse_number_parts [of "nat_text ?n" rest "[]" rest 0 rest "i < 0"] fraction_none exponent_none stops_digit assms(2)
      nat_text_digits nat_text_hd [OF n(1)] by simp
  moreover have "decimal_num (i < 0) ?n 0 = NInt i" using int_nearest [OF n, of "i < 0"] by auto
  ultimately show ?thesis by (cases "i < 0") (simp_all add: int_text_def digits_nat_text)
qed

lemma signed_text_read:
  assumes "fraction_parts m e" and "assemble neg e m = x" and "stops rest"
  shows "parse_number (signed_text (if neg then - int m else int m) e @ rest) = Some (x, rest)"
proof -
  obtain s q where sq: "shortest m e = (s, q)" by fastforce
  note d = shortest_denotes [OF assms(1) sq]
  have m: "0 < m" using assms(1) by (simp add: fraction_parts_def)
  obtain s' q' where "parse_number ((if neg then js_lit ''-'' else []) @ layout (s, q) @ rest) = Some (decimal_num neg s' q', rest)"
    and "0 < s'" "same_decimal s q s' q'"
    using layout_read [of s rest neg q] d assms(3) by blast
  then show ?thesis
    using decimal_num_denotes [OF assms(1) _ \<open>0 < s'\<close>, of s q q' neg] d assms(2) m sq by (auto simp: signed_text_def)
qed

lemma number_text_read:
  assumes "num_json x" and "stops rest"
  shows "parse_number (number_text x @ rest) = Some (x, rest)"
proof (cases x)
  case (NFrac w)
  then obtain m e neg where "scaled (NFrac w) = (if neg then - int m else int m, e)" "fraction_parts m e" "assemble neg e m = NFrac w"
    using fraction_scaled assms(1) by (metis num_json.simps(2))
  with NFrac signed_text_read [of m e neg x rest] assms(2) show ?thesis by (auto simp del: scaled.simps)
qed (use assms int_text_read in auto)

lemma parse_number_start: "parse_number s = Some (x, r) \<Longrightarrow> \<exists>c cs. s = c # cs \<and> (c = 45 \<or> is_digit c)"
  by (cases s) (auto simp: parse_number_def Let_def split: if_splits)

end
