(* ===== verification/Json_Round_Trip.thy ===== *)
theory Json_Round_Trip
  imports Json_Number
begin

text \<open>
  \<open>JSON.parse\<close> inverts \<open>JSON.stringify\<close> on the values JSON can say, and no proper prefix of the text of an object is a JSON
  text.
\<close>

section \<open>Extending the input\<close>

text \<open>A parser that has not reached the end of its input does not look further.\<close>

lemma skip_ws_append: "skip_ws s = c # cs \<Longrightarrow> skip_ws (s @ u) = c # cs @ u"
  by (induction s) (auto simp: skip_ws_def split: if_splits)

lemma unquote_append: "unquote s = Some (t, r) \<Longrightarrow> unquote (s @ u) = Some (t, r @ u)"
proof (induction s arbitrary: t r rule: unquote.induct)
  case (2 c cs)
  show ?case
  proof (cases "c = 92")
    case False
    with 2 show ?thesis by (auto simp: push_unit_def split: if_splits)
  next
    case True
    then obtain x ds where cs: "cs = x # ds" using 2(4) by (cases cs) auto
    show ?thesis
    proof (cases "x = 117")
      case False
      with True 2 cs show ?thesis by (auto simp: push_unit_def split: option.splits)
    next
      case u: True
      then obtain h1 h2 h3 h4 es where ds: "ds = h1 # h2 # h3 # h4 # es"
        using True 2(4) cs by (auto split: list.splits)
      with True u 2 cs show ?thesis by (auto simp: push_unit_def split: option.splits)
    qed
  qed
qed simp

lemma takeWhile_drop_append:
  assumes "dropWhile p s = c # cs"
  shows "takeWhile p (s @ u) = takeWhile p s" and "dropWhile p (s @ u) = c # cs @ u"
  using assms by (induction s) auto

lemma fraction_part_append:
  assumes "fraction_part s = Some (fp, r)" and "r \<noteq> []"
  shows "fraction_part (s @ u) = Some (fp, r @ u)"
proof (cases s)
  case Nil
  with assms show ?thesis by (simp add: fraction_part_def)
next
  case (Cons c cs)
  show ?thesis
  proof (cases "c = 46")
    case True
    obtain d ds where d: "dropWhile is_digit cs = d # ds" using assms Cons True
      by (cases "dropWhile is_digit cs") (auto simp: fraction_part_def split: if_splits)
    with assms Cons True takeWhile_drop_append [OF d, of u] show ?thesis
      by (auto simp: fraction_part_def split: if_splits)
  next
    case False
    with assms Cons show ?thesis by (auto simp: fraction_part_def)
  qed
qed

lemma exponent_part_append:
  assumes "exponent_part s = Some (e, r)" and "r \<noteq> []"
  shows "exponent_part (s @ u) = Some (e, r @ u)"
proof (cases s)
  case Nil
  with assms show ?thesis by (simp add: exponent_part_def)
next
  case (Cons c cs)
  show ?thesis
  proof (cases "c = 101 \<or> c = 69")
    case True
    let ?ds = "\<lambda>cs. case cs of d # ds \<Rightarrow> if d = 45 then (True, ds) else if d = 43 then (False, ds) else (False, cs) | [] \<Rightarrow> (False, [])"
    obtain neg ds where n: "?ds cs = (neg, ds)" by fastforce
    have "takeWhile is_digit ds \<noteq> []" "dropWhile is_digit ds = r"
      using assms(1) Cons True n by (auto simp: exponent_part_def Let_def split: if_splits)
    then obtain d r' where d: "dropWhile is_digit ds = d # r'" using assms(2) by (cases r) auto
    then have "ds \<noteq> []" by auto
    then have "?ds (cs @ u) = (neg, ds @ u)" using n by (auto split: list.splits if_splits)
    with assms Cons True n takeWhile_drop_append [OF d, of u] d show ?thesis
      by (auto simp: exponent_part_def Let_def split: if_splits)
  next
    case False
    with assms Cons show ?thesis by (auto simp: exponent_part_def Let_def)
  qed
qed

lemma parse_number_append:
  assumes "parse_number s = Some (x, r)" and "r \<noteq> []"
  shows "parse_number (s @ u) = Some (x, r @ u)"
proof -
  let ?sg = "\<lambda>s. case s of c # cs \<Rightarrow> if c = 45 then (True, cs) else (False, s) | [] \<Rightarrow> (False, s)"
  obtain neg s1 where n: "?sg s = (neg, s1)" by fastforce
  obtain fp s3 e where f: "fraction_part (dropWhile is_digit s1) = Some (fp, s3)" "exponent_part s3 = Some (e, r)"
    using assms(1) n by (auto simp: parse_number_def Let_def split: if_splits option.splits)
  have "s3 \<noteq> []" using f(2) assms(2) by (auto simp: exponent_part_def Let_def)
  then obtain d ds where d: "dropWhile is_digit s1 = d # ds"
    using f(1) by (cases "dropWhile is_digit s1") (auto simp: fraction_part_def)
  then have "?sg (s @ u) = (neg, s1 @ u)" using n by (auto split: list.splits if_splits)
  with assms(1) n f fraction_part_append [OF f(1) \<open>s3 \<noteq> []\<close>, of u] exponent_part_append [OF f(2) assms(2), of u]
    takeWhile_drop_append [OF d, of u] d
  show ?thesis by (auto simp: parse_number_def Let_def split: if_splits)
qed

lemma take_append_known: "take (length l) s = js_lit l \<Longrightarrow> take (length l) (s @ u) = js_lit l \<and> drop (length l) (s @ u) = drop (length l) s @ u"
proof -
  assume a: "take (length l) s = js_lit l"
  then have "length l \<le> length s" by (metis length_map js_lit_def length_take min.cobounded1 nle_le)
  with a show ?thesis by simp
qed

lemma parse_literal_append:
  assumes "parse_literal literals s = Some (v, r)"
  shows "parse_literal literals (s @ u) = Some (v, r @ u)"
proof (cases s)
  case Nil
  with assms show ?thesis by (simp add: literals_def js_lit_def)
next
  case (Cons c cs)
  have k: "parse_literal literals (c # t) =
      (if c = 110 then (if take (length ''ull'') t = js_lit ''ull'' then Some (JNull, drop (length ''ull'') t) else None)
       else if c = 116 then (if take (length ''rue'') t = js_lit ''rue'' then Some (JBool True, drop (length ''rue'') t) else None)
       else if c = 102 then (if take (length ''alse'') t = js_lit ''alse'' then Some (JBool False, drop (length ''alse'') t) else None)
       else None)" for t
    by (simp add: literals_def js_lit_def)
  from assms show ?thesis
    unfolding Cons append_Cons k
    using take_append_known [of "''ull''" cs u] take_append_known [of "''rue''" cs u] take_append_known [of "''alse''" cs u]
    by (auto simp del: take_append drop_append split: if_splits)
qed

definition open_number :: "js \<Rightarrow> ustring \<Rightarrow> bool" where
  "open_number v r \<longleftrightarrow> r = [] \<and> (\<exists>x. v = JNum x)"

lemma parse_scalar_append:
  assumes "parse_scalar s = Some (v, r)" and "\<not> open_number v r"
  shows "parse_scalar (s @ u) = Some (v, r @ u)"
proof -
  obtain c cs where s: "s = c # cs" using assms(1) by (cases s) (auto simp: parse_scalar_def)
  show ?thesis
    using assms s unquote_append [of cs _ r u] parse_number_append [of s _ r u] parse_literal_append [of s v r u]
    by (auto simp: parse_scalar_def open_number_def split: if_splits)
qed

lemma parse_append:
  "parse_value n s = Some (v, r) \<Longrightarrow> \<not> open_number v r \<Longrightarrow> parse_value n (s @ u) = Some (v, r @ u)"
  "parse_items n s = Some (vs, r) \<Longrightarrow> parse_items n (s @ u) = Some (vs, r @ u)"
  "parse_members n acc s = Some (kvs, r) \<Longrightarrow> parse_members n acc (s @ u) = Some (kvs, r @ u)"
proof (induction n arbitrary: s v r vs acc kvs)
  case (Suc n)
  {
    case 1
    obtain c cs where s: "skip_ws s = c # cs" using 1(1) by (cases "skip_ws s") (auto simp: parse_value.simps(2))
    show ?case
    proof (cases "c = 123 \<or> c = 91")
      case False
      with 1 s show ?thesis
        using parse_scalar_append [of "c # cs" v r u] by (auto simp: parse_value.simps(2) skip_ws_append)
    next
      case True
      then obtain d ds where "skip_ws cs = d # ds"
        using 1(1) s by (cases "skip_ws cs") (auto simp: parse_value.simps(2))
      with True 1(1) s Suc(2) [of cs] Suc(3) [of "[]" cs] show ?thesis
        by (auto simp: parse_value.simps(2) skip_ws_append [of s c cs u] skip_ws_append [of cs d ds u] split: if_splits)
    qed
  next
    case 2
    obtain v r' where v: "parse_value n s = Some (v, r')" "skip_ws r' \<noteq> []"
      using 2 by (auto simp: parse_items.simps(2) split: option.splits list.splits)
    then obtain c cs where c: "skip_ws r' = c # cs" by (cases "skip_ws r'") auto
    then have "\<not> open_number v r'" by (auto simp: open_number_def skip_ws_def)
    from Suc(1) [OF v(1) this] 2 v(1) c Suc(2) [of cs] show ?case
      by (auto simp: parse_items.simps(2) skip_ws_append [of r' c cs u] split: if_splits)
  next
    case 3
    obtain cs where s: "skip_ws s = 34 # cs" using 3 by (auto simp: parse_members.simps(2) split: list.splits if_splits)
    obtain k r1 where k: "unquote cs = Some (k, r1)" using 3 s by (auto simp: parse_members.simps(2) split: option.splits)
    obtain ds where d: "skip_ws r1 = 58 # ds" using 3 s k by (auto simp: parse_members.simps(2) split: list.splits if_splits)
    obtain v r' where v: "parse_value n ds = Some (v, r')" using 3 s k d by (auto simp: parse_members.simps(2) split: option.splits)
    obtain e es where e: "skip_ws r' = e # es" using 3 s k d v by (auto simp: parse_members.simps(2) split: list.splits)
    then have "\<not> open_number v r'" by (auto simp: open_number_def skip_ws_def)
    from Suc(1) [OF v this] 3 s k d v e Suc(3) [of "put_member acc k v" es] show ?case
      by (auto simp: parse_members.simps(2) skip_ws_append [OF s] unquote_append [OF k] skip_ws_append [OF d] skip_ws_append [OF e]
          split: if_splits)
  }
qed simp_all

section \<open>More fuel\<close>

lemma parse_more:
  "parse_value n s = Some x \<Longrightarrow> parse_value (Suc n) s = Some x"
  "parse_items n s = Some y \<Longrightarrow> parse_items (Suc n) s = Some y"
  "parse_members n acc s = Some z \<Longrightarrow> parse_members (Suc n) acc s = Some z"
proof (induction n arbitrary: s x y acc z)
  case (Suc n)
  {
    case 1
    then show ?case
      using Suc(2,3) unfolding parse_value.simps(2) [of n s] parse_value.simps(2) [of "Suc n" s]
      by (auto split: list.splits if_splits)
  next
    case 2
    then show ?case
      using Suc(1,2) unfolding parse_items.simps(2) [of n s] parse_items.simps(2) [of "Suc n" s]
      by (auto split: list.splits if_splits option.splits)
  next
    case 3
    then show ?case
      using Suc(1,3) unfolding parse_members.simps(2) [of n acc s] parse_members.simps(2) [of "Suc n" acc s]
      by (cases z) (auto split: list.splits if_splits option.splits)
  }
qed simp_all

lemma parse_fuel: "n \<le> m \<Longrightarrow> parse_value n s = Some x \<Longrightarrow> parse_value m s = Some x"
  by (induction rule: dec_induct) (auto intro: parse_more)

text \<open>The length of the text is always fuel enough: a value read with any fuel is read with the fuel of what it consumed.\<close>

lemma skip_ws_length: "length (skip_ws s) \<le> length s"
  by (simp add: skip_ws_def length_dropWhile_le)

lemma skip_ws_shorter: "skip_ws s = c # cs \<Longrightarrow> length cs < length s"
  using skip_ws_length [of s] by simp

lemma unquote_length: "unquote s = Some (t, r) \<Longrightarrow> length r < length s"
proof (induction s arbitrary: t rule: unquote.induct)
  case (2 c cs)
  then show ?case
    by (fastforce simp: push_unit_def less_Suc_eq split: if_splits list.splits option.splits)
qed simp

lemma fraction_length: "fraction_part s = Some (fp, r) \<Longrightarrow> length r \<le> length s"
  using length_dropWhile_le [of is_digit "tl s"]
  by (auto simp: fraction_part_def split: list.splits if_splits)

lemma exponent_length: "exponent_part s = Some (e, r) \<Longrightarrow> length r \<le> length s"
  using length_dropWhile_le [of is_digit "tl s"] length_dropWhile_le [of is_digit "tl (tl s)"]
  by (auto simp: exponent_part_def Let_def split: list.splits if_splits)

lemma parse_number_length: "parse_number s = Some (x, r) \<Longrightarrow> length r \<le> length s"
  using length_dropWhile_le [of is_digit s] length_dropWhile_le [of is_digit "tl s"]
  by (fastforce simp: parse_number_def Let_def split: list.splits if_splits option.splits dest: fraction_length exponent_length)

lemma parse_scalar_length: "parse_scalar s = Some (v, r) \<Longrightarrow> length r \<le> length s"
  by (auto simp: parse_scalar_def literals_def split: list.splits if_splits
      dest!: unquote_length parse_number_length)

lemma parse_consumes:
  "parse_value m s = Some (v, r) \<Longrightarrow> length r \<le> length s \<and> (\<forall>n. length s < n + length r \<longrightarrow> parse_value n s = Some (v, r))"
  "parse_items m s = Some (vs, r) \<Longrightarrow> length r < length s \<and> (\<forall>n. length s < n + length r \<longrightarrow> parse_items n s = Some (vs, r))"
  "parse_members m acc s = Some (kvs, r) \<Longrightarrow>
     length r < length s \<and> (\<forall>n. length s < n + length r \<longrightarrow> parse_members n acc s = Some (kvs, r))"
proof (induction m arbitrary: s v r vs acc kvs)
  case (Suc m)
  {
    case 1
    obtain c cs where s: "skip_ws s = c # cs" using 1 by (cases "skip_ws s") (auto simp: parse_value.simps(2))
    note short = skip_ws_shorter [OF s]
    show ?case
    proof (cases "c = 123 \<or> c = 91")
      case False
      then have p: "parse_scalar (c # cs) = Some (v, r)" using 1 s by (auto simp: parse_value.simps(2))
      have "parse_value n s = Some (v, r)" if "length s < n + length r" for n
        using that p parse_scalar_length [OF p] False s skip_ws_length [of s] by (cases n) (auto simp: parse_value.simps(2))
      then show ?thesis using parse_scalar_length [OF p] short by auto
    next
      case True
      then obtain d ds where d: "skip_ws cs = d # ds"
        using 1 s by (cases "skip_ws cs") (auto simp: parse_value.simps(2))
      note short' = skip_ws_shorter [OF d]
      consider (none) "d = (if c = 123 then 125 else 93)" "r = ds"
        | (members) kvs where "c = 123" "d \<noteq> 125" "parse_members m [] cs = Some (kvs, r)" "v = JObj ObjectProto False kvs"
        | (items) vs where "c = 91" "d \<noteq> 93" "parse_items m cs = Some (vs, r)" "v = JArr vs"
        using True 1 s d by (auto simp: parse_value.simps(2) split: if_splits)
      then show ?thesis
      proof cases
        case none
        have "parse_value n s = Some (v, r)" if "length s < n + length r" for n
          using that none True 1 s d short short' by (cases n) (auto simp: parse_value.simps(2))
        then show ?thesis using none short short' by simp
      next
        case (members kvs)
        note ih = Suc(3) [OF members(3)]
        have "parse_value n s = Some (v, r)" if "length s < n + length r" for n
          using that members(1,2,4) ih s d short by (cases n) (auto simp: parse_value.simps(2))
        then show ?thesis using ih short by simp
      next
        case (items vs)
        note ih = Suc(2) [OF items(3)]
        have "parse_value n s = Some (v, r)" if "length s < n + length r" for n
          using that items(1,2,4) ih s d short by (cases n) (auto simp: parse_value.simps(2))
        then show ?thesis using ih short by simp
      qed
    qed
  next
    case 2
    obtain v r' where v: "parse_value m s = Some (v, r')" "skip_ws r' \<noteq> []"
      using 2 by (auto simp: parse_items.simps(2) split: option.splits list.splits)
    then obtain c cs where c: "skip_ws r' = c # cs" by (cases "skip_ws r'") auto
    note short = skip_ws_shorter [OF c] and val = Suc(1) [OF v(1)]
    consider (more) ws where "c = 44" "parse_items m cs = Some (ws, r)" "vs = v # ws" | (last) "c = 93" "vs = [v]" "r = cs"
      using 2 v(1) c by (auto simp: parse_items.simps(2) split: if_splits)
    then show ?case
    proof cases
      case (more ws)
      note ih = Suc(2) [OF more(2)]
      have "parse_items n s = Some (vs, r)" if "length s < n + length r" for n
      proof (cases n)
        case (Suc k)
        then have "length s < k + length r'" "length cs < k + length r" using that short val ih by linarith+
        then show ?thesis using val ih more(1,3) c Suc by (simp add: parse_items.simps(2))
      qed (use that short val ih in simp)
      then show ?thesis using ih short val by auto
    next
      case last
      have "parse_items n s = Some (vs, r)" if "length s < n + length r" for n
        using that val last c short by (cases n) (auto simp: parse_items.simps(2))
      then show ?thesis using last short val by auto
    qed
  next
    case 3
    obtain cs where s: "skip_ws s = 34 # cs" using 3 by (auto simp: parse_members.simps(2) split: list.splits if_splits)
    obtain k r1 where k: "unquote cs = Some (k, r1)" using 3 s by (auto simp: parse_members.simps(2) split: option.splits)
    obtain ds where d: "skip_ws r1 = 58 # ds" using 3 s k by (auto simp: parse_members.simps(2) split: list.splits if_splits)
    obtain v r' where v: "parse_value m ds = Some (v, r')" using 3 s k d by (auto simp: parse_members.simps(2) split: option.splits)
    obtain e es where e: "skip_ws r' = e # es" using 3 s k d v by (auto simp: parse_members.simps(2) split: list.splits)
    note short = skip_ws_shorter [OF s] unquote_length [OF k] skip_ws_shorter [OF d] skip_ws_shorter [OF e] and val = Suc(1) [OF v]
    let ?acc = "put_member acc k v"
    consider (more) "e = 44" "parse_members m ?acc es = Some (kvs, r)" | (last) "e = 125" "kvs = ?acc" "r = es"
      using 3 s k d v e by (auto simp: parse_members.simps(2) split: if_splits)
    then show ?case
    proof cases
      case more
      note ih = Suc(3) [OF more(2)]
      have "parse_members n acc s = Some (kvs, r)" if "length s < n + length r" for n
      proof (cases n)
        case (Suc j)
        then have "length ds < j + length r'" "length es < j + length r" using that short val ih by linarith+
        then show ?thesis using val ih more(1) s k d e Suc by (simp add: parse_members.simps(2))
      qed (use that short val ih in simp)
      then show ?thesis using ih short val by auto
    next
      case last
      have "parse_members n acc s = Some (kvs, r)" if "length s < n + length r" for n
        using that val last s k d e short by (cases n) (auto simp: parse_members.simps(2))
      then show ?thesis using last short val by auto
    qed
  }
qed simp_all

lemma parse_fuel_enough: "parse_value n s = Some x \<Longrightarrow> parse_value (Suc (length s)) s = Some x"
  using parse_consumes(1) [of n s "fst x" "snd x"] by simp

section \<open>The texts\<close>

text \<open>
  The values JSON can say: finite numbers other than \<open>-0\<close>, whose integers are exact, and plain objects with their
  properties in order.
\<close>

fun json_ok :: "js \<Rightarrow> bool"
  and items_ok :: "js list \<Rightarrow> bool"
  and members_ok :: "(ustring \<times> js) list \<Rightarrow> bool" where
  "json_ok JNull = True"
| "json_ok (JBool b) = True"
| "json_ok (JNum x) = num_json x"
| "json_ok (JStr s) = True"
| "json_ok (JArr vs) = items_ok vs"
| "json_ok (JObj p s kvs) = (p = ObjectProto \<and> \<not> s \<and> keys_ordered (map fst kvs) \<and> members_ok kvs)"
| "json_ok JUndef = False"
| "json_ok (JBytes bs) = False"
| "json_ok (JOther t) = False"
| "items_ok [] = True"
| "items_ok (v # vs) = (json_ok v \<and> items_ok vs)"
| "members_ok [] = True"
| "members_ok ((k, v) # kvs) = (json_ok v \<and> members_ok kvs)"

fun json_text :: "js \<Rightarrow> ustring"
  and item_texts :: "js list \<Rightarrow> ustring list"
  and member_texts :: "(ustring \<times> js) list \<Rightarrow> ustring list" where
  "json_text JNull = js_lit ''null''"
| "json_text (JBool b) = (if b then js_lit ''true'' else js_lit ''false'')"
| "json_text (JNum x) = number_text x"
| "json_text (JStr s) = quote s"
| "json_text (JArr vs) = js_lit ''['' @ join (js_lit '','') (item_texts vs) @ js_lit '']''"
| "json_text (JObj p s kvs) = js_lit ''{'' @ join (js_lit '','') (member_texts kvs) @ js_lit ''}''"
| "json_text v = []"
| "item_texts [] = []"
| "item_texts (v # vs) = json_text v # item_texts vs"
| "member_texts [] = []"
| "member_texts ((k, v) # kvs) = (quote k @ js_lit '':'' @ json_text v) # member_texts kvs"

lemma stringify_json_text:
  "json_ok v \<Longrightarrow> stringify v = Inr (Some (json_text v))"
  "items_ok vs \<Longrightarrow> stringify_items vs = Inr (item_texts vs)"
  "members_ok kvs \<Longrightarrow> stringify_props kvs = Inr (member_texts kvs)"
proof (induction v and vs and kvs rule: json_text_item_texts_member_texts.induct)
  case (3 x)
  then show ?case by (cases x) auto
qed auto

text \<open>Strings.\<close>

lemma hex_value_digit:
  assumes "d < 16"
  shows "hex_value (hex_digit d) = Some d"
proof -
  have "unat (hex_digit d) = (if d < 10 then 48 + d else 87 + d)"
    using assms by (simp add: hex_digit_def unat_of_nat del: of_nat_add)
  then show ?thesis using assms by (auto simp: hex_value_def word_le_nat_alt)
qed

lemma four_digits: "(n :: nat) div 4096 * 4096 + n div 256 mod 16 * 256 + n div 16 mod 16 * 16 + n mod 16 = n"
proof -
  have "n div 4096 = n div 256 div 16" "n div 256 = n div 16 div 16" by (simp_all flip: div_mult2_eq)
  then show ?thesis
    using div_mult_mod_eq [of n 16] div_mult_mod_eq [of "n div 16" 16] div_mult_mod_eq [of "n div 256" 16] by linarith
qed

lemma unquote_unicode: "unquote (unicode_escape c @ r) = push_unit c (unquote r)"
proof -
  have "unat c div 4096 < 16" using unat16_bound [of c] by (simp add: less_mult_imp_div_less)
  then have "hex4 (hex_digit (unat c div 4096)) (hex_digit (unat c div 256 mod 16)) (hex_digit (unat c div 16 mod 16))
      (hex_digit (unat c mod 16)) = Some (of_nat (unat c))"
    by (simp add: hex4_def hex_value_digit four_digits del: of_nat_unat)
  then show ?thesis by (simp add: unicode_escape_def Let_def js_lit_def)
qed

lemma unquote_unit: "unquote (quote_unit c @ r) = push_unit c (unquote r)"
proof -
  have e: "escaped 98 = Some 8" "escaped 116 = Some 9" "escaped 110 = Some 10" "escaped 102 = Some 12" "escaped 114 = Some 13"
    "escaped 34 = Some 34" "escaped 92 = Some 92" by (simp_all add: escaped_def)
  show ?thesis
    using unquote_unicode [of c r] by (auto simp: quote_unit_def backslash_def js_lit_def e)
qed

lemma unquote_surrogate: "is_high c \<or> is_low c \<Longrightarrow> unquote (c # r) = push_unit c (unquote r)"
  by (auto simp: is_high_def is_low_def word_le_nat_alt word_less_nat_alt)

lemma unquote_end: "unquote (34 # r) = Some ([], r)"
  by simp

declare unquote.simps(2) [simp del]

lemma unquote_quote: "unquote (quote_units s @ 34 # r) = Some (s, r)"
  by (induction s rule: quote_units.induct) (simp_all add: unquote_unit unquote_surrogate unquote_end push_unit_def)

text \<open>The first code unit of a text says what is read.\<close>

lemma quote_start: "quote s @ r = 34 # quote_units s @ 34 # r"
  by (simp add: quote_def)

lemma json_text_start:
  assumes "json_ok v"
  obtains c cs where "json_text v = c # cs" and "c \<notin> {9, 10, 13, 32, 93, 125}"
proof (cases v)
  case (JNum x)
  with assms have "parse_number (number_text x @ []) = Some (x, [])" by (intro number_text_read) (simp_all add: stops_def)
  then obtain c cs where c: "number_text x = c # cs" "c = 45 \<or> is_digit c" by (auto dest: parse_number_start)
  have "c \<notin> {9, 10, 13, 32, 93, 125}" using c(2) by (auto simp: is_digit_def)
  with c(1) JNum that show thesis by simp
next
  case (JBool b)
  with that show thesis by (cases b) (simp_all add: js_lit_def)
qed (use assms that in \<open>auto simp: js_lit_def quote_def\<close>)

lemma skip_ws_start: "c \<notin> {9, 10, 13, 32} \<Longrightarrow> skip_ws (c # cs) = c # cs"
  by (simp add: skip_ws_def)

lemma put_member_last:
  "keys_ordered (map fst acc @ k # ks) \<Longrightarrow> put_member acc k v = acc @ [(k, v)]"
  by (auto simp: put_member_def keys_ordered_append intro!: define_property_last)

lemma stops_punctuation: "stops (44 # r)" "stops (93 # r)" "stops (125 # r)" "stops []"
  by (simp_all add: stops_def is_digit_def)

lemma join_cons: "join sep (t # ts) = (if ts = [] then t else t @ sep @ join sep ts)"
  by (cases ts) simp_all

lemma item_texts_empty [simp]: "item_texts vs = [] \<longleftrightarrow> vs = []" "member_texts kvs = [] \<longleftrightarrow> kvs = []"
  by (cases vs, simp_all, cases kvs) auto

section \<open>The round trip\<close>

text \<open>What it is for the value \<open>v\<close>, the items \<open>vs\<close> and the members \<open>kvs\<close> to be read back, with fuel for their texts.\<close>

definition value_read :: "js \<Rightarrow> bool" where
  "value_read v \<longleftrightarrow> (\<forall>n rest. length (json_text v) < n \<longrightarrow> stops rest \<longrightarrow> parse_value n (json_text v @ rest) = Some (v, rest))"

definition items_read :: "js list \<Rightarrow> bool" where
  "items_read vs \<longleftrightarrow> (\<forall>n rest. vs \<noteq> [] \<longrightarrow> length (join (js_lit '','') (item_texts vs)) + 1 < n \<longrightarrow>
     parse_items n (join (js_lit '','') (item_texts vs) @ 93 # rest) = Some (vs, rest))"

definition members_read :: "(ustring \<times> js) list \<Rightarrow> bool" where
  "members_read kvs \<longleftrightarrow> (\<forall>n acc rest. kvs \<noteq> [] \<longrightarrow> keys_ordered (map fst acc @ map fst kvs) \<longrightarrow>
     length (join (js_lit '','') (member_texts kvs)) + 1 < n \<longrightarrow>
     parse_members n acc (join (js_lit '','') (member_texts kvs) @ 125 # rest) = Some (acc @ kvs, rest))"

lemma scalar_read:
  assumes "json_ok v" and "\<And>c cs. json_text v = c # cs \<Longrightarrow> c \<noteq> 123 \<and> c \<noteq> 91"
    and "\<And>rest. stops rest \<Longrightarrow> parse_scalar (json_text v @ rest) = Some (v, rest)"
  shows "value_read v"
  unfolding value_read_def
proof (intro allI impI)
  fix n rest
  assume n: "length (json_text v) < n" and r: "stops rest"
  obtain c cs where c: "json_text v = c # cs" "c \<notin> {9, 10, 13, 32, 93, 125}" using assms(1) by (rule json_text_start)
  have "skip_ws (json_text v @ rest) = c # cs @ rest" using c by (simp add: skip_ws_start)
  moreover obtain m where "n = Suc m" using n by (cases n) auto
  ultimately show "parse_value n (json_text v @ rest) = Some (v, rest)"
    using assms(2) [OF c(1)] assms(3) [OF r] c(1) by (simp add: parse_value.simps(2))
qed

lemma number_read:
  assumes "num_json x"
  shows "value_read (JNum x)"
proof (rule scalar_read)
  fix rest
  assume r: "stops rest"
  note p = number_text_read [OF assms r]
  obtain c cs where c: "number_text x @ rest = c # cs" "c = 45 \<or> is_digit c" using parse_number_start [OF p] by blast
  moreover have "c \<noteq> 34" using c(2) by (auto simp: is_digit_def)
  ultimately show "parse_scalar (json_text (JNum x) @ rest) = Some (JNum x, rest)"
    using p by (auto simp: parse_scalar_def)
next
  fix c cs
  assume "json_text (JNum x) = c # cs"
  then show "c \<noteq> 123 \<and> c \<noteq> 91"
    using number_text_read [OF assms stops_punctuation(4)] parse_number_start [of "c # cs" x "[]"] by (auto simp: is_digit_def)
qed (use assms in simp)

lemma string_read: "value_read (JStr s)"
  by (rule scalar_read) (simp_all add: quote_def parse_scalar_def unquote_quote)

lemma literal_read: "value_read JNull" "value_read (JBool b)"
  by (rule scalar_read; auto simp: parse_scalar_def literals_def js_lit_def is_digit_def split: if_splits)+

lemma array_read:
  assumes "items_ok vs" and "items_read vs"
  shows "value_read (JArr vs)"
  unfolding value_read_def
proof (intro allI impI)
  fix n rest
  assume n: "length (json_text (JArr vs)) < n"
  then obtain m where m: "n = Suc m" by (cases n) auto
  show "parse_value n (json_text (JArr vs) @ rest) = Some (JArr vs, rest)"
  proof (cases vs)
    case Nil
    with m show ?thesis by (simp add: parse_value.simps(2) js_lit_def skip_ws_start)
  next
    case (Cons v ws)
    let ?t = "join (js_lit '','') (item_texts vs) @ 93 # rest"
    have "json_ok v" using assms(1) Cons by simp
    then obtain c cs where c: "json_text v = c # cs" "c \<notin> {9, 10, 13, 32, 93, 125}" by (rule json_text_start)
    then obtain ds where "?t = c # ds" using Cons by (cases "ws = []") (auto simp: join_cons)
    then have "skip_ws ?t = c # ds" using c(2) by (simp add: skip_ws_start)
    moreover have "parse_items m ?t = Some (vs, rest)" using assms(2) n m Cons by (simp add: items_read_def js_lit_def)
    ultimately show ?thesis using m c(2) by (simp add: parse_value.simps(2) js_lit_def skip_ws_start)
  qed
qed

lemma object_read:
  assumes "keys_ordered (map fst kvs)" and "members_read kvs"
  shows "value_read (JObj ObjectProto False kvs)"
  unfolding value_read_def
proof (intro allI impI)
  fix n rest
  assume n: "length (json_text (JObj ObjectProto False kvs)) < n"
  then obtain m where m: "n = Suc m" by (cases n) auto
  show "parse_value n (json_text (JObj ObjectProto False kvs) @ rest) = Some (JObj ObjectProto False kvs, rest)"
  proof (cases kvs)
    case Nil
    with m show ?thesis by (simp add: parse_value.simps(2) js_lit_def skip_ws_start)
  next
    case (Cons kv ws)
    let ?t = "join (js_lit '','') (member_texts kvs) @ 125 # rest"
    obtain ds where "?t = 34 # ds" using Cons by (cases kv; cases "ws = []") (auto simp: join_cons quote_def)
    then have "skip_ws ?t = 34 # ds" by (simp add: skip_ws_start)
    moreover have "parse_members m [] ?t = Some (kvs, rest)" using assms n m Cons by (simp add: members_read_def js_lit_def)
    ultimately show ?thesis using m by (simp add: parse_value.simps(2) js_lit_def skip_ws_start)
  qed
qed

lemma items_cons_read:
  assumes "value_read v" and "items_read vs"
  shows "items_read (v # vs)"
  unfolding items_read_def
proof (intro allI impI)
  fix n rest
  assume n: "length (join (js_lit '','') (item_texts (v # vs))) + 1 < n"
  then obtain m where m: "n = Suc m" by (cases n) auto
  let ?after = "if vs = [] then 93 # rest else 44 # join (js_lit '','') (item_texts vs) @ 93 # rest"
  have "join (js_lit '','') (item_texts (v # vs)) @ 93 # rest = json_text v @ ?after" by (simp add: join_cons js_lit_def)
  moreover have "parse_value m (json_text v @ ?after) = Some (v, ?after)"
    using assms(1) n m by (auto simp: value_read_def stops_punctuation join_cons)
  moreover have "parse_items m (join (js_lit '','') (item_texts vs) @ 93 # rest) = Some (vs, rest)" if "vs \<noteq> []"
    using assms(2) n m that by (simp add: items_read_def join_cons js_lit_def)
  ultimately show "parse_items n (join (js_lit '','') (item_texts (v # vs)) @ 93 # rest) = Some (v # vs, rest)"
    unfolding m by (auto simp: parse_items.simps(2) skip_ws_start)
qed

lemma members_cons_read:
  assumes "value_read v" and "members_read kvs"
  shows "members_read ((k, v) # kvs)"
  unfolding members_read_def
proof (intro allI impI)
  fix n and acc :: "(ustring \<times> js) list" and rest
  assume ord: "keys_ordered (map fst acc @ map fst ((k, v) # kvs))"
    and n: "length (join (js_lit '','') (member_texts ((k, v) # kvs))) + 1 < n"
  then obtain m where m: "n = Suc m" by (cases n) auto
  let ?after = "if kvs = [] then 125 # rest else 44 # join (js_lit '','') (member_texts kvs) @ 125 # rest"
  have "join (js_lit '','') (member_texts ((k, v) # kvs)) @ 125 # rest = 34 # quote_units k @ 34 # 58 # json_text v @ ?after"
    by (simp add: join_cons quote_def js_lit_def)
  moreover have "parse_value m (json_text v @ ?after) = Some (v, ?after)"
    using assms(1) n m by (auto simp: value_read_def stops_punctuation join_cons)
  moreover have "parse_members m (acc @ [(k, v)]) (join (js_lit '','') (member_texts kvs) @ 125 # rest) = Some (acc @ (k, v) # kvs, rest)"
    if "kvs \<noteq> []"
    using assms(2) n m that ord by (simp add: members_read_def join_cons js_lit_def)
  moreover have "put_member acc k v = acc @ [(k, v)]" using ord put_member_last [of acc k "map fst kvs" v] by simp
  ultimately show "parse_members n acc (join (js_lit '','') (member_texts ((k, v) # kvs)) @ 125 # rest) = Some (acc @ (k, v) # kvs, rest)"
    unfolding m by (auto simp: parse_members.simps(2) skip_ws_start unquote_quote)
qed

lemma json_read:
  "json_ok v \<Longrightarrow> value_read v"
  "items_ok vs \<Longrightarrow> items_read vs"
  "members_ok kvs \<Longrightarrow> members_read kvs"
proof (induction v and vs and kvs rule: json_ok_items_ok_members_ok.induct)
  case (10)
  show ?case by (simp add: items_read_def)
next
  case (12)
  show ?case by (simp add: members_read_def)
qed (auto intro: literal_read number_read string_read array_read object_read items_cons_read members_cons_read)

lemma parse_json_text:
  assumes "json_ok v"
  shows "parse_json (json_text v) = Some v"
proof -
  have "parse_value (Suc (length (json_text v))) (json_text v @ []) = Some (v, [])"
    using json_read(1) [OF assms] stops_punctuation(4) unfolding value_read_def by blast
  then show ?thesis by (simp add: parse_json_def skip_ws_def)
qed

text \<open>A text that is cut short inside an object is no JSON text.\<close>

lemma object_prefix:
  assumes "json_ok (JObj p s kvs)" and "json_text (JObj p s kvs) = t @ u" and "u \<noteq> []"
  shows "parse_json t = None"
proof (rule ccontr)
  assume "parse_json t \<noteq> None"
  then obtain v r where v: "parse_value (Suc (length t)) t = Some (v, r)" and r: "skip_ws r = []"
    by (auto simp: parse_json_def split: option.splits if_splits)
  let ?o = "JObj p s kvs"
  have t: "t \<noteq> []" using v by (auto simp: parse_value.simps(2) skip_ws_def)
  then obtain t' where t': "t = 123 # t'" using assms(2) by (cases t) (auto simp: js_lit_def)
  then have "\<not> open_number v r" using v by (auto simp: open_number_def parse_value.simps(2) skip_ws_start split: list.splits if_splits)
  with v have "parse_value (Suc (length t)) (t @ u) = Some (v, r @ u)" by (rule parse_append)
  then have "parse_value (Suc (length (t @ u))) (t @ u) = Some (v, r @ u)" by (rule parse_fuel [rotated]) simp
  moreover have "parse_value (Suc (length (t @ u))) (t @ u) = Some (?o, [])"
    using json_read(1) [OF assms(1)] stops_punctuation(4) unfolding value_read_def assms(2)
    by (metis append_Nil2 lessI)
  ultimately show False using assms(3) by simp
qed

end
