(* ===== verification/Session_Decode.thy ===== *)
theory Session_Decode
  imports Session_Json Json_Round_Trip "HOL-Library.Monad_Syntax"
begin

text \<open>
  The typed reading of the values that \<open>JSON.parse\<close> returns. The source casts a parsed object to \<open>Entry\<close> or
  \<open>LaneRecord\<close> without a check; here the cast is a function that is defined on the objects that have the declared type, and
  it inverts the encoding of \<^verbatim>\<open>Session_Json\<close>.
\<close>

section \<open>Fields\<close>

fun as_str :: "js \<Rightarrow> ustring option" where
  "as_str (JStr s) = Some s"
| "as_str _ = None"

fun as_bool :: "js \<Rightarrow> bool option" where
  "as_bool (JBool b) = Some b"
| "as_bool _ = None"

fun as_num :: "js \<Rightarrow> jsnum option" where
  "as_num (JNum x) = Some x"
| "as_num _ = None"

fun as_int :: "js \<Rightarrow> int option" where
  "as_int (JNum (NInt i)) = Some i"
| "as_int _ = None"

definition as_nat :: "js \<Rightarrow> nat option" where
  "as_nat v = (case as_int v of Some i \<Rightarrow> if 0 \<le> i then Some (nat i) else None | None \<Rightarrow> None)"

fun as_list :: "js \<Rightarrow> js list option" where
  "as_list (JArr vs) = Some vs"
| "as_list _ = None"

fun as_props :: "js \<Rightarrow> (ustring \<times> js) list option" where
  "as_props (JObj p s kvs) = Some kvs"
| "as_props _ = None"

definition as_any :: "js \<Rightarrow> js option" where
  "as_any v = (if v = JUndef then None else Some v)"

definition as_array :: "(js \<Rightarrow> 'a option) \<Rightarrow> js \<Rightarrow> 'a list option" where
  "as_array f v = Option.bind (as_list v) (\<lambda>vs. those (map f vs))"

definition optional :: "(js \<Rightarrow> 'a option) \<Rightarrow> js \<Rightarrow> 'a option option" where
  "optional f v = (if v = JUndef then Some None else map_option Some (f v))"

definition as_nullable :: "(js \<Rightarrow> 'a option) \<Rightarrow> js \<Rightarrow> 'a option option" where
  "as_nullable f v = (if v = JNull then Some None else map_option Some (f v))"

text \<open>One of a list of alternatives, each with the value that stands for it.\<close>

definition one_of :: "('a \<Rightarrow> js) \<Rightarrow> 'a list \<Rightarrow> js \<Rightarrow> 'a option" where
  "one_of f xs v = find (\<lambda>x. f x = v) xs"

section \<open>Messages\<close>

definition text_of :: "(ustring \<times> js) list \<Rightarrow> TextContent option" where
  "text_of kvs = do {
     text \<leftarrow> as_str (prop_of kvs ''text'');
     signature \<leftarrow> optional as_str (prop_of kvs ''textSignature'');
     Some \<lparr>tc_text = text, tc_textSignature = signature\<rparr> }"

definition image_of :: "(ustring \<times> js) list \<Rightarrow> ImageContent option" where
  "image_of kvs = do {
     data \<leftarrow> as_str (prop_of kvs ''data'');
     mimeType \<leftarrow> as_str (prop_of kvs ''mimeType'');
     Some \<lparr>ic_data = data, ic_mimeType = mimeType\<rparr> }"

definition thinking_of :: "(ustring \<times> js) list \<Rightarrow> ThinkingContent option" where
  "thinking_of kvs = do {
     thinking \<leftarrow> as_str (prop_of kvs ''thinking'');
     signature \<leftarrow> optional as_str (prop_of kvs ''thinkingSignature'');
     redacted \<leftarrow> optional as_bool (prop_of kvs ''redacted'');
     Some \<lparr>th_thinking = thinking, th_thinkingSignature = signature, th_redacted = redacted\<rparr> }"

definition tool_call_of :: "(ustring \<times> js) list \<Rightarrow> ToolCall option" where
  "tool_call_of kvs = do {
     i \<leftarrow> as_str (prop_of kvs ''id'');
     name \<leftarrow> as_str (prop_of kvs ''name'');
     arguments \<leftarrow> as_any (prop_of kvs ''arguments'');
     signature \<leftarrow> optional as_str (prop_of kvs ''thoughtSignature'');
     namespace \<leftarrow> optional as_str (prop_of kvs ''namespace'');
     Some \<lparr>call_id = i, call_name = name, call_arguments = arguments, call_thoughtSignature = signature,
           call_namespace = namespace\<rparr> }"

definition user_block_of :: "js \<Rightarrow> user_block option" where
  "user_block_of v = do {
     kvs \<leftarrow> as_props v;
     let t = prop_of kvs ''type'';
     if t = lit ''text'' then map_option UText (text_of kvs)
     else if t = lit ''image'' then map_option UImage (image_of kvs)
     else None }"

definition assistant_block_of :: "js \<Rightarrow> assistant_block option" where
  "assistant_block_of v = do {
     kvs \<leftarrow> as_props v;
     let t = prop_of kvs ''type'';
     if t = lit ''text'' then map_option AText (text_of kvs)
     else if t = lit ''thinking'' then map_option AThinking (thinking_of kvs)
     else if t = lit ''toolCall'' then map_option AToolCall (tool_call_of kvs)
     else None }"

definition user_content_of :: "js \<Rightarrow> user_content option" where
  "user_content_of v = (case v of JStr s \<Rightarrow> Some (CString s) | _ \<Rightarrow> map_option CBlocks (as_array user_block_of v))"

definition cost_of :: "js \<Rightarrow> UsageCost option" where
  "cost_of v = do {
     kvs \<leftarrow> as_props v;
     input \<leftarrow> as_num (prop_of kvs ''input'');
     output \<leftarrow> as_num (prop_of kvs ''output'');
     cacheRead \<leftarrow> as_num (prop_of kvs ''cacheRead'');
     cacheWrite \<leftarrow> as_num (prop_of kvs ''cacheWrite'');
     total \<leftarrow> as_num (prop_of kvs ''total'');
     Some \<lparr>uc_input = input, uc_output = output, uc_cacheRead = cacheRead, uc_cacheWrite = cacheWrite, uc_total = total\<rparr> }"

definition usage_of :: "js \<Rightarrow> Usage option" where
  "usage_of v = do {
     kvs \<leftarrow> as_props v;
     input \<leftarrow> as_int (prop_of kvs ''input'');
     output \<leftarrow> as_int (prop_of kvs ''output'');
     cacheRead \<leftarrow> as_int (prop_of kvs ''cacheRead'');
     cacheWrite \<leftarrow> as_int (prop_of kvs ''cacheWrite'');
     cacheWrite1h \<leftarrow> optional as_int (prop_of kvs ''cacheWrite1h'');
     reasoning \<leftarrow> optional as_int (prop_of kvs ''reasoning'');
     totalTokens \<leftarrow> as_int (prop_of kvs ''totalTokens'');
     cost \<leftarrow> cost_of (prop_of kvs ''cost'');
     Some \<lparr>us_input = input, us_output = output, us_cacheRead = cacheRead, us_cacheWrite = cacheWrite,
           us_cacheWrite1h = cacheWrite1h, us_reasoning = reasoning, us_totalTokens = totalTokens, us_cost = cost\<rparr> }"

definition stop_reason_of :: "js \<Rightarrow> StopReason option" where
  "stop_reason_of = one_of stop_reason_js [SPending, SStop, SLength, SToolUse, SError, SAborted, SDeferred]"

definition deferred_of :: "js \<Rightarrow> DeferredHandle option" where
  "deferred_of v = do {
     kvs \<leftarrow> as_props v;
     provider \<leftarrow> as_str (prop_of kvs ''provider'');
     modelId \<leftarrow> as_str (prop_of kvs ''modelId'');
     api \<leftarrow> as_str (prop_of kvs ''api'');
     i \<leftarrow> as_str (prop_of kvs ''id'');
     expiresAt \<leftarrow> optional as_int (prop_of kvs ''expiresAt'');
     pollAfterMs \<leftarrow> optional as_int (prop_of kvs ''pollAfterMs'');
     data \<leftarrow> optional as_any (prop_of kvs ''data'');
     Some \<lparr>dh_provider = provider, dh_modelId = modelId, dh_api = api, dh_id = i, dh_expiresAt = expiresAt,
           dh_pollAfterMs = pollAfterMs, dh_data = data\<rparr> }"

definition user_message_of :: "(ustring \<times> js) list \<Rightarrow> UserMessage option" where
  "user_message_of kvs = do {
     content \<leftarrow> user_content_of (prop_of kvs ''content'');
     timestamp \<leftarrow> as_int (prop_of kvs ''timestamp'');
     Some \<lparr>um_content = content, um_timestamp = timestamp\<rparr> }"

definition assistant_message_of :: "(ustring \<times> js) list \<Rightarrow> AssistantMessage option" where
  "assistant_message_of kvs = do {
     content \<leftarrow> as_array assistant_block_of (prop_of kvs ''content'');
     api \<leftarrow> as_str (prop_of kvs ''api'');
     provider \<leftarrow> as_str (prop_of kvs ''provider'');
     model \<leftarrow> as_str (prop_of kvs ''model'');
     responseModel \<leftarrow> optional as_str (prop_of kvs ''responseModel'');
     responseId \<leftarrow> optional as_str (prop_of kvs ''responseId'');
     diagnostics \<leftarrow> optional as_list (prop_of kvs ''diagnostics'');
     usage \<leftarrow> usage_of (prop_of kvs ''usage'');
     stopReason \<leftarrow> stop_reason_of (prop_of kvs ''stopReason'');
     deferred \<leftarrow> optional deferred_of (prop_of kvs ''deferred'');
     errorMessage \<leftarrow> optional as_str (prop_of kvs ''errorMessage'');
     rawStopReason \<leftarrow> optional as_str (prop_of kvs ''rawStopReason'');
     endTurn \<leftarrow> optional as_bool (prop_of kvs ''endTurn'');
     timestamp \<leftarrow> as_int (prop_of kvs ''timestamp'');
     Some \<lparr>am_content = content, am_api = api, am_provider = provider, am_model = model, am_responseModel = responseModel,
           am_responseId = responseId, am_diagnostics = diagnostics, am_usage = usage, am_stopReason = stopReason,
           am_deferred = deferred, am_errorMessage = errorMessage, am_rawStopReason = rawStopReason, am_endTurn = endTurn,
           am_timestamp = timestamp\<rparr> }"

definition tool_result_of :: "(ustring \<times> js) list \<Rightarrow> ToolResultMessage option" where
  "tool_result_of kvs = do {
     toolCallId \<leftarrow> as_str (prop_of kvs ''toolCallId'');
     toolName \<leftarrow> as_str (prop_of kvs ''toolName'');
     content \<leftarrow> as_array user_block_of (prop_of kvs ''content'');
     details \<leftarrow> optional as_any (prop_of kvs ''details'');
     usage \<leftarrow> optional usage_of (prop_of kvs ''usage'');
     addedToolNames \<leftarrow> optional (as_array as_str) (prop_of kvs ''addedToolNames'');
     isError \<leftarrow> as_bool (prop_of kvs ''isError'');
     timestamp \<leftarrow> as_int (prop_of kvs ''timestamp'');
     Some \<lparr>tr_toolCallId = toolCallId, tr_toolName = toolName, tr_content = content, tr_details = details, tr_usage = usage,
           tr_addedToolNames = addedToolNames, tr_isError = isError, tr_timestamp = timestamp\<rparr> }"

definition bash_of :: "(ustring \<times> js) list \<Rightarrow> BashExecutionMessage option" where
  "bash_of kvs = do {
     command \<leftarrow> as_str (prop_of kvs ''command'');
     output \<leftarrow> as_str (prop_of kvs ''output'');
     exitCode \<leftarrow> optional as_int (prop_of kvs ''exitCode'');
     cancelled \<leftarrow> as_bool (prop_of kvs ''cancelled'');
     truncated \<leftarrow> as_bool (prop_of kvs ''truncated'');
     fullOutputPath \<leftarrow> optional as_str (prop_of kvs ''fullOutputPath'');
     timestamp \<leftarrow> as_int (prop_of kvs ''timestamp'');
     exclude \<leftarrow> optional as_bool (prop_of kvs ''excludeFromContext'');
     Some \<lparr>be_command = command, be_output = output, be_exitCode = exitCode, be_cancelled = cancelled,
           be_truncated = truncated, be_fullOutputPath = fullOutputPath, be_timestamp = timestamp,
           be_excludeFromContext = exclude\<rparr> }"

definition custom_of :: "(ustring \<times> js) list \<Rightarrow> CustomMessage option" where
  "custom_of kvs = do {
     customType \<leftarrow> as_str (prop_of kvs ''customType'');
     content \<leftarrow> user_content_of (prop_of kvs ''content'');
     display \<leftarrow> as_bool (prop_of kvs ''display'');
     details \<leftarrow> optional as_any (prop_of kvs ''details'');
     timestamp \<leftarrow> as_int (prop_of kvs ''timestamp'');
     Some \<lparr>cm_customType = customType, cm_content = content, cm_display = display, cm_details = details,
           cm_timestamp = timestamp\<rparr> }"

definition branch_summary_of :: "(ustring \<times> js) list \<Rightarrow> BranchSummaryMessage option" where
  "branch_summary_of kvs = do {
     summary \<leftarrow> as_str (prop_of kvs ''summary'');
     fromId \<leftarrow> as_str (prop_of kvs ''fromId'');
     timestamp \<leftarrow> as_int (prop_of kvs ''timestamp'');
     Some \<lparr>bs_summary = summary, bs_fromId = fromId, bs_timestamp = timestamp\<rparr> }"

definition compaction_summary_of :: "(ustring \<times> js) list \<Rightarrow> CompactionSummaryMessage option" where
  "compaction_summary_of kvs = do {
     summary \<leftarrow> as_str (prop_of kvs ''summary'');
     tokensBefore \<leftarrow> as_int (prop_of kvs ''tokensBefore'');
     timestamp \<leftarrow> as_int (prop_of kvs ''timestamp'');
     Some \<lparr>cs_summary = summary, cs_tokensBefore = tokensBefore, cs_timestamp = timestamp\<rparr> }"

definition message_of :: "js \<Rightarrow> AgentMessage option" where
  "message_of v = do {
     kvs \<leftarrow> as_props v;
     let r = prop_of kvs ''role'';
     if r = lit ''user'' then map_option MUser (user_message_of kvs)
     else if r = lit ''assistant'' then map_option MAssistant (assistant_message_of kvs)
     else if r = lit ''toolResult'' then map_option MToolResult (tool_result_of kvs)
     else if r = lit ''bashExecution'' then map_option MBash (bash_of kvs)
     else if r = lit ''custom'' then map_option MCustom (custom_of kvs)
     else if r = lit ''branchSummary'' then map_option MBranchSummary (branch_summary_of kvs)
     else if r = lit ''compactionSummary'' then map_option MCompactionSummary (compaction_summary_of kvs)
     else None }"

section \<open>Entries and records\<close>

definition body_of :: "js \<Rightarrow> (ustring \<times> js) list \<Rightarrow> entry_body option" where
  "body_of t kvs =
     (if t = lit ''message'' then do {
        message \<leftarrow> message_of (prop_of kvs ''message'');
        terminate \<leftarrow> optional as_bool (prop_of kvs ''terminate'');
        Some (MessageEntry message (terminate = Some True)) }
      else if t = lit ''model_change'' then do {
        provider \<leftarrow> as_str (prop_of kvs ''provider'');
        modelId \<leftarrow> as_str (prop_of kvs ''modelId'');
        Some (ModelChangeEntry provider modelId) }
      else if t = lit ''thinking_level_change'' then map_option ThinkingLevelEntry (as_str (prop_of kvs ''thinkingLevel''))
      else if t = lit ''active_tools_change'' then map_option ActiveToolsEntry (as_array as_str (prop_of kvs ''activeToolNames''))
      else if t = lit ''compaction'' then do {
        summary \<leftarrow> as_str (prop_of kvs ''summary'');
        tail \<leftarrow> as_array message_of (prop_of kvs ''retainedTail'');
        tokens \<leftarrow> as_int (prop_of kvs ''tokensBefore'');
        details \<leftarrow> optional as_any (prop_of kvs ''details'');
        usage \<leftarrow> optional usage_of (prop_of kvs ''usage'');
        Some (CompactionEntry summary tail tokens details usage) }
      else if t = lit ''branch_summary'' then do {
        fromId \<leftarrow> as_str (prop_of kvs ''fromId'');
        summary \<leftarrow> as_str (prop_of kvs ''summary'');
        details \<leftarrow> optional as_any (prop_of kvs ''details'');
        usage \<leftarrow> optional usage_of (prop_of kvs ''usage'');
        Some (BranchSummaryEntry fromId summary details usage) }
      else if t = lit ''custom'' then do {
        customType \<leftarrow> as_str (prop_of kvs ''customType'');
        data \<leftarrow> optional as_any (prop_of kvs ''data'');
        Some (CustomEntry customType data) }
      else None)"

definition provisioned_of :: "js \<Rightarrow> ProvisionedEntry option" where
  "provisioned_of v = do {
     kvs \<leftarrow> as_props v;
     i \<leftarrow> as_str (prop_of kvs ''id'');
     body \<leftarrow> body_of (prop_of kvs ''type'') kvs;
     Some \<lparr>pe_id = i, pe_body = body\<rparr> }"

definition entry_of :: "(ustring \<times> js) list \<Rightarrow> Entry option" where
  "entry_of kvs = do {
     i \<leftarrow> as_str (prop_of kvs ''id'');
     body \<leftarrow> body_of (prop_of kvs ''type'') kvs;
     parentId \<leftarrow> as_nullable as_str (prop_of kvs ''parentId'');
     seq \<leftarrow> as_nat (prop_of kvs ''seq'');
     timestamp \<leftarrow> as_int (prop_of kvs ''timestamp'');
     Some \<lparr>en_id = i, en_seq = seq, en_parentId = parentId, en_timestamp = timestamp, en_body = body\<rparr> }"

definition intent_of :: "js \<Rightarrow> intent option" where
  "intent_of v = do {
     kvs \<leftarrow> as_props v;
     let k = prop_of kvs ''kind'';
     if k = lit ''run'' then do {
       prompt \<leftarrow> as_array message_of (prop_of kvs ''originalPrompt'');
       initial \<leftarrow> as_array provisioned_of (prop_of kvs ''initialMessages'');
       override \<leftarrow> optional as_str (prop_of kvs ''systemPromptOverride'');
       resume \<leftarrow> optional as_props (prop_of kvs ''resumeData'');
       Some (RunIntent prompt initial override resume) }
     else if k = lit ''compaction'' then do {
       instructions \<leftarrow> optional as_str (prop_of kvs ''customInstructions'');
       resultEntryId \<leftarrow> as_str (prop_of kvs ''resultEntryId'');
       Some (CompactionIntent instructions resultEntryId) }
     else if k = lit ''navigation'' then do {
       targetId \<leftarrow> as_nullable as_str (prop_of kvs ''targetId'');
       summarize \<leftarrow> as_bool (prop_of kvs ''summarize'');
       instructions \<leftarrow> optional as_str (prop_of kvs ''customInstructions'');
       label \<leftarrow> optional as_str (prop_of kvs ''label'');
       summaryEntryId \<leftarrow> optional as_str (prop_of kvs ''summaryEntryId'');
       Some (NavigationIntent targetId summarize instructions label summaryEntryId) }
     else None }"

definition error_of :: "js \<Rightarrow> (ustring \<times> ustring) option" where
  "error_of v = do {
     kvs \<leftarrow> as_props v;
     code \<leftarrow> as_str (prop_of kvs ''code'');
     message \<leftarrow> as_str (prop_of kvs ''message'');
     Some (code, message) }"

definition cause_of :: "(ustring \<times> js) list \<Rightarrow> usage_cause option" where
  "cause_of kvs =
     (let c = prop_of kvs ''cause'' in
      if c = lit ''tool'' then do {
        runId \<leftarrow> as_str (prop_of kvs ''runId'');
        entryId \<leftarrow> as_str (prop_of kvs ''entryId'');
        toolCallId \<leftarrow> as_str (prop_of kvs ''toolCallId'');
        Some (UTool runId entryId toolCallId) }
      else if c = lit ''hook'' then do {
        runId \<leftarrow> as_str (prop_of kvs ''runId'');
        entryId \<leftarrow> as_str (prop_of kvs ''entryId'');
        Some (UHook runId entryId) }
      else if c = lit ''adjustment'' then do {
        runId \<leftarrow> optional as_str (prop_of kvs ''runId'');
        entryId \<leftarrow> optional as_str (prop_of kvs ''entryId'');
        details \<leftarrow> optional as_any (prop_of kvs ''details'');
        Some (UAdjustment runId entryId details) }
      else do {
        cause \<leftarrow> one_of attempt_cause_js [CAssistant, CCompaction, CBranchSummary, CDeferredFetch] c;
        runId \<leftarrow> as_str (prop_of kvs ''runId'');
        entryId \<leftarrow> as_str (prop_of kvs ''entryId'');
        attempt \<leftarrow> as_nat (prop_of kvs ''attempt'');
        stopReason \<leftarrow> stop_reason_of (prop_of kvs ''stopReason'');
        Some (UAttempt cause runId entryId attempt stopReason) })"

definition step_attempt_of :: "(ustring \<times> js) list \<Rightarrow> StepAttempt option" where
  "step_attempt_of kvs = do {
     runId \<leftarrow> as_str (prop_of kvs ''runId'');
     step \<leftarrow> one_of step_js [StAssistant, StBranchSummary, StCompaction] (prop_of kvs ''step'');
     attempt \<leftarrow> as_nat (prop_of kvs ''attempt'');
     resultEntryId \<leftarrow> as_str (prop_of kvs ''resultEntryId'');
     reason \<leftarrow> optional (one_of reason_js [RManual, RThreshold, ROverflow]) (prop_of kvs ''compactionReason'');
     Some \<lparr>sa_runId = runId, sa_step = step, sa_attempt = attempt, sa_resultEntryId = resultEntryId,
           sa_compactionReason = reason\<rparr> }"

definition tool_started_of :: "(ustring \<times> js) list \<Rightarrow> ToolStarted option" where
  "tool_started_of kvs = do {
     runId \<leftarrow> as_str (prop_of kvs ''runId'');
     assistantEntryId \<leftarrow> as_str (prop_of kvs ''assistantEntryId'');
     toolIndex \<leftarrow> as_nat (prop_of kvs ''toolIndex'');
     toolCallId \<leftarrow> as_str (prop_of kvs ''toolCallId'');
     toolName \<leftarrow> as_str (prop_of kvs ''toolName'');
     effectiveArgs \<leftarrow> as_props (prop_of kvs ''effectiveArgs'');
     resultEntryId \<leftarrow> as_str (prop_of kvs ''resultEntryId'');
     replay \<leftarrow> one_of (\<lambda>r. case r of ReplayNever \<Rightarrow> lit ''never'' | ReplaySafe \<Rightarrow> lit ''safe'') [ReplayNever, ReplaySafe]
       (prop_of kvs ''replay'');
     Some \<lparr>ts_runId = runId, ts_assistantEntryId = assistantEntryId, ts_toolIndex = toolIndex, ts_toolCallId = toolCallId,
           ts_toolName = toolName, ts_effectiveArgs = effectiveArgs, ts_resultEntryId = resultEntryId, ts_replay = replay\<rparr> }"

definition record_body_of :: "js \<Rightarrow> (ustring \<times> js) list \<Rightarrow> record_body option" where
  "record_body_of t kvs =
     (if t = lit ''operation_started'' then do {
        sourceLeafId \<leftarrow> as_nullable as_str (prop_of kvs ''sourceLeafId'');
        intent \<leftarrow> intent_of (prop_of kvs ''intent'');
        Some (OperationStartedRecord \<lparr>os_sourceLeafId = sourceLeafId, os_intent = intent\<rparr>) }
      else if t = lit ''abort_requested'' then map_option AbortRequestedRecord (as_str (prop_of kvs ''runId''))
      else if t = lit ''operation_finished'' then do {
        runId \<leftarrow> as_str (prop_of kvs ''runId'');
        outcome \<leftarrow> one_of outcome_js [OCompleted, OAborted, OFailed, ODeclined] (prop_of kvs ''outcome'');
        error \<leftarrow> optional error_of (prop_of kvs ''error'');
        Some (OperationFinishedRecord runId outcome error) }
      else if t = lit ''step_attempt'' then map_option StepAttemptRecord (step_attempt_of kvs)
      else if t = lit ''tool_started'' then map_option ToolStartedRecord (tool_started_of kvs)
      else if t = lit ''queue_enqueued'' then do {
        queue \<leftarrow> one_of queue_js [QSteer, QFollowUp, QNextRun] (prop_of kvs ''queue'');
        runId \<leftarrow> optional as_str (prop_of kvs ''runId'');
        target \<leftarrow> provisioned_of (prop_of kvs ''target'');
        Some (QueueEnqueuedRecord \<lparr>qe_queue = queue, qe_runId = runId, qe_target = target\<rparr>) }
      else if t = lit ''queue_cancelled'' then do {
        runId \<leftarrow> optional as_str (prop_of kvs ''runId'');
        entryId \<leftarrow> as_str (prop_of kvs ''entryId'');
        Some (QueueCancelledRecord runId entryId) }
      else if t = lit ''write_deferred'' then do {
        runId \<leftarrow> as_str (prop_of kvs ''runId'');
        target \<leftarrow> provisioned_of (prop_of kvs ''target'');
        Some (WriteDeferredRecord runId target) }
      else if t = lit ''usage'' then do {
        usage \<leftarrow> usage_of (prop_of kvs ''usage'');
        cause \<leftarrow> cause_of kvs;
        Some (UsageRecord usage cause) }
      else None)"

definition record_of :: "(ustring \<times> js) list \<Rightarrow> LaneRecord option" where
  "record_of kvs = do {
     i \<leftarrow> as_str (prop_of kvs ''id'');
     lane \<leftarrow> as_str (prop_of kvs ''lane'');
     body \<leftarrow> record_body_of (prop_of kvs ''type'') kvs;
     seq \<leftarrow> as_nat (prop_of kvs ''seq'');
     timestamp \<leftarrow> as_int (prop_of kvs ''timestamp'');
     Some \<lparr>lr_id = i, lr_seq = seq, lr_lane = lane, lr_timestamp = timestamp, lr_body = body\<rparr> }"

section \<open>Reading back\<close>

definition field_or :: "js \<Rightarrow> ('a \<Rightarrow> js) \<Rightarrow> 'a option \<Rightarrow> js" where
  "field_or d f x = (case x of None \<Rightarrow> d | Some y \<Rightarrow> f y)"

lemma prop_of_optional [simp]:
  "prop_of (opt_fld k' f x) k = (if k = k' then field_or JUndef f x else JUndef)"
  "prop_of (opt_fld k' f x @ r) k = (if k = k' then field_or (prop_of r k) f x else prop_of r k)"
  by (auto simp: prop_of_def opt_fld_def field_or_def split: option.splits)

lemma optional_read [simp]:
  assumes "f JUndef = None" and "\<And>y. x = Some y \<Longrightarrow> f (g y) = Some y"
  shows "optional f (field_or JUndef g x) = Some x"
  using assms by (cases x) (auto simp: optional_def field_or_def)

lemma nullable_read [simp]: "as_nullable as_str (nullable JStr x) = Some x"
  by (cases x) (simp_all add: as_nullable_def nullable_def)

lemma scalar_reads [simp]:
  "as_int (int_js i) = Some i" "as_nat (nat_js n) = Some n" "as_any JUndef = None" "as_props (obj kvs) = Some kvs"
  "as_str (lit a) = Some (js_lit a)" "as_nat JUndef = None" "as_array f JUndef = None"
  by (simp_all add: int_js_def nat_js_def as_nat_def as_any_def obj_def lit_def as_array_def)

lemma those_map: "(\<And>x. x \<in> set xs \<Longrightarrow> f (g x) = Some x) \<Longrightarrow> those (map f (map g xs)) = Some xs"
  by (induction xs) auto

lemma as_array_read [simp]: "(\<And>x. x \<in> set xs \<Longrightarrow> f (g x) = Some x) \<Longrightarrow> as_array f (JArr (map g xs)) = Some xs"
  unfolding as_array_def using those_map [of xs f g] by simp

lemma strings_read [simp]: "as_array as_str (strings_js ss) = Some ss"
  by (simp add: strings_js_def)

lemma members_ok_append [simp]: "members_ok (a @ b) \<longleftrightarrow> members_ok a \<and> members_ok b"
  by (induction a) auto

lemma members_ok_fields [simp]:
  "members_ok (fld k v) \<longleftrightarrow> json_ok v" "members_ok (opt_fld k f x) \<longleftrightarrow> (case x of None \<Rightarrow> True | Some y \<Rightarrow> json_ok (f y))"
  by (simp_all add: fld_def opt_fld_def split: option.splits)

lemma items_ok_all [simp]: "items_ok vs \<longleftrightarrow> (\<forall>v \<in> set vs. json_ok v)"
  by (induction vs) auto

lemma json_ok_members: "json_ok (obj kvs) \<Longrightarrow> members_ok kvs"
  by (simp add: obj_def)

lemma as_any_read [simp]: "json_ok v \<Longrightarrow> as_any v = Some v"
  by (auto simp: as_any_def)

lemma optional_any_read [simp]:
  "(case x of None \<Rightarrow> True | Some y \<Rightarrow> json_ok (id y)) \<Longrightarrow>
   optional as_any (field_or JUndef id x) = Some x"
  by (cases x) (auto simp: optional_def as_any_def field_or_def)

lemma text_read [simp]: "user_block_of (text_js t) = Some (UText t)" "assistant_block_of (text_js t) = Some (AText t)"
  by (simp_all add: user_block_of_def assistant_block_of_def text_js_def text_of_def)

lemma image_read [simp]: "user_block_of (image_js i) = Some (UImage i)"
  by (simp add: user_block_of_def image_js_def image_of_def)

lemma user_block_read [simp]: "user_block_of (user_block_js b) = Some b"
  by (cases b) simp_all

lemma user_content_read [simp]: "user_content_of (user_content_js c) = Some c"
  by (cases c) (simp_all add: user_content_of_def)

lemma thinking_read [simp]: "assistant_block_of (thinking_js t) = Some (AThinking t)"
  by (simp add: assistant_block_of_def thinking_js_def thinking_of_def)

lemma tool_call_read [simp]: "json_ok (tool_call_js c) \<Longrightarrow> assistant_block_of (tool_call_js c) = Some (AToolCall c)"
  unfolding tool_call_js_def by (drule json_ok_members) (simp add: assistant_block_of_def tool_call_of_def)

lemma assistant_block_read [simp]: "json_ok (assistant_block_js b) \<Longrightarrow> assistant_block_of (assistant_block_js b) = Some b"
  by (cases b) simp_all

lemma cost_read [simp]: "cost_of (cost_js c) = Some c"
  by (simp add: cost_of_def cost_js_def)

lemma usage_read [simp]: "usage_of (usage_js u) = Some u" "usage_of JUndef = None"
  by (simp_all add: usage_of_def usage_js_def)

lemma stop_reason_read [simp]: "stop_reason_of (stop_reason_js r) = Some r"
  by (cases r) (simp_all add: stop_reason_of_def one_of_def)

lemma deferred_read [simp]: "json_ok (deferred_js d) \<Longrightarrow> deferred_of (deferred_js d) = Some d" "deferred_of JUndef = None"
  unfolding deferred_js_def by (drule json_ok_members) (simp_all add: deferred_of_def)

lemma message_read:
  assumes "json_ok (message_js m)"
  shows "message_of (message_js m) = Some m"
proof (cases m)
  case (MUser u)
  then show ?thesis by (simp add: message_of_def user_message_of_def)
next
  case (MAssistant a)
  then have ok: "members_ok (opt_fld ''deferred'' deferred_js (am_deferred a))"
      "members_ok (fld ''content'' (JArr (map assistant_block_js (am_content a))))"
    using assms by (auto dest!: json_ok_members)
  then have "assistant_block_of (assistant_block_js b) = Some b" if "b \<in> set (am_content a)" for b
    using that by simp
  moreover have "deferred_of (deferred_js d) = Some d" if "am_deferred a = Some d" for d
    using that ok(1) by simp
  ultimately show ?thesis by (simp add: MAssistant message_of_def assistant_message_of_def)
next
  case (MToolResult t)
  then have "members_ok (opt_fld ''details'' id (tr_details t))" using assms by (auto dest!: json_ok_members)
  then show ?thesis by (simp add: MToolResult message_of_def tool_result_of_def)
next
  case (MBash b)
  then show ?thesis by (simp add: message_of_def bash_of_def)
next
  case (MCustom c)
  then have "members_ok (opt_fld ''details'' id (cm_details c))" using assms by (auto dest!: json_ok_members)
  then show ?thesis by (simp add: MCustom message_of_def custom_of_def)
next
  case (MBranchSummary b)
  then show ?thesis by (simp add: message_of_def branch_summary_of_def)
next
  case (MCompactionSummary c)
  then show ?thesis by (simp add: message_of_def compaction_summary_of_def)
qed

lemma messages_read [simp]:
  "json_ok (JArr (map message_js ms)) \<Longrightarrow> as_array message_of (JArr (map message_js ms)) = Some ms"
  by (simp add: message_read)

lemma body_read:
  assumes "members_ok (body_props b)" and "\<And>k. k \<in> set [''terminate'', ''details'', ''usage'', ''data''] \<Longrightarrow> prop_of after k = JUndef"
  shows "body_of (type_js (body_type b)) (fld ''type'' t @ fld ''id'' i @ body_props b @ after) = Some b"
proof (cases b)
  case (MessageEntry m terminate)
  then show ?thesis using assms by (cases terminate) (simp_all add: body_of_def message_read optional_def)
qed (use assms in \<open>auto simp: body_of_def message_read\<close>)

lemma provisioned_read [simp]: "json_ok (provisioned_js e) \<Longrightarrow> provisioned_of (provisioned_js e) = Some e"
  using body_read [of "pe_body e" "[]" "type_js (body_type (pe_body e))" "JStr (pe_id e)"]
  unfolding provisioned_js_def by (auto simp: provisioned_of_def dest!: json_ok_members)

definition entry_props :: "Entry \<Rightarrow> (ustring \<times> js) list" where
  "entry_props e = fld ''type'' (type_js (en_type e)) @ fld ''id'' (JStr (en_id e)) @ body_props (en_body e)
     @ fld ''parentId'' (nullable JStr (en_parentId e)) @ fld ''seq'' (nat_js (en_seq e)) @ fld ''timestamp'' (int_js (en_timestamp e))"

definition lane_record_props :: "LaneRecord \<Rightarrow> (ustring \<times> js) list" where
  "lane_record_props r = fld ''id'' (JStr (lr_id r)) @ fld ''lane'' (JStr (lr_lane r)) @ record_props (lr_body r)
     @ fld ''seq'' (nat_js (lr_seq r)) @ fld ''timestamp'' (int_js (lr_timestamp r))"

lemma body_props_common [simp]:
  "k \<in> set [''parentId'', ''seq'', ''timestamp'', ''lane'', ''kind''] \<Longrightarrow> prop_of (body_props b @ r) k = prop_of r k"
  by (cases b) auto

lemma entry_read:
  assumes "members_ok (entry_props e)"
  shows "entry_of (entry_props e) = Some e"
proof -
  let ?after = "fld ''parentId'' (nullable JStr (en_parentId e)) @ fld ''seq'' (nat_js (en_seq e)) @ fld ''timestamp'' (int_js (en_timestamp e))"
  have "body_of (type_js (en_type e)) (fld ''type'' (type_js (en_type e)) @ fld ''id'' (JStr (en_id e)) @ body_props (en_body e) @ ?after)
      = Some (en_body e)"
    by (rule body_read) (use assms in \<open>auto simp: entry_props_def\<close>)
  then show ?thesis by (simp add: entry_of_def entry_props_def)
qed

lemma intent_read [simp]:
  assumes "json_ok (intent_js i)"
  shows "intent_of (intent_js i) = Some i"
proof (cases i)
  case (RunIntent prompt initial override resume)
  then have "members_ok (fld ''originalPrompt'' (JArr (map message_js prompt)) @ fld ''initialMessages'' (JArr (map provisioned_js initial)))"
    using assms by (auto dest!: json_ok_members)
  then show ?thesis using RunIntent by (simp add: intent_of_def message_read)
qed (simp_all add: intent_of_def)

lemma error_read [simp]:
  "error_of (case x of (code, message) \<Rightarrow> obj (fld ''code'' (JStr code) @ fld ''message'' (JStr message))) = Some x"
  "error_of JUndef = None"
  by (simp_all add: error_of_def split: prod.split)

lemma outcome_read [simp]: "one_of outcome_js [OCompleted, OAborted, OFailed, ODeclined] (outcome_js x) = Some x"
  by (cases x) (simp_all add: one_of_def)

lemma reason_read [simp]:
  "one_of reason_js [RManual, RThreshold, ROverflow] (reason_js x) = Some x"
  "one_of reason_js [RManual, RThreshold, ROverflow] JUndef = None"
  by (cases x) (simp_all add: one_of_def lit_def)

lemma step_read [simp]: "one_of step_js [StAssistant, StBranchSummary, StCompaction] (step_js x) = Some x"
  by (cases x) (simp_all add: one_of_def)

lemma queue_read [simp]: "one_of queue_js [QSteer, QFollowUp, QNextRun] (queue_js x) = Some x"
  by (cases x) (simp_all add: one_of_def)

lemma attempt_cause_read [simp]:
  "one_of attempt_cause_js [CAssistant, CCompaction, CBranchSummary, CDeferredFetch] (attempt_cause_js x) = Some x"
  by (cases x) (simp_all add: one_of_def)

lemma replay_read [simp]:
  "one_of (\<lambda>r. case r of ReplayNever \<Rightarrow> lit ''never'' | ReplaySafe \<Rightarrow> lit ''safe'') [ReplayNever, ReplaySafe]
     (case x of ReplayNever \<Rightarrow> lit ''never'' | ReplaySafe \<Rightarrow> lit ''safe'') = Some x"
  by (cases x) (simp_all add: one_of_def)

lemma attempt_cause_other [simp]:
  "attempt_cause_js a \<noteq> lit ''tool''" "attempt_cause_js a \<noteq> lit ''hook''" "attempt_cause_js a \<noteq> lit ''adjustment''"
  by (cases a; simp)+

lemma cause_read:
  assumes "members_ok (cause_props c)"
  shows "cause_of (fld ''id'' i @ fld ''lane'' l @ fld ''type'' t @ fld ''usage'' u @ cause_props c @ fld ''seq'' s @ fld ''timestamp'' ts) = Some c"
  by (cases c) (use assms in \<open>simp_all add: cause_of_def\<close>)

lemma record_body_read:
  assumes "members_ok (record_props b)"
  shows "record_body_of (prop_of (record_props b @ r) ''type'')
      (fld ''id'' i @ fld ''lane'' l @ record_props b @ fld ''seq'' s @ fld ''timestamp'' ts) = Some b"
proof (cases b)
  case (UsageRecord u c)
  then show ?thesis using assms cause_read [of c i l "lit ''usage''" "usage_js u" s ts] by (simp add: record_body_of_def)
qed (use assms in \<open>auto simp: record_body_of_def step_attempt_of_def tool_started_of_def\<close>)

lemma cause_props_common [simp]:
  "prop_of (cause_props c @ r) ''seq'' = prop_of r ''seq''" "prop_of (cause_props c @ r) ''timestamp'' = prop_of r ''timestamp''"
  "prop_of (cause_props c @ r) ''kind'' = prop_of r ''kind''"
  by (cases c; simp)+

lemma record_props_common [simp]:
  "prop_of (record_props b @ r) ''seq'' = prop_of r ''seq''" "prop_of (record_props b @ r) ''timestamp'' = prop_of r ''timestamp''"
  "prop_of (record_props b @ r) ''kind'' = prop_of r ''kind''"
  by (cases b; simp)+

lemma record_read:
  assumes "members_ok (lane_record_props r)"
  shows "record_of (lane_record_props r) = Some r"
  using assms record_body_read [of "lr_body r"]
  by (simp add: record_of_def lane_record_props_def)

end
