(* ===== verification/Jsonl_Codec.thy ===== *)
theory Jsonl_Codec
  imports Session_Decode Session_State
begin

text \<open>
  \<^verbatim>\<open>pi/packages/agent/src/harness/session/jsonl/codec.ts\<close> with the types of \<^verbatim>\<open>jsonl/types.ts\<close> and
  \<open>JsonlDecodeError\<close> of \<^verbatim>\<open>jsonl/errors.ts\<close>: the lines of a session file. A line is decoded to a mutation or to an error; a line
  whose object the code accepts although it does not have the declared type is \<open>IllTyped\<close>, and what the code then does
  is outside the model.
\<close>

section \<open>Headers and errors\<close>

datatype decode_kind = Syntax | Schema

datatype JsonlDecodeError = JsonlDecodeError decode_kind ustring | IllTyped

record JsonlV4Header =
  h_id :: ustring
  h_createdAt :: int
  h_cwd :: ustring
  h_parentSessionId :: "ustring option"
  h_legacyParentSessionPath :: "ustring option"
  h_metadata :: "(ustring \<times> js) list option"

record JsonlSessionMetadata =
  jm_id :: ustring
  jm_createdAt :: int
  jm_cwd :: ustring
  jm_path :: ustring
  jm_modifiedAt :: int
  jm_sourceFormat :: nat
  jm_parentSessionId :: "ustring option"
  jm_legacyParentSessionPath :: "ustring option"
  jm_metadata :: "(ustring \<times> js) list option"

definition schema_error :: "ustring \<Rightarrow> JsonlDecodeError" where
  "schema_error message = JsonlDecodeError Schema message"

definition ENTRY_TYPES :: "ustring list" where
  "ENTRY_TYPES = map js_lit [''message'', ''model_change'', ''thinking_level_change'', ''active_tools_change'', ''compaction'',
     ''branch_summary'', ''custom'']"

definition RECORD_TYPES :: "ustring list" where
  "RECORD_TYPES = map js_lit [''operation_started'', ''abort_requested'', ''operation_finished'', ''step_attempt'', ''tool_started'',
     ''queue_enqueued'', ''queue_cancelled'', ''write_deferred'', ''usage'']"

definition OPERATION_KINDS :: "ustring list" where
  "OPERATION_KINDS = map js_lit [''run'', ''compaction'', ''navigation'']"

fun isObject :: "js \<Rightarrow> bool" where
  "isObject (JObj p s kvs) = True"
| "isObject (JBytes bs) = True"
| "isObject _ = False"

section \<open>Reading fields\<close>

definition parseObject :: "ustring \<Rightarrow> JsonlDecodeError + (ustring \<times> js) list" where
  "parseObject line =
     (case parse_json line of
        None \<Rightarrow> Inl (JsonlDecodeError Syntax (js_lit ''is not valid JSON''))
      | Some v \<Rightarrow> (case as_props v of None \<Rightarrow> Inl (schema_error (js_lit ''is not a JSON object'')) | Some kvs \<Rightarrow> Inr kvs))"

definition invalid_field :: "string \<Rightarrow> JsonlDecodeError" where
  "invalid_field field = schema_error (js_lit ''has invalid '' @ js_lit field)"

fun requireString :: "js \<Rightarrow> string \<Rightarrow> JsonlDecodeError + ustring" where
  "requireString (JStr s) field = Inr s"
| "requireString _ field = Inl (invalid_field field)"

text \<open>\<open>Number.isSafeInteger\<close>; \<open>-0\<close> is the integer \<open>0\<close>.\<close>

fun safe_integer :: "js \<Rightarrow> int option" where
  "safe_integer (JNum (NInt i)) = (if \<bar>i\<bar> \<le> 2 ^ 53 - 1 then Some i else None)"
| "safe_integer (JNum NNegZero) = Some 0"
| "safe_integer _ = None"

definition requireSequence :: "js \<Rightarrow> JsonlDecodeError + nat" where
  "requireSequence v =
     (case safe_integer v of
        None \<Rightarrow> Inl (invalid_field ''seq'')
      | Some i \<Rightarrow> if i \<le> 0 then Inl (invalid_field ''seq'') else Inr (nat i))"

definition requireTimestamp :: "js \<Rightarrow> JsonlDecodeError + int" where
  "requireTimestamp v =
     (case safe_integer v of
        None \<Rightarrow> Inl (invalid_field ''timestamp'')
      | Some i \<Rightarrow> if i < 0 then Inl (invalid_field ''timestamp'') else Inr i)"

fun requireNullableId :: "js \<Rightarrow> string \<Rightarrow> JsonlDecodeError + ustring option" where
  "requireNullableId JNull field = Inr None"
| "requireNullableId (JStr s) field = Inr (Some s)"
| "requireNullableId _ field = Inl (invalid_field field)"

text \<open>A field that is \<open>undefined\<close> or a string.\<close>

fun optional_string :: "js \<Rightarrow> string \<Rightarrow> JsonlDecodeError + ustring option" where
  "optional_string JUndef field = Inr None"
| "optional_string (JStr s) field = Inr (Some s)"
| "optional_string _ field = Inl (invalid_field field)"

section \<open>The header\<close>

definition decodeHeader :: "ustring \<Rightarrow> JsonlDecodeError + JsonlV4Header" where
  "decodeHeader line =
     rbind (parseObject line) (\<lambda>kvs.
     rbind (throw_if (prop_of kvs ''kind'' \<noteq> lit ''header'') (schema_error (js_lit ''is not a header''))) (\<lambda>_.
     rbind (throw_if (prop_of kvs ''version'' \<noteq> int_js 4) (schema_error (js_lit ''has unsupported session version''))) (\<lambda>_.
     rbind (optional_string (prop_of kvs ''parentSessionId'') ''parentSessionId'') (\<lambda>parentSessionId.
     rbind (optional_string (prop_of kvs ''legacyParentSessionPath'') ''legacyParentSessionPath'') (\<lambda>legacyParentSessionPath.
     rbind (throw_if (parentSessionId \<noteq> None \<and> legacyParentSessionPath \<noteq> None)
       (schema_error (js_lit ''has both parentSessionId and legacyParentSessionPath''))) (\<lambda>_.
     rbind (case prop_of kvs ''metadata'' of
              JUndef \<Rightarrow> Inr None
            | JObj p s ms \<Rightarrow> Inr (Some ms)
            | _ \<Rightarrow> Inl (invalid_field ''metadata'')) (\<lambda>metadata.
     rbind (requireString (prop_of kvs ''id'') ''id'') (\<lambda>i.
     rbind (requireTimestamp (prop_of kvs ''createdAt'')) (\<lambda>createdAt.
     rbind (requireString (prop_of kvs ''cwd'') ''cwd'') (\<lambda>cwd.
     Inr \<lparr>h_id = i, h_createdAt = createdAt, h_cwd = cwd, h_parentSessionId = parentSessionId,
          h_legacyParentSessionPath = legacyParentSessionPath, h_metadata = metadata\<rparr>))))))))))"

definition parseHeader :: "ustring \<Rightarrow> JsonlDecodeError + JsonlV4Header" where
  "parseHeader line = decodeHeader line"

definition header_js :: "JsonlV4Header \<Rightarrow> js" where
  "header_js h = obj (fld ''kind'' (lit ''header'') @ fld ''version'' (int_js 4) @ fld ''id'' (JStr (h_id h))
     @ fld ''createdAt'' (int_js (h_createdAt h)) @ fld ''cwd'' (JStr (h_cwd h))
     @ fld ''parentSessionId'' (field_or JUndef JStr (h_parentSessionId h))
     @ fld ''legacyParentSessionPath'' (field_or JUndef JStr (h_legacyParentSessionPath h))
     @ fld ''metadata'' (field_or JUndef obj (h_metadata h)))"

text \<open>\<open>`${JSON.stringify(value)}\n`\<close>; \<open>Inl ()\<close> is the \<open>TypeError\<close> that \<open>JSON.stringify\<close> throws.\<close>

definition json_line :: "js \<Rightarrow> unit + ustring" where
  "json_line v = rbind (stringify v) (\<lambda>t. Inr ((case t of Some t \<Rightarrow> t | None \<Rightarrow> js_lit ''undefined'') @ [10]))"

definition encodeHeader :: "JsonlV4Header \<Rightarrow> unit + ustring" where
  "encodeHeader h = json_line (header_js h)"

definition metadataFromHeader :: "JsonlV4Header \<Rightarrow> ustring \<Rightarrow> int \<Rightarrow> JsonlSessionMetadata" where
  "metadataFromHeader h path modifiedAt =
     \<lparr>jm_id = h_id h, jm_createdAt = h_createdAt h, jm_cwd = h_cwd h, jm_path = path, jm_modifiedAt = modifiedAt,
      jm_sourceFormat = 4, jm_parentSessionId = h_parentSessionId h,
      jm_legacyParentSessionPath = h_legacyParentSessionPath h, jm_metadata = h_metadata h\<rparr>"

section \<open>Mutations\<close>

definition without :: "string list \<Rightarrow> (ustring \<times> js) list \<Rightarrow> (ustring \<times> js) list" where
  "without ks kvs = filter (\<lambda>(k, _). k \<notin> js_lit ` set ks) kvs"

text \<open>An object literal that spreads \<open>kvs\<close> and then sets further properties.\<close>

definition spread :: "(ustring \<times> js) list \<Rightarrow> (string \<times> js) list \<Rightarrow> (ustring \<times> js) list" where
  "spread kvs sets = foldl (\<lambda>o' (k, v). amap_set o' (js_lit k) v) kvs sets"

definition cast :: "'a option \<Rightarrow> JsonlDecodeError + 'a" where
  "cast x = (case x of None \<Rightarrow> Inl IllTyped | Some y \<Rightarrow> Inr y)"

definition parseEntryMutation :: "(ustring \<times> js) list \<Rightarrow> nat \<Rightarrow> JsonlDecodeError + SessionMutation" where
  "parseEntryMutation kvs seq =
     rbind (if prop_of kvs ''lane'' = JUndef then Inr None
            else rbind (requireString (prop_of kvs ''lane'') ''lane'') (\<lambda>l. Inr (Some l))) (\<lambda>lane.
     rbind (requireString (prop_of kvs ''id'') ''id'') (\<lambda>i.
     rbind (requireString (prop_of kvs ''type'') ''entry type'') (\<lambda>type.
     rbind (throw_if (type \<notin> set ENTRY_TYPES) (schema_error (js_lit ''has unknown entry type '' @ type))) (\<lambda>_.
     rbind (requireNullableId (prop_of kvs ''parentId'') ''parentId'') (\<lambda>parentId.
     rbind (requireTimestamp (prop_of kvs ''timestamp'')) (\<lambda>timestamp.
     rbind (if type = js_lit ''custom'' then requireString (prop_of kvs ''customType'') ''customType'' else Inr []) (\<lambda>_.
     let props = spread (without [''kind'', ''lane''] kvs)
       [(''id'', JStr i), (''type'', JStr type), (''parentId'', nullable JStr parentId), (''seq'', nat_js seq),
        (''timestamp'', int_js timestamp)]
     in rbind (cast (entry_of props)) (\<lambda>entry. Inr (MutEntry lane entry)))))))))"

definition parseRecordMutation :: "(ustring \<times> js) list \<Rightarrow> nat \<Rightarrow> JsonlDecodeError + SessionMutation" where
  "parseRecordMutation kvs seq =
     rbind (requireString (prop_of kvs ''id'') ''id'') (\<lambda>i.
     rbind (requireString (prop_of kvs ''lane'') ''lane'') (\<lambda>lane.
     rbind (requireString (prop_of kvs ''type'') ''record type'') (\<lambda>type.
     rbind (throw_if (type \<notin> set RECORD_TYPES) (schema_error (js_lit ''has unknown record type '' @ type))) (\<lambda>_.
     rbind (requireTimestamp (prop_of kvs ''timestamp'')) (\<lambda>timestamp.
     rbind (if type = js_lit ''operation_started'' then
              rbind (throw_if (\<not> isObject (prop_of kvs ''intent'')) (invalid_field ''intent'')) (\<lambda>_.
              rbind (requireString (case as_props (prop_of kvs ''intent'') of Some is \<Rightarrow> prop_of is ''kind'' | None \<Rightarrow> JUndef)
                ''operation kind'') (\<lambda>operationKind.
              throw_if (operationKind \<notin> set OPERATION_KINDS)
                (schema_error (js_lit ''has unknown operation kind '' @ operationKind))))
            else Inr ()) (\<lambda>_.
     rbind (if type = js_lit ''operation_finished'' then requireString (prop_of kvs ''runId'') ''runId'' else Inr []) (\<lambda>_.
     let props = spread (without [''kind''] kvs)
       [(''id'', JStr i), (''lane'', JStr lane), (''type'', JStr type), (''seq'', nat_js seq), (''timestamp'', int_js timestamp)]
     in rbind (cast (record_of props)) (\<lambda>record. Inr (MutRecord record)))))))))"

definition parseLaneMutation :: "(ustring \<times> js) list \<Rightarrow> nat \<Rightarrow> JsonlDecodeError + SessionMutation" where
  "parseLaneMutation kvs seq =
     rbind (requireString (prop_of kvs ''lane'') ''lane'') (\<lambda>lane.
     rbind (requireNullableId (prop_of kvs ''leafId'') ''leafId'') (\<lambda>leafId.
     Inr (MutLane seq lane leafId)))"

definition parseFactMutation :: "(ustring \<times> js) list \<Rightarrow> nat \<Rightarrow> JsonlDecodeError + SessionMutation" where
  "parseFactMutation kvs seq =
     (if prop_of kvs ''fact'' = lit ''name'' then
        rbind (optional_string (prop_of kvs ''name'') ''name'') (\<lambda>name. Inr (MutName seq name))
      else if prop_of kvs ''fact'' = lit ''label'' then
        rbind (optional_string (prop_of kvs ''label'') ''label'') (\<lambda>label.
        rbind (requireString (prop_of kvs ''targetId'') ''targetId'') (\<lambda>targetId.
        Inr (MutLabel seq targetId label)))
      else Inl (schema_error (js_lit ''has unknown fact type'')))"

definition decodeMutation :: "ustring \<Rightarrow> JsonlDecodeError + SessionMutation" where
  "decodeMutation line =
     rbind (parseObject line) (\<lambda>kvs.
     rbind (requireSequence (prop_of kvs ''seq'')) (\<lambda>seq.
     if prop_of kvs ''kind'' = lit ''entry'' then parseEntryMutation kvs seq
     else if prop_of kvs ''kind'' = lit ''record'' then parseRecordMutation kvs seq
     else if prop_of kvs ''kind'' = lit ''lane'' then parseLaneMutation kvs seq
     else if prop_of kvs ''kind'' = lit ''fact'' then parseFactMutation kvs seq
     else Inl (schema_error (js_lit ''has unknown mutation kind''))))"

definition parseMutation :: "ustring \<Rightarrow> JsonlDecodeError + SessionMutation" where
  "parseMutation line = decodeMutation line"

fun mutation_js :: "SessionMutation \<Rightarrow> js" where
  "mutation_js (MutEntry lane e) = obj (fld ''kind'' (lit ''entry'') @ fld ''lane'' (field_or JUndef JStr lane) @ entry_props e)"
| "mutation_js (MutRecord r) = obj (fld ''kind'' (lit ''record'') @ lane_record_props r)"
| "mutation_js (MutLane seq lane leafId) = obj (fld ''kind'' (lit ''lane'') @ fld ''seq'' (nat_js seq) @ fld ''lane'' (JStr lane)
     @ fld ''leafId'' (nullable JStr leafId))"
| "mutation_js (MutName seq name) = obj (fld ''kind'' (lit ''fact'') @ fld ''seq'' (nat_js seq) @ fld ''fact'' (lit ''name'')
     @ fld ''name'' (field_or JUndef JStr name))"
| "mutation_js (MutLabel seq targetId label) = obj (fld ''kind'' (lit ''fact'') @ fld ''seq'' (nat_js seq) @ fld ''fact'' (lit ''label'')
     @ fld ''targetId'' (JStr targetId) @ fld ''label'' (field_or JUndef JStr label))"

definition encodeMutation :: "SessionMutation \<Rightarrow> unit + ustring" where
  "encodeMutation m = json_line (mutation_js m)"

section \<open>The text of a line\<close>

text \<open>The properties a line has: those of the object without the \<open>undefined\<close> ones.\<close>

fun mutation_props :: "SessionMutation \<Rightarrow> (ustring \<times> js) list" where
  "mutation_props (MutEntry lane e) = fld ''kind'' (lit ''entry'') @ opt_fld ''lane'' JStr lane @ entry_props e"
| "mutation_props (MutRecord r) = fld ''kind'' (lit ''record'') @ lane_record_props r"
| "mutation_props (MutLane seq lane leafId) = fld ''kind'' (lit ''lane'') @ fld ''seq'' (nat_js seq) @ fld ''lane'' (JStr lane)
     @ fld ''leafId'' (nullable JStr leafId)"
| "mutation_props (MutName seq name) = fld ''kind'' (lit ''fact'') @ fld ''seq'' (nat_js seq) @ fld ''fact'' (lit ''name'')
     @ opt_fld ''name'' JStr name"
| "mutation_props (MutLabel seq targetId label) = fld ''kind'' (lit ''fact'') @ fld ''seq'' (nat_js seq) @ fld ''fact'' (lit ''label'')
     @ fld ''targetId'' (JStr targetId) @ opt_fld ''label'' JStr label"

definition header_props :: "JsonlV4Header \<Rightarrow> (ustring \<times> js) list" where
  "header_props h = fld ''kind'' (lit ''header'') @ fld ''version'' (int_js 4) @ fld ''id'' (JStr (h_id h))
     @ fld ''createdAt'' (int_js (h_createdAt h)) @ fld ''cwd'' (JStr (h_cwd h))
     @ opt_fld ''parentSessionId'' JStr (h_parentSessionId h)
     @ opt_fld ''legacyParentSessionPath'' JStr (h_legacyParentSessionPath h) @ opt_fld ''metadata'' obj (h_metadata h)"

lemma stringify_append:
  "stringify_props (a @ b) = rbind (stringify_props a) (\<lambda>s. rbind (stringify_props b) (\<lambda>t. Inr (s @ t)))"
proof (induction a)
  case Nil
  show ?case by (cases "stringify_props b") simp_all
next
  case (Cons kv a)
  then show ?case
    by (cases kv; cases "stringify (snd kv)"; cases "stringify_props a"; cases "stringify_props b") (auto split: option.splits)
qed

lemma stringify_undefined: "stringify_props (fld k (field_or JUndef f x)) = stringify_props (opt_fld k f x)"
  by (cases x) (simp_all add: field_or_def fld_def opt_fld_def)

lemma stringify_obj: "stringify (obj kvs) = rbind (stringify_props kvs) (\<lambda>ts. Inr (Some (js_lit ''{'' @ join (js_lit '','') ts @ js_lit ''}'')))"
  by (simp add: obj_def)

lemma stringify_mutation: "stringify (mutation_js m) = stringify (obj (mutation_props m))"
  by (cases m) (simp_all add: stringify_obj stringify_append stringify_undefined)

lemma stringify_header: "stringify (header_js h) = stringify (obj (header_props h))"
  by (simp add: header_js_def header_props_def stringify_obj stringify_append stringify_undefined)

definition mutation_text :: "SessionMutation \<Rightarrow> ustring" where
  "mutation_text m = json_text (obj (mutation_props m))"

definition header_text :: "JsonlV4Header \<Rightarrow> ustring" where
  "header_text h = json_text (obj (header_props h))"

text \<open>The mutations and headers that a line can hold.\<close>

fun mutation_time :: "SessionMutation \<Rightarrow> int" where
  "mutation_time (MutEntry lane e) = en_timestamp e"
| "mutation_time (MutRecord r) = lr_timestamp r"
| "mutation_time _ = 0"

definition mutation_json :: "SessionMutation \<Rightarrow> bool" where
  "mutation_json m \<longleftrightarrow> json_ok (obj (mutation_props m)) \<and> 0 < mutation_seq m \<and> int (mutation_seq m) \<le> 2 ^ 53 - 1
     \<and> 0 \<le> mutation_time m \<and> mutation_time m \<le> 2 ^ 53 - 1"

definition header_json :: "JsonlV4Header \<Rightarrow> bool" where
  "header_json h \<longleftrightarrow> json_ok (obj (header_props h)) \<and> 0 \<le> h_createdAt h \<and> h_createdAt h \<le> 2 ^ 53 - 1
     \<and> (h_parentSessionId h = None \<or> h_legacyParentSessionPath h = None)"

lemma encodeMutation_text: "mutation_json m \<Longrightarrow> encodeMutation m = Inr (mutation_text m @ [10])"
  by (simp add: encodeMutation_def json_line_def stringify_mutation mutation_json_def stringify_json_text mutation_text_def)

lemma encodeHeader_text: "header_json h \<Longrightarrow> encodeHeader h = Inr (header_text h @ [10])"
  by (simp add: encodeHeader_def json_line_def stringify_header header_json_def stringify_json_text header_text_def)

section \<open>Lines read back\<close>

lemma parseObject_text: "json_ok (obj kvs) \<Longrightarrow> parseObject (json_text (obj kvs)) = Inr kvs"
  by (simp add: parseObject_def parse_json_text)

lemma safe_integer_read [simp]: "\<bar>i\<bar> \<le> 2 ^ 53 - 1 \<Longrightarrow> safe_integer (int_js i) = Some i"
  by (simp add: int_js_def)

lemma requireTimestamp_read [simp]: "0 \<le> i \<Longrightarrow> i \<le> 2 ^ 53 - 1 \<Longrightarrow> requireTimestamp (int_js i) = Inr i"
  by (simp add: requireTimestamp_def)

lemma requireSequence_read [simp]: "0 < n \<Longrightarrow> int n \<le> 2 ^ 53 - 1 \<Longrightarrow> requireSequence (nat_js n) = Inr n"
  by (simp add: requireSequence_def nat_js_def)

lemma requireNullableId_read [simp]: "requireNullableId (nullable JStr x) f = Inr x"
  by (cases x) (simp_all add: nullable_def)

lemma optional_string_read [simp]: "optional_string (field_or JUndef JStr x) f = Inr x"
  by (cases x) (simp_all add: field_or_def)

lemma metadata_read [simp]:
  "(case field_or JUndef obj x of JUndef \<Rightarrow> Inr None | JObj p s ms \<Rightarrow> Inr (Some ms) | _ \<Rightarrow> Inl e) = Inr x"
  by (cases x) (simp_all add: field_or_def obj_def)

lemma parseHeader_text:
  assumes "header_json h"
  shows "parseHeader (header_text h) = Inr h"
proof -
  have "parseObject (header_text h) = Inr (header_props h)"
    using assms by (simp add: header_text_def header_json_def parseObject_text)
  moreover have "\<not> (h_parentSessionId h \<noteq> None \<and> h_legacyParentSessionPath h \<noteq> None)" using assms by (auto simp: header_json_def)
  ultimately show ?thesis
    using assms unfolding parseHeader_def decodeHeader_def by (simp add: header_props_def header_json_def)
qed

lemma without_append [simp]: "without ks (a @ b) = without ks a @ without ks b" "without ks [] = []"
  by (simp_all add: without_def)

lemma without_fields:
  "without ks (fld k v) = (if k \<in> set ks then [] else fld k v)" "without ks (opt_fld k f x) = (if k \<in> set ks then [] else opt_fld k f x)"
  by (auto simp: without_def fld_def opt_fld_def split: option.splits)

lemma without_body: "without [''kind'', ''lane''] (body_props b) = body_props b"
  by (cases b) (simp_all add: without_append without_fields)

lemma without_cause: "without [''kind''] (cause_props c) = cause_props c"
  by (cases c) (simp_all add: without_append without_fields)

lemma without_record: "without [''kind''] (record_props b) = record_props b"
  by (cases b) (simp_all add: without_append without_fields without_cause)

lemmas without_simps = without_append without_fields without_body without_record

lemma amap_set_same: "map_of m k = Some v \<Longrightarrow> amap_set m k v = m"
  by (induction m k v rule: amap_set.induct) (auto split: if_splits)

lemma spread_same: "(\<And>k v. (k, v) \<in> set sets \<Longrightarrow> v \<noteq> JUndef \<and> prop_of kvs k = v) \<Longrightarrow> spread kvs sets = kvs"
proof (induction sets)
  case (Cons kv sets)
  obtain k v where kv: "kv = (k, v)" by fastforce
  then have "v \<noteq> JUndef" "prop_of kvs k = v" using Cons(2) by auto
  then have "amap_set kvs (js_lit k) v = kvs" by (intro amap_set_same) (auto simp: prop_of_def split: option.splits)
  then have "spread kvs (kv # sets) = spread kvs sets" using kv by (simp add: spread_def)
  also have "\<dots> = kvs" by (rule Cons.IH) (rule Cons.prems, simp)
  finally show ?case .
qed (simp add: spread_def)

lemma defined_values [simp]:
  "JUndef \<noteq> nullable JStr x" "JUndef \<noteq> nat_js n" "JUndef \<noteq> int_js i" "nullable JStr x \<noteq> JUndef" "nat_js n \<noteq> JUndef" "int_js i \<noteq> JUndef"
  by (auto simp: nullable_def nat_js_def int_js_def split: option.splits)

lemma parseEntryMutation_fields:
  assumes "prop_of kvs ''lane'' = field_or JUndef JStr lane" and "prop_of kvs ''id'' = JStr i"
    and "prop_of kvs ''type'' = JStr t" and "t \<in> set ENTRY_TYPES"
    and "prop_of kvs ''parentId'' = nullable JStr p" and "prop_of kvs ''timestamp'' = int_js ts" and "0 \<le> ts" and "ts \<le> 2 ^ 53 - 1"
    and "t = js_lit ''custom'' \<Longrightarrow> \<exists>c. prop_of kvs ''customType'' = JStr c"
    and "spread (without [''kind'', ''lane''] kvs) [(''id'', JStr i), (''type'', JStr t), (''parentId'', nullable JStr p),
      (''seq'', nat_js n), (''timestamp'', int_js ts)] = fs"
    and "entry_of fs = Some e"
  shows "parseEntryMutation kvs n = Inr (MutEntry lane e)"
proof -
  have "(if field_or JUndef JStr lane = JUndef then Inr None
      else rbind (requireString (field_or JUndef JStr lane) ''lane'') (\<lambda>l. Inr (Some l))) = (Inr lane :: JsonlDecodeError + _)"
    by (cases lane) (simp_all add: field_or_def)
  moreover obtain x where "(if t = js_lit ''custom'' then requireString (prop_of kvs ''customType'') ''customType'' else Inr [])
      = (Inr x :: JsonlDecodeError + _)" using assms(9) by (cases "t = js_lit ''custom''") auto
  ultimately show ?thesis unfolding parseEntryMutation_def Let_def assms(1-3,5,6) using assms(4,7,8,10,11) by (simp add: cast_def)
qed

lemma parseEntryMutation_text:
  assumes "mutation_json (MutEntry lane e)"
  shows "parseEntryMutation (mutation_props (MutEntry lane e)) (en_seq e) = Inr (MutEntry lane e)"
proof -
  obtain t where t: "type_js (en_type e) = JStr t" "t \<in> set ENTRY_TYPES" "t = js_lit ''custom'' \<Longrightarrow> \<exists>c d. en_body e = CustomEntry c d"
    by (cases "en_body e") (auto simp: lit_def ENTRY_TYPES_def)
  have e: "entry_of (entry_props e) = Some e"
    using assms by (intro entry_read) (simp add: mutation_json_def obj_def)
  have s: "spread (entry_props e) [(''id'', JStr (en_id e)), (''type'', JStr t), (''parentId'', nullable JStr (en_parentId e)),
      (''seq'', nat_js (en_seq e)), (''timestamp'', int_js (en_timestamp e))] = entry_props e"
    by (rule spread_same) (auto simp: entry_props_def t(1))
  have w: "without [''kind'', ''lane''] (mutation_props (MutEntry lane e)) = entry_props e"
    by (simp add: entry_props_def without_simps)
  have c: "\<exists>c. prop_of (mutation_props (MutEntry lane e)) ''customType'' = JStr c" if "t = js_lit ''custom''"
    using t(3) [OF that] by (auto simp: entry_props_def)
  show ?thesis
    by (rule parseEntryMutation_fields [where i = "en_id e" and t = t and p = "en_parentId e" and ts = "en_timestamp e"])
      (use assms t(1,2) e s w c in \<open>auto simp: mutation_json_def entry_props_def\<close>)
qed

lemma isObject_obj [simp]: "isObject (obj kvs)"
  by (simp add: obj_def)

lemma parseRecordMutation_fields:
  assumes "prop_of kvs ''id'' = JStr i" and "prop_of kvs ''lane'' = JStr l" and "prop_of kvs ''type'' = JStr t" and "t \<in> set RECORD_TYPES"
    and "prop_of kvs ''timestamp'' = int_js ts" and "0 \<le> ts" and "ts \<le> 2 ^ 53 - 1"
    and "t = js_lit ''operation_started'' \<Longrightarrow> \<exists>is k. isObject (prop_of kvs ''intent'') \<and> as_props (prop_of kvs ''intent'') = Some is \<and> prop_of is ''kind'' = JStr k \<and> k \<in> set OPERATION_KINDS"
    and "t = js_lit ''operation_finished'' \<Longrightarrow> \<exists>r. prop_of kvs ''runId'' = JStr r"
    and "spread (without [''kind''] kvs) [(''id'', JStr i), (''lane'', JStr l), (''type'', JStr t), (''seq'', nat_js n),
      (''timestamp'', int_js ts)] = fs"
    and "record_of fs = Some r"
  shows "parseRecordMutation kvs n = Inr (MutRecord r)"
proof -
  have "(if t = js_lit ''operation_started'' then
            rbind (throw_if (\<not> isObject (prop_of kvs ''intent'')) (invalid_field ''intent'')) (\<lambda>_.
            rbind (requireString (case as_props (prop_of kvs ''intent'') of Some is \<Rightarrow> prop_of is ''kind'' | None \<Rightarrow> JUndef)
              ''operation kind'') (\<lambda>operationKind.
            throw_if (operationKind \<notin> set OPERATION_KINDS)
              (schema_error (js_lit ''has unknown operation kind '' @ operationKind))))
          else Inr ()) = (Inr () :: JsonlDecodeError + _)"
    using assms(8) by (cases "t = js_lit ''operation_started''") (auto simp: obj_def)
  moreover obtain x where "(if t = js_lit ''operation_finished'' then requireString (prop_of kvs ''runId'') ''runId'' else Inr [])
      = (Inr x :: JsonlDecodeError + _)" using assms(9) by (cases "t = js_lit ''operation_finished''") auto
  ultimately show ?thesis unfolding parseRecordMutation_def Let_def assms(1-3,5) using assms(4,6,7,10,11) by (simp add: cast_def)
qed

lemma parseRecordMutation_text:
  assumes "mutation_json (MutRecord r)"
  shows "parseRecordMutation (mutation_props (MutRecord r)) (lr_seq r) = Inr (MutRecord r)"
proof -
  let ?rest = "fld ''seq'' (nat_js (lr_seq r)) @ fld ''timestamp'' (int_js (lr_timestamp r))"
  obtain t where t: "\<And>rest. prop_of (record_props (lr_body r) @ rest) ''type'' = JStr t" "t \<in> set RECORD_TYPES"
    "t = js_lit ''operation_started'' \<Longrightarrow> \<exists>s. lr_body r = OperationStartedRecord s"
    "t = js_lit ''operation_finished'' \<Longrightarrow> \<exists>i x y. lr_body r = OperationFinishedRecord i x y"
    by (cases "lr_body r") (simp_all add: lit_def RECORD_TYPES_def)
  have e: "record_of (lane_record_props r) = Some r"
    using assms by (intro record_read) (simp add: mutation_json_def obj_def)
  have s: "spread (lane_record_props r) [(''id'', JStr (lr_id r)), (''lane'', JStr (lr_lane r)), (''type'', JStr t),
      (''seq'', nat_js (lr_seq r)), (''timestamp'', int_js (lr_timestamp r))] = lane_record_props r"
    by (rule spread_same) (auto simp: lane_record_props_def t(1))
  have w: "without [''kind''] (mutation_props (MutRecord r)) = lane_record_props r"
    by (simp add: lane_record_props_def without_simps)
  have c: "\<exists>is k. isObject (prop_of (mutation_props (MutRecord r)) ''intent'') \<and> as_props (prop_of (mutation_props (MutRecord r)) ''intent'') = Some is
      \<and> prop_of is ''kind'' = JStr k \<and> k \<in> set OPERATION_KINDS"
    if "t = js_lit ''operation_started''"
  proof -
    from t(3) that obtain st where "lr_body r = OperationStartedRecord st" by blast
    then show ?thesis by (cases "os_intent st") (simp_all add: lane_record_props_def lit_def OPERATION_KINDS_def)
  qed
  have f: "\<exists>i. prop_of (mutation_props (MutRecord r)) ''runId'' = JStr i" if "t = js_lit ''operation_finished''"
    using t(4) [OF that] by (auto simp: lane_record_props_def)
  show ?thesis
    by (rule parseRecordMutation_fields [where i = "lr_id r" and l = "lr_lane r" and t = t and ts = "lr_timestamp r"])
      (use assms t(1,2) e s w c f in \<open>auto simp: mutation_json_def lane_record_props_def\<close>)
qed

lemma parseMutation_text:
  assumes "mutation_json m"
  shows "parseMutation (mutation_text m) = Inr m"
proof -
  have o: "parseObject (mutation_text m) = Inr (mutation_props m)"
    using assms by (simp add: mutation_text_def mutation_json_def parseObject_text)
  have "prop_of (mutation_props m) ''seq'' = nat_js (mutation_seq m)"
    by (cases m) (simp_all add: entry_props_def lane_record_props_def)
  with assms have q: "requireSequence (prop_of (mutation_props m) ''seq'') = Inr (mutation_seq m)" by (simp add: mutation_json_def)
  show ?thesis
  proof (cases m)
    case (MutEntry lane e)
    with assms o q parseEntryMutation_text [of lane e] show ?thesis by (simp add: parseMutation_def decodeMutation_def)
  next
    case (MutRecord r)
    with assms o q parseRecordMutation_text [of r] show ?thesis by (simp add: parseMutation_def decodeMutation_def)
  qed (use o q in \<open>simp_all add: parseMutation_def decodeMutation_def parseLaneMutation_def parseFactMutation_def\<close>)
qed

end
