(* ===== verification/File_System.thy ===== *)
theory File_System
  imports Prelude
begin

text \<open>
  The calls on \<open>FileSystem\<close> (\<^verbatim>\<open>pi/packages/agent/src/harness/types.ts\<close>, implemented by \<^verbatim>\<open>harness/env/nodejs.ts\<close>) that the
  session files need, over a world of text files. A call never throws; whether it succeeds is taken from a list of
  outcomes, calls beyond the list succeed. A failed write may have left a part of its text in the file.
\<close>

datatype FileErrorCode =
  FAborted | FNotFound | FPermissionDenied | FNotDirectory | FIsDirectory | FInvalid | FNotSupported | FUnknown

datatype FileError = FileError FileErrorCode ustring

text \<open>The failure of a write says how many code units reached the file, \<open>None\<close> if it was not even opened.\<close>

datatype call_outcome = CallOk | CallFails FileError "nat option"

record text_file =
  tf_text :: ustring
  tf_mtimeMs :: int

record world =
  w_files :: "(ustring \<times> text_file) list"
  w_now :: int
  w_outcomes :: "call_outcome list"

type_synonym ('e, 'a) io = "world \<Rightarrow> ('e + 'a) \<times> world"

definition io_return :: "'a \<Rightarrow> ('e, 'a) io" where
  "io_return a w = (Inr a, w)"

definition io_throw :: "'e \<Rightarrow> ('e, 'a) io" where
  "io_throw e w = (Inl e, w)"

definition io_bind :: "('e, 'a) io \<Rightarrow> ('a \<Rightarrow> ('e, 'b) io) \<Rightarrow> ('e, 'b) io" where
  "io_bind m f w = (case m w of (Inl e, w') \<Rightarrow> (Inl e, w') | (Inr a, w') \<Rightarrow> f a w')"

definition io_result :: "'e + 'a \<Rightarrow> ('e, 'a) io" where
  "io_result r w = (r, w)"

lemma io_bind_eq [simp]:
  "m w = (Inr a, w') \<Longrightarrow> io_bind m f w = f a w'" "m w = (Inl e, w') \<Longrightarrow> io_bind m f w = (Inl e, w')"
  by (simp_all add: io_bind_def)

lemma io_simps [simp]:
  "io_bind (io_return a) f = f a" "io_bind (io_throw e) f = io_throw e" "io_bind (io_result r) f w = (case r of Inl e \<Rightarrow> (Inl e, w) | Inr a \<Rightarrow> f a w)"
  by (auto simp: io_bind_def io_return_def io_throw_def io_result_def fun_eq_iff split: sum.splits)

definition next_outcome :: "world \<Rightarrow> call_outcome \<times> world" where
  "next_outcome w = (case w_outcomes w of [] \<Rightarrow> (CallOk, w) | c # cs \<Rightarrow> (c, w\<lparr>w_outcomes := cs\<rparr>))"

abbreviation file_of :: "world \<Rightarrow> ustring \<Rightarrow> text_file option" where
  "file_of w path \<equiv> map_of (w_files w) path"

definition text_at :: "world \<Rightarrow> ustring \<Rightarrow> ustring option" where
  "text_at w path = map_option tf_text (file_of w path)"

definition put_text :: "world \<Rightarrow> ustring \<Rightarrow> ustring \<Rightarrow> world" where
  "put_text w path content = w\<lparr>w_files := amap_set (w_files w) path \<lparr>tf_text = content, tf_mtimeMs = w_now w\<rparr>\<rparr>"

definition missing_file :: "ustring \<Rightarrow> FileError" where
  "missing_file path = FileError FNotFound (js_lit ''ENOENT: no such file or directory, '' @ path)"

definition readTextFile :: "ustring \<Rightarrow> (FileError, ustring) io" where
  "readTextFile path w =
     (case next_outcome w of
        (CallFails e _, w') \<Rightarrow> (Inl e, w')
      | (CallOk, w') \<Rightarrow> (case text_at w' path of None \<Rightarrow> (Inl (missing_file path), w') | Some t \<Rightarrow> (Inr t, w')))"

definition writeFile :: "ustring \<Rightarrow> ustring \<Rightarrow> (FileError, unit) io" where
  "writeFile path content w =
     (case next_outcome w of
        (CallFails e None, w') \<Rightarrow> (Inl e, w')
      | (CallFails e (Some n), w') \<Rightarrow> (Inl e, put_text w' path (take n content))
      | (CallOk, w') \<Rightarrow> (Inr (), put_text w' path content))"

definition old_text :: "world \<Rightarrow> ustring \<Rightarrow> ustring" where
  "old_text w path = (case text_at w path of None \<Rightarrow> [] | Some t \<Rightarrow> t)"

definition appendFile :: "ustring \<Rightarrow> ustring \<Rightarrow> (FileError, unit) io" where
  "appendFile path content w =
     (case next_outcome w of
        (CallFails e None, w') \<Rightarrow> (Inl e, w')
      | (CallFails e (Some n), w') \<Rightarrow> (Inl e, put_text w' path (old_text w' path @ take n content))
      | (CallOk, w') \<Rightarrow> (Inr (), put_text w' path (old_text w' path @ content)))"

definition renameFile :: "ustring \<Rightarrow> ustring \<Rightarrow> (FileError, unit) io" where
  "renameFile source destination w =
     (case next_outcome w of
        (CallFails e _, w') \<Rightarrow> (Inl e, w')
      | (CallOk, w') \<Rightarrow>
          (case file_of w' source of
             None \<Rightarrow> (Inl (missing_file source), w')
           | Some f \<Rightarrow> (Inr (), w'\<lparr>w_files := amap_set (amap_delete (w_files w') source) destination f\<rparr>)))"

definition fileInfo :: "ustring \<Rightarrow> (FileError, int) io" where
  "fileInfo path w =
     (case next_outcome w of
        (CallFails e _, w') \<Rightarrow> (Inl e, w')
      | (CallOk, w') \<Rightarrow> (case file_of w' path of None \<Rightarrow> (Inl (missing_file path), w') | Some f \<Rightarrow> (Inr (tf_mtimeMs f), w')))"

text \<open>\<open>remove(path, { force: true })\<close>.\<close>

definition remove_force :: "ustring \<Rightarrow> (FileError, unit) io" where
  "remove_force path w =
     (case next_outcome w of
        (CallFails e _, w') \<Rightarrow> (Inl e, w')
      | (CallOk, w') \<Rightarrow> (Inr (), w'\<lparr>w_files := amap_delete (w_files w') path\<rparr>))"

section \<open>Calls that succeed\<close>

lemma no_faults [simp]: "w_outcomes w = [] \<Longrightarrow> next_outcome w = (CallOk, w)"
  by (simp add: next_outcome_def)

lemma put_text_simps [simp]:
  "w_outcomes (put_text w p t) = w_outcomes w" "text_at (put_text w p t) q = (if q = p then Some t else text_at w q)"
  "w_now (put_text w p t) = w_now w"
  by (simp_all add: put_text_def text_at_def)

lemma file_put_text [simp]: "file_of (put_text w p t) q = (if q = p then Some \<lparr>tf_text = t, tf_mtimeMs = w_now w\<rparr> else file_of w q)"
  by (simp add: put_text_def)

lemma read_ok [simp]: "w_outcomes w = [] \<Longrightarrow> text_at w p = Some t \<Longrightarrow> readTextFile p w = (Inr t, w)"
  by (simp add: readTextFile_def)

lemma write_ok [simp]: "w_outcomes w = [] \<Longrightarrow> writeFile p t w = (Inr (), put_text w p t)"
  by (simp add: writeFile_def)

lemma append_ok [simp]: "w_outcomes w = [] \<Longrightarrow> appendFile p t w = (Inr (), put_text w p (old_text w p @ t))"
  by (simp add: appendFile_def)

lemma info_ok: "w_outcomes w = [] \<Longrightarrow> text_at w p = Some t \<Longrightarrow> \<exists>m. fileInfo p w = (Inr m, w) \<and> file_of w p = Some \<lparr>tf_text = t, tf_mtimeMs = m\<rparr>"
  by (auto simp: fileInfo_def text_at_def)

end
