(* ===== verification/Text_Lines.thy ===== *)
theory Text_Lines
  imports Json_Text
begin

text \<open>Splitting a text into lines and joining lines: \<open>split("\n")\<close> and \<open>join("\n")\<close> of the language.\<close>

fun split_lines :: "ustring \<Rightarrow> ustring list" where
  "split_lines [] = [[]]"
| "split_lines (c # cs) =
     (if c = 10 then [] # split_lines cs
      else (case split_lines cs of l # ls \<Rightarrow> (c # l) # ls | [] \<Rightarrow> [[c]]))"

section \<open>Texts without a line break\<close>

definition breakless :: "ustring \<Rightarrow> bool" where
  "breakless s \<longleftrightarrow> 10 \<notin> set s"

lemma breakless_simps [simp]:
  "breakless []" "breakless (c # s) \<longleftrightarrow> c \<noteq> 10 \<and> breakless s" "breakless (s @ t) \<longleftrightarrow> breakless s \<and> breakless t"
  "breakless (replicate n c) \<longleftrightarrow> n = 0 \<or> c \<noteq> 10"
  by (auto simp: breakless_def)

lemma breakless_part: "breakless s \<Longrightarrow> breakless (take n s)" "breakless s \<Longrightarrow> breakless (drop n s)"
  by (auto simp: breakless_def dest: in_set_takeD in_set_dropD)

lemma breakless_join: "breakless sep \<Longrightarrow> \<forall>t \<in> set ts. breakless t \<Longrightarrow> breakless (join sep ts)"
  by (induction sep ts rule: join.induct) auto

section \<open>Splitting and joining\<close>

lemma split_lines_cons: "breakless l \<Longrightarrow> split_lines (l @ 10 # r) = l # split_lines r"
  by (induction l) simp_all

lemma split_lines_last: "breakless l \<Longrightarrow> split_lines l = [l]"
  by (induction l) simp_all

lemma split_lines_nonempty [simp]: "split_lines s \<noteq> []"
  by (induction s) (auto split: list.splits)

lemma split_lines_breakless: "l \<in> set (split_lines s) \<Longrightarrow> breakless l"
proof (induction s arbitrary: l)
  case (Cons c s)
  then show ?case by (cases "split_lines s") (auto split: if_splits)
qed simp

lemma join_cons_lines: "join [10] (l # ls) = (if ls = [] then l else l @ 10 # join [10] ls)"
  by (cases ls) simp_all

lemma join_split_lines: "join [10] (split_lines s) = s"
proof (induction s)
  case (Cons c s)
  obtain l ls where l: "split_lines s = l # ls" by (cases "split_lines s") auto
  with Cons show ?case by (cases "c = 10") (auto simp: join_cons_lines split: if_splits)
qed simp

lemma split_join_lines: "ls \<noteq> [] \<Longrightarrow> \<forall>l \<in> set ls. breakless l \<Longrightarrow> split_lines (join [10] ls) = ls"
  by (induction ls) (auto simp: join_cons_lines split_lines_cons split_lines_last)

end
