(* ===== verification/Jsonl_Storage.thy ===== *)
theory Jsonl_Storage
  imports Jsonl_Codec File_System Session_Memory Text_Lines
begin

text \<open>
  \<^verbatim>\<open>pi/packages/agent/src/harness/session/jsonl/storage.ts\<close> and \<^verbatim>\<open>jsonl/errors.ts\<close>: a session in a file with one line per
  mutation. The operations run one after the other (\<open>enqueue\<close>), so each is a function of the world and the storage.
  Besides a \<open>SessionError\<close> an operation can end with the \<open>TypeError\<close> of \<open>JSON.stringify\<close>, or leave the model because a line
  is ill-typed.
\<close>

datatype jsonl_failure = Thrown SessionError | Type_Error | Ill_Typed_Line

definition fileResult :: "ustring \<Rightarrow> (FileError, 'a) io \<Rightarrow> (jsonl_failure, 'a) io" where
  "fileResult message call w =
     (case call w of
        (Inr a, w') \<Rightarrow> (Inr a, w')
      | (Inl (FileError code m), w') \<Rightarrow>
          (Inl (Thrown (SessionError (if code = FNotFound then NotFound else StorageError) (message @ js_lit '': '' @ m))), w'))"

definition invalidFile :: "ustring \<Rightarrow> nat \<Rightarrow> ustring \<Rightarrow> jsonl_failure" where
  "invalidFile path line cause =
     Thrown (SessionError InvalidEntry (js_lit ''Invalid JSONL v4 session '' @ path @ js_lit '': line '' @ nat_text line @ js_lit '' '' @ cause))"

definition temp_path :: "ustring \<Rightarrow> ustring" where
  "temp_path path = path @ js_lit ''.tmp''"

definition publishFileAtomically :: "ustring \<Rightarrow> (ustring \<Rightarrow> (jsonl_failure, unit) io) \<Rightarrow> (jsonl_failure, unit) io" where
  "publishFileAtomically destination populate w =
     (case io_bind (populate (temp_path destination)) (\<lambda>_.
          fileResult (js_lit ''Failed to publish staged file '' @ destination) (renameFile (temp_path destination) destination)) w of
        (Inr _, w') \<Rightarrow> (Inr (), w')
      | (Inl e, w') \<Rightarrow> (Inl e, snd (remove_force (temp_path destination) w')))"

record JsonlSessionStorage =
  js_metadata :: JsonlSessionMetadata
  js_state :: SessionState

definition new_JsonlSessionStorage :: "JsonlSessionMetadata \<Rightarrow> JsonlSessionStorage" where
  "new_JsonlSessionStorage metadata = \<lparr>js_metadata = metadata, js_state = new_SessionState\<rparr>"

definition typed_text :: "unit + ustring \<Rightarrow> (jsonl_failure, ustring) io" where
  "typed_text t = io_result (case t of Inl () \<Rightarrow> Inl Type_Error | Inr s \<Rightarrow> Inr s)"

definition session_result :: "SessionError + 'a \<Rightarrow> (jsonl_failure, 'a) io" where
  "session_result r = io_result (case r of Inl e \<Rightarrow> Inl (Thrown e) | Inr a \<Rightarrow> Inr a)"

definition appendMutation :: "JsonlSessionStorage \<Rightarrow> SessionMutation \<Rightarrow> (jsonl_failure, unit) io" where
  "appendMutation s m =
     io_bind (typed_text (encodeMutation m)) (\<lambda>line.
     fileResult (js_lit ''Failed to append session '' @ jm_path (js_metadata s)) (appendFile (jm_path (js_metadata s)) line))"

definition js_applyMutation :: "JsonlSessionStorage \<Rightarrow> SessionMutation \<Rightarrow> (jsonl_failure, JsonlSessionStorage) io" where
  "js_applyMutation s m = session_result (rbind (applyMutation invalidMutation m (js_state s)) (\<lambda>st. Inr (s\<lparr>js_state := st\<rparr>)))"

definition js_create :: "ustring \<Rightarrow> JsonlV4Header \<Rightarrow> (jsonl_failure, JsonlSessionStorage) io" where
  "js_create path header =
     io_bind (typed_text (encodeHeader header)) (\<lambda>line.
     io_bind (fileResult (js_lit ''Failed to initialize session '' @ path) (writeFile path line)) (\<lambda>_.
     io_bind (fileResult (js_lit ''Failed to read session metadata '' @ path) (fileInfo path)) (\<lambda>mtimeMs.
     io_return (new_JsonlSessionStorage (metadataFromHeader header path mtimeMs)))))"

section \<open>Loading\<close>

text \<open>The lines of a file after the trailing empty one was dropped.\<close>

definition physical_lines :: "ustring \<Rightarrow> ustring list" where
  "physical_lines content = (let ls = split_lines content in if last ls = [] then butlast ls else ls)"

definition is_syntax :: "JsonlDecodeError \<Rightarrow> bool" where
  "is_syntax e = (case e of JsonlDecodeError k m \<Rightarrow> k = Syntax | IllTyped \<Rightarrow> False)"

definition decode_failure :: "ustring \<Rightarrow> nat \<Rightarrow> JsonlDecodeError \<Rightarrow> jsonl_failure" where
  "decode_failure path line e =
     (case e of JsonlDecodeError k m \<Rightarrow> invalidFile path line m | IllTyped \<Rightarrow> Ill_Typed_Line)"

text \<open>
  The loop over the lines from number \<open>index\<close>, of which \<open>before\<close> have been read. It ends with the storage and whether the
  torn tail was repaired.
\<close>

fun load_lines :: "ustring \<Rightarrow> ustring list \<Rightarrow> ustring list \<Rightarrow> JsonlSessionStorage \<Rightarrow> (jsonl_failure, JsonlSessionStorage \<times> bool) io" where
  "load_lines path before [] s = io_return (s, False)"
| "load_lines path before (line # rest) s =
     (case parseMutation line of
        Inl e \<Rightarrow>
          if rest = [] \<and> is_syntax e then
            io_bind (publishFileAtomically path (\<lambda>temp.
              fileResult (js_lit ''Failed to stage torn-tail repair '' @ path)
                (writeFile temp (join [10] before @ [10])))) (\<lambda>_.
            io_return (s, True))
          else io_throw (decode_failure path (length before + 1) e)
      | Inr m \<Rightarrow>
          (case applyMutation invalidMutation m (js_state s) of
             Inl (SessionError code msg) \<Rightarrow>
               io_throw (if code = InvalidEntry then invalidFile path (length before + 1) msg else Thrown (SessionError code msg))
           | Inr st \<Rightarrow> load_lines path (before @ [line]) rest (s\<lparr>js_state := st\<rparr>)))"

definition js_load :: "ustring \<Rightarrow> (jsonl_failure, JsonlSessionStorage) io" where
  "js_load path =
     io_bind (fileResult (js_lit ''Failed to read session '' @ path) (readTextFile path)) (\<lambda>content.
     case physical_lines content of
       [] \<Rightarrow> io_throw (invalidFile path 1 (js_lit ''is missing a header''))
     | first # rest \<Rightarrow>
         if first = [] then io_throw (invalidFile path 1 (js_lit ''is missing a header''))
         else (case parseHeader first of
             Inl e \<Rightarrow> io_throw (decode_failure path 1 e)
           | Inr header \<Rightarrow>
               io_bind (fileResult (js_lit ''Failed to read session metadata '' @ path) (fileInfo path)) (\<lambda>mtimeMs.
               io_bind (load_lines path [first] rest (new_JsonlSessionStorage (metadataFromHeader header path mtimeMs))) (\<lambda>(s, repaired).
               if \<not> repaired \<and> last content \<noteq> 10
               then io_bind (fileResult (js_lit ''Failed to repair unterminated session tail '' @ path) (appendFile path [10])) (\<lambda>_. io_return s)
               else io_return s))))"

section \<open>Operations\<close>

text \<open>\<open>await this.appendMutation(mutation); this.applyMutation(mutation)\<close>.\<close>

definition js_commit :: "JsonlSessionStorage \<Rightarrow> SessionMutation \<Rightarrow> (jsonl_failure, JsonlSessionStorage) io" where
  "js_commit s m = io_bind (appendMutation s m) (\<lambda>_. js_applyMutation s m)"

fun js_commits :: "JsonlSessionStorage \<Rightarrow> SessionMutation list \<Rightarrow> (jsonl_failure, JsonlSessionStorage) io" where
  "js_commits s [] = io_return s"
| "js_commits s (m # ms) = io_bind (js_commit s m) (\<lambda>s'. js_commits s' ms)"

definition js_fork :: "JsonlSessionStorage \<Rightarrow> ustring \<Rightarrow> JsonlV4Header \<Rightarrow> ForkOptions \<Rightarrow> (jsonl_failure, JsonlSessionStorage) io" where
  "js_fork s path header options =
     io_bind (session_result (createForkMutations (js_state s) options)) (\<lambda>mutations.
     io_bind (publishFileAtomically path (\<lambda>temp.
       io_bind (js_create temp header) (\<lambda>target. io_bind (js_commits target mutations) (\<lambda>_. io_return ())))) (\<lambda>_.
     js_load path))"

definition js_createLane :: "JsonlSessionStorage \<Rightarrow> ustring \<Rightarrow> ustring option \<Rightarrow> (jsonl_failure, JsonlSessionStorage) io" where
  "js_createLane s lane target =
     io_bind (session_result (validateNewLane (js_state s) lane)) (\<lambda>_.
     io_bind (session_result (validateTarget (js_state s) target)) (\<lambda>_.
     js_commit s (MutLane (nextSequence (js_state s)) lane target)))"

definition js_moveLane :: "JsonlSessionStorage \<Rightarrow> ustring \<Rightarrow> ustring option \<Rightarrow> (jsonl_failure, JsonlSessionStorage) io" where
  "js_moveLane s lane to =
     io_bind (session_result (requireLane (js_state s) lane)) (\<lambda>_.
     io_bind (session_result (validateTarget (js_state s) to)) (\<lambda>_.
     js_commit s (MutLane (nextSequence (js_state s)) lane to)))"

definition js_appendEntry ::
  "JsonlSessionStorage \<Rightarrow> int \<Rightarrow> ProvisionedEntry \<Rightarrow> ustring \<Rightarrow> (jsonl_failure, Entry \<times> JsonlSessionStorage) io" where
  "js_appendEntry s now newEntry lane =
     io_bind (session_result (requireLane (js_state s) lane)) (\<lambda>parentId.
     io_bind (session_result (validateUnusedId (js_state s) (pe_id newEntry))) (\<lambda>_.
     let entry = \<lparr>en_id = pe_id newEntry, en_seq = nextSequence (js_state s), en_parentId = parentId,
                  en_timestamp = now, en_body = pe_body newEntry\<rparr>
     in io_bind (js_commit s (MutEntry (Some lane) entry)) (\<lambda>s'. io_return (entry, s'))))"

definition js_appendRecord ::
  "JsonlSessionStorage \<Rightarrow> int \<Rightarrow> NewRecord \<Rightarrow> (jsonl_failure, LaneRecord \<times> JsonlSessionStorage) io" where
  "js_appendRecord s now newRecord =
     io_bind (session_result (requireLane (js_state s) (nr_lane newRecord))) (\<lambda>_.
     io_bind (session_result (validateUnusedId (js_state s) (nr_id newRecord))) (\<lambda>_.
     io_bind (session_result (findOpenOperations (js_state s) (nr_lane newRecord) (Some (NInt 1)))) (\<lambda>openOperations.
     io_bind (session_result (case (nr_body newRecord, openOperations) of
              (OperationStartedRecord _, op # _) \<Rightarrow>
                Inl (SessionError StorageError (js_lit ''Lane '' @ nr_lane newRecord
                  @ js_lit '' already has an open operation '' @ lr_id op))
            | _ \<Rightarrow> Inr ())) (\<lambda>_.
     let record = \<lparr>lr_id = nr_id newRecord, lr_seq = nextSequence (js_state s), lr_lane = nr_lane newRecord,
                   lr_timestamp = now, lr_body = nr_body newRecord\<rparr>
     in io_bind (js_commit s (MutRecord record)) (\<lambda>s'. io_return (record, s'))))))"

definition js_setName :: "JsonlSessionStorage \<Rightarrow> ustring option \<Rightarrow> (jsonl_failure, JsonlSessionStorage) io" where
  "js_setName s name = js_commit s (MutName (nextSequence (js_state s)) name)"

definition js_setLabel :: "JsonlSessionStorage \<Rightarrow> ustring \<Rightarrow> ustring option \<Rightarrow> (jsonl_failure, JsonlSessionStorage) io" where
  "js_setLabel s i label =
     io_bind (session_result (validateTarget (js_state s) (Some i))) (\<lambda>_.
     js_commit s (MutLabel (nextSequence (js_state s)) i label))"

text \<open>The reading operations are those of the state.\<close>

definition js_getMetadata :: "JsonlSessionStorage \<Rightarrow> JsonlSessionMetadata" where "js_getMetadata s = js_metadata s"
definition js_getLanes :: "JsonlSessionStorage \<Rightarrow> LanePointer list" where "js_getLanes s = getLanes (js_state s)"
definition js_getEntry :: "JsonlSessionStorage \<Rightarrow> ustring \<Rightarrow> Entry option" where "js_getEntry s = getEntry (js_state s)"
definition js_findEntries :: "JsonlSessionStorage \<Rightarrow> EntryQuery \<Rightarrow> SessionError + Entry list" where
  "js_findEntries s = findEntries (js_state s)"
definition js_findEntriesOnBranch :: "JsonlSessionStorage \<Rightarrow> EntryQuery \<Rightarrow> BranchBounds \<Rightarrow> ustring \<Rightarrow> SessionError + Entry list" where
  "js_findEntriesOnBranch s = findEntriesOnBranch (js_state s)"
definition js_findRecords :: "JsonlSessionStorage \<Rightarrow> RecordQuery \<Rightarrow> SessionError + LaneRecord list" where
  "js_findRecords s = findRecords (js_state s)"
definition js_findOpenOperations :: "JsonlSessionStorage \<Rightarrow> ustring \<Rightarrow> jsnum option \<Rightarrow> SessionError + LaneRecord list" where
  "js_findOpenOperations s = findOpenOperations (js_state s)"
definition js_getLog :: "JsonlSessionStorage \<Rightarrow> LogOptions \<Rightarrow> SessionError + LogItem list" where "js_getLog s = getLog (js_state s)"
definition js_getName :: "JsonlSessionStorage \<Rightarrow> ustring option" where "js_getName s = getName (js_state s)"
definition js_getLabel :: "JsonlSessionStorage \<Rightarrow> ustring \<Rightarrow> ustring option" where "js_getLabel s = getLabel (js_state s)"
definition js_getStats :: "JsonlSessionStorage \<Rightarrow> SessionStats" where "js_getStats s = getStats (js_state s)"

end
