(* ===== verification/Jsonl_Lines.thy ===== *)
theory Jsonl_Lines
  imports Jsonl_Storage
begin

text \<open>
  The lines of a session file: the text of a mutation has no line break, so splitting the file gives back the header and
  the mutations, and a tail that was cut short is recognised as one.
\<close>

section \<open>No line break in a text\<close>

lemma breakless_digits [simp]: "breakless (nat_text n)"
  using nat_text_digits [of 10 n] by (auto simp: breakless_def is_digit_def)

lemma breakless_number: "num_json x \<Longrightarrow> breakless (number_text x)"
proof -
  have l: "breakless (layout_digits (nat_text a) q)" for a q
    by (auto simp: layout_digits_def Let_def js_lit_def zeros_def breakless_part)
  have "breakless (layout sq)" for sq by (cases sq) (simp add: layout_def l)
  then have "breakless (signed_text m e)" for m e by (simp add: signed_text_def js_lit_def)
  then show "num_json x \<Longrightarrow> breakless (number_text x)"
    by (cases x) (auto simp: int_text_def js_lit_def split: prod.splits simp del: scaled.simps)
qed

lemma breakless_unit: "breakless (quote_unit c)"
proof -
  have "hex_digit d \<noteq> 10" if "d < 16" for d
    using hex_value_digit [OF that] by (auto simp: hex_value_def)
  moreover have "unat c div 4096 < 16" using unat16_bound [of c] by (simp add: less_mult_imp_div_less)
  ultimately have "breakless (unicode_escape c)" by (simp add: unicode_escape_def Let_def js_lit_def)
  then show ?thesis by (auto simp: quote_unit_def backslash_def js_lit_def)
qed

lemma breakless_quote_units: "breakless (quote_units s)"
  by (induction s rule: quote_units.induct) (auto simp: breakless_unit is_high_def is_low_def)

lemma breakless_text:
  "json_ok v \<Longrightarrow> breakless (json_text v)"
  "items_ok vs \<Longrightarrow> \<forall>t \<in> set (item_texts vs). breakless t"
  "members_ok kvs \<Longrightarrow> \<forall>t \<in> set (member_texts kvs). breakless t"
  by (induction v and vs and kvs rule: json_text_item_texts_member_texts.induct)
    (auto simp: js_lit_def quote_def breakless_quote_units breakless_number intro!: breakless_join)

lemma breakless_lines:
  "mutation_json m \<Longrightarrow> breakless (mutation_text m)" "header_json h \<Longrightarrow> breakless (header_text h)"
  by (simp_all add: mutation_json_def mutation_text_def header_json_def header_text_def breakless_text)

section \<open>Splitting a file\<close>

definition file_text :: "ustring list \<Rightarrow> ustring" where
  "file_text ls = concat (map (\<lambda>l. l @ [10]) ls)"

lemma file_text_simps [simp]: "file_text [] = []" "file_text (l # ls) = l @ 10 # file_text ls" "file_text (a @ b) = file_text a @ file_text b"
  by (simp_all add: file_text_def)

lemma split_file: "\<forall>l \<in> set ls. breakless l \<Longrightarrow> breakless t \<Longrightarrow> split_lines (file_text ls @ t) = ls @ [t]"
  by (induction ls) (simp_all add: split_lines_cons split_lines_last)

lemma physical_lines_file:
  assumes "\<forall>l \<in> set ls. breakless l" and "breakless t"
  shows "physical_lines (file_text ls @ t) = (if t = [] then ls else ls @ [t])"
  using split_file [OF assms] by (simp add: physical_lines_def Let_def)

lemma join_lines: "ls \<noteq> [] \<Longrightarrow> join [10] ls @ [10] = file_text ls"
  by (induction "[10] :: ustring" ls rule: join.induct) simp_all

section \<open>A torn line\<close>

lemma torn_line:
  assumes "mutation_json m" and "mutation_text m = t @ u" and "u \<noteq> []"
  shows "\<exists>msg. parseMutation t = Inl (JsonlDecodeError Syntax msg)"
proof -
  have "parse_json t = None"
    using assms object_prefix [of ObjectProto False "mutation_props m" t u]
    by (simp add: mutation_json_def mutation_text_def obj_def)
  then show ?thesis by (simp add: parseMutation_def decodeMutation_def parseObject_def)
qed

lemma text_nonempty [simp]: "mutation_text m \<noteq> []" "header_text h \<noteq> []"
  by (simp_all add: mutation_text_def header_text_def obj_def js_lit_def)

section \<open>Reading the lines\<close>

lemma load_lines_read:
  assumes "\<forall>m \<in> set ms. mutation_json m" and "applyMutations invalidMutation ms (js_state s) = Inr st"
  shows "load_lines path before (map mutation_text ms @ rest) s = load_lines path (before @ map mutation_text ms) rest (s\<lparr>js_state := st\<rparr>)"
  using assms
proof (induction ms arbitrary: before s)
  case (Cons m ms)
  then obtain st1 where "applyMutation invalidMutation m (js_state s) = Inr st1" "applyMutations invalidMutation ms st1 = Inr st" by auto
  with Cons.prems Cons.IH [of "s\<lparr>js_state := st1\<rparr>" "before @ [mutation_text m]"] show ?case
    by (simp add: parseMutation_text)
qed auto

end
