(* ===== verification/Jsonl_Props.thy ===== *)
theory Jsonl_Props
  imports Jsonl_Lines
begin

text \<open>
  The session file against the in-memory storage: every operation does what the in-memory operation does and appends one
  line, the file always says the state, and loading it gives the state back, also after a crash in the middle of an
  append.
\<close>

section \<open>Operations as planned mutations\<close>

datatype storage_op =
    OpCreateLane ustring "ustring option"
  | OpMoveLane ustring "ustring option"
  | OpAppendEntry int ProvisionedEntry ustring
  | OpAppendRecord int NewRecord
  | OpSetName "ustring option"
  | OpSetLabel ustring "ustring option"

definition drop_result :: "('e, 'a \<times> 's) io \<Rightarrow> ('e, 's) io" where
  "drop_result m = io_bind m (\<lambda>(_, s). io_return s)"

fun js_exec :: "storage_op \<Rightarrow> JsonlSessionStorage \<Rightarrow> (jsonl_failure, JsonlSessionStorage) io" where
  "js_exec (OpCreateLane lane target) s = js_createLane s lane target"
| "js_exec (OpMoveLane lane to) s = js_moveLane s lane to"
| "js_exec (OpAppendEntry now e lane) s = drop_result (js_appendEntry s now e lane)"
| "js_exec (OpAppendRecord now r) s = drop_result (js_appendRecord s now r)"
| "js_exec (OpSetName name) s = js_setName s name"
| "js_exec (OpSetLabel i label) s = js_setLabel s i label"

fun im_exec :: "storage_op \<Rightarrow> InMemorySessionStorage \<Rightarrow> SessionError + InMemorySessionStorage" where
  "im_exec (OpCreateLane lane target) s = im_createLane s lane target"
| "im_exec (OpMoveLane lane to) s = im_moveLane s lane to"
| "im_exec (OpAppendEntry now e lane) s = rbind (im_appendEntry s now e lane) (\<lambda>(_, s'). Inr s')"
| "im_exec (OpAppendRecord now r) s = rbind (im_appendRecord s now r) (\<lambda>(_, s'). Inr s')"
| "im_exec (OpSetName name) s = im_setName s name"
| "im_exec (OpSetLabel i label) s = im_setLabel s i label"

text \<open>The mutation an operation makes of a state, or the error of its checks.\<close>

fun planned :: "storage_op \<Rightarrow> SessionState \<Rightarrow> SessionError + SessionMutation" where
  "planned (OpCreateLane lane target) st =
     rbind (validateNewLane st lane) (\<lambda>_. rbind (validateTarget st target) (\<lambda>_. Inr (MutLane (nextSequence st) lane target)))"
| "planned (OpMoveLane lane to) st =
     rbind (requireLane st lane) (\<lambda>_. rbind (validateTarget st to) (\<lambda>_. Inr (MutLane (nextSequence st) lane to)))"
| "planned (OpAppendEntry now e lane) st =
     rbind (requireLane st lane) (\<lambda>parentId. rbind (validateUnusedId st (pe_id e)) (\<lambda>_.
     Inr (MutEntry (Some lane) \<lparr>en_id = pe_id e, en_seq = nextSequence st, en_parentId = parentId, en_timestamp = now, en_body = pe_body e\<rparr>)))"
| "planned (OpAppendRecord now r) st =
     rbind (requireLane st (nr_lane r)) (\<lambda>_. rbind (validateUnusedId st (nr_id r)) (\<lambda>_.
     rbind (findOpenOperations st (nr_lane r) (Some (NInt 1))) (\<lambda>openOperations.
     rbind (case (nr_body r, openOperations) of
              (OperationStartedRecord _, op # _) \<Rightarrow>
                Inl (SessionError StorageError (js_lit ''Lane '' @ nr_lane r @ js_lit '' already has an open operation '' @ lr_id op))
            | _ \<Rightarrow> Inr ()) (\<lambda>_.
     Inr (MutRecord \<lparr>lr_id = nr_id r, lr_seq = nextSequence st, lr_lane = nr_lane r, lr_timestamp = now, lr_body = nr_body r\<rparr>)))))"
| "planned (OpSetName name) st = Inr (MutName (nextSequence st) name)"
| "planned (OpSetLabel i label) st = rbind (validateTarget st (Some i)) (\<lambda>_. Inr (MutLabel (nextSequence st) i label))"

lemma io_bind_assoc: "io_bind (io_bind m f) g = io_bind m (\<lambda>a. io_bind (f a) g)"
  by (auto simp: io_bind_def fun_eq_iff split: prod.splits sum.splits)

lemma io_bind_return: "io_bind m io_return = m"
  by (auto simp: io_bind_def io_return_def fun_eq_iff split: prod.splits sum.splits)

lemma session_result_bind: "io_bind (session_result r) (\<lambda>a. io_bind (session_result (f a)) g) = io_bind (session_result (rbind r f)) g"
  by (cases r) (auto simp: session_result_def io_result_def io_bind_def fun_eq_iff)

lemma session_result_simps [simp]: "io_bind (session_result (Inr a)) g = g a" "session_result (Inl e) w = (Inl (Thrown e), w)"
  "session_result (Inr a) w = (Inr a, w)"
  by (auto simp: session_result_def io_result_def io_bind_def fun_eq_iff)

lemma session_result_map: "io_bind (session_result (rbind r (\<lambda>a. Inr (f a)))) g = io_bind (session_result r) (\<lambda>a. g (f a))"
  by (cases r) (auto simp: session_result_def io_result_def io_bind_def fun_eq_iff)

lemma js_exec_planned: "js_exec op s = io_bind (session_result (planned op (js_state s))) (js_commit s)"
proof (cases op)
  case (OpAppendRecord now r)
  then show ?thesis
    by (simp add: js_appendRecord_def drop_result_def io_bind_assoc Let_def io_bind_return
        flip: session_result_bind)
qed (simp_all add: js_createLane_def js_moveLane_def js_appendEntry_def js_setName_def js_setLabel_def drop_result_def io_bind_assoc
    Let_def io_bind_return flip: session_result_bind)

lemma im_exec_planned: "im_exec op s = rbind (planned op (im_state s)) (im_apply s)"
  by (cases op) (auto simp: im_createLane_def im_moveLane_def im_appendEntry_def im_appendRecord_def im_setName_def im_setLabel_def
      Let_def rbind_def split: sum.splits)

text \<open>In a consistent state the planned mutation is accepted, so nothing is written that the state then refuses.\<close>

lemma planned_applies:
  assumes "state_ok st" and "planned op st = Inr m"
  shows "\<exists>st'. applyMutation invalidMutation m st = Inr st'"
proof -
  have idx: "index_ok st" and refs: "refs_ok st" using assms(1) by (simp_all add: state_ok_def)
  have leaf: "amap_has (ss_entriesById st) i" if "amap_get (ss_lanes st) lane = Some (Some i)" for lane i
    using targets_in_get [OF _ that] refs index_has [OF idx, of i] by (simp add: refs_ok_def)
  show ?thesis
    using assms(2) leaf
    by (cases op) (auto simp: applyMutation_def nextSequence_def requireLane_def validateTarget_def validateUnusedId_def
        check_chain_def check_parent_def split: option.splits if_splits sum.splits)
qed

section \<open>The file says the state\<close>

definition session_lines :: "JsonlV4Header \<Rightarrow> SessionMutation list \<Rightarrow> ustring list" where
  "session_lines h ms = header_text h # map mutation_text ms"

definition backed :: "world \<Rightarrow> JsonlSessionStorage \<Rightarrow> JsonlV4Header \<Rightarrow> SessionMutation list \<Rightarrow> bool" where
  "backed w s h ms \<longleftrightarrow> header_json h \<and> (\<forall>m \<in> set ms. mutation_json m)
     \<and> applyMutations invalidMutation ms new_SessionState = Inr (js_state s)
     \<and> text_at w (jm_path (js_metadata s)) = Some (file_text (session_lines h ms))
     \<and> js_metadata s = metadataFromHeader h (jm_path (js_metadata s)) (jm_modifiedAt (js_metadata s))"

lemma backed_state_ok: "backed w s h ms \<Longrightarrow> state_ok (js_state s)"
  using applyMutations_ok [OF new_state_ok] by (auto simp: backed_def)

lemma fileResult_ok [simp]: "call w = (Inr a, w') \<Longrightarrow> fileResult msg call w = (Inr a, w')"
  by (simp add: fileResult_def)

text \<open>An append that succeeds leaves the file with one more line; whatever else an append does is a cut of that line.\<close>

lemma appendFile_cases:
  "(appendFile p t w = (Inr (), w') \<longrightarrow> text_at w' p = Some (old_text w p @ t)) \<and>
   (appendFile p t w = (Inl e, w') \<longrightarrow> text_at w' p = text_at w p \<or> (\<exists>n. text_at w' p = Some (old_text w p @ take n t)))"
  by (cases "w_outcomes w")
    (auto simp: appendFile_def next_outcome_def old_text_def text_at_def put_text_def split: call_outcome.splits option.splits)

lemma commit_success:
  assumes "backed w s h ms" and "mutation_json m" and "js_commit s m w = (Inr s', w')"
  shows "backed w' s' h (ms @ [m]) \<and> js_metadata s' = js_metadata s"
proof -
  let ?p = "jm_path (js_metadata s)" and ?line = "mutation_text m @ [10]"
  have enc: "typed_text (encodeMutation m) = io_return ?line"
    using encodeMutation_text [OF assms(2)] by (simp add: typed_text_def io_result_def io_return_def fun_eq_iff)
  obtain w1 where w1: "appendFile ?p ?line w = (Inr (), w1)" and st: "js_applyMutation s m w1 = (Inr s', w')"
    using assms(3) enc by (auto simp: js_commit_def appendMutation_def io_bind_def fileResult_def split: prod.splits sum.splits FileError.splits)
  have "w' = w1" and st': "\<exists>st. applyMutation invalidMutation m (js_state s) = Inr st \<and> s' = s\<lparr>js_state := st\<rparr>"
    using st by (auto simp: js_applyMutation_def session_result_def io_result_def split: sum.splits)
  moreover have "text_at w1 ?p = Some (old_text w ?p @ ?line)" using w1 appendFile_cases by blast
  moreover have "old_text w ?p = file_text (session_lines h ms)" using assms(1) by (simp add: backed_def old_text_def)
  ultimately show ?thesis using assms(1,2) by (auto simp: backed_def applyMutations_append session_lines_def)
qed

section \<open>Loading\<close>

lemma temp_path_differs [simp]: "temp_path p \<noteq> p" "p \<noteq> temp_path p"
  by (simp_all add: temp_path_def js_lit_def)

lemma publish_ok:
  assumes "w_outcomes w = []"
  shows "\<exists>w'. publishFileAtomically p (\<lambda>temp. fileResult msg (writeFile temp t)) w = (Inr (), w') \<and> w_outcomes w' = []
    \<and> text_at w' p = Some t \<and> (\<forall>q. q \<noteq> p \<longrightarrow> q \<noteq> temp_path p \<longrightarrow> text_at w' q = text_at w q)"
proof -
  let ?w1 = "put_text w (temp_path p) t"
  let ?w2 = "?w1\<lparr>w_files := amap_set (amap_delete (w_files ?w1) (temp_path p)) p \<lparr>tf_text = t, tf_mtimeMs = w_now w\<rparr>\<rparr>"
  have "fileResult msg (writeFile (temp_path p) t) w = (Inr (), ?w1)" using assms by simp
  moreover have "renameFile (temp_path p) p ?w1 = (Inr (), ?w2)"
    using assms by (simp add: renameFile_def)
  ultimately have "publishFileAtomically p (\<lambda>temp. fileResult msg (writeFile temp t)) w = (Inr (), ?w2)"
    by (simp add: publishFileAtomically_def)
  moreover have "text_at ?w2 q = (if q = p then Some t else if q = temp_path p then None else text_at w q)" for q
    by (simp add: text_at_def put_text_def)
  ultimately show ?thesis using assms by auto
qed

lemma session_lines_breakless:
  "header_json h \<Longrightarrow> \<forall>m \<in> set ms. mutation_json m \<Longrightarrow> \<forall>l \<in> set (session_lines h ms). breakless l"
  by (auto simp: session_lines_def breakless_lines)

text \<open>
  What loading does with a file that holds the lines of \<open>ms\<close> and then the tail \<open>t\<close>: it reads the lines and goes on with the
  tail.
\<close>

lemma load_file:
  assumes "w_outcomes w = []" and "header_json h" and "\<forall>m \<in> set ms. mutation_json m"
    and "applyMutations invalidMutation ms new_SessionState = Inr st"
    and "text_at w p = Some (file_text (session_lines h ms @ extra) @ t)" and "breakless t" and "\<forall>l \<in> set extra. breakless l"
  obtains mt where "js_load p w =
    io_bind (load_lines p (session_lines h ms) (extra @ (if t = [] then [] else [t])) \<lparr>js_metadata = metadataFromHeader h p mt, js_state = st\<rparr>)
      (\<lambda>(s, repaired). if \<not> repaired \<and> t \<noteq> [] then
         io_bind (fileResult (js_lit ''Failed to repair unterminated session tail '' @ p) (appendFile p [10])) (\<lambda>_. io_return s)
       else io_return s) w"
proof -
  let ?content = "file_text (session_lines h ms @ extra) @ t" and ?rest = "extra @ (if t = [] then [] else [t])"
  obtain mt where mt: "fileInfo p w = (Inr mt, w)" using info_ok [OF assms(1,5)] by blast
  have "\<forall>l \<in> set (session_lines h ms @ extra). breakless l" using session_lines_breakless [OF assms(2,3)] assms(7) by auto
  from physical_lines_file [OF this assms(6)] have lines: "physical_lines ?content = header_text h # map mutation_text ms @ ?rest"
    by (simp add: session_lines_def)
  have last: "last ?content \<noteq> 10 \<longleftrightarrow> t \<noteq> []"
  proof (cases "t = []")
    case True
    have "last (file_text (l # ls)) = 10" for l ls by (induction ls arbitrary: l) auto
    then show ?thesis using True by (simp add: session_lines_def del: file_text_simps)
  qed (use assms(6) in \<open>auto simp: breakless_def dest: last_in_set\<close>)
  have "js_load p w = io_bind (load_lines p [header_text h] (map mutation_text ms @ ?rest)
      (new_JsonlSessionStorage (metadataFromHeader h p mt)))
      (\<lambda>(s, repaired). if \<not> repaired \<and> t \<noteq> [] then
         io_bind (fileResult (js_lit ''Failed to repair unterminated session tail '' @ p) (appendFile p [10])) (\<lambda>_. io_return s)
       else io_return s) w"
    using assms(1,5) mt unfolding js_load_def
    by (simp add: lines last parseHeader_text [OF assms(2)] del: last_appendR file_text_simps)
  also have "load_lines p [header_text h] (map mutation_text ms @ ?rest) (new_JsonlSessionStorage (metadataFromHeader h p mt))
      = load_lines p (session_lines h ms) ?rest \<lparr>js_metadata = metadataFromHeader h p mt, js_state = st\<rparr>"
    using load_lines_read [OF assms(3), of "new_JsonlSessionStorage (metadataFromHeader h p mt)" st p "[header_text h]"] assms(4)
    by (simp add: new_JsonlSessionStorage_def session_lines_def)
  finally show thesis using that by simp
qed

lemma load_whole:
  assumes "w_outcomes w = []" and "header_json h" and "\<forall>m \<in> set ms. mutation_json m"
    and "applyMutations invalidMutation ms new_SessionState = Inr st" and "text_at w p = Some (file_text (session_lines h ms))"
  shows "\<exists>s. js_load p w = (Inr s, w) \<and> js_state s = st \<and> jm_path (js_metadata s) = p \<and> backed w s h ms"
proof -
  obtain mt where "js_load p w = (Inr \<lparr>js_metadata = metadataFromHeader h p mt, js_state = st\<rparr>, w)"
    using load_file [OF assms(1-4), of p "[]" "[]"] assms(5) by (auto simp: io_return_def)
  with assms show ?thesis by (simp add: backed_def metadataFromHeader_def)
qed

lemma load_backed:
  assumes "backed w s h ms" and "w_outcomes w = []"
  shows "\<exists>s'. js_load (jm_path (js_metadata s)) w = (Inr s', w) \<and> js_state s' = js_state s
    \<and> jm_path (js_metadata s') = jm_path (js_metadata s) \<and> backed w s' h ms"
  using assms(1) load_whole [OF assms(2)] unfolding backed_def by blast

lemma load_torn:
  assumes "w_outcomes w = []" and "header_json h" and "\<forall>m \<in> set ms. mutation_json m"
    and "applyMutations invalidMutation ms new_SessionState = Inr st" and "mutation_json m"
    and "text_at w p = Some (file_text (session_lines h ms) @ t)" and "mutation_text m = t @ u" and "t \<noteq> []" and "u \<noteq> []"
  shows "\<exists>s w'. js_load p w = (Inr s, w') \<and> js_state s = st \<and> jm_path (js_metadata s) = p \<and> backed w' s h ms"
proof -
  have b: "breakless t" using breakless_lines(1) [OF assms(5)] assms(7) by simp
  obtain msg where syn: "parseMutation t = Inl (JsonlDecodeError Syntax msg)" using torn_line [OF assms(5,7,9)] by blast
  obtain w' where w': "publishFileAtomically p (\<lambda>temp. fileResult (js_lit ''Failed to stage torn-tail repair '' @ p)
      (writeFile temp (file_text (session_lines h ms)))) w = (Inr (), w')" "text_at w' p = Some (file_text (session_lines h ms))"
    using publish_ok [OF assms(1)] by blast
  have j: "join [10] (session_lines h ms) @ [10] = file_text (session_lines h ms)"
    by (rule join_lines) (simp add: session_lines_def)
  obtain mt where mt: "js_load p w =
    io_bind (load_lines p (session_lines h ms) [t] \<lparr>js_metadata = metadataFromHeader h p mt, js_state = st\<rparr>)
      (\<lambda>(s, repaired). if \<not> repaired \<and> t \<noteq> [] then
         io_bind (fileResult (js_lit ''Failed to repair unterminated session tail '' @ p) (appendFile p [10])) (\<lambda>_. io_return s)
       else io_return s) w"
    using load_file [OF assms(1-4), of p "[]" t] assms(6,8) b by auto
  have "load_lines p (session_lines h ms) [t] \<lparr>js_metadata = metadataFromHeader h p mt, js_state = st\<rparr> w
      = (Inr (\<lparr>js_metadata = metadataFromHeader h p mt, js_state = st\<rparr>, True), w')"
    using w'(1) by (simp add: syn is_syntax_def j io_return_def)
  then have "js_load p w = (Inr \<lparr>js_metadata = metadataFromHeader h p mt, js_state = st\<rparr>, w')"
    unfolding mt by (simp add: io_return_def)
  with assms(2-4) w'(2) show ?thesis by (simp add: backed_def metadataFromHeader_def)
qed

lemma load_unterminated:
  assumes "w_outcomes w = []" and "header_json h" and "\<forall>m \<in> set (ms @ [m]). mutation_json m"
    and "applyMutations invalidMutation (ms @ [m]) new_SessionState = Inr st"
    and "text_at w p = Some (file_text (session_lines h ms) @ mutation_text m)"
  shows "\<exists>s w'. js_load p w = (Inr s, w') \<and> js_state s = st \<and> jm_path (js_metadata s) = p \<and> backed w' s h (ms @ [m])"
proof -
  obtain st1 where st1: "applyMutations invalidMutation ms new_SessionState = Inr st1" "applyMutation invalidMutation m st1 = Inr st"
    using assms(4) by (auto simp: applyMutations_append)
  have b: "breakless (mutation_text m)" and ms: "\<forall>m \<in> set ms. mutation_json m" and m: "mutation_json m"
    using assms(3) by (auto simp: breakless_lines)
  let ?w' = "put_text w p (file_text (session_lines h (ms @ [m])))"
  obtain mt where mt: "js_load p w =
    io_bind (load_lines p (session_lines h ms) [mutation_text m] \<lparr>js_metadata = metadataFromHeader h p mt, js_state = st1\<rparr>)
      (\<lambda>(s, repaired). if \<not> repaired \<and> mutation_text m \<noteq> [] then
         io_bind (fileResult (js_lit ''Failed to repair unterminated session tail '' @ p) (appendFile p [10])) (\<lambda>_. io_return s)
       else io_return s) w"
    using load_file [OF assms(1,2) ms st1(1), of p "[]" "mutation_text m"] assms(5) b by auto
  have "old_text w p @ [10] = file_text (session_lines h (ms @ [m]))" using assms(5) by (simp add: old_text_def session_lines_def)
  then have "appendFile p [10] w = (Inr (), ?w')" using assms(1) by simp
  moreover have "load_lines p (session_lines h ms) [mutation_text m] \<lparr>js_metadata = metadataFromHeader h p mt, js_state = st1\<rparr> w
      = (Inr (\<lparr>js_metadata = metadataFromHeader h p mt, js_state = st\<rparr>, False), w)"
    using st1(2) by (simp add: parseMutation_text [OF m] io_return_def)
  ultimately have "js_load p w = (Inr \<lparr>js_metadata = metadataFromHeader h p mt, js_state = st\<rparr>, ?w')"
    unfolding mt by (simp add: io_return_def)
  with assms(2-4) show ?thesis by (simp add: backed_def metadataFromHeader_def)
qed

section \<open>Creating and forking\<close>

lemma create_backed:
  assumes "header_json h" and "js_create p h w = (Inr s, w')"
  shows "backed w' s h [] \<and> jm_path (js_metadata s) = p"
proof -
  have enc: "typed_text (encodeHeader h) = io_return (header_text h @ [10])"
    using encodeHeader_text [OF assms(1)] by (simp add: typed_text_def io_result_def io_return_def fun_eq_iff)
  obtain w1 mt where w1: "writeFile p (header_text h @ [10]) w = (Inr (), w1)" "fileInfo p w1 = (Inr mt, w')"
    and s: "s = new_JsonlSessionStorage (metadataFromHeader h p mt)"
    using assms(2) enc
    by (auto simp: js_create_def io_bind_def io_return_def fileResult_def split: prod.splits sum.splits FileError.splits)
  have "text_at w1 p = Some (header_text h @ [10])"
    using w1(1) by (auto simp: writeFile_def split: prod.splits call_outcome.splits option.splits)
  moreover have "w_files w' = w_files w1"
    using w1(2) by (auto simp: fileInfo_def next_outcome_def split: prod.splits call_outcome.splits option.splits list.splits)
  ultimately show ?thesis
    using assms(1) s by (simp add: backed_def text_at_def session_lines_def new_JsonlSessionStorage_def metadataFromHeader_def)
qed

lemma create_ok:
  assumes "header_json h" and "w_outcomes w = []"
  shows "\<exists>s w'. js_create p h w = (Inr s, w') \<and> w_outcomes w' = [] \<and> (\<forall>q. q \<noteq> p \<longrightarrow> text_at w' q = text_at w q)"
proof -
  have enc: "typed_text (encodeHeader h) = io_return (header_text h @ [10])"
    using encodeHeader_text [OF assms(1)] by (simp add: typed_text_def io_result_def io_return_def fun_eq_iff)
  let ?w1 = "put_text w p (header_text h @ [10])"
  obtain mt where "fileInfo p ?w1 = (Inr mt, ?w1)" using info_ok [of ?w1 p] assms(2) by auto
  then show ?thesis using assms(2) enc by (simp add: js_create_def io_return_def)
qed

lemma commit_ok:
  assumes "mutation_json m" and "w_outcomes w = []" and "applyMutation invalidMutation m (js_state s) = Inr st"
  shows "js_commit s m w = (Inr (s\<lparr>js_state := st\<rparr>),
    put_text w (jm_path (js_metadata s)) (old_text w (jm_path (js_metadata s)) @ mutation_text m @ [10]))"
  using assms encodeMutation_text [OF assms(1)]
  by (simp add: js_commit_def appendMutation_def typed_text_def js_applyMutation_def io_bind_def io_result_def)

lemma commits_backed:
  assumes "\<forall>m \<in> set ms. mutation_json m" and "w_outcomes w = []" and "backed w s h ms0"
    and "applyMutations invalidMutation ms (js_state s) = Inr st"
  shows "\<exists>s' w'. js_commits s ms w = (Inr s', w') \<and> w_outcomes w' = [] \<and> backed w' s' h (ms0 @ ms) \<and> js_state s' = st
    \<and> js_metadata s' = js_metadata s \<and> (\<forall>q. q \<noteq> jm_path (js_metadata s) \<longrightarrow> text_at w' q = text_at w q)"
  using assms
proof (induction ms arbitrary: s w ms0)
  case (Cons m ms)
  then obtain st1 where st1: "applyMutation invalidMutation m (js_state s) = Inr st1" "applyMutations invalidMutation ms st1 = Inr st" by auto
  let ?s1 = "s\<lparr>js_state := st1\<rparr>"
  obtain w1 where w1: "js_commit s m w = (Inr ?s1, w1)" "w_outcomes w1 = []"
      "\<forall>q. q \<noteq> jm_path (js_metadata s) \<longrightarrow> text_at w1 q = text_at w q"
    using commit_ok [OF _ Cons.prems(2) st1(1)] Cons.prems(1,2) by auto
  have "backed w1 ?s1 h (ms0 @ [m])" using commit_success [OF Cons.prems(3) _ w1(1)] Cons.prems(1) by simp
  with Cons.IH [of w1 ?s1 "ms0 @ [m]"] Cons.prems(1) w1 st1(2) show ?case by auto
qed (auto simp: io_return_def)

lemma fork_loads:
  assumes "w_outcomes w = []" and "createForkMutations (js_state s) options = Inr ms" and "header_json h" and "\<forall>m \<in> set ms. mutation_json m"
    and "applyMutations invalidMutation ms new_SessionState = Inr st"
  shows "\<exists>s' w'. js_fork s p h options w = (Inr s', w') \<and> js_state s' = st \<and> jm_path (js_metadata s') = p \<and> backed w' s' h ms
    \<and> (\<forall>q. q \<noteq> p \<longrightarrow> q \<noteq> temp_path p \<longrightarrow> text_at w' q = text_at w q)"
proof -
  let ?t = "temp_path p"
  obtain s0 w0 where c: "js_create ?t h w = (Inr s0, w0)" "w_outcomes w0 = []" "\<forall>q. q \<noteq> ?t \<longrightarrow> text_at w0 q = text_at w q"
    using create_ok [OF assms(3,1)] by blast
  have b0: "backed w0 s0 h []" "jm_path (js_metadata s0) = ?t" using create_backed [OF assms(3) c(1)] by auto
  have "applyMutations invalidMutation ms (js_state s0) = Inr st" using b0(1) assms(5) by (simp add: backed_def)
  then obtain s1 w1 where s1: "js_commits s0 ms w0 = (Inr s1, w1)" "w_outcomes w1 = []" "backed w1 s1 h ms"
      "jm_path (js_metadata s1) = ?t" "\<forall>q. q \<noteq> ?t \<longrightarrow> text_at w1 q = text_at w0 q"
    using commits_backed [OF assms(4) c(2) b0(1)] b0(2) by auto
  have "text_at w1 ?t = Some (file_text (session_lines h ms))" using s1(3,4) by (simp add: backed_def)
  then obtain f where f: "file_of w1 ?t = Some f" "tf_text f = file_text (session_lines h ms)" by (auto simp: text_at_def)
  let ?w2 = "w1\<lparr>w_files := amap_set (amap_delete (w_files w1) ?t) p f\<rparr>"
  have "renameFile ?t p w1 = (Inr (), ?w2)" using s1(2) f(1) by (simp add: renameFile_def)
  moreover have "io_bind (js_create ?t h) (\<lambda>target. io_bind (js_commits target ms) (\<lambda>_. io_return ())) w = (Inr (), w1)"
    using c(1) s1(1) by (simp add: io_return_def)
  ultimately have "publishFileAtomically p (\<lambda>temp. io_bind (js_create temp h) (\<lambda>target. io_bind (js_commits target ms) (\<lambda>_. io_return ()))) w
      = (Inr (), ?w2)"
    by (simp add: publishFileAtomically_def)
  then have "js_fork s p h options w = js_load p ?w2" by (simp add: js_fork_def assms(2))
  moreover have t2: "text_at ?w2 q = (if q = p then Some (file_text (session_lines h ms)) else if q = ?t then None else text_at w q)" for q
    using f(2) s1(5) c(3) by (simp add: text_at_def)
  then obtain s' where "js_load p ?w2 = (Inr s', ?w2)" "js_state s' = st" "jm_path (js_metadata s') = p" "backed ?w2 s' h ms"
    using load_whole [of ?w2 h ms st p] s1(2) assms(3-5) by auto
  ultimately show ?thesis using t2 by auto
qed

section \<open>Reachable files\<close>

text \<open>
  What can happen to a session file: it is created or forked from another one, operations are done on it, other files change
  and operations are refused, it is loaded, and a crash cuts an append short, after which it is loaded.
\<close>

inductive jsonl_reachable :: "ustring \<Rightarrow> world \<Rightarrow> JsonlSessionStorage \<Rightarrow> bool" where
  created: "header_json h \<Longrightarrow> js_create p h w = (Inr s, w') \<Longrightarrow> jsonl_reachable p w' s"
| executed: "jsonl_reachable p w s \<Longrightarrow> planned op (js_state s) = Inr m \<Longrightarrow> mutation_json m \<Longrightarrow> js_exec op s w = (Inr s', w')
    \<Longrightarrow> jsonl_reachable p w' s'"
| elsewhere: "jsonl_reachable p w s \<Longrightarrow> text_at w' p = text_at w p \<Longrightarrow> jsonl_reachable p w' s"
| loaded: "jsonl_reachable p w s \<Longrightarrow> w_outcomes w = [] \<Longrightarrow> js_load p w = (Inr s', w') \<Longrightarrow> jsonl_reachable p w' s'"
| recovered: "jsonl_reachable p w s \<Longrightarrow> planned op (js_state s) = Inr m \<Longrightarrow> mutation_json m
    \<Longrightarrow> text_at w1 p = Some (old_text w p @ take n (mutation_text m @ [10])) \<Longrightarrow> w_outcomes w1 = []
    \<Longrightarrow> js_load p w1 = (Inr s', w') \<Longrightarrow> jsonl_reachable p w' s'"
| forked: "jsonl_reachable q w s \<Longrightarrow> w_outcomes w = [] \<Longrightarrow> createForkMutations (js_state s) options = Inr ms
    \<Longrightarrow> \<forall>m \<in> set ms. mutation_json m \<Longrightarrow> header_json h \<Longrightarrow> js_fork s p h options w = (Inr s', w') \<Longrightarrow> jsonl_reachable p w' s'"

lemma cut_line:
  assumes "backed w s h ms" and "planned op (js_state s) = Inr m" and "mutation_json m" and "w_outcomes w1 = []"
    and "text_at w1 (jm_path (js_metadata s)) = Some (old_text w (jm_path (js_metadata s)) @ take n (mutation_text m @ [10]))"
  shows "\<exists>s' w' ms'. js_load (jm_path (js_metadata s)) w1 = (Inr s', w') \<and> backed w' s' h ms' \<and> jm_path (js_metadata s') = jm_path (js_metadata s)
    \<and> (if n < length (mutation_text m) then js_state s' = js_state s else applyMutation invalidMutation m (js_state s) = Inr (js_state s'))"
proof -
  let ?p = "jm_path (js_metadata s)" and ?t = "mutation_text m"
  have old: "old_text w ?p = file_text (session_lines h ms)" and h: "header_json h" and ms: "\<forall>m \<in> set ms. mutation_json m"
    and st: "applyMutations invalidMutation ms new_SessionState = Inr (js_state s)"
    using assms(1) by (simp_all add: backed_def old_text_def)
  obtain st1 where st1: "applyMutation invalidMutation m (js_state s) = Inr st1"
    using planned_applies [OF backed_state_ok [OF assms(1)] assms(2)] by blast
  then have stm: "applyMutations invalidMutation (ms @ [m]) new_SessionState = Inr st1" using st by (simp add: applyMutations_append)
  have msm: "\<forall>x \<in> set (ms @ [m]). mutation_json x" using ms assms(3) by simp
  consider "n = 0" | "0 < n" "n < length ?t" | "n = length ?t" | "length ?t < n" by linarith
  then show ?thesis
  proof cases
    case 1
    then show ?thesis using load_whole [OF assms(4) h ms st, of ?p] assms(5) old by auto
  next
    case 2
    have "?t = take n ?t @ drop n ?t" "take n ?t \<noteq> []" "drop n ?t \<noteq> []" using 2 by auto
    then show ?thesis using load_torn [OF assms(4) h ms st assms(3), of ?p "take n ?t" "drop n ?t"] assms(5) old 2 by auto
  next
    case 3
    then show ?thesis using load_unterminated [OF assms(4) h msm stm, of ?p] assms(5) old st1 by auto
  next
    case 4
    then have "text_at w1 ?p = Some (file_text (session_lines h (ms @ [m])))" using assms(5) old by (simp add: session_lines_def)
    then show ?thesis using load_whole [OF assms(4) h msm stm, of ?p] st1 4 by auto
  qed
qed

lemma exec_commit:
  assumes "js_exec op s w = (Inr s', w')" and "planned op (js_state s) = Inr m"
  shows "js_commit s m w = (Inr s', w')"
  using assms by (simp add: js_exec_planned)

lemma fork_mutations_apply:
  assumes "state_ok st" and "createForkMutations st options = Inr ms"
  shows "\<exists>st'. applyMutations invalidMutation ms new_SessionState = Inr st'"
  using assms(2) fork_replays [OF assms(1)] by (fastforce simp: createForkMutations_def)

lemma reachable_backed: "jsonl_reachable p w s \<Longrightarrow> jm_path (js_metadata s) = p \<and> (\<exists>h ms. backed w s h ms)"
proof (induction rule: jsonl_reachable.induct)
  case (created h p w s w')
  then show ?case using create_backed by blast
next
  case (executed p w s op m s' w')
  then obtain h ms where b: "backed w s h ms" "jm_path (js_metadata s) = p" by blast
  show ?case using commit_success [OF b(1) executed.hyps(3) exec_commit [OF executed.hyps(4,2)]] b(2) by auto
next
  case (elsewhere p w s w')
  then show ?case by (auto simp: backed_def)
next
  case (loaded p w s s' w')
  then obtain h ms where b: "backed w s h ms" "jm_path (js_metadata s) = p" by blast
  then show ?case using load_backed [OF b(1) loaded.hyps(2)] loaded.hyps(3) by auto
next
  case (recovered p w s op m w1 n s' w')
  then obtain h ms where b: "backed w s h ms" "jm_path (js_metadata s) = p" by blast
  then show ?case using cut_line [OF b(1) recovered.hyps(2,3,5), of n] recovered.hyps(4,6) by auto
next
  case (forked q w s options ms h p s' w')
  then have "state_ok (js_state s)" using backed_state_ok by blast
  then obtain st where "applyMutations invalidMutation ms new_SessionState = Inr st" using fork_mutations_apply [OF _ forked.hyps(3)] by blast
  then show ?case using fork_loads [OF forked.hyps(2,3,5,4), of st p] forked.hyps(6) by auto
qed

section \<open>Properties\<close>

definition ex_header :: JsonlV4Header where
  "ex_header = \<lparr>h_id = js_lit ''s'', h_createdAt = 0, h_cwd = js_lit ''/'', h_parentSessionId = None, h_legacyParentSessionPath = None,
     h_metadata = None\<rparr>"

definition ex_world :: world where
  "ex_world = \<lparr>w_files = [], w_now = 0, w_outcomes = []\<rparr>"

definition ex_path :: ustring where "ex_path = js_lit ''f''"

lemma ex_header_json: "header_json ex_header"
  by (simp add: header_json_def ex_header_def header_props_def obj_def fld_def opt_fld_def lit_def int_js_def js_lit_def
      key_before_def array_index_def)

lemma ex_name_json: "mutation_json (MutName (Suc 0) (Some (js_lit ''n'')))"
  by (simp add: mutation_json_def obj_def fld_def opt_fld_def lit_def nat_js_def js_lit_def key_before_def array_index_def)

lemma ex_created: "\<exists>s w. js_create ex_path ex_header ex_world = (Inr s, w) \<and> w_outcomes w = [] \<and> jsonl_reachable ex_path w s
    \<and> js_state s = new_SessionState"
proof -
  obtain s w where c: "js_create ex_path ex_header ex_world = (Inr s, w)" "w_outcomes w = []"
    using create_ok [OF ex_header_json, of ex_world ex_path] by (auto simp: ex_world_def)
  moreover have "js_state s = new_SessionState" using create_backed [OF ex_header_json c(1)] by (simp add: backed_def)
  ultimately show ?thesis using jsonl_reachable.created [OF ex_header_json c(1)] by blast
qed

text \<open>
  C10. A session file is a faithful copy of the session: whenever a session file is reachable and the file system works, loading
  it succeeds, leaves the files as they are, and gives a storage with the same state and the same header data as the one
  that wrote it.
\<close>
theorem jsonl_load_reproduces:
  assumes "jsonl_reachable p w s" and "w_outcomes w = []"
  shows "\<exists>s'. js_load p w = (Inr s', w) \<and> js_state s' = js_state s
    \<and> (js_metadata s')\<lparr>jm_modifiedAt := 0\<rparr> = (js_metadata s)\<lparr>jm_modifiedAt := 0\<rparr>"
proof -
  obtain h ms where b: "backed w s h ms" "jm_path (js_metadata s) = p" using reachable_backed [OF assms(1)] by blast
  from load_backed [OF b(1) assms(2)] b(2) obtain s' where s': "js_load p w = (Inr s', w)" "js_state s' = js_state s"
    "jm_path (js_metadata s') = p" "backed w s' h ms" by blast
  moreover have "(js_metadata x)\<lparr>jm_modifiedAt := 0\<rparr> = metadataFromHeader h p 0"
    if "backed w x h ms" "jm_path (js_metadata x) = p" for x
  proof -
    have "js_metadata x = metadataFromHeader h p (jm_modifiedAt (js_metadata x))" using that by (simp add: backed_def)
    then show ?thesis by (metis JsonlSessionMetadata.update_convs(5) metadataFromHeader_def)
  qed
  ultimately show ?thesis using b by auto
qed

theorem jsonl_load_reproduces_witness:
  "\<exists>s w s'. jsonl_reachable ex_path w s \<and> js_load ex_path w = (Inr s', w) \<and> js_state s' = new_SessionState"
proof -
  obtain s w where "jsonl_reachable ex_path w s" "w_outcomes w = []" "js_state s = new_SessionState" using ex_created by blast
  with jsonl_load_reproduces [of ex_path w s] show ?thesis by metis
qed

text \<open>
  C9. Crash safety: when an append is cut short anywhere, loading the file still succeeds and gives the state before the
  append, or the state after it if nothing but the line break is missing; and the repaired file is again a good session
  file.
\<close>
theorem jsonl_crash_safe:
  assumes "jsonl_reachable p w s" and "planned op (js_state s) = Inr m" and "mutation_json m"
    and "text_at w1 p = Some (old_text w p @ take n (mutation_text m @ [10]))" and "w_outcomes w1 = []"
  shows "\<exists>s' w'. js_load p w1 = (Inr s', w') \<and> jsonl_reachable p w' s'
    \<and> (if n < length (mutation_text m) then js_state s' = js_state s else applyMutation invalidMutation m (js_state s) = Inr (js_state s'))"
proof -
  obtain h ms where b: "backed w s h ms" "jm_path (js_metadata s) = p" using reachable_backed [OF assms(1)] by blast
  obtain s' w' where "js_load p w1 = (Inr s', w')"
    "if n < length (mutation_text m) then js_state s' = js_state s else applyMutation invalidMutation m (js_state s) = Inr (js_state s')"
    using cut_line [OF b(1) assms(2,3,5)] assms(4) b(2) by blast
  with jsonl_reachable.recovered [OF assms] show ?thesis by blast
qed

theorem jsonl_crash_safe_witness:
  "\<exists>w s s' w'. jsonl_reachable ex_path w s
    \<and> js_load ex_path (put_text w ex_path (old_text w ex_path @ take 1 (mutation_text (MutName (Suc 0) (Some (js_lit ''n''))) @ [10]))) = (Inr s', w')
    \<and> js_state s' = new_SessionState"
proof -
  obtain s w where s: "jsonl_reachable ex_path w s" "w_outcomes w = []" "js_state s = new_SessionState" using ex_created by blast
  have p: "planned (OpSetName (Some (js_lit ''n''))) (js_state s) = Inr (MutName (Suc 0) (Some (js_lit ''n'')))"
    by (simp add: s(3) nextSequence_def new_SessionState_def)
  have "1 < length (mutation_text (MutName (Suc 0) (Some (js_lit ''n''))))"
    by (simp add: mutation_text_def obj_def js_lit_def)
  let ?w1 = "put_text w ex_path (old_text w ex_path @ take 1 (mutation_text (MutName (Suc 0) (Some (js_lit ''n''))) @ [10]))"
  obtain s' w' where "js_load ex_path ?w1 = (Inr s', w')" "js_state s' = js_state s"
    using jsonl_crash_safe [OF s(1) p ex_name_json, of ?w1 1] s(2) \<open>1 < _\<close> by auto
  with s show ?thesis by auto
qed

text \<open>
  C11. The file backend refines the in-memory backend: with a working file system every operation on a reachable session file
  is accepted or refused exactly as the in-memory operation on the same state is, with the same error and the same
  resulting state; a refused operation changes no file, an accepted one appends its line and changes nothing else.
\<close>
theorem jsonl_refines_memory:
  assumes "jsonl_reachable p w s" and "w_outcomes w = []" and "\<And>m. planned op (js_state s) = Inr m \<Longrightarrow> mutation_json m"
  shows "js_exec op s w =
    (case im_exec op \<lparr>im_metadata = md, im_state = js_state s\<rparr> of
       Inl e \<Rightarrow> (Inl (Thrown e), w)
     | Inr s' \<Rightarrow> (Inr (s\<lparr>js_state := im_state s'\<rparr>),
         put_text w p (old_text w p @ (case planned op (js_state s) of Inr m \<Rightarrow> mutation_text m @ [10] | Inl e \<Rightarrow> []))))"
proof (cases "planned op (js_state s)")
  case (Inl e)
  then show ?thesis by (simp add: js_exec_planned im_exec_planned io_bind_def)
next
  case (Inr m)
  obtain h ms where b: "backed w s h ms" "jm_path (js_metadata s) = p" using reachable_backed [OF assms(1)] by blast
  obtain st where st: "applyMutation invalidMutation m (js_state s) = Inr st"
    using planned_applies [OF backed_state_ok [OF b(1)] Inr] by blast
  show ?thesis
    using commit_ok [OF assms(3) [OF Inr] assms(2) st] b(2) Inr st by (simp add: js_exec_planned im_exec_planned im_apply_def)
qed

theorem jsonl_refines_memory_witness:
  "\<exists>w s s' w'. jsonl_reachable ex_path w s \<and> js_exec (OpSetName (Some (js_lit ''n''))) s w = (Inr s', w')
     \<and> getName (js_state s') = Some (js_lit ''n'')"
proof -
  obtain s w where s: "jsonl_reachable ex_path w s" "w_outcomes w = []" "js_state s = new_SessionState" using ex_created by blast
  have p: "planned (OpSetName (Some (js_lit ''n''))) (js_state s) = Inr (MutName (Suc 0) (Some (js_lit ''n'')))"
    by (simp add: s(3) nextSequence_def new_SessionState_def)
  have "mutation_json m" if "planned (OpSetName (Some (js_lit ''n''))) (js_state s) = Inr m" for m
    using that p ex_name_json by simp
  from jsonl_refines_memory [OF s(1,2), where md = undefined and op = "OpSetName (Some (js_lit ''n''))", OF this] p obtain s' w' where
    "js_exec (OpSetName (Some (js_lit ''n''))) s w = (Inr s', w')" "getName (js_state s') = Some (js_lit ''n'')"
    by (simp add: im_setName_def im_apply_def applyMutation_def nextSequence_def getName_def)
  with s(1) show ?thesis by blast
qed

text \<open>
  The same is not true of an append that fails, rather than being cut by a crash, after a part of its line was written: the
  next line continues the part, and loading takes the whole for a torn tail.
\<close>

lemma brace_line: "\<exists>msg. parseMutation (123 # mutation_text m) = Inl (JsonlDecodeError Syntax msg)"
proof -
  obtain cs where cs: "mutation_text m = 123 # cs" by (auto simp: mutation_text_def obj_def js_lit_def)
  have "parse_json (123 # mutation_text m) = None"
    by (simp add: parse_json_def cs parse_value.simps(2) parse_members.simps(2) skip_ws_def)
  then show ?thesis by (simp add: parseMutation_def decodeMutation_def parseObject_def)
qed

lemma take_one: "take (Suc 0) (mutation_text m @ r) = [123]"
  by (simp add: mutation_text_def obj_def js_lit_def)



text \<open>
  C12. Forking a session file gives what forking the session in memory gives: with a working file system the fork is published
  under its path with the state of the in-memory fork, and every file other than the new one and its temporary is left
  as it was.
\<close>
theorem jsonl_fork_refines_memory:
  assumes "jsonl_reachable q w s" and "w_outcomes w = []" and "header_json h"
    and "im_fork \<lparr>im_metadata = md, im_state = js_state s\<rparr> md' options = Inr f"
    and "\<And>ms. createForkMutations (js_state s) options = Inr ms \<Longrightarrow> \<forall>m \<in> set ms. mutation_json m"
  shows "\<exists>s' w'. js_fork s p h options w = (Inr s', w') \<and> js_state s' = im_state f \<and> jsonl_reachable p w' s'
    \<and> (\<forall>r. r \<noteq> p \<longrightarrow> r \<noteq> temp_path p \<longrightarrow> text_at w' r = text_at w r)"
proof -
  obtain ms where ms: "createForkMutations (js_state s) options = Inr ms" "applyMutations invalidMutation ms new_SessionState = Inr (im_state f)"
    using assms(4) by (auto simp: im_fork_def)
  from fork_loads [OF assms(2) ms(1) assms(3) assms(5) [OF ms(1)] ms(2), of p] obtain s' w' where
    f: "js_fork s p h options w = (Inr s', w')" "js_state s' = im_state f"
    "\<forall>r. r \<noteq> p \<longrightarrow> r \<noteq> temp_path p \<longrightarrow> text_at w' r = text_at w r" by blast
  with jsonl_reachable.forked [OF assms(1,2) ms(1) assms(5) [OF ms(1)] assms(3) f(1)] show ?thesis by blast
qed

theorem jsonl_fork_refines_memory_witness:
  "\<exists>s w s' w'. jsonl_reachable ex_path w s \<and> js_fork s (js_lit ''g'') ex_header ForkTree w = (Inr s', w') \<and> ss_entries (js_state s') = []"
proof -
  obtain s w where s: "jsonl_reachable ex_path w s" "w_outcomes w = []" "js_state s = new_SessionState" using ex_created by blast
  have m1: "mutation_json (MutLane (Suc 0) main_lane None)"
    by (simp add: mutation_json_def obj_def fld_def opt_fld_def lit_def nat_js_def nullable_def main_lane_def js_lit_def key_before_def array_index_def)
  have c: "createForkMutations (js_state s) ForkTree = Inr [MutLane (Suc 0) main_lane None]"
    unfolding s(3) by (simp add: createForkMutations_def fork_selection_def findEntries_oldest_first fork_mutations_def
        label_mutations_eq copied_labels_def new_SessionState_def getLanes_def)
  then have "\<forall>m \<in> set ms. mutation_json m" if "createForkMutations (js_state s) ForkTree = Inr ms" for ms
    using that m1 by auto
  moreover obtain f where f: "im_fork \<lparr>im_metadata = undefined, im_state = js_state s\<rparr> undefined ForkTree = Inr f" "ss_entries (im_state f) = []"
    by (simp add: im_fork_def c applyMutation_def new_SessionState_def)
  ultimately obtain s' w' where "js_fork s (js_lit ''g'') ex_header ForkTree w = (Inr s', w')" "js_state s' = im_state f"
    using jsonl_fork_refines_memory [OF s(1,2) ex_header_json f(1), of "js_lit ''g''"] by blast
  with s(1) f(2) show ?thesis by metis
qed

text \<open>
  C13. A line is read as what it was written for: the line \<open>encodeMutation\<close> makes of a mutation has exactly one line break, at
  its end, and the text before it is parsed to that mutation.
\<close>
theorem mutation_line_roundtrip:
  assumes "mutation_json m"
  shows "\<exists>t. encodeMutation m = Inr (t @ [10]) \<and> 10 \<notin> set t \<and> parseMutation t = Inr m"
  using encodeMutation_text [OF assms] parseMutation_text [OF assms] breakless_lines(1) [OF assms] by (auto simp: breakless_def)

theorem mutation_line_roundtrip_witness:
  "\<exists>t. encodeMutation (MutName 1 (Some (js_lit ''n''))) = Inr (t @ [10]) \<and> parseMutation t = Inr (MutName 1 (Some (js_lit ''n'')))"
  using mutation_line_roundtrip [OF ex_name_json] by auto

end
