(* ===== verification/Truncate.thy ===== *)
theory Truncate
  imports Text_Lines
begin

text \<open>
  \<^verbatim>\<open>pi/packages/agent/src/harness/utils/truncate.ts\<close>: cutting tool output to a number of lines and UTF-8 bytes. Limits are
  integers, negative ones included. The only way to fail is reading the first line of an empty text under a negative
  limit.
\<close>

definition DEFAULT_MAX_LINES :: int where "DEFAULT_MAX_LINES = 2000"
definition DEFAULT_MAX_BYTES :: int where "DEFAULT_MAX_BYTES = 50 * 1024"
definition GREP_MAX_LINE_LENGTH :: nat where "GREP_MAX_LINE_LENGTH = 500"

datatype truncated_by = ByLines | ByBytes

record TruncationResult =
  tu_content :: ustring
  tu_truncated :: bool
  tu_truncatedBy :: "truncated_by option"
  tu_totalLines :: nat
  tu_totalBytes :: nat
  tu_outputLines :: nat
  tu_outputBytes :: nat
  tu_lastLinePartial :: bool
  tu_firstLineExceedsLimit :: bool
  tu_maxLines :: int
  tu_maxBytes :: int

record TruncationOptions =
  to_maxLines :: "int option"
  to_maxBytes :: "int option"

section \<open>Sizes\<close>

text \<open>The loop of \<open>utf8ByteLength\<close> from the first code unit that is not ASCII.\<close>

fun utf8_bytes :: "ustring \<Rightarrow> nat" where
  "utf8_bytes [] = 0"
| "utf8_bytes (c # cs) =
     (if c \<le> 0x7f then 1 + utf8_bytes cs
      else if c \<le> 0x7ff then 2 + utf8_bytes cs
      else if is_high c then
        (case cs of
           [] \<Rightarrow> 3 + utf8_bytes cs
         | d # ds \<Rightarrow> if is_low d then 4 + utf8_bytes ds else 3 + utf8_bytes cs)
      else 3 + utf8_bytes cs)"

definition is_ascii :: "code_unit \<Rightarrow> bool" where
  "is_ascii c \<longleftrightarrow> c \<le> 0x7f"

definition utf8ByteLength :: "ustring \<Rightarrow> nat" where
  "utf8ByteLength content =
     (if list_all is_ascii content then length content
      else length (takeWhile is_ascii content) + utf8_bytes (dropWhile is_ascii content))"

definition splitLinesForCounting :: "ustring \<Rightarrow> ustring list" where
  "splitLinesForCounting content =
     (if content = [] then []
      else let lines = split_lines content in if last content = 10 then butlast lines else lines)"

fun replaceUnpairedSurrogates :: "ustring \<Rightarrow> ustring" where
  "replaceUnpairedSurrogates [] = []"
| "replaceUnpairedSurrogates (c # cs) =
     (if is_high c then
        (case cs of
           [] \<Rightarrow> 0xFFFD # replaceUnpairedSurrogates cs
         | d # ds \<Rightarrow> if is_low d then c # d # replaceUnpairedSurrogates ds else 0xFFFD # replaceUnpairedSurrogates cs)
      else if is_low c then 0xFFFD # replaceUnpairedSurrogates cs
      else c # replaceUnpairedSurrogates cs)"

text \<open>\<open>(bytes / unit).toFixed(1)\<close>: a tie is rounded up, and \<open>bytes / unit\<close> is exact.\<close>

definition tenths :: "nat \<Rightarrow> nat \<Rightarrow> ustring" where
  "tenths bytes u = (let n = (20 * bytes + u) div (2 * u) in nat_text (n div 10) @ js_lit ''.'' @ nat_text (n mod 10))"

definition formatSize :: "nat \<Rightarrow> ustring" where
  "formatSize bytes =
     (if bytes < 1024 then nat_text bytes @ js_lit ''B''
      else if bytes < 1024 * 1024 then tenths bytes 1024 @ js_lit ''KB''
      else tenths bytes (1024 * 1024) @ js_lit ''MB'')"

section \<open>From the head\<close>

definition line_cost :: "bool \<Rightarrow> ustring \<Rightarrow> nat" where
  "line_cost first line = utf8ByteLength line + (if first then 0 else 1)"

text \<open>The collecting loop: the lines taken so far, their bytes, and whether the byte limit stopped it.\<close>

fun take_lines :: "int \<Rightarrow> int \<Rightarrow> ustring list \<Rightarrow> ustring list \<Rightarrow> nat \<Rightarrow> ustring list \<times> nat \<times> bool" where
  "take_lines maxLines maxBytes [] out bytes = (out, bytes, False)"
| "take_lines maxLines maxBytes (line # lines) out bytes =
     (if int (length out) \<ge> maxLines then (out, bytes, False)
      else if int (bytes + line_cost (out = []) line) > maxBytes then (out, bytes, True)
      else take_lines maxLines maxBytes lines (out @ [line]) (bytes + line_cost (out = []) line))"

definition limits :: "TruncationOptions \<Rightarrow> int \<times> int" where
  "limits options =
     (case to_maxLines options of Some n \<Rightarrow> n | None \<Rightarrow> DEFAULT_MAX_LINES,
      case to_maxBytes options of Some n \<Rightarrow> n | None \<Rightarrow> DEFAULT_MAX_BYTES)"

definition whole :: "ustring \<Rightarrow> int \<Rightarrow> int \<Rightarrow> TruncationResult" where
  "whole content maxLines maxBytes =
     (let lines = length (splitLinesForCounting content); bytes = utf8ByteLength content
      in \<lparr>tu_content = content, tu_truncated = False, tu_truncatedBy = None, tu_totalLines = lines, tu_totalBytes = bytes,
          tu_outputLines = lines, tu_outputBytes = bytes, tu_lastLinePartial = False, tu_firstLineExceedsLimit = False,
          tu_maxLines = maxLines, tu_maxBytes = maxBytes\<rparr>)"

definition shortened :: "ustring \<Rightarrow> int \<Rightarrow> int \<Rightarrow> ustring list \<Rightarrow> nat \<Rightarrow> bool \<Rightarrow> bool \<Rightarrow> TruncationResult" where
  "shortened content maxLines maxBytes out bytes stopped partial =
     \<lparr>tu_content = join [10] out, tu_truncated = True,
      tu_truncatedBy = Some (if int (length out) \<ge> maxLines \<and> int bytes \<le> maxBytes then ByLines else if stopped then ByBytes else ByLines),
      tu_totalLines = length (splitLinesForCounting content), tu_totalBytes = utf8ByteLength content,
      tu_outputLines = length out, tu_outputBytes = utf8ByteLength (join [10] out),
      tu_lastLinePartial = partial, tu_firstLineExceedsLimit = False, tu_maxLines = maxLines, tu_maxBytes = maxBytes\<rparr>"

definition fits :: "ustring \<Rightarrow> int \<Rightarrow> int \<Rightarrow> bool" where
  "fits content maxLines maxBytes \<longleftrightarrow>
     int (length (splitLinesForCounting content)) \<le> maxLines \<and> int (utf8ByteLength content) \<le> maxBytes"

definition truncateHead :: "ustring \<Rightarrow> TruncationOptions \<Rightarrow> unit + TruncationResult" where
  "truncateHead content options =
     (let (maxLines, maxBytes) = limits options; lines = splitLinesForCounting content
      in if fits content maxLines maxBytes then Inr (whole content maxLines maxBytes)
         else (case lines of
             [] \<Rightarrow> Inl ()
           | first # _ \<Rightarrow>
               if int (utf8ByteLength first) > maxBytes
               then Inr \<lparr>tu_content = [], tu_truncated = True, tu_truncatedBy = Some ByBytes, tu_totalLines = length lines,
                        tu_totalBytes = utf8ByteLength content, tu_outputLines = 0, tu_outputBytes = 0, tu_lastLinePartial = False,
                        tu_firstLineExceedsLimit = True, tu_maxLines = maxLines, tu_maxBytes = maxBytes\<rparr>
               else (case take_lines maxLines maxBytes lines [] 0 of
                   (out, bytes, stopped) \<Rightarrow> Inr (shortened content maxLines maxBytes out bytes stopped False))))"

section \<open>From the tail\<close>

text \<open>
  The character that ends at the front of the reversed text: how many code units and bytes it has, and whether it is a
  lone surrogate.
\<close>

definition last_character :: "code_unit \<Rightarrow> ustring \<Rightarrow> nat \<times> nat \<times> bool" where
  "last_character c before =
     (if is_low c \<and> before \<noteq> [] then (if is_high (hd before) then (2, 4, False) else (1, 3, True))
      else if is_high c \<or> is_low c then (1, 3, True)
      else (1, if c \<le> 0x7f then 1 else if c \<le> 0x7ff then 2 else 3, False))"

fun scan_back :: "int \<Rightarrow> ustring \<Rightarrow> nat \<Rightarrow> nat \<Rightarrow> bool \<Rightarrow> nat \<times> bool" where
  "scan_back maxBytes [] bytes taken lone = (taken, lone)"
| "scan_back maxBytes (c # before) bytes taken lone =
     (case last_character c before of
        (units, cost, unpaired) \<Rightarrow>
          if int (bytes + cost) > maxBytes then (taken, lone)
          else scan_back maxBytes (drop (units - 1) before) (bytes + cost) (taken + units) (lone \<or> unpaired))"

definition truncateStringToBytesFromEnd :: "ustring \<Rightarrow> int \<Rightarrow> ustring" where
  "truncateStringToBytesFromEnd str maxBytes =
     (if maxBytes \<le> 0 then []
      else case scan_back maxBytes (rev str) 0 0 False of
          (taken, lone) \<Rightarrow>
            let output = drop (length str - taken) str in if lone then replaceUnpairedSurrogates output else output)"

text \<open>The loop over the reversed lines: the lines kept, their bytes, whether the byte limit stopped it, and whether a part of a line was kept.\<close>

fun take_back :: "int \<Rightarrow> int \<Rightarrow> ustring list \<Rightarrow> ustring list \<Rightarrow> nat \<Rightarrow> ustring list \<times> nat \<times> bool \<times> bool" where
  "take_back maxLines maxBytes [] out bytes = (out, bytes, False, False)"
| "take_back maxLines maxBytes (line # lines) out bytes =
     (if int (length out) \<ge> maxLines then (out, bytes, False, False)
      else if int (bytes + line_cost (out = []) line) > maxBytes then
        (if out = [] then
           (let part = truncateStringToBytesFromEnd line maxBytes in ([part], utf8ByteLength part, True, True))
         else (out, bytes, True, False))
      else take_back maxLines maxBytes lines (line # out) (bytes + line_cost (out = []) line))"

definition truncateTail :: "ustring \<Rightarrow> TruncationOptions \<Rightarrow> TruncationResult" where
  "truncateTail content options =
     (let (maxLines, maxBytes) = limits options
      in if fits content maxLines maxBytes then whole content maxLines maxBytes
         else (case take_back maxLines maxBytes (rev (splitLinesForCounting content)) [] 0 of
             (out, bytes, stopped, partial) \<Rightarrow> shortened content maxLines maxBytes out bytes stopped partial))"

definition truncateLine :: "ustring \<Rightarrow> nat option \<Rightarrow> ustring \<times> bool" where
  "truncateLine line maxChars =
     (let n = (case maxChars of Some n \<Rightarrow> n | None \<Rightarrow> GREP_MAX_LINE_LENGTH)
      in if length line \<le> n then (line, False) else (take n line @ js_lit ''... [truncated]'', True))"

section \<open>Byte lengths\<close>

lemma ascii_bytes: "list_all is_ascii s \<Longrightarrow> utf8_bytes s = length s"
  by (induction s) (auto simp: is_ascii_def)

lemma ascii_prefix_bytes: "utf8_bytes s = length (takeWhile is_ascii s) + utf8_bytes (dropWhile is_ascii s)"
  by (induction s) (auto simp: is_ascii_def)

lemma utf8ByteLength_bytes: "utf8ByteLength s = utf8_bytes s"
  using ascii_bytes [of s] ascii_prefix_bytes [of s] by (simp add: utf8ByteLength_def)

text \<open>The length is that of the UTF-8 encoding.\<close>

lemma utf8_bytes_encode: "utf8_bytes s = length (utf8_encode s)"
proof (induction s rule: scalars.induct)
  case (2 c)
  show ?case using unat16_bound [of c]
    by (auto simp: utf8_encode_def encode_scalar_def is_high_unat is_low_unat word_le_nat_alt)
next
  case (3 c d s)
  have "0x10000 \<le> pair_value c d" by (simp add: pair_value_def)
  then show ?case
    using 3 unat16_bound [of c]
    by (auto simp: utf8_encode_def encode_scalar_def is_high_unat is_low_unat word_le_nat_alt)
qed (simp add: utf8_encode_def)

lemma utf8_encode_empty [simp]: "utf8_encode [] = []"
  by (simp add: utf8_encode_def)

text \<open>Cutting a text between two characters: not inside a surrogate pair.\<close>

definition apart :: "ustring \<Rightarrow> ustring \<Rightarrow> bool" where
  "apart s t \<longleftrightarrow> s = [] \<or> t = [] \<or> \<not> (is_high (last s) \<and> is_low (hd t))"

lemma scalars_append: "apart s t \<Longrightarrow> scalars (s @ t) = scalars s @ scalars t"
proof (induction s rule: scalars.induct)
  case (2 c)
  then show ?case by (cases t) (auto simp: apart_def)
next
  case (3 c d s)
  have "apart s t" "apart (d # s) t" using "3.prems" by (cases s; auto simp: apart_def)+
  then show ?case using "3.IH" by auto
qed (simp add: apart_def)

lemma utf8_encode_append: "apart s t \<Longrightarrow> utf8_encode (s @ t) = utf8_encode s @ utf8_encode t"
  by (simp add: utf8_encode_def scalars_append)

lemma utf8_bytes_append: "apart s t \<Longrightarrow> utf8_bytes (s @ t) = utf8_bytes s + utf8_bytes t"
  by (simp add: utf8_bytes_encode utf8_encode_append)

lemma newline_units: "\<not> is_low 10" "\<not> is_high 10"
  by (simp_all add: is_low_unat is_high_unat)

lemma utf8_bytes_lines: "utf8_bytes (s @ 10 # t) = utf8_bytes s + 1 + utf8_bytes t"
  using utf8_bytes_append [of s "10 # t"] newline_units by (simp add: apart_def)


lemma join_bytes_cons:
  "utf8_bytes (join [10] (l # ls)) = utf8_bytes l + (if ls = [] then 0 else 1 + utf8_bytes (join [10] ls))"
  by (simp add: join_cons_lines utf8_bytes_lines)

lemma join_bytes_snoc:
  "utf8_bytes (join [10] (ls @ [l])) = utf8_bytes (join [10] ls) + line_cost (ls = []) l"
proof (induction ls)
  case Nil
  show ?case by (simp add: line_cost_def utf8ByteLength_bytes)
next
  case (Cons k ls)
  then show ?case
    unfolding append_Cons join_bytes_cons by (cases "ls = []") (simp_all add: line_cost_def utf8ByteLength_bytes)
qed

lemma join_bytes_append: "utf8_bytes (join [10] ls) \<le> utf8_bytes (join [10] (ls @ ms))"
proof (induction ms rule: rev_induct)
  case (snoc m ms)
  then show ?case using join_bytes_snoc [of "ls @ ms" m] by simp
qed simp

lemma join_bytes_take: "j \<le> k \<Longrightarrow> utf8_bytes (join [10] (take j ls)) \<le> utf8_bytes (join [10] (take k ls))"
  using join_bytes_append [of "take j ls" "take (k - j) (drop j ls)"] by (simp add: take_add [symmetric])

lemma join_bytes_prepend: "utf8_bytes (join [10] ls) \<le> utf8_bytes (join [10] (ms @ ls))"
proof (induction ms)
  case (Cons m ms)
  then show ?case unfolding append_Cons join_bytes_cons by (cases "ms @ ls = []") auto
qed simp

lemma join_bytes_drop: "j \<le> k \<Longrightarrow> utf8_bytes (join [10] (drop k ls)) \<le> utf8_bytes (join [10] (drop j ls))"
  using join_bytes_prepend [of "drop k ls" "take (k - j) (drop j ls)"]
  by (metis append_take_drop_id drop_drop le_add_diff_inverse2)

section \<open>The lines kept\<close>

text \<open>A number of lines within both limits that cannot be raised.\<close>

definition most_lines :: "int \<Rightarrow> int \<Rightarrow> (nat \<Rightarrow> ustring list) \<Rightarrow> nat \<Rightarrow> nat \<Rightarrow> bool" where
  "most_lines maxLines maxBytes keep n k \<longleftrightarrow>
     k \<le> n \<and> int k \<le> maxLines \<and> int (length (utf8_encode (join [10] (keep k)))) \<le> maxBytes \<and>
     (k = n \<or> int k = maxLines \<or> maxBytes < int (length (utf8_encode (join [10] (keep (Suc k))))))"

lemma take_lines_spec:
  assumes "take_lines maxLines maxBytes lines out bytes = (out', bytes', stopped)"
    and "bytes = utf8_bytes (join [10] out)" "int bytes \<le> maxBytes" "int (length out) \<le> maxLines"
  shows "\<exists>k \<le> length lines. out' = out @ take k lines \<and> int (length out') \<le> maxLines \<and>
           int (utf8_bytes (join [10] out')) \<le> maxBytes \<and>
           (k = length lines \<or> int (length out') = maxLines \<or>
            maxBytes < int (utf8_bytes (join [10] (out @ take (Suc k) lines))))"
  using assms
proof (induction maxLines maxBytes lines out bytes rule: take_lines.induct)
  case (2 maxLines maxBytes line lines out bytes)
  let ?cost = "line_cost (out = []) line"
  have sum: "bytes + ?cost = utf8_bytes (join [10] (out @ [line]))" using 2 by (simp add: join_bytes_snoc)
  consider "int (length out) \<ge> maxLines" | "int (length out) < maxLines" "int (bytes + ?cost) > maxBytes"
    | "int (length out) < maxLines" "int (bytes + ?cost) \<le> maxBytes" by linarith
  then show ?case
  proof cases
    case 3
    then have "take_lines maxLines maxBytes lines (out @ [line]) (bytes + ?cost) = (out', bytes', stopped)"
      using "2.prems"(1) by simp
    from "2.IH" [OF _ _ this sum] 3 obtain k where "k \<le> length lines" "out' = (out @ [line]) @ take k lines" "int (length out') \<le> maxLines"
      "int (utf8_bytes (join [10] out')) \<le> maxBytes"
      "k = length lines \<or> int (length out') = maxLines \<or>
       maxBytes < int (utf8_bytes (join [10] ((out @ [line]) @ take (Suc k) lines)))"
      by (force simp del: append.simps)
    then show ?thesis by (intro exI [of _ "Suc k"]) auto
  qed (use 2 sum in \<open>auto intro!: exI [of _ 0]\<close>)
qed auto

lemma take_back_spec:
  assumes "take_back maxLines maxBytes lines out bytes = (out', bytes', stopped, False)"
    and "bytes = utf8_bytes (join [10] out)" "int bytes \<le> maxBytes" "int (length out) \<le> maxLines"
  shows "\<exists>k \<le> length lines. out' = rev (take k lines) @ out \<and> int (length out') \<le> maxLines \<and>
           int (utf8_bytes (join [10] out')) \<le> maxBytes \<and>
           (k = length lines \<or> int (length out') = maxLines \<or>
            maxBytes < int (utf8_bytes (join [10] (rev (take (Suc k) lines) @ out))))"
  using assms
proof (induction maxLines maxBytes lines out bytes rule: take_back.induct)
  case (2 maxLines maxBytes line lines out bytes)
  let ?cost = "line_cost (out = []) line"
  have sum: "bytes + ?cost = utf8_bytes (join [10] (line # out))"
    using 2 by (simp add: join_bytes_cons line_cost_def utf8ByteLength_bytes)
  consider "int (length out) \<ge> maxLines" | "int (length out) < maxLines" "int (bytes + ?cost) > maxBytes"
    | "int (length out) < maxLines" "int (bytes + ?cost) \<le> maxBytes" by linarith
  then show ?case
  proof cases
    case 3
    then have "take_back maxLines maxBytes lines (line # out) (bytes + ?cost) = (out', bytes', stopped, False)"
      using "2.prems"(1) by simp
    from "2.IH" [OF _ _ this sum] 3 obtain k where "k \<le> length lines" "out' = rev (take k lines) @ line # out" "int (length out') \<le> maxLines"
      "int (utf8_bytes (join [10] out')) \<le> maxBytes"
      "k = length lines \<or> int (length out') = maxLines \<or>
       maxBytes < int (utf8_bytes (join [10] (rev (take (Suc k) lines) @ line # out)))"
      by (force simp del: append.simps)
    then show ?thesis by (intro exI [of _ "Suc k"]) auto
  qed (use 2 sum in \<open>auto intro!: exI [of _ 0] split: if_splits simp: Let_def\<close>)
qed auto


section \<open>The part of a line\<close>

lemma replace_unpaired_bytes: "utf8_encode (replaceUnpairedSurrogates s) = utf8_encode s"
proof -
  have "scalars (replaceUnpairedSurrogates s) = scalars s" for s
  proof (induction s rule: scalars.induct)
    case (2 c)
    show ?case by (simp add: is_high_unat is_low_unat)
  next
    case (3 c d s)
    show ?case
    proof (cases "is_high c \<and> is_low d")
      case False
      then have rest: "scalars (replaceUnpairedSurrogates (d # s)) = scalars (d # s)" by (rule "3.IH"(2))
      have "scalars (x # replaceUnpairedSurrogates (d # s)) = (if is_low x then 0xFFFD else unat x) # scalars (d # s)"
        if "\<not> is_high x" for x
        using rest that by (cases "replaceUnpairedSurrogates (d # s)") auto
      from this [of c] this [of "0xFFFD"] False show ?thesis
        by (auto simp: is_high_unat is_low_unat simp del: replaceUnpairedSurrogates.simps(2) simp add: replaceUnpairedSurrogates.simps(2) [of c])
    qed (use "3.IH"(1) in simp)
  qed simp
  then show ?thesis by (simp add: utf8_encode_def)
qed

text \<open>The scan steps back by one character: its code units, and its bytes beside those after it.\<close>

lemma last_character_spec:
  assumes "last_character c before = (units, cost, lone)" and "apart (rev (c # before)) suf"
  shows "utf8_bytes (rev (take units (c # before)) @ suf) = cost + utf8_bytes suf \<and>
         apart (rev (drop units (c # before))) (rev (take units (c # before)) @ suf) \<and> cost \<le> 4 \<and> 0 < units"
proof -
  have one: "apart [c] suf" using assms(2) by (auto simp: apart_def)
  consider d ds where "is_low c" "before = d # ds" "is_high d"
    | "\<not> (is_low c \<and> before \<noteq> [] \<and> is_high (hd before))" by (cases before) auto
  then show ?thesis
  proof cases
    case 1
    then have "apart [d, c] suf" using one by (simp add: apart_def)
    with 1 show ?thesis using assms(1) utf8_bytes_append [of "[d, c]" suf]
      by (auto simp: last_character_def apart_def is_high_unat is_low_unat word_le_nat_alt)
  next
    case 2
    then have "units = 1" "cost = utf8_bytes [c]"
      using assms(1) by (auto simp: last_character_def is_high_unat is_low_unat word_le_nat_alt split: if_splits)
    with 2 show ?thesis using utf8_bytes_append [OF one] by (auto simp: apart_def last_rev)
  qed
qed

lemma scan_back_spec:
  assumes "scan_back maxBytes bs bytes taken lone = (taken', lone')"
    and "bytes = utf8_bytes suf" "int bytes \<le> maxBytes" "apart (rev bs) suf" "taken = length suf"
  shows "\<exists>n \<le> length bs. taken' = taken + n \<and> apart (rev (drop n bs)) (rev (take n bs) @ suf) \<and>
           int (utf8_bytes (rev (take n bs) @ suf)) \<le> maxBytes \<and>
           (n = length bs \<or> maxBytes < int (utf8_bytes (rev (take n bs) @ suf)) + 4)"
  using assms
proof (induction maxBytes bs bytes taken lone arbitrary: suf rule: scan_back.induct)
  case (2 maxBytes c before bytes taken lone)
  obtain units cost unpaired where ch: "last_character c before = (units, cost, unpaired)" by (cases "last_character c before")
  note spec = last_character_spec [OF ch "2.prems"(4)]
  show ?case
  proof (cases "int (bytes + cost) > maxBytes")
    case True
    with 2 ch spec show ?thesis by (auto intro!: exI [of _ 0])
  next
    case False
    let ?suf = "rev (take units (c # before)) @ suf" and ?bs = "drop (units - 1) before"
    have bs: "?bs = drop units (c # before)" using spec by (cases units) auto
    have len: "units \<le> length (c # before)" using ch by (cases before) (auto simp: last_character_def split: if_splits)
    have "scan_back maxBytes ?bs (bytes + cost) (taken + units) (lone \<or> unpaired) = (taken', lone')"
      using "2.prems"(1) False by (simp add: ch)
    from "2.IH" [OF ch [symmetric] refl False this, of ?suf] 2 spec False bs len
    obtain n where n: "n \<le> length ?bs" "taken' = taken + units + n" "apart (rev (drop n ?bs)) (rev (take n ?bs) @ ?suf)"
      "int (utf8_bytes (rev (take n ?bs) @ ?suf)) \<le> maxBytes"
      "n = length ?bs \<or> maxBytes < int (utf8_bytes (rev (take n ?bs) @ ?suf)) + 4"
      by auto
    have cut: "rev (take n ?bs) @ ?suf = rev (take (units + n) (c # before)) @ suf"
      by (simp only: bs take_add rev_append append_assoc)
    have rest: "drop n ?bs = drop (units + n) (c # before)" by (simp only: bs drop_drop add.commute [of n])
    have whole: "length ?bs + units = length (c # before)" unfolding bs using len by simp
    have "units + n \<le> length (c # before)" "taken' = taken + (units + n)"
      "n = length ?bs \<Longrightarrow> units + n = length (c # before)" using n(1,2) whole by linarith+
    then show ?thesis using n(3-5) unfolding cut rest by blast
  qed
qed (auto intro!: exI [of _ 0])

text \<open>The UTF-8 bytes of the part kept end those of the text, within the limit and less than one character short of it.\<close>

lemma truncateStringToBytesFromEnd_suffix:
  assumes "0 < maxBytes"
  shows "\<exists>pre. utf8_encode str = pre @ utf8_encode (truncateStringToBytesFromEnd str maxBytes) \<and>
           int (length (utf8_encode (truncateStringToBytesFromEnd str maxBytes))) \<le> maxBytes \<and>
           (pre = [] \<or> maxBytes < int (length (utf8_encode (truncateStringToBytesFromEnd str maxBytes))) + 4)"
proof -
  obtain taken lone where scan: "scan_back maxBytes (rev str) 0 0 False = (taken, lone)" by (cases "scan_back maxBytes (rev str) 0 0 False")
  from scan_back_spec [OF scan, of "[]"] assms obtain n where n: "n \<le> length str" "taken = n"
    "apart (rev (drop n (rev str))) (rev (take n (rev str)))" "int (utf8_bytes (rev (take n (rev str)))) \<le> maxBytes"
    "n = length str \<or> maxBytes < int (utf8_bytes (rev (take n (rev str)))) + 4"
    by (auto simp: apart_def)
  let ?out = "drop (length str - n) str"
  have out: "rev (take n (rev str)) = ?out" "rev (drop n (rev str)) = take (length str - n) str"
    by (simp_all add: rev_take rev_drop)
  have "utf8_encode (truncateStringToBytesFromEnd str maxBytes) = utf8_encode ?out"
    using assms by (simp add: truncateStringToBytesFromEnd_def scan n(2) replace_unpaired_bytes Let_def)
  moreover have "utf8_encode str = utf8_encode (take (length str - n) str) @ utf8_encode ?out"
    using utf8_encode_append [of "take (length str - n) str" ?out] n(3) unfolding out by simp
  moreover have "n = length str \<Longrightarrow> utf8_encode (take (length str - n) str) = []" by (simp add: utf8_encode_def)
  ultimately show ?thesis using n(4,5) unfolding out by (metis utf8_bytes_encode)
qed

section \<open>What is kept\<close>

text \<open>The number of lines that \<open>most_lines\<close> names is the greatest one within both limits.\<close>

lemma most_lines_greatest:
  assumes "most_lines maxLines maxBytes keep n k"
    and mono: "\<And>i j. i \<le> j \<Longrightarrow> utf8_bytes (join [10] (keep i)) \<le> utf8_bytes (join [10] (keep j))"
  shows "is_arg_max id (\<lambda>k. k \<le> n \<and> int k \<le> maxLines \<and> int (length (utf8_encode (join [10] (keep k)))) \<le> maxBytes) k"
proof -
  have "\<not> k < j" if "j \<le> n" "int j \<le> maxLines" "int (length (utf8_encode (join [10] (keep j)))) \<le> maxBytes" for j
  proof
    assume "k < j"
    then have "length (utf8_encode (join [10] (keep (Suc k)))) \<le> length (utf8_encode (join [10] (keep j)))"
      using mono [of "Suc k" j] by (simp flip: utf8_bytes_encode)
    then show False using assms(1) that \<open>k < j\<close> unfolding most_lines_def by linarith
  qed
  then show ?thesis using assms(1) unfolding is_arg_max_def most_lines_def by auto
qed

lemma take_lines_most:
  assumes "take_lines maxLines maxBytes lines [] 0 = (out, bytes, stopped)" "0 \<le> maxLines" "0 \<le> maxBytes"
  shows "out = take (length out) lines \<and> most_lines maxLines maxBytes (\<lambda>k. take k lines) (length lines) (length out)"
proof -
  from take_lines_spec [OF assms(1)] assms(2,3) obtain k where k: "k \<le> length lines" "out = take k lines"
    "int (length out) \<le> maxLines" "int (utf8_bytes (join [10] out)) \<le> maxBytes"
    "k = length lines \<or> int (length out) = maxLines \<or> maxBytes < int (utf8_bytes (join [10] (take (Suc k) lines)))"
    by force
  moreover from k(1,2) have "length out = k" by simp
  ultimately show ?thesis by (simp add: most_lines_def flip: utf8_bytes_encode)
qed

lemma take_back_most:
  assumes "take_back maxLines maxBytes (rev lines) [] 0 = (out, bytes, stopped, False)" "0 \<le> maxLines" "0 \<le> maxBytes"
  shows "out = drop (length lines - length out) lines \<and>
         most_lines maxLines maxBytes (\<lambda>k. drop (length lines - k) lines) (length lines) (length out)"
proof -
  have rev_take_rev: "rev (take k (rev lines)) = drop (length lines - k) lines" for k by (simp add: rev_take)
  from take_back_spec [OF assms(1)] assms(2,3) obtain k where k: "k \<le> length lines" "out = drop (length lines - k) lines"
    "int (length out) \<le> maxLines" "int (utf8_bytes (join [10] out)) \<le> maxBytes"
    "k = length lines \<or> int (length out) = maxLines \<or>
     maxBytes < int (utf8_bytes (join [10] (drop (length lines - Suc k) lines)))"
    by (force simp: rev_take_rev)
  moreover from k(1,2) have "length out = k" by simp
  ultimately show ?thesis by (simp add: most_lines_def flip: utf8_bytes_encode)
qed

text \<open>A part of a line is kept only when the last line alone passes the byte limit.\<close>

lemma take_back_partial:
  assumes "take_back maxLines maxBytes lines out bytes = (out', bytes', stopped, True)"
  shows "\<exists>line rest. out = [] \<and> lines = line # rest \<and> int (length out) < maxLines \<and>
           maxBytes < int (bytes + utf8ByteLength line) \<and> out' = [truncateStringToBytesFromEnd line maxBytes]"
  using assms
proof (induction maxLines maxBytes lines out bytes rule: take_back.induct)
  case (2 maxLines maxBytes line lines out bytes)
  then show ?case by (auto simp: Let_def line_cost_def split: if_splits)
qed simp

lemma lines_of_content: "join [10] (splitLinesForCounting content) = content \<or> join [10] (splitLinesForCounting content) @ [10] = content"
proof (cases "content = [] \<or> last content \<noteq> 10")
  case True
  then show ?thesis using join_split_lines [of content] by (auto simp: splitLinesForCounting_def)
next
  case False
  then obtain s where s: "content = s @ [10]" by (metis append_butlast_last_id)
  have "split_lines (s @ [10]) = split_lines s @ [[]]"
  proof (induction s)
    case (Cons c s)
    then show ?case by (cases "split_lines s") auto
  qed simp
  with s join_split_lines [of s] show ?thesis by (simp add: splitLinesForCounting_def)
qed

text \<open>
  \<open>truncateHead\<close>, when it shortens, keeps the first lines of the text, whole and as many as both limits allow:
  no longer run of first lines is within the line limit and the byte limit.
\<close>

theorem truncateHead_keeps_most:
  assumes "truncateHead content options = Inr r" "tu_truncated r" "0 \<le> tu_maxLines r" "0 \<le> tu_maxBytes r"
  shows "tu_content r = join [10] (take (tu_outputLines r) (splitLinesForCounting content)) \<and>
         tu_outputBytes r = length (utf8_encode (tu_content r)) \<and>
         is_arg_max id
           (\<lambda>k. k \<le> length (splitLinesForCounting content) \<and> int k \<le> tu_maxLines r \<and>
                int (length (utf8_encode (join [10] (take k (splitLinesForCounting content))))) \<le> tu_maxBytes r)
           (tu_outputLines r)"
proof -
  let ?lines = "splitLinesForCounting content"
  obtain maxLines maxBytes where lim: "limits options = (maxLines, maxBytes)" by (cases "limits options")
  have r: "tu_maxLines r = maxLines" "tu_maxBytes r = maxBytes" "\<not> fits content maxLines maxBytes"
    using assms(1,2) lim
    by (auto simp: truncateHead_def whole_def shortened_def Let_def split: prod.splits if_splits list.splits)
  have bounds: "0 \<le> maxLines" "0 \<le> maxBytes" using assms(3,4) r by simp_all
  have "tu_content r = join [10] (take (tu_outputLines r) ?lines) \<and> tu_outputBytes r = length (utf8_encode (tu_content r)) \<and>
        most_lines maxLines maxBytes (\<lambda>k. take k ?lines) (length ?lines) (tu_outputLines r)"
  proof (cases "\<exists>first rest. ?lines = first # rest \<and> int (utf8ByteLength first) > maxBytes")
    case True
    with assms(1) lim r(3) bounds show ?thesis
      by (auto simp: truncateHead_def most_lines_def Let_def utf8ByteLength_bytes utf8_bytes_encode)
  next
    case False
    then obtain out bytes stopped where out: "take_lines maxLines maxBytes ?lines [] 0 = (out, bytes, stopped)"
      and res: "r = shortened content maxLines maxBytes out bytes stopped False"
      using assms(1) lim r(3) by (auto simp: truncateHead_def Let_def split: prod.splits list.splits if_splits)
    show ?thesis
      using take_lines_most [OF out bounds]
      by (simp add: res shortened_def utf8ByteLength_bytes utf8_bytes_encode)
  qed
  then show ?thesis
    using most_lines_greatest [of maxLines maxBytes "\<lambda>k. take k ?lines" "length ?lines"] join_bytes_take by (simp add: r(1,2))
qed

lemmas truncate_eval = truncateHead_def truncateTail_def truncateStringToBytesFromEnd_def limits_def fits_def whole_def
  shortened_def line_cost_def splitLinesForCounting_def utf8ByteLength_def is_ascii_def last_character_def is_high_def
  is_low_def DEFAULT_MAX_LINES_def DEFAULT_MAX_BYTES_def Let_def

lemma truncateHead_keeps_most_witness:
  "is_arg_max id
     (\<lambda>k. k \<le> Suc (Suc (Suc 0)) \<and> int k \<le> 2 \<and> int (length (utf8_encode (join [10] (take k [[97], [98], [99]])))) \<le> 51200) (Suc (Suc 0))"
  using truncateHead_keeps_most [THEN conjunct2, THEN conjunct2, of "[97, 10, 98, 10, 99]" "\<lparr>to_maxLines = Some 2, to_maxBytes = None\<rparr>"
      "projr (truncateHead [97, 10, 98, 10, 99] \<lparr>to_maxLines = Some 2, to_maxBytes = None\<rparr>)"]
  by (simp add: truncate_eval)

text \<open>
  \<open>truncateTail\<close>, when it shortens without cutting a line, keeps the last lines of the text, whole and as many as
  both limits allow.
\<close>

theorem truncateTail_keeps_most:
  assumes "r = truncateTail content options" "tu_truncated r" "\<not> tu_lastLinePartial r" "0 \<le> tu_maxLines r" "0 \<le> tu_maxBytes r"
  shows "tu_content r = join [10] (drop (tu_totalLines r - tu_outputLines r) (splitLinesForCounting content)) \<and>
         tu_outputBytes r = length (utf8_encode (tu_content r)) \<and>
         is_arg_max id
           (\<lambda>k. k \<le> tu_totalLines r \<and> int k \<le> tu_maxLines r \<and>
                int (length (utf8_encode (join [10] (drop (tu_totalLines r - k) (splitLinesForCounting content))))) \<le> tu_maxBytes r)
           (tu_outputLines r)"
proof -
  let ?lines = "splitLinesForCounting content"
  obtain maxLines maxBytes where lim: "limits options = (maxLines, maxBytes)" by (cases "limits options")
  have r: "tu_maxLines r = maxLines" "tu_maxBytes r = maxBytes" "tu_totalLines r = length ?lines"
    using assms(1) lim by (auto simp: truncateTail_def whole_def shortened_def Let_def split: prod.splits)
  from assms(1-3) lim obtain out bytes stopped where
    out: "take_back maxLines maxBytes (rev ?lines) [] 0 = (out, bytes, stopped, False)"
    and res: "r = shortened content maxLines maxBytes out bytes stopped False"
    by (auto simp: truncateTail_def whole_def shortened_def Let_def split: prod.splits if_splits)
  then have "tu_content r = join [10] (drop (length ?lines - tu_outputLines r) ?lines) \<and>
      tu_outputBytes r = length (utf8_encode (tu_content r)) \<and>
      most_lines maxLines maxBytes (\<lambda>k. drop (length ?lines - k) ?lines) (length ?lines) (tu_outputLines r)"
    using take_back_most [OF out] assms(4,5) r
    by (simp add: res shortened_def utf8ByteLength_bytes utf8_bytes_encode)
  then show ?thesis
    using most_lines_greatest [of maxLines maxBytes "\<lambda>k. drop (length ?lines - k) ?lines" "length ?lines"] join_bytes_drop
    by (simp add: r)
qed

lemma truncateTail_keeps_most_witness:
  "is_arg_max id
     (\<lambda>k. k \<le> Suc (Suc (Suc 0)) \<and> int k \<le> 2 \<and> int (length (utf8_encode (join [10] (drop (Suc (Suc (Suc 0)) - k) [[97], [98], [99]])))) \<le> 51200) (Suc (Suc 0))"
  using truncateTail_keeps_most [THEN conjunct2, THEN conjunct2, of "truncateTail [97, 10, 98, 10, 99] \<lparr>to_maxLines = Some 2, to_maxBytes = None\<rparr>"
      "[97, 10, 98, 10, 99]" "\<lparr>to_maxLines = Some 2, to_maxBytes = None\<rparr>"]
  by (simp add: truncate_eval)

text \<open>
  C35. When \<open>truncateTail\<close> cuts a line, the UTF-8 bytes of what it keeps are the end of those of the last line, within the
  byte limit and less than one character short of it.
\<close>

theorem truncateTail_partial_suffix:
  assumes "r = truncateTail content options" "tu_lastLinePartial r" "0 < tu_maxBytes r"
  shows "\<exists>pre. utf8_encode (last (splitLinesForCounting content)) = pre @ utf8_encode (tu_content r) \<and>
           int (length (utf8_encode (tu_content r))) \<in> {tu_maxBytes r - 3 .. tu_maxBytes r}"
proof -
  let ?lines = "splitLinesForCounting content"
  obtain maxLines maxBytes where lim: "limits options = (maxLines, maxBytes)" by (cases "limits options")
  from assms(1,2) lim obtain out bytes stopped where
    part: "take_back maxLines maxBytes (rev ?lines) [] 0 = (out, bytes, stopped, True)"
    and r: "tu_content r = join [10] out" "tu_maxBytes r = maxBytes"
    by (auto simp: truncateTail_def whole_def shortened_def Let_def split: prod.splits if_splits)
  from take_back_partial [OF part] obtain line others where line: "rev ?lines = line # others"
    "maxBytes < int (utf8ByteLength line)" "out = [truncateStringToBytesFromEnd line maxBytes]"
    by auto
  have "last ?lines = line" using line(1) by (metis hd_rev list.sel(1))
  with truncateStringToBytesFromEnd_suffix [of maxBytes line] line r assms(3) show ?thesis
    by (auto simp: utf8ByteLength_bytes utf8_bytes_encode)
qed

lemma truncateTail_partial_suffix_witness:
  "\<exists>pre. utf8_encode [97, 233, 0xD83D, 0xDE00] = pre @ utf8_encode [0xD83D, 0xDE00]"
  using truncateTail_partial_suffix [of "truncateTail [97, 233, 0xD83D, 0xDE00] \<lparr>to_maxLines = None, to_maxBytes = Some 5\<rparr>"
      "[97, 233, 0xD83D, 0xDE00]" "\<lparr>to_maxLines = None, to_maxBytes = Some 5\<rparr>"]
  by (simp add: truncate_eval)

text \<open>
  The text of one line and a final line break passes a limit of two bytes and no limit of lines; the result says that
  the line limit was hit.
\<close>

lemma truncatedBy_lines_at_byte_limit:
  "truncateHead [97, 98, 10] \<lparr>to_maxLines = Some 10, to_maxBytes = Some 2\<rparr> =
     Inr \<lparr>tu_content = [97, 98], tu_truncated = True, tu_truncatedBy = Some ByLines, tu_totalLines = 1, tu_totalBytes = 3,
          tu_outputLines = 1, tu_outputBytes = 2, tu_lastLinePartial = False, tu_firstLineExceedsLimit = False,
          tu_maxLines = 10, tu_maxBytes = 2\<rparr>"
  by (simp add: truncate_eval)

end
