(* ===== verification/Mini_Diff.thy ===== *)
theory Mini_Diff
  imports Text_Lines "HOL-Library.Sublist"
begin

text \<open>
  \<^verbatim>\<open>pi/packages/ai/src/utils/mini-diff.ts\<close>: differences of two texts by lines and by words, and patches in the unified format. Lines
  and words are compared as strings; the table of the longest common subsequences is filled row by row from the end.
\<close>

section \<open>Edit scripts\<close>

datatype diff_kind = OpEqual | OpDelete | OpInsert

record DiffOp =
  do_op :: diff_kind
  do_aIndex :: nat
  do_bIndex :: nat

definition diff_op :: "diff_kind \<Rightarrow> nat \<Rightarrow> nat \<Rightarrow> DiffOp" where
  "diff_op k i j = \<lparr>do_op = k, do_aIndex = i, do_bIndex = j\<rparr>"

definition MAX_DP_CELLS :: nat where "MAX_DP_CELLS = 9000000"

text \<open>One row of the table from the row below it, right to left, and all rows.\<close>

fun lcs_row :: "'a \<Rightarrow> 'a list \<Rightarrow> nat list \<Rightarrow> nat list" where
  "lcs_row x [] below = [0]"
| "lcs_row x (y # ys) below =
     (let right = lcs_row x ys (List.tl below) in
      (if x = y then below ! 1 + 1
       else if below ! 0 \<ge> right ! 0 then below ! 0 else right ! 0) # right)"

fun lcs_rows :: "'a list \<Rightarrow> 'a list \<Rightarrow> nat list list" where
  "lcs_rows [] b = [replicate (length b + 1) 0]"
| "lcs_rows (x # xs) b = (let rows = lcs_rows xs b in lcs_row x b (hd rows) # rows)"

function walk_lcs :: "'a list \<Rightarrow> 'a list \<Rightarrow> nat list list \<Rightarrow> nat \<Rightarrow> nat \<Rightarrow> DiffOp list" where
  "walk_lcs a b lcs i j =
     (if i < length a \<and> j < length b then
        if a ! i = b ! j then diff_op OpEqual i j # walk_lcs a b lcs (i + 1) (j + 1)
        else if lcs ! (i + 1) ! j \<ge> lcs ! i ! (j + 1) then diff_op OpDelete i j # walk_lcs a b lcs (i + 1) j
        else diff_op OpInsert i j # walk_lcs a b lcs i (j + 1)
      else
        map (\<lambda>i'. diff_op OpDelete i' j) [i..<length a] @ map (\<lambda>j'. diff_op OpInsert (max i (length a)) j') [j..<length b])"
  by pat_completeness auto
termination
  by (relation "measure (\<lambda>(a, b, lcs, i, j). (length a - i) + (length b - j))") auto

declare walk_lcs.simps [simp del]

definition diffMiddle :: "'a list \<Rightarrow> 'a list \<Rightarrow> DiffOp list" where
  "diffMiddle a b =
     (let n = length a; m = length b in
      if n = 0 \<and> m = 0 then []
      else if n = 0 then map (\<lambda>j. diff_op OpInsert 0 j) [0..<m]
      else if m = 0 then map (\<lambda>i. diff_op OpDelete i 0) [0..<n]
      else if n * m > MAX_DP_CELLS then
        map (\<lambda>i. diff_op OpDelete i 0) [0..<n] @ map (\<lambda>j. diff_op OpInsert n j) [0..<m]
      else walk_lcs a b (lcs_rows a b) 0 0)"

fun common_prefix :: "'a list \<Rightarrow> 'a list \<Rightarrow> nat" where
  "common_prefix (x # xs) (y # ys) = (if x = y then common_prefix xs ys + 1 else 0)"
| "common_prefix _ _ = 0"

definition js_slice :: "'a list \<Rightarrow> nat \<Rightarrow> nat \<Rightarrow> 'a list" where
  "js_slice xs i j = drop i (take j xs)"

definition diffOps :: "'a list \<Rightarrow> 'a list \<Rightarrow> DiffOp list" where
  "diffOps a b =
     (let prefix = common_prefix a b;
          suffix = common_prefix (rev (drop prefix a)) (rev (drop prefix b));
          aEnd = length a - suffix; bEnd = length b - suffix
      in map (\<lambda>i. diff_op OpEqual i i) [0..<prefix] @
         map (\<lambda>p. diff_op (do_op p) (do_aIndex p + prefix) (do_bIndex p + prefix)) (diffMiddle (js_slice a prefix aEnd) (js_slice b prefix bEnd)) @
         map (\<lambda>i. diff_op OpEqual i (bEnd + (i - aEnd))) [aEnd..<length a])"

section \<open>Changes and parts\<close>

fun split_eol :: "ustring \<Rightarrow> ustring \<Rightarrow> ustring list" where
  "split_eol line [] = (if line = [] then [] else [line])"
| "split_eol line (c # cs) = (if c = 10 then (line @ [c]) # split_eol [] cs else split_eol (line @ [c]) cs)"

definition splitLinesKeepEol :: "ustring \<Rightarrow> ustring list" where
  "splitLinesKeepEol text = split_eol [] text"

record change =
  ch_op :: diff_kind
  ch_text :: ustring

definition change_of :: "ustring list \<Rightarrow> ustring list \<Rightarrow> DiffOp \<Rightarrow> change" where
  "change_of a b p = \<lparr>ch_op = do_op p, ch_text = (if do_op p = OpInsert then b ! do_bIndex p else a ! do_aIndex p)\<rparr>"

definition diff_changes :: "ustring list \<Rightarrow> ustring list \<Rightarrow> change list" where
  "diff_changes a b = map (change_of a b) (diffOps a b)"

record DiffPart =
  dp_value :: ustring
  dp_added :: bool
  dp_removed :: bool
  dp_count :: nat

definition merge_part :: "DiffPart list \<Rightarrow> change \<Rightarrow> DiffPart list" where
  "merge_part parts entry =
     (let added = (ch_op entry = OpInsert); removed = (ch_op entry = OpDelete);
          fresh = parts @ [\<lparr>dp_value = ch_text entry, dp_added = added, dp_removed = removed, dp_count = 1\<rparr>]
      in if parts = [] then fresh
         else let previous = last parts in
           if dp_added previous = added \<and> dp_removed previous = removed
           then butlast parts @ [previous\<lparr>dp_value := dp_value previous @ ch_text entry, dp_count := dp_count previous + 1\<rparr>]
           else fresh)"

definition mergeParts :: "change list \<Rightarrow> DiffPart list" where
  "mergeParts entries = foldl merge_part [] entries"

definition diffLines :: "ustring \<Rightarrow> ustring \<Rightarrow> DiffPart list" where
  "diffLines oldStr newStr = mergeParts (diff_changes (splitLinesKeepEol oldStr) (splitLinesKeepEol newStr))"

definition is_word_unit :: "code_unit \<Rightarrow> bool" where
  "is_word_unit c \<longleftrightarrow> (48 \<le> c \<and> c \<le> 57) \<or> (65 \<le> c \<and> c \<le> 90) \<or> (97 \<le> c \<and> c \<le> 122) \<or> c = 95"

text \<open>The characters \<open>\s\<close> stands for, which are those that \<open>trim\<close> removes.\<close>

definition is_space_unit :: "code_unit \<Rightarrow> bool" where
  "is_space_unit c \<longleftrightarrow> (9 \<le> c \<and> c \<le> 13) \<or> c = 0x20 \<or> c = 0xa0 \<or> c = 0x1680 \<or> (0x2000 \<le> c \<and> c \<le> 0x200a) \<or>
     c = 0x2028 \<or> c = 0x2029 \<or> c = 0x202f \<or> c = 0x205f \<or> c = 0x3000 \<or> c = 0xfeff"

definition next_token :: "ustring \<Rightarrow> ustring" where
  "next_token remaining =
     (let word = takeWhile is_word_unit remaining; space = takeWhile is_space_unit remaining in
      if word \<noteq> [] then word else if space \<noteq> [] then space else take 1 remaining)"

function tokenizeWords :: "ustring \<Rightarrow> ustring list" where
  "tokenizeWords text =
     (if text = [] then [] else next_token text # tokenizeWords (drop (length (next_token text)) text))"
  by pat_completeness auto
termination
  by (relation "measure length") (auto simp: next_token_def Let_def)

declare tokenizeWords.simps [simp del]

definition diffWords :: "ustring \<Rightarrow> ustring \<Rightarrow> DiffPart list" where
  "diffWords oldStr newStr = mergeParts (diff_changes (tokenizeWords oldStr) (tokenizeWords newStr))"

section \<open>Patches\<close>

record PatchHeaderOptions =
  ho_includeIndex :: "bool option"
  ho_includeUnderline :: "bool option"
  ho_includeFileHeaders :: "bool option"

record TwoFilesPatchOptions =
  po_context :: "nat option"
  po_headerOptions :: "PatchHeaderOptions option"

definition FILE_HEADERS_ONLY :: PatchHeaderOptions where
  "FILE_HEADERS_ONLY = \<lparr>ho_includeIndex = Some False, ho_includeUnderline = Some False, ho_includeFileHeaders = Some True\<rparr>"

definition hunkHeader :: "nat \<Rightarrow> nat \<Rightarrow> nat \<Rightarrow> nat \<Rightarrow> ustring" where
  "hunkHeader aStart aCount bStart bCount =
     js_lit ''@@ -'' @ nat_text aStart @ js_lit '','' @ nat_text aCount @ js_lit '' +'' @ nat_text bStart @ js_lit '','' @ nat_text bCount @ js_lit '' @@''"

record hunk =
  hk_aStart :: nat
  hk_aCount :: nat
  hk_bStart :: nat
  hk_bCount :: nat
  hk_changes :: "change list"

definition skip_changes :: "(change \<Rightarrow> bool) \<Rightarrow> change list \<Rightarrow> nat \<Rightarrow> nat" where
  "skip_changes P changes index = index + length (takeWhile P (drop index changes))"

abbreviation unchanged :: "change \<Rightarrow> bool" where
  "unchanged c \<equiv> ch_op c = OpEqual"

lemma skip_change: "skip_changes unchanged changes index < length changes \<Longrightarrow>
    skip_changes unchanged changes index < skip_changes (\<lambda>c. \<not> unchanged c) changes (skip_changes unchanged changes index)"
proof -
  assume "skip_changes unchanged changes index < length changes"
  then have "length (takeWhile unchanged (drop index changes)) < length (drop index changes)" by (simp add: skip_changes_def)
  from nth_length_takeWhile [OF this] \<open>skip_changes unchanged changes index < length changes\<close>
  have "\<not> unchanged (changes ! skip_changes unchanged changes index)" by (simp add: skip_changes_def)
  then show ?thesis using \<open>skip_changes unchanged changes index < length changes\<close>
    by (simp add: skip_changes_def [of "\<lambda>c. \<not> unchanged c"] Cons_nth_drop_Suc [symmetric])
qed

text \<open>The bounds of the hunks, from \<open>index\<close> on.\<close>

function hunk_bounds :: "nat \<Rightarrow> change list \<Rightarrow> nat \<Rightarrow> (nat \<times> nat) list" where
  "hunk_bounds context changes index =
     (let changeStart = skip_changes unchanged changes index in
      if changeStart \<ge> length changes then []
      else
        let changeEnd = skip_changes (\<lambda>c. \<not> unchanged c) changes changeStart;
            equalEnd = skip_changes unchanged changes changeEnd;
            equalBefore = min changeStart context;
            equalAfter = min (equalEnd - changeEnd) context
        in (changeStart - equalBefore, changeEnd + equalAfter) # hunk_bounds context changes (changeEnd + equalAfter))"
  by pat_completeness auto
termination
proof (relation "measure (\<lambda>(c, changes, index). length changes - index)", simp, goal_cases)
  case (1 ctx changes index)
  then show ?case using skip_change [of changes index] by (auto simp: skip_changes_def [of unchanged changes index])
qed

declare hunk_bounds.simps [simp del]

definition old_count :: "change list \<Rightarrow> nat" where
  "old_count cs = length (filter (\<lambda>c. ch_op c \<noteq> OpInsert) cs)"

definition new_count :: "change list \<Rightarrow> nat" where
  "new_count cs = length (filter (\<lambda>c. ch_op c \<noteq> OpDelete) cs)"

definition hunk_at :: "change list \<Rightarrow> nat \<times> nat \<Rightarrow> hunk" where
  "hunk_at changes se =
     (let (hunkStart, hunkEnd) = se; body = js_slice changes hunkStart hunkEnd;
          aCount = old_count body; bCount = new_count body;
          aBefore = old_count (take hunkStart changes); bBefore = new_count (take hunkStart changes)
      in \<lparr>hk_aStart = (if aCount = 0 then aBefore else aBefore + 1), hk_aCount = aCount,
          hk_bStart = (if bCount = 0 then bBefore else bBefore + 1), hk_bCount = bCount, hk_changes = body\<rparr>)"

definition change_lines :: "change \<Rightarrow> ustring list" where
  "change_lines c =
     (let prefix = (case ch_op c of OpEqual \<Rightarrow> '' '' | OpDelete \<Rightarrow> ''-'' | OpInsert \<Rightarrow> ''+''); body = js_lit prefix @ ch_text c in
      if body \<noteq> [] \<and> last body = 10 then [butlast body] else [body, js_lit [CHR 0x5c] @ js_lit '' No newline at end of file''])"

definition hunk_lines :: "hunk \<Rightarrow> ustring list" where
  "hunk_lines h =
     hunkHeader (hk_aStart h) (hk_aCount h) (hk_bStart h) (hk_bCount h) # concat (map change_lines (hk_changes h))"

definition patch_hunks :: "nat \<Rightarrow> ustring \<Rightarrow> ustring \<Rightarrow> hunk list" where
  "patch_hunks context oldStr newStr =
     (let changes = diff_changes (splitLinesKeepEol oldStr) (splitLinesKeepEol newStr) in
      map (hunk_at changes) (hunk_bounds context changes 0))"

definition file_header :: "string \<Rightarrow> ustring \<Rightarrow> ustring option \<Rightarrow> ustring" where
  "file_header mark name header =
     js_lit mark @ name @ (case header of None \<Rightarrow> [] | Some h \<Rightarrow> if h = [] then [] else 9 # h)"

definition createTwoFilesPatch ::
  "ustring \<Rightarrow> ustring \<Rightarrow> ustring \<Rightarrow> ustring \<Rightarrow> ustring option \<Rightarrow> ustring option \<Rightarrow> TwoFilesPatchOptions option \<Rightarrow> ustring" where
  "createTwoFilesPatch oldFileName newFileName oldStr newStr oldHeader newHeader options =
     (let headerOptions = (case Option.bind options po_headerOptions of Some h \<Rightarrow> h | None \<Rightarrow> FILE_HEADERS_ONLY);
          context = (case Option.bind options po_context of Some c \<Rightarrow> c | None \<Rightarrow> 4);
          lines =
            (if ho_includeFileHeaders headerOptions \<noteq> Some False
             then [file_header ''--- '' oldFileName oldHeader, file_header ''+++ '' newFileName newHeader] else []) @
            (if ho_includeUnderline headerOptions = Some True then [js_lit ''====''] else []) @
            concat (map hunk_lines (patch_hunks context oldStr newStr))
      in concat (map (\<lambda>line. line @ [10]) lines))"


section \<open>Scripts walk both sequences\<close>

fun walk_to :: "'a list \<Rightarrow> 'a list \<Rightarrow> nat \<Rightarrow> nat \<Rightarrow> DiffOp list \<Rightarrow> nat \<Rightarrow> nat \<Rightarrow> bool" where
  "walk_to a b i j [] i' j' \<longleftrightarrow> i = i' \<and> j = j'"
| "walk_to a b i j (p # ps) i' j' \<longleftrightarrow>
     (case do_op p of
        OpEqual \<Rightarrow> do_aIndex p = i \<and> do_bIndex p = j \<and> i < length a \<and> j < length b \<and> a ! i = b ! j \<and> walk_to a b (i + 1) (j + 1) ps i' j'
      | OpDelete \<Rightarrow> do_aIndex p = i \<and> i < length a \<and> walk_to a b (i + 1) j ps i' j'
      | OpInsert \<Rightarrow> do_bIndex p = j \<and> j < length b \<and> walk_to a b i (j + 1) ps i' j')"

lemma diff_op_simps [simp]: "do_op (diff_op k i j) = k" "do_aIndex (diff_op k i j) = i" "do_bIndex (diff_op k i j) = j"
  by (simp_all add: diff_op_def)

lemma walk_to_append: "walk_to a b i j ps k l \<Longrightarrow> walk_to a b k l qs i' j' \<Longrightarrow> walk_to a b i j (ps @ qs) i' j'"
  by (induction ps arbitrary: i j) (auto split: diff_kind.splits)

lemma walk_deletes: "i \<le> i' \<Longrightarrow> i' \<le> length a \<Longrightarrow> walk_to a b i j (map (\<lambda>x. diff_op OpDelete x (f x)) [i..<i']) i' j"
  by (induction "i' - i" arbitrary: i) (auto simp: upt_rec)

lemma walk_inserts: "j \<le> j' \<Longrightarrow> j' \<le> length b \<Longrightarrow> walk_to a b i j (map (\<lambda>y. diff_op OpInsert (f y) y) [j..<j']) i j'"
  by (induction "j' - j" arbitrary: j) (auto simp: upt_rec)

lemma walk_equals:
  "(\<And>k. k < n \<Longrightarrow> i + k < length a \<and> j + k < length b \<and> a ! (i + k) = b ! (j + k)) \<Longrightarrow>
     walk_to a b i j (map (\<lambda>k. diff_op OpEqual (i + k) (j + k)) [0..<n]) (i + n) (j + n)"
proof (induction n)
  case (Suc n)
  have "walk_to a b i j (map (\<lambda>k. diff_op OpEqual (i + k) (j + k)) [0..<n] @ [diff_op OpEqual (i + n) (j + n)]) (i + Suc n) (j + Suc n)"
    using Suc.prems [of n] by (intro walk_to_append [OF Suc.IH]) (use Suc.prems in auto)
  then show ?case by simp
qed simp

lemma walk_lcs_walks: "i \<le> length a \<Longrightarrow> j \<le> length b \<Longrightarrow> walk_to a b i j (walk_lcs a b lcs i j) (length a) (length b)"
proof (induction a b lcs i j rule: walk_lcs.induct)
  case (1 a b lcs i j)
  show ?case
  proof (cases "i < length a \<and> j < length b")
    case True
    with 1 show ?thesis by (subst walk_lcs.simps) auto
  next
    case False
    then show ?thesis using 1
      by (subst walk_lcs.simps) (auto intro!: walk_to_append [OF walk_deletes walk_inserts])
  qed
qed

lemma diffMiddle_walks: "walk_to a b 0 0 (diffMiddle a b) (length a) (length b)"
  unfolding diffMiddle_def Let_def
  using walk_lcs_walks [of 0 a 0 b "lcs_rows a b"] walk_deletes [of 0 "length a" a b 0] walk_inserts [of 0 "length b" b a]
  by (auto intro!: walk_to_append [OF walk_deletes walk_inserts])

lemma common_prefix_nth: "i < common_prefix a b \<Longrightarrow> i < length a \<and> i < length b \<and> a ! i = b ! i"
proof (induction a b arbitrary: i rule: common_prefix.induct)
  case (1 x xs y ys)
  then show ?case by (cases i) (auto split: if_splits)
qed auto

lemma common_prefix_le: "common_prefix a b \<le> length a" "common_prefix a b \<le> length b"
  by (induction a b rule: common_prefix.induct) auto

lemma common_prefix_take: "take (common_prefix a b) a = take (common_prefix a b) b"
  by (induction a b rule: common_prefix.induct) auto

lemma js_slice_nth: "k < length (js_slice xs i j) \<Longrightarrow> js_slice xs i j ! k = xs ! (k + i) \<and> k + i < length xs"
  using nth_drop [of i "take j xs" k] by (auto simp: js_slice_def add.commute min_def split: if_splits)

lemma length_js_slice [simp]: "length (js_slice xs i j) = min (length xs) j - i"
  by (simp add: js_slice_def)

lemma walk_shift:
  assumes "walk_to (js_slice a p q) (js_slice b p r) i j ps i' j'"
  shows "walk_to a b (i + p) (j + p) (map (\<lambda>x. diff_op (do_op x) (do_aIndex x + p) (do_bIndex x + p)) ps) (i' + p) (j' + p)"
  using assms
proof (induction ps arbitrary: i j)
  case (Cons e ps)
  then show ?case
    using js_slice_nth [of i a p q] js_slice_nth [of j b p r]
      Cons.IH [of "Suc i" "Suc j"] Cons.IH [of "Suc i" j] Cons.IH [of i "Suc j"]
    by (cases "do_op e") (auto simp del: length_js_slice)
qed simp

text \<open>Both sequences are a common prefix, a middle and a common suffix.\<close>

lemma trim_split:
  fixes a b :: "'a list"
  defines "p \<equiv> common_prefix a b"
  defines "s \<equiv> common_prefix (rev (drop p a)) (rev (drop p b))"
  obtains x m n y where "a = x @ m @ y" "b = x @ n @ y" "p = length x" "s = length y"
    "js_slice a p (length a - s) = m" "js_slice b p (length b - s) = n"
proof -
  have p: "p \<le> length a" "p \<le> length b" "take p a = take p b" unfolding p_def by (rule common_prefix_le common_prefix_take)+
  have s: "s \<le> length (drop p a)" "s \<le> length (drop p b)" "take s (rev (drop p a)) = take s (rev (drop p b))"
    using common_prefix_le [of "rev (drop p a)" "rev (drop p b)"] common_prefix_take [of "rev (drop p a)" "rev (drop p b)"]
    by (simp_all add: s_def)
  let ?y = "rev (take s (rev (drop p a)))"
  have suffix: "drop p c = take (length c - s - p) (drop p c) @ rev (take s (rev (drop p c)))" for c
    using append_take_drop_id [of "length c - s - p" "drop p c"] by (simp add: take_rev add.commute)
  have js_slice: "js_slice c p (length c - s) = take (length c - s - p) (drop p c)" for c by (simp add: js_slice_def drop_take)
  show thesis
  proof (rule that [of "take p a" "js_slice a p (length a - s)" ?y "js_slice b p (length b - s)"])
    show "a = take p a @ js_slice a p (length a - s) @ ?y" using suffix [of a] js_slice [of a] by (metis append_take_drop_id)
    show "b = take p a @ js_slice b p (length b - s) @ ?y" using suffix [of b] js_slice [of b] p(3) s(3) by (metis append_take_drop_id)
  qed (use p s in auto)
qed

lemma diffOps_walks: "walk_to a b 0 0 (diffOps a b) (length a) (length b)"
proof -
  define p where "p = common_prefix a b"
  define s where "s = common_prefix (rev (drop p a)) (rev (drop p b))"
  obtain x m n y where split: "a = x @ m @ y" "b = x @ n @ y" "p = length x" "s = length y"
    "js_slice a p (length a - s) = m" "js_slice b p (length b - s) = n"
    using trim_split [of a b] unfolding p_def s_def by metis
  have middle: "walk_to a b p p (map (\<lambda>q. diff_op (do_op q) (do_aIndex q + p) (do_bIndex q + p)) (diffMiddle m n)) (length m + p) (length n + p)"
    using walk_shift [of a p "length a - s" b "length b - s" 0 0] diffMiddle_walks [of m n] split(5,6) by simp
  have prefix: "walk_to a b 0 0 (map (\<lambda>i. diff_op OpEqual i i) [0..<p]) p p"
    using walk_equals [of p 0 a 0 b] split(1-3) by (simp add: nth_append)
  have ends: "length a - s = length m + p" "length b - s = length n + p" using split(1-4) by simp_all
  have "map (\<lambda>i. diff_op OpEqual i (length n + p + (i - (length m + p)))) [length m + p..<length a]
      = map (\<lambda>k. diff_op OpEqual (length m + p + k) (length n + p + k)) [0..<length y]"
    using split(1,3) by (intro nth_equalityI) auto
  moreover have "walk_to a b (length m + p) (length n + p)
      (map (\<lambda>k. diff_op OpEqual (length m + p + k) (length n + p + k)) [0..<length y]) (length m + p + length y) (length n + p + length y)"
  proof (rule walk_equals)
    fix k assume "k < length y"
    then show "length m + p + k < length a \<and> length n + p + k < length b \<and> a ! (length m + p + k) = b ! (length n + p + k)"
      using nth_append_length_plus [of "x @ m" y k] nth_append_length_plus [of "x @ n" y k] split(1-3) by (simp add: add.commute)
  qed
  ultimately have suffix: "walk_to a b (length m + p) (length n + p)
      (map (\<lambda>i. diff_op OpEqual i (length n + p + (i - (length m + p)))) [length m + p..<length a]) (length a) (length b)"
    using split(1-3) by (simp add: add.commute add.left_commute)
  show ?thesis
    unfolding diffOps_def Let_def p_def [symmetric] s_def [symmetric] split(5,6)
    unfolding ends
    by (rule walk_to_append [OF prefix walk_to_append [OF middle suffix]])
qed


section \<open>What a script keeps\<close>

definition old_texts :: "change list \<Rightarrow> ustring list" where
  "old_texts cs = map ch_text (filter (\<lambda>c. ch_op c \<noteq> OpInsert) cs)"

definition new_texts :: "change list \<Rightarrow> ustring list" where
  "new_texts cs = map ch_text (filter (\<lambda>c. ch_op c \<noteq> OpDelete) cs)"

lemma texts_simps [simp]:
  "old_texts [] = []" "new_texts [] = []"
  "old_texts (c # cs) = (if ch_op c = OpInsert then [] else [ch_text c]) @ old_texts cs"
  "new_texts (c # cs) = (if ch_op c = OpDelete then [] else [ch_text c]) @ new_texts cs"
  "old_texts (cs @ ds) = old_texts cs @ old_texts ds" "new_texts (cs @ ds) = new_texts cs @ new_texts ds"
  by (auto simp: old_texts_def new_texts_def)

lemma walk_texts:
  "walk_to a b i j ps (length a) (length b) \<Longrightarrow> i \<le> length a \<Longrightarrow> j \<le> length b \<Longrightarrow>
     old_texts (map (change_of a b) ps) = drop i a \<and> new_texts (map (change_of a b) ps) = drop j b"
proof (induction ps arbitrary: i j)
  case (Cons p ps)
  show ?case
  proof (cases "do_op p")
    case OpEqual
    with Cons.prems Cons.IH [of "Suc i" "Suc j"] show ?thesis
      by (simp add: change_of_def Cons_nth_drop_Suc [of i a, symmetric] Cons_nth_drop_Suc [of j b, symmetric])
  next
    case OpDelete
    with Cons.prems Cons.IH [of "Suc i" j] show ?thesis by (simp add: change_of_def Cons_nth_drop_Suc [of i a, symmetric])
  next
    case OpInsert
    with Cons.prems Cons.IH [of i "Suc j"] show ?thesis by (simp add: change_of_def Cons_nth_drop_Suc [of j b, symmetric])
  qed
qed simp

lemma diff_changes_texts: "old_texts (diff_changes a b) = a" "new_texts (diff_changes a b) = b"
  using walk_texts [OF diffOps_walks, of a b] by (simp_all add: diff_changes_def)

section \<open>The script is shortest\<close>

definition equals :: "DiffOp list \<Rightarrow> nat" where
  "equals ps = length (filter (\<lambda>p. do_op p = OpEqual) ps)"

lemma equals_simps [simp]:
  "equals [] = 0" "equals (p # ps) = (if do_op p = OpEqual then 1 else 0) + equals ps" "equals (ps @ qs) = equals ps + equals qs"
  by (simp_all add: equals_def)

lemma equals_map: "(\<And>x. x \<in> set xs \<Longrightarrow> do_op (f x) = OpEqual) \<Longrightarrow> equals (map f xs) = length xs"
  "(\<And>x. do_op (g x) = do_op x) \<Longrightarrow> equals (map g ps) = equals ps"
  by (simp_all add: equals_def filter_map comp_def)

fun lcs_len :: "'a list \<Rightarrow> 'a list \<Rightarrow> nat" where
  "lcs_len (x # xs) (y # ys) = (if x = y then lcs_len xs ys + 1 else max (lcs_len xs (y # ys)) (lcs_len (x # xs) ys))"
| "lcs_len _ _ = 0"

lemma lcs_len_Nil [simp]: "lcs_len xs [] = 0" "lcs_len [] ys = 0"
  by (cases xs; simp) (cases ys; simp)

lemma lcs_row_spec:
  assumes "\<And>j. j \<le> length ys \<Longrightarrow> below ! j = lcs_len xs (drop j ys)" "length below = length ys + 1"
  shows "length (lcs_row x ys below) = length ys + 1 \<and> (\<forall>j \<le> length ys. lcs_row x ys below ! j = lcs_len (x # xs) (drop j ys))"
  using assms
proof (induction x ys below rule: lcs_row.induct)
  case (2 x y ys below)
  obtain z zs where below: "below = z # zs" using "2.prems"(2) by (cases below) auto
  have zs: "length zs = length ys + 1" "\<And>j. j \<le> length ys \<Longrightarrow> zs ! j = lcs_len xs (drop j ys)" "z = lcs_len xs (y # ys)"
    using "2.prems"(2) "2.prems"(1) [of "Suc _"] "2.prems"(1) [of 0] by (simp_all add: below)
  have "length (lcs_row x ys zs) = length ys + 1" "\<And>j. j \<le> length ys \<Longrightarrow> lcs_row x ys zs ! j = lcs_len (x # xs) (drop j ys)"
    using "2.IH" zs by (simp_all add: below)
  with zs show ?case by (auto simp: below Let_def nth_Cons max_def split: nat.splits)
qed simp

lemma lcs_rows_spec:
  "length (lcs_rows a b) = length a + 1 \<and> (\<forall>i \<le> length a. length (lcs_rows a b ! i) = length b + 1 \<and>
     (\<forall>j \<le> length b. lcs_rows a b ! i ! j = lcs_len (drop i a) (drop j b)))"
proof (induction a)
  case (Cons x a)
  have hd: "hd (lcs_rows a b) = lcs_rows a b ! 0" using Cons by (intro hd_conv_nth) auto
  have "length (lcs_row x b (lcs_rows a b ! 0)) = length b + 1 \<and>
      (\<forall>j \<le> length b. lcs_row x b (lcs_rows a b ! 0) ! j = lcs_len (x # a) (drop j b))"
    using Cons by (intro lcs_row_spec) auto
  with Cons show ?case by (auto simp: Let_def hd nth_Cons split: nat.splits)
qed (auto simp: nth_Cons split: nat.splits)

lemma walk_lcs_equals:
  "i \<le> length a \<Longrightarrow> j \<le> length b \<Longrightarrow> equals (walk_lcs a b (lcs_rows a b) i j) = lcs_len (drop i a) (drop j b)"
proof (induction a b "lcs_rows a b" i j rule: walk_lcs.induct)
  case (1 a b i j)
  show ?case
  proof (cases "i < length a \<and> j < length b")
    case True
    then have "drop i a = a ! i # drop (Suc i) a" "drop j b = b ! j # drop (Suc j) b" by (simp_all add: Cons_nth_drop_Suc)
    moreover have "lcs_rows a b ! (i + 1) ! j = lcs_len (drop (Suc i) a) (drop j b)" "lcs_rows a b ! i ! (j + 1) = lcs_len (drop i a) (drop (Suc j) b)"
      using lcs_rows_spec [of a b] True by auto
    ultimately show ?thesis using 1 True by (subst walk_lcs.simps) auto
  next
    case False
    then have "lcs_len (drop i a) (drop j b) = 0" by auto
    with False show ?thesis by (subst walk_lcs.simps) (auto simp: equals_def)
  qed
qed

definition common_bound :: "'a list \<Rightarrow> 'a list \<Rightarrow> nat \<Rightarrow> bool" where
  "common_bound a b n \<longleftrightarrow> (\<forall>zs. subseq zs a \<longrightarrow> subseq zs b \<longrightarrow> length zs \<le> n)"

lemma subseq_tl: "subseq zs (x # c) \<Longrightarrow> subseq (List.tl zs) c"
  by (cases zs) (auto split: if_splits dest: subseq_Cons')

lemma subseq_butlast: "subseq zs (c @ [x]) \<Longrightarrow> subseq (butlast zs) c"
proof -
  assume "subseq zs (c @ [x])"
  then obtain u v where zs: "zs = u @ v" "subseq u c" "subseq v [x]" by (auto simp: subseq_append_iff)
  from zs(3) have "length v \<le> 1" by (auto dest: list_emb_length)
  moreover have "subseq (butlast u) u" using subseq_rev_drop_many [of "butlast u" "butlast u" "[last u]"] by (cases "u = []") simp_all
  with zs(2) have "subseq (butlast u) c" by (blast intro: subseq_order.trans)
  ultimately show ?thesis using zs(1,2) by (cases v rule: rev_cases) (auto simp: butlast_append)
qed

lemma lcs_len_bound: "subseq zs a \<Longrightarrow> subseq zs b \<Longrightarrow> length zs \<le> lcs_len a b"
proof (induction a b arbitrary: zs rule: lcs_len.induct)
  case (1 x xs y ys)
  show ?case
  proof (cases "x = y")
    case True
    then have "length (List.tl zs) \<le> lcs_len xs ys" using 1 by (blast intro: subseq_tl)
    with True show ?thesis by simp
  next
    case False
    show ?thesis
    proof (cases zs)
      case (Cons z zs')
      consider "z \<noteq> x" | "z \<noteq> y" using False by blast
      then have "length zs \<le> lcs_len xs (y # ys) \<or> length zs \<le> lcs_len (x # xs) ys"
      proof cases
        case 1
        then have "subseq zs xs" using "1.prems"(1) subseq_Cons2_neq [of z zs' x xs] by (simp add: Cons)
        then show ?thesis using "1.IH"(2) [OF False] "1.prems"(2) by blast
      next
        case 2
        then have "subseq zs ys" using "1.prems"(2) subseq_Cons2_neq [of z zs' y ys] by (simp add: Cons)
        then show ?thesis using "1.IH"(3) [OF False] "1.prems"(1) by blast
      qed
      with False show ?thesis by auto
    qed simp
  qed
qed (auto dest: list_emb_length)

lemma common_bound_cons: "common_bound a b n \<Longrightarrow> common_bound (x # a) (x # b) (n + 1)"
  unfolding common_bound_def
proof (intro allI impI)
  fix zs assume n: "\<forall>zs. subseq zs a \<longrightarrow> subseq zs b \<longrightarrow> length zs \<le> n" and zs: "subseq zs (x # a)" "subseq zs (x # b)"
  from n [rule_format, OF subseq_tl [OF zs(1)] subseq_tl [OF zs(2)]] show "length zs \<le> n + 1" by simp
qed

lemma common_bound_snoc: "common_bound a b n \<Longrightarrow> common_bound (a @ [x]) (b @ [x]) (n + 1)"
  unfolding common_bound_def
proof (intro allI impI)
  fix zs assume n: "\<forall>zs. subseq zs a \<longrightarrow> subseq zs b \<longrightarrow> length zs \<le> n" and zs: "subseq zs (a @ [x])" "subseq zs (b @ [x])"
  from n [rule_format, OF subseq_butlast [OF zs(1)] subseq_butlast [OF zs(2)]] show "length zs \<le> n + 1" by simp
qed

lemma common_bound_trim: "common_bound m n k \<Longrightarrow> common_bound (x @ m @ y) (x @ n @ y) (length x + k + length y)"
proof -
  assume "common_bound m n k"
  then have "common_bound (m @ y) (n @ y) (k + length y)"
  proof (induction y rule: rev_induct)
    case (snoc u y)
    then show ?case using common_bound_snoc [of "m @ y" "n @ y" "k + length y" u] by simp
  qed simp
  then show ?thesis
  proof (induction x)
    case (Cons u x)
    then show ?case using common_bound_cons [of "x @ m @ y" "x @ n @ y" "length x + k + length y" u] by (simp add: add.assoc)
  qed simp
qed

lemma diffMiddle_equals: "length a * length b \<le> MAX_DP_CELLS \<Longrightarrow> equals (diffMiddle a b) = lcs_len a b"
  using walk_lcs_equals [of 0 a 0 b] by (auto simp: diffMiddle_def Let_def equals_def)

lemma diffOps_optimal:
  assumes "length a * length b \<le> MAX_DP_CELLS"
  shows "common_bound a b (equals (diffOps a b))"
proof -
  define p where "p = common_prefix a b"
  define s where "s = common_prefix (rev (drop p a)) (rev (drop p b))"
  obtain x m n y where split: "a = x @ m @ y" "b = x @ n @ y" "p = length x" "s = length y"
    "js_slice a p (length a - s) = m" "js_slice b p (length b - s) = n"
    using trim_split [of a b] unfolding p_def s_def by metis
  have "length m * length n \<le> length a * length b" using split(1,2) by (intro mult_le_mono) simp_all
  then have "common_bound m n (equals (diffMiddle m n))"
    using assms by (simp add: diffMiddle_equals common_bound_def lcs_len_bound)
  then have "common_bound a b (length x + equals (diffMiddle m n) + length y)" unfolding split(1,2) by (rule common_bound_trim)
  moreover have "equals (diffOps a b) = length x + equals (diffMiddle m n) + length y"
    unfolding diffOps_def Let_def p_def [symmetric] s_def [symmetric] split(5,6)
    using split(1,3,4) by (simp add: equals_map)
  ultimately show ?thesis by simp
qed


section \<open>Lines and words\<close>

lemma concat_split_eol: "concat (split_eol line cs) = line @ cs"
  by (induction line cs rule: split_eol.induct) auto

lemma concat_splitLinesKeepEol [simp]: "concat (splitLinesKeepEol text) = text"
  by (simp add: splitLinesKeepEol_def concat_split_eol)

lemma next_token_prefix: "t = next_token t @ drop (length (next_token t)) t"
proof -
  have "t = takeWhile P t @ drop (length (takeWhile P t)) t" for P
    using takeWhile_dropWhile_id [of P t] by (simp add: dropWhile_eq_drop)
  moreover have "t = take 1 t @ drop (length (take 1 t)) t" by (cases t) simp_all
  ultimately show ?thesis unfolding next_token_def Let_def by (simp split: if_splits)
qed

lemma concat_tokenizeWords [simp]: "concat (tokenizeWords t) = t"
proof (induction t rule: tokenizeWords.induct)
  case (1 t)
  then show ?case using next_token_prefix [of t] by (subst tokenizeWords.simps) auto
qed

section \<open>Parts\<close>

definition part_texts :: "(DiffPart \<Rightarrow> bool) \<Rightarrow> DiffPart list \<Rightarrow> ustring" where
  "part_texts P parts = concat (map dp_value (filter P parts))"

definition part_count :: "(DiffPart \<Rightarrow> bool) \<Rightarrow> DiffPart list \<Rightarrow> nat" where
  "part_count P parts = sum_list (map dp_count (filter P parts))"

lemma merge_part_selected:
  assumes P: "\<And>p. P p = Q (dp_added p) (dp_removed p)"
  shows "part_texts P (merge_part parts e) = part_texts P parts @ (if Q (ch_op e = OpInsert) (ch_op e = OpDelete) then ch_text e else [])"
    and "part_count P (merge_part parts e) = part_count P parts + (if Q (ch_op e = OpInsert) (ch_op e = OpDelete) then 1 else 0)"
  unfolding part_texts_def part_count_def
  by (cases parts rule: rev_cases; simp add: merge_part_def Let_def P)+

lemma mergeParts_selected:
  assumes P: "\<And>p. P p = Q (dp_added p) (dp_removed p)"
  defines "sel \<equiv> filter (\<lambda>e. Q (ch_op e = OpInsert) (ch_op e = OpDelete))"
  shows "part_texts P (mergeParts es) = concat (map ch_text (sel es)) \<and> part_count P (mergeParts es) = length (sel es)"
proof -
  have "part_texts P (foldl merge_part parts es) = part_texts P parts @ concat (map ch_text (sel es)) \<and>
      part_count P (foldl merge_part parts es) = part_count P parts + length (sel es)" for parts
    by (induction es arbitrary: parts) (simp_all add: sel_def merge_part_selected [of P Q, OF P])
  from this [of "[]"] show ?thesis by (simp add: mergeParts_def part_texts_def part_count_def)
qed

lemma mergeParts_texts:
  "part_texts (\<lambda>p. \<not> dp_added p) (mergeParts es) = concat (old_texts es)"
  "part_texts (\<lambda>p. \<not> dp_removed p) (mergeParts es) = concat (new_texts es)"
  "part_count (\<lambda>p. \<not> dp_added p \<and> \<not> dp_removed p) (mergeParts es) = length (filter unchanged es)"
proof -
  have kinds: "(ch_op e \<noteq> OpInsert \<and> ch_op e \<noteq> OpDelete) = unchanged e" for e by (cases "ch_op e") simp_all
  show "part_texts (\<lambda>p. \<not> dp_added p) (mergeParts es) = concat (old_texts es)"
    using mergeParts_selected [of "\<lambda>p. \<not> dp_added p" "\<lambda>added removed. \<not> added"] by (simp add: old_texts_def)
  show "part_texts (\<lambda>p. \<not> dp_removed p) (mergeParts es) = concat (new_texts es)"
    using mergeParts_selected [of "\<lambda>p. \<not> dp_removed p" "\<lambda>added removed. \<not> removed"] by (simp add: new_texts_def)
  show "part_count (\<lambda>p. \<not> dp_added p \<and> \<not> dp_removed p) (mergeParts es) = length (filter unchanged es)"
    using mergeParts_selected [of "\<lambda>p. \<not> dp_added p \<and> \<not> dp_removed p" "\<lambda>added removed. \<not> added \<and> \<not> removed"] by (simp add: kinds)
qed

definition alternating :: "DiffPart list \<Rightarrow> bool" where
  "alternating parts \<longleftrightarrow> successively (\<lambda>p q. dp_added p \<noteq> dp_added q \<or> dp_removed p \<noteq> dp_removed q) parts"

lemma merge_part_alternating: "alternating parts \<Longrightarrow> alternating (merge_part parts e)"
  by (cases parts rule: rev_cases) (auto simp: alternating_def merge_part_def Let_def successively_append_iff)

lemma mergeParts_alternating: "alternating (mergeParts es)"
proof -
  have "alternating parts \<Longrightarrow> alternating (foldl merge_part parts es)" for parts
    by (induction es arbitrary: parts) (auto intro: merge_part_alternating)
  then show ?thesis by (simp add: mergeParts_def alternating_def)
qed

lemma unchanged_equals: "length (filter unchanged (diff_changes a b)) = equals (diffOps a b)"
  by (simp add: diff_changes_def equals_def filter_map comp_def change_of_def)

text \<open>
  C36. The parts of \<open>diffLines\<close> that are not added make up the old text, those that are not removed the new text, neighbouring
  parts differ in kind, and (unless the table would pass its limit) no sequence of lines common to both texts is longer
  than the lines of the unchanged parts.
\<close>

theorem diffLines_shortest:
  assumes "length (splitLinesKeepEol oldStr) * length (splitLinesKeepEol newStr) \<le> MAX_DP_CELLS"
  shows "part_texts (\<lambda>p. \<not> dp_added p) (diffLines oldStr newStr) = oldStr \<and>
    part_texts (\<lambda>p. \<not> dp_removed p) (diffLines oldStr newStr) = newStr \<and>
    alternating (diffLines oldStr newStr) \<and>
    common_bound (splitLinesKeepEol oldStr) (splitLinesKeepEol newStr)
      (part_count (\<lambda>p. \<not> dp_added p \<and> \<not> dp_removed p) (diffLines oldStr newStr))"
  using diffOps_optimal [OF assms]
  by (simp add: diffLines_def mergeParts_texts mergeParts_alternating diff_changes_texts unchanged_equals)

lemma diffWords_texts:
  "part_texts (\<lambda>p. \<not> dp_added p) (diffWords oldStr newStr) = oldStr" "part_texts (\<lambda>p. \<not> dp_removed p) (diffWords oldStr newStr) = newStr"
  by (simp_all add: diffWords_def mergeParts_texts diff_changes_texts)


section \<open>Patches apply\<close>

text \<open>Applying hunks to the lines left after the first \<open>pos\<close> lines: a hunk must not start before them, and its old lines must be there.\<close>

fun apply_hunks :: "nat \<Rightarrow> hunk list \<Rightarrow> ustring list \<Rightarrow> ustring list option" where
  "apply_hunks pos [] rest = Some rest"
| "apply_hunks pos (h # hs) rest =
     (let start = (if hk_aCount h = 0 then hk_aStart h else hk_aStart h - 1); gap = start - pos; old = old_texts (hk_changes h) in
      if start < pos \<or> take (hk_aCount h) (drop gap rest) \<noteq> old \<or> length old \<noteq> hk_aCount h then None
      else map_option (\<lambda>out. take gap rest @ new_texts (hk_changes h) @ out)
        (apply_hunks (start + hk_aCount h) hs (drop (gap + hk_aCount h) rest)))"

text \<open>Bounds in order, without overlap, from \<open>pos\<close> on, that cover every change.\<close>

fun covers :: "change list \<Rightarrow> nat \<Rightarrow> (nat \<times> nat) list \<Rightarrow> bool" where
  "covers cs pos [] \<longleftrightarrow> (\<forall>c \<in> set (drop pos cs). unchanged c)"
| "covers cs pos ((s, e) # bs) \<longleftrightarrow> pos \<le> s \<and> s \<le> e \<and> e \<le> length cs \<and> (\<forall>c \<in> set (js_slice cs pos s). unchanged c) \<and> covers cs e bs"

lemma count_texts: "old_count cs = length (old_texts cs)" "new_count cs = length (new_texts cs)"
  by (simp_all add: old_count_def new_count_def old_texts_def new_texts_def)

lemma unchanged_texts: "\<forall>c \<in> set cs. unchanged c \<Longrightarrow> old_texts cs = map ch_text cs \<and> new_texts cs = map ch_text cs"
  by (induction cs) auto

lemma slice_split: "pos \<le> s \<Longrightarrow> s \<le> e \<Longrightarrow> drop pos cs = js_slice cs pos s @ js_slice cs s e @ drop e cs"
proof -
  assume "pos \<le> s" "s \<le> e"
  have split: "drop k cs = js_slice cs k l @ drop l cs" if "k \<le> l" for k l
    using append_take_drop_id [of "l - k" "drop k cs"] that by (simp add: js_slice_def drop_take)
  show ?thesis using split [OF \<open>pos \<le> s\<close>] split [OF \<open>s \<le> e\<close>] by simp
qed

lemma hunks_apply:
  "covers cs pos bs \<Longrightarrow> pos \<le> length cs \<Longrightarrow>
     apply_hunks (old_count (take pos cs)) (map (hunk_at cs) bs) (old_texts (drop pos cs)) = Some (new_texts (drop pos cs))"
proof (induction cs pos bs rule: covers.induct)
  case (1 cs pos)
  then show ?case using unchanged_texts [of "drop pos cs"] by simp
next
  case (2 cs pos s e bs)
  define gap body rest where "gap = js_slice cs pos s" and "body = js_slice cs s e" and "rest = drop e cs"
  have parts: "drop pos cs = gap @ body @ rest" unfolding gap_def body_def rest_def using "2.prems" by (intro slice_split) auto
  have "take s cs = take pos cs @ gap"
    using "2.prems"(1) append_take_drop_id [of pos "take s cs"] by (simp add: gap_def js_slice_def min_def)
  then have before: "old_count (take s cs) = old_count (take pos cs) + length (old_texts gap)" by (simp add: count_texts)
  have "take e cs = take s cs @ body"
    using "2.prems"(1) append_take_drop_id [of s "take e cs"] by (simp add: body_def js_slice_def min_def)
  then have after: "old_count (take e cs) = old_count (take s cs) + length (old_texts body)" by (simp add: count_texts)
  have "apply_hunks (old_count (take e cs)) (map (hunk_at cs) bs) (old_texts rest) = Some (new_texts rest)"
    using "2.IH" "2.prems" by (simp add: rest_def)
  moreover have "old_texts gap = new_texts gap" using unchanged_texts [of gap] "2.prems"(1) by (simp add: gap_def)
  moreover have "hk_aCount (hunk_at cs (s, e)) = length (old_texts body)" "hk_changes (hunk_at cs (s, e)) = body"
    "(if hk_aCount (hunk_at cs (s, e)) = 0 then hk_aStart (hunk_at cs (s, e)) else hk_aStart (hunk_at cs (s, e)) - 1) = old_count (take s cs)"
    by (simp_all add: hunk_at_def Let_def body_def count_texts(1) [of "js_slice cs s e"])
  ultimately show ?case unfolding parts by (simp add: Let_def before after)
qed

text \<open>Two changes are neighbours or at least \<open>2 * ctx\<close> lines apart.\<close>

definition spaced :: "nat \<Rightarrow> change list \<Rightarrow> bool" where
  "spaced ctx cs \<longleftrightarrow> (\<forall>k \<in> set [0..<length cs]. \<forall>i \<in> set [0..<k]. \<not> unchanged (cs ! i) \<longrightarrow> \<not> unchanged (cs ! k) \<longrightarrow>
     (\<forall>j \<in> set [i + 1..<k]. unchanged (cs ! j)) \<longrightarrow> k = i + 1 \<or> i + 1 + 2 * ctx \<le> k)"

lemma spacedD:
  "spaced ctx cs \<Longrightarrow> i < k \<Longrightarrow> k < length cs \<Longrightarrow> \<not> unchanged (cs ! i) \<Longrightarrow> \<not> unchanged (cs ! k) \<Longrightarrow>
     (\<And>j. i < j \<Longrightarrow> j < k \<Longrightarrow> unchanged (cs ! j)) \<Longrightarrow> k = i + 1 \<or> i + 1 + 2 * ctx \<le> k"
  unfolding spaced_def by (drule bspec [of _ _ k]; simp?; drule bspec [of _ _ i]; simp)

lemma skip_changes_spec:
  defines "k P i cs \<equiv> skip_changes P cs i"
  assumes "i \<le> length cs"
  shows "i \<le> k P i cs" "k P i cs \<le> length cs" "\<And>j. i \<le> j \<Longrightarrow> j < k P i cs \<Longrightarrow> P (cs ! j)"
    "k P i cs < length cs \<Longrightarrow> \<not> P (cs ! k P i cs)"
proof -
  have le: "length (takeWhile P (drop i cs)) \<le> length cs - i" using length_takeWhile_le [of P "drop i cs"] by simp
  then show "i \<le> k P i cs" "k P i cs \<le> length cs" using assms(2) by (auto simp: k_def skip_changes_def)
  show "P (cs ! j)" if "i \<le> j" "j < k P i cs" for j
  proof -
    have "j - i < length (takeWhile P (drop i cs))" using that by (simp add: k_def skip_changes_def)
    from nth_mem [OF this] have "P (takeWhile P (drop i cs) ! (j - i))" by (rule set_takeWhileD [THEN conjunct2])
    moreover have "takeWhile P (drop i cs) ! (j - i) = drop i cs ! (j - i)"
      using \<open>j - i < length (takeWhile P (drop i cs))\<close> by (rule takeWhile_nth)
    ultimately show ?thesis using that assms(2) by simp
  qed
  show "\<not> P (cs ! k P i cs)" if "k P i cs < length cs"
    using nth_length_takeWhile [of P "drop i cs"] that assms(2) by (simp add: k_def skip_changes_def)
qed

lemma slice_unchanged: "e \<le> length cs \<Longrightarrow> (\<And>j. s \<le> j \<Longrightarrow> j < e \<Longrightarrow> P (cs ! j)) \<Longrightarrow> \<forall>c \<in> set (js_slice cs s e). P c"
  by (auto simp: in_set_conv_nth js_slice_nth)

definition clear_ahead :: "nat \<Rightarrow> change list \<Rightarrow> nat \<Rightarrow> bool" where
  "clear_ahead ctx cs index \<longleftrightarrow> (\<forall>k. index \<le> k \<longrightarrow> k < length cs \<longrightarrow> \<not> unchanged (cs ! k) \<longrightarrow> index + ctx \<le> k)"

lemma spaced_covers:
  "spaced ctx cs \<Longrightarrow> index \<le> length cs \<Longrightarrow> index = 0 \<or> clear_ahead ctx cs index \<Longrightarrow> covers cs index (hunk_bounds ctx cs index)"
proof (induction ctx cs index rule: hunk_bounds.induct)
  case (1 ctx cs index)
  define changeStart where "changeStart = skip_changes unchanged cs index"
  define changeEnd where "changeEnd = skip_changes (\<lambda>c. \<not> unchanged c) cs changeStart"
  define equalEnd where "equalEnd = skip_changes unchanged cs changeEnd"
  note start = skip_changes_spec [OF "1.prems"(2), where P = unchanged, folded changeStart_def]
  show ?case
  proof (cases "changeStart < length cs")
    case True
    note ends = skip_changes_spec [OF start(2), where P = "\<lambda>c. \<not> unchanged c", folded changeEnd_def]
    note equals = skip_changes_spec [OF ends(2), where P = unchanged, folded equalEnd_def]
    have later: "changeStart < changeEnd" using skip_change [of cs index] True by (simp add: changeStart_def changeEnd_def)
    let ?s = "changeStart - min changeStart ctx" and ?e = "changeEnd + min (equalEnd - changeEnd) ctx"
    have bounds: "hunk_bounds ctx cs index = (?s, ?e) # hunk_bounds ctx cs ?e"
      using True by (subst hunk_bounds.simps) (simp add: Let_def changeStart_def changeEnd_def equalEnd_def)
    have "index \<le> ?s" using "1.prems"(3) start(4) start(1) True by (auto simp: clear_ahead_def)
    moreover have e: "?s \<le> ?e" "?e \<le> length cs" using later equals(1,2) by simp_all
    moreover have "\<forall>c \<in> set (js_slice cs index ?s). unchanged c" using start True by (intro slice_unchanged) auto
    moreover have "clear_ahead ctx cs ?e" unfolding clear_ahead_def
    proof (intro allI impI)
      fix k assume k: "?e \<le> k" "k < length cs" "\<not> unchanged (cs ! k)"
      then have "equalEnd \<le> k" using equals(3) [of k] by (meson le_add1 le_trans not_le)
      have "\<not> unchanged (cs ! (changeEnd - 1))" using ends(3) [of "changeEnd - 1"] later by simp
      moreover have "unchanged (cs ! j)" if "changeEnd - 1 < j" "j < equalEnd" for j using equals(3) [of j] that by simp
      moreover have "changeEnd < equalEnd"
        using ends(4) equals(4) \<open>equalEnd \<le> k\<close> k(2) equals(1) by (metis le_less_trans le_neq_implies_less)
      moreover have "\<not> unchanged (cs ! equalEnd)" using equals(4) \<open>equalEnd \<le> k\<close> k(2) by simp
      ultimately have "changeEnd + 2 * ctx \<le> equalEnd"
        using spacedD [OF "1.prems"(1), of "changeEnd - 1" equalEnd] later \<open>equalEnd \<le> k\<close> k(2) by auto
      then show "?e + ctx \<le> k" using \<open>equalEnd \<le> k\<close> by (simp add: min_def)
    qed
    moreover from this have "covers cs ?e (hunk_bounds ctx cs ?e)"
      using "1.IH" [OF changeStart_def _ changeEnd_def equalEnd_def refl refl] "1.prems"(1) True e(2) by simp
    ultimately show ?thesis unfolding bounds by simp
  next
    case False
    then have "\<forall>c \<in> set (drop index cs). unchanged c"
      using start(2,3) by (auto simp: in_set_conv_nth)
    with False show ?thesis by (subst hunk_bounds.simps) (simp add: Let_def changeStart_def)
  qed
qed

text \<open>
  C37. If the changes between two texts are neighbours or at least twice the context apart, the hunks of the patch applied
  to the old lines give the new lines.
\<close>

theorem patch_applies:
  assumes "spaced ctx (diff_changes (splitLinesKeepEol oldStr) (splitLinesKeepEol newStr))"
  shows "apply_hunks 0 (patch_hunks ctx oldStr newStr) (splitLinesKeepEol oldStr) = Some (splitLinesKeepEol newStr)"
  using hunks_apply [OF spaced_covers [OF assms, of 0]]
  by (simp add: patch_hunks_def Let_def diff_changes_texts count_texts)


definition lines_text :: "string list \<Rightarrow> ustring" where
  "lines_text ls = concat (map (\<lambda>l. js_lit l @ [10]) ls)"

theorem diffLines_shortest_witness:
  "part_count (\<lambda>p. \<not> dp_added p \<and> \<not> dp_removed p) (diffLines (lines_text [''a'', ''b'']) (lines_text [''b'', ''a''])) = 1 \<and>
   common_bound (splitLinesKeepEol (lines_text [''a'', ''b''])) (splitLinesKeepEol (lines_text [''b'', ''a''])) 1"
proof -
  have "length (splitLinesKeepEol (lines_text [''a'', ''b''])) * length (splitLinesKeepEol (lines_text [''b'', ''a''])) \<le> MAX_DP_CELLS"
    by code_simp
  moreover have "part_count (\<lambda>p. \<not> dp_added p \<and> \<not> dp_removed p) (diffLines (lines_text [''a'', ''b'']) (lines_text [''b'', ''a''])) = 1"
    by code_simp
  ultimately show ?thesis
    using diffLines_shortest [of "lines_text [''a'', ''b'']" "lines_text [''b'', ''a'']"] by simp
qed

definition changed_file :: "ustring \<times> ustring" where
  "changed_file = (lines_text [''a'', ''b'', ''c'', ''d''], lines_text [''x'', ''b'', ''c'', ''y''])"

theorem patch_applies_witness:
  "apply_hunks 0 (patch_hunks 1 (fst changed_file) (snd changed_file)) (splitLinesKeepEol (fst changed_file)) =
     Some (splitLinesKeepEol (snd changed_file))"
proof -
  have "spaced 1 (diff_changes (splitLinesKeepEol (fst changed_file)) (splitLinesKeepEol (snd changed_file)))" by code_simp
  then show ?thesis by (rule patch_applies)
qed

text \<open>
  Changes closer than twice the context give hunks that overlap: each hunk goes back over the context although the hunk
  before it already has these lines, so the second hunk repeats the first one and the patch does not apply.
\<close>

lemma near_changes_overlap:
  "hunk_bounds 4 (diff_changes (splitLinesKeepEol (fst changed_file)) (splitLinesKeepEol (snd changed_file))) 0 = [(0, 4), (0, 6)] \<and>
   apply_hunks 0 (patch_hunks 4 (fst changed_file) (snd changed_file)) (splitLinesKeepEol (fst changed_file)) = None"
  by code_simp

end
