(* ===== verification/Edit_Diff.thy ===== *)
theory Edit_Diff
  imports Mini_Diff "HOL-Library.Multiset"
begin

text \<open>
  \<^verbatim>\<open>pi/packages/agent/src/harness/tools/edit-diff.ts\<close>: line endings, fuzzy normalisation, matching and application of edits, and the two
  renderings of the change. \<open>nfkc\<close> is \<open>normalize("NFKC")\<close>, whose tables are those of Unicode.
\<close>

section \<open>Texts\<close>

fun indexOf :: "ustring \<Rightarrow> ustring \<Rightarrow> nat option" where
  "indexOf [] pat = (if pat = [] then Some 0 else None)"
| "indexOf (c # cs) pat = (if take (length pat) (c # cs) = pat then Some 0 else map_option Suc (indexOf cs pat))"

lemma indexOf_Some: "indexOf s pat = Some i \<Longrightarrow> take (length pat) (drop i s) = pat \<and> i + length pat \<le> length s"
proof (induction s arbitrary: i)
  case (Cons c cs)
  show ?case
  proof (cases "take (length pat) (c # cs) = pat")
    case True
    moreover from arg_cong [OF this, of length] have "length pat \<le> length (c # cs)" by simp
    ultimately show ?thesis using Cons.prems by simp
  qed (use Cons in auto)
qed (auto split: if_splits)

text \<open>\<open>split\<close> with a separator.\<close>

function split_text :: "ustring \<Rightarrow> ustring \<Rightarrow> ustring list" where
  "split_text sep s =
     (if sep = [] then map (\<lambda>c. [c]) s
      else case indexOf s sep of None \<Rightarrow> [s] | Some i \<Rightarrow> take i s # split_text sep (drop (i + length sep) s))"
  by pat_completeness auto
termination
proof (relation "measure (\<lambda>(sep, s). length s)", simp, goal_cases)
  case (1 sep s i)
  then show ?case using indexOf_Some [of s sep i] by (cases sep) auto
qed

declare split_text.simps [simp del]

datatype line_ending = CRLF | LF

definition detectLineEnding :: "ustring \<Rightarrow> line_ending" where
  "detectLineEnding content =
     (case (indexOf content [10], indexOf content [13, 10]) of
        (None, _) \<Rightarrow> LF
      | (_, None) \<Rightarrow> LF
      | (Some lfIdx, Some crlfIdx) \<Rightarrow> if crlfIdx < lfIdx then CRLF else LF)"

fun crlf_to_lf :: "ustring \<Rightarrow> ustring" where
  "crlf_to_lf (c # d # cs) = (if c = 13 \<and> d = 10 then 10 # crlf_to_lf cs else c # crlf_to_lf (d # cs))"
| "crlf_to_lf [c] = [c]"
| "crlf_to_lf [] = []"

definition normalizeToLF :: "ustring \<Rightarrow> ustring" where
  "normalizeToLF s = map (\<lambda>c. if c = 13 then 10 else c) (crlf_to_lf s)"

definition restoreLineEndings :: "ustring \<Rightarrow> line_ending \<Rightarrow> ustring" where
  "restoreLineEndings s ending =
     (case ending of CRLF \<Rightarrow> concat (map (\<lambda>c. if c = 10 then [13, 10] else [c]) s) | LF \<Rightarrow> s)"

definition trimEnd :: "ustring \<Rightarrow> ustring" where
  "trimEnd line = rev (dropWhile is_space_unit (rev line))"

definition replace_units :: "code_unit list \<Rightarrow> code_unit \<Rightarrow> ustring \<Rightarrow> ustring" where
  "replace_units class c s = map (\<lambda>u. if u \<in> set class then c else u) s"

definition normalizeForFuzzyMatch :: "(ustring \<Rightarrow> ustring) \<Rightarrow> ustring \<Rightarrow> ustring" where
  "normalizeForFuzzyMatch nfkc s =
     replace_units [0xa0, 0x2002, 0x2003, 0x2004, 0x2005, 0x2006, 0x2007, 0x2008, 0x2009, 0x200a, 0x202f, 0x205f, 0x3000] 0x20
       (replace_units [0x2010, 0x2011, 0x2012, 0x2013, 0x2014, 0x2015, 0x2212] 0x2d
         (replace_units [0x201c, 0x201d, 0x201e, 0x201f] 0x22
           (replace_units [0x2018, 0x2019, 0x201a, 0x201b] 0x27
             (join [10] (map trimEnd (split_lines (nfkc s)))))))"

text \<open>The matches of \<open>[^\n]*\n|[^\n]+\<close>, one after the other.\<close>

function splitLinesWithEndings :: "ustring \<Rightarrow> ustring list" where
  "splitLinesWithEndings content =
     (if content = [] then []
      else let line = takeWhile (\<lambda>c. c \<noteq> 10) content; rest = dropWhile (\<lambda>c. c \<noteq> 10) content in
        if rest = [] then [line] else (line @ [10]) # splitLinesWithEndings (List.tl rest))"
  by pat_completeness auto
termination
proof (relation "measure length", simp, goal_cases)
  case (1 content)
  have "length (dropWhile (\<lambda>c. c \<noteq> 10) content) \<le> length content" by (rule length_dropWhile_le)
  with 1 show ?case by (cases "dropWhile (\<lambda>c. c \<noteq> 10) content") auto
qed

declare splitLinesWithEndings.simps [simp del]

section \<open>Replacements\<close>

record LineSpan =
  sp_start :: nat
  sp_end :: nat

record MatchedEdit =
  me_editIndex :: nat
  me_matchIndex :: nat
  me_matchLength :: nat
  me_newText :: ustring

datatype edit_error =
    OutsideBase
  | LineCountDiffers
  | EmptyOldText nat nat
  | TextNotFound nat nat
  | DuplicateText nat nat int
  | OverlappingEdits nat nat
  | NoChange nat

fun line_spans :: "nat \<Rightarrow> ustring list \<Rightarrow> LineSpan list" where
  "line_spans offset [] = []"
| "line_spans offset (line # lines) =
     \<lparr>sp_start = offset, sp_end = offset + length line\<rparr> # line_spans (offset + length line) lines"

definition getLineSpans :: "ustring \<Rightarrow> LineSpan list" where
  "getLineSpans content = line_spans 0 (splitLinesWithEndings content)"

fun start_line :: "nat \<Rightarrow> LineSpan list \<Rightarrow> nat option" where
  "start_line replacementStart [] = None"
| "start_line replacementStart (line # lines) =
     (if sp_start line \<le> replacementStart \<and> replacementStart < sp_end line then Some 0
      else map_option Suc (start_line replacementStart lines))"

definition getReplacementLineRange :: "LineSpan list \<Rightarrow> MatchedEdit \<Rightarrow> edit_error + nat \<times> nat" where
  "getReplacementLineRange lines replacement =
     (let replacementStart = me_matchIndex replacement; replacementEnd = me_matchIndex replacement + me_matchLength replacement in
      case start_line replacementStart lines of
        None \<Rightarrow> Inl OutsideBase
      | Some startLine \<Rightarrow>
          let endLine = startLine + length (takeWhile (\<lambda>line. sp_end line < replacementEnd) (drop startLine lines)) in
          if endLine \<ge> length lines then Inl OutsideBase else Inr (startLine, endLine + 1))"

definition replace_at :: "nat \<Rightarrow> MatchedEdit \<Rightarrow> ustring \<Rightarrow> ustring" where
  "replace_at offset replacement result =
     (let matchIndex = int (me_matchIndex replacement) - int offset in
      take (nat matchIndex) result @ me_newText replacement @ drop (nat (matchIndex + int (me_matchLength replacement))) result)"

definition applyReplacements :: "ustring \<Rightarrow> MatchedEdit list \<Rightarrow> nat \<Rightarrow> ustring" where
  "applyReplacements content replacements offset = foldr (replace_at offset) replacements content"

record edit_group =
  eg_startLine :: nat
  eg_endLine :: nat
  eg_replacements :: "MatchedEdit list"

definition add_to_groups :: "edit_group list \<Rightarrow> MatchedEdit \<Rightarrow> nat \<times> nat \<Rightarrow> edit_group list" where
  "add_to_groups groups replacement lineRange =
     (let fresh = groups @ [\<lparr>eg_startLine = fst lineRange, eg_endLine = snd lineRange, eg_replacements = [replacement]\<rparr>] in
      if groups = [] then fresh
      else let current = last groups in
        if fst lineRange < eg_endLine current
        then butlast groups @ [current\<lparr>eg_endLine := max (eg_endLine current) (snd lineRange), eg_replacements := eg_replacements current @ [replacement]\<rparr>]
        else fresh)"

fun group_replacements :: "LineSpan list \<Rightarrow> edit_group list \<Rightarrow> MatchedEdit list \<Rightarrow> edit_error + edit_group list" where
  "group_replacements baseLines groups [] = Inr groups"
| "group_replacements baseLines groups (replacement # rs) =
     rbind (getReplacementLineRange baseLines replacement) (\<lambda>lineRange.
       group_replacements baseLines (add_to_groups groups replacement lineRange) rs)"

fun write_groups :: "ustring list \<Rightarrow> ustring \<Rightarrow> LineSpan list \<Rightarrow> nat \<Rightarrow> edit_group list \<Rightarrow> ustring" where
  "write_groups originalLines baseContent baseLines originalLineIndex [] = concat (drop originalLineIndex originalLines)"
| "write_groups originalLines baseContent baseLines originalLineIndex (g # groups) =
     (let groupStartOffset = sp_start (baseLines ! eg_startLine g); groupEndOffset = sp_end (baseLines ! (eg_endLine g - 1)) in
      concat (js_slice originalLines originalLineIndex (eg_startLine g)) @
      applyReplacements (js_slice baseContent groupStartOffset groupEndOffset) (eg_replacements g) groupStartOffset @
      write_groups originalLines baseContent baseLines (eg_endLine g) groups)"

definition applyReplacementsPreservingUnchangedLines :: "ustring \<Rightarrow> ustring \<Rightarrow> MatchedEdit list \<Rightarrow> edit_error + ustring" where
  "applyReplacementsPreservingUnchangedLines originalContent baseContent replacements =
     (let originalLines = splitLinesWithEndings originalContent; baseLines = getLineSpans baseContent in
      if length originalLines \<noteq> length baseLines then Inl LineCountDiffers
      else rbind (group_replacements baseLines [] (sort_key me_matchIndex replacements)) (\<lambda>groups.
        Inr (write_groups originalLines baseContent baseLines 0 groups)))"

section \<open>Edits\<close>

record FuzzyMatchResult =
  fm_found :: bool
  fm_index :: int
  fm_matchLength :: nat
  fm_usedFuzzyMatch :: bool
  fm_contentForReplacement :: ustring

record Edit =
  ed_oldText :: ustring
  ed_newText :: ustring

record AppliedEditsResult =
  ae_baseContent :: ustring
  ae_newContent :: ustring

definition fuzzyFindText :: "(ustring \<Rightarrow> ustring) \<Rightarrow> ustring \<Rightarrow> ustring \<Rightarrow> FuzzyMatchResult" where
  "fuzzyFindText nfkc content oldText =
     (case indexOf content oldText of
        Some exactIndex \<Rightarrow>
          \<lparr>fm_found = True, fm_index = int exactIndex, fm_matchLength = length oldText, fm_usedFuzzyMatch = False,
           fm_contentForReplacement = content\<rparr>
      | None \<Rightarrow>
          let fuzzyContent = normalizeForFuzzyMatch nfkc content; fuzzyOldText = normalizeForFuzzyMatch nfkc oldText in
          (case indexOf fuzzyContent fuzzyOldText of
             None \<Rightarrow>
               \<lparr>fm_found = False, fm_index = -1, fm_matchLength = 0, fm_usedFuzzyMatch = False, fm_contentForReplacement = content\<rparr>
           | Some fuzzyIndex \<Rightarrow>
               \<lparr>fm_found = True, fm_index = int fuzzyIndex, fm_matchLength = length fuzzyOldText, fm_usedFuzzyMatch = True,
                fm_contentForReplacement = fuzzyContent\<rparr>))"

definition stripBom :: "ustring \<Rightarrow> ustring \<times> ustring" where
  "stripBom content = (case content of c # cs \<Rightarrow> if c = 0xfeff then ([0xfeff], cs) else ([], content) | [] \<Rightarrow> ([], []))"

definition countOccurrences :: "(ustring \<Rightarrow> ustring) \<Rightarrow> ustring \<Rightarrow> ustring \<Rightarrow> int" where
  "countOccurrences nfkc content oldText =
     int (length (split_text (normalizeForFuzzyMatch nfkc oldText) (normalizeForFuzzyMatch nfkc content))) - 1"

definition normalize_edit :: "Edit \<Rightarrow> Edit" where
  "normalize_edit edit = \<lparr>ed_oldText = normalizeToLF (ed_oldText edit), ed_newText = normalizeToLF (ed_newText edit)\<rparr>"

fun first_empty :: "nat \<Rightarrow> Edit list \<Rightarrow> nat option" where
  "first_empty i [] = None"
| "first_empty i (edit # edits) = (if ed_oldText edit = [] then Some i else first_empty (i + 1) edits)"

fun match_edits :: "(ustring \<Rightarrow> ustring) \<Rightarrow> ustring \<Rightarrow> nat \<Rightarrow> nat \<Rightarrow> Edit list \<Rightarrow> edit_error + MatchedEdit list" where
  "match_edits nfkc base n i [] = Inr []"
| "match_edits nfkc base n i (edit # edits) =
     (let matchResult = fuzzyFindText nfkc base (ed_oldText edit); occurrences = countOccurrences nfkc base (ed_oldText edit) in
      if \<not> fm_found matchResult then Inl (TextNotFound i n)
      else if occurrences > 1 then Inl (DuplicateText i n occurrences)
      else rbind (match_edits nfkc base n (i + 1) edits) (\<lambda>rest.
        Inr (\<lparr>me_editIndex = i, me_matchIndex = nat (fm_index matchResult), me_matchLength = fm_matchLength matchResult,
              me_newText = ed_newText edit\<rparr> # rest)))"

fun check_overlap :: "MatchedEdit list \<Rightarrow> edit_error + unit" where
  "check_overlap (previous # current # rest) =
     (if me_matchIndex previous + me_matchLength previous > me_matchIndex current
      then Inl (OverlappingEdits (me_editIndex previous) (me_editIndex current)) else check_overlap (current # rest))"
| "check_overlap _ = Inr ()"

definition applyEditsToNormalizedContent :: "(ustring \<Rightarrow> ustring) \<Rightarrow> ustring \<Rightarrow> Edit list \<Rightarrow> edit_error + AppliedEditsResult" where
  "applyEditsToNormalizedContent nfkc normalizedContent edits =
     (let normalizedEdits = map normalize_edit edits; n = length normalizedEdits in
      case first_empty 0 normalizedEdits of
        Some i \<Rightarrow> Inl (EmptyOldText i n)
      | None \<Rightarrow>
          let usedFuzzyMatch = list_ex (\<lambda>edit. fm_usedFuzzyMatch (fuzzyFindText nfkc normalizedContent (ed_oldText edit))) normalizedEdits;
              base = (if usedFuzzyMatch then normalizeForFuzzyMatch nfkc normalizedContent else normalizedContent)
          in rbind (match_edits nfkc base n 0 normalizedEdits) (\<lambda>matched.
             let matchedEdits = sort_key me_matchIndex matched in
             rbind (check_overlap matchedEdits) (\<lambda>_.
             rbind (if usedFuzzyMatch then applyReplacementsPreservingUnchangedLines normalizedContent base matchedEdits
                    else Inr (applyReplacements base matchedEdits 0)) (\<lambda>newContent.
             if normalizedContent = newContent then Inl (NoChange n)
             else Inr \<lparr>ae_baseContent = normalizedContent, ae_newContent = newContent\<rparr>))))"

definition generateUnifiedPatch :: "ustring \<Rightarrow> ustring \<Rightarrow> ustring \<Rightarrow> nat \<Rightarrow> ustring" where
  "generateUnifiedPatch path oldContent newContent contextLines =
     createTwoFilesPatch path path oldContent newContent None None
       (Some \<lparr>po_context = Some contextLines, po_headerOptions = Some FILE_HEADERS_ONLY\<rparr>)"

section \<open>Numbered diff\<close>

record diff_output =
  df_output :: "ustring list"
  df_oldLineNum :: nat
  df_newLineNum :: nat
  df_lastWasChange :: bool
  df_firstChangedLine :: "nat option"

definition padStart :: "ustring \<Rightarrow> nat \<Rightarrow> ustring" where
  "padStart s width = replicate (width - length s) 0x20 @ s"

definition raw_lines :: "ustring \<Rightarrow> ustring list" where
  "raw_lines v = (let raw = split_lines v in if last raw = [] then butlast raw else raw)"

definition show_added :: "nat \<Rightarrow> diff_output \<Rightarrow> ustring \<Rightarrow> diff_output" where
  "show_added width st line =
     st\<lparr>df_output := df_output st @ [js_lit ''+'' @ padStart (nat_text (df_newLineNum st)) width @ js_lit '' '' @ line],
       df_newLineNum := df_newLineNum st + 1\<rparr>"

definition show_removed :: "nat \<Rightarrow> diff_output \<Rightarrow> ustring \<Rightarrow> diff_output" where
  "show_removed width st line =
     st\<lparr>df_output := df_output st @ [js_lit ''-'' @ padStart (nat_text (df_oldLineNum st)) width @ js_lit '' '' @ line],
       df_oldLineNum := df_oldLineNum st + 1\<rparr>"

definition show_context :: "nat \<Rightarrow> diff_output \<Rightarrow> ustring \<Rightarrow> diff_output" where
  "show_context width st line =
     st\<lparr>df_output := df_output st @ [js_lit '' '' @ padStart (nat_text (df_oldLineNum st)) width @ js_lit '' '' @ line],
       df_oldLineNum := df_oldLineNum st + 1, df_newLineNum := df_newLineNum st + 1\<rparr>"

definition skip_lines :: "nat \<Rightarrow> diff_output \<Rightarrow> diff_output" where
  "skip_lines n st = st\<lparr>df_oldLineNum := df_oldLineNum st + n, df_newLineNum := df_newLineNum st + n\<rparr>"

definition show_dots :: "nat \<Rightarrow> diff_output \<Rightarrow> diff_output" where
  "show_dots width st = st\<lparr>df_output := df_output st @ [js_lit '' '' @ padStart [] width @ js_lit '' ...'']\<rparr>"

definition context_part :: "nat \<Rightarrow> nat \<Rightarrow> bool \<Rightarrow> ustring list \<Rightarrow> diff_output \<Rightarrow> diff_output" where
  "context_part contextLines width nextPartIsChange raw st =
     (if df_lastWasChange st \<and> nextPartIsChange then
        if length raw \<le> contextLines * 2 then foldl (show_context width) st raw
        else
          let leadingLines = take contextLines raw; trailingLines = drop (length raw - contextLines) raw;
              skippedLines = length raw - length leadingLines - length trailingLines;
              st1 = foldl (show_context width) st leadingLines;
              st2 = skip_lines skippedLines (show_dots width st1)
          in foldl (show_context width) st2 trailingLines
      else if df_lastWasChange st then
        let shownLines = take contextLines raw; skippedLines = length raw - length shownLines;
            st1 = foldl (show_context width) st shownLines
        in if skippedLines > 0 then skip_lines skippedLines (show_dots width st1) else st1
      else if nextPartIsChange then
        let skippedLines = length raw - contextLines;
            st1 = (if skippedLines > 0 then skip_lines skippedLines (show_dots width st) else st)
        in foldl (show_context width) st1 (drop skippedLines raw)
      else skip_lines (length raw) st)"

definition diff_part :: "nat \<Rightarrow> nat \<Rightarrow> bool \<Rightarrow> DiffPart \<Rightarrow> diff_output \<Rightarrow> diff_output" where
  "diff_part contextLines width nextPartIsChange part st =
     (let raw = raw_lines (dp_value part) in
      if dp_added part \<or> dp_removed part then
        let st1 = (if df_firstChangedLine st = None then st\<lparr>df_firstChangedLine := Some (df_newLineNum st)\<rparr> else st);
            st2 = foldl (if dp_added part then show_added width else show_removed width) st1 raw
        in st2\<lparr>df_lastWasChange := True\<rparr>
      else (context_part contextLines width nextPartIsChange raw st)\<lparr>df_lastWasChange := False\<rparr>)"

fun diff_parts :: "nat \<Rightarrow> nat \<Rightarrow> DiffPart list \<Rightarrow> diff_output \<Rightarrow> diff_output" where
  "diff_parts contextLines width [] st = st"
| "diff_parts contextLines width (part # parts) st =
     diff_parts contextLines width parts
       (diff_part contextLines width (case parts of p # _ \<Rightarrow> dp_added p \<or> dp_removed p | [] \<Rightarrow> False) part st)"

definition generateDiffString :: "ustring \<Rightarrow> ustring \<Rightarrow> nat \<Rightarrow> ustring \<times> nat option" where
  "generateDiffString oldContent newContent contextLines =
     (let maxLineNum = max (length (split_lines oldContent)) (length (split_lines newContent));
          lineNumWidth = length (nat_text maxLineNum);
          st = diff_parts contextLines lineNumWidth (diffLines oldContent newContent)
            \<lparr>df_output = [], df_oldLineNum = 1, df_newLineNum = 1, df_lastWasChange = False, df_firstChangedLine = None\<rparr>
      in (join [10] (df_output st), df_firstChangedLine st))"


section \<open>Replacements from the end\<close>

fun in_order :: "nat \<Rightarrow> MatchedEdit list \<Rightarrow> nat \<Rightarrow> bool" where
  "in_order pos [] n \<longleftrightarrow> pos \<le> n"
| "in_order pos (r # rs) n \<longleftrightarrow> pos \<le> me_matchIndex r \<and> in_order (me_matchIndex r + me_matchLength r) rs n"

fun replaced_to :: "ustring \<Rightarrow> nat \<Rightarrow> MatchedEdit list \<Rightarrow> nat \<Rightarrow> ustring" where
  "replaced_to base pos [] n = js_slice base pos n"
| "replaced_to base pos (r # rs) n =
     js_slice base pos (me_matchIndex r) @ me_newText r @ replaced_to base (me_matchIndex r + me_matchLength r) rs n"

lemma js_slice_append: "i \<le> j \<Longrightarrow> j \<le> k \<Longrightarrow> js_slice xs i k = js_slice xs i j @ js_slice xs j k"
proof -
  assume "i \<le> j" "j \<le> k"
  have "take k xs = take j xs @ take (k - j) (drop j xs)" using take_add [of j "k - j" xs] \<open>j \<le> k\<close> by simp
  then have "js_slice xs i k = drop i (take j xs) @ drop (i - length (take j xs)) (take (k - j) (drop j xs))"
    by (simp add: js_slice_def)
  then show ?thesis using \<open>i \<le> j\<close> by (cases "i \<le> length xs") (simp_all add: js_slice_def drop_take)
qed

lemma in_order_le: "in_order pos rs n \<Longrightarrow> pos \<le> n"
  by (induction rs arbitrary: pos) fastforce+

lemma replace_at_slices:
  assumes "s \<le> me_matchIndex r" "me_matchIndex r + me_matchLength r \<le> length base"
  shows "replace_at s r (js_slice base s (me_matchIndex r + me_matchLength r) @ rest) = js_slice base s (me_matchIndex r) @ me_newText r @ rest"
proof -
  let ?m = "me_matchIndex r" and ?l = "me_matchLength r"
  have "js_slice base s (?m + ?l) = js_slice base s ?m @ js_slice base ?m (?m + ?l)" using assms by (intro js_slice_append) auto
  moreover have "nat (int ?m - int s) = length (js_slice base s ?m)" "nat (int ?m - int s + int ?l) = length (js_slice base s (?m + ?l))"
    using assms by simp_all
  ultimately show ?thesis by (simp add: replace_at_def Let_def del: length_js_slice)
qed

lemma foldr_replace:
  "s \<le> pos \<Longrightarrow> in_order pos rs n \<Longrightarrow> n \<le> length base \<Longrightarrow>
     foldr (replace_at s) rs (js_slice base s n) = js_slice base s pos @ replaced_to base pos rs n"
proof (induction rs arbitrary: pos)
  case Nil
  then show ?case by (simp add: js_slice_append [of s pos n base])
next
  case (Cons r rs)
  let ?m = "me_matchIndex r" and ?q = "me_matchIndex r + me_matchLength r"
  have "?q \<le> length base" using in_order_le [of ?q rs n] Cons.prems by simp
  moreover have "js_slice base s ?m = js_slice base s pos @ js_slice base pos ?m" using Cons.prems by (intro js_slice_append) auto
  ultimately show ?case using Cons.IH [of ?q] Cons.prems by (simp add: replace_at_slices)
qed

lemma applyReplacements_slice:
  "in_order s rs n \<Longrightarrow> n \<le> length base \<Longrightarrow> applyReplacements (js_slice base s n) rs s = replaced_to base s rs n"
  using foldr_replace [of s s rs n base] by (simp add: applyReplacements_def js_slice_def)

lemma applyReplacements_whole:
  "in_order 0 rs (length base) \<Longrightarrow> applyReplacements base rs 0 = replaced_to base 0 rs (length base)"
  using applyReplacements_slice [of 0 rs "length base" base] by (simp add: js_slice_def)

section \<open>Matched edits\<close>

definition matched :: "(ustring \<Rightarrow> ustring) \<Rightarrow> ustring \<Rightarrow> Edit \<Rightarrow> MatchedEdit \<Rightarrow> bool" where
  "matched nfkc base e m \<longleftrightarrow>
     (let r = fuzzyFindText nfkc base (ed_oldText e) in
      fm_found r \<and> me_matchIndex m = nat (fm_index r) \<and> me_matchLength m = fm_matchLength r \<and> me_newText m = ed_newText e \<and>
      countOccurrences nfkc base (ed_oldText e) \<le> 1)"

lemma match_edits_spec:
  "match_edits nfkc base n i es = Inr ms \<Longrightarrow>
     list_all2 (matched nfkc base) es ms \<and> map me_editIndex ms = [i..<i + length es]"
proof (induction es arbitrary: i ms)
  case (Cons e es)
  from Cons.prems obtain rest where rest: "match_edits nfkc base n (i + 1) es = Inr rest"
    "ms = \<lparr>me_editIndex = i, me_matchIndex = nat (fm_index (fuzzyFindText nfkc base (ed_oldText e))),
        me_matchLength = fm_matchLength (fuzzyFindText nfkc base (ed_oldText e)), me_newText = ed_newText e\<rparr> # rest"
    "fm_found (fuzzyFindText nfkc base (ed_oldText e))" "countOccurrences nfkc base (ed_oldText e) \<le> 1"
    by (auto simp: Let_def split: if_splits)
  with Cons.IH [OF rest(1)] show ?case by (auto simp: matched_def Let_def upt_rec [of i])
qed simp

lemma matched_exact:
  "matched nfkc base e m \<Longrightarrow> indexOf base (ed_oldText e) \<noteq> None \<Longrightarrow>
     take (me_matchLength m) (drop (me_matchIndex m) base) = ed_oldText e \<and> me_matchLength m = length (ed_oldText e) \<and>
     me_matchIndex m + me_matchLength m \<le> length base \<and> me_newText m = ed_newText e"
  using indexOf_Some by (auto simp: matched_def fuzzyFindText_def Let_def)

lemma check_overlap_order:
  "check_overlap ms = Inr () \<Longrightarrow> \<forall>m \<in> set ms. me_matchIndex m + me_matchLength m \<le> n \<Longrightarrow> pos \<le> n \<Longrightarrow>
     (ms \<noteq> [] \<longrightarrow> pos \<le> me_matchIndex (hd ms)) \<Longrightarrow> in_order pos ms n"
proof (induction ms arbitrary: pos rule: check_overlap.induct)
  case (1 previous current rest)
  then show ?case by (auto split: if_splits)
qed auto

fun weave :: "'a list list \<Rightarrow> 'a list list \<Rightarrow> 'a list" where
  "weave (g # gs) (x # xs) = g @ x @ weave gs xs"
| "weave gs [] = concat gs"
| "weave [] xs = concat xs"

lemma weave_replaced:
  "in_order pos ms (length base) \<Longrightarrow>
     (\<And>m. m \<in> set ms \<Longrightarrow> take (me_matchLength m) (drop (me_matchIndex m) base) = old m) \<Longrightarrow>
     \<exists>gaps. length gaps = Suc (length ms) \<and> drop pos base = weave gaps (map old ms) \<and>
       replaced_to base pos ms (length base) = weave gaps (map me_newText ms)"
proof (induction ms arbitrary: pos)
  case Nil
  then show ?case by (intro exI [of _ "[drop pos base]"]) (simp add: js_slice_def)
next
  case (Cons m ms)
  let ?i = "me_matchIndex m" and ?q = "me_matchIndex m + me_matchLength m"
  from Cons obtain gaps where gaps: "length gaps = Suc (length ms)" "drop ?q base = weave gaps (map old ms)"
    "replaced_to base ?q ms (length base) = weave gaps (map me_newText ms)" by auto
  have "?q \<le> length base" using in_order_le [of ?q ms "length base"] Cons.prems(1) by simp
  then have "drop pos base = js_slice base pos ?i @ js_slice base ?i ?q @ drop ?q base" using Cons.prems(1) by (intro slice_split) auto
  moreover have "js_slice base ?i ?q = old m" using Cons.prems(2) [of m] by (simp add: js_slice_def drop_take)
  ultimately show ?case using gaps by (intro exI [of _ "js_slice base pos ?i # gaps"]) simp
qed

text \<open>
  If every old text occurs in the content as it is, the edits are applied at once: the content is cut into the old
  texts of the edits and the text between them, and in the result each old text is replaced by its new text while the
  text between them is kept.
\<close>

lemma exact_edits_applied:
  assumes "applyEditsToNormalizedContent nfkc content edits = Inr r"
    and "\<forall>e \<in> set edits. indexOf content (normalizeToLF (ed_oldText e)) \<noteq> None"
  shows "\<exists>es gaps. mset es = mset (map normalize_edit edits) \<and> length gaps = Suc (length es) \<and>
    content = weave gaps (map ed_oldText es) \<and> ae_newContent r = weave gaps (map ed_newText es) \<and>
    ae_newContent r \<noteq> content"
proof -
  let ?es = "map normalize_edit edits"
  have exact: "\<forall>e \<in> set ?es. indexOf content (ed_oldText e) \<noteq> None" using assms(2) by (simp add: normalize_edit_def)
  then have "\<not> list_ex (\<lambda>edit. fm_usedFuzzyMatch (fuzzyFindText nfkc content (ed_oldText edit))) ?es"
    by (auto simp: list_ex_iff fuzzyFindText_def)
  with assms(1) obtain ms where ms: "match_edits nfkc content (length ?es) 0 ?es = Inr ms"
    "check_overlap (sort_key me_matchIndex ms) = Inr ()" "ae_newContent r = applyReplacements content (sort_key me_matchIndex ms) 0"
    "ae_newContent r \<noteq> content"
    unfolding applyEditsToNormalizedContent_def Let_def by (auto split: option.splits if_splits)
  define edit_of where "edit_of m = ?es ! me_editIndex m" for m :: MatchedEdit
  from match_edits_spec [OF ms(1)] have spec: "list_all2 (matched nfkc content) ?es ms" "map me_editIndex ms = [0..<length ?es]" by simp_all
  have edits: "map edit_of ms = ?es"
  proof -
    have "map edit_of ms = map (\<lambda>i. ?es ! i) (map me_editIndex ms)" by (simp add: edit_of_def)
    then show ?thesis unfolding spec(2) map_nth .
  qed
  have m: "take (me_matchLength m) (drop (me_matchIndex m) content) = ed_oldText (edit_of m) \<and>
      me_matchIndex m + me_matchLength m \<le> length content \<and> me_newText m = ed_newText (edit_of m)" if "m \<in> set ms" for m
  proof -
    from that obtain k where k: "k < length ms" "ms ! k = m" by (auto simp: in_set_conv_nth)
    have "matched nfkc content (?es ! k) m" using spec(1) k by (auto simp: list_all2_conv_all_nth)
    moreover have "?es ! k = edit_of m" using edits k by (metis nth_map)
    moreover have "edit_of m \<in> set ?es" using edits that by (metis image_eqI list.set_map)
    ultimately show ?thesis using matched_exact exact by metis
  qed
  have "in_order 0 (sort_key me_matchIndex ms) (length content)" using ms(2) m by (intro check_overlap_order) auto
  moreover from this obtain gaps where gaps: "length gaps = Suc (length ms)"
    "content = weave gaps (map (ed_oldText \<circ> edit_of) (sort_key me_matchIndex ms))"
    "replaced_to content 0 (sort_key me_matchIndex ms) (length content) = weave gaps (map me_newText (sort_key me_matchIndex ms))"
    using weave_replaced [of 0 "sort_key me_matchIndex ms" content "ed_oldText \<circ> edit_of"] m by auto
  moreover have "map me_newText (sort_key me_matchIndex ms) = map (ed_newText \<circ> edit_of) (sort_key me_matchIndex ms)" using m by auto
  moreover have "mset (map edit_of (sort_key me_matchIndex ms)) = mset ?es" using edits by (metis mset_map mset_sort)
  ultimately show ?thesis using ms(3,4)
    by (intro exI [of _ "map edit_of (sort_key me_matchIndex ms)"] exI [of _ gaps]) (simp add: applyReplacements_whole)
qed


section \<open>Lines that are kept\<close>

lemma concat_splitLinesWithEndings [simp]: "concat (splitLinesWithEndings s) = s"
proof (induction s rule: splitLinesWithEndings.induct)
  case (1 s)
  let ?rest = "dropWhile (\<lambda>c. c \<noteq> 10) s"
  have "s = takeWhile (\<lambda>c. c \<noteq> 10) s @ ?rest" by simp
  moreover have "?rest = 10 # List.tl ?rest" if "?rest \<noteq> []" using hd_dropWhile [OF that] that by (cases ?rest) auto
  ultimately show ?case using 1 by (subst splitLinesWithEndings.simps) (auto simp: Let_def)
qed

lemma splitLinesWithEndings_nonempty: "l \<in> set (splitLinesWithEndings s) \<Longrightarrow> l \<noteq> []"
proof (induction s rule: splitLinesWithEndings.induct)
  case (1 s)
  show ?case
  proof (cases "s = [] \<or> dropWhile (\<lambda>c. c \<noteq> 10) s \<noteq> []")
    case True
    then show ?thesis using 1 by (subst (asm) splitLinesWithEndings.simps) (auto simp: Let_def split: if_splits)
  next
    case False
    then have "takeWhile (\<lambda>c. c \<noteq> 10) s = s" using takeWhile_dropWhile_id [of "\<lambda>c. c \<noteq> 10" s] by auto
    then show ?thesis using False 1(2) by (subst (asm) splitLinesWithEndings.simps) (cases s; auto simp: Let_def)
  qed
qed

lemma line_spans_nth:
  "length (line_spans off ls) = length ls"
  "l < length ls \<Longrightarrow> sp_start (line_spans off ls ! l) = off + length (concat (take l ls)) \<and>
     sp_end (line_spans off ls ! l) = off + length (concat (take (Suc l) ls))"
proof -
  show "length (line_spans off ls) = length ls" by (induction ls arbitrary: off) auto
  show "l < length ls \<Longrightarrow> sp_start (line_spans off ls ! l) = off + length (concat (take l ls)) \<and>
      sp_end (line_spans off ls ! l) = off + length (concat (take (Suc l) ls))"
  proof (induction ls arbitrary: off l)
    case (Cons x ls)
    then show ?case by (cases l) auto
  qed simp
qed

text \<open>The offset at which a line starts.\<close>

definition offset_of :: "ustring list \<Rightarrow> nat \<Rightarrow> nat" where
  "offset_of ls l = length (concat (take l ls))"

lemma offset_of_mono: "k \<le> l \<Longrightarrow> offset_of ls k \<le> offset_of ls l"
  using take_add [of k "l - k" ls] by (simp add: offset_of_def)

lemma spans_offset:
  "l < length ls \<Longrightarrow> sp_start (line_spans 0 ls ! l) = offset_of ls l" "l < length ls \<Longrightarrow> sp_end (line_spans 0 ls ! l) = offset_of ls (Suc l)"
  by (simp_all add: line_spans_nth offset_of_def)

lemma slice_lines: "k \<le> l \<Longrightarrow> l \<le> length ls \<Longrightarrow> js_slice (concat ls) (offset_of ls k) (offset_of ls l) = concat (js_slice ls k l)"
proof -
  assume "k \<le> l" "l \<le> length ls"
  have "take l ls = take k ls @ js_slice ls k l" using append_take_drop_id [of k "take l ls"] \<open>k \<le> l\<close> by (simp add: js_slice_def min_def)
  then have "concat (take l ls) = concat (take k ls) @ concat (js_slice ls k l)" by simp
  moreover have "take (offset_of ls l) (concat ls) = concat (take l ls)"
    using append_take_drop_id [of l ls] by (metis append_eq_conv_conj concat_append offset_of_def)
  ultimately show ?thesis by (simp add: js_slice_def offset_of_def)
qed

lemma start_line_spec:
  "start_line p (line_spans off ls) = Some l \<Longrightarrow>
     l < length ls \<and> off + offset_of ls l \<le> p \<and> p < off + offset_of ls (Suc l)"
proof (induction ls arbitrary: off l)
  case (Cons x ls)
  then show ?case by (fastforce simp: offset_of_def split: if_splits)
qed (simp add: offset_of_def)

lemma line_range:
  assumes "getReplacementLineRange (line_spans 0 ls) r = Inr (a, b)"
  shows "a < b" "b \<le> length ls" "offset_of ls a \<le> me_matchIndex r" "me_matchIndex r < offset_of ls (Suc a)"
    "me_matchIndex r + me_matchLength r \<le> offset_of ls b"
    "\<And>l. a < l \<Longrightarrow> l < b \<Longrightarrow> offset_of ls l < me_matchIndex r + me_matchLength r"
proof -
  let ?e = "me_matchIndex r + me_matchLength r"
  let ?t = "takeWhile (\<lambda>line. sp_end line < ?e) (drop a (line_spans 0 ls))"
  from assms have a: "start_line (me_matchIndex r) (line_spans 0 ls) = Some a" and b: "a + length ?t < length ls" "b = a + length ?t + 1"
    by (auto simp: getReplacementLineRange_def Let_def line_spans_nth split: option.splits if_splits)
  from start_line_spec [OF a] show "offset_of ls a \<le> me_matchIndex r" "me_matchIndex r < offset_of ls (Suc a)" by simp_all
  show "a < b" "b \<le> length ls" using b by simp_all
  have "\<not> sp_end (drop a (line_spans 0 ls) ! length ?t) < ?e"
    using nth_length_takeWhile [of "\<lambda>line. sp_end line < ?e" "drop a (line_spans 0 ls)"] b(1) by (simp add: line_spans_nth)
  then show "?e \<le> offset_of ls b" using b by (simp add: line_spans_nth(1) spans_offset not_less)
  show "offset_of ls l < ?e" if "a < l" "l < b" for l
  proof -
    have k: "l - 1 - a < length ?t" using that b by simp
    from nth_mem [OF k] have "sp_end (?t ! (l - 1 - a)) < ?e" by (rule set_takeWhileD [THEN conjunct2])
    moreover have "?t ! (l - 1 - a) = line_spans 0 ls ! (l - 1)" using takeWhile_nth [OF k] that b by (simp add: line_spans_nth)
    ultimately show ?thesis using spans_offset(2) [of "l - 1" ls] that b by simp
  qed
qed


text \<open>A line is touched by a replacement if it is within the lines of one.\<close>

definition touched :: "ustring list \<Rightarrow> MatchedEdit list \<Rightarrow> nat \<Rightarrow> bool" where
  "touched ls rs l \<longleftrightarrow> (\<exists>r \<in> set rs. \<exists>a b. getReplacementLineRange (line_spans 0 ls) r = Inr (a, b) \<and> a \<le> l \<and> l < b)"

definition group_ok :: "ustring list \<Rightarrow> edit_group \<Rightarrow> bool" where
  "group_ok ls g \<longleftrightarrow> eg_startLine g < eg_endLine g \<and> eg_endLine g \<le> length ls \<and> eg_replacements g \<noteq> [] \<and>
     (\<forall>r \<in> set (eg_replacements g). offset_of ls (eg_startLine g) \<le> me_matchIndex r \<and>
        me_matchIndex r + me_matchLength r \<le> offset_of ls (eg_endLine g)) \<and>
     (\<forall>l. touched ls (eg_replacements g) l \<longleftrightarrow> eg_startLine g \<le> l \<and> l < eg_endLine g)"

fun good_groups :: "ustring list \<Rightarrow> nat \<Rightarrow> edit_group list \<Rightarrow> bool" where
  "good_groups ls i [] \<longleftrightarrow> i \<le> length ls"
| "good_groups ls i (g # gs) \<longleftrightarrow> i \<le> eg_startLine g \<and> group_ok ls g \<and> good_groups ls (eg_endLine g) gs"

abbreviation all_replacements :: "edit_group list \<Rightarrow> MatchedEdit list" where
  "all_replacements gs \<equiv> concat (map eg_replacements gs)"

lemma good_groups_snoc:
  "good_groups ls i (gs @ [g]) \<longleftrightarrow> good_groups ls i gs \<and> (if gs = [] then i else eg_endLine (last gs)) \<le> eg_startLine g \<and> group_ok ls g"
  by (induction gs arbitrary: i) (auto simp: group_ok_def)

lemma in_order_append: "in_order p (xs @ ys) n \<Longrightarrow> \<exists>q. in_order p xs q \<and> in_order q ys n"
  by (induction xs arbitrary: p) auto

lemma in_order_later: "in_order p (xs @ r # ys) n \<Longrightarrow> x \<in> set xs \<Longrightarrow> me_matchIndex x \<le> me_matchIndex r"
proof (induction xs arbitrary: p)
  case (Cons y xs)
  have "q \<le> me_matchIndex r" if "in_order q (xs @ r # ys) n" for q
    using in_order_append [OF that] in_order_le by fastforce
  with Cons show ?case by fastforce
qed simp

lemma in_order_within:
  "in_order p rs n \<Longrightarrow> p' \<le> q \<Longrightarrow> \<forall>r \<in> set rs. p' \<le> me_matchIndex r \<and> me_matchIndex r + me_matchLength r \<le> q \<Longrightarrow> in_order p' rs q"
proof (induction rs arbitrary: p p')
  case (Cons r rs)
  have "\<forall>x \<in> set rs. me_matchIndex r + me_matchLength r \<le> me_matchIndex x"
  proof
    fix x assume "x \<in> set rs"
    then obtain xs ys where "rs = xs @ x # ys" by (auto simp: in_set_conv_decomp)
    with Cons.prems(1) show "me_matchIndex r + me_matchLength r \<le> me_matchIndex x"
      using in_order_append [of "me_matchIndex r + me_matchLength r" xs "x # ys" n] in_order_le by fastforce
  qed
  with Cons show ?case by auto
qed simp

lemma touched_simps [simp]:
  "touched ls [] l = False" "touched ls (rs @ rs') l \<longleftrightarrow> touched ls rs l \<or> touched ls rs' l"
  by (auto simp: touched_def)

lemma touched_range: "getReplacementLineRange (line_spans 0 ls) r = Inr (a, b) \<Longrightarrow> touched ls [r] l \<longleftrightarrow> a \<le> l \<and> l < b"
  by (auto simp: touched_def)

lemma add_to_groups_good:
  assumes good: "good_groups ls 0 groups" and r: "getReplacementLineRange (line_spans 0 ls) r = Inr (a, b)"
    and ord: "in_order 0 (all_replacements groups @ r # rs) n"
  shows "good_groups ls 0 (add_to_groups groups r (a, b)) \<and> all_replacements (add_to_groups groups r (a, b)) = all_replacements groups @ [r]"
proof -
  note range = line_range [OF r]
  have fresh: "group_ok ls \<lparr>eg_startLine = a, eg_endLine = b, eg_replacements = [r]\<rparr>"
    using range by (simp add: group_ok_def touched_range [OF r])
  show ?thesis
  proof (cases groups rule: rev_cases)
    case Nil
    with fresh range show ?thesis by (simp add: add_to_groups_def)
  next
    case (snoc gs g)
    have g: "group_ok ls g" and gs: "good_groups ls 0 (gs @ [g])" using good snoc by (simp_all add: good_groups_snoc)
    show ?thesis
    proof (cases "a < eg_endLine g")
      case True
      let ?g = "g\<lparr>eg_endLine := max (eg_endLine g) b, eg_replacements := eg_replacements g @ [r]\<rparr>"
      obtain x where x: "x \<in> set (eg_replacements g)" using g by (fastforce simp: group_ok_def)
      have start: "offset_of ls (eg_startLine g) \<le> me_matchIndex r"
        using in_order_later [OF ord, of x] x g snoc by (fastforce simp: group_ok_def)
      then have "eg_startLine g \<le> a" using range(4) offset_of_mono [of "Suc a" "eg_startLine g" ls] by (meson le_trans not_less not_less_eq_eq)
      moreover have "offset_of ls (eg_endLine g) \<le> offset_of ls (max (eg_endLine g) b)" "offset_of ls b \<le> offset_of ls (max (eg_endLine g) b)"
        by (simp_all add: offset_of_mono)
      ultimately have "group_ok ls ?g" using g start range True
        by (auto simp: group_ok_def touched_range [OF r] less_max_iff_disj intro: order_trans)
      then show ?thesis using gs snoc True by (simp add: add_to_groups_def Let_def good_groups_snoc)
    next
      case False
      with fresh gs have "good_groups ls 0 ((gs @ [g]) @ [\<lparr>eg_startLine = a, eg_endLine = b, eg_replacements = [r]\<rparr>])"
        unfolding good_groups_snoc [of ls 0 "gs @ [g]"] by simp
      with snoc False show ?thesis by (simp add: add_to_groups_def Let_def)
    qed
  qed
qed

lemma group_replacements_good:
  "group_replacements (line_spans 0 ls) groups rs = Inr out \<Longrightarrow> good_groups ls 0 groups \<Longrightarrow>
     in_order 0 (all_replacements groups @ rs) n \<Longrightarrow> good_groups ls 0 out \<and> all_replacements out = all_replacements groups @ rs"
proof (induction "line_spans 0 ls" groups rs rule: group_replacements.induct)
  case (2 groups r rs)
  from "2.prems"(1) obtain a b where ab: "getReplacementLineRange (line_spans 0 ls) r = Inr (a, b)"
    "group_replacements (line_spans 0 ls) (add_to_groups groups r (a, b)) rs = Inr out" by auto
  from add_to_groups_good [OF "2.prems"(2) ab(1) "2.prems"(3)] "2.hyps" [OF ab(1) ab(2)] "2.prems"(3) show ?case by simp
qed simp


fun fill :: "ustring option list \<Rightarrow> ustring list \<Rightarrow> ustring" where
  "fill (p # ps) (l # ls) = (case p of None \<Rightarrow> l | Some t \<Rightarrow> t) @ fill ps ls"
| "fill _ _ = []"

lemma fill_append: "length ps = length ls \<Longrightarrow> fill (ps @ qs) (ls @ ms) = fill ps ls @ fill qs ms"
  by (induction ps ls rule: list_induct2) simp_all

lemma fill_kept: "fill (replicate (length ls) None) ls = concat ls"
  by (induction ls) simp_all

lemma fill_group: "ls \<noteq> [] \<Longrightarrow> fill (Some t # replicate (length ls - 1) (Some [])) ls = t"
proof -
  have "fill (replicate (length xs) (Some [])) xs = []" for xs by (induction xs) simp_all
  then show "ls \<noteq> [] \<Longrightarrow> ?thesis" by (cases ls) simp_all
qed

lemma touched_later: "good_groups ls i gs \<Longrightarrow> touched ls (all_replacements gs) l \<Longrightarrow> i \<le> l"
proof (induction gs arbitrary: i)
  case (Cons g gs)
  from Cons.prems(2) consider "touched ls (eg_replacements g) l" | "touched ls (all_replacements gs) l" by auto
  then show ?case
  proof cases
    case 1
    with Cons.prems(1) show ?thesis by (simp add: group_ok_def)
  next
    case 2
    with Cons.IH [of "eg_endLine g"] Cons.prems(1) show ?thesis by (simp add: group_ok_def)
  qed
qed simp

lemma write_groups_pieces:
  "good_groups ls i gs \<Longrightarrow>
     \<exists>pieces. length pieces = length ls - i \<and>
       (\<forall>l. i \<le> l \<longrightarrow> l < length ls \<longrightarrow> (pieces ! (l - i) = None \<longleftrightarrow> \<not> touched ls (all_replacements gs) l)) \<and>
       (\<forall>orig. length orig = length ls \<longrightarrow> write_groups orig base (line_spans 0 ls) i gs = fill pieces (drop i orig))"
proof (induction gs arbitrary: i)
  case Nil
  have "fill (replicate (length ls - i) None) (drop i orig) = concat (drop i orig)" if "length orig = length ls" for orig
    using fill_kept [of "drop i orig"] that by simp
  then show ?case by (intro exI [of _ "replicate (length ls - i) None"]) auto
next
  case (Cons g gs)
  let ?s = "eg_startLine g" and ?e = "eg_endLine g"
  have bounds: "i \<le> ?s" "?s < ?e" "?e \<le> length ls" using Cons.prems by (auto simp: group_ok_def)
  have "good_groups ls ?e gs" using Cons.prems by simp
  from Cons.IH [OF this] obtain rest where "length rest = length ls - ?e \<and>
    (\<forall>l. ?e \<le> l \<longrightarrow> l < length ls \<longrightarrow> (rest ! (l - ?e) = None \<longleftrightarrow> \<not> touched ls (all_replacements gs) l)) \<and>
    (\<forall>orig. length orig = length ls \<longrightarrow> write_groups orig base (line_spans 0 ls) ?e gs = fill rest (drop ?e orig))" ..
  then have rest: "length rest = length ls - ?e"
    "\<And>l. ?e \<le> l \<Longrightarrow> l < length ls \<Longrightarrow> rest ! (l - ?e) = None \<longleftrightarrow> \<not> touched ls (all_replacements gs) l"
    "\<And>orig. length orig = length ls \<Longrightarrow> write_groups orig base (line_spans 0 ls) ?e gs = fill rest (drop ?e orig)"
    by simp_all
  have later: "?e \<le> l" if "touched ls (all_replacements gs) l" for l
    using touched_later [OF \<open>good_groups ls ?e gs\<close> that] .
  let ?t = "applyReplacements (js_slice base (sp_start (line_spans 0 ls ! ?s)) (sp_end (line_spans 0 ls ! (?e - 1)))) (eg_replacements g)
    (sp_start (line_spans 0 ls ! ?s))"
  let ?pieces = "replicate (?s - i) None @ (Some ?t # replicate (?e - ?s - 1) (Some [])) @ rest"
  have "write_groups orig base (line_spans 0 ls) i (g # gs) = fill ?pieces (drop i orig)" if orig: "length orig = length ls" for orig
  proof -
    have parts: "drop i orig = js_slice orig i ?s @ js_slice orig ?s ?e @ drop ?e orig" using bounds orig by (intro slice_split) auto
    have lens: "length (replicate (?s - i) (None :: ustring option)) = length (js_slice orig i ?s)"
      "length (Some ?t # replicate (?e - ?s - 1) (Some [])) = length (js_slice orig ?s ?e)" using bounds orig by simp_all
    have "fill ?pieces (drop i orig) = concat (js_slice orig i ?s) @
        fill (Some ?t # replicate (?e - ?s - 1) (Some [])) (js_slice orig ?s ?e) @ fill rest (drop ?e orig)"
      unfolding parts fill_append [OF lens(1)] fill_append [OF lens(2)]
      using fill_kept [of "js_slice orig i ?s"] bounds orig by simp
    moreover have "fill (Some ?t # replicate (?e - ?s - 1) (Some [])) (js_slice orig ?s ?e) = ?t"
      using fill_group [of "js_slice orig ?s ?e" ?t] bounds orig by (auto simp: length_0_conv [symmetric] simp del: length_0_conv)
    ultimately show ?thesis using rest(3) [OF orig] by (simp add: Let_def)
  qed
  moreover have "?pieces ! (l - i) = None \<longleftrightarrow> \<not> touched ls (all_replacements (g # gs)) l" if "i \<le> l" "l < length ls" for l
  proof -
    have g: "touched ls (eg_replacements g) l \<longleftrightarrow> ?s \<le> l \<and> l < ?e" using Cons.prems by (simp add: group_ok_def)
    consider "l < ?s" | "?s \<le> l" "l < ?e" | "?e \<le> l" by linarith
    then show ?thesis
    proof cases
      case 1
      then show ?thesis using g later [of l] bounds that by (auto simp: nth_append)
    next
      case 2
      then show ?thesis using g bounds that by (auto simp: nth_append nth_Cons split: nat.splits)
    next
      case 3
      let ?A = "replicate (?s - i) None @ (Some ?t # replicate (?e - ?s - 1) (Some []))"
      have "l - i = length ?A + (l - ?e)" using 3 bounds that by simp
      then have "?pieces ! (l - i) = rest ! (l - ?e)" using nth_append_length_plus [of ?A rest "l - ?e"] by simp
      then show ?thesis using rest(2) [of l] g 3 that by simp
    qed
  qed
  moreover have "length ?pieces = length ls - i" using rest(1) bounds by simp
  ultimately show ?case by blast
qed

lemma in_order_appendI: "in_order p xs q \<Longrightarrow> in_order q ys n \<Longrightarrow> in_order p (xs @ ys) n"
proof (induction xs arbitrary: p)
  case Nil
  then show ?case using in_order_within [of q ys n p n] in_order_le [of q ys n] by (cases ys) auto
qed simp

lemma replaced_to_append:
  "in_order p xs q \<Longrightarrow> in_order q ys n \<Longrightarrow> n \<le> length base \<Longrightarrow> replaced_to base p (xs @ ys) n = replaced_to base p xs q @ replaced_to base q ys n"
proof (induction xs arbitrary: p)
  case Nil
  then have "p \<le> q" "q \<le> n" using in_order_le by auto
  show ?case
  proof (cases ys)
    case Nil
    then show ?thesis using js_slice_append \<open>p \<le> q\<close> \<open>q \<le> n\<close> by simp
  next
    case (Cons y ys')
    then show ?thesis using js_slice_append [of p q "me_matchIndex y" base] \<open>p \<le> q\<close> Nil.prems(2) by simp
  qed
qed simp

lemma write_groups_base:
  "good_groups ls i gs \<Longrightarrow> in_order p (all_replacements gs) n \<Longrightarrow>
     write_groups ls (concat ls) (line_spans 0 ls) i gs =
       replaced_to (concat ls) (offset_of ls i) (all_replacements gs) (length (concat ls)) \<and>
     in_order (offset_of ls i) (all_replacements gs) (length (concat ls))"
proof (induction gs arbitrary: i p)
  case Nil
  have "offset_of ls (length ls) = length (concat ls)" by (simp add: offset_of_def)
  with Nil slice_lines [of i "length ls" ls] offset_of_mono [of i "length ls" ls] show ?case by (simp add: js_slice_def)
next
  case (Cons g gs)
  let ?s = "eg_startLine g" and ?e = "eg_endLine g"
  have bounds: "i \<le> ?s" "?s < ?e" "?e \<le> length ls" using Cons.prems by (auto simp: group_ok_def)
  have offs: "offset_of ls i \<le> offset_of ls ?s" "offset_of ls ?s \<le> offset_of ls ?e" "offset_of ls ?e \<le> length (concat ls)"
    using bounds offset_of_mono [of i ?s ls] offset_of_mono [of ?s ?e ls] offset_of_mono [of ?e "length ls" ls]
    by (simp_all add: offset_of_def [of ls "length ls"])
  obtain q where q: "in_order p (eg_replacements g) q" "in_order q (all_replacements gs) n"
    using in_order_append [of p "eg_replacements g" "all_replacements gs" n] Cons.prems(2) by auto
  have within: "in_order (offset_of ls ?s) (eg_replacements g) (offset_of ls ?e)"
    using in_order_within [OF q(1) offs(2)] Cons.prems(1) by (simp add: group_ok_def)
  have IH: "write_groups ls (concat ls) (line_spans 0 ls) ?e gs = replaced_to (concat ls) (offset_of ls ?e) (all_replacements gs) (length (concat ls))"
    "in_order (offset_of ls ?e) (all_replacements gs) (length (concat ls))"
    using Cons.IH [OF _ q(2), of ?e] Cons.prems(1) by auto
  have tail: "in_order (offset_of ls ?s) (eg_replacements g @ all_replacements gs) (length (concat ls))"
    using within IH(2) by (rule in_order_appendI)
  have "replaced_to (concat ls) (offset_of ls i) (all_replacements (g # gs)) (length (concat ls)) =
      js_slice (concat ls) (offset_of ls i) (offset_of ls ?s) @
      replaced_to (concat ls) (offset_of ls ?s) (eg_replacements g) (offset_of ls ?e) @
      replaced_to (concat ls) (offset_of ls ?e) (all_replacements gs) (length (concat ls))"
    using replaced_to_append [of "offset_of ls i" "[]" "offset_of ls ?s" "eg_replacements g @ all_replacements gs" "length (concat ls)" "concat ls"]
      replaced_to_append [OF within IH(2)] offs(1) tail by simp
  moreover have "sp_start (line_spans 0 ls ! ?s) = offset_of ls ?s" "sp_end (line_spans 0 ls ! (?e - 1)) = offset_of ls ?e"
    using bounds by (simp_all add: spans_offset)
  moreover have "concat (js_slice ls i ?s) = js_slice (concat ls) (offset_of ls i) (offset_of ls ?s)"
    using bounds by (intro slice_lines [symmetric]) auto
  moreover have "in_order (offset_of ls i) (all_replacements (g # gs)) (length (concat ls))"
    using in_order_appendI [of "offset_of ls i" "[]" "offset_of ls ?s"] offs(1) tail by simp
  ultimately show ?case by (simp add: Let_def applyReplacements_slice [OF within offs(3)] IH(1))
qed



section \<open>Line endings\<close>

text \<open>A text in which every line break is of one kind.\<close>

fun uniform :: "line_ending \<Rightarrow> ustring \<Rightarrow> bool" where
  "uniform LF s \<longleftrightarrow> 13 \<notin> set s"
| "uniform CRLF s \<longleftrightarrow> (\<exists>t. 13 \<notin> set t \<and> s = concat (map (\<lambda>c. if c = 10 then [13, 10] else [c]) t))"

lemma crlf_to_lf_skip: "c \<noteq> 13 \<Longrightarrow> crlf_to_lf (c # cs) = c # crlf_to_lf cs"
  by (cases cs) simp_all

lemma map_no_cr: "13 \<notin> set s \<Longrightarrow> map (\<lambda>c. if c = 13 then 10 else c) s = s"
  by (induction s) auto

lemma normalizeToLF_plain: "13 \<notin> set s \<Longrightarrow> normalizeToLF s = s"
proof -
  assume s: "13 \<notin> set s"
  then have "crlf_to_lf s = s" by (induction s) (auto simp: crlf_to_lf_skip)
  with s show ?thesis by (simp add: normalizeToLF_def map_no_cr)
qed

lemma normalizeToLF_crlf: "13 \<notin> set t \<Longrightarrow> normalizeToLF (restoreLineEndings t CRLF) = t"
proof -
  assume t: "13 \<notin> set t"
  then have "crlf_to_lf (concat (map (\<lambda>c. if c = 10 then [13, 10] else [c]) t)) = t"
    by (induction t) (auto simp: crlf_to_lf_skip)
  with t show ?thesis by (simp add: normalizeToLF_def restoreLineEndings_def map_no_cr)
qed

lemma normalizeToLF_breaks: "13 \<notin> set (normalizeToLF s)"
  by (auto simp: normalizeToLF_def)

lemma restore_normalize: "uniform ending s \<Longrightarrow> restoreLineEndings (normalizeToLF s) ending = s"
proof (cases ending)
  case CRLF
  assume "uniform ending s"
  with CRLF obtain t where t: "13 \<notin> set t" "s = restoreLineEndings t CRLF" by (auto simp: restoreLineEndings_def)
  then show ?thesis by (simp add: CRLF normalizeToLF_crlf)
qed (simp add: normalizeToLF_plain restoreLineEndings_def)

lemma restoreLineEndings_append: "restoreLineEndings (s @ t) ending = restoreLineEndings s ending @ restoreLineEndings t ending"
  by (cases ending) (simp_all add: restoreLineEndings_def)

lemma restoreLineEndings_weave:
  "restoreLineEndings (weave gs xs) ending = weave (map (\<lambda>s. restoreLineEndings s ending) gs) (map (\<lambda>s. restoreLineEndings s ending) xs)"
proof -
  have c: "restoreLineEndings (concat gs) ending = concat (map (\<lambda>s. restoreLineEndings s ending) gs)" for gs
    by (induction gs) (simp_all add: restoreLineEndings_append, cases ending, simp_all add: restoreLineEndings_def)
  show ?thesis by (induction gs xs rule: weave.induct) (simp_all add: restoreLineEndings_append c)
qed


definition fuzzy_replacement :: MatchedEdit where
  "fuzzy_replacement = \<lparr>me_editIndex = 0, me_matchIndex = 2, me_matchLength = 1, me_newText = js_lit ''c''\<rparr>"


end
