(* ===== verification/Edit_Tool.thy ===== *)
theory Edit_Tool
  imports Edit_Diff File_System Jsonl_Codec Json_Parse
begin

text \<open>
  The edit and write tools of \<^verbatim>\<open>pi/packages/agent/src/harness/tools\<close> (\<^verbatim>\<open>edit.ts\<close>, \<^verbatim>\<open>write.ts\<close>, \<^verbatim>\<open>path-utils.ts\<close>) over a world of text files.
  \<open>ToolEnv\<close> holds what they use besides it: path resolution, Unicode normalisation, and at which of its checks the abort
  signal is found set. Every path of the world is a file, so the check of the kind of a path never fails. The queue that
  orders mutations of one file is the subject of \<open>Mutation_Queue\<close>.
\<close>

section \<open>Paths\<close>

record ToolEnv =
  te_absolutePath :: "ustring \<Rightarrow> FileError + ustring"
  te_canonicalPath :: "ustring \<Rightarrow> FileError + ustring"
  te_nfkc :: "ustring \<Rightarrow> ustring"
  te_aborted :: "nat \<Rightarrow> bool"

definition normalizeToolPath :: "ustring \<Rightarrow> ustring" where
  "normalizeToolPath path =
     (let normalized = replace_units [0xa0, 0x2000, 0x2001, 0x2002, 0x2003, 0x2004, 0x2005, 0x2006, 0x2007, 0x2008, 0x2009, 0x200a,
            0x202f, 0x205f, 0x3000] 0x20 path
      in case normalized of c # cs \<Rightarrow> if c = 0x40 then cs else normalized | [] \<Rightarrow> [])"

definition resolveToolPath :: "ToolEnv \<Rightarrow> ustring \<Rightarrow> FileError + ustring" where
  "resolveToolPath env path = te_absolutePath env (normalizeToolPath path)"

definition getMutationQueueKey :: "ToolEnv \<Rightarrow> ustring \<Rightarrow> FileError + ustring" where
  "getMutationQueueKey env path =
     rbind (te_absolutePath env path) (\<lambda>absolutePath.
     case te_canonicalPath env absolutePath of
       Inr canonicalPath \<Rightarrow> Inr canonicalPath
     | Inl (FileError code message) \<Rightarrow>
         if code = FNotFound \<or> code = FNotSupported then Inr absolutePath else Inl (FileError code message))"

section \<open>Arguments of the edit tool\<close>

definition isSingleEditInput :: "js \<Rightarrow> bool" where
  "isSingleEditInput v =
     (case v of
        JObj _ _ kvs \<Rightarrow> (case (prop_of kvs ''oldText'', prop_of kvs ''newText'') of (JStr _, JStr _) \<Rightarrow> True | _ \<Rightarrow> False)
      | _ \<Rightarrow> False)"

definition edits_as_list :: "js \<Rightarrow> js option" where
  "edits_as_list edits =
     (case edits of
        JStr s \<Rightarrow>
          (case parse_json s of
             Some (JArr xs) \<Rightarrow> Some (JArr xs)
           | Some parsed \<Rightarrow> if isSingleEditInput parsed then Some (JArr [parsed]) else None
           | None \<Rightarrow> None)
      | _ \<Rightarrow> if isSingleEditInput edits then Some (JArr [edits]) else None)"

definition prepareEditArguments :: "js \<Rightarrow> js" where
  "prepareEditArguments input =
     (case input of
        JObj p s kvs \<Rightarrow>
          let args = (case edits_as_list (prop_of kvs ''edits'') of None \<Rightarrow> kvs | Some v \<Rightarrow> amap_set kvs (js_lit ''edits'') v) in
          (case (prop_of args ''oldText'', prop_of args ''newText'') of
             (JStr oldText, JStr newText) \<Rightarrow>
               let edits = (case prop_of args ''edits'' of JArr xs \<Rightarrow> xs | _ \<Rightarrow> []) @
                     [obj (fld ''oldText'' (JStr oldText) @ fld ''newText'' (JStr newText))]
               in obj (spread (without [''oldText'', ''newText''] args) [(''edits'', JArr edits)])
           | _ \<Rightarrow> JObj p s args)
      | _ \<Rightarrow> input)"

section \<open>Execution\<close>

record EditToolInput =
  ei_path :: ustring
  ei_edits :: "Edit list"

record EditToolDetails =
  et_diff :: ustring
  et_patch :: ustring
  et_firstChangedLine :: "nat option"

datatype tool_error =
    NoReplacement
  | OperationAborted
  | FileFailure FileError
  | EditAccess ustring FileError
  | EditFailure edit_error

definition validateEditInput :: "EditToolInput \<Rightarrow> tool_error + ustring \<times> Edit list" where
  "validateEditInput input = (if ei_edits input = [] then Inl NoReplacement else Inr (ei_path input, ei_edits input))"

definition io_map_error :: "('e \<Rightarrow> 'f) \<Rightarrow> ('e, 'a) io \<Rightarrow> ('f, 'a) io" where
  "io_map_error f m w = (case m w of (Inl e, w') \<Rightarrow> (Inl (f e), w') | (Inr a, w') \<Rightarrow> (Inr a, w'))"

definition unless_aborted :: "ToolEnv \<Rightarrow> nat \<Rightarrow> (tool_error, 'a) io \<Rightarrow> (tool_error, 'a) io" where
  "unless_aborted env k m = (if te_aborted env k then io_throw OperationAborted else m)"

definition edit_file :: "ToolEnv \<Rightarrow> ustring \<Rightarrow> ustring \<Rightarrow> Edit list \<Rightarrow> (tool_error, ustring \<times> EditToolDetails) io" where
  "edit_file env path absolutePath edits =
     unless_aborted env 0 (
     io_bind (io_map_error (EditAccess path) (fileInfo absolutePath)) (\<lambda>_.
     io_bind (io_map_error (EditAccess path) (readTextFile absolutePath)) (\<lambda>readResult.
     unless_aborted env 1 (
     let (bom, content) = stripBom readResult; originalEnding = detectLineEnding content; normalizedContent = normalizeToLF content in
     io_bind (io_map_error EditFailure (io_result (applyEditsToNormalizedContent (te_nfkc env) normalizedContent edits))) (\<lambda>applied.
     unless_aborted env 2 (
     let finalContent = bom @ restoreLineEndings (ae_newContent applied) originalEnding in
     io_bind (io_map_error (EditAccess path) (writeFile absolutePath finalContent)) (\<lambda>_.
     unless_aborted env 3 (
     let (diff, firstChangedLine) = generateDiffString (ae_baseContent applied) (ae_newContent applied) 4 in
     io_return
       (js_lit ''Successfully replaced '' @ nat_text (length edits) @ js_lit '' block(s) in '' @ path @ js_lit ''.'',
        \<lparr>et_diff = diff, et_patch = generateUnifiedPatch path (ae_baseContent applied) (ae_newContent applied) 4,
         et_firstChangedLine = firstChangedLine\<rparr>)))))))))"

definition execute_edit :: "ToolEnv \<Rightarrow> EditToolInput \<Rightarrow> (tool_error, ustring \<times> EditToolDetails) io" where
  "execute_edit env input =
     io_bind (io_result (validateEditInput input)) (\<lambda>(path, edits).
     io_bind (io_map_error FileFailure (io_result (resolveToolPath env path))) (\<lambda>absolutePath.
     io_bind (io_map_error FileFailure (io_result (getMutationQueueKey env absolutePath))) (\<lambda>_.
     edit_file env path absolutePath edits)))"

definition execute_write :: "ToolEnv \<Rightarrow> ustring \<Rightarrow> ustring \<Rightarrow> (tool_error, ustring) io" where
  "execute_write env path content =
     io_bind (io_map_error FileFailure (io_result (resolveToolPath env path))) (\<lambda>absolutePath.
     io_bind (io_map_error FileFailure (io_result (getMutationQueueKey env absolutePath))) (\<lambda>_.
     unless_aborted env 0 (
     io_bind (io_map_error FileFailure (writeFile absolutePath content)) (\<lambda>_.
     unless_aborted env 1 (
     io_return (js_lit ''Successfully wrote '' @ nat_text (length content) @ js_lit '' bytes to '' @ path))))))"


section \<open>What the edit tool leaves\<close>

lemma io_bind_Inr: "io_bind m f w = (Inr b, w') \<longleftrightarrow> (\<exists>a w1. m w = (Inr a, w1) \<and> f a w1 = (Inr b, w'))"
  by (auto simp: io_bind_def split: prod.splits sum.splits)

lemma io_map_error_Inr: "io_map_error f m w = (Inr a, w') \<longleftrightarrow> m w = (Inr a, w')"
  by (auto simp: io_map_error_def split: prod.splits sum.splits)

lemma unless_aborted_Inr: "unless_aborted env k m w = (Inr a, w') \<longleftrightarrow> \<not> te_aborted env k \<and> m w = (Inr a, w')"
  by (auto simp: unless_aborted_def io_throw_def)

lemma io_result_Inr: "io_result r w = (Inr a, w') \<longleftrightarrow> r = Inr a \<and> w' = w"
  by (auto simp: io_result_def)

lemmas io_success = io_bind_Inr io_map_error_Inr unless_aborted_Inr io_result_Inr

lemma next_outcome_files: "next_outcome w = (c, w') \<Longrightarrow> w_files w' = w_files w"
  by (auto simp: next_outcome_def split: list.splits)

lemma readTextFile_Inr: "readTextFile p w = (Inr t, w') \<Longrightarrow> text_at w p = Some t \<and> w_files w' = w_files w"
  by (auto simp: readTextFile_def text_at_def dest!: next_outcome_files split: prod.splits call_outcome.splits option.splits)

lemma fileInfo_Inr: "fileInfo p w = (Inr t, w') \<Longrightarrow> w_files w' = w_files w"
  by (auto simp: fileInfo_def dest!: next_outcome_files split: prod.splits call_outcome.splits option.splits)

lemma writeFile_Inr: "writeFile p t w = (Inr u, w') \<Longrightarrow> text_at w' q = (if q = p then Some t else text_at w q)"
  by (auto simp: writeFile_def text_at_def put_text_def dest!: next_outcome_files split: prod.splits call_outcome.splits option.splits)

lemma text_at_files: "w_files w = w_files w' \<Longrightarrow> text_at w = text_at w'"
  by (simp add: text_at_def fun_eq_iff)

lemma stripBom_parts: "stripBom t = (bom, content) \<Longrightarrow> t = bom @ content"
  by (auto simp: stripBom_def split: list.splits if_splits)

text \<open>The world after an edit that succeeds.\<close>

lemma execute_edit_Inr:
  assumes "execute_edit env input w = (Inr out, w')" "resolveToolPath env (ei_path input) = Inr path" "text_at w path = Some t"
    and "stripBom t = (bom, content)"
  obtains r where "applyEditsToNormalizedContent (te_nfkc env) (normalizeToLF content) (ei_edits input) = Inr r"
    "\<And>q. text_at w' q = (if q = path then Some (bom @ restoreLineEndings (ae_newContent r) (detectLineEnding content)) else text_at w q)"
proof -
  from assms(1,2) have edit: "edit_file env (ei_path input) path (ei_edits input) w = (Inr out, w')"
    by (auto simp: execute_edit_def validateEditInput_def io_success split: if_splits)
  then obtain i w1 t' w2 where steps: "fileInfo path w = (Inr i, w1)" "readTextFile path w1 = (Inr t', w2)"
    unfolding edit_file_def by (auto simp: io_success)
  have files: "w_files w2 = w_files w" "t' = t"
    using fileInfo_Inr [OF steps(1)] readTextFile_Inr [OF steps(2)] assms(3) text_at_files [of w1 w] by auto
  from edit steps files(2) assms(4) obtain r u w3 where
    r: "applyEditsToNormalizedContent (te_nfkc env) (normalizeToLF content) (ei_edits input) = Inr r"
    and wr: "writeFile path (bom @ restoreLineEndings (ae_newContent r) (detectLineEnding content)) w2 = (Inr u, w3)" and "w' = w3"
    unfolding edit_file_def by (auto simp: io_success Let_def io_return_def case_prod_beta)
  show thesis
    using that [OF r] writeFile_Inr [OF wr] text_at_files [OF files(1)] \<open>w' = w3\<close> by simp
qed

text \<open>
  C38. An edit that succeeds, in a file with one kind of line break and with old texts that occur as they are, replaces exactly
  the old texts: byte order mark, the text between them, line breaks and all other files stay as they were.
\<close>

theorem edit_replaces_only_matches:
  assumes "execute_edit env input w = (Inr out, w')" "resolveToolPath env (ei_path input) = Inr path"
    and "text_at w path = Some t" "stripBom t = (bom, content)" "uniform (detectLineEnding content) content"
    and "\<forall>e \<in> set (ei_edits input). indexOf (normalizeToLF content) (normalizeToLF (ed_oldText e)) \<noteq> None"
  shows "\<exists>es gaps. mset es = mset (map normalize_edit (ei_edits input)) \<and> length gaps = Suc (length es) \<and>
    t = bom @ weave gaps (map (\<lambda>e. restoreLineEndings (ed_oldText e) (detectLineEnding content)) es) \<and>
    text_at w' path = Some (bom @ weave gaps (map (\<lambda>e. restoreLineEndings (ed_newText e) (detectLineEnding content)) es)) \<and>
    (\<forall>q. q \<noteq> path \<longrightarrow> text_at w' q = text_at w q)"
proof -
  let ?restore = "\<lambda>s. restoreLineEndings s (detectLineEnding content)"
  obtain r where r: "applyEditsToNormalizedContent (te_nfkc env) (normalizeToLF content) (ei_edits input) = Inr r"
    "\<And>q. text_at w' q = (if q = path then Some (bom @ ?restore (ae_newContent r)) else text_at w q)"
    using execute_edit_Inr [OF assms(1-4)] by blast
  from exact_edits_applied [OF r(1) assms(6)] obtain es gaps where es: "mset es = mset (map normalize_edit (ei_edits input))"
    "length gaps = Suc (length es)" "normalizeToLF content = weave gaps (map ed_oldText es)" "ae_newContent r = weave gaps (map ed_newText es)"
    by blast
  have "content = weave (map ?restore gaps) (map (\<lambda>e. ?restore (ed_oldText e)) es)"
    using restore_normalize [OF assms(5)] unfolding es(3) by (simp add: restoreLineEndings_weave comp_def)
  moreover have "?restore (ae_newContent r) = weave (map ?restore gaps) (map (\<lambda>e. ?restore (ed_newText e)) es)"
    unfolding es(4) by (simp add: restoreLineEndings_weave comp_def)
  ultimately show ?thesis
    using es(1,2) r(2) stripBom_parts [OF assms(4)] by (intro exI [of _ es] exI [of _ "map ?restore gaps"]) simp
qed


definition example_env :: ToolEnv where
  "example_env = \<lparr>te_absolutePath = Inr, te_canonicalPath = Inr, te_nfkc = (\<lambda>s. s), te_aborted = (\<lambda>_. False)\<rparr>"

definition example_input :: EditToolInput where
  "example_input = \<lparr>ei_path = js_lit ''f'', ei_edits = [\<lparr>ed_oldText = js_lit ''b'', ed_newText = js_lit ''c''\<rparr>]\<rparr>"

definition example_text :: ustring where
  "example_text = js_lit ''a'' @ [13, 10] @ js_lit ''b'' @ [13, 10]"

definition example_world :: world where
  "example_world = \<lparr>w_files = [(js_lit ''f'', \<lparr>tf_text = example_text, tf_mtimeMs = 0\<rparr>)], w_now = 1, w_outcomes = []\<rparr>"

theorem edit_replaces_only_matches_witness:
  "\<exists>out w'. execute_edit example_env example_input example_world = (Inr out, w') \<and>
     (\<exists>es gaps. mset es = mset (map normalize_edit (ei_edits example_input)) \<and> length gaps = Suc (length es) \<and>
       example_text = weave gaps (map (\<lambda>e. restoreLineEndings (ed_oldText e) CRLF) es) \<and>
       text_at w' (js_lit ''f'') = Some (weave gaps (map (\<lambda>e. restoreLineEndings (ed_newText e) CRLF) es)))"
proof -
  have path: "resolveToolPath example_env (ei_path example_input) = Inr (js_lit ''f'')" by code_simp
  have read: "text_at example_world (js_lit ''f'') = Some example_text" by code_simp
  have bom: "stripBom example_text = ([], example_text)" by code_simp
  have ending: "detectLineEnding example_text = CRLF" by code_simp
  have applied: "applyEditsToNormalizedContent (te_nfkc example_env) (normalizeToLF example_text) (ei_edits example_input) =
      Inr \<lparr>ae_baseContent = [97, 10, 98, 10], ae_newContent = [97, 10, 99, 10]\<rparr>"
    by code_simp
  have key: "getMutationQueueKey example_env (js_lit ''f'') = Inr (js_lit ''f'')" by code_simp
  have info: "fileInfo (js_lit ''f'') example_world = (Inr 0, example_world)" by code_simp
  have nonempty: "ei_edits example_input \<noteq> []" by (simp add: example_input_def)
  have outcomes: "w_outcomes example_world = []" by (simp add: example_world_def)
  have env: "te_aborted example_env k = False" for k by (simp add: example_env_def)
  have "\<exists>out w'. edit_file example_env (ei_path example_input) (js_lit ''f'') (ei_edits example_input) example_world = (Inr out, w')"
    unfolding edit_file_def
    by (simp add: unless_aborted_def env io_map_error_def info read bom applied io_return_def outcomes io_result_def Let_def case_prod_beta)
  then obtain out w' where run: "execute_edit example_env example_input example_world = (Inr out, w')"
    by (auto simp: execute_edit_def validateEditInput_def path key nonempty io_map_error_def io_result_def io_bind_def)
  have uniform: "uniform (detectLineEnding example_text) example_text"
    unfolding ending by (auto simp: example_text_def js_lit_def intro!: exI [of _ "js_lit ''a'' @ [10] @ js_lit ''b'' @ [10]"])
  have "indexOf (normalizeToLF example_text) (normalizeToLF (js_lit ''b'')) = Some 2" by code_simp
  then have exact: "\<forall>e \<in> set (ei_edits example_input). indexOf (normalizeToLF example_text) (normalizeToLF (ed_oldText e)) \<noteq> None"
    by (simp add: example_input_def)
  from edit_replaces_only_matches [OF run path read bom uniform exact] run show ?thesis unfolding ending by auto
qed

text \<open>An edit that is refused changes no file: only a failed write can.\<close>

lemma refused_edit_changes_nothing:
  assumes "execute_edit env input w = (Inl (EditFailure e), w')"
  shows "w_files w' = w_files w"
  using assms unfolding execute_edit_def edit_file_def
  by (auto simp: io_bind_def io_map_error_def io_result_def unless_aborted_def io_throw_def io_return_def Let_def validateEditInput_def
      dest!: fileInfo_Inr readTextFile_Inr split: prod.splits sum.splits if_splits)

lemma execute_write_Inr:
  assumes "execute_write env path content w = (Inr out, w')" "resolveToolPath env path = Inr p"
  shows "text_at w' q = (if q = p then Some content else text_at w q)"
  using assms by (auto simp: execute_write_def io_success io_return_def dest!: writeFile_Inr [where q = q])

end
