(* ===== verification/Mutation_Queue.thy ===== *)
theory Mutation_Queue
  imports File_System "HOL-Library.Sublist"
begin

text \<open>
  \<^verbatim>\<open>pi/packages/agent/src/harness/tools/file-mutation-queue.ts\<close>: calls of \<open>withFileMutationQueue\<close> on one environment, as a step relation.
  A call waits for its registration, which runs after the registrations of the calls before it and finds the key of the
  path (\<open>getMutationQueueKey\<close>, an outcome of the step); a registered call waits for the promise it found under its key;
  a call whose function has settled releases the next one. A call is named by a number.
\<close>

record queued =
  qd_call :: nat
  qd_key :: ustring
  qd_current :: "nat option"

record MutationQueueState =
  mq_calls :: "nat list"
  mq_queues :: "(ustring \<times> nat) list"
  mq_waiting :: "queued list"
  mq_running :: "queued list"
  mq_released :: "nat list"
  mq_registered :: "(nat \<times> ustring) list"
  mq_started :: "(nat \<times> ustring) list"

text \<open>
  \<open>qd_current\<close> is the call whose \<open>chainedQueue\<close> is the \<open>currentQueue\<close> of a call, if there was one; the entry of \<open>queues\<close> is the call whose
  \<open>chainedQueue\<close> it holds. That promise is resolved when the call is released: its function only runs once the promise
  before it is resolved. \<open>mq_registered\<close> and \<open>mq_started\<close> record the order of events.
\<close>

definition new_queue_state :: MutationQueueState where
  "new_queue_state = \<lparr>mq_calls = [], mq_queues = [], mq_waiting = [], mq_running = [], mq_released = [], mq_registered = [], mq_started = []\<rparr>"

definition register :: "nat \<Rightarrow> ustring \<Rightarrow> MutationQueueState \<Rightarrow> MutationQueueState" where
  "register call key st =
     st\<lparr>mq_waiting := mq_waiting st @ [\<lparr>qd_call = call, qd_key = key, qd_current = map_of (mq_queues st) key\<rparr>],
       mq_queues := amap_set (mq_queues st) key call, mq_registered := mq_registered st @ [(call, key)]\<rparr>"

definition may_start :: "MutationQueueState \<Rightarrow> queued \<Rightarrow> bool" where
  "may_start st q \<longleftrightarrow> (case qd_current q of None \<Rightarrow> True | Some c \<Rightarrow> c \<in> set (mq_released st))"

definition start_call :: "queued \<Rightarrow> MutationQueueState \<Rightarrow> MutationQueueState" where
  "start_call q st =
     st\<lparr>mq_waiting := remove1 q (mq_waiting st), mq_running := mq_running st @ [q], mq_started := mq_started st @ [(qd_call q, qd_key q)]\<rparr>"

definition release :: "queued \<Rightarrow> MutationQueueState \<Rightarrow> MutationQueueState" where
  "release q st =
     (let st1 = st\<lparr>mq_running := remove1 q (mq_running st), mq_released := qd_call q # mq_released st\<rparr> in
      if map_of (mq_queues st) (qd_key q) = Some (qd_call q) then st1\<lparr>mq_queues := amap_delete (mq_queues st) (qd_key q)\<rparr> else st1)"

inductive queue_step :: "MutationQueueState \<Rightarrow> MutationQueueState \<Rightarrow> bool" where
  call: "call \<notin> set (mq_calls st) \<Longrightarrow> call \<notin> fst ` set (mq_registered st) \<Longrightarrow> queue_step st (st\<lparr>mq_calls := mq_calls st @ [call]\<rparr>)"
| no_key: "mq_calls st = call # calls \<Longrightarrow> queue_step st (st\<lparr>mq_calls := calls\<rparr>)"
| registration: "mq_calls st = call # calls \<Longrightarrow> queue_step st (register call key (st\<lparr>mq_calls := calls\<rparr>))"
| start: "q \<in> set (mq_waiting st) \<Longrightarrow> may_start st q \<Longrightarrow> queue_step st (start_call q st)"
| finish: "q \<in> set (mq_running st) \<Longrightarrow> queue_step st (release q st)"

inductive reachable :: "MutationQueueState \<Rightarrow> bool" where
  initial: "reachable new_queue_state"
| step: "reachable st \<Longrightarrow> queue_step st st' \<Longrightarrow> reachable st'"

section \<open>One key\<close>

text \<open>
  What is in flight for one key: the running call, if any, then the waiting ones in order. Each waits for the
  call before it, the first for nothing or for a released call; the entry of the key is the last of them.
\<close>

fun chained :: "nat option \<Rightarrow> queued list \<Rightarrow> bool" where
  "chained c [] \<longleftrightarrow> True"
| "chained c (q # qs) \<longleftrightarrow> qd_current q = c \<and> chained (Some (qd_call q)) qs"

fun head_ok :: "nat list \<Rightarrow> queued list \<Rightarrow> bool" where
  "head_ok released [] \<longleftrightarrow> True"
| "head_ok released (q # qs) \<longleftrightarrow> (case qd_current q of None \<Rightarrow> True | Some c \<Rightarrow> c \<in> set released) \<and> chained (Some (qd_call q)) qs"

definition key_inv :: "nat list \<Rightarrow> nat option \<Rightarrow> queued list \<Rightarrow> queued list \<Rightarrow> nat list \<Rightarrow> nat list \<Rightarrow> bool" where
  "key_inv released entry run wait reg sta \<longleftrightarrow>
     length run \<le> 1 \<and> distinct reg \<and> entry = (if run @ wait = [] then None else Some (qd_call (last (run @ wait)))) \<and>
     head_ok released (run @ wait) \<and> set released \<inter> qd_call ` set (run @ wait) = {} \<and>
     (\<exists>done. reg = done @ map qd_call (run @ wait) \<and> sta = done @ map qd_call run)"

lemma chained_snoc: "chained c (qs @ [q]) \<longleftrightarrow> chained c qs \<and> qd_current q = (if qs = [] then c else Some (qd_call (last qs)))"
  by (induction qs arbitrary: c) auto

lemma head_ok_snoc: "head_ok released (qs @ [q]) \<longleftrightarrow>
    (if qs = [] then head_ok released [q] else head_ok released qs \<and> qd_current q = Some (qd_call (last qs)))"
  by (cases qs) (auto simp: chained_snoc)

lemma chained_waits: "chained (Some c) qs \<Longrightarrow> q \<in> set qs \<Longrightarrow> \<exists>d. qd_current q = Some d \<and> (d = c \<or> d \<in> qd_call ` set qs)"
  by (induction qs arbitrary: c) fastforce+

lemma key_register:
  assumes "key_inv released entry run wait reg sta" "c \<notin> set reg" "c \<notin> set released" "qd_call q = c" "qd_current q = entry"
  shows "key_inv released (Some c) run (wait @ [q]) (reg @ [c]) sta"
  using assms head_ok_snoc [of released "run @ wait" q] unfolding key_inv_def by (auto split: if_splits)

lemma key_start:
  assumes inv: "key_inv released entry run wait reg sta" and q: "q \<in> set wait"
    "case qd_current q of None \<Rightarrow> True | Some c \<Rightarrow> c \<in> set released"
  shows "run = [] \<and> (\<exists>rest. wait = q # rest) \<and> key_inv released entry [q] (remove1 q wait) reg (sta @ [qd_call q])"
proof -
  obtain h t where flight: "run @ wait = h # t" using q(1) by (cases "run @ wait") auto
  have waits: "chained (Some (qd_call h)) t" "set released \<inter> qd_call ` set (h # t) = {}" using inv by (simp_all add: key_inv_def flight)
  have "q \<notin> set t"
  proof
    assume "q \<in> set t"
    from chained_waits [OF waits(1) this] waits(2) q(2) show False by auto
  qed
  moreover have "set wait \<subseteq> set (h # t)" using arg_cong [OF flight, of set] by auto
  ultimately have "h = q" using q(1) by auto
  then have "run = []" using flight q(1) \<open>q \<notin> set t\<close> by (cases run) auto
  then have wait: "wait = q # t" using flight \<open>h = q\<close> by simp
  have "key_inv released entry [q] t reg (sta @ [qd_call q])"
    using inv unfolding key_inv_def wait \<open>run = []\<close> by (auto, blast)
  with \<open>run = []\<close> wait show ?thesis by simp
qed

lemma key_finish:
  assumes inv: "key_inv released entry run wait reg sta" and q: "q \<in> set run"
  shows "key_inv (qd_call q # released) (if entry = Some (qd_call q) then None else entry) (remove1 q run) wait reg sta"
proof -
  have run: "run = [q]" using inv q by (cases run) (auto simp: key_inv_def)
  obtain F where F: "reg = F @ qd_call q # map qd_call wait" "sta = F @ [qd_call q]" "distinct reg"
    using inv by (auto simp: key_inv_def run)
  then have fresh: "qd_call q \<notin> qd_call ` set wait" by auto
  then have "qd_call (last wait) \<noteq> qd_call q" if "wait \<noteq> []" using last_in_set [OF that] by (metis image_eqI)
  then have "entry = Some (qd_call q) \<longleftrightarrow> wait = []" using inv by (auto simp: key_inv_def run)
  moreover have "head_ok (qd_call q # released) wait" using inv by (cases wait) (auto simp: key_inv_def run)
  ultimately show ?thesis using inv fresh F unfolding key_inv_def run by (auto intro!: exI [of _ "F @ [qd_call q]"])
qed

lemma key_released:
  assumes "key_inv released entry run wait reg sta" "c \<notin> qd_call ` set (run @ wait)"
  shows "key_inv (c # released) entry run wait reg sta"
proof -
  have "head_ok (c # released) (run @ wait)" using assms(1) unfolding key_inv_def
    by (cases "run @ wait") (auto split: option.splits)
  with assms show ?thesis unfolding key_inv_def by auto
qed

section \<open>All keys\<close>

definition of_key :: "ustring \<Rightarrow> queued list \<Rightarrow> queued list" where
  "of_key k qs = filter (\<lambda>q. qd_key q = k) qs"

definition calls_of :: "ustring \<Rightarrow> (nat \<times> ustring) list \<Rightarrow> nat list" where
  "calls_of k cs = map fst (filter (\<lambda>c. snd c = k) cs)"

lemma of_key_simps [simp]:
  "of_key k [] = []" "of_key k (xs @ ys) = of_key k xs @ of_key k ys" "of_key k [q] = (if qd_key q = k then [q] else [])"
  "set (of_key k xs) = {q \<in> set xs. qd_key q = k}"
  "of_key k (remove1 q xs) = (if qd_key q = k then remove1 q (of_key k xs) else of_key k xs)"
  by (auto simp: of_key_def filter_remove1 remove1_idem)

lemma calls_of_simps [simp]:
  "calls_of k [] = []" "calls_of k (xs @ ys) = calls_of k xs @ calls_of k ys" "calls_of k [(c, k')] = (if k' = k then [c] else [])"
  by (simp_all add: calls_of_def)

definition queue_inv :: "MutationQueueState \<Rightarrow> bool" where
  "queue_inv st \<longleftrightarrow> distinct (mq_calls st @ map fst (mq_registered st)) \<and> set (mq_released st) \<subseteq> fst ` set (mq_registered st) \<and>
     (\<forall>k. key_inv (mq_released st) (map_of (mq_queues st) k) (of_key k (mq_running st)) (of_key k (mq_waiting st))
        (calls_of k (mq_registered st)) (calls_of k (mq_started st)))"

lemma calls_of_registered: "c \<in> set (calls_of k cs) \<longleftrightarrow> (c, k) \<in> set cs"
  by (force simp: calls_of_def)

lemma flight_registered: "key_inv released entry run wait reg sta \<Longrightarrow> q \<in> set (run @ wait) \<Longrightarrow> qd_call q \<in> set reg"
  by (auto simp: key_inv_def)

lemma release_fields:
  "mq_calls (release q st) = mq_calls st" "mq_waiting (release q st) = mq_waiting st" "mq_registered (release q st) = mq_registered st"
  "mq_started (release q st) = mq_started st" "mq_released (release q st) = qd_call q # mq_released st"
  by (simp_all add: release_def Let_def)

lemma queue_inv_step: "queue_step st st' \<Longrightarrow> queue_inv st \<Longrightarrow> queue_inv st'"
proof (induction rule: queue_step.induct)
  case (call c st)
  then show ?case by (auto simp: queue_inv_def)
next
  case (no_key st c calls)
  then show ?case by (simp add: queue_inv_def)
next
  case (registration st c calls key)
  then have c: "c \<notin> fst ` set (mq_registered st)" "c \<notin> set (mq_released st)" by (auto simp: queue_inv_def)
  then have "c \<notin> set (calls_of k (mq_registered st))" for k by (force simp: calls_of_registered)
  with registration c show ?case unfolding queue_inv_def register_def
    by (auto simp: intro!: key_register)
next
  case (start q st)
  have "key_inv (mq_released st) (map_of (mq_queues st) (qd_key q)) (of_key (qd_key q) (mq_running st) @ [q])
      (remove1 q (of_key (qd_key q) (mq_waiting st))) (calls_of (qd_key q) (mq_registered st)) (calls_of (qd_key q) (mq_started st) @ [qd_call q])"
    using key_start [of "mq_released st" _ "of_key (qd_key q) (mq_running st)" "of_key (qd_key q) (mq_waiting st)" _ _ q] start
    by (fastforce simp: queue_inv_def may_start_def)
  with start show ?case by (auto simp: queue_inv_def start_call_def)
next
  case (finish q st)
  have inv: "key_inv (mq_released st) (map_of (mq_queues st) k) (of_key k (mq_running st)) (of_key k (mq_waiting st))
      (calls_of k (mq_registered st)) (calls_of k (mq_started st))" for k using finish.prems by (simp add: queue_inv_def)
  have registered: "(qd_call q, qd_key q) \<in> set (mq_registered st)"
    using flight_registered [OF inv, of q "qd_key q"] finish.hyps by (simp add: calls_of_registered)
  have "distinct (map fst (mq_registered st))" using finish.prems by (simp add: queue_inv_def)
  have other: "qd_call q \<notin> qd_call ` set (of_key k (mq_running st) @ of_key k (mq_waiting st))" if "k \<noteq> qd_key q" for k
  proof
    assume "qd_call q \<in> qd_call ` set (of_key k (mq_running st) @ of_key k (mq_waiting st))"
    then have "(qd_call q, k) \<in> set (mq_registered st)" using flight_registered [OF inv, of _ k] by (fastforce simp: calls_of_registered)
    with registered that \<open>distinct (map fst (mq_registered st))\<close> show False by (metis eq_key_imp_eq_value)
  qed
  have "key_inv (qd_call q # mq_released st) (map_of (mq_queues (release q st)) k) (of_key k (mq_running (release q st))) (of_key k (mq_waiting st))
      (calls_of k (mq_registered st)) (calls_of k (mq_started st))" for k
  proof (cases "k = qd_key q")
    case True
    then show ?thesis using key_finish [OF inv [of k], of q] finish.hyps by (auto simp: release_def Let_def map_of_amap_delete)
  next
    case False
    then show ?thesis using key_released [OF inv [of k] other] by (auto simp: release_def Let_def map_of_amap_delete)
  qed
  moreover have "qd_call q \<in> fst ` set (mq_registered st)" using registered by force
  ultimately show ?case using finish.prems unfolding queue_inv_def by (simp only: release_fields) auto
qed

lemma queue_inv_reachable: "reachable st \<Longrightarrow> queue_inv st"
proof (induction rule: reachable.induct)
  case initial
  show ?case by (simp add: queue_inv_def new_queue_state_def key_inv_def)
qed (rule queue_inv_step)

text \<open>
  C40. Whatever the interleaving, at most one call per key runs at a time, and the calls of a key start in the order in which they were
  registered, which is the order in which they were made.
\<close>

theorem mutations_exclusive:
  assumes "reachable st"
  shows "length (of_key k (mq_running st)) \<le> 1 \<and> prefix (calls_of k (mq_started st)) (calls_of k (mq_registered st))"
proof -
  have "key_inv (mq_released st) (map_of (mq_queues st) k) (of_key k (mq_running st)) (of_key k (mq_waiting st))
      (calls_of k (mq_registered st)) (calls_of k (mq_started st))"
    using queue_inv_reachable [OF assms] unfolding queue_inv_def by blast
  then show ?thesis unfolding key_inv_def by auto
qed

text \<open>A state with a call that has not finished is not stuck, and one without holds no queue.\<close>

lemma queue_not_stuck:
  assumes "reachable st" "mq_calls st \<noteq> [] \<or> mq_waiting st \<noteq> [] \<or> mq_running st \<noteq> []"
  shows "\<exists>st'. queue_step st st' \<and> length (mq_calls st') \<le> length (mq_calls st)"
proof -
  consider c cs where "mq_calls st = c # cs" | q where "q \<in> set (mq_running st)"
    | q where "q \<in> set (mq_waiting st)" "mq_running st = []"
    using assms(2) by (cases "mq_calls st"; cases "mq_running st"; cases "mq_waiting st") auto
  then show ?thesis
  proof cases
    case 1
    then show ?thesis using queue_step.no_key [OF 1] by auto
  next
    case 2
    then show ?thesis using queue_step.finish [OF 2] by (auto simp: release_def Let_def)
  next
    case 3
    then have "q \<in> set (of_key (qd_key q) (mq_waiting st))" by simp
    then obtain h t where t: "of_key (qd_key q) (mq_waiting st) = h # t" by (metis list.set_cases)
    have "key_inv (mq_released st) (map_of (mq_queues st) (qd_key q)) [] (h # t)
        (calls_of (qd_key q) (mq_registered st)) (calls_of (qd_key q) (mq_started st))"
      using queue_inv_reachable [OF assms(1)] 3(2) t by (simp add: queue_inv_def) (metis of_key_simps(1))
    then have "may_start st h" by (simp add: key_inv_def may_start_def)
    moreover have "h \<in> set (mq_waiting st)" using arg_cong [OF t, of set] by auto
    ultimately show ?thesis using queue_step.start [of h st] by (auto simp: start_call_def)
  qed
qed

lemma idle_queue_empty:
  assumes "reachable st" "mq_waiting st = []" "mq_running st = []"
  shows "map_of (mq_queues st) k = None"
  using queue_inv_reachable [OF assms(1)] assms(2,3) by (auto simp: queue_inv_def key_inv_def)

theorem mutations_exclusive_witness:
  "\<exists>st. reachable st \<and> length (mq_running st) = 1 \<and> length (mq_waiting st) = 1 \<and>
     length (of_key (js_lit ''f'') (mq_running st)) \<le> 1 \<and> prefix (calls_of (js_lit ''f'') (mq_started st)) (calls_of (js_lit ''f'') (mq_registered st))"
proof -
  let ?q = "\<lparr>qd_call = 0, qd_key = js_lit ''f'', qd_current = None\<rparr>"
  let ?s1 = "register 0 (js_lit ''f'') new_queue_state"
  let ?s2 = "register 1 (js_lit ''f'') ?s1"
  let ?s3 = "start_call ?q ?s2"
  note defs = register_def start_call_def new_queue_state_def
  have "reachable (new_queue_state\<lparr>mq_calls := [0]\<rparr>)"
    using reachable.step [OF reachable.initial queue_step.call [of 0 new_queue_state]] by (simp add: new_queue_state_def)
  from reachable.step [OF this queue_step.registration [of _ 0 "[]" "js_lit ''f''"]] have "reachable ?s1" by (simp add: new_queue_state_def)
  from reachable.step [OF this queue_step.call [of 1 ?s1]] have "reachable (?s1\<lparr>mq_calls := [1]\<rparr>)" by (simp add: defs)
  from reachable.step [OF this queue_step.registration [of _ 1 "[]" "js_lit ''f''"]] have "reachable ?s2" by (simp add: defs)
  from reachable.step [OF this queue_step.start [of ?q ?s2]] have "reachable ?s3" by (simp add: defs may_start_def)
  moreover have "length (mq_running ?s3) = 1" "length (mq_waiting ?s3) = 1" by (simp_all add: defs)
  ultimately show ?thesis using mutations_exclusive [of ?s3 "js_lit ''f''"] by blast
qed

end
